(* ===== verification/Prelude.thy ===== *)
theory Prelude
  imports Main "HOL-Library.AList" "HOL-Library.Multiset" "HOL-Library.List_Lexorder"
    "HOL-Library.Char_ord"
begin

text \<open>
  Shared ground of the development: the result type of fallible Go functions, Go maps as
  association lists, Go's unspecified orders (the order of \<^verbatim>\<open>range\<close> over a map and the order
  \<^verbatim>\<open>sort.Slice\<close> gives to equal elements), and the generic list lemmas that the component
  theories use.

  A Go map is an association list whose keys are distinct (\<^verbatim>\<open>goMap\<close>). \<^verbatim>\<open>m[k] = v\<close> is
  \<^verbatim>\<open>AList.update k v m\<close>, \<^verbatim>\<open>delete(m, k)\<close> is \<^verbatim>\<open>AList.delete k m\<close>, \<^verbatim>\<open>m[k]\<close> is
  \<^verbatim>\<open>map_of m k\<close>. The order of the list is the order in which \<^verbatim>\<open>range\<close> visits the map;
  every theorem quantifies over the list, so it holds for any order of the maps given.
\<close>

named_theorems go_string "Go's string functions, unfolded"
named_theorems cleanup_defs "definitions of the cleanup components"
named_theorems scan_defs "definitions of the history scanner"

section \<open>Results\<close>

text \<open>A function that returns \<^verbatim>\<open>(value, error)\<close> has the type \<open>'e + 'a\<close>, \<open>Inl\<close> for the error.\<close>

definition bindR :: "'e + 'a \<Rightarrow> ('a \<Rightarrow> 'e + 'b) \<Rightarrow> 'e + 'b" where
  "bindR r f = (case r of Inl e \<Rightarrow> Inl e | Inr a \<Rightarrow> f a)"

lemma bindR_simps [simp]: "bindR (Inl e) f = Inl e" "bindR (Inr a) f = f a"
  by (simp_all add: bindR_def)

lemma bindR_Inr: "bindR r f = Inr b \<longleftrightarrow> (\<exists>a. r = Inr a \<and> f a = Inr b)"
  by (cases r) auto

lemma bindR_Inl: "bindR r f = Inl e \<longleftrightarrow> r = Inl e \<or> (\<exists>a. r = Inr a \<and> f a = Inl e)"
  by (cases r) auto

text \<open>A loop whose body may return an error: it stops at the first one.\<close>

fun foldR :: "('s \<Rightarrow> 'a \<Rightarrow> 'e + 's) \<Rightarrow> 's \<Rightarrow> 'a list \<Rightarrow> 'e + 's" where
  "foldR f s [] = Inr s"
| "foldR f s (x # xs) = bindR (f s x) (\<lambda>s'. foldR f s' xs)"

lemma foldR_append: "foldR f s (xs @ ys) = bindR (foldR f s xs) (\<lambda>s'. foldR f s' ys)"
proof (induction xs arbitrary: s)
  case Nil
  show ?case by simp
next
  case (Cons x xs)
  then show ?case by (cases "f s x") auto
qed

text \<open>Rule for an invariant of such a loop.\<close>

lemma foldR_step:
  "f s x = Inr s1 \<Longrightarrow> foldR f s (x # xs) = foldR f s1 xs"
  "foldR f s ys = Inr s1 \<Longrightarrow> foldR f s (ys @ xs) = foldR f s1 xs"
  by (simp_all add: foldR_append)

lemma foldR_member: "foldR f s xs = Inr s' \<Longrightarrow> x \<in> set xs \<Longrightarrow> \<exists>s1 s2. f s1 x = Inr s2"
  by (induction xs arbitrary: s) (auto simp: bindR_Inr split: sum.splits)

lemma foldR_invariant:
  assumes "foldR f s xs = Inr s'" and "P s"
    and "\<And>s x s'. x \<in> set xs \<Longrightarrow> P s \<Longrightarrow> f s x = Inr s' \<Longrightarrow> P s'"
  shows "P s'"
  using assms
proof (induction xs arbitrary: s)
  case Nil
  then show ?case by simp
next
  case (Cons x xs)
  from Cons.prems(1) obtain t where t: "f s x = Inr t" and rest: "foldR f t xs = Inr s'"
    by (auto simp: bindR_Inr)
  have "P t" using Cons.prems(2,3) t by (meson list.set_intros(1))
  with rest show ?case using Cons.IH Cons.prems(3) by (meson list.set_intros(2))
qed

text \<open>A loop whose body never fails on its invariant returns.\<close>

lemma foldR_returns:
  assumes "P s" and "\<And>s x. x \<in> set xs \<Longrightarrow> P s \<Longrightarrow> \<exists>s'. f s x = Inr s' \<and> P s'"
  shows "\<exists>s'. foldR f s xs = Inr s' \<and> P s'"
  using assms
proof (induction xs arbitrary: s)
  case Nil
  then show ?case by simp
next
  case (Cons x xs)
  then obtain t where "f s x = Inr t" "P t" by (meson list.set_intros(1))
  with Cons.IH [of t] Cons.prems(2) show ?case by simp
qed

section \<open>Go maps\<close>

type_synonym ('k, 'v) goMap = "('k \<times> 'v) list"

definition is_goMap :: "('k, 'v) goMap \<Rightarrow> bool" where
  "is_goMap m \<longleftrightarrow> distinct (map fst m)"

lemma is_goMap_Nil [simp]: "is_goMap []"
  by (simp add: is_goMap_def)

lemma is_goMap_update [simp]: "is_goMap m \<Longrightarrow> is_goMap (AList.update k v m)"
  by (simp add: is_goMap_def distinct_update)

lemma is_goMap_delete [simp]: "is_goMap m \<Longrightarrow> is_goMap (AList.delete k m)"
  by (simp add: is_goMap_def distinct_delete)

lemma map_of_goMap: "is_goMap m \<Longrightarrow> map_of m k = Some v \<longleftrightarrow> (k, v) \<in> set m"
  by (simp add: is_goMap_def map_of_eq_Some_iff)

lemma map_of_update [simp]: "map_of (AList.update k v m) = (map_of m)(k \<mapsto> v)"
  by (rule update_conv')

lemma map_of_delete [simp]: "map_of (AList.delete k m) = (map_of m)(k := None)"
  by (rule delete_conv')

lemma fst_set_update [simp]: "fst ` set (AList.update k v m) = insert k (fst ` set m)"
  by (simp add: dom_update)

definition keys :: "('k, 'v) goMap \<Rightarrow> 'k set" where
  "keys m = fst ` set m"

lemma keys_Nil [simp]: "keys [] = {}"
  by (simp add: keys_def)

lemma keys_Cons [simp]: "keys (x # m) = insert (fst x) (keys m)"
  by (simp add: keys_def)

lemma finite_keys [simp]: "finite (keys m)"
  by (simp add: keys_def)

lemma keys_iff: "k \<in> keys m \<longleftrightarrow> map_of m k \<noteq> None"
  by (simp add: keys_def map_of_eq_None_iff)

lemma keysE:
  assumes "k \<in> keys m"
  obtains v where "map_of m k = Some v"
  using assms by (auto simp: keys_iff)

lemma keys_memI: "(k, v) \<in> set m \<Longrightarrow> k \<in> keys m"
  by (force simp: keys_def)

lemma keys_update [simp]: "keys (AList.update k v m) = insert k (keys m)"
  by (simp add: keys_def)

lemma keys_delete [simp]: "keys (AList.delete k m) = keys m - {k}"
  by (auto simp: keys_iff split: if_splits)

lemma update_fresh: "k \<notin> keys m \<Longrightarrow> AList.update k v m = m @ [(k, v)]"
  by (induction m) auto

lemma keys_append [simp]: "keys (m @ m') = keys m \<union> keys m'"
  by (auto simp: keys_def)

lemma is_goMap_Cons: "is_goMap (x # m) \<longleftrightarrow> fst x \<notin> keys m \<and> is_goMap m"
  by (simp add: is_goMap_def keys_def)

lemma card_keys: "is_goMap m \<Longrightarrow> card (keys m) = length m"
  by (metis distinct_card is_goMap_def keys_def length_map set_map)

text \<open>A lookup of a slice-valued map: a missing key reads as the nil slice.\<close>

definition sliceAt :: "('k, 'v list) goMap \<Rightarrow> 'k \<Rightarrow> 'v list" where
  "sliceAt m k = (case map_of m k of None \<Rightarrow> [] | Some vs \<Rightarrow> vs)"

text \<open>\<^verbatim>\<open>m[k] = append(m[k], vs...)\<close>\<close>

definition appendAt :: "('k, 'v list) goMap \<Rightarrow> 'k \<Rightarrow> 'v list \<Rightarrow> ('k, 'v list) goMap" where
  "appendAt m k vs = AList.update k (sliceAt m k @ vs) m"

lemma sliceAt_Nil [simp]: "sliceAt [] k = []"
  by (simp add: sliceAt_def)

lemma sliceAt_Cons [simp]: "sliceAt ((k, v) # m) k' = (if k' = k then v else sliceAt m k')"
  by (simp add: sliceAt_def)

lemma sliceAt_update [simp]:
  "sliceAt (AList.update k v m) k' = (if k' = k then v else sliceAt m k')"
  by (simp add: sliceAt_def)

lemma sliceAt_appendAt [simp]:
  "sliceAt (appendAt m k vs) k' = (if k' = k then sliceAt m k @ vs else sliceAt m k')"
  by (simp add: appendAt_def)

lemma is_goMap_appendAt [simp]: "is_goMap m \<Longrightarrow> is_goMap (appendAt m k vs)"
  by (simp add: appendAt_def)

lemma keys_appendAt [simp]: "keys (appendAt m k vs) = insert k (keys m)"
  by (simp add: appendAt_def)

lemma sliceAt_keys: "v \<in> set (sliceAt m k) \<Longrightarrow> k \<in> keys m"
  by (cases "map_of m k") (auto simp: sliceAt_def keys_iff)

lemma sliceAtE:
  assumes "v \<in> set (sliceAt m k)"
  obtains vs where "map_of m k = Some vs" and "v \<in> set vs"
  using assms by (cases "map_of m k") (auto simp: sliceAt_def)

lemma sliceAt_no_key: "k \<notin> keys m \<Longrightarrow> sliceAt m k = []"
  by (auto simp: sliceAt_def keys_iff)

lemma sliceAt_member: "is_goMap m \<Longrightarrow> (k, vs) \<in> set m \<Longrightarrow> sliceAt m k = vs"
  by (simp add: sliceAt_def map_of_goMap [THEN iffD2])

section \<open>Unspecified orders\<close>

text \<open>
  \<^verbatim>\<open>sort.Slice\<close> orders by a key and leaves the order of equal elements open. Sorting by an
  insertion sort after any permutation of the input reaches every order it may return, so
  a definition that calls it takes that permutation as its argument \<open>perm\<close>.
\<close>

definition sortSliceDesc :: "('a list \<Rightarrow> 'a list) \<Rightarrow> ('a \<Rightarrow> int) \<Rightarrow> 'a list \<Rightarrow> 'a list" where
  "sortSliceDesc perm key xs = sort_key (\<lambda>x. - key x) (perm xs)"

definition is_perm :: "('a list \<Rightarrow> 'a list) \<Rightarrow> bool" where
  "is_perm perm \<longleftrightarrow> (\<forall>xs. mset (perm xs) = mset xs)"

lemma is_perm_id [simp]: "is_perm (\<lambda>xs. xs)"
  by (simp add: is_perm_def)

lemma is_perm_rev [simp]: "is_perm rev"
  by (simp add: is_perm_def)

lemma mset_sortSliceDesc [simp]: "is_perm p \<Longrightarrow> mset (sortSliceDesc p key xs) = mset xs"
  by (simp add: sortSliceDesc_def is_perm_def)

lemma set_sortSliceDesc [simp]: "is_perm p \<Longrightarrow> set (sortSliceDesc p key xs) = set xs"
  by (metis mset_sortSliceDesc set_mset_mset)

lemma length_sortSliceDesc [simp]: "is_perm p \<Longrightarrow> length (sortSliceDesc p key xs) = length xs"
  by (metis mset_sortSliceDesc size_mset)

lemma distinct_sortSliceDesc [simp]: "is_perm p \<Longrightarrow> distinct (sortSliceDesc p key xs) = distinct xs"
  by (metis mset_sortSliceDesc mset_eq_imp_distinct_iff)

lemma sorted_sortSliceDesc: "sorted_wrt (\<lambda>x y. key y \<le> key x) (sortSliceDesc p key xs)"
proof -
  have "sorted (map (\<lambda>x. - key x) (sortSliceDesc p key xs))"
    by (simp add: sortSliceDesc_def)
  then show ?thesis by (simp add: sorted_wrt_map)
qed

text \<open>Of a list sorted downwards, what a prefix keeps is not older than what it drops.\<close>

lemma sorted_desc_take_drop:
  assumes "sorted_wrt (\<lambda>x y. key y \<le> (key x :: int)) xs"
    and "x \<in> set (take n xs)" and "y \<in> set (drop n xs)"
  shows "key y \<le> key x"
proof -
  have "sorted_wrt (\<lambda>x y. key y \<le> key x) (take n xs @ drop n xs)" using assms(1) by simp
  then show ?thesis using assms(2,3) unfolding sorted_wrt_append by blast
qed

section \<open>Lists\<close>

text \<open>The \<^verbatim>\<open>appendUnique\<close> idiom: add at the end unless present.\<close>

definition snocNew :: "'a list \<Rightarrow> 'a \<Rightarrow> 'a list" where
  "snocNew xs x = (if x \<in> set xs then xs else xs @ [x])"

lemma set_snocNew [simp]: "set (snocNew xs x) = insert x (set xs)"
  by (auto simp: snocNew_def)

lemma distinct_snocNew [simp]: "distinct (snocNew xs x) = distinct xs"
  by (auto simp: snocNew_def)

lemma set_foldl_snocNew [simp]: "set (foldl snocNew xs ys) = set xs \<union> set ys"
  by (induction ys arbitrary: xs) auto

lemma distinct_foldl_snocNew [simp]: "distinct (foldl snocNew xs ys) = distinct xs"
  by (induction ys arbitrary: xs) auto

lemma foldl_invariant:
  assumes "P s" and "\<And>s x. x \<in> set xs \<Longrightarrow> P s \<Longrightarrow> P (f s x)"
  shows "P (foldl f s xs)"
  using assms by (induction xs arbitrary: s) auto

end
