(* ===== verification/GoStrings.thy ===== *)
theory GoStrings
  imports Prelude
begin

text \<open>
  The functions of Go's packages \<^verbatim>\<open>strings\<close>, \<^verbatim>\<open>strconv\<close> and \<^verbatim>\<open>path/filepath\<close> (on Unix) that
  the modelled code calls, over \<open>string\<close> as a list of bytes.
\<close>

definition HasPrefix :: "string \<Rightarrow> string \<Rightarrow> bool" where
  "HasPrefix s p \<longleftrightarrow> take (length p) s = p"

definition HasSuffix :: "string \<Rightarrow> string \<Rightarrow> bool" where
  "HasSuffix s p \<longleftrightarrow> HasPrefix (rev s) (rev p)"

definition TrimPrefix :: "string \<Rightarrow> string \<Rightarrow> string" where
  "TrimPrefix s p = (if HasPrefix s p then drop (length p) s else s)"

definition TrimSuffix :: "string \<Rightarrow> string \<Rightarrow> string" where
  "TrimSuffix s p = (if HasSuffix s p then take (length s - length p) s else s)"

definition TrimRight :: "string \<Rightarrow> string \<Rightarrow> string" where
  "TrimRight s cutset = rev (dropWhile (\<lambda>c. c \<in> set cutset) (rev s))"

text \<open>\<^verbatim>\<open>strings.Cut\<close>: what stands before and after the first occurrence of the separator.\<close>

fun Cut :: "string \<Rightarrow> string \<Rightarrow> (string \<times> string) option" where
  "Cut [] sep = (if sep = [] then Some ([], []) else None)"
| "Cut (c # s) sep =
     (if HasPrefix (c # s) sep then Some ([], drop (length sep) (c # s))
      else (case Cut s sep of None \<Rightarrow> None | Some (a, b) \<Rightarrow> Some (c # a, b)))"

definition Contains :: "string \<Rightarrow> string \<Rightarrow> bool" where
  "Contains s sep \<longleftrightarrow> Cut s sep \<noteq> None"

text \<open>\<^verbatim>\<open>strings.SplitN(s, sep, 2)\<close>\<close>

definition SplitN2 :: "string \<Rightarrow> string \<Rightarrow> string list" where
  "SplitN2 s sep = (case Cut s sep of None \<Rightarrow> [s] | Some (a, b) \<Rightarrow> [a, b])"

text \<open>\<^verbatim>\<open>strings.Split\<close> on a separator of one byte.\<close>

fun SplitChar :: "string \<Rightarrow> char \<Rightarrow> string list" where
  "SplitChar [] c = [[]]"
| "SplitChar (x # s) c =
     (if x = c then [] # SplitChar s c
      else (case SplitChar s c of [] \<Rightarrow> [[x]] | p # ps \<Rightarrow> (x # p) # ps))"

fun Join :: "string list \<Rightarrow> string \<Rightarrow> string" where
  "Join [] sep = []"
| "Join [s] sep = s"
| "Join (s # t # ss) sep = s @ sep @ Join (t # ss) sep"

text \<open>Decimal numbers: the verb \<^verbatim>\<open>%d\<close>, and \<^verbatim>\<open>strconv.ParseInt(s, 10, 64)\<close>.\<close>

definition digitChar :: "nat \<Rightarrow> char" where
  "digitChar d = char_of (48 + d)"

function (sequential) fmtNat :: "nat \<Rightarrow> string" where
  "fmtNat n = (if n < 10 then [digitChar n] else fmtNat (n div 10) @ [digitChar (n mod 10)])"
  by pat_completeness auto
termination
  by (relation "measure id") auto

declare fmtNat.simps [simp del]

definition fmtInt :: "int \<Rightarrow> string" where
  "fmtInt i = (if i < 0 then ''-'' @ fmtNat (nat (- i)) else fmtNat (nat i))"

definition isDigit :: "char \<Rightarrow> bool" where
  "isDigit c \<longleftrightarrow> 48 \<le> (of_char c :: nat) \<and> (of_char c :: nat) \<le> 57"

definition digitVal :: "char \<Rightarrow> nat" where
  "digitVal c = of_char c - 48"

definition parseDigits :: "string \<Rightarrow> nat option" where
  "parseDigits s = (if s \<noteq> [] \<and> list_all isDigit s
     then Some (foldl (\<lambda>n c. 10 * n + digitVal c) 0 s) else None)"

definition ParseInt64 :: "string \<Rightarrow> int option" where
  "ParseInt64 s =
     (let (neg, ds) = (case s of [] \<Rightarrow> (False, [])
          | c # r \<Rightarrow> if c = CHR ''+'' then (False, r) else if c = CHR ''-'' then (True, r) else (False, s))
      in case parseDigits ds of
           None \<Rightarrow> None
         | Some n \<Rightarrow> let i = (if neg then - int n else int n)
             in if - (2 ^ 63) \<le> i \<and> i < 2 ^ 63 then Some i else None)"

section \<open>Paths\<close>

text \<open>
  \<^verbatim>\<open>filepath.Clean\<close>: drop empty and \<^verbatim>\<open>.\<close> elements, let \<^verbatim>\<open>..\<close> remove the element before it,
  drop \<^verbatim>\<open>..\<close> at the root. \<open>cleanStack\<close> keeps the elements processed so far, last first.
\<close>

fun cleanStack :: "bool \<Rightarrow> string list \<Rightarrow> string list \<Rightarrow> string list" where
  "cleanStack rooted st [] = rev st"
| "cleanStack rooted st (e # es) =
     (if e = [] \<or> e = ''.'' then cleanStack rooted st es
      else if e = ''..'' then
        (case st of
           [] \<Rightarrow> cleanStack rooted (if rooted then [] else [''..'']) es
         | t # ts \<Rightarrow> if t = ''..'' then cleanStack rooted (''..'' # st) es
                    else cleanStack rooted ts es)
      else cleanStack rooted (e # st) es)"

definition Clean :: "string \<Rightarrow> string" where
  "Clean p =
     (let rooted = (take 1 p = ''/'');
          s = Join (cleanStack rooted [] (SplitChar p (CHR ''/''))) ''/''
      in if rooted then ''/'' @ s else if s = [] then ''.'' else s)"

text \<open>\<^verbatim>\<open>filepath.Join\<close>: leading empty elements are ignored, the result is cleaned.\<close>

definition PathJoin :: "string list \<Rightarrow> string" where
  "PathJoin es = (let fs = dropWhile (\<lambda>e. e = []) es in if fs = [] then [] else Clean (Join fs ''/''))"

section \<open>Lemmas\<close>

lemma HasPrefix_append [simp]: "HasPrefix (p @ s) p"
  by (simp add: HasPrefix_def)

lemma HasPrefix_iff: "HasPrefix s p \<longleftrightarrow> (\<exists>r. s = p @ r)"
  by (metis HasPrefix_append HasPrefix_def append_take_drop_id)

lemma HasSuffix_iff: "HasSuffix s p \<longleftrightarrow> (\<exists>r. s = r @ p)"
  unfolding HasSuffix_def HasPrefix_iff by (metis rev_append rev_rev_ident)

lemma TrimPrefix_append [simp]: "TrimPrefix (p @ s) p = s"
  by (simp add: TrimPrefix_def)

lemma HasPrefix_Cons: "HasPrefix (x # s) (c # p) \<longleftrightarrow> x = c \<and> HasPrefix s p"
  by (simp add: HasPrefix_def)

lemma HasPrefix_Nil [simp]: "HasPrefix s []" "HasPrefix [] (c # p) = False"
  by (simp_all add: HasPrefix_def)

lemma Cut_Some: "Cut s sep = Some (a, b) \<Longrightarrow> s = a @ sep @ b"
proof (induction s arbitrary: a b)
  case Nil
  then show ?case by (auto split: if_splits)
next
  case (Cons c s)
  show ?case
  proof (cases "HasPrefix (c # s) sep")
    case True
    with Cons.prems have "a = []" and "b = drop (length sep) (c # s)" by auto
    with True show ?thesis by (metis HasPrefix_def append_Nil append_take_drop_id)
  next
    case False
    with Cons.prems obtain a' where "Cut s sep = Some (a', b)" and "a = c # a'"
      by (auto split: option.splits)
    with Cons.IH show ?thesis by simp
  qed
qed

text \<open>A separator of one byte that does not occur before its first occurrence cuts there.\<close>

lemma Cut_char: "c \<notin> set a \<Longrightarrow> Cut (a @ c # b) [c] = Some (a, b)"
  by (induction a) (auto simp: HasPrefix_Cons)

lemma Cut_char_None: "c \<notin> set s \<Longrightarrow> Cut s [c] = None"
  by (induction s) (auto simp: HasPrefix_Cons)

lemma SplitChar_not_Nil [simp]: "SplitChar s c \<noteq> []"
  by (cases s) (auto split: list.splits)

lemma SplitChar_append: "c \<notin> set a \<Longrightarrow> SplitChar (a @ c # s) c = a # SplitChar s c"
  by (induction a) auto

lemma SplitChar_none: "c \<notin> set s \<Longrightarrow> SplitChar s c = [s]"
  by (induction s) auto

lemma SplitChar_elem: "e \<in> set (SplitChar s c) \<Longrightarrow> c \<notin> set e"
  by (induction s arbitrary: e) (auto split: list.splits if_splits)

lemma SplitChar_Join:
  "es \<noteq> [] \<Longrightarrow> (\<And>e. e \<in> set es \<Longrightarrow> c \<notin> set e) \<Longrightarrow> SplitChar (Join es [c]) c = es"
proof (induction es "[c]" rule: Join.induct)
  case 1
  then show ?case by simp
next
  case (2 s)
  then show ?case by (simp add: SplitChar_none)
next
  case (3 s t ss)
  then show ?case by (simp add: SplitChar_append)
qed

text \<open>Numbers: what \<^verbatim>\<open>%d\<close> prints, \<^verbatim>\<open>ParseInt\<close> reads back.\<close>

lemma isDigit_digitChar [simp]: "d < 10 \<Longrightarrow> isDigit (digitChar d)"
  by (simp add: isDigit_def digitChar_def)

lemma digitVal_digitChar [simp]: "d < 10 \<Longrightarrow> digitVal (digitChar d) = d"
  by (simp add: digitVal_def digitChar_def)

lemma fmtNat_digits: "list_all isDigit (fmtNat n)" "fmtNat n \<noteq> []"
proof -
  show "list_all isDigit (fmtNat n)"
    by (induction n rule: fmtNat.induct) (subst fmtNat.simps, auto)
  show "fmtNat n \<noteq> []" by (subst fmtNat.simps) simp
qed

lemma fmtNat_value: "foldl (\<lambda>n c. 10 * n + digitVal c) 0 (fmtNat n) = n"
proof (induction n rule: fmtNat.induct)
  case (1 n)
  then show ?case by (cases "n < 10") (subst fmtNat.simps, simp)+
qed

lemma parseDigits_fmtNat [simp]: "parseDigits (fmtNat n) = Some n"
  by (simp add: parseDigits_def fmtNat_digits fmtNat_value)

lemma fmtNat_hd: "\<exists>d r. fmtNat n = d # r \<and> isDigit d"
  using fmtNat_digits [of n] by (cases "fmtNat n") auto

lemma not_isDigit_sign [simp]: "\<not> isDigit (CHR ''-'')" "\<not> isDigit (CHR ''+'')"
  by (simp_all add: isDigit_def)

lemma ParseInt64_fmtInt: "- (2 ^ 63) \<le> i \<Longrightarrow> i < 2 ^ 63 \<Longrightarrow> ParseInt64 (fmtInt i) = Some i"
proof (cases "i < 0")
  case True
  assume "- (2 ^ 63) \<le> i" "i < 2 ^ 63"
  with True show ?thesis by (simp add: ParseInt64_def fmtInt_def)
next
  case False
  assume "- (2 ^ 63) \<le> i" "i < 2 ^ 63"
  moreover obtain d r where "fmtNat (nat i) = d # r" "isDigit d" using fmtNat_hd by blast
  moreover from this have "d \<noteq> CHR ''+''" "d \<noteq> CHR ''-''" by auto
  moreover have "parseDigits (fmtNat (nat i)) = Some (nat i)" by simp
  ultimately show ?thesis using False by (simp add: ParseInt64_def fmtInt_def)
qed

end
