(* ===== verification/MetaCleanup.thy ===== *)
theory MetaCleanup
  imports GoStrings
begin

text \<open>
  The \<^verbatim>\<open>cleanup\<close> section of the configuration: \<^verbatim>\<open>pkg/config/meta_cleanup.go\<close> (the policies the
  cleanup consults) and \<^verbatim>\<open>pkg/config/raw_meta_cleanup.go\<close> (the checks made when the YAML document
  is read and the conversion to the policies). The YAML decoder is not under \<^verbatim>\<open>src/\<close>: the raw
  records are what it has decoded. A compiled regular expression is its source text with the
  predicate that \<^verbatim>\<open>MatchString\<close> computes; the compiler is an argument. Durations are nanoseconds.
\<close>

section \<open>Policies\<close>

type_synonym Operator = string

abbreviation OrOperator :: Operator where "OrOperator \<equiv> ''Or''"
abbreviation AndOperator :: Operator where "AndOperator \<equiv> ''And''"

datatype Regexp = Regexp (expr: string) (MatchString: "string \<Rightarrow> bool")

record metaCleanupKeepPolicyLimit =
  klLast :: "int option"
  klIn :: "int option"
  klOperator :: "Operator option"

definition newLimit :: "int option \<Rightarrow> int option \<Rightarrow> Operator option \<Rightarrow> metaCleanupKeepPolicyLimit" where
  "newLimit l i oper = \<lparr>klLast = l, klIn = i, klOperator = oper\<rparr>"

definition defaultReferencesLimitLast :: int where "defaultReferencesLimitLast = -1"
definition defaultImagesPerReferenceLast :: int where "defaultImagesPerReferenceLast = 1"

definition ReferencesLimit_Last :: "metaCleanupKeepPolicyLimit \<Rightarrow> int" where
  "ReferencesLimit_Last c = (case klLast c of None \<Rightarrow> defaultReferencesLimitLast | Some n \<Rightarrow> n)"

definition ReferencesLimit_Operator :: "metaCleanupKeepPolicyLimit \<Rightarrow> Operator" where
  "ReferencesLimit_Operator c =
     (case klOperator c of None \<Rightarrow> AndOperator | Some oper \<Rightarrow> if oper = [] then AndOperator else oper)"

definition ImagesPerReference_Last :: "metaCleanupKeepPolicyLimit \<Rightarrow> int" where
  "ImagesPerReference_Last c = (case klLast c of None \<Rightarrow> defaultImagesPerReferenceLast | Some n \<Rightarrow> n)"

definition ImagesPerReference_Operator :: "metaCleanupKeepPolicyLimit \<Rightarrow> Operator" where
  "ImagesPerReference_Operator c =
     (case klOperator c of None \<Rightarrow> AndOperator | Some oper \<Rightarrow> if oper = [] then AndOperator else oper)"

record MetaCleanupKeepPolicyReferences =
  TagRegexp :: "Regexp option"
  BranchRegexp :: "Regexp option"
  Limit :: "metaCleanupKeepPolicyLimit option"

record MetaCleanupKeepPolicy =
  References :: MetaCleanupKeepPolicyReferences
  ImagesPerReference :: metaCleanupKeepPolicyLimit

record MetaCleanup =
  DisableCleanup :: bool
  DisableKubernetesBasedPolicy :: bool
  DisableGitHistoryBasedPolicy :: bool
  DisableBuiltWithinLastNHoursPolicy :: bool
  KeepImagesBuiltWithinLastNHours :: nat
  KeepPolicies :: "MetaCleanupKeepPolicy list"

text \<open>The zero value of \<^verbatim>\<open>MetaCleanupKeepPolicyImagesPerReference\<close>.\<close>

definition zeroLimit :: metaCleanupKeepPolicyLimit where
  "zeroLimit = newLimit None None None"

section \<open>Reading the configuration\<close>

datatype configError =
    UnsupportedAttributesErr
  | NoReferencesSection
  | TagOrBranchRequired
  | OnlyTagOrBranch
  | InvalidRegexp string string
  | UnsupportedOperator string

text \<open>The raw limit; \<open>rlUnsupported\<close> is whether \<^verbatim>\<open>UnsupportedAttributes\<close> is non-empty.\<close>

record rawLimit =
  rlLast :: "int option"
  rlIn :: "int option"
  rlOperator :: "Operator option"
  rlUnsupported :: bool

record rawReferences =
  rrTag :: string
  rrBranch :: string
  rrLimit :: "rawLimit option"
  rrUnsupported :: bool

record rawKeepPolicy =
  rpReferences :: "rawReferences option"
  rpImagesPerReference :: "rawLimit option"
  rpUnsupported :: bool

record rawMetaCleanup =
  rcDisableCleanup :: bool
  rcDisableKubernetesBasedPolicy :: bool
  rcDisableGitHistoryBasedPolicy :: bool
  rcDisableBuiltWithinLastNHoursPolicy :: bool
  rcKeepPolicies :: "rawKeepPolicy list"
  rcKeepImagesBuiltWithinLastNHours :: "nat option"
  rcUnsupported :: bool

definition checkOverflow :: "bool \<Rightarrow> configError + unit" where
  "checkOverflow unsupported = (if unsupported then Inl UnsupportedAttributesErr else Inr ())"

definition unmarshalReferencesLimit :: "rawLimit \<Rightarrow> configError + rawLimit" where
  "unmarshalReferencesLimit c =
     bindR (checkOverflow (rlUnsupported c)) (\<lambda>_.
       case rlOperator c of
         None \<Rightarrow> Inr c
       | Some oper \<Rightarrow> if oper \<noteq> ''Or'' \<and> oper \<noteq> ''And'' then Inl (UnsupportedOperator oper) else Inr c)"

text \<open>
  \<^verbatim>\<open>type rawMetaCleanupKeepPolicyImagesPerReference rawMetaCleanupKeepPolicyReferencesLimit\<close>
  declares a new type, and a new type has none of the methods of the old one: the decoder fills
  it in without calling the \<^verbatim>\<open>UnmarshalYAML\<close> above.
\<close>

definition unmarshalImagesPerReference :: "rawLimit \<Rightarrow> configError + rawLimit" where
  "unmarshalImagesPerReference c = Inr c"

text \<open>\<^verbatim>\<open>regexp.QuoteMeta\<close>\<close>

definition QuoteMeta :: "string \<Rightarrow> string" where
  "QuoteMeta s = concat (map (\<lambda>c. if c \<in> set (CHR 0x5C # ''.+*?()|[]{}^$'') then [CHR 0x5C, c] else [c]) s)"

definition processRegexpString ::
  "(string \<Rightarrow> string + Regexp) \<Rightarrow> string \<Rightarrow> string \<Rightarrow> configError + Regexp" where
  "processRegexpString compile name configValue =
     (let value = (if HasPrefix configValue ''/'' \<and> HasSuffix configValue ''/''
                   then TrimSuffix (TrimPrefix configValue ''/'') ''/''
                   else QuoteMeta configValue)
      in case compile (''^'' @ value @ ''$'') of
           Inl e \<Rightarrow> Inl (InvalidRegexp configValue name)
         | Inr regex \<Rightarrow> Inr regex)"

text \<open>The checked references with their compiled expressions, tag first.\<close>

definition unmarshalReferences ::
  "(string \<Rightarrow> string + Regexp) \<Rightarrow> rawReferences \<Rightarrow>
     configError + (rawReferences \<times> Regexp option \<times> Regexp option)" where
  "unmarshalReferences compile c =
     bindR (case rrLimit c of None \<Rightarrow> Inr () | Some l \<Rightarrow> bindR (unmarshalReferencesLimit l) (\<lambda>_. Inr ())) (\<lambda>_.
     bindR (checkOverflow (rrUnsupported c)) (\<lambda>_.
       if rrTag c = [] \<and> rrBranch c = [] then Inl TagOrBranchRequired
       else if rrTag c \<noteq> [] \<and> rrBranch c \<noteq> [] then Inl OnlyTagOrBranch
       else if rrBranch c \<noteq> [] then
         bindR (processRegexpString compile ''branch'' (rrBranch c)) (\<lambda>regex. Inr (c, None, Some regex))
       else
         bindR (processRegexpString compile ''tag'' (rrTag c)) (\<lambda>regex. Inr (c, Some regex, None))))"

definition toMetaCleanupKeepPolicyReferences ::
  "rawReferences \<times> Regexp option \<times> Regexp option \<Rightarrow> MetaCleanupKeepPolicyReferences" where
  "toMetaCleanupKeepPolicyReferences c =
     (case c of (r, tagRegexp, branchRegexp) \<Rightarrow>
        \<lparr>TagRegexp = tagRegexp, BranchRegexp = branchRegexp,
         Limit = map_option (\<lambda>l. newLimit (rlLast l) (rlIn l) (rlOperator l)) (rrLimit r)\<rparr>)"

text \<open>
  \<^verbatim>\<open>UnmarshalYAML\<close> of a keep policy followed by \<^verbatim>\<open>toMetaCleanupKeepPolicy\<close>: the references and
  the images limit are read first, then the policy itself is checked.
\<close>

definition readKeepPolicy ::
  "(string \<Rightarrow> string + Regexp) \<Rightarrow> rawKeepPolicy \<Rightarrow> configError + MetaCleanupKeepPolicy" where
  "readKeepPolicy compile c =
     bindR (case rpReferences c of None \<Rightarrow> Inr None
            | Some r \<Rightarrow> bindR (unmarshalReferences compile r) (\<lambda>u. Inr (Some u))) (\<lambda>refs.
     bindR (case rpImagesPerReference c of None \<Rightarrow> Inr None
            | Some l \<Rightarrow> bindR (unmarshalImagesPerReference l) (\<lambda>u. Inr (Some u))) (\<lambda>imgs.
     bindR (checkOverflow (rpUnsupported c)) (\<lambda>_.
       case refs of
         None \<Rightarrow> Inl NoReferencesSection
       | Some u \<Rightarrow> Inr \<lparr>References = toMetaCleanupKeepPolicyReferences u,
           ImagesPerReference = (case imgs of None \<Rightarrow> zeroLimit
             | Some l \<Rightarrow> newLimit (rlLast l) (rlIn l) (rlOperator l))\<rparr>)))"

definition DefaultKeepImagesBuiltWithinLastNHours :: nat where
  "DefaultKeepImagesBuiltWithinLastNHours = 2"

definition toMetaCleanup ::
  "(string \<Rightarrow> string + Regexp) \<Rightarrow> rawMetaCleanup \<Rightarrow> configError + MetaCleanup" where
  "toMetaCleanup compile c =
     bindR (foldR (\<lambda>ps p. bindR (readKeepPolicy compile p) (\<lambda>q. Inr (ps @ [q]))) [] (rcKeepPolicies c)) (\<lambda>policies.
     bindR (checkOverflow (rcUnsupported c)) (\<lambda>_.
       Inr \<lparr>DisableCleanup = rcDisableCleanup c,
            DisableKubernetesBasedPolicy = rcDisableKubernetesBasedPolicy c,
            DisableGitHistoryBasedPolicy = rcDisableGitHistoryBasedPolicy c,
            DisableBuiltWithinLastNHoursPolicy = rcDisableBuiltWithinLastNHoursPolicy c,
            KeepImagesBuiltWithinLastNHours = (case rcKeepImagesBuiltWithinLastNHours c of
               None \<Rightarrow> DefaultKeepImagesBuiltWithinLastNHours | Some n \<Rightarrow> n),
            KeepPolicies = policies\<rparr>))"

section \<open>What an accepted configuration guarantees\<close>

definition wf_references :: "MetaCleanupKeepPolicyReferences \<Rightarrow> bool" where
  "wf_references r \<longleftrightarrow> (TagRegexp r = None) \<noteq> (BranchRegexp r = None) \<and>
     (case Limit r of None \<Rightarrow> True
      | Some l \<Rightarrow> ReferencesLimit_Operator l = AndOperator \<or> ReferencesLimit_Operator l = OrOperator)"

lemma unmarshalReferencesLimit_operator:
  "unmarshalReferencesLimit l = Inr l' \<Longrightarrow> l' = l \<and> (rlOperator l = None \<or> rlOperator l = Some ''Or'' \<or> rlOperator l = Some ''And'')"
  by (auto simp: unmarshalReferencesLimit_def bindR_Inr split: option.splits if_splits)

lemma unmarshalReferences_wf:
  assumes "unmarshalReferences compile c = Inr u"
  shows "wf_references (toMetaCleanupKeepPolicyReferences u)"
proof -
  have lim: "rrLimit c = Some l \<Longrightarrow> rlOperator l = None \<or> rlOperator l = Some ''Or'' \<or> rlOperator l = Some ''And''" for l
    using assms by (auto simp: unmarshalReferences_def bindR_Inr dest: unmarshalReferencesLimit_operator)
  obtain t b where u: "u = (c, t, b)" and one: "(t = None) \<noteq> (b = None)"
    using assms by (auto simp: unmarshalReferences_def bindR_Inr split: if_splits)
  show ?thesis
  proof (cases "rrLimit c")
    case None
    with u one show ?thesis by (simp add: wf_references_def toMetaCleanupKeepPolicyReferences_def)
  next
    case (Some l)
    with lim [OF Some] u one show ?thesis
      by (auto simp: wf_references_def toMetaCleanupKeepPolicyReferences_def newLimit_def
          ReferencesLimit_Operator_def)
  qed
qed

lemma readKeepPolicy_wf:
  "readKeepPolicy compile c = Inr p \<Longrightarrow> wf_references (References p)"
  by (auto simp: readKeepPolicy_def bindR_Inr unmarshalReferences_wf split: option.splits)

text \<open>Every keep policy of an accepted \<^verbatim>\<open>cleanup\<close> section selects either tags or branches,
  never both and never neither, and the operator of its references limit is And or Or.\<close>

theorem accepted_policies_wf:
  assumes "toMetaCleanup compile c = Inr m" and "p \<in> set (KeepPolicies m)"
  shows "wf_references (References p)"
proof -
  obtain ps where ps: "foldR (\<lambda>ps p. bindR (readKeepPolicy compile p) (\<lambda>q. Inr (ps @ [q]))) [] (rcKeepPolicies c) = Inr ps"
    and m: "KeepPolicies m = ps"
    using assms(1) by (auto simp: toMetaCleanup_def bindR_Inr)
  have "\<forall>p\<in>set ps. wf_references (References p)"
    by (rule foldR_invariant [OF ps]) (auto simp: bindR_Inr dest: readKeepPolicy_wf)
  with m assms(2) show ?thesis by simp
qed

definition sampleCompile :: "string \<Rightarrow> string + Regexp" where
  "sampleCompile e = Inr (Regexp e (\<lambda>s. ''^'' @ s @ ''$'' = e))"

definition sampleRaw :: "Operator \<Rightarrow> rawMetaCleanup" where
  "sampleRaw oper = \<lparr>rcDisableCleanup = False, rcDisableKubernetesBasedPolicy = False,
     rcDisableGitHistoryBasedPolicy = False, rcDisableBuiltWithinLastNHoursPolicy = False,
     rcKeepPolicies = [\<lparr>rpReferences = Some \<lparr>rrTag = [], rrBranch = ''main'', rrLimit = None, rrUnsupported = False\<rparr>,
        rpImagesPerReference = Some \<lparr>rlLast = Some 3, rlIn = Some 7, rlOperator = Some oper, rlUnsupported = False\<rparr>,
        rpUnsupported = False\<rparr>],
     rcKeepImagesBuiltWithinLastNHours = None, rcUnsupported = False\<rparr>"

lemmas config_defs = toMetaCleanup_def readKeepPolicy_def unmarshalReferences_def checkOverflow_def
  unmarshalImagesPerReference_def processRegexpString_def toMetaCleanupKeepPolicyReferences_def
  QuoteMeta_def HasPrefix_def HasSuffix_def sampleCompile_def sampleRaw_def

theorem accepted_policies_wf_witness:
  "\<exists>m p. toMetaCleanup sampleCompile (sampleRaw ''And'') = Inr m \<and> p \<in> set (KeepPolicies m) \<and>
     wf_references (References p)"
proof -
  obtain m where m: "toMetaCleanup sampleCompile (sampleRaw ''And'') = Inr m" and ne: "KeepPolicies m \<noteq> []"
    by (simp add: config_defs)
  then obtain p where p: "p \<in> set (KeepPolicies m)" by (cases "KeepPolicies m") auto
  show ?thesis using m p accepted_policies_wf [OF m p] by blast
qed

text \<open>The operator of \<^verbatim>\<open>imagesPerReference\<close> is not validated: a section with an operator that is
  neither And nor Or is accepted, and the policy carries that operator.\<close>

theorem images_operator_unchecked:
  "\<exists>m p. toMetaCleanup sampleCompile (sampleRaw ''Xor'') = Inr m \<and> KeepPolicies m = [p] \<and>
     ImagesPerReference_Operator (ImagesPerReference p) = ''Xor''"
  by (simp add: config_defs ImagesPerReference_Operator_def newLimit_def)

end
