(* ===== verification/GitRefs.thy ===== *)
theory GitRefs
  imports MetaCleanup
begin

text \<open>
  Which git references the history-based cleanup scans, and with which keep policy:
  \<^verbatim>\<open>pkg/cleaning/git_history_based_cleanup/reference_to_scan.go\<close>. The go-git repository is an
  argument: the record \<open>gitRepository\<close> holds the calls the code makes. References are pointers
  in the source and the keep policy of a reference is assigned through them, so the model has an
  explicit store \<open>ReferenceToScan list\<close>, and a pointer is an index into it. \<open>now\<close> is
  \<^verbatim>\<open>time.Now()\<close>; \<open>perm\<close> is the order \<^verbatim>\<open>sort.Slice\<close> leaves open.
\<close>

section \<open>Data\<close>

record Commit =
  cHash :: string
  cWhen :: int
  cParents :: "string list"

text \<open>
  The objects a tag may lead to. \<open>TagObj\<close> carries what \<^verbatim>\<open>objType.Object()\<close> returns when the target
  is not a commit.
\<close>

datatype gitError = GitError string | UnsupportedTagTarget string | IndexOutOfRange

datatype gitObject =
    TagToCommit string
  | TagToObject "gitError + gitObject"
  | CommitObj string
  | OtherObj string

text \<open>\<open>tagObjectOf\<close> is \<^verbatim>\<open>TagObject(hash)\<close>: \<open>Inr None\<close> stands for \<^verbatim>\<open>ErrObjectNotFound\<close>.\<close>

record gitRepository =
  grReferences :: "gitError + (string \<times> string) list"
  grIsRemote :: "string \<Rightarrow> bool"
  grIsTag :: "string \<Rightarrow> bool"
  grShort :: "string \<Rightarrow> string"
  grZeroHash :: string
  grCommitObject :: "string \<Rightarrow> gitError + Commit"
  grTagObject :: "string \<Rightarrow> gitError + int option"
  grResolve :: "string \<Rightarrow> gitError + gitObject"

record ReferenceToScan =
  rtsName :: string
  CreatedAt :: int
  HeadCommit :: Commit
  scanDepthLimit :: int
  imagesCleanupKeepPolicy :: metaCleanupKeepPolicyLimit

type_synonym refPtr = nat
type_synonym refStore = "ReferenceToScan list"

section \<open>Collecting references\<close>

fun commitHashOfObject :: "gitObject \<Rightarrow> gitError + string" where
  "commitHashOfObject (TagToObject r) = (case r of Inl e \<Rightarrow> Inl e | Inr obj \<Rightarrow> commitHashOfObject obj)"
| "commitHashOfObject (TagToCommit target) = Inr target"
| "commitHashOfObject (CommitObj h) = Inr h"
| "commitHashOfObject (OtherObj t) = Inl (UnsupportedTagTarget t)"

definition getCommitHashForReference :: "gitRepository \<Rightarrow> string \<Rightarrow> gitError + string" where
  "getCommitHashForReference repo reference = bindR (grResolve repo reference) commitHashOfObject"

text \<open>The body of \<^verbatim>\<open>rs.ForEach\<close>: \<open>None\<close> where the reference is passed over.\<close>

definition collectReference ::
  "gitRepository \<Rightarrow> string \<times> string \<Rightarrow> gitError + ReferenceToScan option" where
  "collectReference repo reference =
     (case reference of (n, refHash) \<Rightarrow>
      if \<not> (grIsRemote repo n \<or> grIsTag repo n) then Inr None
      else if grIsRemote repo n \<and> \<not> HasPrefix (grShort repo n) ''origin/'' then Inr None
      else if \<not> grIsTag repo n then
        (if refHash = grZeroHash repo then Inr None
         else bindR (grCommitObject repo refHash) (\<lambda>refCommit.
           Inr (Some \<lparr>rtsName = n, CreatedAt = cWhen refCommit, HeadCommit = refCommit,
             scanDepthLimit = -1, imagesCleanupKeepPolicy = zeroLimit\<rparr>)))
      else
        bindR (getCommitHashForReference repo n) (\<lambda>h.
        bindR (grCommitObject repo h) (\<lambda>refCommit.
        bindR (grTagObject repo refHash) (\<lambda>tagger.
          Inr (Some \<lparr>rtsName = n,
             CreatedAt = (case tagger of None \<Rightarrow> cWhen refCommit | Some w \<Rightarrow> w),
             HeadCommit = refCommit, scanDepthLimit = 1, imagesCleanupKeepPolicy = zeroLimit\<rparr>)))))"

section \<open>Filtering and merging\<close>

fun selectBranchReferencesByRegexp ::
  "gitRepository \<Rightarrow> refStore \<Rightarrow> refPtr list \<Rightarrow> Regexp \<Rightarrow> gitError + refPtr list" where
  "selectBranchReferencesByRegexp repo h [] regexp = Inr []"
| "selectBranchReferencesByRegexp repo h (r # rs) regexp =
     (case SplitN2 (grShort repo (rtsName (h ! r))) ''/'' of
        [_, refShortNameWithoutRemote] \<Rightarrow>
          bindR (selectBranchReferencesByRegexp repo h rs regexp) (\<lambda>result.
            Inr (if MatchString regexp refShortNameWithoutRemote then r # result else result))
      | _ \<Rightarrow> Inl IndexOutOfRange)"

definition selectTagReferencesByRegexp ::
  "gitRepository \<Rightarrow> refStore \<Rightarrow> refPtr list \<Rightarrow> Regexp \<Rightarrow> refPtr list" where
  "selectTagReferencesByRegexp repo h tagsRefs regexp =
     filter (\<lambda>r. MatchString regexp (grShort repo (rtsName (h ! r)))) tagsRefs"

definition filterReferencesByIn ::
  "int \<Rightarrow> refStore \<Rightarrow> refPtr list \<Rightarrow> int option \<Rightarrow> refPtr list" where
  "filterReferencesByIn now h refs inn =
     (case inn of None \<Rightarrow> refs | Some d \<Rightarrow> filter (\<lambda>r. CreatedAt (h ! r) > now - d) refs)"

text \<open>The slice after the in-place sort, and the part of it that is returned.\<close>

definition filterReferencesByLast ::
  "(refPtr list \<Rightarrow> refPtr list) \<Rightarrow> refStore \<Rightarrow> refPtr list \<Rightarrow> int \<Rightarrow> refPtr list \<times> refPtr list" where
  "filterReferencesByLast perm h refs lst =
     (if lst < 0 then (refs, refs)
      else (let sorted = sortSliceDesc perm (\<lambda>r. CreatedAt (h ! r)) refs
            in if int (length sorted) < lst then (sorted, sorted) else (sorted, take (nat lst) sorted)))"

definition mergeReferences :: "refPtr list \<Rightarrow> refPtr list \<Rightarrow> refPtr list" where
  "mergeReferences refs1 refs2 =
     foldl (\<lambda>result ref1. if ref1 \<in> set refs2 then result else result @ [ref1]) refs2 refs1"

definition referencesOr :: "refPtr list \<Rightarrow> refPtr list \<Rightarrow> refPtr list" where
  "referencesOr refs1 refs2 = mergeReferences refs1 refs2"

definition referencesAnd :: "refPtr list \<Rightarrow> refPtr list \<Rightarrow> refPtr list" where
  "referencesAnd refs1 refs2 = filter (\<lambda>ref1. ref1 \<in> set refs2) refs1"

text \<open>
  \<^verbatim>\<open>filterReferencesByIn\<close> returns the given slice itself when there is no period, and
  \<^verbatim>\<open>filterReferencesByLast\<close> then sorts that slice in place: without a period both operands are
  the sorted slice.
\<close>

definition applyReferencesLimit ::
  "(refPtr list \<Rightarrow> refPtr list) \<Rightarrow> int \<Rightarrow> refStore \<Rightarrow> refPtr list \<Rightarrow>
     metaCleanupKeepPolicyLimit option \<Rightarrow> refPtr list" where
  "applyReferencesLimit perm now h refs limit =
     (case limit of None \<Rightarrow> refs
      | Some l \<Rightarrow>
        (let policyInRefs = filterReferencesByIn now h refs (klIn l);
             (refs', policyLastRefs) = filterReferencesByLast perm h refs (ReferencesLimit_Last l);
             policyInRefs' = (if klIn l = None then refs' else policyInRefs)
         in if ReferencesLimit_Operator l = OrOperator then referencesOr policyInRefs' policyLastRefs
            else referencesAnd policyInRefs' policyLastRefs))"

definition applyImagesPerReference ::
  "refStore \<Rightarrow> refPtr list \<Rightarrow> metaCleanupKeepPolicyLimit \<Rightarrow> refStore" where
  "applyImagesPerReference h refs imagesPerReference =
     foldl (\<lambda>h r. h[r := (h ! r)\<lparr>imagesCleanupKeepPolicy := imagesPerReference\<rparr>]) h refs"

definition applyCleanupKeepPolicy ::
  "(refPtr list \<Rightarrow> refPtr list) \<Rightarrow> int \<Rightarrow> refStore \<Rightarrow> refPtr list \<Rightarrow> MetaCleanupKeepPolicy \<Rightarrow>
     refStore \<times> refPtr list" where
  "applyCleanupKeepPolicy perm now h refs policy =
     (let refs' = applyReferencesLimit perm now h refs (Limit (References policy))
      in (applyImagesPerReference h refs' (ImagesPerReference policy), refs'))"

section \<open>All policies\<close>

abbreviation hourNs :: int where "hourNs \<equiv> 3600 * 1000000000"

definition anyRegexp :: Regexp where
  "anyRegexp = Regexp ''.*'' (\<lambda>_. True)"

definition mainBranchesRegexp :: Regexp where
  "mainBranchesRegexp = Regexp ''^(main|master|staging|production)$''
     (\<lambda>s. s \<in> {''main'', ''master'', ''staging'', ''production''})"

definition defaultKeepPolicies :: "MetaCleanupKeepPolicy list" where
  "defaultKeepPolicies =
    [\<lparr>References = \<lparr>TagRegexp = Some anyRegexp, BranchRegexp = None,
        Limit = Some (newLimit (Some 10) None None)\<rparr>,
      ImagesPerReference = zeroLimit\<rparr>,
     \<lparr>References = \<lparr>TagRegexp = None, BranchRegexp = Some anyRegexp,
        Limit = Some (newLimit (Some 10) (Some (hourNs * 24 * 7)) (Some AndOperator))\<rparr>,
      ImagesPerReference = newLimit (Some 2) (Some (hourNs * 24 * 7)) (Some AndOperator)\<rparr>,
     \<lparr>References = \<lparr>TagRegexp = None, BranchRegexp = Some mainBranchesRegexp, Limit = None\<rparr>,
      ImagesPerReference = newLimit (Some 10) None None\<rparr>]"

text \<open>One iteration of the loop over the policies: the store, the tags and the branches so far.\<close>

definition applyPolicy ::
  "gitRepository \<Rightarrow> (refPtr list \<Rightarrow> refPtr list) \<Rightarrow> int \<Rightarrow> refPtr list \<Rightarrow> refPtr list \<Rightarrow>
     refStore \<times> refPtr list \<times> refPtr list \<Rightarrow> MetaCleanupKeepPolicy \<Rightarrow>
     gitError + (refStore \<times> refPtr list \<times> refPtr list)" where
  "applyPolicy repo perm now branchesRefs tagsRefs st policy =
     (case st of (h, resultTagsRefs, resultBranchesRefs) \<Rightarrow>
        (case BranchRegexp (References policy) of
           Some regexp \<Rightarrow>
             bindR (selectBranchReferencesByRegexp repo h branchesRefs regexp) (\<lambda>sel.
               let (h', policyRefs) = applyCleanupKeepPolicy perm now h sel policy
               in Inr (h', resultTagsRefs, mergeReferences resultBranchesRefs policyRefs))
         | None \<Rightarrow>
             (case TagRegexp (References policy) of
                Some regexp \<Rightarrow>
                  (let sel = selectTagReferencesByRegexp repo h tagsRefs regexp;
                       (h', policyRefs) = applyCleanupKeepPolicy perm now h sel policy
                   in Inr (h', mergeReferences resultTagsRefs policyRefs, resultBranchesRefs))
              | None \<Rightarrow> Inr (h, resultTagsRefs, resultBranchesRefs))))"

definition selectReferences ::
  "gitRepository \<Rightarrow> (refPtr list \<Rightarrow> refPtr list) \<Rightarrow> int \<Rightarrow> refStore \<Rightarrow> MetaCleanupKeepPolicy list \<Rightarrow>
     gitError + (refStore \<times> refPtr list)" where
  "selectReferences repo perm now refs keepPolicies =
     (let tagsRefs = filter (\<lambda>r. grIsTag repo (rtsName (refs ! r))) [0..<length refs];
          branchesRefs = filter (\<lambda>r. \<not> grIsTag repo (rtsName (refs ! r))) [0..<length refs];
          keepPolicies = (if keepPolicies = [] then defaultKeepPolicies else keepPolicies)
      in bindR (foldR (applyPolicy repo perm now branchesRefs tagsRefs) (refs, [], []) keepPolicies)
           (\<lambda>(h, resultTagsRefs, resultBranchesRefs).
              Inr (h, sortSliceDesc perm (\<lambda>r. CreatedAt (h ! r)) resultBranchesRefs
                      @ sortSliceDesc perm (\<lambda>r. CreatedAt (h ! r)) resultTagsRefs)))"

definition ReferencesToScan ::
  "gitRepository \<Rightarrow> (refPtr list \<Rightarrow> refPtr list) \<Rightarrow> int \<Rightarrow> MetaCleanupKeepPolicy list \<Rightarrow>
     gitError + ReferenceToScan list" where
  "ReferencesToScan repo perm now keepPolicies =
     bindR (grReferences repo) (\<lambda>rs.
     bindR (foldR (\<lambda>refs r. bindR (collectReference repo r) (\<lambda>res.
              Inr (case res of None \<Rightarrow> refs | Some ref \<Rightarrow> refs @ [ref]))) [] rs) (\<lambda>refs.
     bindR (selectReferences repo perm now refs keepPolicies) (\<lambda>(h, ptrs).
       Inr (map (\<lambda>r. h ! r) ptrs))))"

end
