(* ===== verification/GitRefsProps.thy ===== *)
theory GitRefsProps
  imports GitRefs
begin

text \<open>
  What the reference selection guarantees: the meaning of a references limit (the newest
  references, the period, And and Or), which references are scanned, and that the keep policy
  of a reference is that of the last policy that selected it.
\<close>

section \<open>Lists of references\<close>

lemma mergeReferences_eq: "mergeReferences refs1 refs2 = refs2 @ filter (\<lambda>r. r \<notin> set refs2) refs1"
proof -
  have "foldl (\<lambda>result r. if r \<in> set refs2 then result else result @ [r]) acc refs1
      = acc @ filter (\<lambda>r. r \<notin> set refs2) refs1" for acc
    by (induction refs1 arbitrary: acc) auto
  then show ?thesis by (simp add: mergeReferences_def)
qed

lemma set_mergeReferences [simp]: "set (mergeReferences refs1 refs2) = set refs1 \<union> set refs2"
  by (auto simp: mergeReferences_eq)

lemma distinct_mergeReferences [simp]:
  "distinct refs1 \<Longrightarrow> distinct refs2 \<Longrightarrow> distinct (mergeReferences refs1 refs2)"
  by (auto simp: mergeReferences_eq)

lemma set_referencesAnd [simp]: "set (referencesAnd refs1 refs2) = set refs1 \<inter> set refs2"
  by (auto simp: referencesAnd_def)

text \<open>\<open>K\<close> is a choice of the \<open>n\<close> newest elements of \<open>R\<close>.\<close>

definition newest :: "('a \<Rightarrow> int) \<Rightarrow> nat \<Rightarrow> 'a set \<Rightarrow> 'a set \<Rightarrow> bool" where
  "newest key n R K \<longleftrightarrow> K \<subseteq> R \<and> card K = min n (card R) \<and> (\<forall>x\<in>K. \<forall>y\<in>R - K. key y \<le> key x)"

lemma newest_take:
  assumes "is_perm perm" and "distinct refs"
  shows "newest key n (set refs) (set (take n (sortSliceDesc perm key refs)))"
proof -
  let ?s = "sortSliceDesc perm key refs"
  have dist: "distinct ?s" and set: "set ?s = set refs" and len: "length ?s = length refs"
    using assms by simp_all
  have "card (set (take n ?s)) = min n (length refs)"
    using dist len by (metis distinct_card distinct_take length_take min.commute)
  moreover have "card (set refs) = length refs" using assms(2) by (rule distinct_card)
  moreover have "set (take n ?s) \<subseteq> set refs" using set_take_subset set by metis
  moreover have "key y \<le> key x" if "x \<in> set (take n ?s)" "y \<in> set refs - set (take n ?s)" for x y
  proof -
    have "set refs = set (take n ?s) \<union> set (drop n ?s)"
      using set by (metis append_take_drop_id set_append)
    then have "y \<in> set (drop n ?s)" using that(2) by blast
    then show ?thesis using sorted_desc_take_drop [OF sorted_sortSliceDesc that(1)] by blast
  qed
  ultimately show ?thesis by (auto simp: newest_def)
qed

lemma filterReferencesByLast_set:
  assumes "is_perm perm" and "distinct refs" and "filterReferencesByLast perm h refs n = (refs', kept)"
  shows "set refs' = set refs \<and> distinct refs' \<and> distinct kept \<and>
    (if n < 0 then set kept = set refs else newest (\<lambda>r. CreatedAt (h ! r)) (nat n) (set refs) (set kept))"
proof (cases "n < 0")
  case True
  with assms show ?thesis by (auto simp: filterReferencesByLast_def)
next
  case False
  let ?s = "sortSliceDesc perm (\<lambda>r. CreatedAt (h ! r)) refs"
  have "set refs' = set refs" "refs' = ?s"
    using assms False by (auto simp: filterReferencesByLast_def Let_def split: if_splits)
  moreover have "kept = take (nat n) ?s"
    using assms False by (auto simp: filterReferencesByLast_def Let_def split: if_splits)
  ultimately show ?thesis using assms False newest_take [OF assms(1,2)] by simp
qed

text \<open>A references limit keeps exactly the references it describes: with \<open>K\<close> a choice of the
  \<^verbatim>\<open>last\<close> newest references (all of them for a negative \<^verbatim>\<open>last\<close>) and \<open>I\<close> those created within the
  period \<^verbatim>\<open>in\<close> (all of them without a period), the result is \<open>I \<union> K\<close> for the operator Or and
  \<open>I \<inter> K\<close> otherwise, whatever order the sort gives to references of equal age.\<close>

theorem references_limit:
  assumes "is_perm perm" and "distinct refs"
  shows "\<exists>K. (if ReferencesLimit_Last l < 0 then K = set refs
              else newest (\<lambda>r. CreatedAt (h ! r)) (nat (ReferencesLimit_Last l)) (set refs) K) \<and>
    set (applyReferencesLimit perm now h refs (Some l)) =
      (let I = {r \<in> set refs. \<forall>d. klIn l = Some d \<longrightarrow> now - d < CreatedAt (h ! r)}
       in if ReferencesLimit_Operator l = OrOperator then I \<union> K else I \<inter> K)"
proof -
  obtain refs' kept where fl: "filterReferencesByLast perm h refs (ReferencesLimit_Last l) = (refs', kept)"
    by fastforce
  note kept = filterReferencesByLast_set [OF assms fl]
  have I: "set (if klIn l = None then refs' else filterReferencesByIn now h refs (klIn l))
      = {r \<in> set refs. \<forall>d. klIn l = Some d \<longrightarrow> now - d < CreatedAt (h ! r)}"
    using kept by (auto simp: filterReferencesByIn_def split: option.splits)
  show ?thesis
    by (rule exI [of _ "set kept"])
      (use kept I in \<open>auto simp: applyReferencesLimit_def fl referencesOr_def Let_def\<close>)
qed

definition sampleRef :: "string \<Rightarrow> int \<Rightarrow> ReferenceToScan" where
  "sampleRef n t = \<lparr>rtsName = n, CreatedAt = t, HeadCommit = \<lparr>cHash = n, cWhen = t, cParents = []\<rparr>,
     scanDepthLimit = -1, imagesCleanupKeepPolicy = zeroLimit\<rparr>"

theorem references_limit_witness:
  "is_perm rev \<and> distinct [0::nat, 1, 2] \<and>
   (\<exists>K. newest (\<lambda>r. CreatedAt ([sampleRef ''a'' 1, sampleRef ''b'' 5, sampleRef ''c'' 9] ! r)) 2 (set [0, 1, 2]) K \<and>
     set (applyReferencesLimit rev 10 [sampleRef ''a'' 1, sampleRef ''b'' 5, sampleRef ''c'' 9] [0, 1, 2]
       (Some (newLimit (Some 2) None None))) = {r. r = 0 \<or> r = 1 \<or> r = 2} \<inter> K)"
proof -
  have h: "is_perm rev" "distinct [0::nat, 1, 2]" by simp_all
  show ?thesis
    using h references_limit [OF h, of "newLimit (Some 2) None None"
        "[sampleRef ''a'' 1, sampleRef ''b'' 5, sampleRef ''c'' 9]" 10]
    by (simp add: newLimit_def ReferencesLimit_Last_def ReferencesLimit_Operator_def)
qed

lemma distinct_applyReferencesLimit:
  assumes "is_perm perm" and "distinct refs"
  shows "distinct (applyReferencesLimit perm now h refs limit)"
proof (cases limit)
  case None
  with assms show ?thesis by (simp add: applyReferencesLimit_def)
next
  case (Some l)
  obtain refs' kept where fl: "filterReferencesByLast perm h refs (ReferencesLimit_Last l) = (refs', kept)"
    by fastforce
  have "distinct refs'" "distinct kept" using filterReferencesByLast_set [OF assms fl] by blast+
  moreover have "distinct (filterReferencesByIn now h refs i)" for i
    using assms by (simp add: filterReferencesByIn_def split: option.split)
  ultimately show ?thesis
    using Some by (simp add: applyReferencesLimit_def fl referencesOr_def referencesAnd_def Let_def)
qed

lemma subset_applyReferencesLimit:
  assumes "is_perm perm"
  shows "set (applyReferencesLimit perm now h refs limit) \<subseteq> set refs"
proof (cases limit)
  case None
  then show ?thesis by (simp add: applyReferencesLimit_def)
next
  case (Some l)
  obtain refs' kept where fl: "filterReferencesByLast perm h refs (ReferencesLimit_Last l) = (refs', kept)"
    by fastforce
  then have "set refs' = set refs" and "set kept \<subseteq> set refs"
    using assms by (auto simp: filterReferencesByLast_def Let_def split: if_splits dest: in_set_takeD)
  moreover have "set (filterReferencesByIn now h refs i) \<subseteq> set refs" for i
    by (auto simp: filterReferencesByIn_def split: option.splits)
  ultimately show ?thesis
    using Some by (auto simp: applyReferencesLimit_def fl referencesOr_def Let_def split: if_splits)
qed

section \<open>The store of references\<close>

text \<open>Stores that differ in the keep policies only.\<close>

definition same_refs :: "refStore \<Rightarrow> refStore \<Rightarrow> bool" where
  "same_refs h h' \<longleftrightarrow> length h' = length h \<and>
     (\<forall>r < length h. rtsName (h' ! r) = rtsName (h ! r) \<and> CreatedAt (h' ! r) = CreatedAt (h ! r) \<and>
        HeadCommit (h' ! r) = HeadCommit (h ! r) \<and> scanDepthLimit (h' ! r) = scanDepthLimit (h ! r))"

lemma same_refs_refl [simp]: "same_refs h h"
  by (simp add: same_refs_def)

lemma same_refs_trans: "same_refs a b \<Longrightarrow> same_refs b c \<Longrightarrow> same_refs a c"
  by (simp add: same_refs_def)

lemma applyImagesPerReference_same [simp]: "same_refs h (applyImagesPerReference h refs p)"
  unfolding applyImagesPerReference_def
proof (rule foldl_invariant)
  show "same_refs h h" by simp
next
  fix s r assume "same_refs h s"
  then show "same_refs h (s[r := (s ! r)\<lparr>imagesCleanupKeepPolicy := p\<rparr>])"
    by (cases "r < length s") (auto simp: same_refs_def nth_list_update list_update_beyond)
qed

lemma applyImagesPerReference_policy:
  "r < length h \<Longrightarrow> imagesCleanupKeepPolicy (applyImagesPerReference h refs p ! r) =
     (if r \<in> set refs then p else imagesCleanupKeepPolicy (h ! r))"
  unfolding applyImagesPerReference_def
  by (induction refs arbitrary: h) (auto simp: nth_list_update)

lemma sort_key_cong: "(\<And>x. x \<in> set xs \<Longrightarrow> f x = g x) \<Longrightarrow> sort_key f xs = sort_key g xs"
proof (induction xs)
  case Nil
  then show ?case by simp
next
  case (Cons x xs)
  have ins: "(\<And>y. y \<in> insert x (set ys) \<Longrightarrow> f y = g y) \<Longrightarrow> insort_key f x ys = insort_key g x ys" for ys
    by (induction ys) auto
  have "sort_key f xs = sort_key g xs" using Cons by simp
  moreover have "insort_key f x (sort_key g xs) = insort_key g x (sort_key g xs)"
    using Cons.prems by (intro ins) auto
  ultimately show ?case by simp
qed

lemma sortSliceDesc_cong:
  assumes "is_perm perm" and "\<And>x. x \<in> set xs \<Longrightarrow> f x = g x"
  shows "sortSliceDesc perm f xs = sortSliceDesc perm g xs"
proof -
  have "set (perm xs) = set xs" using assms(1) by (metis is_perm_def set_mset_mset)
  then show ?thesis unfolding sortSliceDesc_def using assms(2) by (intro sort_key_cong) simp
qed

lemma applyReferencesLimit_same:
  assumes "is_perm perm" and "same_refs h h'" and "set refs \<subseteq> {..<length h}"
  shows "applyReferencesLimit perm now h' refs limit = applyReferencesLimit perm now h refs limit"
proof -
  have age: "CreatedAt (h' ! r) = CreatedAt (h ! r)" if "r \<in> set refs" for r
    using assms(2,3) that by (auto simp: same_refs_def)
  have "sortSliceDesc perm (\<lambda>r. CreatedAt (h' ! r)) refs = sortSliceDesc perm (\<lambda>r. CreatedAt (h ! r)) refs"
    by (rule sortSliceDesc_cong [OF assms(1) age])
  then have "filterReferencesByLast perm h' refs n = filterReferencesByLast perm h refs n" for n
    by (simp add: filterReferencesByLast_def)
  moreover have "filterReferencesByIn now h' refs i = filterReferencesByIn now h refs i" for i
    using age by (auto simp: filterReferencesByIn_def split: option.splits intro: filter_cong)
  ultimately show ?thesis by (cases limit) (simp_all add: applyReferencesLimit_def)
qed

section \<open>The references of a policy\<close>

definition branchMatches :: "gitRepository \<Rightarrow> refStore \<Rightarrow> Regexp \<Rightarrow> refPtr \<Rightarrow> bool" where
  "branchMatches repo h regexp r \<longleftrightarrow>
     (case SplitN2 (grShort repo (rtsName (h ! r))) ''/'' of [_, b] \<Rightarrow> MatchString regexp b | _ \<Rightarrow> False)"

lemma selectBranch_filter:
  "selectBranchReferencesByRegexp repo h rs regexp = Inr sel \<Longrightarrow> sel = filter (branchMatches repo h regexp) rs"
  by (induction rs arbitrary: sel)
    (auto simp: bindR_Inr branchMatches_def split: list.splits if_splits)

text \<open>What one policy selects of the given branches and tags: the specification of one iteration.\<close>

definition policySelects ::
  "gitRepository \<Rightarrow> (refPtr list \<Rightarrow> refPtr list) \<Rightarrow> int \<Rightarrow> refStore \<Rightarrow> refPtr list \<Rightarrow> refPtr list \<Rightarrow>
     MetaCleanupKeepPolicy \<Rightarrow> refPtr list" where
  "policySelects repo perm now h branches tags policy =
     (case BranchRegexp (References policy) of
        Some regexp \<Rightarrow> applyReferencesLimit perm now h (filter (branchMatches repo h regexp) branches)
          (Limit (References policy))
      | None \<Rightarrow>
         (case TagRegexp (References policy) of
            Some regexp \<Rightarrow> applyReferencesLimit perm now h (selectTagReferencesByRegexp repo h tags regexp)
              (Limit (References policy))
          | None \<Rightarrow> []))"

lemma policySelects_same:
  assumes "is_perm perm" and "same_refs h h'" and "set branches \<subseteq> {..<length h}" and "set tags \<subseteq> {..<length h}"
  shows "policySelects repo perm now h' branches tags policy = policySelects repo perm now h branches tags policy"
proof -
  have name: "rtsName (h' ! r) = rtsName (h ! r)" if "r < length h" for r
    using assms(2) that by (simp add: same_refs_def)
  have "filter (branchMatches repo h' re) branches = filter (branchMatches repo h re) branches" for re
    using assms(3) name by (intro filter_cong) (auto simp: branchMatches_def)
  moreover have "selectTagReferencesByRegexp repo h' tags re = selectTagReferencesByRegexp repo h tags re" for re
    using assms(4) name unfolding selectTagReferencesByRegexp_def by (intro filter_cong) auto
  moreover have "applyReferencesLimit perm now h' (filter P branches) l = applyReferencesLimit perm now h (filter P branches) l" for P l
    using assms(3) by (intro applyReferencesLimit_same [OF assms(1,2)]) auto
  moreover have "applyReferencesLimit perm now h' (selectTagReferencesByRegexp repo h tags re) l =
      applyReferencesLimit perm now h (selectTagReferencesByRegexp repo h tags re) l" for re l
    using assms(4) by (intro applyReferencesLimit_same [OF assms(1,2)]) (auto simp: selectTagReferencesByRegexp_def)
  ultimately show ?thesis
    by (simp add: policySelects_def split: option.split)
qed

lemma distinct_policySelects:
  "is_perm perm \<Longrightarrow> distinct branches \<Longrightarrow> distinct tags \<Longrightarrow> distinct (policySelects repo perm now h branches tags policy)"
  by (auto simp: policySelects_def selectTagReferencesByRegexp_def distinct_applyReferencesLimit split: option.split)

lemma applyPolicy_Inr:
  assumes "applyPolicy repo perm now branches tags (h, rt, rb) policy = Inr (h', rt', rb')"
  shows "let S = policySelects repo perm now h branches tags policy in
      h' = applyImagesPerReference h S (ImagesPerReference policy) \<and>
      (if BranchRegexp (References policy) = None then rb' = rb \<and> rt' = mergeReferences rt S
       else rt' = rt \<and> rb' = mergeReferences rb S)"
proof (cases "BranchRegexp (References policy)")
  case None
  show ?thesis
  proof (cases "TagRegexp (References policy)")
    case None
    with \<open>BranchRegexp (References policy) = None\<close> assms show ?thesis
      by (auto simp: applyPolicy_def policySelects_def applyImagesPerReference_def mergeReferences_eq)
  next
    case (Some re)
    with None assms show ?thesis
      by (auto simp: applyPolicy_def policySelects_def applyCleanupKeepPolicy_def Let_def)
  qed
next
  case (Some re)
  with assms obtain sel where sel: "selectBranchReferencesByRegexp repo h branches re = Inr sel"
    and st: "(let (h', policyRefs) = applyCleanupKeepPolicy perm now h sel policy
      in Inr (h', rt, mergeReferences rb policyRefs)) = (Inr (h', rt', rb') :: gitError + _)"
    by (auto simp: applyPolicy_def bindR_Inr)
  from selectBranch_filter [OF sel] st Some show ?thesis
    by (auto simp: policySelects_def applyCleanupKeepPolicy_def Let_def)
qed

section \<open>All policies\<close>

text \<open>The state of the loop after the policies \<open>ps\<close>.\<close>

definition policiesDone ::
  "gitRepository \<Rightarrow> (refPtr list \<Rightarrow> refPtr list) \<Rightarrow> int \<Rightarrow> refStore \<Rightarrow> refPtr list \<Rightarrow> refPtr list \<Rightarrow>
     MetaCleanupKeepPolicy list \<Rightarrow> refStore \<times> refPtr list \<times> refPtr list \<Rightarrow> bool" where
  "policiesDone repo perm now refs branches tags ps st \<longleftrightarrow>
     (case st of (h, rt, rb) \<Rightarrow>
        same_refs refs h \<and> distinct rt \<and> distinct rb \<and> set rt \<subseteq> set tags \<and> set rb \<subseteq> set branches \<and>
        set rt \<union> set rb = (\<Union>p\<in>set ps. set (policySelects repo perm now refs branches tags p)) \<and>
        (\<forall>r < length refs. imagesCleanupKeepPolicy (h ! r) =
           (let qs = filter (\<lambda>p. r \<in> set (policySelects repo perm now refs branches tags p)) ps
            in if qs = [] then imagesCleanupKeepPolicy (refs ! r) else ImagesPerReference (last qs))))"

lemma policySelects_subset:
  assumes "is_perm perm"
  shows "set (policySelects repo perm now h branches tags p) \<subseteq>
    (if BranchRegexp (References p) = None then set tags else set branches)"
proof -
  have "set (applyReferencesLimit perm now h (filter Q xs) l) \<subseteq> set xs" for Q xs l
    using subset_applyReferencesLimit [OF assms] by (meson filter_is_subset subset_trans)
  then show ?thesis
    by (auto simp: policySelects_def selectTagReferencesByRegexp_def split: option.splits)
qed

lemma policiesDone_step:
  assumes perm: "is_perm perm" and ranges: "set branches \<subseteq> {..<length refs}" "set tags \<subseteq> {..<length refs}"
    and dist: "distinct branches" "distinct tags"
    and inv: "policiesDone repo perm now refs branches tags ps st"
    and step: "applyPolicy repo perm now branches tags st p = Inr st'"
  shows "policiesDone repo perm now refs branches tags (ps @ [p]) st'"
proof -
  obtain h rt rb h' rt' rb' where st: "st = (h, rt, rb)" and st': "st' = (h', rt', rb')"
    by (metis prod_cases3)
  let ?S = "policySelects repo perm now refs branches tags p"
  have same: "same_refs refs h" using inv st by (simp add: policiesDone_def)
  have S: "policySelects repo perm now h branches tags p = ?S"
    by (rule policySelects_same [OF perm same ranges])
  note step' = applyPolicy_Inr [OF step [unfolded st st'], unfolded S Let_def]
  have h': "h' = applyImagesPerReference h ?S (ImagesPerReference p)" using step' by simp
  have "same_refs refs h'" using same h' applyImagesPerReference_same same_refs_trans by blast
  moreover have "distinct ?S" using distinct_policySelects [OF perm dist] .
  moreover note policySelects_subset [OF perm, of repo now refs branches tags p]
  moreover have "\<forall>r < length refs. imagesCleanupKeepPolicy (h' ! r) =
      (if r \<in> set ?S then ImagesPerReference p else imagesCleanupKeepPolicy (h ! r))"
    using same h' by (auto simp: applyImagesPerReference_policy same_refs_def)
  ultimately show ?thesis
    using inv step' st st' by (auto simp: policiesDone_def Let_def split: if_splits)
qed

lemma policiesDone_foldR:
  assumes perm: "is_perm perm" and ranges: "set branches \<subseteq> {..<length refs}" "set tags \<subseteq> {..<length refs}"
    and dist: "distinct branches" "distinct tags"
  shows "foldR (applyPolicy repo perm now branches tags) (refs, [], []) ps = Inr st \<Longrightarrow>
    policiesDone repo perm now refs branches tags ps st"
proof (induction ps arbitrary: st rule: rev_induct)
  case Nil
  then show ?case by (auto simp: policiesDone_def)
next
  case (snoc p ps)
  then obtain t where "foldR (applyPolicy repo perm now branches tags) (refs, [], []) ps = Inr t"
    and "applyPolicy repo perm now branches tags t p = Inr st"
    by (auto simp: foldR_append bindR_Inr)
  with snoc.IH policiesDone_step [OF assms] show ?case by blast
qed

definition tagPtrs :: "gitRepository \<Rightarrow> refStore \<Rightarrow> refPtr list" where
  "tagPtrs repo refs = filter (\<lambda>r. grIsTag repo (rtsName (refs ! r))) [0..<length refs]"

definition branchPtrs :: "gitRepository \<Rightarrow> refStore \<Rightarrow> refPtr list" where
  "branchPtrs repo refs = filter (\<lambda>r. \<not> grIsTag repo (rtsName (refs ! r))) [0..<length refs]"

lemma selectReferences_done:
  assumes perm: "is_perm perm" and sel: "selectReferences repo perm now refs pols = Inr (h, ptrs)"
    and "pols \<noteq> []"
  shows "\<exists>rt rb. policiesDone repo perm now refs (branchPtrs repo refs) (tagPtrs repo refs) pols (h, rt, rb)
    \<and> ptrs = sortSliceDesc perm (\<lambda>r. CreatedAt (h ! r)) rb @ sortSliceDesc perm (\<lambda>r. CreatedAt (h ! r)) rt"
proof -
  have ranges: "set (branchPtrs repo refs) \<subseteq> {..<length refs}" "set (tagPtrs repo refs) \<subseteq> {..<length refs}"
    and dist: "distinct (branchPtrs repo refs)" "distinct (tagPtrs repo refs)"
    by (auto simp: branchPtrs_def tagPtrs_def)
  from sel \<open>pols \<noteq> []\<close> obtain rt rb where
    fold: "foldR (applyPolicy repo perm now (branchPtrs repo refs) (tagPtrs repo refs)) (refs, [], []) pols
      = Inr (h, rt, rb)"
    and ptrs: "ptrs = sortSliceDesc perm (\<lambda>r. CreatedAt (h ! r)) rb @ sortSliceDesc perm (\<lambda>r. CreatedAt (h ! r)) rt"
    by (auto simp: selectReferences_def Let_def bindR_Inr branchPtrs_def tagPtrs_def)
  from policiesDone_foldR [OF perm ranges dist fold] ptrs show ?thesis by blast
qed

text \<open>C39: With keep policies given, the references scanned are exactly those that some keep policy selects, each once; nothing
  but the keep policies of the references has changed in the store. (Without any, the default policies take their place.)\<close>

theorem scanned_references:
  assumes "is_perm perm" and "selectReferences repo perm now refs pols = Inr (h, ptrs)" and "pols \<noteq> []"
  shows "set ptrs = (\<Union>p\<in>set pols. set (policySelects repo perm now refs (branchPtrs repo refs) (tagPtrs repo refs) p))
    \<and> distinct ptrs \<and> same_refs refs h"
proof -
  from selectReferences_done [OF assms] obtain rt rb where
    inv: "policiesDone repo perm now refs (branchPtrs repo refs) (tagPtrs repo refs) pols (h, rt, rb)"
    and ptrs: "ptrs = sortSliceDesc perm (\<lambda>r. CreatedAt (h ! r)) rb @ sortSliceDesc perm (\<lambda>r. CreatedAt (h ! r)) rt"
    by blast
  have "set rb \<inter> set rt = {}"
    using inv by (auto simp: policiesDone_def branchPtrs_def tagPtrs_def)
  with inv ptrs assms(1) show ?thesis by (auto simp: policiesDone_def)
qed

text \<open>The keep policy with which a reference is scanned is \<^verbatim>\<open>imagesPerReference\<close> of the last policy,
  in the order of the configuration, that selects the reference.\<close>

theorem last_policy_wins:
  assumes "is_perm perm" and "selectReferences repo perm now refs pols = Inr (h, ptrs)" and "pols \<noteq> []"
    and "r \<in> set ptrs"
  shows "imagesCleanupKeepPolicy (h ! r) = ImagesPerReference
    (last (filter (\<lambda>p. r \<in> set (policySelects repo perm now refs (branchPtrs repo refs) (tagPtrs repo refs) p)) pols))"
proof -
  let ?sel = "\<lambda>p. r \<in> set (policySelects repo perm now refs (branchPtrs repo refs) (tagPtrs repo refs) p)"
  from selectReferences_done [OF assms(1-3)] obtain rt rb where
    inv: "policiesDone repo perm now refs (branchPtrs repo refs) (tagPtrs repo refs) pols (h, rt, rb)"
    and ptrs: "ptrs = sortSliceDesc perm (\<lambda>r. CreatedAt (h ! r)) rb @ sortSliceDesc perm (\<lambda>r. CreatedAt (h ! r)) rt"
    by blast
  have mem: "r \<in> set rt \<union> set rb" using assms(1,4) ptrs by auto
  then have "r < length refs" using inv by (auto simp: policiesDone_def branchPtrs_def tagPtrs_def)
  moreover have "filter ?sel pols \<noteq> []"
    using mem inv by (auto simp: policiesDone_def filter_empty_conv)
  ultimately show ?thesis using inv by (auto simp: policiesDone_def Let_def)
qed

text \<open>Branches come before tags, and each of the two groups is ordered from the newest reference
  to the oldest; \<^verbatim>\<open>ScanReferencesHistory\<close> walks this list from its end.\<close>

theorem scanned_order:
  assumes "is_perm perm" and "selectReferences repo perm now refs pols = Inr (h, ptrs)" and "pols \<noteq> []"
  shows "\<exists>bs ts. ptrs = bs @ ts
    \<and> (\<forall>r. r \<in> set bs \<longrightarrow> \<not> grIsTag repo (rtsName (h ! r))) \<and> (\<forall>r. r \<in> set ts \<longrightarrow> grIsTag repo (rtsName (h ! r)))
    \<and> sorted_wrt (\<lambda>r s. CreatedAt (h ! s) \<le> CreatedAt (h ! r)) bs
    \<and> sorted_wrt (\<lambda>r s. CreatedAt (h ! s) \<le> CreatedAt (h ! r)) ts"
proof -
  from selectReferences_done [OF assms] obtain rt rb where
    inv: "policiesDone repo perm now refs (branchPtrs repo refs) (tagPtrs repo refs) pols (h, rt, rb)"
    and ptrs: "ptrs = sortSliceDesc perm (\<lambda>r. CreatedAt (h ! r)) rb @ sortSliceDesc perm (\<lambda>r. CreatedAt (h ! r)) rt"
    by blast
  have "\<forall>r. r \<in> set rb \<longrightarrow> \<not> grIsTag repo (rtsName (h ! r))" "\<forall>r. r \<in> set rt \<longrightarrow> grIsTag repo (rtsName (h ! r))"
    using inv by (auto simp: policiesDone_def branchPtrs_def tagPtrs_def same_refs_def)
  with ptrs assms(1) sorted_sortSliceDesc show ?thesis by (metis set_sortSliceDesc)
qed

section \<open>A sample repository\<close>

text \<open>Two branches and a tag; two policies that both select the branch \<^verbatim>\<open>main\<close>.\<close>

definition sampleRepo :: gitRepository where
  "sampleRepo = \<lparr>grReferences = Inr [], grIsRemote = (\<lambda>n. HasPrefix n ''r/''), grIsTag = (\<lambda>n. HasPrefix n ''t/''),
     grShort = (\<lambda>n. drop 2 n), grZeroHash = [], grCommitObject = (\<lambda>h. Inl (GitError h)),
     grTagObject = (\<lambda>_. Inr None), grResolve = (\<lambda>h. Inl (GitError h))\<rparr>"

definition sampleRefs :: refStore where
  "sampleRefs = [sampleRef ''r/origin/main'' 5, sampleRef ''r/origin/dev'' 9, sampleRef ''t/v1'' 7]"

definition samplePolicies :: "MetaCleanupKeepPolicy list" where
  "samplePolicies =
    [\<lparr>References = \<lparr>TagRegexp = None, BranchRegexp = Some anyRegexp, Limit = None\<rparr>,
      ImagesPerReference = newLimit (Some 1) None None\<rparr>,
     \<lparr>References = \<lparr>TagRegexp = None, BranchRegexp = Some mainBranchesRegexp, Limit = None\<rparr>,
      ImagesPerReference = newLimit (Some 5) None None\<rparr>]"

lemmas sample_select_defs = selectReferences_def sampleRefs_def samplePolicies_def sampleRepo_def sampleRef_def
  applyPolicy_def applyCleanupKeepPolicy_def applyReferencesLimit_def applyImagesPerReference_def
  mergeReferences_eq anyRegexp_def mainBranchesRegexp_def SplitN2_def HasPrefix_def newLimit_def zeroLimit_def
  sortSliceDesc_def

lemma sample_select: "\<exists>h. selectReferences sampleRepo (\<lambda>xs. xs) 10 sampleRefs samplePolicies = Inr (h, [1, 0])"
  by (simp add: sample_select_defs upt_rec bindR_def)

theorem scanned_references_witness:
  "\<exists>h ptrs. selectReferences sampleRepo (\<lambda>xs. xs) 10 sampleRefs samplePolicies = Inr (h, ptrs) \<and>
    is_perm (\<lambda>xs::refPtr list. xs) \<and> samplePolicies \<noteq> [] \<and> distinct ptrs \<and> same_refs sampleRefs h"
proof -
  obtain h ptrs where s: "selectReferences sampleRepo (\<lambda>xs. xs) 10 sampleRefs samplePolicies = Inr (h, ptrs)"
    using sample_select by blast
  have p: "is_perm (\<lambda>xs::refPtr list. xs)" and ne: "samplePolicies \<noteq> []" by (simp_all add: samplePolicies_def)
  show ?thesis using s p ne scanned_references [OF p s ne] by blast
qed

theorem last_policy_wins_witness:
  "\<exists>h ptrs. selectReferences sampleRepo (\<lambda>xs. xs) 10 sampleRefs samplePolicies = Inr (h, ptrs) \<and> 0 \<in> set ptrs \<and>
    imagesCleanupKeepPolicy (h ! 0) = ImagesPerReference (last (filter (\<lambda>p. 0 \<in> set (policySelects sampleRepo (\<lambda>xs. xs) 10
      sampleRefs (branchPtrs sampleRepo sampleRefs) (tagPtrs sampleRepo sampleRefs) p)) samplePolicies))"
proof -
  obtain h where s: "selectReferences sampleRepo (\<lambda>xs. xs) 10 sampleRefs samplePolicies = Inr (h, [1, 0])"
    using sample_select by blast
  have p: "is_perm (\<lambda>xs::refPtr list. xs)" and ne: "samplePolicies \<noteq> []" and m: "0 \<in> set [1, 0::refPtr]"
    by (simp_all add: samplePolicies_def)
  show ?thesis using s m last_policy_wins [OF p s ne m] by blast
qed

theorem scanned_order_witness:
  "\<exists>h ptrs bs ts. selectReferences sampleRepo (\<lambda>xs. xs) 10 sampleRefs samplePolicies = Inr (h, ptrs) \<and> ptrs = bs @ ts \<and>
    sorted_wrt (\<lambda>r s. CreatedAt (h ! s) \<le> CreatedAt (h ! r)) bs"
proof -
  obtain h where s: "selectReferences sampleRepo (\<lambda>xs. xs) 10 sampleRefs samplePolicies = Inr (h, [1, 0])"
    using sample_select by blast
  have p: "is_perm (\<lambda>xs::refPtr list. xs)" and ne: "samplePolicies \<noteq> []" by (simp_all add: samplePolicies_def)
  show ?thesis using s scanned_order [OF p s ne] by blast
qed

text \<open>Without configured policies the branches \<^verbatim>\<open>main\<close>, \<^verbatim>\<open>master\<close>, \<^verbatim>\<open>staging\<close> and \<^verbatim>\<open>production\<close> keep
  up to ten images each, since the last default policy is theirs and its limit is ten.\<close>

theorem default_main_branches_keep_ten:
  "\<exists>re. BranchRegexp (References (last defaultKeepPolicies)) = Some re \<and>
     {b. MatchString re b} = {''main'', ''master'', ''staging'', ''production''} \<and>
     ImagesPerReference_Last (ImagesPerReference (last defaultKeepPolicies)) = 10"
  by (auto simp: defaultKeepPolicies_def mainBranchesRegexp_def ImagesPerReference_Last_def newLimit_def)

end
