(* ===== verification/Scanner.thy ===== *)
theory Scanner
  imports GitRefs
begin

text \<open>
  The git history scan of the cleanup:
  \<^verbatim>\<open>pkg/cleaning/git_history_based_cleanup/scanner.go\<close>. The repository behind \<^verbatim>\<open>LocalGit\<close> is the
  argument \<open>repo\<close>, a finite map from commit hashes to commits; a hash outside it is the error of
  \<^verbatim>\<open>CommitObject\<close>. Equal hashes give the same commit object (the cache of
  \<^verbatim>\<open>GitRepositoryWithCache\<close>, theory \<open>RepoCache\<close>), so a commit stands for its pointer. The two
  functions of the \<^verbatim>\<open>util\<close> package (outside \<^verbatim>\<open>src/\<close>) are arguments; what is used of them is a
  named hypothesis (\<open>addNew_ok\<close>).
\<close>

section \<open>State\<close>

type_synonym gitCommits = "(string, Commit) goMap"
type_synonym stageCommits = "(string, string list) goMap"

datatype scanError = CommitResolveFailed string | UnexpectedCondition

record commitHistoryScanner =
  expectedStageIDCommitList :: stageCommits
  reachedStageIDCommitList :: stageCommits
  reachedCommitList :: "string list"
  stopCommitList :: "string list"
  isAlreadyScannedCommit :: "string list"
  scanDepth :: int
  optDepthLimit :: int
  optPolicy :: metaCleanupKeepPolicyLimit

definition reachedStageIDList :: "commitHistoryScanner \<Rightarrow> string list" where
  "reachedStageIDList s = map fst (filter (\<lambda>(stageID, commitList). commitList \<noteq> []) (reachedStageIDCommitList s))"

section \<open>One commit\<close>

definition handleCommit ::
  "gitCommits \<Rightarrow> commitHistoryScanner \<Rightarrow> string \<Rightarrow> scanError + (commitHistoryScanner \<times> string list)" where
  "handleCommit repo s commit =
     (let hits = filter (\<lambda>(stageID, commitList). commit \<in> set commitList) (expectedStageIDCommitList s);
          s1 = s\<lparr>reachedStageIDCommitList :=
                  foldl (\<lambda>m (stageID, _). appendAt m stageID [commit]) (reachedStageIDCommitList s) hits\<rparr>;
          s2 = (if hits \<noteq> [] then s1\<lparr>reachedCommitList := reachedCommitList s1 @ [commit]\<rparr> else s1)
      in case map_of repo commit of
           None \<Rightarrow> Inl (CommitResolveFailed commit)
         | Some co \<Rightarrow> Inr (s2, cParents co))"

definition isStopCommit :: "commitHistoryScanner \<Rightarrow> string \<Rightarrow> bool" where
  "isStopCommit s commit \<longleftrightarrow> commit \<in> set (stopCommitList s)"

section \<open>The history of one reference\<close>

text \<open>The inner loop of \<^verbatim>\<open>scanCommitHistory\<close>, over one iteration's commits.\<close>

fun scanLevel ::
  "gitCommits \<Rightarrow> commitHistoryScanner \<Rightarrow> string list \<Rightarrow> string list \<Rightarrow>
     scanError + (commitHistoryScanner \<times> string list)" where
  "scanLevel repo s nextIteration [] = Inr (s, nextIteration)"
| "scanLevel repo s nextIteration (commit # rest) =
     (if commit \<in> set (isAlreadyScannedCommit s) then scanLevel repo s nextIteration rest
      else if isStopCommit s commit then scanLevel repo s nextIteration rest
      else (case handleCommit repo s commit of
              Inl e \<Rightarrow> Inl e
            | Inr (s', commitParents) \<Rightarrow>
                if scanDepth s' = optDepthLimit s' then scanLevel repo s' nextIteration rest
                else if length (expectedStageIDCommitList s') = length (reachedStageIDCommitList s')
                then Inr (s', nextIteration)
                else scanLevel repo (s'\<lparr>isAlreadyScannedCommit := commit # isAlreadyScannedCommit s'\<rparr>)
                       (nextIteration @ commitParents) rest))"

lemma handleCommit_frame:
  assumes "handleCommit repo s commit = Inr (s', ps)"
  shows "isAlreadyScannedCommit s' = isAlreadyScannedCommit s" "scanDepth s' = scanDepth s"
    "stopCommitList s' = stopCommitList s" "expectedStageIDCommitList s' = expectedStageIDCommitList s"
    "optDepthLimit s' = optDepthLimit s" "optPolicy s' = optPolicy s"
    "\<exists>co. map_of repo commit = Some co \<and> ps = cParents co"
  using assms by (auto simp: handleCommit_def Let_def split: option.splits if_splits)

text \<open>A level that leaves something to scan has scanned a commit of the repository for the first time.\<close>

lemma scanLevel_progress:
  assumes "scanLevel repo s nx cs = Inr (s', nx')"
  shows "set (isAlreadyScannedCommit s) \<subseteq> set (isAlreadyScannedCommit s') \<and>
    (nx' = nx \<or> (\<exists>c \<in> fst ` set repo. c \<in> set (isAlreadyScannedCommit s') \<and> c \<notin> set (isAlreadyScannedCommit s)))"
  using assms
proof (induction repo s nx cs rule: scanLevel.induct)
  case (1 repo s nx)
  then show ?case by simp
next
  case (2 repo s nx c cs)
  show ?case
  proof (cases "c \<in> set (isAlreadyScannedCommit s) \<or> isStopCommit s c")
    case True
    with 2 show ?thesis by (auto split: if_splits)
  next
    case False
    with "2.prems" obtain t ps where hc: "handleCommit repo s c = Inr (t, ps)"
      by (auto split: sum.splits)
    note frame = handleCommit_frame [OF hc]
    have c: "c \<in> fst ` set repo" using frame(7) by (force dest: map_of_SomeD)
    show ?thesis
    proof (cases "scanDepth t = optDepthLimit t")
      case True
      with False hc "2.prems" have "scanLevel repo t nx cs = Inr (s', nx')" by simp
      with 2(3) [of "(t, ps)" t ps] False hc True frame(1) show ?thesis by auto
    next
      case depth: False
      show ?thesis
      proof (cases "length (expectedStageIDCommitList t) = length (reachedStageIDCommitList t)")
        case True
        with False hc depth "2.prems" frame(1) show ?thesis by auto
      next
        case more: False
        let ?t = "t\<lparr>isAlreadyScannedCommit := c # isAlreadyScannedCommit t\<rparr>"
        from False hc depth more "2.prems" have "scanLevel repo ?t (nx @ ps) cs = Inr (s', nx')" by simp
        with 2(4) [of "(t, ps)" t ps] False hc depth more frame(1) c show ?thesis by auto
      qed
    qed
  qed
qed

lemma scanLevel_measure:
  assumes "scanLevel repo s [] cs = Inr (s', nx')" and "nx' \<noteq> []"
  shows "card (fst ` set repo - set (isAlreadyScannedCommit s')) < card (fst ` set repo - set (isAlreadyScannedCommit s))"
proof -
  from scanLevel_progress [OF assms(1)] assms(2) obtain c where
    c: "c \<in> fst ` set repo" "c \<in> set (isAlreadyScannedCommit s')" "c \<notin> set (isAlreadyScannedCommit s)"
    and sub: "set (isAlreadyScannedCommit s) \<subseteq> set (isAlreadyScannedCommit s')" by blast
  then show ?thesis by (intro psubset_card_mono) auto
qed

text \<open>
  The outer loop. It ends because each level that is not the last scans a commit of the finite
  repository that was not scanned before.
\<close>

function scanIterations ::
  "gitCommits \<Rightarrow> commitHistoryScanner \<Rightarrow> string list \<Rightarrow> scanError + commitHistoryScanner" where
  "scanIterations repo s currentIteration =
     (case scanLevel repo (s\<lparr>scanDepth := scanDepth s + 1\<rparr>) [] currentIteration of
        Inl e \<Rightarrow> Inl e
      | Inr (s', nextIteration) \<Rightarrow>
          if nextIteration = [] then Inr s' else scanIterations repo s' nextIteration)"
  by pat_completeness auto
termination
  by (relation "measure (\<lambda>(repo, s, cs). card (fst ` set repo - set (isAlreadyScannedCommit s)))")
    (auto dest: scanLevel_measure)

declare scanIterations.simps [simp del]

definition scanCommitHistory ::
  "gitCommits \<Rightarrow> commitHistoryScanner \<Rightarrow> string \<Rightarrow> scanError + commitHistoryScanner" where
  "scanCommitHistory repo s commit = scanIterations repo s [commit]"

section \<open>The latest commit of each stage\<close>

definition latestCommitOf :: "gitCommits \<Rightarrow> string list \<Rightarrow> scanError + Commit option" where
  "latestCommitOf repo commitList =
     foldR (\<lambda>latest commit. case map_of repo commit of
         None \<Rightarrow> Inl UnexpectedCondition
       | Some co \<Rightarrow> Inr (case latest of None \<Rightarrow> Some co
           | Some l \<Rightarrow> if cWhen co > cWhen l then Some co else latest)) None commitList"

text \<open>The body of the loop over the reached stages in \<^verbatim>\<open>latestCommitStageIDs\<close>.\<close>

definition latestStep ::
  "gitCommits \<Rightarrow> (Commit, string list) goMap \<Rightarrow> string \<times> string list \<Rightarrow> scanError + (Commit, string list) goMap" where
  "latestStep repo m x =
     (case x of (stageID, commitList) \<Rightarrow>
        bindR (latestCommitOf repo commitList) (\<lambda>latest.
          Inr (case latest of None \<Rightarrow> m | Some co \<Rightarrow> appendAt m co [stageID])))"

definition latestCommitStageIDs ::
  "gitCommits \<Rightarrow> commitHistoryScanner \<Rightarrow> scanError + (Commit, string list) goMap" where
  "latestCommitStageIDs repo s = foldR (latestStep repo) [] (reachedStageIDCommitList s)"

text \<open>\<^verbatim>\<open>for stageIDs { result[stageID] = []string{commit.Hash.String()} }\<close>\<close>

definition putHits :: "stageCommits \<Rightarrow> Commit \<Rightarrow> string list \<Rightarrow> stageCommits" where
  "putHits m co stageIDs = foldl (\<lambda>m stageID. AList.update stageID [cHash co] m) m stageIDs"

definition stageIDHitCommitList :: "gitCommits \<Rightarrow> commitHistoryScanner \<Rightarrow> scanError + stageCommits" where
  "stageIDHitCommitList repo s =
     bindR (latestCommitStageIDs repo s) (\<lambda>latest.
       Inr (foldl (\<lambda>m (co, stageIDs). putHits m co stageIDs) [] latest))"

section \<open>Keep policies\<close>

text \<open>The stage IDs and the hits of a list of commits to keep.\<close>

definition collectKept ::
  "(Commit, string list) goMap \<Rightarrow> Commit list \<Rightarrow> string list \<times> stageCommits" where
  "collectKept latest commits =
     (concat (map (sliceAt latest) commits),
      foldl (\<lambda>m co. putHits m co (sliceAt latest co)) [] commits)"

definition handleExtraStageIDsByLast ::
  "commitHistoryScanner \<Rightarrow> (Commit, string list) goMap \<Rightarrow> Commit list \<Rightarrow>
     string list \<times> string list \<times> stageCommits" where
  "handleExtraStageIDsByLast s latest latestCommitList =
     (let (ids, hits) = collectKept latest (take (nat (ImagesPerReference_Last (optPolicy s))) latestCommitList)
      in (ids, stopCommitList s, hits))"

definition handleExtraStageIDsByLastWithIn ::
  "int \<Rightarrow> commitHistoryScanner \<Rightarrow> (Commit, string list) goMap \<Rightarrow> Commit list \<Rightarrow> int \<Rightarrow>
     string list \<times> string list \<times> stageCommits" where
  "handleExtraStageIDsByLastWithIn now s latest latestCommitList inn =
     (let byLast = take (nat (ImagesPerReference_Last (optPolicy s))) latestCommitList;
          byIn = filter (\<lambda>co. cWhen co > now - inn) latestCommitList;
          result = (if ImagesPerReference_Operator (optPolicy s) = AndOperator
                    then concat (map (\<lambda>l. concat (map (\<lambda>i. if l = i then [l] else []) byIn)) byLast)
                    else byIn @ filter (\<lambda>l. l \<notin> set byIn) byLast);
          (ids, hits) = collectKept latest result
      in (ids, stopCommitList s, hits))"

definition applyImagesCleanupInPolicy ::
  "gitCommits \<Rightarrow> int \<Rightarrow> stageCommits \<Rightarrow> int option \<Rightarrow> scanError + stageCommits" where
  "applyImagesCleanupInPolicy repo now stageIDCommitList inn =
     (case inn of None \<Rightarrow> Inr stageIDCommitList
      | Some d \<Rightarrow>
          foldR (\<lambda>m (stageID, commitList).
            bindR (foldR (\<lambda>acc commit. case map_of repo commit of
                 None \<Rightarrow> Inl UnexpectedCondition
               | Some co \<Rightarrow> Inr (if cWhen co > now - d then acc @ [commit] else acc)) [] commitList)
              (\<lambda>resultCommitList. Inr (if resultCommitList \<noteq> [] then AList.update stageID resultCommitList m else m)))
            [] stageIDCommitList)"

text \<open>
  \<^verbatim>\<open>handleStopCommitList\<close>. Reading the last element of \<^verbatim>\<open>reachedCommitList\<close> panics when it is empty.
\<close>

definition handleStopCommitList ::
  "gitCommits \<Rightarrow> commitHistoryScanner \<Rightarrow> string \<Rightarrow> scanError + (string list \<times> string list \<times> stageCommits)" where
  "handleStopCommitList repo s headCommit =
     (let ret = (\<lambda>stop. bindR (stageIDHitCommitList repo s) (\<lambda>hits. Inr (reachedStageIDList s, stop, hits)));
          addLast = (if reachedCommitList s = [] then Inl UnexpectedCondition
                     else ret (stopCommitList s @ [last (reachedCommitList s)]))
      in if optDepthLimit s \<noteq> 0 then
           (if length (reachedStageIDList s) = length (expectedStageIDCommitList s) then addLast
            else ret (stopCommitList s))
         else if length (reachedStageIDList s) \<noteq> 0 then addLast
         else ret (stopCommitList s @ [headCommit]))"

section \<open>One reference, all references\<close>

text \<open>\<^verbatim>\<open>reflect.DeepEqual\<close> of two maps.\<close>

definition deepEqual :: "stageCommits \<Rightarrow> stageCommits \<Rightarrow> bool" where
  "deepEqual a b \<longleftrightarrow> length a = length b \<and> list_all (\<lambda>(k, v). map_of b k = Some v) a"

definition refExpected ::
  "gitCommits \<Rightarrow> int \<Rightarrow> ReferenceToScan \<Rightarrow> stageCommits \<Rightarrow> scanError + stageCommits" where
  "refExpected repo now ref expected =
     (let p = imagesCleanupKeepPolicy ref
      in if ImagesPerReference_Last p = 0 then Inr []
         else if klIn p \<noteq> None \<and> ImagesPerReference_Operator p = AndOperator
         then applyImagesCleanupInPolicy repo now expected (klIn p)
         else Inr expected)"

definition newScanner :: "stageCommits \<Rightarrow> string list \<Rightarrow> ReferenceToScan \<Rightarrow> commitHistoryScanner" where
  "newScanner expected stop ref =
     \<lparr>expectedStageIDCommitList = expected, reachedStageIDCommitList = [], reachedCommitList = [],
      stopCommitList = stop, isAlreadyScannedCommit = [], scanDepth = 0,
      optDepthLimit = scanDepthLimit ref, optPolicy = imagesCleanupKeepPolicy ref\<rparr>"

definition scanResult ::
  "gitCommits \<Rightarrow> (Commit list \<Rightarrow> Commit list) \<Rightarrow> int \<Rightarrow> ReferenceToScan \<Rightarrow> stageCommits \<Rightarrow> stageCommits \<Rightarrow>
     commitHistoryScanner \<Rightarrow> scanError + (string list \<times> string list \<times> stageCommits)" where
  "scanResult repo perm now ref expected refExp s =
     (let lst = ImagesPerReference_Last (optPolicy s);
          plain = bindR (stageIDHitCommitList repo s) (\<lambda>hits. Inr (reachedStageIDList s, stopCommitList s, hits))
      in if lst > 0 \<and> int (length (reachedStageIDList s)) = lst then plain
         else if lst > 0 \<and> int (length (reachedStageIDList s)) > lst then
           bindR (latestCommitStageIDs repo s) (\<lambda>latest.
             let latestCommitList = sortSliceDesc perm cWhen (map fst latest)
             in case klIn (optPolicy s) of
                  None \<Rightarrow> Inr (handleExtraStageIDsByLast s latest latestCommitList)
                | Some d \<Rightarrow> Inr (handleExtraStageIDsByLastWithIn now s latest latestCommitList d))
         else if \<not> deepEqual expected refExp then plain
         else handleStopCommitList repo s (cHash (HeadCommit ref)))"

definition scanReferenceHistory ::
  "gitCommits \<Rightarrow> (Commit list \<Rightarrow> Commit list) \<Rightarrow> int \<Rightarrow> ReferenceToScan \<Rightarrow> stageCommits \<Rightarrow> string list \<Rightarrow>
     scanError + (string list \<times> string list \<times> stageCommits)" where
  "scanReferenceHistory repo perm now ref expected stop =
     bindR (refExpected repo now ref expected) (\<lambda>refExp.
       if refExp = [] then Inr ([], stop, [])
       else bindR (scanCommitHistory repo (newScanner refExp stop ref) (cHash (HeadCommit ref))) (\<lambda>s.
         scanResult repo perm now ref expected refExp s))"

text \<open>
  \<^verbatim>\<open>ScanReferencesHistory\<close>: the references from the last to the first. \<open>addNew\<close> is
  \<^verbatim>\<open>util.AddNewStringsToStringArray\<close>.
\<close>

definition scanStep ::
  "(string list \<Rightarrow> string list \<Rightarrow> string list) \<Rightarrow> gitCommits \<Rightarrow> (Commit list \<Rightarrow> Commit list) \<Rightarrow> int \<Rightarrow>
     stageCommits \<Rightarrow> string list \<times> string list \<times> stageCommits \<Rightarrow> ReferenceToScan \<Rightarrow>
     scanError + (string list \<times> string list \<times> stageCommits)" where
  "scanStep addNew repo perm now expected st ref =
     (case st of (reachedStageIDs, stopCommits, hits) \<Rightarrow>
        bindR (scanReferenceHistory repo perm now ref expected stopCommits)
          (\<lambda>(refReached, refStop, refHits).
             Inr (addNew reachedStageIDs refReached, addNew stopCommits refStop,
               foldl (\<lambda>m (stageID, commits). case map_of m stageID of
                   None \<Rightarrow> AList.update stageID commits m
                 | Some hit \<Rightarrow> AList.update stageID (addNew hit commits) m) hits refHits)))"

definition ScanReferencesHistory ::
  "(string list \<Rightarrow> string list \<Rightarrow> string list) \<Rightarrow> gitCommits \<Rightarrow> (Commit list \<Rightarrow> Commit list) \<Rightarrow> int \<Rightarrow>
     ReferenceToScan list \<Rightarrow> stageCommits \<Rightarrow> scanError + (string list \<times> stageCommits)" where
  "ScanReferencesHistory addNew repo perm now refs expected =
     bindR (foldR (scanStep addNew repo perm now expected) ([], [], []) (rev refs))
       (\<lambda>(reached, stop, hits). Inr (reached, hits))"

text \<open>What the code relies on: the new elements are added, the old ones kept.\<close>

definition addNew_ok :: "(string list \<Rightarrow> string list \<Rightarrow> string list) \<Rightarrow> bool" where
  "addNew_ok addNew \<longleftrightarrow> (\<forall>xs ys. set (addNew xs ys) = set xs \<union> set ys)"

end
