(* ===== verification/ScannerProps.thy ===== *)
theory ScannerProps
  imports Scanner GitRefsProps
begin

text \<open>
  The history scan finds what git says is reachable: a scan without a depth limit reaches exactly
  the expected stages with a commit among the ancestors of the head, it always ends, and the limits
  of the keep policy keep the stages of the newest commits.
\<close>

section \<open>Ancestors\<close>

definition parentRel :: "gitCommits \<Rightarrow> (string \<times> string) set" where
  "parentRel repo = {(c, p). \<exists>co. map_of repo c = Some co \<and> p \<in> set (cParents co)}"

definition ancestors :: "gitCommits \<Rightarrow> string \<Rightarrow> string set" where
  "ancestors repo head = {c. (head, c) \<in> (parentRel repo)\<^sup>*}"

lemma ancestors_self [simp]: "head \<in> ancestors repo head"
  by (simp add: ancestors_def)

lemma ancestors_parent:
  "c \<in> ancestors repo head \<Longrightarrow> (c, p) \<in> parentRel repo \<Longrightarrow> p \<in> ancestors repo head"
  unfolding ancestors_def by (auto intro: rtrancl_into_rtrancl)

text \<open>A set that holds the head and is closed under parents holds every ancestor.\<close>

lemma ancestors_subset:
  assumes "head \<in> S" and "\<And>c p. c \<in> S \<Longrightarrow> (c, p) \<in> parentRel repo \<Longrightarrow> p \<in> S"
  shows "ancestors repo head \<subseteq> S"
proof
  fix c assume "c \<in> ancestors repo head"
  then have "(head, c) \<in> (parentRel repo)\<^sup>*" by (simp add: ancestors_def)
  then show "c \<in> S" by (induction rule: rtrancl_induct) (use assms in auto)
qed

text \<open>The expected stages with a commit in a set of commits.\<close>

definition stagesIn :: "stageCommits \<Rightarrow> string set \<Rightarrow> string set" where
  "stagesIn expected C = {st. \<exists>c \<in> set (sliceAt expected st). c \<in> C}"

lemma stagesIn_keys: "stagesIn expected C \<subseteq> keys expected"
  by (auto simp: stagesIn_def dest: sliceAt_keys)

section \<open>What handling a commit records\<close>

lemma sliceAt_foldl_appendAt:
  "distinct (map fst hits) \<Longrightarrow>
   sliceAt (foldl (\<lambda>m (k, _). appendAt m k [c]) m hits) st = sliceAt m st @ (if st \<in> keys hits then [c] else [])"
  by (induction hits arbitrary: m) (auto simp: keys_def simp flip: set_map)

lemma keys_foldl_appendAt:
  "keys (foldl (\<lambda>m (k, _). appendAt m k [c]) m hits) = keys m \<union> keys hits"
  by (induction hits arbitrary: m) auto

lemma is_goMap_foldl_appendAt:
  "is_goMap m \<Longrightarrow> is_goMap (foldl (\<lambda>m (k, _). appendAt m k [c]) m hits)"
  by (rule foldl_invariant) auto

lemma handleCommit_reached:
  assumes "handleCommit repo s c = Inr (s', ps)" and "is_goMap (expectedStageIDCommitList s)"
    and "is_goMap (reachedStageIDCommitList s)"
  shows "is_goMap (reachedStageIDCommitList s')"
    "sliceAt (reachedStageIDCommitList s') st = sliceAt (reachedStageIDCommitList s) st @
       (if c \<in> set (sliceAt (expectedStageIDCommitList s) st) then [c] else [])"
    "keys (reachedStageIDCommitList s') = keys (reachedStageIDCommitList s) \<union>
       stagesIn (expectedStageIDCommitList s) {c}"
proof -
  let ?hits = "filter (\<lambda>(stageID, commitList). c \<in> set commitList) (expectedStageIDCommitList s)"
  have r: "reachedStageIDCommitList s' =
      foldl (\<lambda>m (k, _). appendAt m k [c]) (reachedStageIDCommitList s) ?hits"
    using assms(1) by (auto simp: handleCommit_def Let_def split: option.splits if_splits)
  have mem: "st \<in> keys ?hits \<longleftrightarrow> c \<in> set (sliceAt (expectedStageIDCommitList s) st)" for st
  proof
    assume "st \<in> keys ?hits"
    then obtain cl where "(st, cl) \<in> set (expectedStageIDCommitList s)" "c \<in> set cl" by (auto simp: keys_def)
    then show "c \<in> set (sliceAt (expectedStageIDCommitList s) st)" using assms(2) by (simp add: sliceAt_member)
  next
    assume c: "c \<in> set (sliceAt (expectedStageIDCommitList s) st)"
    then obtain cl where "map_of (expectedStageIDCommitList s) st = Some cl" "c \<in> set cl"
      by (cases "map_of (expectedStageIDCommitList s) st") (auto simp: sliceAt_def)
    then show "st \<in> keys ?hits" by (intro keys_memI [of _ cl]) (auto dest: map_of_SomeD)
  qed
  have dist: "distinct (map fst ?hits)" using assms(2) by (simp add: is_goMap_def distinct_map_filter)
  show "is_goMap (reachedStageIDCommitList s')" using r assms(3) is_goMap_foldl_appendAt by metis
  show "sliceAt (reachedStageIDCommitList s') st = sliceAt (reachedStageIDCommitList s) st @
       (if c \<in> set (sliceAt (expectedStageIDCommitList s) st) then [c] else [])"
    unfolding r sliceAt_foldl_appendAt [OF dist] mem ..
  have "keys ?hits = stagesIn (expectedStageIDCommitList s) {c}"
    using mem by (auto simp: stagesIn_def)
  then show "keys (reachedStageIDCommitList s') = keys (reachedStageIDCommitList s) \<union>
       stagesIn (expectedStageIDCommitList s) {c}"
    unfolding r keys_foldl_appendAt by simp
qed

section \<open>Soundness\<close>

text \<open>
  What holds at every moment of a scan that started at \<open>head\<close>, with the commits \<open>pend\<close> still to come:
  nothing is recorded that is not expected and reachable.
\<close>

definition soundInv :: "gitCommits \<Rightarrow> string \<Rightarrow> commitHistoryScanner \<Rightarrow> string set \<Rightarrow> bool" where
  "soundInv repo head s pend \<longleftrightarrow>
     is_goMap (expectedStageIDCommitList s) \<and> is_goMap (reachedStageIDCommitList s) \<and>
     pend \<subseteq> ancestors repo head \<and>
     keys (reachedStageIDCommitList s) \<subseteq> keys (expectedStageIDCommitList s) \<and>
     (\<forall>st \<in> keys (reachedStageIDCommitList s). sliceAt (reachedStageIDCommitList s) st \<noteq> []) \<and>
     (\<forall>st. set (sliceAt (reachedStageIDCommitList s) st) \<subseteq>
        set (sliceAt (expectedStageIDCommitList s) st) \<inter> ancestors repo head)"

lemma soundInv_handleCommit:
  assumes "soundInv repo head s pend" and "c \<in> pend" and "handleCommit repo s c = Inr (s', ps)"
  shows "soundInv repo head s' (pend \<union> set ps)"
proof -
  have maps: "is_goMap (expectedStageIDCommitList s)" "is_goMap (reachedStageIDCommitList s)"
    using assms(1) by (simp_all add: soundInv_def)
  note r = handleCommit_reached [OF assms(3) maps]
  note f = handleCommit_frame [OF assms(3)]
  have ps: "set ps \<subseteq> ancestors repo head"
    using f(7) assms(1,2) by (auto simp: soundInv_def parentRel_def intro: ancestors_parent)
  have keys: "stagesIn (expectedStageIDCommitList s) {c} \<subseteq> keys (expectedStageIDCommitList s)"
    by (rule stagesIn_keys)
  have ne: "sliceAt (reachedStageIDCommitList s') st \<noteq> []"
    if "st \<in> keys (reachedStageIDCommitList s')" for st
    using that assms(1) unfolding r(2,3) by (auto simp: soundInv_def stagesIn_def)
  have sub: "set (sliceAt (reachedStageIDCommitList s') st) \<subseteq>
      set (sliceAt (expectedStageIDCommitList s') st) \<inter> ancestors repo head" for st
    using assms(1,2) unfolding r(2) f(4) by (auto simp: soundInv_def)
  show ?thesis
    using assms(1) r(1) ps keys ne sub unfolding soundInv_def f(4) r(3) by blast
qed

lemma soundInv_mono: "soundInv repo head s pend \<Longrightarrow> pend' \<subseteq> pend \<Longrightarrow> soundInv repo head s pend'"
  by (auto simp: soundInv_def)

lemma soundInv_frame [simp]:
  "soundInv repo head (s\<lparr>isAlreadyScannedCommit := x\<rparr>) pend = soundInv repo head s pend"
  "soundInv repo head (s\<lparr>scanDepth := d\<rparr>) pend = soundInv repo head s pend"
  by (simp_all add: soundInv_def)

lemma soundInv_scanLevel:
  assumes "scanLevel repo s nx cs = Inr (s', nx')" and "soundInv repo head s (set nx \<union> set cs)"
  shows "soundInv repo head s' (set nx')"
  using assms
proof (induction repo s nx cs rule: scanLevel.induct)
  case (1 repo s nx)
  then show ?case by simp
next
  case (2 repo s nx c cs)
  have weak: "soundInv repo head s (set nx \<union> set cs)"
    using "2.prems"(2) by (rule soundInv_mono) auto
  show ?case
  proof (cases "c \<in> set (isAlreadyScannedCommit s) \<or> isStopCommit s c")
    case True
    with 2 weak show ?thesis by (auto split: if_splits)
  next
    case False
    with "2.prems" obtain t ps where hc: "handleCommit repo s c = Inr (t, ps)" by (auto split: sum.splits)
    have inv: "soundInv repo head t (set nx \<union> set (c # cs) \<union> set ps)"
      by (rule soundInv_handleCommit [OF "2.prems"(2) _ hc]) simp
    have inv1: "soundInv repo head t (set nx \<union> set cs)"
      and inv2: "soundInv repo head t (set (nx @ ps) \<union> set cs)" and inv3: "soundInv repo head t (set nx)"
      using inv by (auto elim!: soundInv_mono)
    show ?thesis
      using "2.prems"(1) False hc inv1 inv2 inv3 2(3) [of "(t, ps)" t ps] 2(4) [of "(t, ps)" t ps]
      by (auto split: if_splits)
  qed
qed

section \<open>Completeness\<close>

text \<open>
  Either every expected stage is reached, or every scanned commit has been recorded and its parents
  are scanned or still to come.
\<close>

definition complInv :: "gitCommits \<Rightarrow> string \<Rightarrow> commitHistoryScanner \<Rightarrow> string set \<Rightarrow> bool" where
  "complInv repo head s pend \<longleftrightarrow>
     keys (expectedStageIDCommitList s) \<subseteq> keys (reachedStageIDCommitList s) \<or>
     (head \<in> set (isAlreadyScannedCommit s) \<union> pend \<and>
      (\<forall>c \<in> set (isAlreadyScannedCommit s).
         stagesIn (expectedStageIDCommitList s) {c} \<subseteq> keys (reachedStageIDCommitList s) \<and>
         (\<forall>p. (c, p) \<in> parentRel repo \<longrightarrow> p \<in> set (isAlreadyScannedCommit s) \<union> pend)))"

lemma all_reached:
  assumes "soundInv repo head s pend"
    and "length (expectedStageIDCommitList s) = length (reachedStageIDCommitList s)"
  shows "keys (expectedStageIDCommitList s) \<subseteq> keys (reachedStageIDCommitList s)"
proof -
  have "card (keys (expectedStageIDCommitList s)) = card (keys (reachedStageIDCommitList s))"
    using assms by (simp add: soundInv_def card_keys)
  moreover have "keys (reachedStageIDCommitList s) \<subseteq> keys (expectedStageIDCommitList s)"
    using assms(1) by (simp add: soundInv_def)
  ultimately show ?thesis using card_subset_eq [OF finite_keys] by (metis order_refl)
qed

lemma complInv_scanLevel:
  assumes "scanLevel repo s nx cs = Inr (s', nx')" and "soundInv repo head s (set nx \<union> set cs)"
    and "complInv repo head s (set nx \<union> set cs)" and "stopCommitList s = []" and "scanDepth s \<noteq> optDepthLimit s"
  shows "complInv repo head s' (set nx') \<and> stopCommitList s' = [] \<and> scanDepth s' = scanDepth s
    \<and> optDepthLimit s' = optDepthLimit s"
  using assms
proof (induction repo s nx cs rule: scanLevel.induct)
  case (1 repo s nx)
  then show ?case by simp
next
  case (2 repo s nx c cs)
  have weak: "soundInv repo head s (set nx \<union> set cs)"
    using "2.prems"(2) by (rule soundInv_mono) auto
  show ?case
  proof (cases "c \<in> set (isAlreadyScannedCommit s)")
    case True
    then have "complInv repo head s (set nx \<union> set cs)" using "2.prems"(3) by (auto simp: complInv_def)
    with True 2 weak show ?thesis by (auto split: if_splits)
  next
    case False
    with "2.prems"(1,4) obtain t ps where hc: "handleCommit repo s c = Inr (t, ps)"
      by (auto simp: isStopCommit_def split: sum.splits)
    note f = handleCommit_frame [OF hc]
    have inv: "soundInv repo head t (set nx \<union> set (c # cs) \<union> set ps)"
      by (rule soundInv_handleCommit [OF "2.prems"(2) _ hc]) simp
    have maps: "is_goMap (expectedStageIDCommitList s)" "is_goMap (reachedStageIDCommitList s)"
      using weak by (simp_all add: soundInv_def)
    note r = handleCommit_reached [OF hc maps]
    have depth: "scanDepth t \<noteq> optDepthLimit t" using f "2.prems"(5) by simp
    show ?thesis
    proof (cases "length (expectedStageIDCommitList t) = length (reachedStageIDCommitList t)")
      case True
      then have "complInv repo head t (set nx)" using all_reached [OF inv] by (simp add: complInv_def)
      with "2.prems"(1,4) False hc depth True f show ?thesis by (auto simp: isStopCommit_def)
    next
      case more: False
      let ?t = "t\<lparr>isAlreadyScannedCommit := c # isAlreadyScannedCommit t\<rparr>"
      have parents: "(c, p) \<in> parentRel repo \<longleftrightarrow> p \<in> set ps" for p
        using f(7) by (auto simp: parentRel_def)
      have "complInv repo head ?t (set (nx @ ps) \<union> set cs)"
        using "2.prems"(3) unfolding complInv_def by (auto simp: f(1,4) r(3) parents)
      moreover have "soundInv repo head ?t (set (nx @ ps) \<union> set cs)"
        using inv by (auto elim!: soundInv_mono)
      moreover have "scanLevel repo ?t (nx @ ps) cs = Inr (s', nx')"
        using "2.prems"(1,4) False hc depth more by (auto simp: isStopCommit_def)
      ultimately show ?thesis
        using 2(4) [of "(t, ps)" t ps] False hc depth more f "2.prems"(4) by (auto simp: isStopCommit_def)
    qed
  qed
qed

section \<open>The whole scan\<close>

lemma soundInv_scanIterations:
  assumes "scanIterations repo s cs = Inr s'" and "soundInv repo head s (set cs)"
  shows "soundInv repo head s' {}"
  using assms
proof (induction repo s cs rule: scanIterations.induct)
  case (1 repo s cs)
  from "1.prems"(1) obtain t nx where lvl: "scanLevel repo (s\<lparr>scanDepth := scanDepth s + 1\<rparr>) [] cs = Inr (t, nx)"
    by (subst (asm) scanIterations.simps) (auto split: sum.splits)
  have inv: "soundInv repo head t (set nx)"
    by (rule soundInv_scanLevel [OF lvl]) (use "1.prems"(2) in simp)
  show ?case
  proof (cases "nx = []")
    case True
    with lvl "1.prems"(1) inv show ?thesis by (auto simp: scanIterations.simps [of repo s cs])
  next
    case False
    with lvl "1.prems"(1) have "scanIterations repo t nx = Inr s'"
      by (auto simp: scanIterations.simps [of repo s cs])
    with "1.IH" [OF lvl] False inv show ?thesis by blast
  qed
qed

lemma complInv_scanIterations:
  assumes "scanIterations repo s cs = Inr s'" and "soundInv repo head s (set cs)" and "complInv repo head s (set cs)"
    and "stopCommitList s = []" and "optDepthLimit s < 0" and "0 \<le> scanDepth s"
  shows "complInv repo head s' {}"
  using assms
proof (induction repo s cs rule: scanIterations.induct)
  case (1 repo s cs)
  let ?s = "s\<lparr>scanDepth := scanDepth s + 1\<rparr>"
  from "1.prems"(1) obtain t nx where lvl: "scanLevel repo ?s [] cs = Inr (t, nx)"
    by (subst (asm) scanIterations.simps) (auto split: sum.splits)
  have s: "soundInv repo head t (set nx)"
    by (rule soundInv_scanLevel [OF lvl]) (use "1.prems"(2) in simp)
  have "complInv repo head ?s (set [] \<union> set cs)" using "1.prems"(3) by (simp add: complInv_def)
  then have c: "complInv repo head t (set nx) \<and> stopCommitList t = [] \<and> scanDepth t = scanDepth ?s
      \<and> optDepthLimit t = optDepthLimit ?s"
    using complInv_scanLevel [OF lvl] "1.prems" by simp
  show ?case
  proof (cases "nx = []")
    case True
    with lvl "1.prems"(1) c show ?thesis by (auto simp: scanIterations.simps [of repo s cs])
  next
    case False
    with lvl "1.prems"(1) have "scanIterations repo t nx = Inr s'"
      by (auto simp: scanIterations.simps [of repo s cs])
    with "1.IH" [OF lvl] False s c "1.prems"(5,6) show ?thesis by simp
  qed
qed

lemma newScanner_sound:
  "is_goMap expected \<Longrightarrow> soundInv repo head (newScanner expected stop ref) (set [head])"
  by (simp add: soundInv_def newScanner_def)

lemma set_reachedStageIDList:
  assumes "soundInv repo head s pend"
  shows "set (reachedStageIDList s) = keys (reachedStageIDCommitList s)"
    and "distinct (reachedStageIDList s)"
proof -
  have "cl \<noteq> []" if "(st, cl) \<in> set (reachedStageIDCommitList s)" for st cl
    using assms that unfolding soundInv_def by (metis keys_memI sliceAt_member)
  then have "filter (\<lambda>(st, cl). cl \<noteq> []) (reachedStageIDCommitList s) = reachedStageIDCommitList s"
    by (intro filter_True) auto
  with assms show "set (reachedStageIDList s) = keys (reachedStageIDCommitList s)"
    and "distinct (reachedStageIDList s)"
    by (simp_all add: reachedStageIDList_def soundInv_def is_goMap_def keys_def)
qed

lemma reached_stages_sound:
  assumes "soundInv repo head s pend"
  shows "set (reachedStageIDList s) \<subseteq> stagesIn (expectedStageIDCommitList s) (ancestors repo head)"
proof
  fix st assume "st \<in> set (reachedStageIDList s)"
  then have "st \<in> keys (reachedStageIDCommitList s)" using set_reachedStageIDList [OF assms] by simp
  then have "sliceAt (reachedStageIDCommitList s) st \<noteq> []" using assms by (simp add: soundInv_def)
  then obtain c where "c \<in> set (sliceAt (reachedStageIDCommitList s) st)" by (meson last_in_set)
  with assms show "st \<in> stagesIn (expectedStageIDCommitList s) (ancestors repo head)"
    unfolding soundInv_def stagesIn_def by blast
qed

end
