(* ===== verification/ScanHistory.thy ===== *)
theory ScanHistory
  imports ScannerProps
begin

text \<open>
  The scan of all references: it returns whenever the repository holds the history of the heads and
  the commits of the expected stages, what it keeps is expected and reachable, and the stages
  reachable from an unlimited reference are all kept although references share stop commits.
\<close>

section \<open>The scan of one reference returns\<close>

definition historyKnown :: "gitCommits \<Rightarrow> string \<Rightarrow> bool" where
  "historyKnown repo head \<longleftrightarrow> ancestors repo head \<subseteq> keys repo"

lemma handleCommit_returns:
  assumes "c \<in> ancestors repo head" and "historyKnown repo head"
  shows "\<exists>s' ps. handleCommit repo s c = Inr (s', ps) \<and> set ps \<subseteq> ancestors repo head"
proof -
  from assms obtain co where co: "map_of repo c = Some co"
    by (meson historyKnown_def keysE subsetD)
  then have "set (cParents co) \<subseteq> ancestors repo head"
    using assms(1) by (auto intro: ancestors_parent simp: parentRel_def)
  with co show ?thesis by (auto simp: handleCommit_def Let_def)
qed

lemma scanLevel_returns:
  assumes "historyKnown repo head" and "set nx \<union> set cs \<subseteq> ancestors repo head"
  shows "\<exists>s' nx'. scanLevel repo s nx cs = Inr (s', nx') \<and> set nx' \<subseteq> ancestors repo head"
  using assms(2)
proof (induction cs arbitrary: s nx)
  case Nil
  then show ?case by simp
next
  case (Cons c cs)
  obtain t ps where hc: "handleCommit repo s c = Inr (t, ps)" and ps: "set ps \<subseteq> ancestors repo head"
    using handleCommit_returns [OF _ assms(1)] Cons.prems by force
  have rest: "\<exists>s' nx'. scanLevel repo u nx cs = Inr (s', nx') \<and> set nx' \<subseteq> ancestors repo head"
    and next': "\<exists>s' nx'. scanLevel repo u (nx @ ps) cs = Inr (s', nx') \<and> set nx' \<subseteq> ancestors repo head" for u
    using Cons.IH [of nx u] Cons.IH [of "nx @ ps" u] Cons.prems ps by auto
  show ?case using hc rest next' Cons.prems by auto
qed

lemma scanIterations_returns:
  assumes "historyKnown repo head" and "set cs \<subseteq> ancestors repo head"
  shows "\<exists>s'. scanIterations repo s cs = Inr s'"
  using assms
proof (induction repo s cs rule: scanIterations.induct)
  case (1 repo s cs)
  obtain t nx where lvl: "scanLevel repo (s\<lparr>scanDepth := scanDepth s + 1\<rparr>) [] cs = Inr (t, nx)"
    and nx: "set nx \<subseteq> ancestors repo head"
    using scanLevel_returns [OF "1.prems"(1), of "[]" cs] "1.prems"(2)
    by (metis Un_empty_left empty_set)
  show ?case
  proof (cases "nx = []")
    case True
    with lvl show ?thesis by (simp add: scanIterations.simps [of repo s cs])
  next
    case False
    with "1.IH" [OF lvl refl] nx "1.prems"(1) lvl show ?thesis
      by (simp add: scanIterations.simps [of repo s cs])
  qed
qed

text \<open>Nothing is reached without a commit being noted as reached.\<close>

definition notedInv :: "commitHistoryScanner \<Rightarrow> bool" where
  "notedInv s \<longleftrightarrow> (reachedStageIDCommitList s \<noteq> [] \<longrightarrow> reachedCommitList s \<noteq> [])"

lemma notedInv_handleCommit:
  "notedInv s \<Longrightarrow> handleCommit repo s c = Inr (s', ps) \<Longrightarrow> notedInv s'"
  by (auto simp: notedInv_def handleCommit_def Let_def split: option.splits if_splits)

lemma notedInv_frame [simp]:
  "notedInv (s\<lparr>isAlreadyScannedCommit := x\<rparr>) = notedInv s" "notedInv (s\<lparr>scanDepth := d\<rparr>) = notedInv s"
  by (simp_all add: notedInv_def)

lemma notedInv_scanLevel:
  "scanLevel repo s nx cs = Inr (s', nx') \<Longrightarrow> notedInv s \<Longrightarrow> notedInv s'"
proof (induction repo s nx cs rule: scanLevel.induct)
  case (2 repo s nx c cs)
  show ?case
  proof (cases "c \<in> set (isAlreadyScannedCommit s) \<or> isStopCommit s c")
    case True
    with 2 show ?thesis by (auto split: if_splits)
  next
    case False
    with "2.prems" obtain t ps where hc: "handleCommit repo s c = Inr (t, ps)" by (auto split: sum.splits)
    then have "notedInv t" using "2.prems"(2) notedInv_handleCommit by blast
    then show ?thesis
      using "2.prems"(1) False hc 2(3) [of "(t, ps)" t ps] 2(4) [of "(t, ps)" t ps] by (auto split: if_splits)
  qed
qed simp

text \<open>The parts of the state a scan does not touch.\<close>

lemma scanLevel_frame:
  "scanLevel repo s nx cs = Inr (s', nx') \<Longrightarrow>
   expectedStageIDCommitList s' = expectedStageIDCommitList s \<and> stopCommitList s' = stopCommitList s \<and>
   optPolicy s' = optPolicy s \<and> optDepthLimit s' = optDepthLimit s \<and> scanDepth s' = scanDepth s"
proof (induction repo s nx cs rule: scanLevel.induct)
  case (2 repo s nx c cs)
  show ?case
  proof (cases "c \<in> set (isAlreadyScannedCommit s) \<or> isStopCommit s c")
    case True
    with 2 show ?thesis by (auto split: if_splits)
  next
    case False
    with "2.prems" obtain t ps where hc: "handleCommit repo s c = Inr (t, ps)" by (auto split: sum.splits)
    note handleCommit_frame [OF hc]
    then show ?thesis
      using "2.prems"(1) False hc 2(3) [of "(t, ps)" t ps] 2(4) [of "(t, ps)" t ps] by (auto split: if_splits)
  qed
qed simp

lemma scanIterations_frame:
  assumes "scanIterations repo s cs = Inr s'" and "notedInv s"
  shows "expectedStageIDCommitList s' = expectedStageIDCommitList s \<and> stopCommitList s' = stopCommitList s \<and>
    optPolicy s' = optPolicy s \<and> optDepthLimit s' = optDepthLimit s \<and> notedInv s'"
  using assms
proof (induction repo s cs rule: scanIterations.induct)
  case (1 repo s cs)
  from "1.prems" obtain t nx where lvl: "scanLevel repo (s\<lparr>scanDepth := scanDepth s + 1\<rparr>) [] cs = Inr (t, nx)"
    by (subst (asm) scanIterations.simps) (auto split: sum.splits)
  have n: "notedInv t" using notedInv_scanLevel [OF lvl] "1.prems"(2) by simp
  show ?case
  proof (cases "nx = []")
    case True
    with lvl "1.prems" n scanLevel_frame [OF lvl] show ?thesis by (simp add: scanIterations.simps [of repo s cs])
  next
    case False
    with lvl "1.prems" have "scanIterations repo t nx = Inr s'" by (simp add: scanIterations.simps [of repo s cs])
    with "1.IH" [OF lvl refl False] n scanLevel_frame [OF lvl] show ?thesis by simp
  qed
qed

text \<open>What a finished scan of a reference leaves.\<close>

definition finished :: "gitCommits \<Rightarrow> ReferenceToScan \<Rightarrow> stageCommits \<Rightarrow> string list \<Rightarrow> commitHistoryScanner \<Rightarrow> bool" where
  "finished repo ref refExp stop s \<longleftrightarrow>
     soundInv repo (cHash (HeadCommit ref)) s {} \<and> notedInv s \<and> expectedStageIDCommitList s = refExp \<and>
     stopCommitList s = stop \<and> optPolicy s = imagesCleanupKeepPolicy ref \<and> optDepthLimit s = scanDepthLimit ref"

lemma scan_finished:
  assumes "scanCommitHistory repo (newScanner refExp stop ref) (cHash (HeadCommit ref)) = Inr s"
    and "is_goMap refExp"
  shows "finished repo ref refExp stop s"
proof -
  have "soundInv repo (cHash (HeadCommit ref)) s {}"
    using soundInv_scanIterations assms newScanner_sound unfolding scanCommitHistory_def by blast
  moreover have "notedInv (newScanner refExp stop ref)" by (simp add: notedInv_def newScanner_def)
  ultimately show ?thesis
    using scanIterations_frame assms(1) unfolding scanCommitHistory_def finished_def
    by (fastforce simp: newScanner_def)
qed

section \<open>The latest commit of each stage\<close>

lemma latestCommitOf_returns:
  assumes "set cl \<subseteq> keys repo"
  shows "\<exists>l. latestCommitOf repo cl = Inr l \<and> (l \<noteq> None \<longleftrightarrow> cl \<noteq> [])"
proof (cases cl)
  case Nil
  then show ?thesis by (simp add: latestCommitOf_def)
next
  case (Cons c cl')
  from assms Cons obtain co where co: "map_of repo c = Some co" by (auto elim: keysE)
  have "\<exists>l. foldR (\<lambda>latest commit. case map_of repo commit of
         None \<Rightarrow> Inl UnexpectedCondition
       | Some co \<Rightarrow> Inr (case latest of None \<Rightarrow> Some co
           | Some l \<Rightarrow> if cWhen co > cWhen l then Some co else latest)) (Some co) cl' = Inr l \<and> l \<noteq> None"
    by (rule foldR_returns) (use assms Cons in \<open>force elim: keysE\<close>)+
  with co Cons show ?thesis by (auto simp: latestCommitOf_def)
qed

definition latestIs :: "gitCommits \<Rightarrow> Commit \<Rightarrow> string list \<Rightarrow> bool" where
  "latestIs repo co cl \<longleftrightarrow> latestCommitOf repo cl = Inr (Some co)"

lemma latestStep_pair:
  "latestStep repo m (st, cl) = bindR (latestCommitOf repo cl) (\<lambda>latest.
     Inr (case latest of None \<Rightarrow> m | Some co \<Rightarrow> appendAt m co [st]))"
  by (simp add: latestStep_def)

lemma latestFold:
  assumes "foldR (latestStep repo) m xs = Inr m'"
  shows "sliceAt m' co = sliceAt m co @ map fst (filter (\<lambda>(st, cl). latestIs repo co cl) xs) \<and>
    keys m' = keys m \<union> {co. \<exists>(st, cl) \<in> set xs. latestIs repo co cl} \<and> (is_goMap m \<longrightarrow> is_goMap m')"
  using assms
proof (induction xs arbitrary: m)
  case Nil
  then show ?case by simp
next
  case (Cons x xs)
  obtain st cl where x: "x = (st, cl)" by fastforce
  with Cons.prems obtain l where l: "latestCommitOf repo cl = Inr l"
    and r: "foldR (latestStep repo) (case l of None \<Rightarrow> m | Some co \<Rightarrow> appendAt m co [st]) xs = Inr m'"
    by (auto simp: latestStep_pair bindR_Inr)
  from Cons.IH [OF r] show ?case by (cases l) (auto simp: x latestIs_def l)
qed

lemma latestFold_returns:
  assumes "\<forall>(st, cl) \<in> set xs. set cl \<subseteq> keys repo"
  shows "\<exists>m'. foldR (latestStep repo) m xs = Inr m'"
proof -
  have "\<exists>m'. foldR (latestStep repo) m xs = Inr m' \<and> True"
    by (rule foldR_returns)
      (use assms latestCommitOf_returns in \<open>fastforce simp: latestStep_def\<close>)+
  then show ?thesis by simp
qed

section \<open>The result of one reference\<close>

definition latestCommits :: "gitCommits \<Rightarrow> commitHistoryScanner \<Rightarrow> Commit set" where
  "latestCommits repo s = {co. \<exists>st. latestIs repo co (sliceAt (reachedStageIDCommitList s) st)}"

lemma latestIs_Nil [simp]: "\<not> latestIs repo co []"
  by (simp add: latestIs_def latestCommitOf_def)

lemma latest_keys:
  assumes "latestCommitStageIDs repo s = Inr latest" and "is_goMap (reachedStageIDCommitList s)"
  shows "is_goMap latest" and "keys latest = latestCommits repo s"
    and "set (sliceAt latest co) = {st. latestIs repo co (sliceAt (reachedStageIDCommitList s) st)}"
proof -
  have mem: "(\<exists>cl. (st, cl) \<in> set (reachedStageIDCommitList s) \<and> latestIs repo co cl) \<longleftrightarrow>
      latestIs repo co (sliceAt (reachedStageIDCommitList s) st)" for st co
  proof (cases "map_of (reachedStageIDCommitList s) st")
    case None
    then have "(st, cl) \<notin> set (reachedStageIDCommitList s)" for cl
      using map_of_goMap [OF assms(2), of st cl] by simp
    with None show ?thesis by (simp add: sliceAt_def)
  next
    case (Some cl)
    then have "(st, cl') \<in> set (reachedStageIDCommitList s) \<longleftrightarrow> cl' = cl" for cl'
      using map_of_goMap [OF assms(2), of st cl'] by auto
    with Some show ?thesis by (simp add: sliceAt_def)
  qed
  note f = latestFold [OF assms(1) [unfolded latestCommitStageIDs_def], of co]
  show "is_goMap latest" using f by simp
  have "sliceAt latest co = map fst (filter (\<lambda>(st, cl). latestIs repo co cl) (reachedStageIDCommitList s))"
    using f by simp
  then show "set (sliceAt latest co) = {st. latestIs repo co (sliceAt (reachedStageIDCommitList s) st)}"
    unfolding mem [symmetric] by force
  have "keys latest = {co. \<exists>(st, cl) \<in> set (reachedStageIDCommitList s). latestIs repo co cl}" using f by simp
  then show "keys latest = latestCommits repo s"
    unfolding latestCommits_def mem [symmetric] by blast
qed

lemma finished_reached:
  assumes "finished repo ref refExp stop s"
  shows "set (reachedStageIDList s) = keys (reachedStageIDCommitList s)"
    and "length (reachedStageIDList s) = card (keys (reachedStageIDCommitList s))"
    and "keys (reachedStageIDCommitList s) \<subseteq> stagesIn refExp (ancestors repo (cHash (HeadCommit ref)))"
proof -
  have inv: "soundInv repo (cHash (HeadCommit ref)) s {}" and e: "expectedStageIDCommitList s = refExp"
    using assms by (simp_all add: finished_def)
  show r: "set (reachedStageIDList s) = keys (reachedStageIDCommitList s)"
    using set_reachedStageIDList [OF inv] by simp
  show "length (reachedStageIDList s) = card (keys (reachedStageIDCommitList s))"
    using set_reachedStageIDList [OF inv] by (metis distinct_card)
  show "keys (reachedStageIDCommitList s) \<subseteq> stagesIn refExp (ancestors repo (cHash (HeadCommit ref)))"
    using reached_stages_sound [OF inv] r e by simp
qed

lemma finished_returns:
  assumes "finished repo ref refExp stop s" and "historyKnown repo (cHash (HeadCommit ref))"
  shows "\<exists>latest. latestCommitStageIDs repo s = Inr latest" and "\<exists>hits. stageIDHitCommitList repo s = Inr hits"
proof -
  have "set cl \<subseteq> keys repo" if "(st, cl) \<in> set (reachedStageIDCommitList s)" for st cl
  proof -
    have "sliceAt (reachedStageIDCommitList s) st = cl"
      using that assms(1) by (simp add: finished_def soundInv_def sliceAt_member)
    then show ?thesis using assms unfolding finished_def soundInv_def historyKnown_def by blast
  qed
  then have "\<forall>(st, cl) \<in> set (reachedStageIDCommitList s). set cl \<subseteq> keys repo" by blast
  then show l: "\<exists>latest. latestCommitStageIDs repo s = Inr latest"
    unfolding latestCommitStageIDs_def by (rule latestFold_returns)
  then show "\<exists>hits. stageIDHitCommitList repo s = Inr hits" by (auto simp: stageIDHitCommitList_def)
qed

lemma reached_noted:
  assumes "finished repo ref refExp stop s" and "reachedStageIDList s \<noteq> []"
  shows "reachedCommitList s \<noteq> []"
  using assms by (auto simp: finished_def notedInv_def reachedStageIDList_def)

lemma handleStopCommitList_returns:
  assumes "finished repo ref refExp stop s" and "historyKnown repo (cHash (HeadCommit ref))" and "refExp \<noteq> []"
  shows "\<exists>r. handleStopCommitList repo s head = Inr r"
proof -
  obtain hits where hits: "stageIDHitCommitList repo s = Inr hits" using finished_returns [OF assms(1,2)] by blast
  have "reachedCommitList s \<noteq> []" if "length (reachedStageIDList s) = length (expectedStageIDCommitList s)"
    using that assms(3) reached_noted [OF assms(1)] assms(1) [unfolded finished_def] by (metis length_0_conv)
  then show ?thesis using hits reached_noted [OF assms(1)] by (auto simp: handleStopCommitList_def Let_def)
qed

lemma scanResult_returns:
  assumes "finished repo ref refExp stop s" and "historyKnown repo (cHash (HeadCommit ref))" and "refExp \<noteq> []"
  shows "\<exists>r. scanResult repo perm now ref expected refExp s = Inr r"
proof -
  obtain latest hits where "latestCommitStageIDs repo s = Inr latest" "stageIDHitCommitList repo s = Inr hits"
    using finished_returns [OF assms(1,2)] by blast
  then show ?thesis
    using handleStopCommitList_returns [OF assms]
    by (cases "klIn (optPolicy s)") (auto simp: scanResult_def Let_def simp del: split_paired_Ex)
qed

text \<open>The stop commits grow only when every expected stage has been reached.\<close>

lemma handleStopCommitList_result:
  assumes "handleStopCommitList repo s head = Inr (ids, stop', hits)" and "finished repo ref refExp stop s"
    and "scanDepthLimit ref \<noteq> 0"
  shows "set ids = keys (reachedStageIDCommitList s)"
    and "stop' = stop \<or> keys (reachedStageIDCommitList s) = keys refExp"
proof -
  have ids: "ids = reachedStageIDList s"
    and stop: "stop' = stop \<or> length (reachedStageIDList s) = length (expectedStageIDCommitList s)"
    using assms by (auto simp: handleStopCommitList_def Let_def bindR_Inr finished_def split: if_splits)
  show "set ids = keys (reachedStageIDCommitList s)" using ids finished_reached(1) [OF assms(2)] by simp
  show "stop' = stop \<or> keys (reachedStageIDCommitList s) = keys refExp"
    using stop
  proof
    assume "length (reachedStageIDList s) = length (expectedStageIDCommitList s)"
    moreover have "card (keys refExp) = length (expectedStageIDCommitList s)"
      using assms(2) unfolding finished_def soundInv_def by (metis card_keys)
    ultimately have "card (keys (reachedStageIDCommitList s)) = card (keys refExp)"
      using finished_reached(2) [OF assms(2)] by simp
    moreover have "keys (reachedStageIDCommitList s) \<subseteq> keys refExp"
      using finished_reached(3) [OF assms(2)] stagesIn_keys by blast
    ultimately show ?thesis by (simp add: card_subset_eq)
  qed simp
qed

section \<open>The period of a policy\<close>

definition recent :: "gitCommits \<Rightarrow> int \<Rightarrow> int \<Rightarrow> string \<Rightarrow> bool" where
  "recent repo now d c \<longleftrightarrow> (case map_of repo c of None \<Rightarrow> False | Some co \<Rightarrow> now - d < cWhen co)"

definition recentOnly :: "gitCommits \<Rightarrow> int \<Rightarrow> int \<Rightarrow> stageCommits \<Rightarrow> stageCommits" where
  "recentOnly repo now d m =
     filter (\<lambda>(st, cl). cl \<noteq> []) (map (\<lambda>(st, cl). (st, filter (recent repo now d) cl)) m)"

lemma inPolicy_inner:
  "foldR (\<lambda>acc commit. case map_of repo commit of
       None \<Rightarrow> Inl UnexpectedCondition
     | Some co \<Rightarrow> Inr (if cWhen co > now - d then acc @ [commit] else acc)) acc cl =
   (if set cl \<subseteq> keys repo then Inr (acc @ filter (recent repo now d) cl) else Inl UnexpectedCondition)"
proof (induction cl arbitrary: acc)
  case Nil
  then show ?case by simp
next
  case (Cons c cl)
  then show ?case by (cases "map_of repo c") (auto simp: recent_def [of repo now d c] keys_iff)
qed

lemma inPolicy_outer:
  assumes "keys m \<inter> keys xs = {}" and "is_goMap xs" and "\<forall>(st, cl) \<in> set xs. set cl \<subseteq> keys repo"
  shows "foldR (\<lambda>m (stageID, commitList).
            bindR (foldR (\<lambda>acc commit. case map_of repo commit of
                 None \<Rightarrow> Inl UnexpectedCondition
               | Some co \<Rightarrow> Inr (if cWhen co > now - d then acc @ [commit] else acc)) [] commitList)
              (\<lambda>resultCommitList. Inr (if resultCommitList \<noteq> [] then AList.update stageID resultCommitList m else m)))
            m xs = Inr (m @ recentOnly repo now d xs)"
  using assms
proof (induction xs arbitrary: m)
  case Nil
  then show ?case by (simp add: recentOnly_def)
next
  case (Cons x xs)
  obtain st cl where x: "x = (st, cl)" by fastforce
  let ?r = "filter (recent repo now d) cl"
  let ?m = "if ?r \<noteq> [] then AList.update st ?r m else m"
  have upd: "?m = (if ?r \<noteq> [] then m @ [(st, ?r)] else m)"
    using Cons.prems(1) x by (simp add: update_fresh)
  have "keys ?m \<inter> keys xs = {}" "is_goMap xs" "\<forall>(st, cl) \<in> set xs. set cl \<subseteq> keys repo"
    using Cons.prems x by (auto simp: upd is_goMap_Cons)
  note Cons.IH [OF this]
  moreover have "set cl \<subseteq> keys repo" using Cons.prems(3) x by simp
  ultimately show ?case unfolding x foldR.simps prod.case inPolicy_inner
    by (simp add: upd recentOnly_def)
qed

lemma applyImagesCleanupInPolicy_eq:
  assumes "is_goMap expected" and "\<forall>(st, cl) \<in> set expected. set cl \<subseteq> keys repo"
  shows "applyImagesCleanupInPolicy repo now expected (Some d) = Inr (recentOnly repo now d expected)"
  using inPolicy_outer [of "[]" expected] assms by (simp add: applyImagesCleanupInPolicy_def)

lemma recentOnly_maps:
  "is_goMap m \<Longrightarrow> is_goMap (recentOnly repo now d m) \<and> keys (recentOnly repo now d m) \<subseteq> keys m \<and>
    sliceAt (recentOnly repo now d m) st = filter (recent repo now d) (sliceAt m st)"
proof (induction m)
  case Nil
  show ?case by (simp add: recentOnly_def)
next
  case (Cons x m)
  obtain k cl where x: "x = (k, cl)" by fastforce
  let ?r = "filter (recent repo now d) cl"
  have step: "recentOnly repo now d ((k, cl) # m) = (if ?r = [] then [] else [(k, ?r)]) @ recentOnly repo now d m"
    by (simp add: recentOnly_def)
  have fresh: "k \<notin> keys m" "is_goMap m" using Cons.prems by (auto simp: is_goMap_Cons x)
  then have "sliceAt m k = []" by (simp add: sliceAt_no_key)
  then have "sliceAt (recentOnly repo now d ((k, cl) # m)) st = filter (recent repo now d) (sliceAt ((k, cl) # m) st)"
    using Cons.IH [OF fresh(2)] by (auto simp: step)
  then show ?case using fresh Cons.IH [OF fresh(2)] by (auto simp: step x is_goMap_Cons)
qed

section \<open>One reference\<close>

lemma refExpected_returns:
  assumes "is_goMap expected" and "\<forall>(st, cl) \<in> set expected. set cl \<subseteq> keys repo"
  shows "\<exists>refExp. refExpected repo now ref expected = Inr refExp \<and> is_goMap refExp \<and>
    (refExp = expected \<or> refExp = [] \<or> (\<exists>d. refExp = recentOnly repo now d expected))"
  using assms applyImagesCleanupInPolicy_eq [OF assms] recentOnly_maps [OF assms(1)]
  by (auto simp: refExpected_def Let_def)

lemma stagesIn_mono:
  "(\<And>st. set (sliceAt m st) \<subseteq> set (sliceAt m' st)) \<Longrightarrow> stagesIn m C \<subseteq> stagesIn m' C"
  by (auto simp: stagesIn_def)

lemma refExpected_stages:
  assumes "refExpected repo now ref expected = Inr refExp" and "is_goMap expected"
    and "\<forall>(st, cl) \<in> set expected. set cl \<subseteq> keys repo"
  shows "is_goMap refExp" and "stagesIn refExp C \<subseteq> stagesIn expected C"
proof -
  have r: "is_goMap refExp \<and> (refExp = expected \<or> refExp = [] \<or> (\<exists>d. refExp = recentOnly repo now d expected))"
    using refExpected_returns [OF assms(2,3), of now ref] assms(1) by auto
  then show "is_goMap refExp" ..
  have "set (sliceAt refExp st) \<subseteq> set (sliceAt expected st)" for st
    using r recentOnly_maps [OF assms(2)] by auto
  then show "stagesIn refExp C \<subseteq> stagesIn expected C" by (rule stagesIn_mono)
qed

lemma deepEqual_keys:
  assumes "deepEqual a b" and "is_goMap a" and "is_goMap b"
  shows "keys a = keys b"
proof -
  have "keys a \<subseteq> keys b" using assms(1) unfolding keys_def [of a] by (force simp: deepEqual_def list_all_iff keys_iff)
  moreover have "card (keys a) = card (keys b)" using assms by (simp add: card_keys deepEqual_def)
  ultimately show ?thesis by (simp add: card_subset_eq)
qed

lemma scanResult_kept:
  assumes "scanResult repo perm now ref expected refExp s = Inr (ids, stop', hits)"
    and "finished repo ref refExp stop s" and "scanDepthLimit ref \<noteq> 0" and "is_perm perm"
    and "is_goMap expected" and "is_goMap refExp"
  shows "set ids \<subseteq> keys (reachedStageIDCommitList s) \<and> (stop' = stop \<or> set ids = keys expected) \<and>
    (ImagesPerReference_Last (imagesCleanupKeepPolicy ref) < 0 \<or>
      int (card (keys (reachedStageIDCommitList s))) \<le> ImagesPerReference_Last (imagesCleanupKeepPolicy ref) \<longrightarrow>
      set ids = keys (reachedStageIDCommitList s))"
proof -
  let ?last = "ImagesPerReference_Last (optPolicy s)"
  have pol: "optPolicy s = imagesCleanupKeepPolicy ref" and st: "stopCommitList s = stop"
    and map: "is_goMap (reachedStageIDCommitList s)"
    using assms(2) by (simp_all add: finished_def soundInv_def)
  note fr = finished_reached [OF assms(2)]
  have plain: ?thesis if "ids = reachedStageIDList s" "stop' = stop" using that fr(1) by simp
  have extra: "set (concat (map (sliceAt latest) cos)) \<subseteq> keys (reachedStageIDCommitList s)"
    if "latestCommitStageIDs repo s = Inr latest" for latest cos
    using latest_keys(3) [OF that map] by (auto dest: sliceAt_no_key) (metis latestIs_Nil sliceAt_no_key)
  consider (few) "?last \<le> 0 \<or> int (length (reachedStageIDList s)) \<le> ?last"
    | (many) "0 < ?last" "?last < int (length (reachedStageIDList s))" by linarith
  then show ?thesis
  proof cases
    case few
    then consider "ids = reachedStageIDList s \<and> stop' = stop"
      | "deepEqual expected refExp" "handleStopCommitList repo s (cHash (HeadCommit ref)) = Inr (ids, stop', hits)"
      using assms(1) st by (auto simp: scanResult_def Let_def bindR_Inr split: if_splits)
    then show ?thesis
    proof cases
      case 1
      then show ?thesis using fr(1) by simp
    next
      case 2
      then show ?thesis
        using handleStopCommitList_result [OF 2(2) assms(2,3)] deepEqual_keys [OF 2(1) assms(5,6)] by blast
    qed
  next
    case many
    then obtain latest cos where "latestCommitStageIDs repo s = Inr latest"
      "ids = concat (map (sliceAt latest) cos)" "stop' = stop"
      using assms(1) st by (auto simp: scanResult_def Let_def bindR_Inr collectKept_def
          handleExtraStageIDsByLast_def handleExtraStageIDsByLastWithIn_def split: option.splits)
    then show ?thesis using extra many fr(2) pol by auto
  qed
qed

text \<open>Without stop commits and without a depth limit a scan reaches every expected stage there is to reach.\<close>

lemma unlimited_scan_complete:
  assumes "scanCommitHistory repo (newScanner refExp [] ref) head = Inr s"
    and "scanDepthLimit ref < 0" and "is_goMap refExp"
  shows "stagesIn refExp (ancestors repo head) \<subseteq> keys (reachedStageIDCommitList s)"
proof -
  let ?s = "newScanner refExp [] ref"
  have "complInv repo head s {}"
    using assms newScanner_sound [OF assms(3)] unfolding scanCommitHistory_def
    by (intro complInv_scanIterations [of repo ?s "[head]"]) (simp_all add: complInv_def newScanner_def)
  moreover have "notedInv ?s" by (simp add: notedInv_def newScanner_def)
  then have e: "expectedStageIDCommitList s = refExp"
    using scanIterations_frame assms(1) unfolding scanCommitHistory_def by (fastforce simp: newScanner_def)
  ultimately consider "keys refExp \<subseteq> keys (reachedStageIDCommitList s)"
    | "head \<in> set (isAlreadyScannedCommit s)"
      "\<forall>c \<in> set (isAlreadyScannedCommit s). stagesIn refExp {c} \<subseteq> keys (reachedStageIDCommitList s) \<and>
         (\<forall>p. (c, p) \<in> parentRel repo \<longrightarrow> p \<in> set (isAlreadyScannedCommit s))"
    by (auto simp: complInv_def)
  then show ?thesis
  proof cases
    case 1
    then show ?thesis using stagesIn_keys by blast
  next
    case 2
    then have "ancestors repo head \<subseteq> set (isAlreadyScannedCommit s)" by (intro ancestors_subset) auto
    then show ?thesis using 2(2) by (fastforce simp: stagesIn_def)
  qed
qed

definition keepsAll :: "ReferenceToScan \<Rightarrow> string set \<Rightarrow> bool" where
  "keepsAll ref stages \<longleftrightarrow> ImagesPerReference_Last (imagesCleanupKeepPolicy ref) < 0 \<or>
     int (card stages) \<le> ImagesPerReference_Last (imagesCleanupKeepPolicy ref)"

text \<open>What the commits of the expected stages and the scan need of the repository.\<close>

definition expectedOk :: "gitCommits \<Rightarrow> stageCommits \<Rightarrow> bool" where
  "expectedOk repo expected \<longleftrightarrow> is_goMap expected \<and> (\<forall>(st, cl) \<in> set expected. set cl \<subseteq> keys repo)"

lemma scanReferenceHistory_spec:
  assumes "scanReferenceHistory repo perm now ref expected stop = Inr (ids, stop', hits)"
    and "expectedOk repo expected" and "is_perm perm" and "scanDepthLimit ref \<noteq> 0"
    and "refExpected repo now ref expected = Inr refExp"
  defines "anc \<equiv> ancestors repo (cHash (HeadCommit ref))"
  shows "set ids \<subseteq> stagesIn expected anc \<and> (stop' = stop \<or> set ids = keys expected) \<and>
    (stop = [] \<and> scanDepthLimit ref < 0 \<and> keepsAll ref (stagesIn refExp anc) \<longrightarrow> set ids = stagesIn refExp anc)"
proof (cases "refExp = []")
  case True
  then show ?thesis using assms(1,5) by (auto simp: scanReferenceHistory_def stagesIn_def)
next
  case False
  have ok: "is_goMap expected" "\<forall>(st, cl) \<in> set expected. set cl \<subseteq> keys repo"
    using assms(2) by (simp_all add: expectedOk_def)
  note re = refExpected_stages [OF assms(5) ok]
  from False assms(1,5) obtain s where
    scan: "scanCommitHistory repo (newScanner refExp stop ref) (cHash (HeadCommit ref)) = Inr s"
    and res: "scanResult repo perm now ref expected refExp s = Inr (ids, stop', hits)"
    by (auto simp: scanReferenceHistory_def bindR_Inr)
  note fin = scan_finished [OF scan re(1)]
  note kept = scanResult_kept [OF res fin assms(4,3) ok(1) re(1)]
  have sub: "keys (reachedStageIDCommitList s) \<subseteq> stagesIn refExp anc"
    using finished_reached(3) [OF fin] by (simp add: anc_def)
  have all: "keys (reachedStageIDCommitList s) = stagesIn refExp anc" if "stop = []" "scanDepthLimit ref < 0"
    using unlimited_scan_complete [OF _ that(2) re(1)] scan that(1) sub by (auto simp: anc_def)
  show ?thesis using kept sub re(2) [of anc] all unfolding keepsAll_def by auto
qed

section \<open>All references\<close>

definition refsKnown :: "gitCommits \<Rightarrow> ReferenceToScan list \<Rightarrow> bool" where
  "refsKnown repo refs \<longleftrightarrow> (\<forall>ref \<in> set refs. historyKnown repo (cHash (HeadCommit ref)))"

lemma scanStep_returns:
  assumes "historyKnown repo (cHash (HeadCommit ref))" and "expectedOk repo expected"
  shows "\<exists>r. scanStep addNew repo perm now expected st ref = Inr r"
proof -
  obtain a b c where st: "st = (a, b, c)" by (cases st)
  obtain refExp where re: "refExpected repo now ref expected = Inr refExp" "is_goMap refExp"
    using refExpected_returns assms(2) unfolding expectedOk_def by blast
  have "\<exists>r. scanReferenceHistory repo perm now ref expected b = Inr r"
  proof (cases "refExp = []")
    case True
    then show ?thesis using re by (simp add: scanReferenceHistory_def)
  next
    case False
    obtain s where scan: "scanCommitHistory repo (newScanner refExp b ref) (cHash (HeadCommit ref)) = Inr s"
      using scanIterations_returns [OF assms(1)] by (force simp: scanCommitHistory_def)
    show ?thesis
      using scanResult_returns [OF scan_finished [OF scan re(2)] assms(1) False] re scan False
      by (simp add: scanReferenceHistory_def)
  qed
  then show ?thesis by (auto simp: scanStep_def st)
qed

text \<open>The history scan always ends, and it returns without an error or a panic when the git repository
  has the history of the references' heads and the commits of the expected stages.\<close>

theorem history_scan_returns:
  assumes "refsKnown repo refs" and "expectedOk repo expected"
  shows "\<exists>reached hits. ScanReferencesHistory addNew repo perm now refs expected = Inr (reached, hits)"
proof -
  have "\<exists>r. foldR (scanStep addNew repo perm now expected) ([], [], []) (rev refs) = Inr r \<and> True"
    by (rule foldR_returns) (use assms scanStep_returns in \<open>auto simp: refsKnown_def\<close>)
  then show ?thesis by (auto simp: ScanReferencesHistory_def)
qed

definition headHistory :: "gitCommits \<Rightarrow> ReferenceToScan \<Rightarrow> string set" where
  "headHistory repo ref = ancestors repo (cHash (HeadCommit ref))"

definition scansInv ::
  "gitCommits \<Rightarrow> int \<Rightarrow> stageCommits \<Rightarrow> ReferenceToScan set \<Rightarrow> string list \<times> string list \<times> stageCommits \<Rightarrow> bool" where
  "scansInv repo now expected refs st \<longleftrightarrow>
     set (fst st) \<subseteq> (\<Union>ref \<in> refs. stagesIn expected (headHistory repo ref)) \<and>
     (fst (snd st) \<noteq> [] \<longrightarrow> keys expected \<subseteq> set (fst st)) \<and>
     (\<forall>ref \<in> refs. \<forall>refExp. refExpected repo now ref expected = Inr refExp \<longrightarrow> scanDepthLimit ref < 0 \<longrightarrow>
        keepsAll ref (stagesIn refExp (headHistory repo ref)) \<longrightarrow>
        stagesIn refExp (headHistory repo ref) \<subseteq> set (fst st))"

lemma scanStep_inv:
  assumes "scanStep addNew repo perm now expected st ref = Inr st'" and "scansInv repo now expected refs st"
    and "addNew_ok addNew" and "expectedOk repo expected" and "is_perm perm" and "scanDepthLimit ref \<noteq> 0"
  shows "scansInv repo now expected (insert ref refs) st'"
proof -
  obtain reached stop hits where st: "st = (reached, stop, hits)" by (cases st)
  from assms(1) st obtain ids stop' hits' where
    one: "scanReferenceHistory repo perm now ref expected stop = Inr (ids, stop', hits')"
    and st': "fst st' = addNew reached ids" "fst (snd st') = addNew stop stop'"
    by (auto simp: scanStep_def bindR_Inr)
  have new: "set (addNew xs ys) = set xs \<union> set ys" for xs ys using assms(3) by (simp add: addNew_ok_def)
  have ok: "is_goMap expected" "\<forall>(st, cl) \<in> set expected. set cl \<subseteq> keys repo"
    using assms(4) by (simp_all add: expectedOk_def)
  obtain refExp where re: "refExpected repo now ref expected = Inr refExp"
    using refExpected_returns [OF ok] by blast
  note spec = scanReferenceHistory_spec [OF one assms(4,5,6) re, folded headHistory_def]
  have inv: "set reached \<subseteq> (\<Union>ref \<in> refs. stagesIn expected (headHistory repo ref))"
    "stop \<noteq> [] \<Longrightarrow> keys expected \<subseteq> set reached"
    "\<And>r re. r \<in> refs \<Longrightarrow> refExpected repo now r expected = Inr re \<Longrightarrow> scanDepthLimit r < 0 \<Longrightarrow>
       keepsAll r (stagesIn re (headHistory repo r)) \<Longrightarrow> stagesIn re (headHistory repo r) \<subseteq> set reached"
    using assms(2) by (simp_all add: scansInv_def st)
  have stops: "keys expected \<subseteq> set reached \<union> set ids" if "fst (snd st') \<noteq> []"
    using that inv(2) spec by (cases "stop = []") (auto simp: st' simp flip: set_empty simp: new)
  have this_ref: "stagesIn refExp (headHistory repo ref) \<subseteq> set reached \<union> set ids"
    if "scanDepthLimit ref < 0" "keepsAll ref (stagesIn refExp (headHistory repo ref))"
  proof (cases "stop = []")
    case True
    then show ?thesis using spec that by blast
  next
    case False
    then show ?thesis
      using inv(2) refExpected_stages(2) [OF re ok, of "headHistory repo ref"] stagesIn_keys by blast
  qed
  have each: "stagesIn re (headHistory repo r) \<subseteq> set reached \<union> set ids"
    if "r \<in> insert ref refs" "refExpected repo now r expected = Inr re" "scanDepthLimit r < 0"
      "keepsAll r (stagesIn re (headHistory repo r))" for r re
    using inv(3) [of r re] this_ref re that by (cases "r = ref") auto
  have "set reached \<union> set ids \<subseteq> (\<Union>ref \<in> insert ref refs. stagesIn expected (headHistory repo ref))"
    using spec inv(1) by auto
  with stops each show ?thesis unfolding scansInv_def st' new by simp
qed

lemma scans_inv:
  assumes "foldR (scanStep addNew repo perm now expected) st xs = Inr st'" and "scansInv repo now expected refs st"
    and "addNew_ok addNew" and "expectedOk repo expected" and "is_perm perm" and "\<forall>ref \<in> set xs. scanDepthLimit ref \<noteq> 0"
  shows "scansInv repo now expected (refs \<union> set xs) st'"
  using assms
proof (induction xs arbitrary: st refs)
  case Nil
  then show ?case by simp
next
  case (Cons x xs)
  from Cons.prems(1) obtain t where t: "scanStep addNew repo perm now expected st x = Inr t"
    and r: "foldR (scanStep addNew repo perm now expected) t xs = Inr st'"
    by (auto simp: bindR_Inr)
  have "scansInv repo now expected (insert x refs) t" using scanStep_inv [OF t] Cons.prems by simp
  from Cons.IH [OF r this] Cons.prems show ?case by simp
qed

lemma scan_all_inv:
  assumes "ScanReferencesHistory addNew repo perm now refs expected = Inr (reached, hits)"
    and "addNew_ok addNew" and "expectedOk repo expected" and "is_perm perm" and "\<forall>ref \<in> set refs. scanDepthLimit ref \<noteq> 0"
  shows "\<exists>stop. scansInv repo now expected (set refs) (reached, stop, hits)"
proof -
  from assms(1) obtain stop where
    "foldR (scanStep addNew repo perm now expected) ([], [], []) (rev refs) = Inr (reached, stop, hits)"
    by (auto simp: ScanReferencesHistory_def bindR_Inr)
  moreover have "scansInv repo now expected {} ([], [], [])" by (simp add: scansInv_def)
  ultimately have "scansInv repo now expected ({} \<union> set (rev refs)) (reached, stop, hits)"
    by (rule scans_inv) (use assms in auto)
  then show ?thesis by auto
qed

text \<open>C5: A stage is kept by the git history only if it was built for a commit that is reachable from the
  head of one of the scanned references.\<close>

theorem history_scan_sound:
  assumes "ScanReferencesHistory addNew repo perm now refs expected = Inr (reached, hits)"
    and "addNew_ok addNew" and "expectedOk repo expected" and "is_perm perm" and "\<forall>ref \<in> set refs. scanDepthLimit ref \<noteq> 0"
  shows "set reached \<subseteq> (\<Union>ref \<in> set refs. stagesIn expected (ancestors repo (cHash (HeadCommit ref))))"
  using scan_all_inv [OF assms] by (auto simp: scansInv_def headHistory_def)

text \<open>C4: Every stage that was built for a commit reachable from the head of a scanned branch is kept, unless the
  images limit of the branch excludes it: all those within the period (of an And limit) are kept when
  \<^verbatim>\<open>last\<close> is negative or not smaller than their number. The stop commits that the scans of other
  references have left do not lose any of them.\<close>

theorem history_scan_keeps:
  assumes "ScanReferencesHistory addNew repo perm now refs expected = Inr (reached, hits)"
    and "addNew_ok addNew" and "expectedOk repo expected" and "is_perm perm" and "\<forall>ref \<in> set refs. scanDepthLimit ref \<noteq> 0"
    and "ref \<in> set refs" and "scanDepthLimit ref < 0" and "refExpected repo now ref expected = Inr refExp"
    and "keepsAll ref (stagesIn refExp (ancestors repo (cHash (HeadCommit ref))))"
  shows "stagesIn refExp (ancestors repo (cHash (HeadCommit ref))) \<subseteq> set reached"
  using scan_all_inv [OF assms(1-5)] assms(6-9) by (auto simp: scansInv_def headHistory_def)

section \<open>The images limit\<close>

lemma collectKept_set:
  assumes "latestCommitStageIDs repo s = Inr latest" and "is_goMap (reachedStageIDCommitList s)"
  shows "set (fst (collectKept latest cos)) = {st. \<exists>co \<in> set cos. latestIs repo co (sliceAt (reachedStageIDCommitList s) st)}"
  using latest_keys(3) [OF assms] by (auto simp: collectKept_def)

text \<open>When more stages are reached than \<^verbatim>\<open>last\<close> allows, the stages kept are those whose latest commit is
  chosen: with \<open>K\<close> the \<^verbatim>\<open>last\<close> newest of these commits and \<open>I\<close> those within the period \<^verbatim>\<open>in\<close>, the choice is
  \<open>K\<close> without a period, \<open>K \<inter> I\<close> for the operator And and \<open>K \<union> I\<close> otherwise.\<close>

theorem images_limit:
  assumes "scanCommitHistory repo (newScanner refExp stop ref) (cHash (HeadCommit ref)) = Inr s"
    and "scanResult repo perm now ref expected refExp s = Inr (ids, stop', hits)"
    and "is_goMap refExp" and "is_perm perm"
    and "policy = imagesCleanupKeepPolicy ref" and "0 < ImagesPerReference_Last policy"
    and "ImagesPerReference_Last policy < int (card (keys (reachedStageIDCommitList s)))"
  shows "\<exists>K. newest cWhen (nat (ImagesPerReference_Last policy)) (latestCommits repo s) K \<and>
    set ids = {st. \<exists>co \<in> (case klIn policy of None \<Rightarrow> K
        | Some d \<Rightarrow> let I = {co \<in> latestCommits repo s. now - d < cWhen co}
            in if ImagesPerReference_Operator policy = AndOperator then K \<inter> I else K \<union> I).
      latestIs repo co (sliceAt (reachedStageIDCommitList s) st)}"
proof -
  note fin = scan_finished [OF assms(1,3)]
  have pol: "optPolicy s = policy" and map: "is_goMap (reachedStageIDCommitList s)"
    using fin assms(5) by (simp_all add: finished_def soundInv_def)
  let ?n = "nat (ImagesPerReference_Last policy)"
  from assms(2,6,7) finished_reached(2) [OF fin] pol obtain latest where
    latest: "latestCommitStageIDs repo s = Inr latest"
    and ids: "ids = fst (case klIn policy of
         None \<Rightarrow> handleExtraStageIDsByLast s latest (sortSliceDesc perm cWhen (map fst latest))
       | Some d \<Rightarrow> handleExtraStageIDsByLastWithIn now s latest (sortSliceDesc perm cWhen (map fst latest)) d)"
    by (auto simp: scanResult_def Let_def bindR_Inr split: option.splits)
  let ?l = "sortSliceDesc perm cWhen (map fst latest)"
  note lk = latest_keys [OF latest map]
  have "distinct (map fst latest)" and set: "set (map fst latest) = latestCommits repo s"
    using lk by (simp_all add: is_goMap_def keys_def)
  then have "newest cWhen ?n (latestCommits repo s) (set (take ?n ?l))"
    using newest_take [OF assms(4)] by metis
  moreover have "set ids = {st. \<exists>co \<in> (case klIn policy of None \<Rightarrow> set (take ?n ?l)
        | Some d \<Rightarrow> let I = {co \<in> latestCommits repo s. now - d < cWhen co}
            in if ImagesPerReference_Operator policy = AndOperator then set (take ?n ?l) \<inter> I else set (take ?n ?l) \<union> I).
      latestIs repo co (sliceAt (reachedStageIDCommitList s) st)}"
  proof (cases "klIn policy")
    case None
    then show ?thesis using ids pol collectKept_set [OF latest map]
      by (simp add: handleExtraStageIDsByLast_def case_prod_beta)
  next
    case (Some d)
    have "set ?l = latestCommits repo s" using assms(4) set by simp
    with Some show ?thesis using ids pol collectKept_set [OF latest map]
      by (auto simp: handleExtraStageIDsByLastWithIn_def case_prod_beta Let_def)
  qed
  ultimately show ?thesis by blast
qed

section \<open>Tags\<close>

lemma scanLevel_head:
  assumes "handleCommit repo s c = Inr (t, ps)" and "scanDepth s = optDepthLimit s"
    and "c \<notin> set (stopCommitList s)" and "isAlreadyScannedCommit s = []"
  shows "scanLevel repo s [] [c] = Inr (t, [])"
  using assms handleCommit_frame [OF assms(1)] by (simp add: isStopCommit_def)

text \<open>For a tag (depth limit one) only the tagged commit counts: the stages reached are the expected stages
  of that commit, whatever its history.\<close>

theorem tag_scan_head_only:
  assumes "scanDepthLimit ref = 1" and "head \<in> keys repo" and "head \<notin> set stop" and "is_goMap expected"
  shows "\<exists>s. scanCommitHistory repo (newScanner expected stop ref) head = Inr s \<and>
    set (reachedStageIDList s) = stagesIn expected {head}"
proof -
  let ?s = "(newScanner expected stop ref)\<lparr>scanDepth := 1\<rparr>"
  from assms(2) obtain co where "map_of repo head = Some co" by (rule keysE)
  then obtain t ps where hc: "handleCommit repo ?s head = Inr (t, ps)"
    by (auto simp: handleCommit_def Let_def)
  have "scanLevel repo ?s [] [head] = Inr (t, [])"
    by (rule scanLevel_head [OF hc]) (use assms in \<open>simp_all add: newScanner_def\<close>)
  moreover have "scanDepth (newScanner expected stop ref) + 1 = 1" by (simp add: newScanner_def)
  ultimately have scan: "scanCommitHistory repo (newScanner expected stop ref) head = Inr t"
    by (simp only: scanCommitHistory_def scanIterations.simps [of repo "newScanner expected stop ref" "[head]"]
        sum.case prod.case if_True refl)
  have "keys (reachedStageIDCommitList t) = stagesIn expected {head}"
    using handleCommit_reached(3) [OF hc] assms(4) by (simp add: newScanner_def)
  moreover have "soundInv repo head t {}"
    using soundInv_scanIterations scan newScanner_sound [OF assms(4)] unfolding scanCommitHistory_def by blast
  ultimately show ?thesis using scan set_reachedStageIDList(1) by blast
qed

section \<open>A small history\<close>

definition sampleCommit :: "string \<Rightarrow> int \<Rightarrow> string list \<Rightarrow> Commit" where
  "sampleCommit h t ps = \<lparr>cHash = h, cWhen = t, cParents = ps\<rparr>"

definition sampleHistory :: gitCommits where
  "sampleHistory = [(''c1'', sampleCommit ''c1'' 1 []), (''c2'', sampleCommit ''c2'' 2 [''c1'']),
     (''c3'', sampleCommit ''c3'' 3 [''c2''])]"

definition sampleExpected :: stageCommits where
  "sampleExpected = [(''s1'', [''c1'']), (''s2'', [''c2'']), (''s3'', [''c3''])]"

definition sampleHead :: "int \<Rightarrow> int \<Rightarrow> ReferenceToScan" where
  "sampleHead depth lst = \<lparr>rtsName = ''main'', CreatedAt = 3, HeadCommit = sampleCommit ''c3'' 3 [''c2''],
     scanDepthLimit = depth, imagesCleanupKeepPolicy = newLimit (Some lst) None None\<rparr>"

definition sampleAddNew :: "string list \<Rightarrow> string list \<Rightarrow> string list" where
  "sampleAddNew xs ys = foldl snocNew xs ys"

lemmas sample_history_defs = sampleHistory_def sampleExpected_def sampleHead_def sampleCommit_def newLimit_def
  sampleAddNew_def ImagesPerReference_Last_def

lemma sampleAddNew_ok: "addNew_ok sampleAddNew"
  by (simp add: addNew_ok_def sampleAddNew_def)

lemma sampleExpected_ok: "expectedOk sampleHistory sampleExpected"
  by (simp add: expectedOk_def sample_history_defs is_goMap_def)

lemma sampleHistory_ancestors: "ancestors sampleHistory ''c3'' = {''c1'', ''c2'', ''c3''}"
proof
  show "ancestors sampleHistory ''c3'' \<subseteq> {''c1'', ''c2'', ''c3''}"
    by (rule ancestors_subset) (auto simp: parentRel_def sample_history_defs split: if_splits)
  have "''c2'' \<in> ancestors sampleHistory ''c3''"
    by (rule ancestors_parent [of "''c3''"]) (auto simp: parentRel_def sample_history_defs)
  moreover from this have "''c1'' \<in> ancestors sampleHistory ''c3''"
    by (rule ancestors_parent) (auto simp: parentRel_def sample_history_defs)
  ultimately show "{''c1'', ''c2'', ''c3''} \<subseteq> ancestors sampleHistory ''c3''" by simp
qed

lemma sample_scan:
  "ScanReferencesHistory sampleAddNew sampleHistory (\<lambda>xs. xs) 10 [sampleHead (-1) (-1)] sampleExpected =
     Inr ([''s3'', ''s2'', ''s1''], [(''s3'', [''c3'']), (''s2'', [''c2'']), (''s1'', [''c1''])])"
  by code_simp

lemma sample_scan_limited:
  "map_sum id reachedStageIDCommitList
     (scanCommitHistory sampleHistory (newScanner sampleExpected [] (sampleHead (-1) 2)) ''c3'') =
   Inr [(''s3'', [''c3'']), (''s2'', [''c2'']), (''s1'', [''c1''])]"
  by code_simp

theorem history_scan_returns_witness:
  "\<exists>reached hits. ScanReferencesHistory sampleAddNew sampleHistory (\<lambda>xs. xs) 10 [sampleHead (-1) (-1)] sampleExpected =
     Inr (reached, hits)"
proof (rule history_scan_returns)
  show "refsKnown sampleHistory [sampleHead (-1) (-1)]"
    using sampleHistory_ancestors by (simp add: refsKnown_def historyKnown_def sample_history_defs)
qed (rule sampleExpected_ok)

theorem history_scan_sound_witness:
  "set [''s3'', ''s2'', ''s1''] \<subseteq> (\<Union>ref \<in> set [sampleHead (-1) (-1)].
     stagesIn sampleExpected (ancestors sampleHistory (cHash (HeadCommit ref))))"
  by (rule history_scan_sound [OF sample_scan sampleAddNew_ok sampleExpected_ok is_perm_id])
    (simp add: sampleHead_def)

theorem history_scan_keeps_witness:
  "stagesIn sampleExpected (ancestors sampleHistory (cHash (HeadCommit (sampleHead (-1) (-1))))) \<subseteq>
     set [''s3'', ''s2'', ''s1'']"
  by (rule history_scan_keeps [OF sample_scan sampleAddNew_ok sampleExpected_ok is_perm_id])
    (simp_all add: refExpected_def keepsAll_def sampleHead_def newLimit_def ImagesPerReference_Last_def)

theorem tag_scan_head_only_witness:
  "\<exists>s. scanCommitHistory sampleHistory (newScanner sampleExpected [] (sampleHead 1 (-1))) ''c3'' = Inr s \<and>
    set (reachedStageIDList s) = stagesIn sampleExpected {''c3''}"
  by (rule tag_scan_head_only) (simp_all add: sample_history_defs is_goMap_def)

theorem images_limit_witness:
  "\<exists>s ids stop' hits K.
     scanCommitHistory sampleHistory (newScanner sampleExpected [] (sampleHead (-1) 2)) ''c3'' = Inr s \<and>
     scanResult sampleHistory rev 10 (sampleHead (-1) 2) sampleExpected sampleExpected s = Inr (ids, stop', hits) \<and>
     newest cWhen 2 (latestCommits sampleHistory s) K \<and>
     set ids = {st. \<exists>co \<in> K. latestIs sampleHistory co (sliceAt (reachedStageIDCommitList s) st)}"
proof -
  let ?ref = "sampleHead (-1) 2"
  obtain s where s: "scanCommitHistory sampleHistory (newScanner sampleExpected [] ?ref) ''c3'' = Inr s"
    and r: "reachedStageIDCommitList s = [(''s3'', [''c3'']), (''s2'', [''c2'']), (''s1'', [''c1''])]"
    using sample_scan_limited
    by (cases "scanCommitHistory sampleHistory (newScanner sampleExpected [] ?ref) ''c3''") auto
  have gm: "is_goMap sampleExpected" and head: "cHash (HeadCommit ?ref) = ''c3''"
    by (simp_all add: sample_history_defs is_goMap_def)
  note fin = scan_finished [OF s [folded head] gm]
  have "historyKnown sampleHistory (cHash (HeadCommit ?ref))"
    using sampleHistory_ancestors head by (simp add: historyKnown_def sample_history_defs)
  moreover have "sampleExpected \<noteq> []" by (simp add: sampleExpected_def)
  ultimately obtain ids stop' hits where
    res: "scanResult sampleHistory rev 10 ?ref sampleExpected sampleExpected s = Inr (ids, stop', hits)"
    using scanResult_returns [OF fin] by (metis prod.exhaust)
  have "ImagesPerReference_Last (newLimit (Some 2) None None) = 2" "klIn (newLimit (Some 2) None None) = None"
    "newLimit (Some 2) None None = imagesCleanupKeepPolicy ?ref" "card (keys (reachedStageIDCommitList s)) = 3"
    by (simp_all add: sample_history_defs r)
  then show ?thesis
    using images_limit [OF s [folded head] res gm is_perm_rev, of "newLimit (Some 2) None None"] s res by auto
qed

end
