(* ===== verification/Parallel.thy ===== *)
theory Parallel
  imports Prelude
begin

text \<open>
  The worker pool of \<^verbatim>\<open>pkg/util/parallel/parallel.go\<close> that every bulk operation of the cleanup uses:
  how \<^verbatim>\<open>DoTasks\<close> spreads the tasks over its workers, the run of the workers one after another (the
  schedule the models of the bulk operations use), and a step relation for all the other schedules.
  Logging, docker clients and the printer are left out.
\<close>

section \<open>Distribution of tasks\<close>

definition calculateTaskId :: "nat \<Rightarrow> nat \<Rightarrow> nat \<Rightarrow> nat \<Rightarrow> nat" where
  "calculateTaskId tasksNumber workersNumber workerInd workerTaskId =
     (let taskId = workerInd * (tasksNumber div workersNumber) + workerTaskId;
          rest = tasksNumber mod workersNumber
      in if rest \<noteq> 0 then (if rest > workerInd then taskId + workerInd else taskId + rest)
         else taskId)"

definition calculateTasksDistribution :: "nat \<Rightarrow> int \<Rightarrow> nat \<times> nat list" where
  "calculateTasksDistribution numberOfTasks maxNumberOfWorkers =
     (let numberOfWorkers = (if maxNumberOfWorkers \<le> 0 \<or> maxNumberOfWorkers > int numberOfTasks
                             then numberOfTasks else nat maxNumberOfWorkers)
      in (numberOfWorkers,
          map (\<lambda>i. numberOfTasks div numberOfWorkers +
                   (if numberOfTasks mod numberOfWorkers > i then 1 else 0)) [0..<numberOfWorkers]))"

text \<open>The tasks of each worker in the order in which its loop runs them.\<close>

definition workerTasks :: "nat \<Rightarrow> int \<Rightarrow> nat list list" where
  "workerTasks numberOfTasks maxNumberOfWorkers =
     (let (numberOfWorkers, perWorker) = calculateTasksDistribution numberOfTasks maxNumberOfWorkers
      in map (\<lambda>w. map (calculateTaskId numberOfTasks numberOfWorkers w) [0..<perWorker ! w])
           [0..<numberOfWorkers])"

text \<open>
  The schedule in which each worker finishes before the next starts. A failed task ends the run:
  the group's context is cancelled and the remaining workers return.
\<close>

definition DoTasks :: "nat \<Rightarrow> int \<Rightarrow> ('s \<Rightarrow> nat \<Rightarrow> 'e + 's) \<Rightarrow> 's \<Rightarrow> 'e + 's" where
  "DoTasks numberOfTasks maxNumberOfWorkers taskFunc s =
     foldR (\<lambda>s tasks. foldR taskFunc s tasks) s (workerTasks numberOfTasks maxNumberOfWorkers)"

section \<open>Every task once\<close>

lemma calculateTaskId_eq:
  "calculateTaskId n w i t = i * (n div w) + min i (n mod w) + t"
  by (auto simp: calculateTaskId_def Let_def min_def)

lemma tasks_before:
  assumes "k \<le> w" and "0 < w"
  shows "concat (map (\<lambda>i. map (calculateTaskId n w i) [0..<n div w + (if n mod w > i then 1 else 0)]) [0..<k])
    = [0..<k * (n div w) + min k (n mod w)]"
  using assms(1)
proof (induction k)
  case 0
  show ?case by simp
next
  case (Suc k)
  let ?b = "k * (n div w) + min k (n mod w)" and ?c = "n div w + (if n mod w > k then 1 else 0)"
  have "calculateTaskId n w k = (\<lambda>t. t + ?b)" by (rule ext) (simp add: calculateTaskId_eq)
  then have shift: "map (calculateTaskId n w k) [0..<c] = [?b..<c + ?b]" for c
    by (simp only: map_add_upt)
  have "min (Suc k) (n mod w) = min k (n mod w) + (if n mod w > k then 1 else 0)" by (simp add: min_def)
  then have next_bound: "Suc k * (n div w) + min (Suc k) (n mod w) = ?c + ?b" by simp
  have "[0..<?c + ?b] = [0..<?b] @ [?b..<?c + ?b]" 
    using upt_add_eq_append [of 0 ?b ?c] by (metis add.commute le0)
  then show ?case unfolding next_bound using Suc shift [of ?c] by simp
qed

text \<open>The task lists of the workers, one after another, are the tasks in order.\<close>

lemma concat_workerTasks: "concat (workerTasks n maxWorkers) = [0..<n]"
proof -
  define w where "w = fst (calculateTasksDistribution n maxWorkers)"
  have eq: "workerTasks n maxWorkers =
      map (\<lambda>i. map (calculateTaskId n w i) [0..<n div w + (if n mod w > i then 1 else 0)]) [0..<w]"
    by (auto simp: workerTasks_def calculateTasksDistribution_def Let_def w_def)
  show ?thesis
  proof (cases "n = 0")
    case True
    then have "w = 0" by (auto simp: w_def calculateTasksDistribution_def Let_def)
    with True eq show ?thesis by simp
  next
    case False
    then have "0 < w" by (auto simp: w_def calculateTasksDistribution_def Let_def)
    moreover have "w * (n div w) + min w (n mod w) = n" using \<open>0 < w\<close>
      by (simp add: min.absorb2 less_imp_le)
    ultimately show ?thesis using tasks_before [of w w n] by (simp add: eq)
  qed
qed

lemma foldR_concat: "foldR (\<lambda>s xs. foldR f s xs) s xss = foldR f s (concat xss)"
proof (induction xss arbitrary: s)
  case (Cons xs xss)
  then show ?case by (simp add: foldR_append)
qed simp

lemma DoTasks_eq: "DoTasks n maxWorkers f s = foldR f s [0..<n]"
  by (simp add: DoTasks_def foldR_concat concat_workerTasks)

text \<open>A task function that picks its item from a list is a loop over the list.\<close>

lemma foldR_upt_nth:
  fixes f :: "'b \<Rightarrow> 'c \<Rightarrow> 'a + 'b"
  shows "foldR (\<lambda>s i. f s (xs ! i)) s [0..<length xs] = foldR f s xs"
proof -
  have "foldR (\<lambda>s i. f s (g i)) s is = foldR f s (map g is)" for g :: "nat \<Rightarrow> 'c" and "is"
    by (induction "is" arbitrary: s) simp_all
  from this [of "nth xs" "[0..<length xs]"] show ?thesis by (simp add: map_nth)
qed

lemma DoTasks_list: "DoTasks (length xs) maxWorkers (\<lambda>s i. f s (xs ! i)) s = foldR f s xs"
  by (simp add: DoTasks_eq foldR_upt_nth)

section \<open>All schedules\<close>

text \<open>
  A worker takes the next of its tasks only while the group's context is not cancelled and no earlier task
  of its own is running; it looks for its first task only once the previous worker has started its own or
  has returned (\<open>firstTaskStarted\<close>). A task that is running finishes or fails at any time, and a failure
  cancels the context, upon which the workers return.
\<close>

record workerState =
  waitingTasks :: "nat list"
  currentTask :: "nat option"
  firstTaskStarted :: bool

record pool =
  poolWorkers :: "workerState list"
  finishedTasks :: "nat list"
  failedTasks :: "nat list"

definition mayStart :: "pool \<Rightarrow> nat \<Rightarrow> bool" where
  "mayStart c i \<longleftrightarrow> i < length (poolWorkers c) \<and> (i = 0 \<or> firstTaskStarted (poolWorkers c ! (i - 1)))"

definition setWorker :: "pool \<Rightarrow> nat \<Rightarrow> (workerState \<Rightarrow> workerState) \<Rightarrow> pool" where
  "setWorker c i f = c\<lparr>poolWorkers := (poolWorkers c)[i := f (poolWorkers c ! i)]\<rparr>"

inductive poolStep :: "(nat \<Rightarrow> bool) \<Rightarrow> pool \<Rightarrow> pool \<Rightarrow> bool" for failing :: "nat \<Rightarrow> bool" where
  start: "failedTasks c = [] \<Longrightarrow> mayStart c i \<Longrightarrow> currentTask (poolWorkers c ! i) = None \<Longrightarrow>
    waitingTasks (poolWorkers c ! i) = t # ts \<Longrightarrow>
    poolStep failing c (setWorker c i (\<lambda>w. w\<lparr>waitingTasks := ts, currentTask := Some t, firstTaskStarted := True\<rparr>))"
| finish: "i < length (poolWorkers c) \<Longrightarrow> currentTask (poolWorkers c ! i) = Some t \<Longrightarrow> \<not> failing t \<Longrightarrow>
    poolStep failing c ((setWorker c i (\<lambda>w. w\<lparr>currentTask := None\<rparr>))\<lparr>finishedTasks := finishedTasks c @ [t]\<rparr>)"
| fail: "i < length (poolWorkers c) \<Longrightarrow> currentTask (poolWorkers c ! i) = Some t \<Longrightarrow> failing t \<Longrightarrow>
    poolStep failing c ((setWorker c i (\<lambda>w. w\<lparr>currentTask := None\<rparr>))\<lparr>failedTasks := t # failedTasks c\<rparr>)"
| return: "i < length (poolWorkers c) \<Longrightarrow> \<not> firstTaskStarted (poolWorkers c ! i) \<Longrightarrow> currentTask (poolWorkers c ! i) = None \<Longrightarrow>
    (mayStart c i \<and> waitingTasks (poolWorkers c ! i) = []) \<or> failedTasks c \<noteq> [] \<Longrightarrow>
    poolStep failing c (setWorker c i (\<lambda>w. w\<lparr>firstTaskStarted := True\<rparr>))"

inductive_cases poolStepE: "poolStep failing c c'"

definition startPool :: "nat \<Rightarrow> int \<Rightarrow> pool" where
  "startPool n maxWorkers =
     \<lparr>poolWorkers = map (\<lambda>ts. \<lparr>waitingTasks = ts, currentTask = None, firstTaskStarted = False\<rparr>) (workerTasks n maxWorkers),
      finishedTasks = [], failedTasks = []\<rparr>"

definition workerHolds :: "workerState \<Rightarrow> nat list" where
  "workerHolds w = (case currentTask w of None \<Rightarrow> [] | Some t \<Rightarrow> [t]) @ waitingTasks w"

definition poolTasks :: "pool \<Rightarrow> nat multiset" where
  "poolTasks c = mset (concat (map workerHolds (poolWorkers c))) + mset (finishedTasks c) + mset (failedTasks c)"

lemma mset_concat_update:
  "i < length xs \<Longrightarrow> mset (concat (map f (xs[i := x]))) + mset (f (xs ! i)) = mset (concat (map f xs)) + mset (f x)"
proof (induction xs arbitrary: i)
  case (Cons y ys)
  then show ?case by (cases i) (auto simp: ac_simps)
qed simp

lemma setWorker_holds:
  assumes "i < length (poolWorkers c)"
  shows "mset (concat (map workerHolds (poolWorkers (setWorker c i f)))) + mset (workerHolds (poolWorkers c ! i)) =
    mset (concat (map workerHolds (poolWorkers c))) + mset (workerHolds (f (poolWorkers c ! i)))"
  unfolding setWorker_def using mset_concat_update [OF assms] by simp

lemma setWorker_lists [simp]:
  "finishedTasks (setWorker c i f) = finishedTasks c" "failedTasks (setWorker c i f) = failedTasks c"
  by (simp_all add: setWorker_def)

text \<open>No step loses or repeats a task, and only failing tasks fail.\<close>

lemma poolStep_tasks: "poolStep failing c c' \<Longrightarrow> poolTasks c' = poolTasks c"
proof (induction rule: poolStep.induct)
  case (start c i t ts)
  then show ?case
    using setWorker_holds [of i c "\<lambda>w. w\<lparr>waitingTasks := ts, currentTask := Some t, firstTaskStarted := True\<rparr>"]
    by (simp add: poolTasks_def workerHolds_def mayStart_def)
next
  case (finish i c t)
  then show ?case
    using setWorker_holds [of i c "\<lambda>w. w\<lparr>currentTask := None\<rparr>"]
    by (simp add: poolTasks_def workerHolds_def)
next
  case (fail i c t)
  then show ?case
    using setWorker_holds [of i c "\<lambda>w. w\<lparr>currentTask := None\<rparr>"]
    by (simp add: poolTasks_def workerHolds_def)
next
  case (return i c)
  then show ?case
    using setWorker_holds [of i c "\<lambda>w. w\<lparr>firstTaskStarted := True\<rparr>"]
    by (simp add: poolTasks_def workerHolds_def)
qed

lemma startPool_holds: "concat (map workerHolds (poolWorkers (startPool n maxWorkers))) = [0..<n]"
  by (simp add: startPool_def comp_def workerHolds_def concat_workerTasks)

lemma pool_reach_tasks:
  "(poolStep failing)\<^sup>*\<^sup>* (startPool n maxWorkers) c \<Longrightarrow>
   poolTasks c = mset [0..<n] \<and> (\<forall>t \<in> set (failedTasks c). failing t) \<and> (\<forall>t \<in> set (finishedTasks c). \<not> failing t)"
proof (induction rule: rtranclp_induct)
  case base
  show ?case by (simp add: poolTasks_def startPool_holds) (simp add: startPool_def)
next
  case (step c c')
  then show ?case using poolStep_tasks [OF step(2)] by (auto elim!: poolStepE)
qed

text \<open>A pool at rest without a failure: each worker, from the first on, has started and has nothing left.\<close>

lemma rest_holds_nothing:
  assumes rest: "\<forall>c'. \<not> poolStep failing c c'" and "failedTasks c = []"
  shows "i < length (poolWorkers c) \<Longrightarrow> firstTaskStarted (poolWorkers c ! i) \<and> workerHolds (poolWorkers c ! i) = []"
proof (induction i rule: less_induct)
  case (less i)
  have idle: "currentTask (poolWorkers c ! i) = None"
    using rest poolStep.finish poolStep.fail less.prems by (metis not_None_eq)
  have may: "mayStart c i" using less.IH [of "i - 1"] less.prems by (cases i) (auto simp: mayStart_def)
  have none: "waitingTasks (poolWorkers c ! i) = []"
    using rest poolStep.start [OF assms(2) may idle] by (metis list.exhaust)
  then have "firstTaskStarted (poolWorkers c ! i)"
    using rest poolStep.return [OF less.prems _ idle] may by blast
  with idle none show ?case by (simp add: workerHolds_def)
qed

text \<open>Whatever the schedule of the workers: no task is ever run twice, and when the pool comes to rest
  with no failed task every task has been run, exactly once. That the first tasks are taken in the order of the workers
  does not block any of them.\<close>

theorem pool_runs_every_task:
  assumes "(poolStep failing)\<^sup>*\<^sup>* (startPool n maxWorkers) c"
  shows "distinct (finishedTasks c @ failedTasks c) \<and>
    ((\<forall>c'. \<not> poolStep failing c c') \<longrightarrow> failedTasks c = [] \<longrightarrow> mset (finishedTasks c) = mset [0..<n])"
proof -
  note r = pool_reach_tasks [OF assms]
  have sub: "mset (finishedTasks c @ failedTasks c) \<subseteq># mset [0..<n]"
    using r by (metis poolTasks_def add.assoc mset_append mset_subset_eq_add_right)
  then have "distinct (finishedTasks c @ failedTasks c)"
    by (metis distinct_upt mset_subset_eq_exists_conv mset_append distinct_append mset_eq_imp_distinct_iff ex_mset)
  moreover have "mset (finishedTasks c) = mset [0..<n]"
    if rest: "\<forall>c'. \<not> poolStep failing c c'" and ok: "failedTasks c = []"
  proof -
    have "workerHolds w = []" if "w \<in> set (poolWorkers c)" for w
      using that rest_holds_nothing [OF rest ok] by (metis in_set_conv_nth)
    then have "concat (map workerHolds (poolWorkers c)) = []" by simp
    then show ?thesis using r ok unfolding poolTasks_def by (metis add_0 add_0_right mset.simps(1))
  qed
  ultimately show ?thesis by blast
qed

section \<open>Every schedule ends\<close>

definition workerLeft :: "workerState \<Rightarrow> nat" where
  "workerLeft w = 2 * length (waitingTasks w) + (if currentTask w = None then 0 else 1) + (if firstTaskStarted w then 0 else 1)"

definition poolLeft :: "pool \<Rightarrow> nat" where
  "poolLeft c = sum_list (map workerLeft (poolWorkers c))"

lemma sum_update_less:
  fixes f :: "'a \<Rightarrow> nat"
  shows "i < length xs \<Longrightarrow> f x < f (xs ! i) \<Longrightarrow> sum_list (map f (xs[i := x])) < sum_list (map f xs)"
proof (induction xs arbitrary: i)
  case (Cons y ys)
  then show ?case by (cases i) auto
qed simp

lemma poolStep_left: "poolStep failing c c' \<Longrightarrow> poolLeft c' < poolLeft c"
  by (induction rule: poolStep.induct)
    (auto simp: poolLeft_def setWorker_def mayStart_def workerLeft_def intro!: sum_update_less)

text \<open>The pool always comes to rest: there is no infinite schedule, and from every state a state of rest can be
  reached.\<close>

theorem pool_comes_to_rest:
  "wfP (\<lambda>c' c. poolStep failing c c') \<and> (\<exists>c'. (poolStep failing)\<^sup>*\<^sup>* c c' \<and> (\<forall>c''. \<not> poolStep failing c' c''))"
proof
  show wf: "wfP (\<lambda>c' c. poolStep failing c c')"
    by (rule wfp_if_convertible_to_nat [where f = poolLeft]) (rule poolStep_left)
  show "\<exists>c'. (poolStep failing)\<^sup>*\<^sup>* c c' \<and> (\<forall>c''. \<not> poolStep failing c' c'')"
    by (induction c rule: wfp_induct_rule [OF wf]) (meson converse_rtranclp_into_rtranclp rtranclp.rtrancl_refl)
qed

section \<open>Instance\<close>

text \<open>Two tasks, two workers; the second task ends first.\<close>

definition samplePool :: "nat list \<Rightarrow> nat option \<Rightarrow> bool \<Rightarrow> nat list \<Rightarrow> nat option \<Rightarrow> bool \<Rightarrow> nat list \<Rightarrow> pool" where
  "samplePool w0 c0 f0 w1 c1 f1 done = \<lparr>poolWorkers = [\<lparr>waitingTasks = w0, currentTask = c0, firstTaskStarted = f0\<rparr>,
     \<lparr>waitingTasks = w1, currentTask = c1, firstTaskStarted = f1\<rparr>], finishedTasks = done, failedTasks = []\<rparr>"

theorem pool_runs_every_task_witness:
  "\<exists>c. (poolStep (\<lambda>t. t = 7))\<^sup>*\<^sup>* (startPool 2 2) c \<and> distinct (finishedTasks c @ failedTasks c) \<and>
     mset (finishedTasks c) = mset [0..<2]"
proof -
  let ?step = "poolStep (\<lambda>t. t = 7)"
  let ?c0 = "samplePool [0] None False [1] None False []" and ?c1 = "samplePool [] (Some 0) True [1] None False []"
    and ?c2 = "samplePool [] (Some 0) True [] (Some 1) True []" and ?c3 = "samplePool [] (Some 0) True [] None True [1]"
    and ?c4 = "samplePool [] None True [] None True [1, 0]"
  have start: "startPool 2 2 = ?c0"
    by (simp add: samplePool_def startPool_def workerTasks_def calculateTasksDistribution_def calculateTaskId_def upt_rec)
  have "?step ?c0 ?c1"
    using poolStep.start [of ?c0 0 0 "[]" "\<lambda>t. t = 7"] by (simp add: samplePool_def mayStart_def setWorker_def)
  moreover have "?step ?c1 ?c2"
    using poolStep.start [of ?c1 1 1 "[]" "\<lambda>t. t = 7"] by (simp add: samplePool_def mayStart_def setWorker_def)
  moreover have "?step ?c2 ?c3"
    using poolStep.finish [of 1 ?c2 1 "\<lambda>t. t = 7"] by (simp add: samplePool_def setWorker_def)
  moreover have "?step ?c3 ?c4"
    using poolStep.finish [of 0 ?c3 0 "\<lambda>t. t = 7"] by (simp add: samplePool_def setWorker_def)
  ultimately have reach: "?step\<^sup>*\<^sup>* (startPool 2 2) ?c4"
    unfolding start by (meson converse_rtranclp_into_rtranclp rtranclp.rtrancl_refl)
  have "\<forall>c'. \<not> ?step ?c4 c'"
    by (auto simp: samplePool_def mayStart_def less_Suc_eq nth_Cons' elim!: poolStepE)
  with pool_runs_every_task [OF reach] reach show ?thesis by (intro exI [of _ ?c4]) (simp add: samplePool_def)
qed

end
