(* ===== verification/Image.thy ===== *)
theory Image
  imports GoStrings
begin

text \<open>
  Stage identifiers, image descriptions and the tags of the stages repository:
  \<^verbatim>\<open>pkg/image/stage.go\<close>, \<^verbatim>\<open>pkg/image/info.go\<close>, the tag functions of
  \<^verbatim>\<open>pkg/storage/repo_stages_storage.go\<close> and the choice of a fresh creation timestamp in
  \<^verbatim>\<open>pkg/storage/manager/storage_manager.go\<close>. Instants are integers, nanoseconds since 1970.
  A stage description is used by reference in the source (\<^verbatim>\<open>*image.StageDesc\<close> is the key of sets
  and maps), so the model carries the identity of the reference as the field \<open>sdRef\<close>.
\<close>

section \<open>Stage identifiers\<close>

record StageID =
  Digest :: string
  CreationTs :: int
  IsMultiplatform :: bool

definition NewStageID :: "string \<Rightarrow> int \<Rightarrow> StageID" where
  "NewStageID digest creationTs =
     \<lparr>Digest = digest, CreationTs = creationTs, IsMultiplatform = (creationTs = 0)\<rparr>"

definition StageID_String :: "StageID \<Rightarrow> string" where
  "StageID_String i =
     (if CreationTs i = 0 then Digest i else Digest i @ ''-'' @ fmtInt (CreationTs i))"

definition StageID_IsEqual :: "StageID \<Rightarrow> StageID \<Rightarrow> bool" where
  "StageID_IsEqual i another \<longleftrightarrow> Digest i = Digest another \<and> CreationTs i = CreationTs another"

text \<open>Go's division and remainder truncate towards zero.\<close>

definition goDiv :: "int \<Rightarrow> int \<Rightarrow> int" where
  "goDiv a b = sgn a * sgn b * (\<bar>a\<bar> div \<bar>b\<bar>)"

definition goMod :: "int \<Rightarrow> int \<Rightarrow> int" where
  "goMod a b = a - goDiv a b * b"

text \<open>\<^verbatim>\<open>time.Unix(sec, nsec)\<close> as nanoseconds since the epoch.\<close>

definition timeUnix :: "int \<Rightarrow> int \<Rightarrow> int" where
  "timeUnix sec nsec = sec * 1000000000 + nsec"

definition CreationTsToTime :: "StageID \<Rightarrow> int" where
  "CreationTsToTime i = timeUnix (goDiv (CreationTs i) 1000) (goMod (CreationTs i) 1000)"

definition ParseCreationTs :: "string \<Rightarrow> int option" where
  "ParseCreationTs creationTs = ParseInt64 creationTs"

section \<open>Image descriptions\<close>

datatype Info = Info
  (InfoName: string) (Repository: string) (Tag: string) (RepoDigest: string)
  (OnBuild: "string list") (Env: "string list") (InfoID: string)
  (Labels: "(string \<times> string) list") (Size: int) (CreatedAtUnixNano: int)
  (Volumes: "string list") (IsIndex: bool) (Index: "Info list")

text \<open>\<open>None\<close> is the panic on a malformed repository digest.\<close>

definition GetDigest :: "Info \<Rightarrow> string option" where
  "GetDigest info =
     (if RepoDigest info = [] then Some []
      else (case SplitChar (RepoDigest info) (CHR ''@'') of
              [_, d] \<Rightarrow> Some d
            | _ \<Rightarrow> None))"

definition GetCreatedAt :: "Info \<Rightarrow> int" where
  "GetCreatedAt info = timeUnix (goDiv (CreatedAtUnixNano info) 1000000000)
     (goMod (CreatedAtUnixNano info) 1000000000)"

definition SplitRepositoryAndTagLegacy :: "string \<Rightarrow> string \<times> string" where
  "SplitRepositoryAndTagLegacy ref =
     (case Cut (rev ref) '':'' of None \<Rightarrow> (ref, []) | Some (t, r) \<Rightarrow> (rev r, rev t))"

definition NormalizeRepository :: "string \<Rightarrow> string" where
  "NormalizeRepository repository =
     TrimPrefix (TrimPrefix repository ''index.docker.io/library/'') ''docker.io/library/''"

fun ExtractRepoDigest :: "string list \<Rightarrow> string \<Rightarrow> string" where
  "ExtractRepoDigest [] repository = []"
| "ExtractRepoDigest (d # ds) repository =
     (let repoAndDigest = SplitN2 d ''@sha256:''; repo = NormalizeRepository (hd repoAndDigest)
      in if length repoAndDigest = 2 \<and> NormalizeRepository repository = repo
         then repo @ ''@sha256:'' @ repoAndDigest ! 1
         else ExtractRepoDigest ds repository)"

record StageDesc =
  sdRef :: nat
  sdStageID :: StageID
  sdInfo :: Info

section \<open>Tags of the stages repository\<close>

datatype tagError = HashExpected string | UnparsableTimestamp string string

definition getDigestAndCreationTsFromRepoStageImageTag :: "string \<Rightarrow> tagError + (string \<times> int)" where
  "getDigestAndCreationTsFromRepoStageImageTag tag =
     (case SplitN2 tag ''-'' of
        [d] \<Rightarrow> if length d \<noteq> 56 then Inl (HashExpected d) else Inr (d, 0)
      | d # t # _ \<Rightarrow> (case ParseCreationTs t of
            None \<Rightarrow> Inl (UnparsableTimestamp tag t)
          | Some ts \<Rightarrow> Inr (d, ts))
      | [] \<Rightarrow> Inl (HashExpected []))"

definition ConstructStageImageName :: "string \<Rightarrow> string \<Rightarrow> int \<Rightarrow> string" where
  "ConstructStageImageName repoAddress digest creationTs =
     (if creationTs = 0 then repoAddress @ '':'' @ digest
      else repoAddress @ '':'' @ digest @ ''-'' @ fmtInt creationTs)"

text \<open>One tag of \<^verbatim>\<open>GetStagesIDs\<close>: \<open>None\<close> where the loop continues with the next tag.\<close>

definition stageIDOfTag :: "string \<Rightarrow> StageID option" where
  "stageIDOfTag tag =
     (let isRegularStage = (length tag = 70 \<and> length (SplitChar tag (CHR ''-'')) = 2);
          isMultiplatformStage = (length tag = 56)
      in if \<not> isRegularStage \<and> \<not> isMultiplatformStage then None
         else if HasPrefix tag ''managed-image-'' \<or> HasPrefix tag ''meta-'' \<or> HasSuffix tag ''-rejected''
         then None
         else (case getDigestAndCreationTsFromRepoStageImageTag tag of
                 Inl _ \<Rightarrow> None
               | Inr (digest, creationTs) \<Rightarrow> Some (NewStageID digest creationTs)))"

definition GetStagesIDs :: "string list \<Rightarrow> StageID list" where
  "GetStagesIDs tags = List.map_filter stageIDOfTag tags"

definition makeRepoRejectedStageImageRecord :: "string \<Rightarrow> string \<Rightarrow> int \<Rightarrow> string" where
  "makeRepoRejectedStageImageRecord repoAddress digest creationTs =
     repoAddress @ '':'' @ digest @ ''-'' @ fmtInt creationTs @ ''-rejected''"

text \<open>
  \<^verbatim>\<open>rejectedStageTagRegexp\<close>, \<open>^([0-9a-f]{56})-([0-9]+)-rejected$\<close>, with its two groups.
\<close>

definition isLowerHex :: "char \<Rightarrow> bool" where
  "isLowerHex c \<longleftrightarrow> isDigit c \<or> (97 \<le> (of_char c :: nat) \<and> (of_char c :: nat) \<le> 102)"

definition matchRejectedStageTag :: "string \<Rightarrow> (string \<times> string) option" where
  "matchRejectedStageTag tag =
     (if \<not> HasSuffix tag ''-rejected'' then None
      else (let s = TrimSuffix tag ''-rejected''; d = take 56 s; r = drop 56 s
            in if length d = 56 \<and> list_all isLowerHex d \<and> HasPrefix r ''-'' \<and> drop 1 r \<noteq> []
                 \<and> list_all isDigit (drop 1 r)
               then Some (d, drop 1 r) else None))"

definition GetRejectedStageIDs :: "string list \<Rightarrow> StageID list" where
  "GetRejectedStageIDs tags =
     List.map_filter (\<lambda>tag. case matchRejectedStageTag tag of
         None \<Rightarrow> None
       | Some (d, t) \<Rightarrow> map_option (NewStageID d) (ParseCreationTs t)) tags"

section \<open>A fresh creation timestamp\<close>

text \<open>
  The loop of \<^verbatim>\<open>GenerateStageDescCreationTs\<close> counts the timestamp up until the image name is
  free. \<open>construct\<close> is the storage's \<^verbatim>\<open>ConstructStageImageName\<close> for the digest, \<open>names\<close> the image
  names taken; the fuel is the number of attempts.
\<close>

fun firstFreeTs :: "(int \<Rightarrow> string) \<Rightarrow> string list \<Rightarrow> nat \<Rightarrow> int \<Rightarrow> (string \<times> int) option" where
  "firstFreeTs construct names 0 ts = None"
| "firstFreeTs construct names (Suc fuel) ts =
     (if construct ts \<in> set names then firstFreeTs construct names fuel (ts + 1)
      else Some (construct ts, ts))"

definition GenerateStageDescCreationTs ::
  "string \<Rightarrow> int \<Rightarrow> string \<Rightarrow> StageDesc list \<Rightarrow> (string \<times> int) option" where
  "GenerateStageDescCreationTs repoAddress nowNano digest stageDescSet =
     firstFreeTs (ConstructStageImageName repoAddress digest)
       (map (\<lambda>d. InfoName (sdInfo d)) stageDescSet) (Suc (length stageDescSet))
       (goDiv nowNano 1000000000 * 1000 + goDiv (goMod nowNano 1000000000) 1000000)"

section \<open>Lemmas\<close>

lemma goDiv_nonneg: "0 \<le> a \<Longrightarrow> 0 < b \<Longrightarrow> goDiv a b = a div b"
  by (cases "a = 0") (auto simp: goDiv_def)

lemma goMod_nonneg: "0 \<le> a \<Longrightarrow> 0 < b \<Longrightarrow> goMod a b = a mod b"
  by (simp add: goMod_def goDiv_nonneg minus_div_mult_eq_mod)

lemma goDiv_1000: "goDiv a 1000 = (if 0 \<le> a then a div 1000 else - (- a div 1000))"
  by (cases "a = 0") (auto simp: goDiv_def)

lemma fmtInt_inj: "fmtInt i = fmtInt j \<Longrightarrow> i = j"
proof -
  have inj: "fmtNat m = fmtNat n \<Longrightarrow> m = n" for m n
    by (metis option.inject parseDigits_fmtNat)
  have minus: "fmtNat m \<noteq> ''-'' @ s" for m s
    using fmtNat_hd [of m] not_isDigit_sign(1) by fastforce
  assume "fmtInt i = fmtInt j"
  then show ?thesis
    using minus by (auto simp: fmtInt_def split: if_splits dest!: inj)
      (metis append_Cons append_Nil)+
qed

lemma firstFreeTs_Some:
  "firstFreeTs construct names fuel ts = Some (n, t) \<Longrightarrow> n = construct t \<and> n \<notin> set names \<and> ts \<le> t"
  by (induction fuel arbitrary: ts) (fastforce split: if_splits)+

lemma firstFreeTs_None:
  "firstFreeTs construct names fuel ts = None \<Longrightarrow> \<forall>k < fuel. construct (ts + int k) \<in> set names"
proof (induction fuel arbitrary: ts)
  case 0
  then show ?case by simp
next
  case (Suc fuel)
  from Suc.prems have hd: "construct ts \<in> set names"
    and rec: "firstFreeTs construct names fuel (ts + 1) = None"
    by (auto split: if_splits)
  show ?case
  proof (intro allI impI)
    fix k assume "k < Suc fuel"
    then show "construct (ts + int k) \<in> set names"
      using hd Suc.IH [OF rec] by (cases k) (auto simp: add.assoc)
  qed
qed

end
