(* ===== verification/ImageProps.thy ===== *)
theory ImageProps
  imports Image
begin

text \<open>
  Properties of the tags of the stages repository (a tag written for a stage is read back as that
  stage, a rejection marker is never taken for a stage), of the choice of a fresh creation timestamp, and of the
  conversion of timestamps to instants.
\<close>

section \<open>Tags are read back\<close>

text \<open>What the digests of stages look like: the hexadecimal form of 28 bytes.\<close>

definition isStageDigest :: "string \<Rightarrow> bool" where
  "isStageDigest d \<longleftrightarrow> length d = 56 \<and> list_all isLowerHex d"

text \<open>The timestamps of 13 digits: from September 2001 to November 2286.\<close>

definition isStageTs :: "int \<Rightarrow> bool" where
  "isStageTs ts \<longleftrightarrow> 10 ^ 12 \<le> ts \<and> ts < 10 ^ 13"

lemma length_fmtNat: "10 ^ k \<le> n \<Longrightarrow> n < 10 ^ Suc k \<Longrightarrow> length (fmtNat n) = Suc k"
proof (induction k arbitrary: n)
  case 0
  then show ?case by (simp add: fmtNat.simps)
next
  case (Suc k)
  have "10 ^ k \<le> n div 10" "n div 10 < 10 ^ Suc k" using Suc.prems by (auto simp: less_eq_div_iff_mult_less_eq div_less_iff_less_mult mult.commute)
  moreover have "10 * 1 \<le> (10::nat) * 10 ^ k" by (intro mult_le_mono2) simp
  then have "\<not> n < 10" using Suc.prems(1) unfolding power_Suc by linarith
  ultimately show ?case using Suc.IH [of "n div 10"] by (subst fmtNat.simps) simp
qed

lemma hex_no_dash: "list_all isLowerHex d \<Longrightarrow> CHR ''-'' \<notin> set d"
  by (auto simp: list_all_iff isLowerHex_def isDigit_def)

lemma digits_no_dash: "CHR ''-'' \<notin> set (fmtNat n)"
  using fmtNat_digits(1) [of n] by (auto simp: list_all_iff isDigit_def)

lemma hex_not_prefix:
  assumes "list_all isLowerHex d" and "d \<noteq> []" and "\<not> isLowerHex c"
  shows "\<not> HasPrefix (d @ s) (c # p)"
  using assms by (cases d) (auto simp: HasPrefix_Cons)

lemma not_isLowerHex_m: "\<not> isLowerHex (CHR ''m'')"
  by (simp add: isLowerHex_def isDigit_def)

lemma no_rejected_suffix:
  assumes "CHR ''d'' \<notin> set t" and "t \<noteq> []"
  shows "\<not> HasSuffix (s @ t) ''-rejected''"
proof
  assume "HasSuffix (s @ t) ''-rejected''"
  then obtain r where "s @ t = r @ ''-rejected''" by (auto simp: HasSuffix_iff)
  then have "last (s @ t) = CHR ''d''" by simp
  then show False using assms by (metis last_appendR last_in_set)
qed

lemma dash_suffix: "HasSuffix s ''-rejected'' \<Longrightarrow> CHR ''-'' \<in> set s"
  by (auto simp: HasSuffix_iff)

text \<open>C40: The tag of a stage is read back as the stage: the listing of a repository that holds the tags of stages returns those
  stages, in order, the stages for several platforms (timestamp 0) as well as the others.\<close>

theorem stage_tags_read_back:
  assumes "\<forall>i \<in> set ids. isStageDigest (Digest i) \<and> (CreationTs i = 0 \<or> isStageTs (CreationTs i)) \<and>
    IsMultiplatform i = (CreationTs i = 0)"
  shows "GetStagesIDs (map StageID_String ids) = ids"
proof -
  have one: "stageIDOfTag (StageID_String i) = Some i"
    if d: "isStageDigest (Digest i)" and ts: "CreationTs i = 0 \<or> isStageTs (CreationTs i)"
      and mp: "IsMultiplatform i = (CreationTs i = 0)" for i
  proof -
    let ?d = "Digest i" and ?t = "fmtInt (CreationTs i)"
    have len: "length ?d = 56" and hex: "list_all isLowerHex ?d" using d by (auto simp: isStageDigest_def)
    have nodash: "CHR ''-'' \<notin> set ?d" using hex by (rule hex_no_dash)
    have ne: "?d \<noteq> []" using len by auto
    have pre: "\<not> HasPrefix (?d @ s) ''managed-image-''" "\<not> HasPrefix (?d @ s) ''meta-''" for s
      using hex_not_prefix [OF hex ne not_isLowerHex_m] by blast+
    have id: "NewStageID ?d (CreationTs i) = i" using mp by (simp add: NewStageID_def)
    show ?thesis
    proof (cases "CreationTs i = 0")
      case True
      have "\<not> HasSuffix ?d ''-rejected''" using dash_suffix nodash by blast
      then show ?thesis
        using True len pre [of "[]"] id nodash
        by (simp add: stageIDOfTag_def StageID_String_def getDigestAndCreationTsFromRepoStageImageTag_def SplitN2_def
            Cut_char_None SplitChar_none)
    next
      case False
      then have range: "10 ^ 12 \<le> CreationTs i" "CreationTs i < 10 ^ 13" using ts by (auto simp: isStageTs_def)
      then have t: "?t = fmtNat (nat (CreationTs i))" by (simp add: fmtInt_def)
      have "length ?t = 13" unfolding t using length_fmtNat [of 12 "nat (CreationTs i)"] range by simp
      moreover have split: "SplitChar (?d @ CHR ''-'' # ?t) (CHR ''-'') = [?d, ?t]"
        using SplitChar_append [OF nodash] SplitChar_none [OF digits_no_dash] t by simp
      moreover have "\<not> HasSuffix ((?d @ ''-'') @ ?t) ''-rejected''"
        unfolding t using fmtNat_digits [of "nat (CreationTs i)"]
        by (intro no_rejected_suffix) (auto simp: list_all_iff isDigit_def)
      moreover have "ParseCreationTs ?t = Some (CreationTs i)"
        unfolding ParseCreationTs_def using range by (intro ParseInt64_fmtInt) auto
      moreover have "Cut (?d @ CHR ''-'' # ?t) ''-'' = Some (?d, ?t)" by (rule Cut_char [OF nodash])
      ultimately show ?thesis
        using False len pre [of "''-'' @ ?t"] id
        by (simp add: stageIDOfTag_def StageID_String_def getDigestAndCreationTsFromRepoStageImageTag_def SplitN2_def)
    qed
  qed
  show ?thesis using assms one by (induction ids) (auto simp: GetStagesIDs_def)
qed

text \<open>The marker tag of a rejected stage is read back as that stage, and the listing of the stages never takes a
  marker for a stage.\<close>

theorem rejected_tags_read_back:
  assumes "isStageDigest d" and "0 \<le> ts" and "ts < 2 ^ 63"
  shows "(let tag = TrimPrefix (makeRepoRejectedStageImageRecord repo d ts) (repo @ '':'')
    in GetRejectedStageIDs [tag] = [NewStageID d ts] \<and> GetStagesIDs [tag] = [])"
proof -
  let ?t = "fmtInt ts" and ?tag = "d @ ''-'' @ fmtInt ts @ ''-rejected''"
  have tag: "TrimPrefix (makeRepoRejectedStageImageRecord repo d ts) (repo @ '':'') = ?tag"
    using TrimPrefix_append [of "repo @ '':''" ?tag] by (simp add: makeRepoRejectedStageImageRecord_def)
  have t: "?t = fmtNat (nat ts)" using assms(2) by (simp add: fmtInt_def)
  have suffix: "HasSuffix ?tag ''-rejected''" unfolding HasSuffix_iff by (intro exI [of _ "d @ ''-'' @ ?t"]) simp
  have trim: "TrimSuffix ?tag ''-rejected'' = d @ ''-'' @ ?t" using suffix by (simp add: TrimSuffix_def)
  have "matchRejectedStageTag ?tag = Some (d, ?t)"
    using suffix trim assms(1) fmtNat_digits [of "nat ts"]
    by (simp add: matchRejectedStageTag_def isStageDigest_def t Let_def HasPrefix_def)
  moreover have "ParseCreationTs ?t = Some ts" unfolding ParseCreationTs_def using assms by (intro ParseInt64_fmtInt) auto
  moreover have "stageIDOfTag ?tag = None" using suffix by (simp add: stageIDOfTag_def Let_def)
  ultimately show ?thesis unfolding Let_def tag by (simp add: GetRejectedStageIDs_def GetStagesIDs_def)
qed

text \<open>Two stages with the same name in the repository are the same stage.\<close>

theorem stage_names_injective:
  assumes "isStageDigest (Digest i)" and "isStageDigest (Digest j)" and "StageID_String i = StageID_String j"
  shows "StageID_IsEqual i j"
proof -
  have len: "length (Digest i) = 56" "length (Digest j) = 56" using assms by (auto simp: isStageDigest_def)
  have "take 56 (StageID_String i) = Digest i" "take 56 (StageID_String j) = Digest j"
    using len by (auto simp: StageID_String_def)
  then have d: "Digest i = Digest j" using assms(3) by simp
  have "CreationTs i = CreationTs j"
    using assms(3) d by (auto simp: StageID_String_def split: if_splits dest: fmtInt_inj)
  with d show ?thesis by (simp add: StageID_IsEqual_def)
qed

section \<open>A fresh timestamp is always found\<close>

lemma construct_inj: "inj_on (ConstructStageImageName repo digest) {t. 0 < t}"
  by (auto simp: inj_on_def ConstructStageImageName_def dest: fmtInt_inj)

lemma firstFreeTs_between:
  "firstFreeTs construct names fuel ts = Some (n, t) \<Longrightarrow> \<forall>t'. ts \<le> t' \<longrightarrow> t' < t \<longrightarrow> construct t' \<in> set names"
proof (induction fuel arbitrary: ts)
  case (Suc fuel)
  show ?case
  proof (cases "construct ts \<in> set names")
    case True
    then have "\<forall>t'. ts + 1 \<le> t' \<longrightarrow> t' < t \<longrightarrow> construct t' \<in> set names" using Suc by simp
    with True show ?thesis by (metis add1_zle_eq order_le_less)
  next
    case False
    with Suc.prems show ?thesis by simp
  qed
qed simp

text \<open>A name for a new stage is always found, after at most as many attempts as there are stages: it is the name for
  the first millisecond from now on that no stage of the set has taken.\<close>

theorem fresh_creation_ts:
  assumes "0 < nowNano div 1000000"
  shows "\<exists>ts. GenerateStageDescCreationTs repo nowNano digest ds = Some (ConstructStageImageName repo digest ts, ts) \<and>
    nowNano div 1000000 \<le> ts \<and> ts \<le> nowNano div 1000000 + int (length ds) \<and>
    ConstructStageImageName repo digest ts \<notin> (\<lambda>d. InfoName (sdInfo d)) ` set ds \<and>
    (\<forall>t. nowNano div 1000000 \<le> t \<longrightarrow> t < ts \<longrightarrow> ConstructStageImageName repo digest t \<in> (\<lambda>d. InfoName (sdInfo d)) ` set ds)"
proof -
  let ?c = "ConstructStageImageName repo digest" and ?names = "map (\<lambda>d. InfoName (sdInfo d)) ds" and ?ms = "nowNano div 1000000"
  have pos: "0 \<le> nowNano" using assms by (simp add: pos_imp_zdiv_pos_iff)
  have "nowNano div 1000000000 * 1000 + nowNano mod 1000000000 div 1000000 = ?ms"
    using div_mult_mod_eq [of "?ms" 1000] by (simp add: zdiv_zmult2_eq [symmetric] zmod_zmult2_eq [of 1000 nowNano 1000000, simplified] div_mult2_eq)
  then have gen: "GenerateStageDescCreationTs repo nowNano digest ds = firstFreeTs ?c ?names (Suc (length ds)) ?ms"
    using pos by (simp add: GenerateStageDescCreationTs_def goDiv_nonneg goMod_nonneg)
  have taken: "k \<le> length ds" if "\<forall>j < k. ?c (?ms + int j) \<in> set ?names" for k
  proof -
    have "inj_on (\<lambda>j. ?c (?ms + int j)) {..<k}"
    proof (rule inj_onI)
      fix x y assume "?c (?ms + int x) = ?c (?ms + int y)"
      from inj_onD [OF construct_inj this] assms show "x = y" by simp
    qed
    then have "k = card ((\<lambda>j. ?c (?ms + int j)) ` {..<k})" by (simp add: card_image)
    also have "\<dots> \<le> card (set ?names)" using that by (intro card_mono) auto
    also have "\<dots> \<le> length ds" using card_length [of ?names] by simp
    finally show ?thesis .
  qed
  obtain n t where some: "firstFreeTs ?c ?names (Suc (length ds)) ?ms = Some (n, t)"
    using taken [of "Suc (length ds)"] firstFreeTs_None [of ?c ?names "Suc (length ds)" ?ms] by fastforce
  note facts = firstFreeTs_Some [OF some] firstFreeTs_between [OF some]
  have "nat (t - ?ms) \<le> length ds" using facts by (intro taken) auto
  with gen some facts show ?thesis by (intro exI [of _ t]) auto
qed

section \<open>Timestamps as instants\<close>

text \<open>The instant of a timestamp has the right second, and the instants of timestamps are ordered as the timestamps.\<close>

theorem creation_time_order:
  assumes "0 \<le> CreationTs i" and "0 \<le> CreationTs j"
  shows "CreationTsToTime i div 1000000000 = CreationTs i div 1000 \<and>
    (CreationTsToTime i < CreationTsToTime j \<longleftrightarrow> CreationTs i < CreationTs j)"
proof -
  have t: "CreationTsToTime x = CreationTs x div 1000 * 1000000000 + CreationTs x mod 1000" if "0 \<le> CreationTs x" for x
    using that by (simp add: CreationTsToTime_def timeUnix_def goDiv_nonneg goMod_nonneg)
  have m: "0 \<le> CreationTs x mod 1000" "CreationTs x mod 1000 < 1000" "CreationTs x div 1000 * 1000 + CreationTs x mod 1000 = CreationTs x" for x
    by simp_all
  have lex: "a * 1000000000 + b < a' * 1000000000 + b' \<longleftrightarrow> a * 1000 + b < a' * 1000 + b'"
    if "0 \<le> b" "b < 1000" "0 \<le> b'" "b' < 1000" for a a' b b' :: int
    using that by (cases a a' rule: linorder_cases) auto
  show ?thesis
    unfolding t [OF assms(1)] t [OF assms(2)] lex [OF m(1,2) m(1,2)] m(3) using m(1,2) [of i] by simp
qed

text \<open>The milliseconds of a timestamp are taken for nanoseconds: the instant of the timestamp 1500, which is 1.5 seconds
  after the epoch, is 1.0000005 seconds.\<close>

theorem creation_time_subsecond:
  "CreationTsToTime (NewStageID digest 1500) = 1000000500 \<and> timeUnix 1 500000000 = 1500000000"
  by (simp add: CreationTsToTime_def NewStageID_def timeUnix_def goDiv_nonneg goMod_nonneg)

section \<open>Instances\<close>

definition sampleDigest :: string where
  "sampleDigest = replicate 56 (CHR ''a'')"

lemma sampleDigest_ok: "isStageDigest sampleDigest"
  by (simp add: isStageDigest_def sampleDigest_def isLowerHex_def list_all_iff)

theorem stage_tags_read_back_witness:
  "GetStagesIDs (map StageID_String [NewStageID sampleDigest 1611836746968, NewStageID sampleDigest 0]) =
     [NewStageID sampleDigest 1611836746968, NewStageID sampleDigest 0]"
  by (rule stage_tags_read_back) (simp add: NewStageID_def sampleDigest_ok isStageTs_def)

theorem rejected_tags_read_back_witness:
  "let tag = TrimPrefix (makeRepoRejectedStageImageRecord ''repo'' sampleDigest 1611836746968) (''repo'' @ '':'')
    in GetRejectedStageIDs [tag] = [NewStageID sampleDigest 1611836746968] \<and> GetStagesIDs [tag] = []"
  by (rule rejected_tags_read_back) (simp_all add: sampleDigest_ok)

theorem stage_names_injective_witness: "StageID_IsEqual (NewStageID sampleDigest 7) (NewStageID sampleDigest 7)"
  by (rule stage_names_injective) (simp_all add: NewStageID_def sampleDigest_ok)

theorem fresh_creation_ts_witness:
  "\<exists>ts. GenerateStageDescCreationTs ''repo'' 5000000 ''d'' [\<lparr>sdRef = 0, sdStageID = NewStageID ''d'' 5,
      sdInfo = Info ''repo:d-5'' [] [] [] [] [] [] [] 0 0 [] False []\<rparr>] = Some (ConstructStageImageName ''repo'' ''d'' ts, ts) \<and> 5 \<le> ts"
  using fresh_creation_ts [of 5000000 "''repo''" "''d''" "[\<lparr>sdRef = 0, sdStageID = NewStageID ''d'' 5,
      sdInfo = Info ''repo:d-5'' [] [] [] [] [] [] [] 0 0 [] False []\<rparr>]"] by auto

theorem creation_time_order_witness:
  "CreationTsToTime (NewStageID ''d'' 1500) < CreationTsToTime (NewStageID ''d'' 1501)"
  using creation_time_order [of "NewStageID ''d'' 1500" "NewStageID ''d'' 1501"] by (simp add: NewStageID_def)

end
