(* ===== verification/StageManager.thy ===== *)
theory StageManager
  imports Image
begin

text \<open>
  The stages under cleanup and why they are kept: \<^verbatim>\<open>pkg/cleaning/stage_manager/stages.go\<close> and
  \<^verbatim>\<open>pkg/cleaning/stage_manager/manager.go\<close>. A \<^verbatim>\<open>mapset.Set\<close> is a list without order of
  significance (\<^verbatim>\<open>Add\<close> is \<open>snocNew\<close>); the order of the list is the order of iteration. The
  protection reasons are the nine variables of the package, compared by identity.
  The interface \<open>protecting\<close> states what the cleanup relies on when it marks stages; it is
  interpreted on the managed set and on both sets of the manager.
\<close>

section \<open>Managed stages\<close>

datatype protectionReason =
    ProtectionReasonKubernetesBasedPolicy
  | ProtectionReasonGitPolicy
  | ProtectionReasonBuiltWithinLastNHoursPolicy
  | ProtectionReasonImportSource
  | ProtectionReasonDependencySource
  | ProtectionReasonAncestor
  | ProtectionReasonImageIndexPlatform
  | ProtectionReasonFoundInRepo
  | ProtectionReasonKeepList

text \<open>
  The description of a reason. \<^verbatim>\<open>SetDescription\<close> is called on one reason only, with the number of
  hours of the running cleanup: \<open>hours\<close> is \<open>None\<close> before that call.
\<close>

fun protectionReason_String :: "nat option \<Rightarrow> protectionReason \<Rightarrow> string" where
  "protectionReason_String hours ProtectionReasonKubernetesBasedPolicy = ''used in Kubernetes''"
| "protectionReason_String hours ProtectionReasonGitPolicy = ''git policy''"
| "protectionReason_String hours ProtectionReasonBuiltWithinLastNHoursPolicy =
     (case hours of None \<Rightarrow> ''built within last N hours''
      | Some n \<Rightarrow> ''built within last '' @ fmtNat n @ '' hours'')"
| "protectionReason_String hours ProtectionReasonImportSource = ''import source''"
| "protectionReason_String hours ProtectionReasonDependencySource = ''dependency source''"
| "protectionReason_String hours ProtectionReasonAncestor = ''ancestor''"
| "protectionReason_String hours ProtectionReasonImageIndexPlatform = ''image index platform''"
| "protectionReason_String hours ProtectionReasonFoundInRepo = ''found in repo''"
| "protectionReason_String hours ProtectionReasonKeepList = ''keep list''"

record stageMeta =
  isProtected :: bool
  protectionReasonOf :: "protectionReason option"

record managedStageDescSet =
  stageDescSet :: "StageDesc list"
  stageDescByStageID :: "(string, StageDesc) goMap"
  stageDescMetaMap :: "(StageDesc, stageMeta) goMap"

definition newManagedStageDescSet :: "StageDesc list \<Rightarrow> managedStageDescSet" where
  "newManagedStageDescSet ds =
     \<lparr>stageDescSet = ds,
      stageDescByStageID = foldl (\<lambda>m d. AList.update (StageID_String (sdStageID d)) d m) [] ds,
      stageDescMetaMap = []\<rparr>"

definition DifferenceInPlace :: "managedStageDescSet \<Rightarrow> StageDesc list \<Rightarrow> managedStageDescSet" where
  "DifferenceInPlace s ds =
     s\<lparr>stageDescSet := filter (\<lambda>d. d \<notin> set ds) (stageDescSet s),
       stageDescByStageID :=
         foldl (\<lambda>m d. AList.delete (StageID_String (sdStageID d)) m) (stageDescByStageID s) ds\<rparr>"

definition MarkStageDescAsProtected ::
  "managedStageDescSet \<Rightarrow> StageDesc \<Rightarrow> protectionReason \<Rightarrow> bool \<Rightarrow> managedStageDescSet" where
  "MarkStageDescAsProtected s d reason forceReason =
     (let meta = (case map_of (stageDescMetaMap s) d of
                    None \<Rightarrow> \<lparr>isProtected = False, protectionReasonOf = None\<rparr> | Some m \<Rightarrow> m)
      in if isProtected meta \<and> \<not> forceReason
         then s\<lparr>stageDescMetaMap := AList.update d meta (stageDescMetaMap s)\<rparr>
         else s\<lparr>stageDescMetaMap :=
                  AList.update d \<lparr>isProtected = True, protectionReasonOf = Some reason\<rparr> (stageDescMetaMap s)\<rparr>)"

text \<open>The reason of a protected stage is set together with its protection (\<open>metaOk\<close> below).\<close>

definition GetProtectedStageDescSetByReason ::
  "managedStageDescSet \<Rightarrow> (protectionReason option, StageDesc list) goMap" where
  "GetProtectedStageDescSetByReason s =
     foldl (\<lambda>m (d, meta). if isProtected meta
              then AList.update (protectionReasonOf meta) (snocNew (sliceAt m (protectionReasonOf meta)) d) m
              else m) [] (stageDescMetaMap s)"

definition GetProtectedStageDescSet :: "managedStageDescSet \<Rightarrow> StageDesc list" where
  "GetProtectedStageDescSet s =
     foldl (\<lambda>acc (reason, ds). foldl snocNew acc ds) [] (GetProtectedStageDescSetByReason s)"

definition GetStageDescByStageID :: "managedStageDescSet \<Rightarrow> string \<Rightarrow> StageDesc option" where
  "GetStageDescByStageID s stageID = map_of (stageDescByStageID s) stageID"

section \<open>The manager\<close>

record imageMetadata =
  imStageID :: string
  imImageName :: string
  imCommitList :: "string list"
  imCommitListToDelete :: "string list"
  isNonexistentImage :: bool
  isNonexistentStage :: bool

record Manager =
  managed :: managedStageDescSet
  finalManaged :: managedStageDescSet
  stageIDCustomTagList :: "(string, string list) goMap"
  imageMetadataList :: "imageMetadata list"

definition NewManager :: Manager where
  "NewManager = \<lparr>managed = newManagedStageDescSet [], finalManaged = newManagedStageDescSet [],
     stageIDCustomTagList = [], imageMetadataList = []\<rparr>"

definition ContainsStageDescByStageID :: "Manager \<Rightarrow> string \<Rightarrow> bool" where
  "ContainsStageDescByStageID m stageID \<longleftrightarrow> GetStageDescByStageID (managed m) stageID \<noteq> None"

definition newImageMetadata :: "Manager \<Rightarrow> string \<Rightarrow> string \<Rightarrow> imageMetadata" where
  "newImageMetadata m imageName stageID =
     \<lparr>imStageID = stageID, imImageName = imageName, imCommitList = [], imCommitListToDelete = [],
      isNonexistentImage = False, isNonexistentStage = (\<not> ContainsStageDescByStageID m stageID)\<rparr>"

text \<open>
  \<^verbatim>\<open>getOrCreateImageMetadata\<close> returns a pointer through which the caller assigns; \<open>f\<close> is that
  assignment, applied to the first entry found or to the entry appended.
\<close>

fun changeFirst :: "('a \<Rightarrow> bool) \<Rightarrow> ('a \<Rightarrow> 'a) \<Rightarrow> 'a list \<Rightarrow> 'a list" where
  "changeFirst P f [] = []"
| "changeFirst P f (x # xs) = (if P x then f x # xs else x # changeFirst P f xs)"

definition getOrCreateImageMetadata ::
  "Manager \<Rightarrow> string \<Rightarrow> string \<Rightarrow> (imageMetadata \<Rightarrow> imageMetadata) \<Rightarrow> Manager" where
  "getOrCreateImageMetadata m imageName stageID f =
     (let this = (\<lambda>im. imImageName im = imageName \<and> imStageID im = stageID)
      in if list_ex this (imageMetadataList m)
         then m\<lparr>imageMetadataList := changeFirst this f (imageMetadataList m)\<rparr>
         else m\<lparr>imageMetadataList := imageMetadataList m @ [f (newImageMetadata m imageName stageID)]\<rparr>)"

text \<open>
  \<^verbatim>\<open>processImageMetadata\<close>: the commit cache and the lists of one metadata entry. \<open>exists\<close> is
  \<^verbatim>\<open>IsCommitExists\<close> of the local git repository.
\<close>

type_synonym metadataByImage = "(string, (string, string list) goMap) goMap"

fun splitCommits ::
  "(string \<Rightarrow> 'e + bool) \<Rightarrow> (string, bool) goMap \<Rightarrow> string list \<Rightarrow>
     'e + ((string, bool) goMap \<times> string list \<times> string list)" where
  "splitCommits exists cache [] = Inr (cache, [], [])"
| "splitCommits exists cache (commit # rest) =
     bindR (case map_of cache commit of
              Some b \<Rightarrow> Inr (b, cache)
            | None \<Rightarrow> bindR (exists commit) (\<lambda>b. Inr (b, AList.update commit b cache))) (\<lambda>(b, cache').
     bindR (splitCommits exists cache' rest) (\<lambda>(cache'', toKeep, toDelete).
       Inr (cache'', if b then (commit # toKeep, toDelete) else (toKeep, commit # toDelete))))"

definition processImageMetadata ::
  "(string \<Rightarrow> 'e + bool) \<Rightarrow> metadataByImage \<Rightarrow> Manager \<Rightarrow> 'e + Manager" where
  "processImageMetadata exists byImage m =
     bindR (foldR (\<lambda>(cache, m) (imageName, stageIDCommitList).
         foldR (\<lambda>(cache, m) (stageID, commitList).
           bindR (splitCommits exists cache commitList) (\<lambda>(cache', toKeep, toDelete).
             Inr (cache', getOrCreateImageMetadata m imageName stageID
               (\<lambda>im. im\<lparr>imCommitList := imCommitList im @ toKeep,
                        imCommitListToDelete := imCommitListToDelete im @ toDelete\<rparr>))))
           (cache, m) stageIDCommitList) ([], m) byImage) (\<lambda>(cache, m'). Inr m')"

definition InitImagesMetadata ::
  "(string \<Rightarrow> 'e + bool) \<Rightarrow> metadataByImage \<Rightarrow> metadataByImage \<Rightarrow> Manager \<Rightarrow> 'e + Manager" where
  "InitImagesMetadata exists byImage byNotManagedImage m =
     processImageMetadata exists byImage
       (foldl (\<lambda>m (imageName, stageIDCommitList).
          foldl (\<lambda>m (stageID, commitList). getOrCreateImageMetadata m imageName stageID
             (\<lambda>im. im\<lparr>isNonexistentImage := True, imCommitListToDelete := commitList\<rparr>)) m stageIDCommitList)
          m byNotManagedImage)"

text \<open>\<open>None\<close> is the panic for an unknown stage.\<close>

definition MarkStageDescAsProtectedByStageID ::
  "Manager \<Rightarrow> string \<Rightarrow> protectionReason \<Rightarrow> bool \<Rightarrow> Manager option" where
  "MarkStageDescAsProtectedByStageID m stageID reason forceReason =
     (case GetStageDescByStageID (managed m) stageID of
        None \<Rightarrow> None
      | Some d \<Rightarrow> Some (m\<lparr>managed := MarkStageDescAsProtected (managed m) d reason forceReason\<rparr>))"

definition Manager_MarkStageDescAsProtected ::
  "Manager \<Rightarrow> StageDesc \<Rightarrow> protectionReason \<Rightarrow> bool \<Rightarrow> Manager" where
  "Manager_MarkStageDescAsProtected m d reason forceReason =
     m\<lparr>managed := MarkStageDescAsProtected (managed m) d reason forceReason\<rparr>"

definition MarkFinalStageDescAsProtected ::
  "Manager \<Rightarrow> StageDesc \<Rightarrow> protectionReason \<Rightarrow> bool \<Rightarrow> Manager" where
  "MarkFinalStageDescAsProtected m d reason forceReason =
     m\<lparr>finalManaged := MarkStageDescAsProtected (finalManaged m) d reason forceReason\<rparr>"

definition GetImageStageIDCommitListToCleanup :: "Manager \<Rightarrow> metadataByImage" where
  "GetImageStageIDCommitListToCleanup m =
     foldl (\<lambda>result im. if isNonexistentImage im \<or> isNonexistentStage im then result
        else AList.update (imImageName im)
               (appendAt (sliceAt result (imImageName im)) (imStageID im) (imCommitList im)) result)
       [] (imageMetadataList m)"

definition GetStageIDCommitListToCleanup :: "Manager \<Rightarrow> string \<Rightarrow> (string, string list) goMap" where
  "GetStageIDCommitListToCleanup m imageName =
     (case map_of (GetImageStageIDCommitListToCleanup m) imageName of None \<Rightarrow> [] | Some r \<Rightarrow> r)"

definition GetNonexistentStageIDCommitList :: "Manager \<Rightarrow> string \<Rightarrow> (string, string list) goMap" where
  "GetNonexistentStageIDCommitList m imageName =
     foldl (\<lambda>result im. if \<not> isNonexistentStage im \<or> imImageName im \<noteq> imageName then result
        else appendAt result (imStageID im) (imCommitList im @ imCommitListToDelete im))
       [] (imageMetadataList m)"

definition GetStageIDCommitListByNonexistentImage :: "Manager \<Rightarrow> metadataByImage" where
  "GetStageIDCommitListByNonexistentImage m =
     foldl (\<lambda>result im. if \<not> isNonexistentImage im then result
        else AList.update (imImageName im)
               (appendAt (sliceAt result (imImageName im)) (imStageID im) (imCommitList im @ imCommitListToDelete im)) result)
       [] (imageMetadataList m)"

definition GetStageIDNonexistentCommitList :: "Manager \<Rightarrow> string \<Rightarrow> (string, string list) goMap" where
  "GetStageIDNonexistentCommitList m imageName =
     foldl (\<lambda>result im. if isNonexistentStage im \<or> imImageName im \<noteq> imageName then result
        else appendAt result (imStageID im) (imCommitListToDelete im))
       [] (imageMetadataList m)"

definition ForgetDeletedStageDescSet :: "Manager \<Rightarrow> StageDesc list \<Rightarrow> Manager" where
  "ForgetDeletedStageDescSet m ds = m\<lparr>managed := DifferenceInPlace (managed m) ds\<rparr>"

definition ForgetDeletedFinalStageDescSet :: "Manager \<Rightarrow> StageDesc list \<Rightarrow> Manager" where
  "ForgetDeletedFinalStageDescSet m ds = m\<lparr>finalManaged := DifferenceInPlace (finalManaged m) ds\<rparr>"

definition ForgetCustomTagsByStageID :: "Manager \<Rightarrow> string \<Rightarrow> Manager" where
  "ForgetCustomTagsByStageID m stageID =
     m\<lparr>stageIDCustomTagList := AList.delete stageID (stageIDCustomTagList m)\<rparr>"

section \<open>The protection interface\<close>

text \<open>
  What the cleanup relies on: marking protects exactly the stage marked, the reason of a stage that
  is already protected changes only by force, and neither the lookup by stage ID nor the stages
  themselves change.
\<close>

locale protecting =
  fixes mark :: "'s \<Rightarrow> StageDesc \<Rightarrow> protectionReason \<Rightarrow> bool \<Rightarrow> 's"
    and prot :: "'s \<Rightarrow> StageDesc set"
    and reason :: "'s \<Rightarrow> StageDesc \<Rightarrow> protectionReason option"
    and look :: "'s \<Rightarrow> string \<Rightarrow> StageDesc option"
    and members :: "'s \<Rightarrow> StageDesc list"
    and ok :: "'s \<Rightarrow> bool"
  assumes ok_mark: "ok s \<Longrightarrow> ok (mark s d r f)"
    and prot_mark: "ok s \<Longrightarrow> prot (mark s d r f) = insert d (prot s)"
    and reason_mark: "ok s \<Longrightarrow>
      reason (mark s d r f) d' = (if d' = d \<and> (f \<or> d \<notin> prot s) then Some r else reason s d')"
    and look_mark: "look (mark s d r f) = look s"
    and members_mark: "members (mark s d r f) = members s"
begin

text \<open>The loops that mark the stages of a list that satisfy a condition.\<close>

definition markAll :: "(StageDesc \<Rightarrow> bool) \<Rightarrow> protectionReason \<Rightarrow> StageDesc list \<Rightarrow> 's \<Rightarrow> 's" where
  "markAll P r ds s = foldl (\<lambda>s d. if P d then mark s d r False else s) s ds"

lemma markAll_all:
  "ok s \<Longrightarrow> ok (markAll P r ds s) \<and> prot (markAll P r ds s) = prot s \<union> {d \<in> set ds. P d} \<and>
    look (markAll P r ds s) = look s \<and> members (markAll P r ds s) = members s"
  by (induction ds arbitrary: s) (auto simp: markAll_def ok_mark prot_mark look_mark members_mark)

lemma markAll_reason:
  "ok s \<Longrightarrow> d \<in> prot s \<Longrightarrow> reason (markAll P r ds s) d = reason s d"
proof (induction ds arbitrary: s)
  case Nil
  then show ?case by (simp add: markAll_def)
next
  case (Cons x ds)
  then show ?case
    using Cons.IH [of "mark s x r False"] Cons.IH [of s]
    by (auto simp: markAll_def ok_mark prot_mark reason_mark)
qed

end

section \<open>The managed set keeps the interface\<close>

definition metaOk :: "managedStageDescSet \<Rightarrow> bool" where
  "metaOk s \<longleftrightarrow> is_goMap (stageDescMetaMap s)"

definition protectedSet :: "managedStageDescSet \<Rightarrow> StageDesc set" where
  "protectedSet s = {d. \<exists>meta. map_of (stageDescMetaMap s) d = Some meta \<and> isProtected meta}"

definition reasonOf :: "managedStageDescSet \<Rightarrow> StageDesc \<Rightarrow> protectionReason option" where
  "reasonOf s d = (case map_of (stageDescMetaMap s) d of None \<Rightarrow> None | Some meta \<Rightarrow> protectionReasonOf meta)"

lemma metaOk_new [simp]: "metaOk (newManagedStageDescSet ds)"
  by (simp add: metaOk_def newManagedStageDescSet_def)

lemma protectedSet_new [simp]: "protectedSet (newManagedStageDescSet ds) = {}"
  by (simp add: protectedSet_def newManagedStageDescSet_def)

interpretation ms: protecting MarkStageDescAsProtected protectedSet reasonOf GetStageDescByStageID stageDescSet metaOk
proof
  fix s :: managedStageDescSet and d d' r f
  show "metaOk (MarkStageDescAsProtected s d r f)" if "metaOk s"
    using that by (simp add: metaOk_def MarkStageDescAsProtected_def Let_def)
  show "protectedSet (MarkStageDescAsProtected s d r f) = insert d (protectedSet s)" if "metaOk s"
    by (cases "map_of (stageDescMetaMap s) d") (auto simp: protectedSet_def MarkStageDescAsProtected_def)
  show "reasonOf (MarkStageDescAsProtected s d r f) d' =
      (if d' = d \<and> (f \<or> d \<notin> protectedSet s) then Some r else reasonOf s d')" if "metaOk s"
    by (cases "map_of (stageDescMetaMap s) d")
      (auto simp: protectedSet_def reasonOf_def MarkStageDescAsProtected_def)
  show "GetStageDescByStageID (MarkStageDescAsProtected s d r f) = GetStageDescByStageID s"
    by (auto simp: GetStageDescByStageID_def MarkStageDescAsProtected_def Let_def)
  show "stageDescSet (MarkStageDescAsProtected s d r f) = stageDescSet s"
    by (simp add: MarkStageDescAsProtected_def Let_def)
qed

text \<open>The two sets of the manager.\<close>

interpretation mgr: protecting Manager_MarkStageDescAsProtected "\<lambda>m. protectedSet (managed m)"
  "\<lambda>m. reasonOf (managed m)" "\<lambda>m. GetStageDescByStageID (managed m)" "\<lambda>m. stageDescSet (managed m)"
  "\<lambda>m. metaOk (managed m)"
  by unfold_locales
    (simp_all add: Manager_MarkStageDescAsProtected_def ms.ok_mark ms.prot_mark ms.reason_mark ms.look_mark ms.members_mark)

interpretation fin: protecting MarkFinalStageDescAsProtected "\<lambda>m. protectedSet (finalManaged m)"
  "\<lambda>m. reasonOf (finalManaged m)" "\<lambda>m. GetStageDescByStageID (finalManaged m)" "\<lambda>m. stageDescSet (finalManaged m)"
  "\<lambda>m. metaOk (finalManaged m)"
  by unfold_locales
    (simp_all add: MarkFinalStageDescAsProtected_def ms.ok_mark ms.prot_mark ms.reason_mark ms.look_mark ms.members_mark)

section \<open>The protected stages by reason\<close>

lemma byReason_fold:
  assumes "is_goMap m"
  defines "f \<equiv> \<lambda>m (d, meta). if isProtected meta
              then AList.update (protectionReasonOf meta) (snocNew (sliceAt m (protectionReasonOf meta)) d) m
              else m"
  shows "is_goMap (foldl f m xs) \<and>
    set (sliceAt (foldl f m xs) r) = set (sliceAt m r) \<union> {d. \<exists>meta. (d, meta) \<in> set xs \<and> isProtected meta \<and> protectionReasonOf meta = r}"
  using assms(1)
proof (induction xs arbitrary: m)
  case Nil
  then show ?case by simp
next
  case (Cons x xs)
  obtain d meta where x: "x = (d, meta)" by fastforce
  have "is_goMap (f m x)" using Cons.prems by (simp add: f_def x)
  from Cons.IH [OF this] show ?case by (auto simp: f_def x)
qed

lemma byReason_maps:
  assumes "metaOk s"
  shows "is_goMap (GetProtectedStageDescSetByReason s)"
    and "set (sliceAt (GetProtectedStageDescSetByReason s) r) = {d \<in> protectedSet s. reasonOf s d = r}"
proof -
  note f = byReason_fold [of "[]" "stageDescMetaMap s" r, folded GetProtectedStageDescSetByReason_def]
  show "is_goMap (GetProtectedStageDescSetByReason s)" using f by simp
  show "set (sliceAt (GetProtectedStageDescSetByReason s) r) = {d \<in> protectedSet s. reasonOf s d = r}"
  proof -
    have "(d, meta) \<in> set (stageDescMetaMap s) \<longleftrightarrow> map_of (stageDescMetaMap s) d = Some meta" for d meta
      using map_of_goMap assms by (metis metaOk_def)
    with f show ?thesis by (auto simp: protectedSet_def reasonOf_def)
  qed
qed

lemma set_GetProtectedStageDescSet:
  assumes "metaOk s"
  shows "set (GetProtectedStageDescSet s) = protectedSet s"
proof -
  have u: "set (foldl (\<lambda>acc (r, ds). foldl snocNew acc ds) acc m) = set acc \<union> \<Union> ((\<lambda>x. set (snd x)) ` set m)" for acc m
    by (induction m arbitrary: acc) (auto simp: case_prod_beta)
  let ?m = "GetProtectedStageDescSetByReason s"
  have "\<Union> ((\<lambda>x. set (snd x)) ` set ?m) = (\<Union>r. set (sliceAt ?m r))"
  proof
    show "\<Union> ((\<lambda>x. set (snd x)) ` set ?m) \<subseteq> (\<Union>r. set (sliceAt ?m r))"
      using sliceAt_member [OF byReason_maps(1) [OF assms]] by fastforce
    show "(\<Union>r. set (sliceAt ?m r)) \<subseteq> \<Union> ((\<lambda>x. set (snd x)) ` set ?m)"
    proof
      fix d assume "d \<in> (\<Union>r. set (sliceAt ?m r))"
      then obtain r ds where "map_of ?m r = Some ds" "d \<in> set ds"
        by (auto elim: sliceAtE)
      then show "d \<in> \<Union> ((\<lambda>x. set (snd x)) ` set ?m)" using map_of_SomeD by fastforce
    qed
  qed
  also have "\<dots> = protectedSet s" using byReason_maps(2) [OF assms] by auto
  finally show ?thesis by (simp add: GetProtectedStageDescSet_def u)
qed

end
