(* ===== verification/Storage.thy ===== *)
theory Storage
  imports StageManager Parallel Scanner
begin

text \<open>
  What the cleanup does to the outside: the calls of the stages storage that change it, the bulk
  operations of \<^verbatim>\<open>pkg/storage/manager/storage_manager.go\<close> over them, and the report of
  \<^verbatim>\<open>pkg/cleanup_report/cleanup_report.go\<close>. The Go code reaches the registry through the interfaces
  \<^verbatim>\<open>StagesStorage\<close> and \<^verbatim>\<open>PrimaryStagesStorage\<close>: the model has each such call as a \<open>storageOp\<close>, keeps the
  calls issued so far in order (\<open>ops\<close>), and takes the answers as an argument (\<open>storageEnv\<close>), where every
  answer may depend on all the calls issued before it. An error is its text, since the code
  classifies errors by their text. A failed operation carries the world at the failure, so what was
  done before a failure is part of every theorem.
\<close>

section \<open>Report\<close>

datatype ItemType = ItemTypeStage | ItemTypeFinalStage | ItemTypeCustomTag | ItemTypeRejectedStage
  | ItemTypeRejectedStageMarker | ItemTypeImageMetadata | ItemTypeManagedImage

record Item =
  itType :: ItemType
  itTag :: string
  itReason :: string
  itImageName :: string
  itStageID :: string
  itCommit :: string
  itID :: string

record Report =
  Command :: string
  RepDryRun :: bool
  Repo :: string
  FinalRepo :: string
  MetaRepo :: string
  Kept :: "Item list"
  Deleted :: "Item list"

definition NewReport :: "string \<Rightarrow> bool \<Rightarrow> string \<Rightarrow> string \<Rightarrow> string \<Rightarrow> Report" where
  "NewReport command dryRun repo finalRepo metaRepo =
     \<lparr>Command = command, RepDryRun = dryRun, Repo = repo, FinalRepo = finalRepo, MetaRepo = metaRepo,
      Kept = [], Deleted = []\<rparr>"

text \<open>A nil report (\<open>None\<close>) records nothing.\<close>

definition AddKept :: "Report option \<Rightarrow> Item \<Rightarrow> Report option" where
  "AddKept r it = map_option (\<lambda>r. r\<lparr>Kept := Kept r @ [it]\<rparr>) r"

definition AddDeleted :: "Report option \<Rightarrow> Item \<Rightarrow> Report option" where
  "AddDeleted r it = map_option (\<lambda>r. r\<lparr>Deleted := Deleted r @ [it]\<rparr>) r"

definition tagItem :: "ItemType \<Rightarrow> string \<Rightarrow> Item" where
  "tagItem t tag = \<lparr>itType = t, itTag = tag, itReason = [], itImageName = [], itStageID = [], itCommit = [], itID = []\<rparr>"

section \<open>Calls and answers\<close>

datatype storageOp =
    DeleteStage StageDesc
  | DeleteCacheStage nat StageDesc
  | DeleteFinalStage StageDesc
  | DeleteRejectedStageImage StageID
  | DeleteRejectedStageRecord StageID
  | DeleteStageCustomTag string
  | UnregisterStageCustomTag string
  | RmImageMetadata string string string
  | RmManagedImage string
  | DeleteArtifact bool string
  | PostLastCleanupRecord
  | RmMetaRepoMarker

record world =
  ops :: "storageOp list"
  report :: "Report option"

datatype customTagAnswer = CustomTag string string | CustomTagNotFoundOrBroken | CustomTagError string

record storageEnv =
  outcome :: "storageOp list \<Rightarrow> storageOp \<Rightarrow> string option"
  MaxNumberOfWorkers :: int
  cacheStorages :: nat
  localFilter :: "(StageDesc list \<Rightarrow> string + StageDesc list) option"
  GetStageDescSetWithCache :: "storageOp list \<Rightarrow> string + StageDesc list"
  GetFinalStageDescSetOf :: "(storageOp list \<Rightarrow> string + StageDesc list) option"
  GetManagedImages :: "storageOp list \<Rightarrow> string + string list"
  GetAllAndGroupImageMetadata :: "storageOp list \<Rightarrow> string list \<Rightarrow> string + (metadataByImage \<times> metadataByImage)"
  GetStageCustomTagMetadataIDs :: "storageOp list \<Rightarrow> string + string list"
  GetStageCustomTagMetadata :: "storageOp list \<Rightarrow> string \<Rightarrow> customTagAnswer"
  GetRejectedStageIDsOf :: "storageOp list \<Rightarrow> string + StageID list"
  GetOrphanedArtifactNames :: "storageOp list \<Rightarrow> bool \<Rightarrow> string + string list"
  GetMetaRepoMarker :: "(storageOp list \<Rightarrow> string + bool) option"
  Address :: string
  FinalAddress :: string

datatype cleanupError =
    ReadFailed string
  | DockerHubCredentials string
  | GitHubCredentials string
  | DeletionFailed string
  | OperationFailed string
  | KubernetesAccessRequired
  | GitReferencesFailed gitError
  | GitScanFailed scanError
  | Panicked string

type_synonym 's result = "(cleanupError \<times> 's) + 's"

text \<open>The state a result carries, whether the operation failed or not.\<close>

definition stateOf :: "('e \<times> 's) + 's \<Rightarrow> 's" where
  "stateOf r = (case r of Inl (e, s) \<Rightarrow> s | Inr s \<Rightarrow> s)"

definition issue :: "storageEnv \<Rightarrow> storageOp \<Rightarrow> world \<Rightarrow> world \<times> string option" where
  "issue env op w = (w\<lparr>ops := ops w @ [op]\<rparr>, outcome env (ops w) op)"

definition reportKept :: "Item \<Rightarrow> world \<Rightarrow> world" where
  "reportKept it w = w\<lparr>report := AddKept (report w) it\<rparr>"

definition reportDeleted :: "Item \<Rightarrow> world \<Rightarrow> world" where
  "reportDeleted it w = w\<lparr>report := AddDeleted (report w) it\<rparr>"

section \<open>Deletion errors\<close>

definition IsDockerHubUnauthorizedError :: "string \<Rightarrow> bool" where
  "IsDockerHubUnauthorizedError err \<longleftrightarrow> Contains err ''docker hub unauthorized: ''"

definition IsGitHubPackagesUnauthorizedError :: "string \<Rightarrow> bool" where
  "IsGitHubPackagesUnauthorizedError err \<longleftrightarrow> Contains err ''gitHub packages unauthorized: ''"

definition IsGitHubPackagesForbiddenError :: "string \<Rightarrow> bool" where
  "IsGitHubPackagesForbiddenError err \<longleftrightarrow> Contains err ''gitHub packages forbidden: ''"

definition IsImageDeletionFailedDueToUsingByContainerErr :: "string \<Rightarrow> bool" where
  "IsImageDeletionFailedDueToUsingByContainerErr err \<longleftrightarrow>
     HasSuffix err ''Use --force option to remove all containers that are based on deleting werf docker images''"

text \<open>\<open>None\<close>: the failure is only logged.\<close>

definition handleDeletionError :: "string \<Rightarrow> cleanupError option" where
  "handleDeletionError err =
     (if IsDockerHubUnauthorizedError err then Some (DockerHubCredentials err)
      else if IsGitHubPackagesUnauthorizedError err \<or> IsGitHubPackagesForbiddenError err
      then Some (GitHubCredentials err)
      else if IsImageDeletionFailedDueToUsingByContainerErr err then Some (DeletionFailed err)
      else if Contains err ''UNAUTHORIZED'' \<or> Contains err ''UNSUPPORTED'' then Some (DeletionFailed err)
      else None)"

section \<open>Bulk operations\<close>

definition ForEachDeleteFinalStage ::
  "storageEnv \<Rightarrow> StageDesc list \<Rightarrow> (world \<Rightarrow> StageDesc \<Rightarrow> string option \<Rightarrow> world result) \<Rightarrow> world \<Rightarrow> world result" where
  "ForEachDeleteFinalStage env ds f w =
     DoTasks (length ds) (MaxNumberOfWorkers env)
       (\<lambda>w i. let (w', err) = issue env (DeleteFinalStage (ds ! i)) w in f w' (ds ! i) err) w"

definition ForEachDeleteStage ::
  "storageEnv \<Rightarrow> StageDesc list \<Rightarrow> (world \<Rightarrow> StageDesc \<Rightarrow> string option \<Rightarrow> world result) \<Rightarrow> world \<Rightarrow> world result" where
  "ForEachDeleteStage env ds f w =
     (case (case localFilter env of None \<Rightarrow> Inr ds | Some flt \<Rightarrow> flt ds) of
        Inl e \<Rightarrow> Inl (OperationFailed e, w)
      | Inr ds \<Rightarrow>
          DoTasks (length ds) (MaxNumberOfWorkers env)
            (\<lambda>w i. let w1 = foldl (\<lambda>w c. fst (issue env (DeleteCacheStage c (ds ! i)) w)) w [0..<cacheStorages env];
                       (w2, err) = issue env (DeleteStage (ds ! i)) w1
                   in f w2 (ds ! i) err) w)"

definition ForEachRmImageMetadata ::
  "storageEnv \<Rightarrow> string \<Rightarrow> (string, string list) goMap \<Rightarrow>
     (world \<Rightarrow> string \<Rightarrow> string \<Rightarrow> string option \<Rightarrow> world result) \<Rightarrow> world \<Rightarrow> world result" where
  "ForEachRmImageMetadata env imageNameOrID stageIDCommitList f w =
     (let tasks = concat (map (\<lambda>(stageID, commitList). map (\<lambda>commit. (commit, stageID)) commitList) stageIDCommitList)
      in DoTasks (length tasks) (MaxNumberOfWorkers env)
           (\<lambda>w i. let (commit, stageID) = tasks ! i;
                      (w', err) = issue env (RmImageMetadata imageNameOrID commit stageID) w
                  in f w' commit stageID err) w)"

definition ForEachRmManagedImage ::
  "storageEnv \<Rightarrow> string list \<Rightarrow> (world \<Rightarrow> string \<Rightarrow> string option \<Rightarrow> world result) \<Rightarrow> world \<Rightarrow> world result" where
  "ForEachRmManagedImage env managedImages f w =
     DoTasks (length managedImages) (MaxNumberOfWorkers env)
       (\<lambda>w i. let (w', err) = issue env (RmManagedImage (managedImages ! i)) w in f w' (managedImages ! i) err) w"

definition ForEachRejectedStage ::
  "storageEnv \<Rightarrow> StageID list \<Rightarrow> ('s \<Rightarrow> StageID \<Rightarrow> 's result) \<Rightarrow> 's \<Rightarrow> 's result" where
  "ForEachRejectedStage env stageIDs f s =
     DoTasks (length stageIDs) (MaxNumberOfWorkers env) (\<lambda>s i. f s (stageIDs ! i)) s"

definition ForEachDeleteStageCustomTag ::
  "storageEnv \<Rightarrow> string list \<Rightarrow> (world \<Rightarrow> string \<Rightarrow> string option \<Rightarrow> world result) \<Rightarrow> world \<Rightarrow> world result" where
  "ForEachDeleteStageCustomTag env ids f w =
     DoTasks (length ids) (MaxNumberOfWorkers env)
       (\<lambda>w i. let tag = ids ! i; (w1, err) = issue env (DeleteStageCustomTag tag) w
              in case err of
                   Some e \<Rightarrow> f w1 tag (Some (''unable to delete stage custom tag: '' @ e))
                 | None \<Rightarrow>
                     (let (w2, err2) = issue env (UnregisterStageCustomTag tag) w1
                      in case err2 of
                           Some e \<Rightarrow> f w2 tag (Some (''unable to unregister stage custom tag: '' @ e))
                         | None \<Rightarrow> f w2 tag None)) w"

text \<open>
  \<^verbatim>\<open>GetCustomTagsMetadata\<close> of the stage manager over \<^verbatim>\<open>ForEachGetStageCustomTagMetadata\<close>: invalid metadata
  is skipped, another error ends the reading.
\<close>

definition ForEachGetStageCustomTagMetadata ::
  "storageEnv \<Rightarrow> storageOp list \<Rightarrow> string list \<Rightarrow> ('s \<Rightarrow> string \<Rightarrow> customTagAnswer \<Rightarrow> 'e + 's) \<Rightarrow> 's \<Rightarrow> 'e + 's" where
  "ForEachGetStageCustomTagMetadata env os ids f s =
     DoTasks (length ids) (MaxNumberOfWorkers env)
       (\<lambda>s i. f s (ids ! i) (GetStageCustomTagMetadata env os (ids ! i))) s"

definition GetCustomTagsMetadata :: "storageEnv \<Rightarrow> storageOp list \<Rightarrow> cleanupError + (string, string list) goMap" where
  "GetCustomTagsMetadata env os =
     (case GetStageCustomTagMetadataIDs env os of
        Inl e \<Rightarrow> Inl (ReadFailed e)
      | Inr ids \<Rightarrow> ForEachGetStageCustomTagMetadata env os ids
          (\<lambda>m metadataID answer. case answer of
               CustomTagNotFoundOrBroken \<Rightarrow> Inr m
             | CustomTagError e \<Rightarrow> Inl (ReadFailed e)
             | CustomTag stageID tag \<Rightarrow> Inr (appendAt m stageID [tag])) [])"

section \<open>Reasoning about results\<close>

lemma stateOf_simps [simp]: "stateOf (Inl (e, s)) = s" "stateOf (Inr s) = s"
  by (simp_all add: stateOf_def)

text \<open>An invariant of the state that every step keeps, also when it fails, holds at the end.\<close>

lemma foldR_state:
  assumes "P s" and "\<And>s x. x \<in> set xs \<Longrightarrow> P s \<Longrightarrow> P (stateOf (f s x))"
  shows "P (stateOf (foldR f s xs))"
  using assms
proof (induction xs arbitrary: s)
  case Nil
  then show ?case by simp
next
  case (Cons x xs)
  have px: "P (stateOf (f s x))" using Cons.prems by simp
  show ?case
  proof (cases "f s x")
    case (Inl e)
    with px show ?thesis by simp
  next
    case (Inr t)
    with px Cons.IH [of t] Cons.prems(2) show ?thesis by simp
  qed
qed

lemma bindR_state:
  assumes "P (stateOf r)" and "\<And>s. r = Inr s \<Longrightarrow> P s \<Longrightarrow> P (stateOf (f s))"
  shows "P (stateOf (bindR r f))"
  using assms by (cases r) auto

lemma issue_ops [simp]: "ops (fst (issue env op w)) = ops w @ [op]" "snd (issue env op w) = outcome env (ops w) op"
  by (simp_all add: issue_def)

lemma issue_report [simp]: "report (fst (issue env op w)) = report w"
  by (simp add: issue_def)

lemma report_ops [simp]: "ops (reportKept it w) = ops w" "ops (reportDeleted it w) = ops w"
  by (simp_all add: reportKept_def reportDeleted_def)

end
