(* ===== verification/Deletions.thy ===== *)
theory Deletions
  imports Storage "HOL-Library.Sublist"
begin

text \<open>
  The deletion steps that cleanup and purge share: \<^verbatim>\<open>deleteStageDescSet\<close>, \<^verbatim>\<open>deleteManagedImages\<close>,
  \<^verbatim>\<open>deleteImageMetadata\<close>, \<^verbatim>\<open>deleteRejectedStagesWithLinkedTags\<close> and \<^verbatim>\<open>deleteOrphanedArtifacts\<close> of
  \<^verbatim>\<open>pkg/cleaning/cleanup.go\<close> and \<^verbatim>\<open>deleteCustomTags\<close> of \<^verbatim>\<open>pkg/cleaning/purge.go\<close>. Each of them has a dry
  run that only reports. The bulk deletions run their tasks one after the other; for rejected stages, where the order of the calls
  matters, there is a step relation for all interleavings as well.
\<close>

section \<open>Stages\<close>

text \<open>The callback of the bulk deletions: report a success, stop at a fatal error, log any other.\<close>

definition onDelete :: "Item \<Rightarrow> world \<Rightarrow> string option \<Rightarrow> world result" where
  "onDelete it w err =
     (case err of
        None \<Rightarrow> Inr (reportDeleted it w)
      | Some e \<Rightarrow> (case handleDeletionError e of Some fatal \<Rightarrow> Inl (fatal, w) | None \<Rightarrow> Inr w))"

definition deleteStageDescSet :: "storageEnv \<Rightarrow> bool \<Rightarrow> StageDesc list \<Rightarrow> bool \<Rightarrow> world \<Rightarrow> world result" where
  "deleteStageDescSet env dryRun ds isFinal w =
     (let stageItemType = (if isFinal then ItemTypeFinalStage else ItemTypeStage);
          item = (\<lambda>d. tagItem stageItemType (Tag (sdInfo d)))
      in if dryRun then Inr (foldl (\<lambda>w d. reportDeleted (item d) w) w ds)
         else if isFinal then ForEachDeleteFinalStage env ds (\<lambda>w d err. onDelete (item d) w err) w
         else ForEachDeleteStage env ds (\<lambda>w d err. onDelete (item d) w err) w)"

section \<open>Managed images and image metadata\<close>

definition managedImageItem :: "string \<Rightarrow> Item" where
  "managedImageItem managedImage = (tagItem ItemTypeManagedImage [])\<lparr>itImageName := managedImage\<rparr>"

definition deleteManagedImages :: "storageEnv \<Rightarrow> string list \<Rightarrow> bool \<Rightarrow> world \<Rightarrow> world result" where
  "deleteManagedImages env managedImages dryRun w =
     (if dryRun then Inr (foldl (\<lambda>w i. reportDeleted (managedImageItem i) w) w managedImages)
      else ForEachRmManagedImage env managedImages (\<lambda>w i err. onDelete (managedImageItem i) w err) w)"

definition purgeManagedImages :: "storageEnv \<Rightarrow> bool \<Rightarrow> world \<Rightarrow> world result" where
  "purgeManagedImages env dryRun w =
     (case GetManagedImages env (ops w) of
        Inl e \<Rightarrow> Inl (ReadFailed e, w)
      | Inr managedImages \<Rightarrow> deleteManagedImages env managedImages dryRun w)"

definition metadataItem :: "string \<Rightarrow> bool \<Rightarrow> string \<Rightarrow> string \<Rightarrow> Item" where
  "metadataItem imageNameOrID isMetadataID stageID commit =
     \<lparr>itType = ItemTypeImageMetadata, itTag = [], itReason = [],
      itImageName = (if isMetadataID then [] else imageNameOrID), itStageID = stageID, itCommit = commit,
      itID = (if isMetadataID then imageNameOrID else [])\<rparr>"

definition deleteImageMetadata ::
  "storageEnv \<Rightarrow> string \<Rightarrow> (string, string list) goMap \<Rightarrow> bool \<Rightarrow> bool \<Rightarrow> world \<Rightarrow> world result" where
  "deleteImageMetadata env imageNameOrID stageIDCommitList dryRun isMetadataID w =
     (if dryRun then
        Inr (foldl (\<lambda>w (stageID, commitList). if commitList = [] then w
               else foldl (\<lambda>w commit. reportDeleted (metadataItem imageNameOrID isMetadataID stageID commit) w) w commitList)
             w stageIDCommitList)
      else ForEachRmImageMetadata env imageNameOrID stageIDCommitList
             (\<lambda>w commit stageID err. onDelete (metadataItem imageNameOrID isMetadataID stageID commit) w err) w)"

definition purgeImageMetadata :: "storageEnv \<Rightarrow> bool \<Rightarrow> world \<Rightarrow> world result" where
  "purgeImageMetadata env dryRun w =
     (case GetAllAndGroupImageMetadata env (ops w) [] of
        Inl e \<Rightarrow> Inl (ReadFailed e, w)
      | Inr (_, imageMetadataByImageName) \<Rightarrow>
          foldR (\<lambda>w (imageNameID, stageIDCommitList). deleteImageMetadata env imageNameID stageIDCommitList dryRun True w)
            w imageMetadataByImageName)"

section \<open>Custom tags\<close>

text \<open>A failure that is not fatal is not even logged as such.\<close>

definition deleteCustomTags :: "storageEnv \<Rightarrow> string list \<Rightarrow> bool \<Rightarrow> world \<Rightarrow> world result" where
  "deleteCustomTags env customTagList dryRun w =
     (if dryRun then Inr (foldl (\<lambda>w t. reportDeleted (tagItem ItemTypeCustomTag t) w) w customTagList)
      else ForEachDeleteStageCustomTag env customTagList (\<lambda>w t err. onDelete (tagItem ItemTypeCustomTag t) w err) w)"

section \<open>Rejected stages\<close>

text \<open>
  The linked custom tags of one rejected stage. \<open>Inr (w, False)\<close> is the early return that keeps
  the marker for the next cleanup.
\<close>

fun deleteLinkedTags ::
  "storageEnv \<Rightarrow> string list \<Rightarrow> world \<Rightarrow> (cleanupError \<times> world) + (world \<times> bool)" where
  "deleteLinkedTags env [] w = Inr (w, True)"
| "deleteLinkedTags env (customTag # rest) w =
     (let (w1, err) = issue env (DeleteStageCustomTag customTag) w
      in case err of
           Some e \<Rightarrow> (case handleDeletionError e of Some fatal \<Rightarrow> Inl (fatal, w1) | None \<Rightarrow> Inr (w1, False))
         | None \<Rightarrow>
             (let (w2, err2) = issue env (UnregisterStageCustomTag customTag) w1
              in case err2 of
                   Some e \<Rightarrow> (case handleDeletionError e of Some fatal \<Rightarrow> Inl (fatal, w2) | None \<Rightarrow> Inr (w2, False))
                 | None \<Rightarrow> deleteLinkedTags env rest (reportDeleted (tagItem ItemTypeCustomTag customTag) w2)))"

definition rejectedMarkerItem :: "StageID \<Rightarrow> Item" where
  "rejectedMarkerItem stageID = tagItem ItemTypeRejectedStageMarker (StageID_String stageID @ ''-rejected'')"

text \<open>One rejected stage: image, linked custom tags, marker. The state carries the deleted stage IDs.\<close>

definition deleteRejectedStage ::
  "storageEnv \<Rightarrow> (string, string list) goMap \<Rightarrow> world \<times> string list \<Rightarrow> StageID \<Rightarrow> (world \<times> string list) result" where
  "deleteRejectedStage env customTagsByStageID st stageID =
     (case st of (w, deleted) \<Rightarrow>
      let stageIDStr = StageID_String stageID;
          (w1, err) = issue env (DeleteRejectedStageImage stageID) w
      in case err of
           Some e \<Rightarrow> (case handleDeletionError e of
               Some fatal \<Rightarrow> Inl (fatal, (w1, deleted)) | None \<Rightarrow> Inr (w1, deleted))
         | None \<Rightarrow>
             (case deleteLinkedTags env (sliceAt customTagsByStageID stageIDStr)
                     (reportDeleted (tagItem ItemTypeRejectedStage stageIDStr) w1) of
                Inl (e, w2) \<Rightarrow> Inl (e, (w2, deleted))
              | Inr (w2, False) \<Rightarrow> Inr (w2, deleted)
              | Inr (w2, True) \<Rightarrow>
                  (let (w3, err3) = issue env (DeleteRejectedStageRecord stageID) w2
                   in case err3 of
                        Some e \<Rightarrow> (case handleDeletionError e of
                            Some fatal \<Rightarrow> Inl (fatal, (w3, deleted)) | None \<Rightarrow> Inr (w3, deleted))
                      | None \<Rightarrow> Inr (reportDeleted (rejectedMarkerItem stageID) w3, deleted @ [stageIDStr]))))"

definition deleteRejectedStagesWithLinkedTags ::
  "storageEnv \<Rightarrow> (string, string list) goMap \<Rightarrow> bool \<Rightarrow> world \<Rightarrow> (world \<times> string list) result" where
  "deleteRejectedStagesWithLinkedTags env customTagsByStageID dryRun w =
     (case GetRejectedStageIDsOf env (ops w) of
        Inl e \<Rightarrow> Inl (ReadFailed e, (w, []))
      | Inr rejectedStageIDs \<Rightarrow>
          if rejectedStageIDs = [] then Inr (w, [])
          else if dryRun then
            Inr (foldl (\<lambda>(w, deleted) stageID.
                let stageIDStr = StageID_String stageID;
                    w1 = reportDeleted (tagItem ItemTypeRejectedStage stageIDStr) w;
                    w2 = foldl (\<lambda>w t. reportDeleted (tagItem ItemTypeCustomTag t) w) w1 (sliceAt customTagsByStageID stageIDStr)
                in (reportDeleted (rejectedMarkerItem stageID) w2, deleted @ [stageIDStr])) (w, []) rejectedStageIDs)
          else ForEachRejectedStage env rejectedStageIDs (deleteRejectedStage env customTagsByStageID) (w, []))"

section \<open>Orphaned artifacts\<close>

definition deleteOrphanedArtifacts :: "storageEnv \<Rightarrow> bool \<Rightarrow> bool \<Rightarrow> world \<Rightarrow> world result" where
  "deleteOrphanedArtifacts env isFinal dryRun w =
     (case GetOrphanedArtifactNames env (ops w) isFinal of
        Inl e \<Rightarrow> Inl (ReadFailed e, w)
      | Inr orphanedNames \<Rightarrow>
          foldR (\<lambda>w name. if dryRun then Inr w
             else (let (w1, err) = issue env (DeleteArtifact isFinal name) w
                   in case err of
                        Some e \<Rightarrow> (case handleDeletionError e of Some fatal \<Rightarrow> Inl (fatal, w1) | None \<Rightarrow> Inr w1)
                      | None \<Rightarrow> Inr w1)) w orphanedNames)"

definition cleanupOrphanedArtifacts :: "storageEnv \<Rightarrow> bool \<Rightarrow> world \<Rightarrow> world result" where
  "cleanupOrphanedArtifacts env dryRun w =
     bindR (deleteOrphanedArtifacts env False dryRun w) (\<lambda>w.
       if GetFinalStageDescSetOf env \<noteq> None then deleteOrphanedArtifacts env True dryRun w else Inr w)"

section \<open>Footprints\<close>

text \<open>The calls issued between two worlds, all of them allowed by \<open>P\<close>.\<close>

definition extends :: "(storageOp \<Rightarrow> bool) \<Rightarrow> world \<Rightarrow> world \<Rightarrow> bool" where
  "extends P w w' \<longleftrightarrow> (\<exists>os. ops w' = ops w @ os \<and> list_all P os)"

lemma extends_refl [simp]: "extends P w w"
  by (simp add: extends_def)

lemma extends_trans: "extends P w w' \<Longrightarrow> extends P w' w'' \<Longrightarrow> extends P w w''"
  by (auto simp: extends_def)

lemma extends_mono: "extends P w w' \<Longrightarrow> (\<And>op. P op \<Longrightarrow> Q op) \<Longrightarrow> extends Q w w'"
  by (auto simp: extends_def list_all_iff)

lemma extends_issue [simp]: "P op \<Longrightarrow> extends P w (fst (issue env op w))"
  by (simp add: extends_def issue_def)

lemma extends_report [simp]:
  "extends P w (reportDeleted it w') = extends P w w'" "extends P w (reportKept it w') = extends P w w'"
  by (simp_all add: extends_def)

lemma extends_none: "extends (\<lambda>op. False) w w' \<longleftrightarrow> ops w' = ops w"
  by (auto simp: extends_def list_all_iff)

lemma extends_member: "extends P w w' \<Longrightarrow> op \<in> set (ops w') \<Longrightarrow> op \<in> set (ops w) \<or> P op"
  by (auto simp: extends_def list_all_iff)

lemma extends_foldl:
  assumes "\<And>w x. x \<in> set xs \<Longrightarrow> extends P w (f w x)"
  shows "extends P w (foldl f w xs)"
  using assms by (induction xs arbitrary: w) (auto intro: extends_trans)

lemma extends_reports [simp]: "extends P w (foldl (\<lambda>w x. reportDeleted (g x) w) w xs)"
  by (rule extends_foldl) simp

lemma extends_foldR:
  assumes "\<And>w x. x \<in> set xs \<Longrightarrow> extends P (proj w) (proj (stateOf (f w x)))"
  shows "extends P (proj w) (proj (stateOf (foldR f w xs)))"
  by (rule foldR_state [where P = "\<lambda>w'. extends P (proj w) (proj w')"])
    (auto intro: extends_trans assms)

lemma extends_bindR:
  assumes "extends P w (stateOf r)" and "\<And>w'. r = Inr w' \<Longrightarrow> extends P w' (stateOf (f w'))"
  shows "extends P w (stateOf (bindR r f))"
  using assms by (cases r) (auto intro: extends_trans)

lemma extends_onDelete [simp]: "extends P w (stateOf (onDelete it w err))"
  by (auto simp: onDelete_def split: option.splits)

text \<open>A call with its callback.\<close>

lemma extends_step:
  "P op \<Longrightarrow> extends P w (stateOf (case issue env op w of (w', err) \<Rightarrow> onDelete it w' err))"
  using extends_trans [OF extends_issue extends_onDelete] by (simp add: case_prod_beta)

lemma extends_issue_case:
  assumes "P op" and "\<And>w' err. extends P w' (proj (stateOf (k w' err)))"
  shows "extends P w (proj (stateOf (case issue env op w of (w', err) \<Rightarrow> k w' err)))"
proof -
  have "extends P w (fst (issue env op w))" using assms(1) by simp
  then show ?thesis using assms(2) extends_trans by (simp add: case_prod_beta)
qed

definition filterOk :: "storageEnv \<Rightarrow> bool" where
  "filterOk env \<longleftrightarrow> (\<forall>flt ds ds'. localFilter env = Some flt \<longrightarrow> flt ds = Inr ds' \<longrightarrow> set ds' \<subseteq> set ds)"

definition stageOps :: "bool \<Rightarrow> StageDesc set \<Rightarrow> storageOp \<Rightarrow> bool" where
  "stageOps isFinal ds op \<longleftrightarrow>
     (case op of DeleteStage d \<Rightarrow> \<not> isFinal \<and> d \<in> ds | DeleteCacheStage c d \<Rightarrow> \<not> isFinal \<and> d \<in> ds
      | DeleteFinalStage d \<Rightarrow> isFinal \<and> d \<in> ds | _ \<Rightarrow> False)"

lemma ForEachDeleteStage_loop:
  "ForEachDeleteStage env ds f w =
     (case (case localFilter env of None \<Rightarrow> Inr ds | Some flt \<Rightarrow> flt ds) of
        Inl e \<Rightarrow> Inl (OperationFailed e, w)
      | Inr ds \<Rightarrow> foldR (\<lambda>w d. case issue env (DeleteStage d)
            (foldl (\<lambda>w c. fst (issue env (DeleteCacheStage c d) w)) w [0..<cacheStorages env]) of (w2, err) \<Rightarrow> f w2 d err) w ds)"
  unfolding ForEachDeleteStage_def Let_def
  by (subst DoTasks_list [where f = "\<lambda>w d. case issue env (DeleteStage d)
            (foldl (\<lambda>w c. fst (issue env (DeleteCacheStage c d) w)) w [0..<cacheStorages env]) of (w2, err) \<Rightarrow> f w2 d err"]) (rule refl)

lemma deleteStageDescSet_footprint:
  assumes "dryRun \<or> filterOk env"
  shows "extends (\<lambda>op. \<not> dryRun \<and> stageOps isFinal (set ds) op) w (stateOf (deleteStageDescSet env dryRun ds isFinal w))"
proof -
  have dry: ?thesis if dryRun
    using that by (simp add: deleteStageDescSet_def Let_def)
  have fin: ?thesis if "\<not> dryRun" isFinal
  proof -
    have "extends (\<lambda>op. \<not> dryRun \<and> stageOps isFinal (set ds) op) w (stateOf (foldR (\<lambda>w d. case issue env (DeleteFinalStage d) w of
        (w', err) \<Rightarrow> onDelete (tagItem ItemTypeFinalStage (Tag (sdInfo d))) w' err) w ds))"
      by (rule extends_foldR [where proj = "\<lambda>w. w"]) (rule extends_step, use that in \<open>simp add: stageOps_def\<close>)
    then show ?thesis
      using that by (simp add: deleteStageDescSet_def ForEachDeleteFinalStage_def Let_def DoTasks_list
          [where f = "\<lambda>w d. case issue env (DeleteFinalStage d) w of
            (w', err) \<Rightarrow> onDelete (tagItem ItemTypeFinalStage (Tag (sdInfo d))) w' err"])
  qed
  have stage: ?thesis if "\<not> dryRun" "\<not> isFinal"
  proof -
    let ?P = "\<lambda>op. \<not> dryRun \<and> stageOps isFinal (set ds) op"
    have step: "extends ?P w (stateOf (case issue env (DeleteStage d)
        (foldl (\<lambda>w c. fst (issue env (DeleteCacheStage c d) w)) w [0..<cacheStorages env]) of
          (w2, err) \<Rightarrow> onDelete it w2 err))" if "d \<in> set ds" for w d it
      by (rule extends_trans [OF extends_foldl extends_step])
        (use that \<open>\<not> dryRun\<close> \<open>\<not> isFinal\<close> in \<open>simp_all add: stageOps_def\<close>)
    show ?thesis
    proof (cases "case localFilter env of None \<Rightarrow> Inr ds | Some flt \<Rightarrow> flt ds")
      case (Inl e)
      with that show ?thesis by (simp add: deleteStageDescSet_def ForEachDeleteStage_loop Let_def)
    next
      case (Inr ds')
      then have "set ds' \<subseteq> set ds" using assms that(1) by (auto simp: filterOk_def split: option.splits)
      then have "extends ?P w (stateOf (foldR (\<lambda>w d. case issue env (DeleteStage d)
          (foldl (\<lambda>w c. fst (issue env (DeleteCacheStage c d) w)) w [0..<cacheStorages env]) of
            (w2, err) \<Rightarrow> onDelete (tagItem ItemTypeStage (Tag (sdInfo d))) w2 err) w ds'))"
        by (intro extends_foldR [where proj = "\<lambda>w. w"] step) auto
      with Inr that show ?thesis by (simp add: deleteStageDescSet_def ForEachDeleteStage_loop Let_def)
    qed
  qed
  show ?thesis using dry fin stage by blast
qed

lemma deleteManagedImages_footprint:
  "extends (\<lambda>op. \<not> dryRun \<and> (\<exists>i \<in> set images. op = RmManagedImage i)) w (stateOf (deleteManagedImages env images dryRun w))"
proof (cases dryRun)
  case True
  then show ?thesis by (simp add: deleteManagedImages_def)
next
  case False
  have "deleteManagedImages env images dryRun w =
      foldR (\<lambda>w i. case issue env (RmManagedImage i) w of (w', err) \<Rightarrow> onDelete (managedImageItem i) w' err) w images"
    using False unfolding deleteManagedImages_def ForEachRmManagedImage_def Let_def
    by (simp add: DoTasks_list [where f = "\<lambda>w i. case issue env (RmManagedImage i) w of (w', err) \<Rightarrow> onDelete (managedImageItem i) w' err"])
  moreover have "extends (\<lambda>op. \<not> dryRun \<and> (\<exists>i \<in> set images. op = RmManagedImage i)) w (stateOf
      (foldR (\<lambda>w i. case issue env (RmManagedImage i) w of (w', err) \<Rightarrow> onDelete (managedImageItem i) w' err) w images))"
    by (rule extends_foldR [where proj = "\<lambda>w. w"]) (rule extends_step, use False in simp)
  ultimately show ?thesis by simp
qed

lemma purgeManagedImages_footprint:
  "extends (\<lambda>op. \<not> dryRun \<and> (\<exists>i. op = RmManagedImage i)) w (stateOf (purgeManagedImages env dryRun w))"
  by (cases "GetManagedImages env (ops w)")
    (auto simp: purgeManagedImages_def intro: extends_mono [OF deleteManagedImages_footprint])

lemma metadata_tasks:
  "ForEachRmImageMetadata env img m f w =
     foldR (\<lambda>w (commit, stageID). case issue env (RmImageMetadata img commit stageID) w of (w', err) \<Rightarrow> f w' commit stageID err) w
       (concat (map (\<lambda>(stageID, commitList). map (\<lambda>commit. (commit, stageID)) commitList) m))"
  unfolding ForEachRmImageMetadata_def Let_def
  by (subst DoTasks_list [where f = "\<lambda>w (commit, stageID). case issue env (RmImageMetadata img commit stageID) w of
      (w', err) \<Rightarrow> f w' commit stageID err"]) (rule refl)

definition metadataOps :: "string \<Rightarrow> (string, string list) goMap \<Rightarrow> storageOp \<Rightarrow> bool" where
  "metadataOps img m op \<longleftrightarrow> (\<exists>(stageID, commitList) \<in> set m. \<exists>commit \<in> set commitList. op = RmImageMetadata img commit stageID)"

lemma deleteImageMetadata_footprint:
  "extends (\<lambda>op. \<not> dryRun \<and> metadataOps img m op) w (stateOf (deleteImageMetadata env img m dryRun isID w))"
proof (cases dryRun)
  case True
  then show ?thesis
    by (auto simp: deleteImageMetadata_def split: prod.splits intro!: extends_foldl)
next
  case False
  let ?tasks = "concat (map (\<lambda>(stageID, commitList). map (\<lambda>commit. (commit, stageID)) commitList) m)"
  have "extends (\<lambda>op. \<not> dryRun \<and> metadataOps img m op) w (stateOf (foldR (\<lambda>w (commit, stageID).
      case issue env (RmImageMetadata img commit stageID) w of
        (w', err) \<Rightarrow> onDelete (metadataItem img isID stageID commit) w' err) w ?tasks))"
  proof (rule extends_foldR [where proj = "\<lambda>w. w"])
    fix w x assume "x \<in> set ?tasks"
    then obtain commit stageID commitList where "x = (commit, stageID)" "(stageID, commitList) \<in> set m" "commit \<in> set commitList"
      by auto
    then show "extends (\<lambda>op. \<not> dryRun \<and> metadataOps img m op) w (stateOf (case x of (commit, stageID) \<Rightarrow>
      case issue env (RmImageMetadata img commit stageID) w of
        (w', err) \<Rightarrow> onDelete (metadataItem img isID stageID commit) w' err))"
      using False by (auto simp: metadataOps_def intro!: extends_step)
  qed
  with False show ?thesis by (simp add: deleteImageMetadata_def metadata_tasks)
qed

lemma purgeImageMetadata_footprint:
  "extends (\<lambda>op. \<not> dryRun \<and> (\<exists>i c st. op = RmImageMetadata i c st)) w (stateOf (purgeImageMetadata env dryRun w))"
proof (cases "GetAllAndGroupImageMetadata env (ops w) []")
  case (Inl e)
  then show ?thesis by (simp add: purgeImageMetadata_def)
next
  case (Inr r)
  obtain a b where r: "r = (a, b)" by fastforce
  have "extends (\<lambda>op. \<not> dryRun \<and> (\<exists>i c st. op = RmImageMetadata i c st)) w (stateOf
      (foldR (\<lambda>w (imageNameID, stageIDCommitList). deleteImageMetadata env imageNameID stageIDCommitList dryRun True w) w b))"
  proof (rule extends_foldR [where proj = "\<lambda>w. w"])
    fix w and x :: "string \<times> (string, string list) goMap"
    show "extends (\<lambda>op. \<not> dryRun \<and> (\<exists>i c st. op = RmImageMetadata i c st)) w (stateOf
        (case x of (imageNameID, stageIDCommitList) \<Rightarrow> deleteImageMetadata env imageNameID stageIDCommitList dryRun True w))"
      unfolding case_prod_beta
      by (rule extends_mono [OF deleteImageMetadata_footprint]) (auto simp: metadataOps_def)
  qed
  with Inr r show ?thesis by (simp add: purgeImageMetadata_def)
qed

definition customTagOps :: "string set \<Rightarrow> storageOp \<Rightarrow> bool" where
  "customTagOps tags op \<longleftrightarrow> (\<exists>t \<in> tags. op = DeleteStageCustomTag t \<or> op = UnregisterStageCustomTag t)"

lemma customTag_tasks:
  "ForEachDeleteStageCustomTag env ids f w =
     foldR (\<lambda>w tag. case issue env (DeleteStageCustomTag tag) w of (w1, err) \<Rightarrow>
       (case err of
          Some e \<Rightarrow> f w1 tag (Some (''unable to delete stage custom tag: '' @ e))
        | None \<Rightarrow> (case issue env (UnregisterStageCustomTag tag) w1 of (w2, err2) \<Rightarrow>
             (case err2 of
                Some e \<Rightarrow> f w2 tag (Some (''unable to unregister stage custom tag: '' @ e))
              | None \<Rightarrow> f w2 tag None)))) w ids"
  unfolding ForEachDeleteStageCustomTag_def Let_def
  by (subst DoTasks_list [where f = "\<lambda>w tag. case issue env (DeleteStageCustomTag tag) w of (w1, err) \<Rightarrow>
       (case err of
          Some e \<Rightarrow> f w1 tag (Some (''unable to delete stage custom tag: '' @ e))
        | None \<Rightarrow> (case issue env (UnregisterStageCustomTag tag) w1 of (w2, err2) \<Rightarrow>
             (case err2 of
                Some e \<Rightarrow> f w2 tag (Some (''unable to unregister stage custom tag: '' @ e))
              | None \<Rightarrow> f w2 tag None)))"]) (rule refl)

lemma deleteCustomTags_footprint:
  "extends (\<lambda>op. \<not> dryRun \<and> customTagOps (set tags) op) w (stateOf (deleteCustomTags env tags dryRun w))"
proof (cases dryRun)
  case True
  then show ?thesis by (simp add: deleteCustomTags_def)
next
  case False
  then show ?thesis
    unfolding deleteCustomTags_def customTag_tasks if_not_P [OF False]
    by (intro extends_foldR [where proj = "\<lambda>w. w"] extends_issue_case [where proj = "\<lambda>w. w"])
      (auto simp: customTagOps_def split: option.splits intro!: extends_issue_case [where proj = "\<lambda>w. w"])
qed

lemma deleteOrphanedArtifacts_footprint:
  "extends (\<lambda>op. \<not> dryRun \<and> (\<exists>n. op = DeleteArtifact isFinal n)) w (stateOf (deleteOrphanedArtifacts env isFinal dryRun w))"
proof (cases "GetOrphanedArtifactNames env (ops w) isFinal")
  case (Inl e)
  then show ?thesis by (simp add: deleteOrphanedArtifacts_def)
next
  case (Inr names)
  then show ?thesis
    by (auto simp: deleteOrphanedArtifacts_def Let_def case_prod_beta split: option.splits
        intro!: extends_foldR [where proj = "\<lambda>w. w"])
qed

lemma cleanupOrphanedArtifacts_footprint:
  "extends (\<lambda>op. \<not> dryRun \<and> (\<exists>f n. op = DeleteArtifact f n)) w (stateOf (cleanupOrphanedArtifacts env dryRun w))"
  unfolding cleanupOrphanedArtifacts_def
  by (rule extends_bindR) (auto intro: extends_mono [OF deleteOrphanedArtifacts_footprint])

section \<open>The order of the calls for a rejected stage\<close>

text \<open>A fixed sequence of calls that stops after the first call that fails.\<close>

fun callsUntilFailure :: "storageEnv \<Rightarrow> storageOp list \<Rightarrow> storageOp list \<Rightarrow> storageOp list" where
  "callsUntilFailure env os [] = []"
| "callsUntilFailure env os (op # plan) =
     op # (if outcome env os op = None then callsUntilFailure env (os @ [op]) plan else [])"

fun allSucceed :: "storageEnv \<Rightarrow> storageOp list \<Rightarrow> storageOp list \<Rightarrow> bool" where
  "allSucceed env os [] = True"
| "allSucceed env os (op # plan) = (outcome env os op = None \<and> allSucceed env (os @ [op]) plan)"

definition linkedTagsPlan :: "string list \<Rightarrow> storageOp list" where
  "linkedTagsPlan tags = concat (map (\<lambda>t. [DeleteStageCustomTag t, UnregisterStageCustomTag t]) tags)"

definition rejectedPlan :: "(string, string list) goMap \<Rightarrow> StageID \<Rightarrow> storageOp list" where
  "rejectedPlan tagsOf stageID =
     DeleteRejectedStageImage stageID # linkedTagsPlan (sliceAt tagsOf (StageID_String stageID)) @ [DeleteRejectedStageRecord stageID]"

lemma callsUntilFailure_append:
  "callsUntilFailure env os (p @ q) =
     (if allSucceed env os p then p @ callsUntilFailure env (os @ p) q else callsUntilFailure env os p)"
  by (induction p arbitrary: os) auto

lemma allSucceed_append: "allSucceed env os (p @ q) \<longleftrightarrow> allSucceed env os p \<and> allSucceed env (os @ p) q"
  by (induction p arbitrary: os) auto

lemma allSucceed_calls: "allSucceed env os p \<Longrightarrow> callsUntilFailure env os p = p"
  by (induction p arbitrary: os) auto

lemma prefix_callsUntilFailure: "prefix (callsUntilFailure env os p) p"
  by (induction p arbitrary: os) auto

lemma deleteLinkedTags_calls:
  "case deleteLinkedTags env tags w of
     Inl (e, w') \<Rightarrow> ops w' = ops w @ callsUntilFailure env (ops w) (linkedTagsPlan tags) \<and> \<not> allSucceed env (ops w) (linkedTagsPlan tags)
   | Inr (w', b) \<Rightarrow> ops w' = ops w @ callsUntilFailure env (ops w) (linkedTagsPlan tags) \<and> b = allSucceed env (ops w) (linkedTagsPlan tags)"
proof (induction tags arbitrary: w)
  case Nil
  show ?case by (simp add: linkedTagsPlan_def)
next
  case (Cons t tags)
  let ?w2 = "fst (issue env (UnregisterStageCustomTag t) (fst (issue env (DeleteStageCustomTag t) w)))"
  have IH: "case deleteLinkedTags env tags (reportDeleted (tagItem ItemTypeCustomTag t) ?w2) of
     Inl (e, w') \<Rightarrow> ops w' = ops ?w2 @ callsUntilFailure env (ops ?w2) (linkedTagsPlan tags) \<and> \<not> allSucceed env (ops ?w2) (linkedTagsPlan tags)
   | Inr (w', b) \<Rightarrow> ops w' = ops ?w2 @ callsUntilFailure env (ops ?w2) (linkedTagsPlan tags) \<and> b = allSucceed env (ops ?w2) (linkedTagsPlan tags)"
    using Cons.IH [of "reportDeleted (tagItem ItemTypeCustomTag t) ?w2"] unfolding report_ops .
  have plan: "linkedTagsPlan (t # tags) = DeleteStageCustomTag t # UnregisterStageCustomTag t # linkedTagsPlan tags"
    by (simp add: linkedTagsPlan_def)
  show ?case
    using IH unfolding plan
    by (cases "outcome env (ops w) (DeleteStageCustomTag t)";
        cases "outcome env (ops w @ [DeleteStageCustomTag t]) (UnregisterStageCustomTag t)")
      (auto simp: Let_def case_prod_beta split: option.splits sum.splits)
qed

lemma deleteRejectedStage_calls:
  "ops (fst (stateOf (deleteRejectedStage env tagsOf (w, deleted) stageID))) =
     ops w @ callsUntilFailure env (ops w) (rejectedPlan tagsOf stageID) \<and>
   snd (stateOf (deleteRejectedStage env tagsOf (w, deleted) stageID)) =
     (if allSucceed env (ops w) (rejectedPlan tagsOf stageID) then deleted @ [StageID_String stageID] else deleted)"
proof (cases "outcome env (ops w) (DeleteRejectedStageImage stageID)")
  case (Some e)
  then show ?thesis
    by (auto simp: deleteRejectedStage_def rejectedPlan_def Let_def case_prod_beta split: option.splits)
next
  case None
  let ?w1 = "reportDeleted (tagItem ItemTypeRejectedStage (StageID_String stageID)) (fst (issue env (DeleteRejectedStageImage stageID) w))"
  let ?tags = "sliceAt tagsOf (StageID_String stageID)"
  have o1: "ops ?w1 = ops w @ [DeleteRejectedStageImage stageID]" by simp
  note calls = deleteLinkedTags_calls [where env = env and tags = ?tags and w = ?w1, unfolded o1]
  show ?thesis
  proof (cases "deleteLinkedTags env ?tags ?w1")
    case (Inl r)
    then obtain e w2 where "deleteLinkedTags env ?tags ?w1 = Inl (e, w2)" by (cases r) auto
    with None calls show ?thesis
      by (simp add: deleteRejectedStage_def rejectedPlan_def Let_def case_prod_beta callsUntilFailure_append allSucceed_append)
  next
    case (Inr r)
    then obtain w2 b where r: "deleteLinkedTags env ?tags ?w1 = Inr (w2, b)" by (cases r) auto
    with calls have w2: "ops w2 = ops w @ DeleteRejectedStageImage stageID #
        callsUntilFailure env (ops w @ [DeleteRejectedStageImage stageID]) (linkedTagsPlan ?tags)"
      "b = allSucceed env (ops w @ [DeleteRejectedStageImage stageID]) (linkedTagsPlan ?tags)"
      by simp_all
    show ?thesis
    proof (cases b)
      case False
      with None r w2 show ?thesis
        by (simp add: deleteRejectedStage_def rejectedPlan_def Let_def case_prod_beta callsUntilFailure_append allSucceed_append)
    next
      case True
      then have "ops w2 = ops w @ DeleteRejectedStageImage stageID # linkedTagsPlan ?tags"
        using w2 allSucceed_calls by simp
      with None r w2 True show ?thesis
        by (cases "outcome env (ops w2) (DeleteRejectedStageRecord stageID)")
          (auto simp: deleteRejectedStage_def rejectedPlan_def Let_def case_prod_beta callsUntilFailure_append
            allSucceed_append split: option.splits)
    qed
  qed
qed

definition rejectedOps :: "(string, string list) goMap \<Rightarrow> StageID set \<Rightarrow> storageOp \<Rightarrow> bool" where
  "rejectedOps tagsOf ids op \<longleftrightarrow> (\<exists>stageID \<in> ids. op \<in> set (rejectedPlan tagsOf stageID))"

lemma deleteRejectedStage_footprint:
  "extends (\<lambda>op. op \<in> set (rejectedPlan tagsOf stageID)) (fst st) (fst (stateOf (deleteRejectedStage env tagsOf st stageID)))"
proof -
  obtain w deleted where st: "st = (w, deleted)" by fastforce
  have "set (callsUntilFailure env (ops w) (rejectedPlan tagsOf stageID)) \<subseteq> set (rejectedPlan tagsOf stageID)"
    using prefix_callsUntilFailure by (rule set_mono_prefix)
  then show ?thesis
    using deleteRejectedStage_calls [of env tagsOf w deleted stageID] by (auto simp: st extends_def list_all_iff)
qed

lemma deleteRejectedStagesWithLinkedTags_footprint:
  "extends (\<lambda>op. \<not> dryRun \<and> (\<exists>ids. GetRejectedStageIDsOf env (ops w) = Inr ids \<and> rejectedOps tagsOf (set ids) op)) w
     (fst (stateOf (deleteRejectedStagesWithLinkedTags env tagsOf dryRun w)))"
    (is "extends ?P _ _")
proof (cases "GetRejectedStageIDsOf env (ops w)")
  case (Inl e)
  then show ?thesis by (simp add: deleteRejectedStagesWithLinkedTags_def)
next
  case (Inr ids)
  have dry: "extends P w (fst (foldl (\<lambda>(w, deleted) stageID.
        let stageIDStr = StageID_String stageID;
            w1 = reportDeleted (tagItem ItemTypeRejectedStage stageIDStr) w;
            w2 = foldl (\<lambda>w t. reportDeleted (tagItem ItemTypeCustomTag t) w) w1 (sliceAt tagsOf stageIDStr)
        in (reportDeleted (rejectedMarkerItem stageID) w2, deleted @ [stageIDStr])) (w, d) xs))" for P w d xs
  proof (induction xs arbitrary: w d)
    case Nil
    show ?case by simp
  next
    case (Cons x xs)
    let ?w1 = "reportDeleted (tagItem ItemTypeRejectedStage (StageID_String x)) w"
    have "extends P ?w1 (foldl (\<lambda>w t. reportDeleted (tagItem ItemTypeCustomTag t) w) ?w1 (sliceAt tagsOf (StageID_String x)))"
      by simp
    then have "extends P w (foldl (\<lambda>w t. reportDeleted (tagItem ItemTypeCustomTag t) w) ?w1 (sliceAt tagsOf (StageID_String x)))"
      by (simp add: extends_def)
    then have "extends P w (reportDeleted (rejectedMarkerItem x)
        (foldl (\<lambda>w t. reportDeleted (tagItem ItemTypeCustomTag t) w) ?w1 (sliceAt tagsOf (StageID_String x))))"
      by simp
    from extends_trans [OF this Cons.IH [of _ "d @ [StageID_String x]"]] show ?case
      by (simp only: foldl_Cons Let_def prod.case)
  qed
  have real: "extends ?P w (fst (stateOf (foldR (deleteRejectedStage env tagsOf) (w, []) ids)))" if "\<not> dryRun"
  proof -
    have "extends ?P (fst st) (fst (stateOf (deleteRejectedStage env tagsOf st x)))" if "x \<in> set ids" for st x
      by (rule extends_mono [OF deleteRejectedStage_footprint])
        (use that Inr \<open>\<not> dryRun\<close> in \<open>auto simp: rejectedOps_def\<close>)
    from extends_foldR [where proj = fst, OF this, where w = "(w, [])"] show ?thesis by simp
  qed
  show ?thesis
    using Inr dry real unfolding deleteRejectedStagesWithLinkedTags_def
    by (auto simp: ForEachRejectedStage_def DoTasks_list)
qed

lemma rejectedPlan_marker:
  "DeleteRejectedStageRecord i \<in> set (rejectedPlan tagsOf stageID) \<longleftrightarrow> i = stageID"
  "DeleteRejectedStageRecord i \<notin> set (butlast (rejectedPlan tagsOf stageID))"
  "rejectedPlan tagsOf stageID = butlast (rejectedPlan tagsOf stageID) @ [DeleteRejectedStageRecord stageID]"
  by (auto simp: rejectedPlan_def linkedTagsPlan_def butlast_append)

lemma marker_ends_prefix:
  assumes "prefix cs (rejectedPlan tagsOf stageID)" and "DeleteRejectedStageRecord stageID \<in> set cs"
  shows "cs = rejectedPlan tagsOf stageID"
proof -
  have "prefix cs (butlast (rejectedPlan tagsOf stageID) @ [DeleteRejectedStageRecord stageID])"
    using assms(1) rejectedPlan_marker(3) by metis
  moreover have "\<not> prefix cs (butlast (rejectedPlan tagsOf stageID))"
    using assms(2) rejectedPlan_marker(2) set_mono_prefix by blast
  ultimately show ?thesis using rejectedPlan_marker(3) by (metis prefix_snoc)
qed

section \<open>Rejected stages under all schedules\<close>

text \<open>
  The callback of \<^verbatim>\<open>deleteRejectedStagesWithLinkedTags\<close> call by call: where it stands, and what its next call of the storage does.
  \<open>AtTags []\<close> is the point before the deletion of the marker; \<open>Returned\<close> carries the error of the callback, if any.
\<close>

datatype rejectedAt = AtImage | AtTags "string list" | AtUnregister string "string list" | Returned "cleanupError option"

fun rejectedCall ::
  "storageEnv \<Rightarrow> (string, string list) goMap \<Rightarrow> StageID \<Rightarrow> rejectedAt \<Rightarrow> world \<times> string list \<Rightarrow> rejectedAt \<times> world \<times> string list" where
  "rejectedCall env tagsOf stageID AtImage (w, deleted) =
     (case issue env (DeleteRejectedStageImage stageID) w of
        (w1, Some e) \<Rightarrow> (Returned (handleDeletionError e), w1, deleted)
      | (w1, None) \<Rightarrow> (AtTags (sliceAt tagsOf (StageID_String stageID)),
          reportDeleted (tagItem ItemTypeRejectedStage (StageID_String stageID)) w1, deleted))"
| "rejectedCall env tagsOf stageID (AtTags (customTag # rest)) (w, deleted) =
     (case issue env (DeleteStageCustomTag customTag) w of
        (w1, Some e) \<Rightarrow> (Returned (handleDeletionError e), w1, deleted)
      | (w1, None) \<Rightarrow> (AtUnregister customTag rest, w1, deleted))"
| "rejectedCall env tagsOf stageID (AtUnregister customTag rest) (w, deleted) =
     (case issue env (UnregisterStageCustomTag customTag) w of
        (w1, Some e) \<Rightarrow> (Returned (handleDeletionError e), w1, deleted)
      | (w1, None) \<Rightarrow> (AtTags rest, reportDeleted (tagItem ItemTypeCustomTag customTag) w1, deleted))"
| "rejectedCall env tagsOf stageID (AtTags []) (w, deleted) =
     (case issue env (DeleteRejectedStageRecord stageID) w of
        (w1, Some e) \<Rightarrow> (Returned (handleDeletionError e), w1, deleted)
      | (w1, None) \<Rightarrow> (Returned None, reportDeleted (rejectedMarkerItem stageID) w1, deleted @ [StageID_String stageID]))"
| "rejectedCall env tagsOf stageID (Returned err) st = (Returned err, st)"

text \<open>
  The callbacks of all the rejected stages side by side, as \<^verbatim>\<open>ForEachRejectedStage\<close> runs them through \<^verbatim>\<open>DoTasks\<close>: at any time any
  of them makes its next call. The limits of the pool only leave some of these schedules out. \<open>rrCalls\<close> keeps the calls in their
  order, each with the number of the callback that has issued it.
\<close>

record rejectedRun =
  rrState :: "world \<times> string list"
  rrTasks :: "rejectedAt list"
  rrCalls :: "(nat \<times> storageOp) list"

inductive rejectedStep ::
  "storageEnv \<Rightarrow> (string, string list) goMap \<Rightarrow> StageID list \<Rightarrow> rejectedRun \<Rightarrow> rejectedRun \<Rightarrow> bool" for env tagsOf stageIDs where
  call: "k < length stageIDs \<Longrightarrow> (\<And>err. rrTasks r ! k \<noteq> Returned err) \<Longrightarrow>
    rejectedCall env tagsOf (stageIDs ! k) (rrTasks r ! k) (rrState r) = (pos, w', deleted) \<Longrightarrow>
    rejectedStep env tagsOf stageIDs r \<lparr>rrState = (w', deleted), rrTasks = (rrTasks r)[k := pos],
      rrCalls = rrCalls r @ map (Pair k) (drop (length (ops (fst (rrState r)))) (ops w'))\<rparr>"

definition startRejected :: "StageID list \<Rightarrow> world \<Rightarrow> rejectedRun" where
  "startRejected stageIDs w = \<lparr>rrState = (w, []), rrTasks = replicate (length stageIDs) AtImage, rrCalls = []\<rparr>"

definition callsOf :: "nat \<Rightarrow> (nat \<times> storageOp) list \<Rightarrow> storageOp list" where
  "callsOf k cs = map snd (filter (\<lambda>c. fst c = k) cs)"

text \<open>The calls that a callback has before it while all of them succeed.\<close>

fun plannedCalls :: "(string, string list) goMap \<Rightarrow> StageID \<Rightarrow> rejectedAt \<Rightarrow> storageOp list" where
  "plannedCalls tagsOf stageID AtImage = rejectedPlan tagsOf stageID"
| "plannedCalls tagsOf stageID (AtTags tags) = linkedTagsPlan tags @ [DeleteRejectedStageRecord stageID]"
| "plannedCalls tagsOf stageID (AtUnregister tag tags) =
     UnregisterStageCustomTag tag # linkedTagsPlan tags @ [DeleteRejectedStageRecord stageID]"
| "plannedCalls tagsOf stageID (Returned err) = []"

lemma linkedTagsPlan_simps [simp]:
  "linkedTagsPlan [] = []" "linkedTagsPlan (t # ts) = DeleteStageCustomTag t # UnregisterStageCustomTag t # linkedTagsPlan ts"
  by (simp_all add: linkedTagsPlan_def)

lemma rejectedCall_plan:
  assumes "rejectedCall env tagsOf stageID pos (w, deleted) = (pos', w', deleted')" and "\<And>err. pos \<noteq> Returned err"
  shows "\<exists>op rest. plannedCalls tagsOf stageID pos = op # rest \<and> ops w' = ops w @ [op] \<and>
    (outcome env (ops w) op = None \<longrightarrow> plannedCalls tagsOf stageID pos' = rest) \<and>
    (outcome env (ops w) op \<noteq> None \<longrightarrow> (\<exists>err. pos' = Returned err))"
  using assms
  by (cases "(env, tagsOf, stageID, pos, w, deleted)" rule: rejectedCall.cases)
    (auto simp: issue_def rejectedPlan_def split: option.splits)

text \<open>
  Each callback has made the first calls of its plan; if it has not returned the other ones are before it; and a call that failed is
  the last one of its callback.
\<close>

definition rejectedInv :: "storageEnv \<Rightarrow> (string, string list) goMap \<Rightarrow> StageID list \<Rightarrow> world \<Rightarrow> rejectedRun \<Rightarrow> bool" where
  "rejectedInv env tagsOf stageIDs w r \<longleftrightarrow> length (rrTasks r) = length stageIDs \<and>
     ops (fst (rrState r)) = ops w @ map snd (rrCalls r) \<and> (\<forall>c \<in> set (rrCalls r). fst c < length stageIDs) \<and>
     (\<forall>k < length stageIDs. prefix (callsOf k (rrCalls r)) (rejectedPlan tagsOf (stageIDs ! k)) \<and>
       ((\<exists>err. rrTasks r ! k = Returned err) \<or>
         callsOf k (rrCalls r) @ plannedCalls tagsOf (stageIDs ! k) (rrTasks r ! k) = rejectedPlan tagsOf (stageIDs ! k))) \<and>
     (\<forall>k cs op cs'. rrCalls r = cs @ (k, op) # cs' \<longrightarrow> outcome env (ops w @ map snd cs) op \<noteq> None \<longrightarrow>
       (\<exists>err. rrTasks r ! k = Returned err) \<and> callsOf k cs' = [])"

lemma callsOf_simps [simp]:
  "callsOf k [] = []" "callsOf k (c # cs) = (if fst c = k then snd c # callsOf k cs else callsOf k cs)"
  "callsOf k (cs @ cs') = callsOf k cs @ callsOf k cs'"
  by (simp_all add: callsOf_def)

lemma rejectedStep_inv:
  assumes "rejectedStep env tagsOf stageIDs r r'" and inv: "rejectedInv env tagsOf stageIDs w r"
  shows "rejectedInv env tagsOf stageIDs w r'"
  using assms(1)
proof cases
  case (call k pos w' deleted)
  obtain w1 d where st: "rrState r = (w1, d)" by fastforce
  from rejectedCall_plan [OF call(4) [unfolded st] call(3)] obtain op rest where
    plan: "plannedCalls tagsOf (stageIDs ! k) (rrTasks r ! k) = op # rest" and o: "ops w' = ops w1 @ [op]"
    and ok: "outcome env (ops w1) op = None \<longrightarrow> plannedCalls tagsOf (stageIDs ! k) pos = rest"
    and bad: "outcome env (ops w1) op \<noteq> None \<longrightarrow> (\<exists>err. pos = Returned err)" by auto
  have r': "r' = \<lparr>rrState = (w', deleted), rrTasks = (rrTasks r)[k := pos], rrCalls = rrCalls r @ [(k, op)]\<rparr>"
    using call(1) o by (simp add: st)
  have w1: "ops w1 = ops w @ map snd (rrCalls r)" and len: "length (rrTasks r) = length stageIDs"
    using inv by (simp_all add: rejectedInv_def st)
  have mine: "callsOf k (rrCalls r) @ op # rest = rejectedPlan tagsOf (stageIDs ! k)"
    using inv call(2,3) plan by (auto simp: rejectedInv_def)
  have old: "(\<exists>err. rrTasks r ! j = Returned err) \<and> callsOf j cs' = []"
    if "rrCalls r = cs @ (j, op') # cs'" "outcome env (ops w @ map snd cs) op' \<noteq> None" for j cs op' cs'
    using inv that unfolding rejectedInv_def by blast
  have new: "(\<exists>err. rrTasks r' ! j = Returned err) \<and> callsOf j cs' = []"
    if split: "rrCalls r @ [(k, op)] = cs @ (j, op') # cs'" and f: "outcome env (ops w @ map snd cs) op' \<noteq> None" for j cs op' cs'
  proof (cases cs' rule: rev_cases)
    case Nil
    then have "j = k" "op' = op" "cs = rrCalls r" using split by auto
    then show ?thesis using f bad w1 call(2) len Nil by (simp add: r')
  next
    case (snoc cs'' c)
    then have s: "rrCalls r = cs @ (j, op') # cs''" "c = (k, op)" using split by auto
    from old [OF s(1) f] call(3) have "j \<noteq> k" by auto
    then show ?thesis using old [OF s(1) f] s(2) snoc by (simp add: r')
  qed
  have each: "prefix (callsOf j (rrCalls r')) (rejectedPlan tagsOf (stageIDs ! j)) \<and> ((\<exists>err. rrTasks r' ! j = Returned err) \<or>
      callsOf j (rrCalls r') @ plannedCalls tagsOf (stageIDs ! j) (rrTasks r' ! j) = rejectedPlan tagsOf (stageIDs ! j))"
    if "j < length stageIDs" for j
  proof (cases "j = k")
    case True
    have "prefix (callsOf k (rrCalls r) @ [op]) (rejectedPlan tagsOf (stageIDs ! k))" unfolding mine [symmetric] by simp
    then show ?thesis using True mine ok bad call(2) len by (cases "outcome env (ops w1) op") (auto simp: r')
  next
    case False
    then show ?thesis using inv that by (simp add: rejectedInv_def r')
  qed
  show ?thesis
    unfolding rejectedInv_def
  proof (intro conjI)
    show "\<forall>k<length stageIDs. prefix (callsOf k (rrCalls r')) (rejectedPlan tagsOf (stageIDs ! k)) \<and>
       ((\<exists>err. rrTasks r' ! k = Returned err) \<or>
         callsOf k (rrCalls r') @ plannedCalls tagsOf (stageIDs ! k) (rrTasks r' ! k) = rejectedPlan tagsOf (stageIDs ! k))"
      using each by blast
    show "\<forall>k cs op cs'. rrCalls r' = cs @ (k, op) # cs' \<longrightarrow> outcome env (ops w @ map snd cs) op \<noteq> None \<longrightarrow>
       (\<exists>err. rrTasks r' ! k = Returned err) \<and> callsOf k cs' = []"
      using new by (simp add: r')
  qed (use inv o w1 call(2) in \<open>auto simp: rejectedInv_def r'\<close>)
qed

lemma rejectedRun_inv:
  assumes "(rejectedStep env tagsOf stageIDs)\<^sup>*\<^sup>* (startRejected stageIDs w) r"
  shows "rejectedInv env tagsOf stageIDs w r"
  using assms
proof induction
  case base
  show ?case by (auto simp: rejectedInv_def startRejected_def)
qed (rule rejectedStep_inv)

text \<open>A callback that runs alone does what \<open>deleteRejectedStage\<close> does in one piece.\<close>

inductive aloneStep :: "storageEnv \<Rightarrow> (string, string list) goMap \<Rightarrow> StageID \<Rightarrow> rejectedAt \<times> world \<times> string list \<Rightarrow>
    rejectedAt \<times> world \<times> string list \<Rightarrow> bool" for env tagsOf stageID where
  alone: "(\<And>err. pos \<noteq> Returned err) \<Longrightarrow> aloneStep env tagsOf stageID (pos, st) (rejectedCall env tagsOf stageID pos st)"

definition returnOf :: "'s result \<Rightarrow> rejectedAt \<times> 's" where
  "returnOf r = (case r of Inl (e, s) \<Rightarrow> (Returned (Some e), s) | Inr s \<Rightarrow> (Returned None, s))"

lemma aloneStep_trans:
  "(\<And>err. pos \<noteq> Returned err) \<Longrightarrow> (aloneStep env tagsOf stageID)\<^sup>*\<^sup>* (rejectedCall env tagsOf stageID pos st) c \<Longrightarrow>
   (aloneStep env tagsOf stageID)\<^sup>*\<^sup>* (pos, st) c"
  using alone [of pos env tagsOf stageID st] by (rule converse_rtranclp_into_rtranclp)

lemma linkedTags_alone:
  "(aloneStep env tagsOf stageID)\<^sup>*\<^sup>* (AtTags tags, w, deleted)
     (case deleteLinkedTags env tags w of
        Inl (e, w2) \<Rightarrow> (Returned (Some e), w2, deleted)
      | Inr (w2, False) \<Rightarrow> (Returned None, w2, deleted)
      | Inr (w2, True) \<Rightarrow> (AtTags [], w2, deleted))"
proof (induction tags arbitrary: w)
  case Nil
  show ?case by simp
next
  case (Cons t tags)
  show ?case
    by (rule aloneStep_trans, simp, simp add: issue_def split: option.split, intro conjI allI impI)
      (auto simp: issue_def split: option.split intro!: aloneStep_trans [where pos = "AtUnregister t tags"] Cons.IH)
qed

lemma deleteRejectedStage_alone:
  "(aloneStep env tagsOf stageID)\<^sup>*\<^sup>* (AtImage, st) (returnOf (deleteRejectedStage env tagsOf st stageID))"
proof -
  obtain w deleted where st: "st = (w, deleted)" by fastforce
  let ?tags = "sliceAt tagsOf (StageID_String stageID)"
  let ?w1 = "reportDeleted (tagItem ItemTypeRejectedStage (StageID_String stageID)) (fst (issue env (DeleteRejectedStageImage stageID) w))"
  show ?thesis
  proof (cases "outcome env (ops w) (DeleteRejectedStageImage stageID)")
    case (Some e)
    then show ?thesis
      by (intro aloneStep_trans) (auto simp: st deleteRejectedStage_def returnOf_def issue_def split: option.splits)
  next
    case None
    have "(aloneStep env tagsOf stageID)\<^sup>*\<^sup>* (AtTags [], w2, deleted)
        (case issue env (DeleteRejectedStageRecord stageID) w2 of
           (w3, Some e) \<Rightarrow> (Returned (handleDeletionError e), w3, deleted)
         | (w3, None) \<Rightarrow> (Returned None, reportDeleted (rejectedMarkerItem stageID) w3, deleted @ [StageID_String stageID]))" for w2
      by (rule aloneStep_trans) simp_all
    note marker = this
    note tags = linkedTags_alone [of env tagsOf stageID ?tags ?w1 deleted]
    have "(aloneStep env tagsOf stageID)\<^sup>*\<^sup>* (AtTags ?tags, ?w1, deleted) (returnOf (deleteRejectedStage env tagsOf st stageID))"
    proof (cases "deleteLinkedTags env ?tags ?w1")
      case (Inl a)
      then show ?thesis using None tags by (cases a) (simp add: st deleteRejectedStage_def returnOf_def Let_def case_prod_beta)
    next
      case (Inr a)
      obtain w2 ok where a: "a = (w2, ok)" by fastforce
      show ?thesis
      proof (cases ok)
        case False
        then show ?thesis using None tags Inr a by (simp add: st deleteRejectedStage_def returnOf_def Let_def case_prod_beta)
      next
        case True
        then have "(aloneStep env tagsOf stageID)\<^sup>*\<^sup>* (AtTags ?tags, ?w1, deleted) (AtTags [], w2, deleted)" using tags Inr a by simp
        from rtranclp_trans [OF this marker [of w2]] show ?thesis using None Inr a True
          by (auto simp: st deleteRejectedStage_def returnOf_def Let_def case_prod_beta issue_def split: option.splits)
      qed
    qed
    then show ?thesis by (intro aloneStep_trans) (simp_all add: st issue_def None)
  qed
qed

text \<open>C37: In every schedule of the callbacks, a callback that deletes the marker of a rejected stage has before that deleted the
  image of the stage and each custom tag linked to it with its registration, in this order, and all these calls have succeeded; so a
  stage whose removal failed halfway keeps its marker for the next cleanup.\<close>

theorem rejected_marker_last:
  assumes "(rejectedStep env tagsOf stageIDs)\<^sup>*\<^sup>* (startRejected stageIDs w) r"
    and "(k, DeleteRejectedStageRecord stageID) \<in> set (rrCalls r)"
  shows "k < length stageIDs \<and> stageID = stageIDs ! k \<and> callsOf k (rrCalls r) = rejectedPlan tagsOf stageID \<and>
    (\<forall>cs op cs'. rrCalls r = cs @ (k, op) # cs' \<longrightarrow> op \<noteq> DeleteRejectedStageRecord stageID \<longrightarrow> outcome env (ops w @ map snd cs) op = None)"
proof -
  have inv: "rejectedInv env tagsOf stageIDs w r" using assms(1) by (rule rejectedRun_inv)
  have k: "k < length stageIDs" using inv assms(2) by (fastforce simp: rejectedInv_def)
  have p: "prefix (callsOf k (rrCalls r)) (rejectedPlan tagsOf (stageIDs ! k))" using inv k by (simp add: rejectedInv_def)
  have m: "DeleteRejectedStageRecord stageID \<in> set (callsOf k (rrCalls r))" using assms(2) by (force simp: callsOf_def)
  then have id: "stageID = stageIDs ! k" using set_mono_prefix [OF p] rejectedPlan_marker(1) by blast
  have plan: "callsOf k (rrCalls r) = rejectedPlan tagsOf stageID"
    using marker_ends_prefix [OF p [folded id] m] .
  have "outcome env (ops w @ map snd cs) op = None"
    if split: "rrCalls r = cs @ (k, op) # cs'" and "op \<noteq> DeleteRejectedStageRecord stageID" for cs op cs'
  proof (rule ccontr)
    assume "outcome env (ops w @ map snd cs) op \<noteq> None"
    then have "callsOf k cs' = []" using inv split unfolding rejectedInv_def by blast
    then have "last (callsOf k (rrCalls r)) = op" using split by simp
    then show False using that(2) rejectedPlan_marker(3) unfolding plan by (metis last_snoc)
  qed
  then show ?thesis using k id plan by blast
qed

section \<open>The dry run reports what the real run would do\<close>

definition addAll :: "Report option \<Rightarrow> Item list \<Rightarrow> Report option" where
  "addAll r its = foldl AddDeleted r its"

lemma addAll_append: "addAll r (xs @ ys) = addAll (addAll r xs) ys"
  by (simp add: addAll_def)

lemma report_reports: "report (foldl (\<lambda>w x. reportDeleted (g x) w) w xs) = addAll (report w) (map g xs)"
  by (induction xs arbitrary: w) (simp_all add: addAll_def reportDeleted_def)

lemma foldR_reports:
  assumes "\<And>w x. \<exists>w1. f w x = Inr w1 \<and> report w1 = addAll (report w) (g x)"
  shows "\<exists>w1. foldR f w xs = Inr w1 \<and> report w1 = addAll (report w) (concat (map g xs))"
proof (induction xs arbitrary: w)
  case Nil
  show ?case by (simp add: addAll_def)
next
  case (Cons x xs)
  from assms obtain w1 where "f w x = Inr w1" "report w1 = addAll (report w) (g x)" by blast
  with Cons.IH [of w1] show ?case by (simp add: addAll_append)
qed

definition neverFails :: "storageEnv \<Rightarrow> bool" where
  "neverFails env \<longleftrightarrow> (\<forall>os op. outcome env os op = None)"

lemma issue_neverFails: "neverFails env \<Longrightarrow> issue env op w = (w\<lparr>ops := ops w @ [op]\<rparr>, None)"
  by (simp add: neverFails_def issue_def)

lemma report_cache_calls:
  "report (foldl (\<lambda>w c. fst (issue env (DeleteCacheStage c d) w)) w cs) = report w"
  by (induction cs arbitrary: w) simp_all

lemma deleteStageDescSet_real:
  assumes "neverFails env" and "localFilter env = None"
  shows "\<exists>w'. deleteStageDescSet env False ds isFinal w = Inr w' \<and>
    report w' = addAll (report w) (map (\<lambda>d. tagItem (if isFinal then ItemTypeFinalStage else ItemTypeStage) (Tag (sdInfo d))) ds)"
proof (cases isFinal)
  case True
  have "\<exists>w1. foldR (\<lambda>w d. case issue env (DeleteFinalStage d) w of (w', err) \<Rightarrow>
      onDelete (tagItem ItemTypeFinalStage (Tag (sdInfo d))) w' err) w ds = Inr w1 \<and>
      report w1 = addAll (report w) (concat (map (\<lambda>d. [tagItem ItemTypeFinalStage (Tag (sdInfo d))]) ds))"
    by (rule foldR_reports) (simp add: issue_neverFails [OF assms(1)] onDelete_def reportDeleted_def addAll_def)
  with True show ?thesis
    by (simp add: deleteStageDescSet_def ForEachDeleteFinalStage_def Let_def DoTasks_list
        [where f = "\<lambda>w d. case issue env (DeleteFinalStage d) w of
            (w', err) \<Rightarrow> onDelete (tagItem ItemTypeFinalStage (Tag (sdInfo d))) w' err"] concat_map_singleton)
next
  case False
  have "\<exists>w1. foldR (\<lambda>w d. case issue env (DeleteStage d)
      (foldl (\<lambda>w c. fst (issue env (DeleteCacheStage c d) w)) w [0..<cacheStorages env]) of
        (w2, err) \<Rightarrow> onDelete (tagItem ItemTypeStage (Tag (sdInfo d))) w2 err) w ds = Inr w1 \<and>
      report w1 = addAll (report w) (concat (map (\<lambda>d. [tagItem ItemTypeStage (Tag (sdInfo d))]) ds))"
    by (rule foldR_reports)
      (simp add: issue_neverFails [OF assms(1), of "DeleteStage _"] onDelete_def reportDeleted_def addAll_def report_cache_calls)
  with False assms(2) show ?thesis
    by (simp add: deleteStageDescSet_def ForEachDeleteStage_loop Let_def concat_map_singleton)
qed

lemma deleteManagedImages_real:
  assumes "neverFails env"
  shows "\<exists>w'. deleteManagedImages env images False w = Inr w' \<and> report w' = addAll (report w) (map managedImageItem images)"
proof -
  have "\<exists>w1. foldR (\<lambda>w i. case issue env (RmManagedImage i) w of (w', err) \<Rightarrow> onDelete (managedImageItem i) w' err) w images
      = Inr w1 \<and> report w1 = addAll (report w) (concat (map (\<lambda>i. [managedImageItem i]) images))"
    by (rule foldR_reports) (simp add: issue_neverFails [OF assms] onDelete_def reportDeleted_def addAll_def)
  then show ?thesis
    by (simp add: deleteManagedImages_def ForEachRmManagedImage_def Let_def DoTasks_list
        [where f = "\<lambda>w i. case issue env (RmManagedImage i) w of (w', err) \<Rightarrow> onDelete (managedImageItem i) w' err"]
        concat_map_singleton)
qed

lemma deleteImageMetadata_real:
  assumes "neverFails env"
  shows "\<exists>w'. deleteImageMetadata env img m False isID w = Inr w' \<and>
    report w' = report (stateOf (deleteImageMetadata env img m True isID w))"
proof -
  let ?items = "\<lambda>(stageID, commitList). map (metadataItem img isID stageID) commitList"
  let ?tasks = "concat (map (\<lambda>(stageID, commitList). map (\<lambda>commit. (commit, stageID)) commitList) m)"
  have "\<exists>w1. foldR (\<lambda>w (commit, stageID). case issue env (RmImageMetadata img commit stageID) w of
      (w', err) \<Rightarrow> onDelete (metadataItem img isID stageID commit) w' err) w ?tasks = Inr w1 \<and>
      report w1 = addAll (report w) (concat (map (\<lambda>(commit, stageID). [metadataItem img isID stageID commit]) ?tasks))"
    by (rule foldR_reports) (auto simp: issue_neverFails [OF assms] onDelete_def reportDeleted_def addAll_def)
  moreover have "concat (map (\<lambda>(commit, stageID). [metadataItem img isID stageID commit]) ?tasks) = concat (map ?items m)"
    by (induction m) (auto simp: concat_map_singleton comp_def)
  moreover have "report (foldl (\<lambda>w (stageID, commitList). if commitList = [] then w
               else foldl (\<lambda>w commit. reportDeleted (metadataItem img isID stageID commit) w) w commitList) w m)
      = addAll (report w) (concat (map ?items m))"
    by (induction m arbitrary: w) (auto simp: report_reports addAll_append addAll_def)
  ultimately show ?thesis by (simp add: deleteImageMetadata_def metadata_tasks)
qed

lemma deleteCustomTags_real:
  assumes "neverFails env"
  shows "\<exists>w'. deleteCustomTags env tags False w = Inr w' \<and> report w' = addAll (report w) (map (tagItem ItemTypeCustomTag) tags)"
proof -
  have "\<exists>w'. deleteCustomTags env tags False w = Inr w' \<and>
      report w' = addAll (report w) (concat (map (\<lambda>t. [tagItem ItemTypeCustomTag t]) tags))"
    unfolding deleteCustomTags_def customTag_tasks if_False
    by (rule foldR_reports) (simp add: issue_neverFails [OF assms] onDelete_def reportDeleted_def addAll_def)
  then show ?thesis by (simp add: concat_map_singleton)
qed

text \<open>The dry run is a faithful prediction: for stages, managed images, image metadata and custom tags alike,
  when no call to the storage fails the real run succeeds and its report equals the report of the dry run.\<close>

theorem dry_run_predicts:
  assumes "neverFails env" and "localFilter env = None"
  shows "(\<exists>w'. deleteStageDescSet env False ds isFinal w = Inr w' \<and>
      report w' = report (stateOf (deleteStageDescSet env True ds isFinal w))) \<and>
    (\<exists>w'. deleteManagedImages env images False w = Inr w' \<and>
      report w' = report (stateOf (deleteManagedImages env images True w))) \<and>
    (\<exists>w'. deleteImageMetadata env img m False isID w = Inr w' \<and>
      report w' = report (stateOf (deleteImageMetadata env img m True isID w))) \<and>
    (\<exists>w'. deleteCustomTags env tags False w = Inr w' \<and>
      report w' = report (stateOf (deleteCustomTags env tags True w)))"
  using deleteStageDescSet_real [OF assms, of ds isFinal w] deleteManagedImages_real [OF assms(1), of images w]
    deleteImageMetadata_real [OF assms(1), of img m isID w] deleteCustomTags_real [OF assms(1), of tags w]
  by (simp add: deleteStageDescSet_def [of env True] deleteManagedImages_def [of env images True]
      deleteCustomTags_def [of env tags True] Let_def report_reports)

section \<open>A small storage\<close>

definition sampleEnv :: storageEnv where
  "sampleEnv = \<lparr>outcome = \<lambda>os op. None, MaxNumberOfWorkers = 2, cacheStorages = 1, localFilter = None,
     GetStageDescSetWithCache = \<lambda>os. Inr [], GetFinalStageDescSetOf = None, GetManagedImages = \<lambda>os. Inr [''app''],
     GetAllAndGroupImageMetadata = \<lambda>os names. Inr ([], []), GetStageCustomTagMetadataIDs = \<lambda>os. Inr [],
     GetStageCustomTagMetadata = \<lambda>os i. CustomTagNotFoundOrBroken,
     GetRejectedStageIDsOf = \<lambda>os. Inr [NewStageID ''abc'' 5], GetOrphanedArtifactNames = \<lambda>os f. Inr [],
     GetMetaRepoMarker = None, Address = ''repo'', FinalAddress = ''final''\<rparr>"

definition emptyWorld :: world where
  "emptyWorld = \<lparr>ops = [], report = Some (NewReport ''cleanup'' False ''repo'' [] [])\<rparr>"

lemma sample_image_call:
  "\<exists>w1. rejectedCall sampleEnv [(''abc-5'', [])] (NewStageID ''abc'' 5) AtImage (emptyWorld, []) = (AtTags [], w1, []) \<and>
    ops w1 = [DeleteRejectedStageImage (NewStageID ''abc'' 5)]"
proof -
  have "sliceAt [(''abc-5'', [])] (StageID_String (NewStageID ''abc'' 5)) = ([] :: string list)" by code_simp
  then show ?thesis by (simp add: issue_def sampleEnv_def emptyWorld_def)
qed

theorem dry_run_predicts_witness:
  "(\<exists>w'. deleteStageDescSet sampleEnv False [] True emptyWorld = Inr w' \<and>
      report w' = report (stateOf (deleteStageDescSet sampleEnv True [] True emptyWorld))) \<and>
    (\<exists>w'. deleteManagedImages sampleEnv [''app''] False emptyWorld = Inr w' \<and>
      report w' = report (stateOf (deleteManagedImages sampleEnv [''app''] True emptyWorld))) \<and>
    (\<exists>w'. deleteImageMetadata sampleEnv ''app'' [(''s1'', [''c1''])] False False emptyWorld = Inr w' \<and>
      report w' = report (stateOf (deleteImageMetadata sampleEnv ''app'' [(''s1'', [''c1''])] True False emptyWorld))) \<and>
    (\<exists>w'. deleteCustomTags sampleEnv [''v1''] False emptyWorld = Inr w' \<and>
      report w' = report (stateOf (deleteCustomTags sampleEnv [''v1''] True emptyWorld)))"
  by (rule dry_run_predicts) (simp_all add: neverFails_def sampleEnv_def)

theorem rejected_marker_last_witness:
  "\<exists>r. (rejectedStep sampleEnv [(''abc-5'', [])] [NewStageID ''abc'' 5])\<^sup>*\<^sup>* (startRejected [NewStageID ''abc'' 5] emptyWorld) r \<and>
    callsOf 0 (rrCalls r) = [DeleteRejectedStageImage (NewStageID ''abc'' 5), DeleteRejectedStageRecord (NewStageID ''abc'' 5)] \<and>
    outcome sampleEnv (ops emptyWorld) (DeleteRejectedStageImage (NewStageID ''abc'' 5)) = None"
proof -
  let ?S = "rejectedStep sampleEnv [(''abc-5'', [])] [NewStageID ''abc'' 5]" and ?id = "NewStageID ''abc'' 5"
  let ?r0 = "startRejected [?id] emptyWorld"
  obtain w1 where 1: "rejectedCall sampleEnv [(''abc-5'', [])] ?id AtImage (emptyWorld, []) = (AtTags [], w1, [])"
    "ops w1 = [DeleteRejectedStageImage ?id]"
    using sample_image_call by blast
  let ?r1 = "\<lparr>rrState = (w1, []), rrTasks = [AtTags []], rrCalls = [(0, DeleteRejectedStageImage ?id)]\<rparr>"
  obtain w2 where 2: "rejectedCall sampleEnv [(''abc-5'', [])] ?id (AtTags []) (w1, []) = (Returned None, w2, [StageID_String ?id])"
    "ops w2 = ops w1 @ [DeleteRejectedStageRecord ?id]"
    by (simp add: issue_def sampleEnv_def)
  let ?r2 = "\<lparr>rrState = (w2, [StageID_String ?id]), rrTasks = [Returned None],
    rrCalls = [(0, DeleteRejectedStageImage ?id), (0, DeleteRejectedStageRecord ?id)]\<rparr>"
  have "?S ?r0 ?r1"
    using rejectedStep.call [of 0 "[?id]" ?r0 sampleEnv "[(''abc-5'', [])]" "AtTags []" w1 "[]"] 1
    by (simp add: startRejected_def emptyWorld_def del: rejectedCall.simps)
  moreover have "?S ?r1 ?r2"
    using rejectedStep.call [of 0 "[?id]" ?r1 sampleEnv "[(''abc-5'', [])]" "Returned None" w2 "[StageID_String ?id]"] 1 2
    by (simp del: rejectedCall.simps)
  ultimately have r: "?S\<^sup>*\<^sup>* ?r0 ?r2" by (meson r_into_rtranclp rtranclp_trans)
  have "callsOf 0 (rrCalls ?r2) = rejectedPlan [(''abc-5'', [])] ?id \<and> outcome sampleEnv (ops emptyWorld @ map snd []) (DeleteRejectedStageImage ?id) = None"
    using rejected_marker_last [OF r, of 0 ?id] by fastforce
  then show ?thesis using r by (intro exI [of _ ?r2]) simp
qed

end
