(* ===== verification/Protection.thy ===== *)
theory Protection
  imports Storage MetaCleanup
begin

text \<open>
  Which stages a cleanup keeps, \<^verbatim>\<open>pkg/cleaning/cleanup.go\<close>: the stages used in Kubernetes
  (\<^verbatim>\<open>skipStageIDsThatAreUsedInKubernetes\<close> and its final counterpart), those built lately and those of the keep
  list (in \<^verbatim>\<open>run\<close>, \<^verbatim>\<open>markWhitelistStagesAsProtected\<close>), those the git history keeps (\<^verbatim>\<open>handleSavedStageIDs\<close>), and the
  relatives of the kept stages (\<^verbatim>\<open>protectRelativeStageDescSetByStageDesc\<close>). The worklist of the latter ends
  because each round either handles a stage for the first time or empties the list.
\<close>

section \<open>Kubernetes\<close>

record ContextResources =
  crContextName :: string
  crResourcesNames :: "string list"

record DeployedDockerImage =
  ddName :: string
  ddContextResources :: "ContextResources list"

text \<open>An image deployed in a cluster, \<^verbatim>\<open>allow_list.DeployedImage\<close>: its name and the resources that use it.\<close>

type_synonym DeployedImage = "string \<times> string list"

definition addResources :: "string \<Rightarrow> string list \<Rightarrow> DeployedDockerImage \<Rightarrow> DeployedDockerImage" where
  "addResources contextName resources desc =
     (if list_ex (\<lambda>cr. crContextName cr = contextName) (ddContextResources desc)
      then desc\<lparr>ddContextResources := changeFirst (\<lambda>cr. crContextName cr = contextName)
             (\<lambda>cr. cr\<lparr>crResourcesNames := crResourcesNames cr @ resources\<rparr>) (ddContextResources desc)\<rparr>
      else desc\<lparr>ddContextResources := ddContextResources desc @
             [\<lparr>crContextName = contextName, crResourcesNames = resources\<rparr>]\<rparr>)"

definition AppendContextDeployedDockerImages ::
  "DeployedDockerImage list \<Rightarrow> string \<Rightarrow> DeployedImage list \<Rightarrow> DeployedDockerImage list" where
  "AppendContextDeployedDockerImages res contextName images =
     foldl (\<lambda>res (name, resources).
         if list_ex (\<lambda>desc. ddName desc = name) res
         then changeFirst (\<lambda>desc. ddName desc = name) (addResources contextName resources) res
         else res @ [\<lparr>ddName = name,
                ddContextResources = [\<lparr>crContextName = contextName, crResourcesNames = resources\<rparr>]\<rparr>]) res images"

text \<open>
  \<^verbatim>\<open>deployedDockerImages\<close>: \<open>query\<close> is \<^verbatim>\<open>allow_list.DeployedDockerImages\<close> for a context and a namespace (the empty
  namespace means all of them).
\<close>

definition deployedDockerImages ::
  "(string \<Rightarrow> string \<Rightarrow> string + DeployedImage list) \<Rightarrow> string list \<Rightarrow> (string, string list) goMap \<Rightarrow>
     string + DeployedDockerImage list" where
  "deployedDockerImages query contextClients namespacesByContext =
     foldR (\<lambda>deployed contextName.
         let namespaces = sliceAt namespacesByContext contextName
         in foldR (\<lambda>deployed namespace. bindR (query contextName namespace) (\<lambda>images.
                Inr (AppendContextDeployedDockerImages deployed contextName images)))
              deployed (if namespaces = [] then [[]] else namespaces)) [] contextClients"

text \<open>\<^verbatim>\<open>handleTagFunc\<close>: run \<open>f\<close> once per stage, for a tag that is deployed.\<close>

definition handleTagFunc ::
  "string \<Rightarrow> DeployedDockerImage list \<Rightarrow> string \<Rightarrow> string \<Rightarrow> (Manager \<Rightarrow> Manager) \<Rightarrow> string list \<times> Manager \<Rightarrow>
     string list \<times> Manager" where
  "handleTagFunc address deployed tag stageID f st =
     (case st of (handled, m) \<Rightarrow>
        if list_ex (\<lambda>i. ddName i = address @ '':'' @ tag) deployed \<and> stageID \<notin> set handled
        then (stageID # handled, f m) else (handled, m))"

definition skipStageIDsThatAreUsedInKubernetes ::
  "string \<Rightarrow> DeployedDockerImage list \<Rightarrow> Manager \<Rightarrow> Manager" where
  "skipStageIDsThatAreUsedInKubernetes address deployed m =
     (let st1 = foldl (\<lambda>st d. let stageID = StageID_String (sdStageID d)
              in handleTagFunc address deployed stageID stageID
                   (\<lambda>m. Manager_MarkStageDescAsProtected m d ProtectionReasonKubernetesBasedPolicy False) st)
            ([], m) (stageDescSet (managed m));
          st2 = foldl (\<lambda>st (stageID, customTagList).
              foldl (\<lambda>st customTag. handleTagFunc address deployed customTag stageID
                  (\<lambda>m. case GetStageDescByStageID (managed m) stageID of
                     Some d \<Rightarrow> Manager_MarkStageDescAsProtected m d ProtectionReasonKubernetesBasedPolicy False
                   | None \<Rightarrow> ForgetCustomTagsByStageID m stageID) st) st customTagList)
            st1 (stageIDCustomTagList (snd st1))
      in snd st2)"

definition skipFinalStageIDsThatAreUsedInKubernetes ::
  "string \<Rightarrow> DeployedDockerImage list \<Rightarrow> Manager \<Rightarrow> Manager" where
  "skipFinalStageIDsThatAreUsedInKubernetes finalAddress deployed m =
     snd (foldl (\<lambda>st d. let stageID = StageID_String (sdStageID d)
            in handleTagFunc finalAddress deployed stageID stageID
                 (\<lambda>m. MarkFinalStageDescAsProtected m d ProtectionReasonKubernetesBasedPolicy False) st)
          ([], m) (stageDescSet (finalManaged m)))"

section \<open>Built within the last hours, keep list\<close>

text \<open>
  \<^verbatim>\<open>time.Since(t).Hours() <= float64(n)\<close> is compared in exact arithmetic; the floating point quotient
  agrees with it to the nanosecond for periods up to 2048 hours.
\<close>

definition builtWithin :: "int \<Rightarrow> nat \<Rightarrow> Info \<Rightarrow> bool" where
  "builtWithin now n info \<longleftrightarrow>
     list_ex (\<lambda>i. now - GetCreatedAt i \<le> int n * (3600 * 1000000000)) (if IsIndex info then Index info else [info])"

definition protectBuiltWithinLastNHours :: "int \<Rightarrow> MetaCleanup \<Rightarrow> nat option \<Rightarrow> Manager \<Rightarrow> nat \<times> Manager" where
  "protectBuiltWithinLastNHours now cfg keepOption m =
     (let n = (case keepOption of None \<Rightarrow> KeepImagesBuiltWithinLastNHours cfg | Some k \<Rightarrow> k)
      in (n, if DisableBuiltWithinLastNHoursPolicy cfg \<or> n = 0 then m
             else foldl (\<lambda>m d. if builtWithin now n (sdInfo d)
                then Manager_MarkStageDescAsProtected m d ProtectionReasonBuiltWithinLastNHoursPolicy False else m)
               m (stageDescSet (managed m))))"

definition markWhitelistStagesAsProtected :: "string list \<Rightarrow> Manager \<Rightarrow> Manager" where
  "markWhitelistStagesAsProtected keepList m =
     (if keepList = [] then m
      else foldl (\<lambda>m d. if Tag (sdInfo d) \<in> set keepList
             then Manager_MarkStageDescAsProtected m d ProtectionReasonKeepList False else m)
           m (stageDescSet (managed m)))"

definition handleSavedStageIDs :: "string list \<Rightarrow> Manager \<Rightarrow> cleanupError + Manager" where
  "handleSavedStageIDs savedStageIDs m =
     foldR (\<lambda>m stageID. case MarkStageDescAsProtectedByStageID m stageID ProtectionReasonGitPolicy True of
         None \<Rightarrow> Inl (Panicked (''stage description '' @ stageID @ '' not found''))
       | Some m' \<Rightarrow> Inr m') m savedStageIDs"

section \<open>Relatives of the kept stages\<close>

abbreviation WerfImportSourceStageIDLabelPrefix :: string where
  "WerfImportSourceStageIDLabelPrefix \<equiv> ''werf-import-source-stage-id-''"
abbreviation WerfImportSourceExternalImagePrefix :: string where
  "WerfImportSourceExternalImagePrefix \<equiv> ''external-image''"
abbreviation WerfDependencySourceStageIDLabelPrefix :: string where
  "WerfDependencySourceStageIDLabelPrefix \<equiv> ''werf-dependency-stage-id-''"
abbreviation WerfParentStageID :: string where
  "WerfParentStageID \<equiv> ''werf.io/parent-stage-id''"

text \<open>The stage a label refers to as an import or dependency source, with the reason to keep it.\<close>

definition labelSource :: "Manager \<Rightarrow> string \<times> string \<Rightarrow> (StageDesc \<times> protectionReason) option" where
  "labelSource m lv =
     (case lv of (label, val) \<Rightarrow>
        if HasPrefix label WerfImportSourceStageIDLabelPrefix then
          (if HasPrefix val WerfImportSourceExternalImagePrefix then None
           else map_option (\<lambda>d. (d, ProtectionReasonImportSource)) (GetStageDescByStageID (managed m) val))
        else if HasPrefix label WerfDependencySourceStageIDLabelPrefix then
          map_option (\<lambda>d. (d, ProtectionReasonDependencySource)) (GetStageDescByStageID (managed m) val)
        else None)"

definition parentOf :: "Manager \<Rightarrow> StageDesc \<Rightarrow> StageDesc option" where
  "parentOf m d = GetStageDescByStageID (managed m)
     (case map_of (Labels (sdInfo d)) WerfParentStageID of None \<Rightarrow> [] | Some v \<Rightarrow> v)"

text \<open>Mark a stage and put it on the worklist.\<close>

definition markAndAdd ::
  "Manager \<times> StageDesc list \<Rightarrow> (StageDesc \<times> protectionReason) option \<Rightarrow> Manager \<times> StageDesc list" where
  "markAndAdd mc src =
     (case mc of (m, current) \<Rightarrow>
        case src of None \<Rightarrow> (m, current)
        | Some (d, reason) \<Rightarrow> (Manager_MarkStageDescAsProtected m d reason False, snocNew current d))"

definition handleCurrent ::
  "bool \<Rightarrow> Manager \<times> StageDesc list \<times> StageDesc list \<Rightarrow> StageDesc \<Rightarrow> Manager \<times> StageDesc list \<times> StageDesc list" where
  "handleCurrent withSources st d =
     (case st of (m, handled, current) \<Rightarrow>
        let current1 = filter (\<lambda>x. x \<noteq> d) current
        in if d \<in> set handled then (m, handled, current1)
           else (let (m1, current2) = (if withSources
                       then foldl (\<lambda>mc lv. markAndAdd mc (labelSource (fst mc) lv)) (m, current1) (Labels (sdInfo d))
                       else (m, current1));
                     (m2, current3) = markAndAdd (m1, current2)
                       (map_option (\<lambda>p. (p, ProtectionReasonAncestor)) (parentOf m1 d))
                 in (m2, d # handled, current3)))"

section \<open>The worklist ends\<close>

definition knownStages :: "Manager \<Rightarrow> StageDesc set" where
  "knownStages m = snd ` set (stageDescByStageID (managed m))"

lemma finite_knownStages [simp]: "finite (knownStages m)"
  by (simp add: knownStages_def)

lemma lookup_known: "GetStageDescByStageID (managed m) i = Some d \<Longrightarrow> d \<in> knownStages m"
  unfolding GetStageDescByStageID_def knownStages_def by (force dest: map_of_SomeD)

lemma mark_stages [simp]:
  "stageDescByStageID (managed (Manager_MarkStageDescAsProtected m d r f)) = stageDescByStageID (managed m)"
  "finalManaged (Manager_MarkStageDescAsProtected m d r f) = finalManaged m"
  "stageIDCustomTagList (Manager_MarkStageDescAsProtected m d r f) = stageIDCustomTagList m"
  "imageMetadataList (Manager_MarkStageDescAsProtected m d r f) = imageMetadataList m"
  by (simp_all add: Manager_MarkStageDescAsProtected_def MarkStageDescAsProtected_def Let_def)

lemma mark_known [simp]: "knownStages (Manager_MarkStageDescAsProtected m d r f) = knownStages m"
  by (simp add: knownStages_def)

lemma labelSource_known: "labelSource m lv = Some (d, r) \<Longrightarrow> d \<in> knownStages m"
  by (cases lv) (auto simp: labelSource_def lookup_known split: if_splits)

lemma parentOf_known: "parentOf m d = Some p \<Longrightarrow> p \<in> knownStages m"
  by (auto simp: parentOf_def lookup_known)

text \<open>What the worklist never changes.\<close>

definition sameStages :: "Manager \<Rightarrow> Manager \<Rightarrow> bool" where
  "sameStages m m' \<longleftrightarrow> stageDescByStageID (managed m') = stageDescByStageID (managed m) \<and>
     stageDescSet (managed m') = stageDescSet (managed m) \<and> finalManaged m' = finalManaged m \<and>
     stageIDCustomTagList m' = stageIDCustomTagList m \<and> imageMetadataList m' = imageMetadataList m"

lemma sameStages_refl [simp]: "sameStages m m"
  by (simp add: sameStages_def)

lemma sameStages_trans: "sameStages m m' \<Longrightarrow> sameStages m' m'' \<Longrightarrow> sameStages m m''"
  by (simp add: sameStages_def)

lemma sameStages_mark [simp]: "sameStages m (Manager_MarkStageDescAsProtected m' d r f) = sameStages m m'"
  using mgr.members_mark [of m' d r f] by (simp add: sameStages_def)

lemma sameStages_known: "sameStages m m' \<Longrightarrow> knownStages m' = knownStages m"
  by (simp add: sameStages_def knownStages_def)

lemma sameStages_lookup:
  assumes "sameStages m m'"
  shows "GetStageDescByStageID (managed m') = GetStageDescByStageID (managed m)"
    and "labelSource m' = labelSource m" and "parentOf m' = parentOf m"
proof -
  show l: "GetStageDescByStageID (managed m') = GetStageDescByStageID (managed m)"
    using assms by (auto simp: sameStages_def GetStageDescByStageID_def)
  then show "labelSource m' = labelSource m" "parentOf m' = parentOf m"
    by (auto simp: fun_eq_iff labelSource_def parentOf_def)
qed

text \<open>The effect of handling a stage for the first time: its sources and its parent are marked and added.\<close>

definition sources :: "Manager \<Rightarrow> bool \<Rightarrow> StageDesc \<Rightarrow> StageDesc set" where
  "sources m withSources d = set_option (parentOf m d) \<union>
     (if withSources then {s. \<exists>lv \<in> set (Labels (sdInfo d)). \<exists>r. labelSource m lv = Some (s, r)} else {})"

lemma sources_known: "sources m b d \<subseteq> knownStages m"
  by (auto simp: sources_def labelSource_known parentOf_known)

definition labelSources :: "Manager \<Rightarrow> (string \<times> string) list \<Rightarrow> StageDesc set" where
  "labelSources m lvs = {s. \<exists>lv \<in> set lvs. \<exists>r. labelSource m lv = Some (s, r)}"

lemma labelSources_simps [simp]:
  "labelSources m [] = {}"
  "labelSources m (lv # lvs) = (case labelSource m lv of None \<Rightarrow> {} | Some (s, r) \<Rightarrow> {s}) \<union> labelSources m lvs"
  by (auto simp: labelSources_def split: option.splits)

lemma markAndAdd_fold:
  assumes "foldl (\<lambda>mc lv. markAndAdd mc (labelSource (fst mc) lv)) (m, c) lvs = (m', c')"
  shows "sameStages m m' \<and> set c' = set c \<union> labelSources m lvs \<and>
    (metaOk (managed m) \<longrightarrow> metaOk (managed m') \<and>
      protectedSet (managed m') = protectedSet (managed m) \<union> labelSources m lvs)"
  using assms
proof (induction lvs arbitrary: m c)
  case Nil
  then show ?case by simp
next
  case (Cons lv lvs)
  show ?case
  proof (cases "labelSource m lv")
    case None
    with Cons show ?thesis by (simp add: markAndAdd_def)
  next
    case (Some sr)
    obtain s r where sr: "sr = (s, r)" by fastforce
    let ?m = "Manager_MarkStageDescAsProtected m s r False"
    have same: "sameStages m ?m" by simp
    have ls: "labelSources ?m lvs = labelSources m lvs" for lvs
      unfolding labelSources_def sameStages_lookup(2) [OF same] ..
    have "foldl (\<lambda>mc lv. markAndAdd mc (labelSource (fst mc) lv)) (?m, snocNew c s) lvs = (m', c')"
      using Cons.prems Some sr by (simp add: markAndAdd_def)
    from Cons.IH [OF this] show ?thesis
      using Some sr sameStages_trans [OF same] by (auto simp: ls mgr.ok_mark mgr.prot_mark)
  qed
qed

lemma sources_eq:
  "sources m b d = set_option (parentOf m d) \<union> (if b then labelSources m (Labels (sdInfo d)) else {})"
  by (simp add: sources_def labelSources_def)

lemma handleCurrent_new:
  assumes "handleCurrent b (m, handled, current) d = (m', handled', current')" and "d \<notin> set handled"
  shows "sameStages m m' \<and> handled' = d # handled \<and> set current' = (set current - {d}) \<union> sources m b d \<and>
    (metaOk (managed m) \<longrightarrow> metaOk (managed m') \<and>
      protectedSet (managed m') = protectedSet (managed m) \<union> sources m b d)"
proof -
  let ?c1 = "filter (\<lambda>x. x \<noteq> d) current"
  obtain m1 c2 where f: "(if b then foldl (\<lambda>mc lv. markAndAdd mc (labelSource (fst mc) lv)) (m, ?c1) (Labels (sdInfo d))
      else (m, ?c1)) = (m1, c2)" by fastforce
  define S where "S = (if b then labelSources m (Labels (sdInfo d)) else {})"
  have m1: "sameStages m m1" "set c2 = (set current - {d}) \<union> S"
    "metaOk (managed m) \<Longrightarrow> metaOk (managed m1) \<and> protectedSet (managed m1) = protectedSet (managed m) \<union> S"
    using f markAndAdd_fold [of m ?c1 "Labels (sdInfo d)" m1 c2] by (auto simp: S_def split: if_splits)
  have add: "markAndAdd (m1, c2) (map_option (\<lambda>p. (p, ProtectionReasonAncestor)) (parentOf m d)) = (m', current')"
    and h: "handled' = d # handled"
    using assms f sameStages_lookup(3) [OF m1(1)] by (auto simp: handleCurrent_def Let_def split: prod.splits)
  show ?thesis
  proof (cases "parentOf m d")
    case None
    with add h m1 show ?thesis by (auto simp: markAndAdd_def sources_eq S_def)
  next
    case (Some p)
    with add have "m' = Manager_MarkStageDescAsProtected m1 p ProtectionReasonAncestor False" "current' = snocNew c2 p"
      by (auto simp: markAndAdd_def)
    with Some h m1 show ?thesis by (auto simp: sources_eq S_def mgr.ok_mark mgr.prot_mark)
  qed
qed

lemma handleCurrent_old:
  "d \<in> set handled \<Longrightarrow> handleCurrent b (m, handled, current) d = (m, handled, filter (\<lambda>x. x \<noteq> d) current)"
  by (simp add: handleCurrent_def Let_def)

text \<open>One round of the worklist over a snapshot \<open>xs\<close>.\<close>

lemma round_effect:
  assumes "foldl (handleCurrent b) (m, handled, current) xs = (m', handled', current')"
  shows "sameStages m m' \<and> set handled' = set handled \<union> set xs \<and>
    set current' \<subseteq> (set current - set xs) \<union> knownStages m \<and>
    (set xs \<subseteq> set handled \<longrightarrow> current' = filter (\<lambda>x. x \<notin> set xs) current)"
  using assms
proof (induction xs arbitrary: m handled current)
  case Nil
  then show ?case by simp
next
  case (Cons d xs)
  obtain m1 h1 c1 where one: "handleCurrent b (m, handled, current) d = (m1, h1, c1)" by (cases "handleCurrent b (m, handled, current) d")
  with Cons.prems have rest: "foldl (handleCurrent b) (m1, h1, c1) xs = (m', handled', current')" by simp
  note IH = Cons.IH [OF rest]
  show ?case
  proof (cases "d \<in> set handled")
    case True
    with one have eq: "m1 = m" "h1 = handled" "c1 = filter (\<lambda>x. x \<noteq> d) current"
      by (auto simp: handleCurrent_old)
    have "filter (\<lambda>x. x \<notin> set xs) (filter (\<lambda>x. x \<noteq> d) current) = filter (\<lambda>x. x \<notin> set (d # xs)) current"
      by (auto simp: filter_filter intro: filter_cong)
    with IH eq True show ?thesis by auto
  next
    case False
    note new = handleCurrent_new [OF one False]
    then have known: "knownStages m1 = knownStages m" by (simp add: sameStages_known)
    have "set c1 \<subseteq> (set current - {d}) \<union> knownStages m" using new sources_known [of m b d] by auto
    with IH known new False show ?thesis by (auto intro: sameStages_trans)
  qed
qed

lemma round_measure:
  assumes "foldl (handleCurrent b) (m, handled, current) current = (m', handled', current')" and "current \<noteq> []"
  shows "card ((knownStages m' \<union> set current') - set handled') < card ((knownStages m \<union> set current) - set handled)
    \<or> (card ((knownStages m' \<union> set current') - set handled') = card ((knownStages m \<union> set current) - set handled)
        \<and> length current' < length current)"
proof -
  let ?U = "knownStages m \<union> set current" and ?U' = "knownStages m' \<union> set current'"
  note r = round_effect [OF assms(1)]
  have sub: "?U' - set handled' \<subseteq> ?U - set handled" using r sameStages_known by fastforce
  have fin: "finite (?U - set handled)" by simp
  show ?thesis
  proof (cases "set current \<subseteq> set handled")
    case True
    then have "current' = []" using r by simp
    then show ?thesis using card_mono [OF fin sub] assms(2) by auto
  next
    case False
    then obtain x where "x \<in> set current" "x \<notin> set handled" by blast
    then have "x \<in> ?U - set handled" "x \<notin> ?U' - set handled'" using r by auto
    then have "?U' - set handled' \<subset> ?U - set handled" using sub by blast
    then show ?thesis using psubset_card_mono [OF fin] by blast
  qed
qed

function (sequential) protectLoop ::
  "bool \<Rightarrow> Manager \<times> StageDesc list \<times> StageDesc list \<Rightarrow> Manager \<times> StageDesc list" where
  "protectLoop b (m, handled, []) = (m, handled)"
| "protectLoop b (m, handled, current) = protectLoop b (foldl (handleCurrent b) (m, handled, current) current)"
  by pat_completeness auto
termination
proof (relation "measures [\<lambda>(b, m, handled, current). card ((knownStages m \<union> set current) - set handled),
    \<lambda>(b, m, handled, current). length current]")
  fix b m handled d ds
  let ?c = "d # ds :: StageDesc list"
  obtain m' handled' current' where r: "foldl (handleCurrent b) (m, handled, ?c) ?c = (m', handled', current')"
    by (cases "foldl (handleCurrent b) (m, handled, ?c) ?c")
  show "((b, foldl (handleCurrent b) (m, handled, ?c) ?c), b, m, handled, ?c)
    \<in> measures [\<lambda>(b, m, handled, current). card ((knownStages m \<union> set current) - set handled),
    \<lambda>(b, m, handled, current). length current]"
    unfolding r using round_measure [OF r] by auto
qed simp

declare protectLoop.simps(2) [simp del]

section \<open>The stages of an index\<close>

text \<open>The first stage with the digest of a platform image; a malformed repository digest panics.\<close>

fun stageByDigest :: "string \<Rightarrow> StageDesc list \<Rightarrow> cleanupError + StageDesc option" where
  "stageByDigest digest [] = Inr None"
| "stageByDigest digest (d # ds) =
     (case GetDigest (sdInfo d) of
        None \<Rightarrow> Inl (Panicked ''unexpected repo digest'')
      | Some g \<Rightarrow> if g = digest then Inr (Some d) else stageByDigest digest ds)"

definition platformStage ::
  "Manager \<times> StageDesc list \<Rightarrow> Info \<Rightarrow> cleanupError + (Manager \<times> StageDesc list)" where
  "platformStage mt platformImageInfo =
     (case mt of (m, targets) \<Rightarrow>
        case GetDigest platformImageInfo of
          None \<Rightarrow> Inl (Panicked ''unexpected repo digest'')
        | Some digest \<Rightarrow>
            if digest = [] then Inr (m, targets)
            else bindR (stageByDigest digest (stageDescSet (managed m))) (\<lambda>found.
              Inr (markAndAdd (m, targets) (map_option (\<lambda>d. (d, ProtectionReasonImageIndexPlatform)) found))))"

definition protectRelativeStageDescSetByStageDesc ::
  "StageDesc \<Rightarrow> bool \<Rightarrow> StageDesc list \<times> Manager \<Rightarrow> cleanupError + (StageDesc list \<times> Manager)" where
  "protectRelativeStageDescSetByStageDesc target withSources hm =
     (case hm of (handled, m) \<Rightarrow>
        bindR (if IsIndex (sdInfo target) then foldR platformStage (m, []) (Index (sdInfo target))
               else Inr (m, [target])) (\<lambda>(m1, targets).
          let (m2, handled2) = protectLoop withSources (m1, handled, targets) in Inr (handled2, m2)))"

text \<open>
  The first loop of \<^verbatim>\<open>cleanupUnusedStages\<close>, over the protected stages by reason: only the git policy goes
  without import and dependency sources.
\<close>

definition protectRelatives :: "Manager \<Rightarrow> cleanupError + (StageDesc list \<times> Manager)" where
  "protectRelatives m =
     foldR (\<lambda>hm (reason, stageDescToKeepSet).
         foldR (\<lambda>hm d. protectRelativeStageDescSetByStageDesc d (reason \<noteq> Some ProtectionReasonGitPolicy) hm) hm stageDescToKeepSet)
       ([], m) (GetProtectedStageDescSetByReason (managed m))"

end
