(* ===== verification/Cleanup.thy ===== *)
theory Cleanup
  imports Deletions Protection
begin

text \<open>
  The cleanup itself, \<^verbatim>\<open>cleanupManager\<close> of \<^verbatim>\<open>pkg/cleaning/cleanup.go\<close>: fetching the state (\<^verbatim>\<open>init\<close>), the policies
  that keep stages, the deletion of rejected, unused and final stages, of metadata, custom tags and
  orphaned artifacts (\<^verbatim>\<open>run\<close>). The tasks of a bulk operation run in the order of theory \<open>Parallel\<close>. Arguments stand
  for the storage, go-git, the clusters, the clock and the functions of the \<^verbatim>\<open>util\<close> package.
\<close>

section \<open>State and surroundings\<close>

record cleanupEnv =
  storage :: storageEnv
  PlainOpen :: "gitError + gitRepository"
  commits :: gitCommits
  IsCommitExists :: "string \<Rightarrow> string + bool"
  kubeQuery :: "string \<Rightarrow> string \<Rightarrow> string + DeployedImage list"
  now :: int
  refPerm :: "refPtr list \<Rightarrow> refPtr list"
  commitPerm :: "Commit list \<Rightarrow> Commit list"
  UniqStrings :: "string list \<Rightarrow> string list"
  AddNewStringsToStringArray :: "string list \<Rightarrow> string list \<Rightarrow> string list"
  ExcludeFromStringArray :: "string list \<Rightarrow> string list \<Rightarrow> string list"
  parallelTasksLimit :: int

record CleanupOptions =
  coImageNameList :: "string list"
  KubernetesContextClients :: "string list"
  KubernetesNamespacesByContext :: "(string, string list) goMap"
  WithoutKube :: bool
  ConfigMetaCleanup :: MetaCleanup
  KeepStagesBuiltWithinLastNHours :: "nat option"
  DryRun :: bool
  KeepList :: "string list"

record cleanupManager =
  stageManager :: Manager
  ImageNameList :: "string list"
  cworld :: world

definition newCleanupManager :: "CleanupOptions \<Rightarrow> Report option \<Rightarrow> cleanupManager" where
  "newCleanupManager options rep =
     \<lparr>stageManager = NewManager, ImageNameList = coImageNameList options, cworld = \<lparr>ops = [], report = rep\<rparr>\<rparr>"

text \<open>A step on the storage, inside the cleanup's state.\<close>

definition onWorld :: "(world \<Rightarrow> world result) \<Rightarrow> cleanupManager \<Rightarrow> cleanupManager result" where
  "onWorld f cm = (case f (cworld cm) of
     Inl (e, w) \<Rightarrow> Inl (e, cm\<lparr>cworld := w\<rparr>) | Inr w \<Rightarrow> Inr (cm\<lparr>cworld := w\<rparr>))"

text \<open>A pure step that may fail.\<close>

definition orFail :: "cleanupManager \<Rightarrow> cleanupError + 'a \<Rightarrow> ('a \<Rightarrow> cleanupManager result) \<Rightarrow> cleanupManager result" where
  "orFail cm r f = (case r of Inl e \<Rightarrow> Inl (e, cm) | Inr a \<Rightarrow> f a)"

definition readErr :: "string + 'a \<Rightarrow> cleanupError + 'a" where
  "readErr r = (case r of Inl e \<Rightarrow> Inl (ReadFailed e) | Inr a \<Rightarrow> Inr a)"

section \<open>Fetching\<close>

definition init :: "cleanupEnv \<Rightarrow> cleanupManager \<Rightarrow> cleanupManager result" where
  "init env cm =
     (let os = ops (cworld cm); st = storage env
      in orFail cm (case GetFinalStageDescSetOf st of None \<Rightarrow> Inr (stageManager cm)
           | Some get \<Rightarrow> bindR (readErr (get os)) (\<lambda>ds.
               Inr ((stageManager cm)\<lparr>finalManaged := newManagedStageDescSet ds\<rparr>))) (\<lambda>m1.
         let cm1 = cm\<lparr>stageManager := m1\<rparr>
         in orFail cm1 (readErr (GetManagedImages st os)) (\<lambda>publishedNames.
         let names = sort (UniqStrings env (publishedNames @ ImageNameList cm1));
             cm2 = cm1\<lparr>ImageNameList := names\<rparr>
         in orFail cm2 (readErr (GetStageDescSetWithCache st os)) (\<lambda>ds.
         let cm3 = cm2\<lparr>stageManager := m1\<lparr>managed := newManagedStageDescSet ds\<rparr>\<rparr>
         in orFail cm3 (bindR (readErr (GetAllAndGroupImageMetadata st os names)) (\<lambda>(byImage, byNotManagedImage).
              readErr (InitImagesMetadata (IsCommitExists env) byImage byNotManagedImage (stageManager cm3)))) (\<lambda>m4.
         let cm4 = cm3\<lparr>stageManager := m4\<rparr>
         in orFail cm4 (GetCustomTagsMetadata st os) (\<lambda>tags.
              Inr (cm4\<lparr>stageManager := m4\<lparr>stageIDCustomTagList := tags\<rparr>\<rparr>)))))))"

section \<open>Image metadata\<close>

definition countStageIDCommitList :: "(string, string list) goMap \<Rightarrow> nat" where
  "countStageIDCommitList m = sum_list (map (\<lambda>(stageID, commitList). length commitList) m)"

text \<open>The metadata to delete for an image that has been scanned.\<close>

definition metadataToDelete ::
  "cleanupEnv \<Rightarrow> (string, string list) goMap \<Rightarrow> (string, string list) goMap \<Rightarrow> string list \<Rightarrow> (string, string list) goMap" where
  "metadataToDelete env toCleanup hits stageIDsToUnlink =
     map (\<lambda>(stageID, commitList). (stageID,
        if stageID \<in> set stageIDsToUnlink then commitList
        else (case map_of hits stageID of None \<Rightarrow> commitList
              | Some hitCommitList \<Rightarrow> ExcludeFromStringArray env commitList hitCommitList))) toCleanup"

definition cleanupImageMetadata ::
  "cleanupEnv \<Rightarrow> CleanupOptions \<Rightarrow> string \<Rightarrow> (string, string list) goMap \<Rightarrow> string list \<Rightarrow> cleanupManager \<Rightarrow> cleanupManager result" where
  "cleanupImageMetadata env opts imageName hits stageIDsToUnlink cm =
     (let m = stageManager cm;
          del = (\<lambda>stageIDCommitList cm. if countStageIDCommitList stageIDCommitList \<noteq> 0
             then onWorld (deleteImageMetadata (storage env) imageName stageIDCommitList (DryRun opts) False) cm
             else Inr cm)
      in bindR (if countStageIDCommitList hits \<noteq> 0 \<or> stageIDsToUnlink \<noteq> []
                then del (metadataToDelete env (GetStageIDCommitListToCleanup m imageName) hits stageIDsToUnlink) cm
                else Inr cm) (\<lambda>cm.
         bindR (del (GetNonexistentStageIDCommitList m imageName) cm) (\<lambda>cm.
           del (GetStageIDNonexistentCommitList m imageName) cm)))"

definition cleanupNonexistentImageMetadata :: "cleanupEnv \<Rightarrow> CleanupOptions \<Rightarrow> cleanupManager \<Rightarrow> cleanupManager result" where
  "cleanupNonexistentImageMetadata env opts cm =
     (let byImage = GetStageIDCommitListByNonexistentImage (stageManager cm)
      in if sum_list (map (\<lambda>(imageName, l). countStageIDCommitList l) byImage) = 0 then Inr cm
         else foldR (\<lambda>cm (imageMetadataID, stageIDCommitList).
                onWorld (deleteImageMetadata (storage env) imageMetadataID stageIDCommitList (DryRun opts) True) cm) cm byImage)"

section \<open>The git history\<close>

definition gitHistoryOfImage ::
  "cleanupEnv \<Rightarrow> CleanupOptions \<Rightarrow> ReferenceToScan list \<Rightarrow> cleanupManager \<Rightarrow> string \<times> (string, string list) goMap \<Rightarrow>
     cleanupManager result" where
  "gitHistoryOfImage env opts refs cm img =
     (case img of (imageName, stageIDCommitList) \<Rightarrow>
        orFail cm (if countStageIDCommitList stageIDCommitList \<noteq> 0
             then (case ScanReferencesHistory (AddNewStringsToStringArray env) (commits env) (commitPerm env) (now env)
                        refs stageIDCommitList of Inl e \<Rightarrow> Inl (GitScanFailed e) | Inr r \<Rightarrow> Inr r)
             else Inr ([], [])) (\<lambda>(reachedStageIDs, hits).
          let stageIDToUnlink = filter (\<lambda>stageID. stageID \<notin> set reachedStageIDs) (map fst stageIDCommitList)
          in orFail cm (if reachedStageIDs \<noteq> [] then handleSavedStageIDs reachedStageIDs (stageManager cm)
                        else Inr (stageManager cm)) (\<lambda>m.
               cleanupImageMetadata env opts imageName hits stageIDToUnlink (cm\<lparr>stageManager := m\<rparr>))))"

definition gitHistoryBasedCleanup :: "cleanupEnv \<Rightarrow> CleanupOptions \<Rightarrow> cleanupManager \<Rightarrow> cleanupManager result" where
  "gitHistoryBasedCleanup env opts cm =
     orFail cm (case PlainOpen env of Inl e \<Rightarrow> Inl (GitReferencesFailed e) | Inr repo \<Rightarrow>
          (case ReferencesToScan repo (refPerm env) (now env) (KeepPolicies (ConfigMetaCleanup opts)) of
             Inl e \<Rightarrow> Inl (GitReferencesFailed e) | Inr refs \<Rightarrow> Inr refs)) (\<lambda>refs.
       let images = GetImageStageIDCommitListToCleanup (stageManager cm)
       in bindR (DoTasks (length images) (parallelTasksLimit env) (\<lambda>cm i. gitHistoryOfImage env opts refs cm (images ! i)) cm)
            (cleanupNonexistentImageMetadata env opts))"

section \<open>Rejected, unused and final stages\<close>

definition forgetRejected :: "string list \<Rightarrow> Manager \<Rightarrow> Manager" where
  "forgetRejected deletedStageIDs m =
     (let (m1, forgotten) = foldl (\<lambda>(m, forgotten) stageIDStr.
            let m' = ForgetCustomTagsByStageID m stageIDStr
            in (m', case GetStageDescByStageID (managed m') stageIDStr of
                      None \<Rightarrow> forgotten | Some d \<Rightarrow> snocNew forgotten d)) (m, []) deletedStageIDs
      in if forgotten \<noteq> [] then ForgetDeletedStageDescSet m1 forgotten else m1)"

definition cleanupRejectedStages :: "cleanupEnv \<Rightarrow> CleanupOptions \<Rightarrow> cleanupManager \<Rightarrow> cleanupManager result" where
  "cleanupRejectedStages env opts cm =
     (case deleteRejectedStagesWithLinkedTags (storage env) (stageIDCustomTagList (stageManager cm)) (DryRun opts) (cworld cm) of
        Inl (e, (w, _)) \<Rightarrow> Inl (e, cm\<lparr>cworld := w\<rparr>)
      | Inr (w, deletedStageIDs) \<Rightarrow>
          if DryRun opts then Inr (cm\<lparr>cworld := w\<rparr>)
          else Inr (cm\<lparr>cworld := w, stageManager := forgetRejected deletedStageIDs (stageManager cm)\<rparr>))"

definition reasonText :: "nat \<Rightarrow> protectionReason option \<Rightarrow> string" where
  "reasonText hours r = (case r of None \<Rightarrow> [] | Some r \<Rightarrow> protectionReason_String (Some hours) r)"

definition reportKeptStages ::
  "ItemType \<Rightarrow> nat \<Rightarrow> (protectionReason option, StageDesc list) goMap \<Rightarrow> world \<Rightarrow> world" where
  "reportKeptStages t hours byReason w =
     foldl (\<lambda>w (reason, ds). foldl (\<lambda>w d.
       reportKept ((tagItem t (Tag (sdInfo d)))\<lparr>itReason := reasonText hours reason\<rparr>) w) w ds) w byReason"

definition deleteUnusedCustomTags :: "cleanupEnv \<Rightarrow> CleanupOptions \<Rightarrow> cleanupManager \<Rightarrow> cleanupManager result" where
  "deleteUnusedCustomTags env opts cm =
     (let tagList = stageIDCustomTagList (stageManager cm);
          toDelete = concat (map snd (filter (\<lambda>(stageID, ts). \<not> ContainsStageDescByStageID (stageManager cm) stageID) tagList));
          toKeep = concat (map snd (filter (\<lambda>(stageID, ts). ContainsStageDescByStageID (stageManager cm) stageID) tagList));
          cm1 = cm\<lparr>cworld := foldl (\<lambda>w t. reportKept (tagItem ItemTypeCustomTag t) w) (cworld cm) toKeep\<rparr>
      in if tagList = [] then Inr cm
         else if toDelete \<noteq> [] then onWorld (deleteCustomTags (storage env) toDelete (DryRun opts)) cm1
         else Inr cm1)"

definition cleanupUnusedStages :: "cleanupEnv \<Rightarrow> CleanupOptions \<Rightarrow> nat \<Rightarrow> cleanupManager \<Rightarrow> cleanupManager result" where
  "cleanupUnusedStages env opts hours cm =
     orFail cm (protectRelatives (stageManager cm)) (\<lambda>(handled, m).
       let cm1 = cm\<lparr>stageManager := m,
             cworld := reportKeptStages ItemTypeStage hours (GetProtectedStageDescSetByReason (managed m)) (cworld cm)\<rparr>;
           protected = GetProtectedStageDescSet (managed m);
           toDelete = filter (\<lambda>d. d \<notin> set protected) (stageDescSet (managed m))
       in bindR (if toDelete \<noteq> [] then
               bindR (onWorld (deleteStageDescSet (storage env) (DryRun opts) toDelete False) cm1) (\<lambda>cm2.
                 Inr (cm2\<lparr>stageManager := ForgetDeletedStageDescSet (stageManager cm2) toDelete\<rparr>))
             else Inr cm1)
            (deleteUnusedCustomTags env opts))"

definition cleanupFinalStages :: "cleanupEnv \<Rightarrow> CleanupOptions \<Rightarrow> nat \<Rightarrow> cleanupManager \<Rightarrow> cleanupManager result" where
  "cleanupFinalStages env opts hours cm =
     (let m = foldl (\<lambda>m d. if ContainsStageDescByStageID m (StageID_String (sdStageID d))
                then MarkFinalStageDescAsProtected m d ProtectionReasonFoundInRepo False else m)
              (stageManager cm) (stageDescSet (finalManaged (stageManager cm)));
          cm1 = cm\<lparr>stageManager := m,
             cworld := reportKeptStages ItemTypeFinalStage hours (GetProtectedStageDescSetByReason (finalManaged m)) (cworld cm)\<rparr>;
          protected = GetProtectedStageDescSet (finalManaged m);
          toDelete = filter (\<lambda>d. d \<notin> set protected) (stageDescSet (finalManaged m))
      in if toDelete \<noteq> [] then
           bindR (onWorld (deleteStageDescSet (storage env) (DryRun opts) toDelete True) cm1) (\<lambda>cm2.
             Inr (cm2\<lparr>stageManager := ForgetDeletedFinalStageDescSet (stageManager cm2) toDelete\<rparr>))
         else Inr cm1)"

section \<open>The run\<close>

definition kubernetesPolicy :: "cleanupEnv \<Rightarrow> CleanupOptions \<Rightarrow> cleanupManager \<Rightarrow> cleanupManager result" where
  "kubernetesPolicy env opts cm =
     (if WithoutKube opts \<or> DisableKubernetesBasedPolicy (ConfigMetaCleanup opts) then Inr cm
      else if KubernetesContextClients opts = [] then Inl (KubernetesAccessRequired, cm)
      else orFail cm (readErr (deployedDockerImages (kubeQuery env) (KubernetesContextClients opts)
               (KubernetesNamespacesByContext opts))) (\<lambda>deployed.
             Inr (cm\<lparr>stageManager := skipFinalStageIDsThatAreUsedInKubernetes (FinalAddress (storage env)) deployed
               (skipStageIDsThatAreUsedInKubernetes (Address (storage env)) deployed (stageManager cm))\<rparr>)))"

definition postLastCleanupRecord :: "cleanupEnv \<Rightarrow> CleanupOptions \<Rightarrow> cleanupManager \<Rightarrow> cleanupManager result" where
  "postLastCleanupRecord env opts cm =
     (if DryRun opts then Inr cm
      else Inr (cm\<lparr>cworld := fst (issue (storage env) PostLastCleanupRecord (cworld cm))\<rparr>))"

text \<open>What \<^verbatim>\<open>run\<close> does once the policies have been applied, from the rejected stages on.\<close>

definition deletionPhase :: "cleanupEnv \<Rightarrow> CleanupOptions \<Rightarrow> nat \<Rightarrow> cleanupManager \<Rightarrow> cleanupManager result" where
  "deletionPhase env opts hours cm =
     bindR (cleanupRejectedStages env opts cm) (\<lambda>cm.
     bindR (cleanupUnusedStages env opts hours cm) (\<lambda>cm.
     bindR (if GetFinalStageDescSetOf (storage env) \<noteq> None then cleanupFinalStages env opts hours cm else Inr cm) (\<lambda>cm.
     bindR (onWorld (cleanupOrphanedArtifacts (storage env) (DryRun opts)) cm) (\<lambda>cm.
       postLastCleanupRecord env opts cm))))"

definition run :: "cleanupEnv \<Rightarrow> CleanupOptions \<Rightarrow> cleanupManager \<Rightarrow> cleanupManager result" where
  "run env opts cm =
     (let cfg = ConfigMetaCleanup opts
      in if DisableCleanup cfg then
           bindR (onWorld (purgeManagedImages (storage env) (DryRun opts)) cm) (\<lambda>cm.
             onWorld (purgeImageMetadata (storage env) (DryRun opts)) cm)
         else
           bindR (init env cm) (\<lambda>cm.
           bindR (kubernetesPolicy env opts cm) (\<lambda>cm.
           bindR (if \<not> DisableGitHistoryBasedPolicy cfg then gitHistoryBasedCleanup env opts cm
                  else onWorld (purgeImageMetadata (storage env) (DryRun opts)) cm) (\<lambda>cm.
           let (hours, m) = protectBuiltWithinLastNHours (now env) cfg (KeepStagesBuiltWithinLastNHours opts) (stageManager cm);
               m' = markWhitelistStagesAsProtected (KeepList opts) m
           in deletionPhase env opts hours (cm\<lparr>stageManager := m'\<rparr>)))))"

definition Cleanup :: "cleanupEnv \<Rightarrow> CleanupOptions \<Rightarrow> Report option \<Rightarrow> cleanupManager result" where
  "Cleanup env opts rep = run env opts (newCleanupManager opts rep)"

end
