(* ===== verification/ProtectionProps.thy ===== *)
theory ProtectionProps
  imports Protection
begin

text \<open>
  What the protection of relatives guarantees: the kept stages are closed under parents, under the
  platform stages of a kept index, and (without the git policy) under import and dependency sources.
\<close>

section \<open>An invariant of the worklist\<close>

text \<open>
  With \<open>P0\<close> the stages protected at the start: the stages handled and waiting are protected, nothing
  else has become protected, and the sources of a handled stage are handled or waiting.
\<close>

definition relInv ::
  "bool \<Rightarrow> Manager \<Rightarrow> StageDesc set \<Rightarrow> Manager \<times> StageDesc list \<times> StageDesc list \<Rightarrow> bool" where
  "relInv b0 m0 P0 st \<longleftrightarrow> (case st of (m, h, c) \<Rightarrow>
     metaOk (managed m) \<and> sameStages m0 m \<and> P0 \<subseteq> protectedSet (managed m) \<and>
     (\<forall>d \<in> set h. sources m0 b0 d \<subseteq> set h \<union> set c) \<and>
     set h \<union> set c \<subseteq> protectedSet (managed m) \<and>
     protectedSet (managed m) \<subseteq> P0 \<union> set h \<union> set c)"

lemma sources_same: "sameStages m0 m \<Longrightarrow> sources m = sources m0"
  by (rule ext)+ (simp add: sources_def sameStages_lookup)

lemma sources_mono: "(b0 \<longrightarrow> b) \<Longrightarrow> sources m b0 d \<subseteq> sources m b d"
  by (auto simp: sources_def)

lemma relInv_handleCurrent:
  assumes "relInv b0 m0 P0 (m, h, c)" and "d \<in> set h \<union> set c" and "b0 \<longrightarrow> b"
    and "handleCurrent b (m, h, c) d = (m', h', c')"
  shows "relInv b0 m0 P0 (m', h', c') \<and> set h \<union> set c \<subseteq> set h' \<union> set c'"
proof (cases "d \<in> set h")
  case True
  with assms(4) have "m' = m" "h' = h" "c' = filter (\<lambda>x. x \<noteq> d) c" by (auto simp: handleCurrent_old)
  moreover from this True have "set h' \<union> set c' = set h \<union> set c" by auto
  ultimately show ?thesis using assms(1) by (auto simp: relInv_def)
next
  case False
  have inv: "metaOk (managed m)" "sameStages m0 m" "P0 \<subseteq> protectedSet (managed m)"
    "\<forall>d \<in> set h. sources m0 b0 d \<subseteq> set h \<union> set c" "set h \<union> set c \<subseteq> protectedSet (managed m)"
    "protectedSet (managed m) \<subseteq> P0 \<union> set h \<union> set c"
    using assms(1) by (auto simp: relInv_def)
  note new = handleCurrent_new [OF assms(4) False]
  have S: "sources m b d = sources m0 b d" using sources_same [OF inv(2)] by simp
  have un: "set h' \<union> set c' = set h \<union> set c \<union> sources m0 b d" using new assms(2) S by auto
  have "sources m0 b0 x \<subseteq> set h' \<union> set c'" if "x \<in> set h'" for x
    using that new inv(4) sources_mono [OF assms(3), of m0 d] un by auto
  moreover have "protectedSet (managed m') = protectedSet (managed m) \<union> sources m0 b d" using new inv(1) S by simp
  ultimately show ?thesis
    using new inv un sameStages_trans [OF inv(2)] unfolding relInv_def by auto
qed

lemma relInv_round:
  assumes "relInv b0 m0 P0 (m, h, c)" and "set xs \<subseteq> set h \<union> set c" and "b0 \<longrightarrow> b"
    and "foldl (handleCurrent b) (m, h, c) xs = (m', h', c')"
  shows "relInv b0 m0 P0 (m', h', c') \<and> set h \<union> set c \<subseteq> set h' \<union> set c'"
  using assms
proof (induction xs arbitrary: m h c)
  case Nil
  then show ?case by simp
next
  case (Cons d xs)
  obtain m1 h1 c1 where one: "handleCurrent b (m, h, c) d = (m1, h1, c1)" by (cases "handleCurrent b (m, h, c) d")
  have step: "relInv b0 m0 P0 (m1, h1, c1) \<and> set h \<union> set c \<subseteq> set h1 \<union> set c1"
    by (rule relInv_handleCurrent [OF Cons.prems(1) _ Cons.prems(3) one]) (use Cons.prems(2) in simp)
  have "set xs \<subseteq> set h1 \<union> set c1" using step Cons.prems(2) by (meson order_trans set_subset_Cons)
  moreover have "foldl (handleCurrent b) (m1, h1, c1) xs = (m', h', c')" using Cons.prems(4) one by simp
  ultimately have "relInv b0 m0 P0 (m', h', c') \<and> set h1 \<union> set c1 \<subseteq> set h' \<union> set c'"
    using Cons.IH [of m1 h1 c1] step Cons.prems(3) by blast
  with step show ?case by (meson order_trans)
qed

lemma relInv_loop:
  assumes "relInv b0 m0 P0 (m, h, c)" and "b0 \<longrightarrow> b" and "protectLoop b (m, h, c) = (m', h')"
  shows "relInv b0 m0 P0 (m', h', []) \<and> set h \<union> set c \<subseteq> set h'"
  using assms
proof (induction b "(m, h, c)" arbitrary: m h c rule: protectLoop.induct)
  case (1 b m h)
  then show ?case by simp
next
  case (2 b m h d ds)
  obtain m1 h1 c1 where r: "foldl (handleCurrent b) (m, h, d # ds) (d # ds) = (m1, h1, c1)"
    by (cases "foldl (handleCurrent b) (m, h, d # ds) (d # ds)")
  have "relInv b0 m0 P0 (m1, h1, c1) \<and> set h \<union> set (d # ds) \<subseteq> set h1 \<union> set c1"
    by (rule relInv_round [OF "2.prems"(1) _ "2.prems"(2) r]) auto
  moreover have "protectLoop b (m1, h1, c1) = (m', h')"
    using "2.prems"(3) r by (simp add: protectLoop.simps(2))
  ultimately show ?case using "2.hyps" [OF r] "2.prems"(2) by blast
qed

section \<open>One target\<close>

definition hasPlatform :: "StageDesc list \<Rightarrow> Info \<Rightarrow> StageDesc \<Rightarrow> bool" where
  "hasPlatform ds i s \<longleftrightarrow> (\<exists>g. GetDigest i = Some g \<and> g \<noteq> [] \<and> stageByDigest g ds = Inr (Some s))"

definition platformsOf :: "Manager \<Rightarrow> StageDesc \<Rightarrow> StageDesc set" where
  "platformsOf m d = {s. \<exists>i \<in> set (Index (sdInfo d)). hasPlatform (stageDescSet (managed m)) i s}"

lemma platform_fold:
  assumes "foldR platformStage (m, ts) infos = Inr (m', ts')" and "metaOk (managed m)"
    and "set ts \<subseteq> protectedSet (managed m)"
  shows "sameStages m m' \<and> metaOk (managed m') \<and>
    protectedSet (managed m') = protectedSet (managed m) \<union> set ts' \<and> set ts \<subseteq> set ts' \<and>
    (\<forall>i \<in> set infos. \<forall>s. hasPlatform (stageDescSet (managed m)) i s \<longrightarrow> s \<in> set ts')"
  using assms
proof (induction infos arbitrary: m ts)
  case Nil
  then show ?case by auto
next
  case (Cons i infos)
  from Cons.prems(1) obtain m1 ts1 where one: "platformStage (m, ts) i = Inr (m1, ts1)"
    and rest: "foldR platformStage (m1, ts1) infos = Inr (m', ts')"
    by (auto simp: bindR_Inr)
  obtain g where g: "GetDigest i = Some g" using one by (cases "GetDigest i") (auto simp: platformStage_def)
  consider (skip) "m1 = m" "ts1 = ts" "\<And>s. g \<noteq> [] \<Longrightarrow> stageByDigest g (stageDescSet (managed m)) \<noteq> Inr (Some s)"
    | (found) s where "g \<noteq> []" "stageByDigest g (stageDescSet (managed m)) = Inr (Some s)"
      "m1 = Manager_MarkStageDescAsProtected m s ProtectionReasonImageIndexPlatform False" "ts1 = snocNew ts s"
  proof (cases "g = []")
    case True
    with one g that(1) show ?thesis by (simp add: platformStage_def)
  next
    case False
    with one g obtain fnd where "stageByDigest g (stageDescSet (managed m)) = Inr fnd"
      "markAndAdd (m, ts) (map_option (\<lambda>d. (d, ProtectionReasonImageIndexPlatform)) fnd) = (m1, ts1)"
      by (auto simp: platformStage_def bindR_Inr)
    with False that show ?thesis by (cases fnd) (auto simp: markAndAdd_def)
  qed
  then show ?case
  proof cases
    case skip
    with Cons.IH [OF rest] Cons.prems(2,3) g show ?thesis by (auto simp: hasPlatform_def)
  next
    case found
    have same: "sameStages m m1" using found by simp
    have ds: "stageDescSet (managed m1) = stageDescSet (managed m)" using same by (simp add: sameStages_def)
    note IH = Cons.IH [OF rest, unfolded ds]
    have "metaOk (managed m1)" "protectedSet (managed m1) = insert s (protectedSet (managed m))"
      using found Cons.prems(2) by (simp_all add: mgr.ok_mark mgr.prot_mark)
    moreover from this have "set ts1 \<subseteq> protectedSet (managed m1)" using found(4) Cons.prems(3) by auto
    ultimately show ?thesis
      using IH found(2,4) g sameStages_trans [OF same] by (auto simp: hasPlatform_def)
  qed
qed

lemma relInv_target:
  assumes "protectRelativeStageDescSetByStageDesc d b (h, m) = Inr (h', m')" and "b0 \<longrightarrow> b"
    and "relInv b0 m0 P0 (m, h, [])" and "d \<in> P0"
  shows "relInv b0 m0 P0 (m', h', []) \<and> set h \<subseteq> set h' \<and>
    (if IsIndex (sdInfo d) then platformsOf m0 d \<subseteq> set h' else d \<in> set h')"
proof -
  have inv: "metaOk (managed m)" "sameStages m0 m" "P0 \<subseteq> protectedSet (managed m)"
    "\<forall>d \<in> set h. sources m0 b0 d \<subseteq> set h" "set h \<subseteq> protectedSet (managed m)"
    "protectedSet (managed m) \<subseteq> P0 \<union> set h"
    using assms(3) by (auto simp: relInv_def)
  from assms(1) obtain m1 ts where ts: "(if IsIndex (sdInfo d) then foldR platformStage (m, []) (Index (sdInfo d))
      else Inr (m, [d])) = Inr (m1, ts)"
    and loop: "protectLoop b (m1, h, ts) = (m', h')"
    by (auto simp: protectRelativeStageDescSetByStageDesc_def bindR_Inr Let_def case_prod_beta)
  have "relInv b0 m0 P0 (m1, h, ts) \<and> (if IsIndex (sdInfo d) then platformsOf m0 d \<subseteq> set ts else ts = [d])"
  proof (cases "IsIndex (sdInfo d)")
    case False
    then show ?thesis using ts inv assms(4) by (auto simp: relInv_def)
  next
    case True
    have "stageDescSet (managed m) = stageDescSet (managed m0)" using inv(2) by (simp add: sameStages_def)
    with platform_fold [of m "[]" "Index (sdInfo d)" m1 ts] True ts inv
    show ?thesis by (auto simp: relInv_def platformsOf_def intro: sameStages_trans)
  qed
  then show ?thesis using relInv_loop [OF _ assms(2) loop, of m0 P0] by (auto split: if_splits)
qed

section \<open>All kept stages\<close>

text \<open>The targets in the order of the two loops, each with whether its sources are followed.\<close>

definition targetsOf :: "Manager \<Rightarrow> (bool \<times> StageDesc) list" where
  "targetsOf m = concat (map (\<lambda>(reason, ds). map (\<lambda>d. (reason \<noteq> Some ProtectionReasonGitPolicy, d)) ds)
     (GetProtectedStageDescSetByReason (managed m)))"

lemma protectRelatives_targets:
  "protectRelatives m = foldR (\<lambda>hm (b, d). protectRelativeStageDescSetByStageDesc d b hm) ([], m) (targetsOf m)"
proof -
  have inner: "foldR (\<lambda>hm d. protectRelativeStageDescSetByStageDesc d b hm) hm ds =
      foldR (\<lambda>hm (b, d). protectRelativeStageDescSetByStageDesc d b hm) hm (map (\<lambda>d. (b, d)) ds)" for hm b ds
    by (induction ds arbitrary: hm) simp_all
  have "foldR (\<lambda>hm (reason, ds). foldR (\<lambda>hm d. protectRelativeStageDescSetByStageDesc d (reason \<noteq> Some ProtectionReasonGitPolicy) hm) hm ds) hm rs
      = foldR (\<lambda>hm (b, d). protectRelativeStageDescSetByStageDesc d b hm) hm
          (concat (map (\<lambda>(reason, ds). map (\<lambda>d. (reason \<noteq> Some ProtectionReasonGitPolicy, d)) ds) rs))" for hm rs
    by (induction rs arbitrary: hm) (auto simp: foldR_append inner case_prod_beta)
  then show ?thesis by (simp add: protectRelatives_def targetsOf_def)
qed

lemma set_targetsOf:
  assumes "metaOk (managed m)"
  shows "(b, d) \<in> set (targetsOf m) \<longleftrightarrow>
    d \<in> protectedSet (managed m) \<and> b = (reasonOf (managed m) d \<noteq> Some ProtectionReasonGitPolicy)"
proof -
  let ?m = "GetProtectedStageDescSetByReason (managed m)"
  have mem: "(\<exists>ds. (r, ds) \<in> set ?m \<and> d \<in> set ds) \<longleftrightarrow> d \<in> protectedSet (managed m) \<and> reasonOf (managed m) d = r" for r
  proof -
    have "(\<exists>ds. (r, ds) \<in> set ?m \<and> d \<in> set ds) \<longleftrightarrow> d \<in> set (sliceAt ?m r)"
      using sliceAt_member [OF byReason_maps(1) [OF assms]] map_of_SomeD by (metis sliceAtE)
    then show ?thesis using byReason_maps(2) [OF assms] by auto
  qed
  have "(b, d) \<in> set (targetsOf m) \<longleftrightarrow> (\<exists>r. (\<exists>ds. (r, ds) \<in> set ?m \<and> d \<in> set ds) \<and> b = (r \<noteq> Some ProtectionReasonGitPolicy))"
    by (auto simp: targetsOf_def)
  then show ?thesis unfolding mem by auto
qed

lemma targets_inv:
  assumes "foldR (\<lambda>hm (b, d). protectRelativeStageDescSetByStageDesc d b hm) (h, m) ts = Inr (h', m')"
    and "relInv b0 m0 P0 (m, h, [])" and "\<forall>(b, d) \<in> set ts. d \<in> P0 \<and> (b0 \<longrightarrow> b)"
  shows "relInv b0 m0 P0 (m', h', []) \<and> set h \<subseteq> set h' \<and>
    (\<forall>(b, d) \<in> set ts. if IsIndex (sdInfo d) then platformsOf m0 d \<subseteq> set h' else d \<in> set h')"
  using assms
proof (induction ts arbitrary: h m)
  case Nil
  then show ?case by simp
next
  case (Cons t ts)
  obtain b d where t: "t = (b, d)" by fastforce
  from Cons.prems(1) t obtain h1 m1 where one: "protectRelativeStageDescSetByStageDesc d b (h, m) = Inr (h1, m1)"
    and rest: "foldR (\<lambda>hm (b, d). protectRelativeStageDescSetByStageDesc d b hm) (h1, m1) ts = Inr (h', m')"
    by (auto simp: bindR_Inr)
  have step: "relInv b0 m0 P0 (m1, h1, []) \<and> set h \<subseteq> set h1 \<and>
    (if IsIndex (sdInfo d) then platformsOf m0 d \<subseteq> set h1 else d \<in> set h1)"
    by (rule relInv_target [OF one]) (use Cons.prems(2,3) t in auto)
  have "relInv b0 m0 P0 (m', h', []) \<and> set h1 \<subseteq> set h' \<and>
    (\<forall>(b, d) \<in> set ts. if IsIndex (sdInfo d) then platformsOf m0 d \<subseteq> set h' else d \<in> set h')"
    by (rule Cons.IH [OF rest]) (use step Cons.prems(3) in auto)
  with step show ?case unfolding t by (auto split: if_splits)
qed

lemma protectRelatives_inv:
  assumes "protectRelatives m = Inr (h, m')" and "metaOk (managed m)"
    and "b0 \<longrightarrow> (\<forall>d \<in> protectedSet (managed m). reasonOf (managed m) d \<noteq> Some ProtectionReasonGitPolicy)"
  shows "relInv b0 m (protectedSet (managed m)) (m', h, [])"
    and "d \<in> protectedSet (managed m) \<Longrightarrow>
      if IsIndex (sdInfo d) then platformsOf m d \<subseteq> set h else d \<in> set h"
proof -
  have start: "relInv b0 m (protectedSet (managed m)) (m, [], [])" using assms(2) by (simp add: relInv_def)
  have ts: "\<forall>(b, d) \<in> set (targetsOf m). d \<in> protectedSet (managed m) \<and> (b0 \<longrightarrow> b)"
    using set_targetsOf [OF assms(2)] assms(3) by auto
  note inv = targets_inv [OF assms(1) [unfolded protectRelatives_targets] start ts]
  show "relInv b0 m (protectedSet (managed m)) (m', h, [])" using inv by blast
  show "if IsIndex (sdInfo d) then platformsOf m d \<subseteq> set h else d \<in> set h" if "d \<in> protectedSet (managed m)"
    using inv set_targetsOf [OF assms(2), of _ d] that by blast
qed

section \<open>What is kept\<close>

text \<open>C6: No kept stage loses its base: after the relatives have been processed, the parent of every protected
  stage that is not an index is protected, so the chain of ancestors of a kept image stays complete.
  Stages protected before are still protected, and so are the platform stages of every index that was protected before the
  relatives are processed. (An index that the walk itself reaches as a source or a parent is protected alone: the walk does not
  look up its platform stages.)\<close>

theorem kept_stages_keep_ancestors:
  assumes "protectRelatives m = Inr (h, m')" and "metaOk (managed m)"
  shows "protectedSet (managed m) \<subseteq> protectedSet (managed m') \<and>
    (\<forall>d \<in> protectedSet (managed m'). \<forall>p. \<not> IsIndex (sdInfo d) \<longrightarrow> parentOf m d = Some p \<longrightarrow>
       p \<in> protectedSet (managed m')) \<and>
    (\<forall>d \<in> protectedSet (managed m). IsIndex (sdInfo d) \<longrightarrow> platformsOf m d \<subseteq> protectedSet (managed m'))"
proof -
  have inv: "relInv False m (protectedSet (managed m)) (m', h, [])"
    using protectRelatives_inv(1) [OF assms] by blast
  have target: "if IsIndex (sdInfo d) then platformsOf m d \<subseteq> set h else d \<in> set h" if "d \<in> protectedSet (managed m)" for d
    using protectRelatives_inv(2) [OF assms _ that] by blast
  have sub: "protectedSet (managed m) \<subseteq> protectedSet (managed m')" and hp: "set h \<subseteq> protectedSet (managed m')"
    and grown: "protectedSet (managed m') \<subseteq> protectedSet (managed m) \<union> set h"
    and closed: "\<And>d. d \<in> set h \<Longrightarrow> sources m False d \<subseteq> set h"
    using inv by (auto simp: relInv_def)
  have "p \<in> protectedSet (managed m')"
    if "d \<in> protectedSet (managed m')" "\<not> IsIndex (sdInfo d)" "parentOf m d = Some p" for d p
  proof -
    have "d \<in> set h" using that target [of d] grown by auto
    then show ?thesis using closed [of d] hp that(3) by (auto simp: sources_def)
  qed
  moreover have "platformsOf m d \<subseteq> protectedSet (managed m')" if "d \<in> protectedSet (managed m)" "IsIndex (sdInfo d)" for d
    using target [OF that(1)] that(2) hp by auto
  ultimately show ?thesis using sub by blast
qed

text \<open>C7: When no stage is kept for the git policy, the import and dependency sources of every protected stage
  that is not an index are protected too.\<close>

theorem kept_stages_keep_sources:
  assumes "protectRelatives m = Inr (h, m')" and "metaOk (managed m)"
    and "\<forall>d \<in> protectedSet (managed m). reasonOf (managed m) d \<noteq> Some ProtectionReasonGitPolicy"
    and "d \<in> protectedSet (managed m')" and "\<not> IsIndex (sdInfo d)"
    and "lv \<in> set (Labels (sdInfo d))" and "labelSource m lv = Some (s, r)"
  shows "s \<in> protectedSet (managed m')"
proof -
  have inv: "relInv True m (protectedSet (managed m)) (m', h, [])"
    using protectRelatives_inv(1) [OF assms(1,2)] assms(3) by blast
  have "d \<in> set h" using inv assms(4,5) protectRelatives_inv(2) [OF assms(1,2), of True d] assms(3) by (auto simp: relInv_def)
  then have "sources m True d \<subseteq> set h" using inv by (auto simp: relInv_def)
  moreover have "s \<in> sources m True d" using assms(6,7) by (auto simp: sources_def)
  ultimately show ?thesis using inv by (auto simp: relInv_def)
qed

section \<open>The relatives are always found\<close>

lemma stageByDigest_returns:
  "(\<And>d. d \<in> set ds \<Longrightarrow> GetDigest (sdInfo d) \<noteq> None) \<Longrightarrow> \<exists>s. stageByDigest g ds = Inr s"
proof (induction ds)
  case Nil
  show ?case by simp
next
  case (Cons d ds)
  obtain g' where "GetDigest (sdInfo d) = Some g'" using Cons.prems [of d] by auto
  then show ?case using Cons by simp
qed

definition digestsOk :: "Manager \<Rightarrow> bool" where
  "digestsOk m \<longleftrightarrow> (\<forall>d \<in> set (stageDescSet (managed m)). GetDigest (sdInfo d) \<noteq> None) \<and>
     (\<forall>d \<in> protectedSet (managed m). \<forall>i \<in> set (Index (sdInfo d)). GetDigest i \<noteq> None)"

lemma platformStage_returns:
  assumes "GetDigest i \<noteq> None" and "\<forall>d \<in> set (stageDescSet (managed m0)). GetDigest (sdInfo d) \<noteq> None"
    and "sameStages m0 (fst mt)"
  shows "\<exists>mt'. platformStage mt i = Inr mt' \<and> sameStages m0 (fst mt')"
proof -
  obtain m ts where mt: "mt = (m, ts)" by fastforce
  obtain g where g: "GetDigest i = Some g" using assms(1) by auto
  have "\<forall>d \<in> set (stageDescSet (managed m)). GetDigest (sdInfo d) \<noteq> None"
    using assms(2,3) mt by (simp add: sameStages_def)
  then obtain s where "stageByDigest g (stageDescSet (managed m)) = Inr s" using stageByDigest_returns by blast
  with g assms(3) mt show ?thesis by (cases s) (auto simp: platformStage_def markAndAdd_def)
qed

lemma protectLoop_same: "protectLoop b (m, h, c) = (m', h') \<Longrightarrow> sameStages m m'"
proof (induction b "(m, h, c)" arbitrary: m h c rule: protectLoop.induct)
  case (2 b m h d ds)
  obtain m1 h1 c1 where r: "foldl (handleCurrent b) (m, h, d # ds) (d # ds) = (m1, h1, c1)"
    by (cases "foldl (handleCurrent b) (m, h, d # ds) (d # ds)")
  then have "protectLoop b (m1, h1, c1) = (m', h')" using "2.prems" by (simp add: protectLoop.simps(2))
  then show ?case using "2.hyps" [OF r] round_effect [OF r] sameStages_trans by blast
qed simp

text \<open>The search for relatives ends for every graph of labels, cyclic ones included, and it cannot panic
  when the repository digests of the stages and of the platform images of the kept indexes are well formed.\<close>

theorem relatives_found:
  assumes "metaOk (managed m)" and "digestsOk m"
  shows "\<exists>h m'. protectRelatives m = Inr (h, m')"
proof -
  have stages: "\<forall>d \<in> set (stageDescSet (managed m)). GetDigest (sdInfo d) \<noteq> None"
    using assms(2) by (simp add: digestsOk_def)
  have "\<exists>hm. foldR (\<lambda>hm (b, d). protectRelativeStageDescSetByStageDesc d b hm) ([], m) (targetsOf m) = Inr hm
      \<and> sameStages m (snd hm)"
  proof (rule foldR_returns)
    fix hm :: "StageDesc list \<times> Manager" and t
    assume t: "t \<in> set (targetsOf m)" and same: "sameStages m (snd hm)"
    obtain b d where bd: "t = (b, d)" by fastforce
    obtain h m1 where hm: "hm = (h, m1)" by fastforce
    have d: "d \<in> protectedSet (managed m)" using t bd set_targetsOf [OF assms(1)] by simp
    have "\<exists>mt. (if IsIndex (sdInfo d) then foldR platformStage (m1, []) (Index (sdInfo d)) else Inr (m1, [d])) = Inr mt
        \<and> sameStages m (fst mt)"
    proof (cases "IsIndex (sdInfo d)")
      case True
      have "\<exists>mt. foldR platformStage (m1, []) (Index (sdInfo d)) = Inr mt \<and> sameStages m (fst mt)"
        by (rule foldR_returns)
          (use same hm d assms(2) platformStage_returns [OF _ stages] in \<open>auto simp: digestsOk_def\<close>)
      with True show ?thesis by simp
    qed (use same hm in simp)
    then obtain m2 ts where mt: "(if IsIndex (sdInfo d) then foldR platformStage (m1, []) (Index (sdInfo d)) else Inr (m1, [d]))
        = Inr (m2, ts)" and same2: "sameStages m m2" by auto
    obtain m3 h3 where loop: "protectLoop b (m2, h, ts) = (m3, h3)" by fastforce
    have "sameStages m m3" using same2 protectLoop_same [OF loop] sameStages_trans by blast
    with mt loop show "\<exists>hm'. (case t of (b, d) \<Rightarrow> protectRelativeStageDescSetByStageDesc d b hm) = Inr hm' \<and> sameStages m (snd hm')"
      by (simp add: bd hm protectRelativeStageDescSetByStageDesc_def)
  qed simp
  then show ?thesis unfolding protectRelatives_targets by auto
qed

section \<open>Order dependence\<close>

definition sampleInfo :: "string \<Rightarrow> (string \<times> string) list \<Rightarrow> Info" where
  "sampleInfo tag labels = Info [] [] tag [] [] [] [] labels 0 0 [] False []"

definition sampleStage :: "nat \<Rightarrow> string \<Rightarrow> (string \<times> string) list \<Rightarrow> StageDesc" where
  "sampleStage r digest labels =
     \<lparr>sdRef = r, sdStageID = NewStageID digest 0, sdInfo = sampleInfo digest labels\<rparr>"

text \<open>A base stage that imports from \<open>src\<close>, and two stages built on the base.\<close>

definition sampleStages :: "StageDesc list" where
  "sampleStages = [sampleStage 0 ''src'' [], sampleStage 1 ''base'' [(WerfImportSourceStageIDLabelPrefix @ ''1'', ''src'')],
     sampleStage 2 ''app1'' [(WerfParentStageID, ''base'')], sampleStage 3 ''app2'' [(WerfParentStageID, ''base'')]]"

definition sampleManager :: "(nat \<times> protectionReason) list \<Rightarrow> Manager" where
  "sampleManager marks = foldl (\<lambda>m (i, r). Manager_MarkStageDescAsProtected m (sampleStages ! i) r False)
     (NewManager\<lparr>managed := newManagedStageDescSet sampleStages\<rparr>) marks"

definition keptDigests :: "Manager \<Rightarrow> string list" where
  "keptDigests m = (case protectRelatives m of
     Inl e \<Rightarrow> [] | Inr (h, m') \<Rightarrow> map (\<lambda>d. Digest (sdStageID d)) (filter (\<lambda>d. d \<in> set (GetProtectedStageDescSet (managed m'))) sampleStages))"

text \<open>Whether the import source of a shared base stage is kept depends on the order in which the reasons are
  visited, which Go leaves open for a map: the base handled first for the git policy is not handled
  again for the stage used in Kubernetes, and its import source is deleted.\<close>

theorem sources_depend_on_order:
  "keptDigests (sampleManager [(2, ProtectionReasonGitPolicy), (3, ProtectionReasonKubernetesBasedPolicy)])
     = [''base'', ''app1'', ''app2''] \<and>
   keptDigests (sampleManager [(3, ProtectionReasonKubernetesBasedPolicy), (2, ProtectionReasonGitPolicy)])
     = [''src'', ''base'', ''app1'', ''app2'']"
  by code_simp

section \<open>Instances\<close>

definition sampleKube :: Manager where
  "sampleKube = sampleManager [(3, ProtectionReasonKubernetesBasedPolicy)]"

lemma sampleKube_ok: "metaOk (managed sampleKube)"
  by (simp add: sampleKube_def sampleManager_def metaOk_def is_goMap_def Manager_MarkStageDescAsProtected_def
      MarkStageDescAsProtected_def newManagedStageDescSet_def NewManager_def)

lemma sampleKube_prot: "protectedSet (managed sampleKube) = {sampleStages ! 3}"
  and sampleKube_reason: "reasonOf (managed sampleKube) (sampleStages ! 3) = Some ProtectionReasonKubernetesBasedPolicy"
proof -
  have "stageDescMetaMap (managed sampleKube) =
      [(sampleStages ! 3, \<lparr>isProtected = True, protectionReasonOf = Some ProtectionReasonKubernetesBasedPolicy\<rparr>)]"
    by (simp add: sampleKube_def sampleManager_def Manager_MarkStageDescAsProtected_def
      MarkStageDescAsProtected_def newManagedStageDescSet_def NewManager_def)
  then show "protectedSet (managed sampleKube) = {sampleStages ! 3}"
    "reasonOf (managed sampleKube) (sampleStages ! 3) = Some ProtectionReasonKubernetesBasedPolicy"
    by (auto simp: protectedSet_def reasonOf_def split: if_splits)
qed

lemma sampleKube_digests: "digestsOk sampleKube"
proof -
  have "stageDescSet (managed sampleKube) = sampleStages"
    by (simp add: sampleKube_def sampleManager_def mgr.members_mark newManagedStageDescSet_def)
  then show ?thesis
    by (simp add: digestsOk_def sampleKube_prot sampleStages_def sampleStage_def sampleInfo_def GetDigest_def)
qed

lemma sampleKube_result:
  "map_sum id (\<lambda>(h, m'). sampleStages ! 1 \<in> set (GetProtectedStageDescSet (managed m'))) (protectRelatives sampleKube) = Inr True"
  by code_simp

theorem relatives_found_witness: "\<exists>h m'. protectRelatives sampleKube = Inr (h, m')"
  by (rule relatives_found [OF sampleKube_ok sampleKube_digests])

theorem kept_stages_keep_ancestors_witness:
  "\<exists>h m'. protectRelatives sampleKube = Inr (h, m') \<and> sampleStages ! 3 \<in> protectedSet (managed m') \<and>
     sampleStages ! 1 \<in> protectedSet (managed m')"
proof -
  obtain h m' where r: "protectRelatives sampleKube = Inr (h, m')"
    using sampleKube_result by (cases "protectRelatives sampleKube") auto
  have "parentOf sampleKube (sampleStages ! 3) = Some (sampleStages ! 1)" by code_simp
  moreover have "\<not> IsIndex (sdInfo (sampleStages ! 3))" by code_simp
  ultimately show ?thesis
    using kept_stages_keep_ancestors [OF r sampleKube_ok] r sampleKube_prot by blast
qed

theorem kept_stages_keep_sources_witness:
  "\<exists>h m'. protectRelatives sampleKube = Inr (h, m') \<and> sampleStages ! 1 \<in> protectedSet (managed m') \<and>
     sampleStages ! 0 \<in> protectedSet (managed m')"
proof -
  obtain h m' where r: "protectRelatives sampleKube = Inr (h, m')"
    and kept: "sampleStages ! 1 \<in> set (GetProtectedStageDescSet (managed m'))"
    using sampleKube_result by (cases "protectRelatives sampleKube") auto
  have "metaOk (managed m')" using protectRelatives_inv(1) [OF r sampleKube_ok, of False] by (simp add: relInv_def)
  with kept have base: "sampleStages ! 1 \<in> protectedSet (managed m')" by (simp add: set_GetProtectedStageDescSet)
  have lv: "labelSource sampleKube (WerfImportSourceStageIDLabelPrefix @ ''1'', ''src'') =
      Some (sampleStages ! 0, ProtectionReasonImportSource)" by code_simp
  have mem: "(WerfImportSourceStageIDLabelPrefix @ ''1'', ''src'') \<in> set (Labels (sdInfo (sampleStages ! 1)))" by code_simp
  have ix: "\<not> IsIndex (sdInfo (sampleStages ! 1))" by code_simp
  have ng: "\<forall>d \<in> protectedSet (managed sampleKube). reasonOf (managed sampleKube) d \<noteq> Some ProtectionReasonGitPolicy"
    by (simp add: sampleKube_prot sampleKube_reason)
  show ?thesis
    using kept_stages_keep_sources [OF r sampleKube_ok ng base ix mem lv] r base by blast
qed

end
