(* ===== verification/CleanupProps.thy ===== *)
theory CleanupProps
  imports Cleanup ProtectionProps ScanHistory
begin

text \<open>
  What a cleanup may do and what it never does: which calls each step issues, that a dry run issues
  none, and that a stage kept by a policy is not deleted as unused.
\<close>

section \<open>Footprints of the steps\<close>

lemma onWorld_footprint:
  assumes "\<And>w. extends P w (stateOf (f w))"
  shows "extends P (cworld cm) (cworld (stateOf (onWorld f cm)))"
  using assms [of "cworld cm"] by (auto simp: onWorld_def split: sum.splits)

lemma onWorld_manager [simp]: "stageManager (stateOf (onWorld f cm)) = stageManager cm"
  by (auto simp: onWorld_def split: sum.splits)

lemma onWorld_Inr: "onWorld f cm = Inr cm' \<Longrightarrow> stageManager cm' = stageManager cm"
  using onWorld_manager [of f cm] by simp

lemma orFail_footprint:
  assumes "\<And>a. r = Inr a \<Longrightarrow> extends P (cworld cm) (cworld (stateOf (f a)))"
  shows "extends P (cworld cm) (cworld (stateOf (orFail cm r f)))"
  using assms by (cases r) (auto simp: orFail_def)

lemma bind_footprint:
  assumes "extends P (cworld cm) (cworld (stateOf r))" and "\<And>cm'. r = Inr cm' \<Longrightarrow> extends P (cworld cm') (cworld (stateOf (f cm')))"
  shows "extends P (cworld cm) (cworld (stateOf (bindR r f)))"
  using assms by (cases r) (auto intro: extends_trans)

lemma orFail_Inr: "orFail cm r f = Inr cm' \<longleftrightarrow> (\<exists>a. r = Inr a \<and> f a = Inr cm')"
  by (cases r) (auto simp: orFail_def)

definition metaOnly :: "CleanupOptions \<Rightarrow> storageOp \<Rightarrow> bool" where
  "metaOnly opts op \<longleftrightarrow> \<not> DryRun opts \<and> (\<exists>i c st. op = RmImageMetadata i c st)"

lemma init_world: "cworld (stateOf (init env cm)) = cworld cm"
  by (auto simp: init_def Let_def orFail_def split: sum.splits option.splits)

lemma kubernetesPolicy_world: "cworld (stateOf (kubernetesPolicy env opts cm)) = cworld cm"
  by (auto simp: kubernetesPolicy_def orFail_def split: sum.splits)

lemma deleteMetadata_footprint:
  "extends (metaOnly opts) (cworld cm) (cworld (stateOf (onWorld (deleteImageMetadata env img m (DryRun opts) isID) cm)))"
  by (rule onWorld_footprint) (rule extends_mono [OF deleteImageMetadata_footprint], auto simp: metaOnly_def metadataOps_def)

lemma cleanupImageMetadata_footprint:
  "extends (metaOnly opts) (cworld cm) (cworld (stateOf (cleanupImageMetadata env opts img hits unlink cm)))"
  unfolding cleanupImageMetadata_def Let_def
  by (rule bind_footprint; (rule bind_footprint)?) (auto intro: deleteMetadata_footprint)

lemma cleanupNonexistentImageMetadata_footprint:
  "extends (metaOnly opts) (cworld cm) (cworld (stateOf (cleanupNonexistentImageMetadata env opts cm)))"
proof -
  have "extends (metaOnly opts) (cworld cm) (cworld (stateOf (foldR (\<lambda>cm (imageMetadataID, stageIDCommitList).
      onWorld (deleteImageMetadata (storage env) imageMetadataID stageIDCommitList (DryRun opts) True) cm) cm byImage)))" for byImage
    by (rule extends_foldR) (auto split: prod.splits intro: deleteMetadata_footprint)
  then show ?thesis by (simp add: cleanupNonexistentImageMetadata_def Let_def)
qed

lemma gitHistoryOfImage_footprint:
  "extends (metaOnly opts) (cworld cm) (cworld (stateOf (gitHistoryOfImage env opts refs cm img)))"
proof -
  have step: "extends (metaOnly opts) (cworld cm) (cworld (stateOf (cleanupImageMetadata env opts name hits unlink (cm\<lparr>stageManager := m\<rparr>))))"
    for name hits unlink m
    using cleanupImageMetadata_footprint [of opts "cm\<lparr>stageManager := m\<rparr>"] by simp
  show ?thesis
    unfolding gitHistoryOfImage_def
    by (cases img) (auto simp: Let_def split: prod.splits intro!: orFail_footprint step)
qed

lemma gitHistoryBasedCleanup_footprint:
  "extends (metaOnly opts) (cworld cm) (cworld (stateOf (gitHistoryBasedCleanup env opts cm)))"
proof -
  have "extends (metaOnly opts) (cworld cm) (cworld (stateOf (foldR (\<lambda>cm img. gitHistoryOfImage env opts refs cm img) cm imgs)))" for refs imgs
    by (rule extends_foldR) (rule gitHistoryOfImage_footprint)
  then show ?thesis
    unfolding gitHistoryBasedCleanup_def Let_def DoTasks_list
    by (auto intro!: orFail_footprint bind_footprint cleanupNonexistentImageMetadata_footprint)
qed

lemma cleanupRejectedStages_footprint:
  "extends (\<lambda>op. \<not> DryRun opts \<and> (\<exists>ids. GetRejectedStageIDsOf (storage env) (ops (cworld cm)) = Inr ids \<and>
      rejectedOps (stageIDCustomTagList (stageManager cm)) (set ids) op))
     (cworld cm) (cworld (stateOf (cleanupRejectedStages env opts cm)))"
  using deleteRejectedStagesWithLinkedTags_footprint [of "DryRun opts" "storage env" "cworld cm"
      "stageIDCustomTagList (stageManager cm)"]
  by (auto simp: cleanupRejectedStages_def split: sum.splits)

lemma reportKeptStages_ops [simp]: "ops (reportKeptStages t hours byReason w) = ops w"
proof -
  have inner: "ops (foldl (\<lambda>w d. reportKept (g d) w) w ds) = ops w" for g and w and ds :: "StageDesc list"
    by (induction ds arbitrary: w) simp_all
  show ?thesis unfolding reportKeptStages_def
    by (induction byReason arbitrary: w) (auto simp: inner case_prod_beta)
qed

lemma extends_same_ops: "ops w1 = ops w \<Longrightarrow> extends P w1 w2 = extends P w w2"
  by (simp add: extends_def)

lemma deleteUnusedCustomTags_footprint:
  "extends (\<lambda>op. \<not> DryRun opts \<and> customTagOps UNIV op) (cworld cm) (cworld (stateOf (deleteUnusedCustomTags env opts cm)))"
proof -
  have kept: "ops (foldl (\<lambda>w t. reportKept (tagItem ItemTypeCustomTag t) w) w ts) = ops w" for w ts
    by (induction ts arbitrary: w) simp_all
  have "extends (\<lambda>op. \<not> DryRun opts \<and> customTagOps UNIV op) (cworld cm1) (cworld (stateOf (onWorld (deleteCustomTags (storage env) ts (DryRun opts)) cm1)))" for cm1 ts
    by (rule onWorld_footprint) (rule extends_mono [OF deleteCustomTags_footprint], auto simp: customTagOps_def)
  from this [of "cm\<lparr>cworld := foldl (\<lambda>w t. reportKept (tagItem ItemTypeCustomTag t) w) (cworld cm) ts\<rparr>" for ts]
  have "extends (\<lambda>op. \<not> DryRun opts \<and> customTagOps UNIV op) (cworld cm) (cworld (stateOf (onWorld (deleteCustomTags (storage env) ts' (DryRun opts))
      (cm\<lparr>cworld := foldl (\<lambda>w t. reportKept (tagItem ItemTypeCustomTag t) w) (cworld cm) ts\<rparr>))))" for ts ts'
    using extends_same_ops [OF kept] by simp
  then show ?thesis by (auto simp: deleteUnusedCustomTags_def Let_def extends_def kept)
qed

lemma deleteStages_footprint:
  assumes "DryRun opts \<or> filterOk (storage env)" and "ops (cworld cm1) = ops (cworld cm)"
  shows "extends (\<lambda>op. \<not> DryRun opts \<and> stageOps isFinal (set ds) op) (cworld cm)
    (cworld (stateOf (onWorld (deleteStageDescSet (storage env) (DryRun opts) ds isFinal) cm1)))"
  using onWorld_footprint [OF deleteStageDescSet_footprint [OF assms(1)], of isFinal ds cm1]
    extends_same_ops [OF assms(2)] by simp

lemma if_delete_footprint:
  assumes "extends P (cworld cm) (cworld (stateOf r))" and "ops (cworld cm1) = ops (cworld cm)"
    and "\<And>x. cworld (g x) = cworld x"
  shows "extends P (cworld cm) (cworld (stateOf (if c then bindR r (\<lambda>x. Inr (g x)) else Inr cm1)))"
  using assms by (cases r) (auto simp: extends_def)

text \<open>The stages that \<^verbatim>\<open>cleanupUnusedStages\<close> deletes.\<close>

definition unusedStages :: "Manager \<Rightarrow> StageDesc set" where
  "unusedStages m = {d \<in> set (stageDescSet (managed m)). \<forall>h m'. protectRelatives m = Inr (h, m') \<longrightarrow> d \<notin> protectedSet (managed m')}"

lemma protectRelatives_frame:
  assumes "protectRelatives m = Inr (h, m')" and "metaOk (managed m)"
  shows "metaOk (managed m')" and "sameStages m m'" and "protectedSet (managed m) \<subseteq> protectedSet (managed m')"
  using protectRelatives_inv(1) [OF assms, of False] by (auto simp: relInv_def)

lemma cleanupUnusedStages_footprint:
  assumes "DryRun opts \<or> filterOk (storage env)" and "metaOk (managed (stageManager cm))"
  shows "extends (\<lambda>op. \<not> DryRun opts \<and> (stageOps False (unusedStages (stageManager cm)) op \<or> customTagOps UNIV op))
    (cworld cm) (cworld (stateOf (cleanupUnusedStages env opts hours cm)))" (is "extends ?P _ _")
  unfolding cleanupUnusedStages_def
proof (rule orFail_footprint)
  fix hm assume hm: "protectRelatives (stageManager cm) = Inr hm"
  obtain h m where h: "hm = (h, m)" by fastforce
  note fr = protectRelatives_frame [OF hm [unfolded h] assms(2)]
  let ?cm1 = "cm\<lparr>stageManager := m, cworld := reportKeptStages ItemTypeStage hours (GetProtectedStageDescSetByReason (managed m)) (cworld cm)\<rparr>"
  let ?del = "filter (\<lambda>d. d \<notin> set (GetProtectedStageDescSet (managed m))) (stageDescSet (managed m))"
  have del: "set ?del = unusedStages (stageManager cm)"
    using fr hm h by (auto simp: unusedStages_def set_GetProtectedStageDescSet sameStages_def)
  have tags: "extends ?P (cworld cm') (cworld (stateOf (deleteUnusedCustomTags env opts cm')))" for cm'
    by (rule extends_mono [OF deleteUnusedCustomTags_footprint]) auto
  have "extends ?P (cworld cm) (cworld (stateOf (onWorld (deleteStageDescSet (storage env) (DryRun opts) ?del False) ?cm1)))"
    by (rule extends_mono [OF deleteStages_footprint [OF assms(1)]]) (simp, use del in auto)
  then have "extends ?P (cworld cm) (cworld (stateOf (if ?del \<noteq> [] then
      bindR (onWorld (deleteStageDescSet (storage env) (DryRun opts) ?del False) ?cm1) (\<lambda>cm2.
        Inr (cm2\<lparr>stageManager := ForgetDeletedStageDescSet (stageManager cm2) ?del\<rparr>)) else Inr ?cm1)))"
    by (rule if_delete_footprint) simp_all
  then show "extends ?P (cworld cm) (cworld (stateOf (case hm of (handled, m) \<Rightarrow>
       let cm1 = cm\<lparr>stageManager := m,
             cworld := reportKeptStages ItemTypeStage hours (GetProtectedStageDescSetByReason (managed m)) (cworld cm)\<rparr>;
           protected = GetProtectedStageDescSet (managed m);
           toDelete = filter (\<lambda>d. d \<notin> set protected) (stageDescSet (managed m))
       in bindR (if toDelete \<noteq> [] then
               bindR (onWorld (deleteStageDescSet (storage env) (DryRun opts) toDelete False) cm1) (\<lambda>cm2.
                 Inr (cm2\<lparr>stageManager := ForgetDeletedStageDescSet (stageManager cm2) toDelete\<rparr>))
             else Inr cm1)
            (deleteUnusedCustomTags env opts))))"
    unfolding h Let_def prod.case by (rule bind_footprint) (rule tags)
qed

definition finalOrTag :: "storageOp \<Rightarrow> bool" where
  "finalOrTag op \<longleftrightarrow> (\<exists>d. op = DeleteFinalStage d) \<or> (\<exists>f n. op = DeleteArtifact f n) \<or> op = PostLastCleanupRecord"

lemma cleanupFinalStages_footprint:
  assumes "DryRun opts \<or> filterOk (storage env)"
  shows "extends (\<lambda>op. \<not> DryRun opts \<and> finalOrTag op) (cworld cm) (cworld (stateOf (cleanupFinalStages env opts hours cm)))"
proof -
  have "extends (\<lambda>op. \<not> DryRun opts \<and> finalOrTag op) (cworld cm)
      (cworld (stateOf (onWorld (deleteStageDescSet (storage env) (DryRun opts) ds True) cm1)))"
    if "ops (cworld cm1) = ops (cworld cm)" for cm1 ds
    by (rule extends_mono [OF deleteStages_footprint [OF assms that]])
      (auto simp: finalOrTag_def stageOps_def split: storageOp.splits)
  then show ?thesis
    unfolding cleanupFinalStages_def Let_def by (rule if_delete_footprint) simp_all
qed

lemma lastSteps_footprint:
  assumes "DryRun opts \<or> filterOk (storage env)"
  shows "extends (\<lambda>op. \<not> DryRun opts \<and> finalOrTag op) (cworld cm) (cworld (stateOf
     (bindR (if GetFinalStageDescSetOf (storage env) \<noteq> None then cleanupFinalStages env opts hours cm else Inr cm) (\<lambda>cm.
     bindR (onWorld (cleanupOrphanedArtifacts (storage env) (DryRun opts)) cm) (\<lambda>cm.
       postLastCleanupRecord env opts cm)))))" (is "extends ?P _ _")
proof (rule bind_footprint)
  show "extends ?P (cworld cm) (cworld (stateOf (if GetFinalStageDescSetOf (storage env) \<noteq> None then cleanupFinalStages env opts hours cm else Inr cm)))"
    using cleanupFinalStages_footprint [OF assms] by simp
  fix cm'
  have "extends ?P (cworld cm') (cworld (stateOf (onWorld (cleanupOrphanedArtifacts (storage env) (DryRun opts)) cm')))" for cm'
    by (rule onWorld_footprint) (rule extends_mono [OF cleanupOrphanedArtifacts_footprint], auto simp: finalOrTag_def)
  then show "extends ?P (cworld cm') (cworld (stateOf (bindR (onWorld (cleanupOrphanedArtifacts (storage env) (DryRun opts)) cm') (\<lambda>cm.
       postLastCleanupRecord env opts cm))))"
    by (rule bind_footprint) (auto simp: postLastCleanupRecord_def finalOrTag_def)
qed

section \<open>The policies only add protection\<close>

definition grows :: "Manager \<Rightarrow> Manager \<Rightarrow> bool" where
  "grows m m' \<longleftrightarrow> stageDescByStageID (managed m') = stageDescByStageID (managed m) \<and>
     stageDescSet (managed m') = stageDescSet (managed m) \<and> imageMetadataList m' = imageMetadataList m \<and>
     (metaOk (managed m) \<longrightarrow> metaOk (managed m') \<and> protectedSet (managed m) \<subseteq> protectedSet (managed m'))"

lemma grows_refl [simp]: "grows m m"
  by (simp add: grows_def)

lemma grows_trans: "grows m m' \<Longrightarrow> grows m' m'' \<Longrightarrow> grows m m''"
  by (auto simp: grows_def)

lemma grows_mark [simp]: "grows m (Manager_MarkStageDescAsProtected m d r f)"
  using mgr.members_mark
  by (simp add: grows_def mgr.ok_mark mgr.prot_mark subset_insertI)

lemma grows_foldl:
  assumes "\<And>m x. grows m (f m x)"
  shows "grows m (foldl f m xs)"
  using assms grows_trans by (induction xs arbitrary: m) (simp, fastforce)

lemma grows_managed: "managed m' = managed m \<Longrightarrow> imageMetadataList m' = imageMetadataList m \<Longrightarrow> grows m m'"
  by (simp add: grows_def)

lemma builtWithin_markAll:
  "snd (protectBuiltWithinLastNHours t cfg keep m) =
     (let n = (case keep of None \<Rightarrow> KeepImagesBuiltWithinLastNHours cfg | Some k \<Rightarrow> k)
      in if DisableBuiltWithinLastNHoursPolicy cfg \<or> n = 0 then m
         else mgr.markAll (\<lambda>d. builtWithin t n (sdInfo d)) ProtectionReasonBuiltWithinLastNHoursPolicy (stageDescSet (managed m)) m)"
  by (simp add: protectBuiltWithinLastNHours_def mgr.markAll_def Let_def)

lemma keepList_markAll:
  "markWhitelistStagesAsProtected keep m = (if keep = [] then m
     else mgr.markAll (\<lambda>d. Tag (sdInfo d) \<in> set keep) ProtectionReasonKeepList (stageDescSet (managed m)) m)"
  by (simp add: markWhitelistStagesAsProtected_def mgr.markAll_def)

lemma grows_builtWithin: "grows m (snd (protectBuiltWithinLastNHours t cfg keep m))"
  by (auto simp: protectBuiltWithinLastNHours_def Let_def intro: grows_foldl)

lemma grows_keepList: "grows m (markWhitelistStagesAsProtected keep m)"
  by (auto simp: markWhitelistStagesAsProtected_def intro: grows_foldl)

lemma handleTagFunc_grows:
  "(\<And>m. grows m (f m)) \<Longrightarrow> grows (snd st) (snd (handleTagFunc a dep tag i f st))"
  by (auto simp: handleTagFunc_def split: prod.splits)

lemma grows_foldl_snd:
  assumes "\<And>st x. grows (snd st) (snd (f st x))"
  shows "grows (snd st) (snd (foldl f st xs))"
proof (induction xs arbitrary: st)
  case Nil
  show ?case by simp
next
  case (Cons x xs)
  from grows_trans [OF assms Cons.IH] show ?case by simp
qed

lemma grows_forgetTags [simp]: "grows m (ForgetCustomTagsByStageID m i)"
  by (rule grows_managed) (simp_all add: ForgetCustomTagsByStageID_def)

lemma grows_kubernetes: "grows m (skipStageIDsThatAreUsedInKubernetes a dep m)"
proof -
  let ?f1 = "\<lambda>st d. let stageID = StageID_String (sdStageID d)
              in handleTagFunc a dep stageID stageID
                   (\<lambda>m. Manager_MarkStageDescAsProtected m d ProtectionReasonKubernetesBasedPolicy False) st"
  let ?g = "\<lambda>stageID m. case GetStageDescByStageID (managed m) stageID of
                     Some d \<Rightarrow> Manager_MarkStageDescAsProtected m d ProtectionReasonKubernetesBasedPolicy False
                   | None \<Rightarrow> ForgetCustomTagsByStageID m stageID"
  let ?f2 = "\<lambda>st (stageID, customTagList).
              foldl (\<lambda>st customTag. handleTagFunc a dep customTag stageID (?g stageID) st) st customTagList"
  have 1: "grows (snd st) (snd (?f1 st d))" for st d
    by (simp add: Let_def handleTagFunc_grows)
  have g: "grows m (?g i m)" for i m by (auto split: option.splits)
  have 2: "grows (snd st) (snd (?f2 st x))" for st x
    by (cases x) (simp, rule grows_foldl_snd, rule handleTagFunc_grows, rule g)
  have "grows (snd st) (snd (foldl ?f1 st ds))" for st ds by (rule grows_foldl_snd) (rule 1)
  from this [of "([], m)"] have "grows m (snd (foldl ?f1 ([], m) ds))" for ds by simp
  moreover have "grows (snd st) (snd (foldl ?f2 st xs))" for st xs by (rule grows_foldl_snd) (rule 2)
  ultimately show ?thesis
    unfolding skipStageIDsThatAreUsedInKubernetes_def Let_def by (rule grows_trans)
qed

lemma final_kubernetes_managed:
  "managed (skipFinalStageIDsThatAreUsedInKubernetes a dep m) = managed m"
  "imageMetadataList (skipFinalStageIDsThatAreUsedInKubernetes a dep m) = imageMetadataList m"
proof -
  let ?f = "\<lambda>st d. let stageID = StageID_String (sdStageID d)
            in handleTagFunc a dep stageID stageID
                 (\<lambda>m. MarkFinalStageDescAsProtected m d ProtectionReasonKubernetesBasedPolicy False) st"
  have "managed (snd (foldl ?f st ds)) = managed (snd st) \<and> imageMetadataList (snd (foldl ?f st ds)) = imageMetadataList (snd st)"
    for st and ds :: "StageDesc list"
    by (induction ds arbitrary: st)
      (auto simp: Let_def handleTagFunc_def MarkFinalStageDescAsProtected_def split: prod.splits)
  from this [of "([], m)"] show "managed (skipFinalStageIDsThatAreUsedInKubernetes a dep m) = managed m"
    "imageMetadataList (skipFinalStageIDsThatAreUsedInKubernetes a dep m) = imageMetadataList m"
    by (simp_all add: skipFinalStageIDsThatAreUsedInKubernetes_def)
qed

lemma grows_final_kubernetes: "grows m (skipFinalStageIDsThatAreUsedInKubernetes a dep m)"
  by (rule grows_managed) (rule final_kubernetes_managed)+

lemma kubernetesPolicy_grows: "kubernetesPolicy env opts cm = Inr cm' \<Longrightarrow> grows (stageManager cm) (stageManager cm')"
  using grows_trans [OF grows_kubernetes grows_final_kubernetes]
  by (auto simp: kubernetesPolicy_def orFail_Inr split: if_splits)

lemma handleSaved_grows: "handleSavedStageIDs ids m = Inr m' \<Longrightarrow> grows m m'"
  unfolding handleSavedStageIDs_def
  by (erule foldR_invariant [where P = "grows m"])
    (auto simp: MarkStageDescAsProtectedByStageID_def Manager_MarkStageDescAsProtected_def [symmetric]
      split: option.splits intro: grows_trans)

lemma cleanupImageMetadata_manager:
  "cleanupImageMetadata env opts img hits unlink cm = Inr cm' \<Longrightarrow> stageManager cm' = stageManager cm"
  by (auto simp: cleanupImageMetadata_def Let_def bindR_Inr split: if_splits dest!: onWorld_Inr)

lemma gitHistoryOfImage_grows:
  "gitHistoryOfImage env opts refs cm img = Inr cm' \<Longrightarrow> grows (stageManager cm) (stageManager cm')"
  by (cases img)
    (auto simp: gitHistoryOfImage_def orFail_Inr Let_def split: if_splits
      dest!: handleSaved_grows cleanupImageMetadata_manager)

lemma nonexistent_manager:
  assumes "cleanupNonexistentImageMetadata env opts cm = Inr cm'"
  shows "stageManager cm' = stageManager cm"
proof -
  have "stageManager s' = stageManager cm"
    if "foldR (\<lambda>cm (imageMetadataID, stageIDCommitList).
        onWorld (deleteImageMetadata (storage env) imageMetadataID stageIDCommitList (DryRun opts) True) cm) cm byImage = Inr s'" for byImage s'
    by (rule foldR_invariant [OF that, where P = "\<lambda>s. stageManager s = stageManager cm"]) (auto dest: onWorld_Inr)
  then show ?thesis using assms by (auto simp: cleanupNonexistentImageMetadata_def Let_def split: if_splits)
qed

lemma gitHistoryBasedCleanup_grows:
  assumes "gitHistoryBasedCleanup env opts cm = Inr cm'"
  shows "grows (stageManager cm) (stageManager cm')"
proof -
  from assms obtain refs imgs cm1 where fold:
    "foldR (\<lambda>cm img. gitHistoryOfImage env opts refs cm img) cm imgs = Inr cm1"
    and last: "cleanupNonexistentImageMetadata env opts cm1 = Inr cm'"
    by (auto simp: gitHistoryBasedCleanup_def Let_def DoTasks_list orFail_Inr bindR_Inr)
  have "grows (stageManager cm) (stageManager cm1)"
    by (rule foldR_invariant [OF fold, where P = "\<lambda>s. grows (stageManager cm) (stageManager s)"])
      (auto intro: grows_trans dest: gitHistoryOfImage_grows)
  then show ?thesis using nonexistent_manager [OF last] by simp
qed

section \<open>From the fetched stages to the deletions\<close>

lemma getOrCreate_managed [simp]: "managed (getOrCreateImageMetadata m i st f) = managed m"
  by (simp add: getOrCreateImageMetadata_def Let_def)

lemma processImageMetadata_managed:
  assumes "processImageMetadata exists byImage m = Inr m'"
  shows "managed m' = managed m"
proof -
  have inner: "managed (snd cm') = managed m"
    if "foldR (\<lambda>(cache, m) (stageID, commitList).
           bindR (splitCommits exists cache commitList) (\<lambda>(cache', toKeep, toDelete).
             Inr (cache', getOrCreateImageMetadata m imageName stageID
               (\<lambda>im. im\<lparr>imCommitList := imCommitList im @ toKeep,
                        imCommitListToDelete := imCommitListToDelete im @ toDelete\<rparr>)))) cm l = Inr cm'"
      and "managed (snd cm) = managed m" for imageName cm l cm'
    by (rule foldR_invariant [OF that(1), where P = "\<lambda>cm. managed (snd cm) = managed m"])
      (use that(2) in \<open>auto simp: bindR_Inr\<close>)
  from assms obtain c where fold: "foldR (\<lambda>(cache, m) (imageName, stageIDCommitList).
         foldR (\<lambda>(cache, m) (stageID, commitList).
           bindR (splitCommits exists cache commitList) (\<lambda>(cache', toKeep, toDelete).
             Inr (cache', getOrCreateImageMetadata m imageName stageID
               (\<lambda>im. im\<lparr>imCommitList := imCommitList im @ toKeep,
                        imCommitListToDelete := imCommitListToDelete im @ toDelete\<rparr>))))
           (cache, m) stageIDCommitList) ([], m) byImage = Inr (c, m')"
    by (auto simp: processImageMetadata_def bindR_Inr)
  have "managed (snd (c, m')) = managed m"
    by (rule foldR_invariant [OF fold, where P = "\<lambda>cm. managed (snd cm) = managed m"]) (auto dest: inner)
  then show ?thesis by simp
qed

lemma InitImagesMetadata_managed:
  assumes "InitImagesMetadata exists byImage byOther m = Inr m'"
  shows "managed m' = managed m"
proof -
  have inner: "managed (foldl (\<lambda>m (stageID, commitList). getOrCreateImageMetadata m imageName stageID
             (\<lambda>im. im\<lparr>isNonexistentImage := True, imCommitListToDelete := commitList\<rparr>)) m l) = managed m" for m imageName l
    by (induction l arbitrary: m) (auto simp: case_prod_beta)
  have "managed (foldl (\<lambda>m (imageName, stageIDCommitList).
          foldl (\<lambda>m (stageID, commitList). getOrCreateImageMetadata m imageName stageID
             (\<lambda>im. im\<lparr>isNonexistentImage := True, imCommitListToDelete := commitList\<rparr>)) m stageIDCommitList) m xs) = managed m" for m xs
    by (induction xs arbitrary: m) (auto simp: inner case_prod_beta)
  then show ?thesis using processImageMetadata_managed [OF assms [unfolded InitImagesMetadata_def]] by (rule trans [rotated])
qed

lemma readErr_Inr [simp]: "readErr r = Inr a \<longleftrightarrow> r = Inr a"
  by (cases r) (auto simp: readErr_def)

lemma init_managed:
  assumes "init env cm = Inr cm'"
  shows "\<exists>ds. GetStageDescSetWithCache (storage env) (ops (cworld cm)) = Inr ds \<and>
    managed (stageManager cm') = newManagedStageDescSet ds"
  using assms unfolding init_def Let_def
  by (auto simp: orFail_Inr bindR_Inr dest!: InitImagesMetadata_managed split: prod.splits)

lemma init_customTags:
  "init env cm = Inr cm' \<Longrightarrow> GetCustomTagsMetadata (storage env) (ops (cworld cm)) = Inr (stageIDCustomTagList (stageManager cm'))"
  unfolding init_def Let_def by (auto simp: orFail_def split: sum.splits option.splits)

lemma init_world_Inr: "init env cm = Inr cm' \<Longrightarrow> cworld cm' = cworld cm"
  using init_world [of env cm] by simp

lemma kubernetesPolicy_world_Inr: "kubernetesPolicy env opts cm = Inr cm' \<Longrightarrow> cworld cm' = cworld cm"
  using kubernetesPolicy_world [of env opts cm] by simp

definition historyPolicy :: "cleanupEnv \<Rightarrow> CleanupOptions \<Rightarrow> cleanupManager \<Rightarrow> cleanupManager result" where
  "historyPolicy env opts cm =
     (if \<not> DisableGitHistoryBasedPolicy (ConfigMetaCleanup opts) then gitHistoryBasedCleanup env opts cm
      else onWorld (purgeImageMetadata (storage env) (DryRun opts)) cm)"

lemma historyPolicy_footprint: "extends (metaOnly opts) (cworld cm) (cworld (stateOf (historyPolicy env opts cm)))"
  by (auto simp: historyPolicy_def gitHistoryBasedCleanup_footprint metaOnly_def
      intro!: onWorld_footprint extends_mono [OF purgeImageMetadata_footprint])

lemma historyPolicy_grows: "historyPolicy env opts cm = Inr cm' \<Longrightarrow> grows (stageManager cm) (stageManager cm')"
  by (auto simp: historyPolicy_def split: if_splits dest: gitHistoryBasedCleanup_grows onWorld_Inr)

text \<open>The manager with which the deletions start, and the hours of the policy.\<close>

definition policiesApplied :: "cleanupEnv \<Rightarrow> CleanupOptions \<Rightarrow> Manager \<Rightarrow> nat \<times> Manager" where
  "policiesApplied env opts m =
     (case protectBuiltWithinLastNHours (now env) (ConfigMetaCleanup opts) (KeepStagesBuiltWithinLastNHours opts) m of
        (hours, m') \<Rightarrow> (hours, markWhitelistStagesAsProtected (KeepList opts) m'))"

lemma policiesApplied_grows: "grows m (snd (policiesApplied env opts m))"
  using grows_trans [OF grows_builtWithin grows_keepList] by (simp add: policiesApplied_def case_prod_beta)

lemma run_enabled:
  assumes "\<not> DisableCleanup (ConfigMetaCleanup opts)"
  shows "run env opts cm = bindR (init env cm) (\<lambda>cm. bindR (kubernetesPolicy env opts cm) (\<lambda>cm.
    bindR (historyPolicy env opts cm) (\<lambda>cm.
      deletionPhase env opts (fst (policiesApplied env opts (stageManager cm)))
        (cm\<lparr>stageManager := snd (policiesApplied env opts (stageManager cm))\<rparr>))))"
  using assms by (simp add: run_def Let_def historyPolicy_def policiesApplied_def case_prod_beta)

text \<open>A run stops before the deletions, having touched only metadata, or reaches them.\<close>

lemma run_phases:
  assumes "\<not> DisableCleanup (ConfigMetaCleanup opts)"
  obtains (stopped) "extends (metaOnly opts) (cworld cm) (cworld (stateOf (run env opts cm)))"
  | (deleting) ds cmI cmK cmG hours m where
      "GetStageDescSetWithCache (storage env) (ops (cworld cm)) = Inr ds"
      "init env cm = Inr cmI" "managed (stageManager cmI) = newManagedStageDescSet ds"
      "kubernetesPolicy env opts cmI = Inr cmK" "historyPolicy env opts cmK = Inr cmG"
      "policiesApplied env opts (stageManager cmG) = (hours, m)"
      "grows (stageManager cmK) m" "grows (stageManager cmG) m"
      "extends (metaOnly opts) (cworld cm) (cworld cmG)"
      "run env opts cm = deletionPhase env opts hours (cmG\<lparr>stageManager := m\<rparr>)"
proof (cases "init env cm")
  case (Inl e)
  then have "cworld (stateOf (run env opts cm)) = cworld cm"
    using init_world [of env cm] by (simp add: run_enabled [OF assms])
  then show ?thesis using stopped by (simp add: extends_def)
next
  case I: (Inr cmI)
  obtain ds where ds: "GetStageDescSetWithCache (storage env) (ops (cworld cm)) = Inr ds"
    "managed (stageManager cmI) = newManagedStageDescSet ds" using init_managed [OF I] by blast
  show ?thesis
  proof (cases "kubernetesPolicy env opts cmI")
    case (Inl e)
    then have "cworld (stateOf (run env opts cm)) = cworld cm"
      using I init_world_Inr [OF I] kubernetesPolicy_world [of env opts cmI] by (simp add: run_enabled [OF assms])
    then show ?thesis using stopped by (simp add: extends_def)
  next
    case K: (Inr cmK)
    have w: "cworld cmK = cworld cm" using kubernetesPolicy_world_Inr [OF K] init_world_Inr [OF I] by simp
    show ?thesis
    proof (cases "historyPolicy env opts cmK")
      case (Inl e)
      then have "stateOf (run env opts cm) = stateOf (historyPolicy env opts cmK)"
        using I K by (simp add: run_enabled [OF assms])
      then show ?thesis using stopped historyPolicy_footprint [of opts cmK env] w by simp
    next
      case G: (Inr cmG)
      obtain hours m where p: "policiesApplied env opts (stageManager cmG) = (hours, m)" by fastforce
      have g: "grows (stageManager cmG) m" using policiesApplied_grows [of "stageManager cmG" env opts] p by simp
      have "extends (metaOnly opts) (cworld cm) (cworld cmG)"
        using historyPolicy_footprint [of opts cmK env] w G by simp
      moreover have "run env opts cm = deletionPhase env opts hours (cmG\<lparr>stageManager := m\<rparr>)"
        using I K G p by (simp add: run_enabled [OF assms])
      ultimately show ?thesis
        using deleting ds I K G p g grows_trans [OF historyPolicy_grows [OF G] g] by blast
    qed
  qed
qed

section \<open>The deletions\<close>

definition rejectedKind :: "storageOp \<Rightarrow> bool" where
  "rejectedKind op \<longleftrightarrow> (\<exists>i. op = DeleteRejectedStageImage i \<or> op = DeleteRejectedStageRecord i) \<or> customTagOps UNIV op"

lemma rejectedOps_kind: "rejectedOps tagsOf ids op \<Longrightarrow> rejectedKind op"
  by (auto simp: rejectedOps_def rejectedPlan_def linkedTagsPlan_def rejectedKind_def customTagOps_def)

lemma forgetRejected_fold:
  "managed (fst (foldl (\<lambda>(m, forgotten) stageIDStr.
        let m' = ForgetCustomTagsByStageID m stageIDStr
        in (m', case GetStageDescByStageID (managed m') stageIDStr of
                  None \<Rightarrow> forgotten | Some d \<Rightarrow> snocNew forgotten d)) mf ids)) = managed (fst mf)"
  by (induction ids arbitrary: mf) (auto simp: Let_def ForgetCustomTagsByStageID_def split: prod.splits)

lemma forgetRejected_managed:
  "stageDescMetaMap (managed (forgetRejected ids m)) = stageDescMetaMap (managed m) \<and>
   set (stageDescSet (managed (forgetRejected ids m))) \<subseteq> set (stageDescSet (managed m))"
  using forgetRejected_fold [where ids = ids and mf = "(m, [])"]
  by (auto simp: forgetRejected_def Let_def ForgetDeletedStageDescSet_def DifferenceInPlace_def split: prod.splits)

lemma cleanupRejectedStages_manager:
  assumes "cleanupRejectedStages env opts cm = Inr cm'"
  shows "stageDescMetaMap (managed (stageManager cm')) = stageDescMetaMap (managed (stageManager cm)) \<and>
    set (stageDescSet (managed (stageManager cm'))) \<subseteq> set (stageDescSet (managed (stageManager cm)))"
    and "GetRejectedStageIDsOf (storage env) (ops (cworld cm)) = Inr [] \<Longrightarrow> stageManager cm' = stageManager cm"
proof -
  obtain ids w where r: "stageManager cm' = (if DryRun opts then stageManager cm else forgetRejected ids (stageManager cm))"
    and d: "deleteRejectedStagesWithLinkedTags (storage env) (stageIDCustomTagList (stageManager cm)) (DryRun opts) (cworld cm) = Inr (w, ids)"
    using assms by (auto simp: cleanupRejectedStages_def split: sum.splits prod.splits if_splits)
  show "stageDescMetaMap (managed (stageManager cm')) = stageDescMetaMap (managed (stageManager cm)) \<and>
    set (stageDescSet (managed (stageManager cm'))) \<subseteq> set (stageDescSet (managed (stageManager cm)))"
    using r forgetRejected_managed by simp
  show "stageManager cm' = stageManager cm" if "GetRejectedStageIDsOf (storage env) (ops (cworld cm)) = Inr []"
    using r d that by (auto simp: deleteRejectedStagesWithLinkedTags_def forgetRejected_def)
qed

text \<open>The calls of the deletions: no stage is deleted as unused that is protected when they start.\<close>

definition deletionOps :: "StageDesc set \<Rightarrow> storageOp \<Rightarrow> bool" where
  "deletionOps X op \<longleftrightarrow> rejectedKind op \<or> stageOps False X op \<or> finalOrTag op"

lemma stageOps_mono: "X \<subseteq> Y \<Longrightarrow> stageOps b X op \<Longrightarrow> stageOps b Y op"
  by (auto simp: stageOps_def split: storageOp.splits)

lemma metaMap_facts:
  assumes "stageDescMetaMap s' = stageDescMetaMap s"
  shows "metaOk s' = metaOk s" and "protectedSet s' = protectedSet s"
  using assms by (simp_all add: metaOk_def protectedSet_def)

lemma unusedStages_unprotected:
  assumes "metaOk (managed m)" and "protectRelatives m = Inr (h, m')"
  shows "unusedStages m \<subseteq> set (stageDescSet (managed m)) - protectedSet (managed m)"
  using protectRelatives_frame [OF assms(2,1)] assms(2) by (auto simp: unusedStages_def)

lemma unused_failed: "protectRelatives (stageManager cm) = Inl e \<Longrightarrow> cleanupUnusedStages env opts hours cm = Inl (e, cm)"
  by (simp add: cleanupUnusedStages_def orFail_def)

lemma deletionPhase_footprint:
  assumes "DryRun opts \<or> filterOk (storage env)" and "metaOk (managed (stageManager cm))"
    and "\<And>cm'. cleanupRejectedStages env opts cm = Inr cm' \<Longrightarrow>
      \<forall>h m'. protectRelatives (stageManager cm') = Inr (h, m') \<longrightarrow> unusedStages (stageManager cm') \<subseteq> X"
  shows "extends (\<lambda>op. \<not> DryRun opts \<and> deletionOps X op) (cworld cm) (cworld (stateOf (deletionPhase env opts hours cm)))"
    (is "extends ?P _ _")
  unfolding deletionPhase_def
proof (rule bind_footprint)
  show "extends ?P (cworld cm) (cworld (stateOf (cleanupRejectedStages env opts cm)))"
    by (rule extends_mono [OF cleanupRejectedStages_footprint]) (auto simp: deletionOps_def rejectedOps_kind)
  fix cm' assume r: "cleanupRejectedStages env opts cm = Inr cm'"
  have ok: "metaOk (managed (stageManager cm'))"
    using cleanupRejectedStages_manager(1) [OF r] assms(2) metaMap_facts(1) by blast
  have unused: "extends ?P (cworld cm') (cworld (stateOf (cleanupUnusedStages env opts hours cm')))"
  proof (cases "protectRelatives (stageManager cm')")
    case (Inl e)
    then show ?thesis by (simp add: unused_failed)
  next
    case (Inr hm)
    obtain h m' where "hm = (h, m')" by fastforce
    with assms(3) [OF r] Inr have sub: "unusedStages (stageManager cm') \<subseteq> X" by blast
    show ?thesis
      by (rule extends_mono [OF cleanupUnusedStages_footprint [OF assms(1) ok]])
        (auto simp: deletionOps_def rejectedKind_def dest: stageOps_mono [OF sub])
  qed
  have last: "extends ?P (cworld cm'') (cworld (stateOf
     (bindR (if GetFinalStageDescSetOf (storage env) \<noteq> None then cleanupFinalStages env opts hours cm'' else Inr cm'') (\<lambda>cm.
     bindR (onWorld (cleanupOrphanedArtifacts (storage env) (DryRun opts)) cm) (\<lambda>cm.
       postLastCleanupRecord env opts cm)))))" for cm''
    by (rule extends_mono [OF lastSteps_footprint [OF assms(1)]]) (auto simp: deletionOps_def)
  show "extends ?P (cworld cm') (cworld (stateOf (bindR (cleanupUnusedStages env opts hours cm') (\<lambda>cm.
     bindR (if GetFinalStageDescSetOf (storage env) \<noteq> None then cleanupFinalStages env opts hours cm else Inr cm) (\<lambda>cm.
     bindR (onWorld (cleanupOrphanedArtifacts (storage env) (DryRun opts)) cm) (\<lambda>cm.
       postLastCleanupRecord env opts cm))))))"
    by (rule bind_footprint [OF unused last])
qed

lemma deletionPhase_protected:
  assumes "DryRun opts \<or> filterOk (storage env)" and "metaOk (managed (stageManager cm))"
  shows "extends (\<lambda>op. \<not> DryRun opts \<and> deletionOps (set (stageDescSet (managed (stageManager cm))) - protectedSet (managed (stageManager cm))) op)
    (cworld cm) (cworld (stateOf (deletionPhase env opts hours cm)))"
proof (rule deletionPhase_footprint [OF assms])
  fix cm' assume r: "cleanupRejectedStages env opts cm = Inr cm'"
  note f = cleanupRejectedStages_manager(1) [OF r]
  show "\<forall>h m'. protectRelatives (stageManager cm') = Inr (h, m') \<longrightarrow>
      unusedStages (stageManager cm') \<subseteq> set (stageDescSet (managed (stageManager cm))) - protectedSet (managed (stageManager cm))"
    using f metaMap_facts [of "managed (stageManager cm')" "managed (stageManager cm)"] assms(2) unusedStages_unprotected by blast
qed

lemma start_metaOk:
  assumes "managed mI = newManagedStageDescSet ds" and "grows mI m"
  shows "metaOk (managed m)"
  using assms by (auto simp: grows_def)

text \<open>C3: A dry run changes nothing: whatever the storage answers and wherever the run stops, not a single
  call that deletes or writes has been issued.\<close>

theorem dry_run_issues_nothing:
  assumes "DryRun opts"
  shows "ops (cworld (stateOf (Cleanup env opts rep))) = []"
proof -
  let ?cm = "newCleanupManager opts rep"
  have start: "ops (cworld ?cm) = []" by (simp add: newCleanupManager_def)
  have "extends (\<lambda>op. False) (cworld ?cm) (cworld (stateOf (run env opts ?cm)))"
  proof (cases "DisableCleanup (ConfigMetaCleanup opts)")
    case True
    then show ?thesis
      unfolding run_def Let_def
      by (auto intro!: bind_footprint onWorld_footprint extends_mono [OF purgeManagedImages_footprint]
          extends_mono [OF purgeImageMetadata_footprint] simp: assms)
  next
    case False
    then show ?thesis
    proof (cases rule: run_phases [where cm = ?cm and env = env])
      case stopped
      then show ?thesis by (rule extends_mono) (simp add: metaOnly_def assms)
    next
      case (deleting ds cmI cmK cmG hours m)
      have "metaOk (managed m)"
        using start_metaOk [OF deleting(3)] grows_trans [OF kubernetesPolicy_grows [OF deleting(4)] deleting(7)] by blast
      then have "extends (\<lambda>op. False) (cworld cmG) (cworld (stateOf (run env opts ?cm)))"
        using deletionPhase_protected [of opts env "cmG\<lparr>stageManager := m\<rparr>" hours] assms deleting(10) by simp
      moreover have "extends (\<lambda>op. False) (cworld ?cm) (cworld cmG)"
        using deleting(9) by (rule extends_mono) (simp add: metaOnly_def assms)
      ultimately show ?thesis by (rule extends_trans [rotated])
    qed
  qed
  then show ?thesis using start by (simp add: extends_none Cleanup_def)
qed

text \<open>With the cleanup disabled in the configuration no image is touched: the only calls issued remove
  records of managed images and image metadata.\<close>

theorem disabled_cleanup_keeps_images:
  assumes "DisableCleanup (ConfigMetaCleanup opts)" and "op \<in> set (ops (cworld (stateOf (Cleanup env opts rep))))"
  shows "(\<exists>i. op = RmManagedImage i) \<or> (\<exists>i c st. op = RmImageMetadata i c st)"
proof -
  let ?cm = "newCleanupManager opts rep" and ?P = "\<lambda>op. (\<exists>i. op = RmManagedImage i) \<or> (\<exists>i c st. op = RmImageMetadata i c st)"
  have "extends ?P (cworld ?cm) (cworld (stateOf (run env opts ?cm)))"
    using assms(1) unfolding run_def Let_def
    by (auto intro!: bind_footprint onWorld_footprint extends_mono [OF purgeManagedImages_footprint]
        extends_mono [OF purgeImageMetadata_footprint])
  from extends_member [OF this] assms(2) show ?thesis by (simp add: Cleanup_def newCleanupManager_def)
qed

section \<open>Kept stages survive\<close>

definition isDeployed :: "string \<Rightarrow> DeployedDockerImage list \<Rightarrow> StageDesc \<Rightarrow> bool" where
  "isDeployed address deployed d \<longleftrightarrow> list_ex (\<lambda>i. ddName i = address @ '':'' @ StageID_String (sdStageID d)) deployed"

text \<open>Deployed through one of the custom tags that are registered for the stage.\<close>

definition isDeployedByTag :: "string \<Rightarrow> DeployedDockerImage list \<Rightarrow> (string, string list) goMap \<Rightarrow> StageDesc \<Rightarrow> bool" where
  "isDeployedByTag address deployed tags d \<longleftrightarrow> (\<exists>customTagList customTag. (StageID_String (sdStageID d), customTagList) \<in> set tags \<and>
     customTag \<in> set customTagList \<and> list_ex (\<lambda>i. ddName i = address @ '':'' @ customTag) deployed)"

lemma newManaged_look:
  assumes "distinct (map (\<lambda>d. StageID_String (sdStageID d)) ds)" and "d \<in> set ds"
  shows "GetStageDescByStageID (newManagedStageDescSet ds) (StageID_String (sdStageID d)) = Some d"
proof -
  have "map_of (foldl (\<lambda>m d. AList.update (StageID_String (sdStageID d)) d m) m ds) (StageID_String (sdStageID d)) = Some d" for m
    using assms
  proof (induction ds arbitrary: m rule: rev_induct)
    case Nil
    then show ?case by simp
  next
    case (snoc x ds)
    then show ?case by (cases "d = x") (auto simp: image_iff)
  qed
  then show ?thesis by (simp add: newManagedStageDescSet_def GetStageDescByStageID_def)
qed

text \<open>A stage that has been handled is protected; and a stage with a deployed tag gets handled.\<close>

definition handledProtected :: "StageDesc \<Rightarrow> string list \<times> Manager \<Rightarrow> bool" where
  "handledProtected d st \<longleftrightarrow> metaOk (managed (snd st)) \<and> GetStageDescByStageID (managed (snd st)) (StageID_String (sdStageID d)) = Some d \<and>
     (StageID_String (sdStageID d) \<in> set (fst st) \<longrightarrow> d \<in> protectedSet (managed (snd st)))"

lemma handleTag_protected:
  assumes "handledProtected d st" and "\<And>m. grows m (f m)"
    and "\<And>m. stageID = StageID_String (sdStageID d) \<Longrightarrow> metaOk (managed m) \<Longrightarrow>
      GetStageDescByStageID (managed m) stageID = Some d \<Longrightarrow> d \<in> protectedSet (managed (f m))"
  shows "handledProtected d (handleTagFunc a dep tag stageID f st)"
proof -
  have g: "grows (snd st) (f (snd st))" by (rule assms(2))
  then show ?thesis
    using assms(1) assms(3) [of "snd st"]
    by (cases "stageID = StageID_String (sdStageID d)")
      (auto simp: handledProtected_def handleTagFunc_def grows_def GetStageDescByStageID_def split: prod.splits)
qed

lemma handleTag_handled:
  "x \<in> set (fst st) \<Longrightarrow> x \<in> set (fst (handleTagFunc a dep tag stageID f st))"
  "list_ex (\<lambda>i. ddName i = a @ '':'' @ tag) dep \<Longrightarrow> stageID \<in> set (fst (handleTagFunc a dep tag stageID f st))"
  by (auto simp: handleTagFunc_def split: prod.splits)

lemma foldl_keeps: "P st \<Longrightarrow> (\<And>st x. x \<in> set xs \<Longrightarrow> P st \<Longrightarrow> P (f st x)) \<Longrightarrow> P (foldl f st xs)"
  by (induction xs arbitrary: st) auto

lemma foldl_meets:
  assumes "x \<in> set xs" and "\<And>st. P (f st x)" and "\<And>st x. P st \<Longrightarrow> P (f st x)"
  shows "P (foldl f st xs)"
proof -
  from assms(1) obtain ys zs where "xs = ys @ x # zs" by (auto simp: in_set_conv_decomp)
  then show ?thesis using foldl_keeps [of P "f (foldl f st ys) x" zs f] assms(2,3) by simp
qed

abbreviation markInUse :: "string \<Rightarrow> DeployedDockerImage list \<Rightarrow> string list \<times> Manager \<Rightarrow> StageDesc \<Rightarrow> string list \<times> Manager" where
  "markInUse a dep st d \<equiv> (let stageID = StageID_String (sdStageID d)
     in handleTagFunc a dep stageID stageID (\<lambda>m. Manager_MarkStageDescAsProtected m d ProtectionReasonKubernetesBasedPolicy False) st)"

abbreviation markTagInUse :: "string \<Rightarrow> DeployedDockerImage list \<Rightarrow> string \<Rightarrow> string list \<times> Manager \<Rightarrow> string \<Rightarrow> string list \<times> Manager" where
  "markTagInUse a dep stageID st customTag \<equiv> handleTagFunc a dep customTag stageID
     (\<lambda>m. case GetStageDescByStageID (managed m) stageID of
        Some d \<Rightarrow> Manager_MarkStageDescAsProtected m d ProtectionReasonKubernetesBasedPolicy False
      | None \<Rightarrow> ForgetCustomTagsByStageID m stageID) st"

abbreviation markTagsInUse :: "string \<Rightarrow> DeployedDockerImage list \<Rightarrow> string list \<times> Manager \<Rightarrow> string \<times> string list \<Rightarrow> string list \<times> Manager" where
  "markTagsInUse a dep \<equiv> (\<lambda>st (stageID, customTagList). foldl (markTagInUse a dep stageID) st customTagList)"

lemma markInUse_protected:
  assumes "distinct (map (\<lambda>d. StageID_String (sdStageID d)) ds)" and "d \<in> set ds" and "handledProtected d st"
  shows "handledProtected d (foldl (markInUse a dep) st ds)"
proof (rule foldl_keeps [where P = "handledProtected d", OF assms(3)])
  fix st x assume x: "x \<in> set ds" and st: "handledProtected d st"
  have "x = d" if "StageID_String (sdStageID x) = StageID_String (sdStageID d)"
    using that assms(1,2) x by (auto simp: distinct_map inj_on_def)
  then show "handledProtected d (markInUse a dep st x)"
    unfolding Let_def by (intro handleTag_protected [OF st]) (auto simp: mgr.prot_mark)
qed

lemma markTagsInUse_protected:
  assumes "handledProtected d st"
  shows "handledProtected d (foldl (markTagsInUse a dep) st tags)"
proof (rule foldl_keeps [where P = "handledProtected d", OF assms])
  fix st and x :: "string \<times> string list" assume st: "handledProtected d st"
  obtain stageID customTagList where x: "x = (stageID, customTagList)" by fastforce
  have "handledProtected d (foldl (markTagInUse a dep stageID) st customTagList)"
    by (rule foldl_keeps [where P = "handledProtected d", OF st], rule handleTag_protected) (auto simp: mgr.prot_mark split: option.splits)
  then show "handledProtected d (markTagsInUse a dep st x)" by (simp add: x)
qed

lemma kubernetes_protects:
  assumes "metaOk (managed m)" and "distinct (map (\<lambda>d. StageID_String (sdStageID d)) (stageDescSet (managed m)))"
    and "d \<in> set (stageDescSet (managed m))" and "GetStageDescByStageID (managed m) (StageID_String (sdStageID d)) = Some d"
    and "isDeployed a dep d \<or> isDeployedByTag a dep (stageIDCustomTagList m) d"
  shows "d \<in> protectedSet (managed (skipStageIDsThatAreUsedInKubernetes a dep m))"
proof -
  let ?st1 = "foldl (markInUse a dep) ([], m) (stageDescSet (managed m))"
  let ?st2 = "foldl (markTagsInUse a dep) ?st1 (stageIDCustomTagList (snd ?st1))"
  let ?P = "\<lambda>st. StageID_String (sdStageID d) \<in> set (fst st)"
  have keep: "?P (foldl (markTagInUse a dep i) st ts)" if "?P st" for st i ts
    by (rule foldl_keeps [where P = ?P, OF that]) (rule handleTag_handled(1))
  have keepTags: "?P (markTagsInUse a dep st x)" if "?P st" for st x using keep [OF that] by (cases x) simp
  have inv: "handledProtected d ?st2"
    by (intro markTagsInUse_protected markInUse_protected assms(2,3)) (use assms(1,4) in \<open>simp add: handledProtected_def\<close>)
  have tags: "stageIDCustomTagList (snd ?st1) = stageIDCustomTagList m"
    by (rule foldl_keeps [where P = "\<lambda>st. stageIDCustomTagList (snd st) = stageIDCustomTagList m"])
      (auto simp: Let_def handleTagFunc_def split: prod.splits)
  have "?P ?st2"
    using assms(5)
  proof
    assume "isDeployed a dep d"
    then have now: "list_ex (\<lambda>i. ddName i = a @ '':'' @ StageID_String (sdStageID d)) dep" by (simp add: isDeployed_def)
    have "?P ?st1"
      by (rule foldl_meets [where P = ?P, OF assms(3)]) (simp_all only: Let_def handleTag_handled(1) handleTag_handled(2) [OF now])
    then show ?thesis by (rule foldl_keeps [where P = ?P]) (rule keepTags)
  next
    assume "isDeployedByTag a dep (stageIDCustomTagList m) d"
    then obtain ts t where ts: "(StageID_String (sdStageID d), ts) \<in> set (stageIDCustomTagList (snd ?st1))" "t \<in> set ts"
      "list_ex (\<lambda>i. ddName i = a @ '':'' @ t) dep" unfolding tags isDeployedByTag_def by blast
    have "?P (foldl (markTagInUse a dep (StageID_String (sdStageID d))) st ts)" for st
      by (rule foldl_meets [where P = ?P, OF ts(2)]) (simp_all only: handleTag_handled(1) handleTag_handled(2) [OF ts(3)])
    then have "?P (markTagsInUse a dep st (StageID_String (sdStageID d), ts))" for st by simp
    then show ?thesis by (rule foldl_meets [where P = ?P, OF ts(1)]) (rule keepTags)
  qed
  then show ?thesis using inv unfolding skipStageIDsThatAreUsedInKubernetes_def Let_def handledProtected_def by blast
qed

text \<open>The three policies besides the git history that keep a stage.\<close>

definition keptByPolicy :: "cleanupEnv \<Rightarrow> CleanupOptions \<Rightarrow> StageDesc \<Rightarrow> bool" where
  "keptByPolicy env opts d \<longleftrightarrow>
     (\<not> WithoutKube opts \<and> \<not> DisableKubernetesBasedPolicy (ConfigMetaCleanup opts) \<and>
        (\<exists>deployed. deployedDockerImages (kubeQuery env) (KubernetesContextClients opts) (KubernetesNamespacesByContext opts) = Inr deployed \<and>
           (isDeployed (Address (storage env)) deployed d \<or>
            (\<exists>tags. GetCustomTagsMetadata (storage env) [] = Inr tags \<and> isDeployedByTag (Address (storage env)) deployed tags d)))) \<or>
     (let n = (case KeepStagesBuiltWithinLastNHours opts of None \<Rightarrow> KeepImagesBuiltWithinLastNHours (ConfigMetaCleanup opts) | Some k \<Rightarrow> k)
      in \<not> DisableBuiltWithinLastNHoursPolicy (ConfigMetaCleanup opts) \<and> n \<noteq> 0 \<and> builtWithin (now env) n (sdInfo d)) \<or>
     Tag (sdInfo d) \<in> set (KeepList opts)"

lemma policies_protect:
  assumes "metaOk (managed (stageManager cmI))" and "distinct (map (\<lambda>d. StageID_String (sdStageID d)) (stageDescSet (managed (stageManager cmI))))"
    and "d \<in> set (stageDescSet (managed (stageManager cmI)))" and "keptByPolicy env opts d"
    and "GetStageDescByStageID (managed (stageManager cmI)) (StageID_String (sdStageID d)) = Some d"
    and "GetCustomTagsMetadata (storage env) [] = Inr (stageIDCustomTagList (stageManager cmI))"
    and "kubernetesPolicy env opts cmI = Inr cmK" and "historyPolicy env opts cmK = Inr cmG"
    and "policiesApplied env opts (stageManager cmG) = (hours, m)"
  shows "d \<in> protectedSet (managed m)"
proof -
  let ?b = "snd (protectBuiltWithinLastNHours (now env) (ConfigMetaCleanup opts) (KeepStagesBuiltWithinLastNHours opts) (stageManager cmG))"
  have m: "m = markWhitelistStagesAsProtected (KeepList opts) ?b"
    using assms(9) by (auto simp: policiesApplied_def split: prod.splits)
  have gK: "grows (stageManager cmI) (stageManager cmK)" by (rule kubernetesPolicy_grows [OF assms(7)])
  have gG: "grows (stageManager cmK) (stageManager cmG)" by (rule historyPolicy_grows [OF assms(8)])
  have gb: "grows (stageManager cmG) ?b" by (rule grows_builtWithin)
  have gm: "grows ?b m" unfolding m by (rule grows_keepList)
  have gIb: "grows (stageManager cmI) ?b" using grows_trans [OF gK grows_trans [OF gG gb]] .
  have gIG: "grows (stageManager cmI) (stageManager cmG)" using grows_trans [OF gK gG] .
  have okG: "metaOk (managed (stageManager cmG))" and memG: "d \<in> set (stageDescSet (managed (stageManager cmG)))"
    using gIG assms(1,3) by (auto simp: grows_def)
  have okb: "metaOk (managed ?b)" and memb: "d \<in> set (stageDescSet (managed ?b))"
    using gIb assms(1,3) by (auto simp: grows_def)
  have okK: "metaOk (managed (stageManager cmK))" using gK assms(1) by (simp add: grows_def)
  from assms(4) consider
    (kube) deployed where "\<not> WithoutKube opts" "\<not> DisableKubernetesBasedPolicy (ConfigMetaCleanup opts)"
      "deployedDockerImages (kubeQuery env) (KubernetesContextClients opts) (KubernetesNamespacesByContext opts) = Inr deployed"
      "isDeployed (Address (storage env)) deployed d \<or> isDeployedByTag (Address (storage env)) deployed (stageIDCustomTagList (stageManager cmI)) d"
    | (built) n where "n = (case KeepStagesBuiltWithinLastNHours opts of None \<Rightarrow> KeepImagesBuiltWithinLastNHours (ConfigMetaCleanup opts) | Some k \<Rightarrow> k)"
      "\<not> DisableBuiltWithinLastNHoursPolicy (ConfigMetaCleanup opts)" "n \<noteq> 0" "builtWithin (now env) n (sdInfo d)"
    | (list) "Tag (sdInfo d) \<in> set (KeepList opts)"
    using assms(6) unfolding keptByPolicy_def Let_def by auto
  then show ?thesis
  proof cases
    case kube
    then have "stageManager cmK = skipFinalStageIDsThatAreUsedInKubernetes (FinalAddress (storage env)) deployed
        (skipStageIDsThatAreUsedInKubernetes (Address (storage env)) deployed (stageManager cmI))"
      using assms(7) by (auto simp: kubernetesPolicy_def orFail_Inr split: if_splits)
    then have "d \<in> protectedSet (managed (stageManager cmK))"
      using kubernetes_protects [OF assms(1,2,3,5) kube(4)] final_kubernetes_managed(1) by metis
    then show ?thesis using grows_trans [OF gG grows_trans [OF gb gm]] okK by (auto simp: grows_def)
  next
    case built
    then have "d \<in> protectedSet (managed ?b)"
      using mgr.markAll_all [OF okG] memG unfolding builtWithin_markAll Let_def by auto
    then show ?thesis using gm okb by (auto simp: grows_def)
  next
    case list
    then show ?thesis
      using mgr.markAll_all [OF okb] memb unfolding m keepList_markAll by auto
  qed
qed

text \<open>A stage that the policies have protected is not among those deleted.\<close>

lemma protected_survives:
  assumes "\<not> DisableCleanup (ConfigMetaCleanup opts)" and "filterOk (storage env)"
    and "GetStageDescSetWithCache (storage env) [] = Inr ds"
    and prot: "\<And>cmI cmK cmG hours m. managed (stageManager cmI) = newManagedStageDescSet ds \<Longrightarrow> init env (newCleanupManager opts rep) = Inr cmI \<Longrightarrow>
      kubernetesPolicy env opts cmI = Inr cmK \<Longrightarrow> historyPolicy env opts cmK = Inr cmG \<Longrightarrow>
      policiesApplied env opts (stageManager cmG) = (hours, m) \<Longrightarrow> d \<in> protectedSet (managed m)"
  shows "DeleteStage d \<notin> set (ops (cworld (stateOf (Cleanup env opts rep)))) \<and>
    (\<forall>c. DeleteCacheStage c d \<notin> set (ops (cworld (stateOf (Cleanup env opts rep)))))"
proof -
  let ?cm = "newCleanupManager opts rep"
  have start: "ops (cworld ?cm) = []" by (simp add: newCleanupManager_def)
  have "extends (\<lambda>op. op \<noteq> DeleteStage d \<and> (\<forall>c. op \<noteq> DeleteCacheStage c d)) (cworld ?cm) (cworld (stateOf (run env opts ?cm)))"
    (is "extends ?P _ _")
    using assms(1)
  proof (cases rule: run_phases [where cm = ?cm and env = env])
    case stopped
    then show ?thesis by (rule extends_mono) (auto simp: metaOnly_def)
  next
    case (deleting ds' cmI cmK cmG hours m)
    have ds: "ds' = ds" using deleting(1) start assms(3) by simp
    have okI: "metaOk (managed (stageManager cmI))" using deleting(3) ds by simp
    have prot: "d \<in> protectedSet (managed m)" by (rule prot [OF _ deleting(2,4,5,6)]) (use deleting(3) ds in simp)
    have ok: "metaOk (managed m)"
      using okI grows_trans [OF kubernetesPolicy_grows [OF deleting(4)] deleting(7)] by (simp add: grows_def)
    have "extends ?P (cworld cmG) (cworld (stateOf (run env opts ?cm)))"
      unfolding deleting(10)
      using deletionPhase_protected [of opts env "cmG\<lparr>stageManager := m\<rparr>" hours] ok assms(2) prot
      by (auto elim!: extends_mono simp: deletionOps_def rejectedKind_def customTagOps_def stageOps_def finalOrTag_def)
    moreover have "extends ?P (cworld ?cm) (cworld cmG)"
      using deleting(9) by (rule extends_mono) (auto simp: metaOnly_def)
    ultimately show ?thesis by (rule extends_trans [rotated])
  qed
  then show ?thesis using start by (auto simp: Cleanup_def dest: extends_member)
qed

text \<open>C2: A stage is never deleted as an unused stage, neither from the repository nor from a cache repository, whatever the outcome of the run,
  when it is deployed in Kubernetes, under its own tag or under a custom tag registered for it, when it was built within the
  configured hours, or when its own tag is on the keep list. (A custom tag on the keep list is not compared with anything and does not
  keep the stage; and rejected stages are deleted whatever keeps them.)\<close>

theorem kept_by_policy_survives:
  assumes "\<not> DisableCleanup (ConfigMetaCleanup opts)" and "filterOk (storage env)"
    and "GetStageDescSetWithCache (storage env) [] = Inr ds"
    and "distinct (map (\<lambda>d. StageID_String (sdStageID d)) ds)"
    and "d \<in> set ds" and "keptByPolicy env opts d"
  shows "DeleteStage d \<notin> set (ops (cworld (stateOf (Cleanup env opts rep)))) \<and>
    (\<forall>c. DeleteCacheStage c d \<notin> set (ops (cworld (stateOf (Cleanup env opts rep)))))"
proof (rule protected_survives [OF assms(1,2,3)])
  fix cmI cmK cmG hours m
  assume I: "managed (stageManager cmI) = newManagedStageDescSet ds" and init: "init env (newCleanupManager opts rep) = Inr cmI"
    and rest: "kubernetesPolicy env opts cmI = Inr cmK" "historyPolicy env opts cmK = Inr cmG" "policiesApplied env opts (stageManager cmG) = (hours, m)"
  have 1: "metaOk (managed (stageManager cmI))" and 2: "stageDescSet (managed (stageManager cmI)) = ds"
    using I by (simp_all add: newManagedStageDescSet_def metaOk_def)
  have 3: "GetStageDescByStageID (managed (stageManager cmI)) (StageID_String (sdStageID d)) = Some d"
    unfolding I using assms(4,5) by (rule newManaged_look)
  have 4: "GetCustomTagsMetadata (storage env) [] = Inr (stageIDCustomTagList (stageManager cmI))"
    using init_customTags [OF init] by (simp add: newCleanupManager_def)
  show "d \<in> protectedSet (managed m)" by (rule policies_protect [OF 1 _ _ assms(6) 3 4 rest]) (use assms(4,5) 2 in simp_all)
qed

section \<open>Instances\<close>

text \<open>A repository with the sample stages, of which the last one is on the keep list.\<close>

definition sampleCleanupEnv :: cleanupEnv where
  "sampleCleanupEnv = \<lparr>storage = sampleEnv\<lparr>GetStageDescSetWithCache := \<lambda>os. Inr sampleStages, GetRejectedStageIDsOf := \<lambda>os. Inr []\<rparr>,
     PlainOpen = Inr sampleRepo, commits = sampleHistory, IsCommitExists = \<lambda>c. Inr (c \<in> {''c1'', ''c2'', ''c3''}),
     kubeQuery = \<lambda>c ns. Inr [], now = 10, refPerm = \<lambda>xs. xs, commitPerm = \<lambda>xs. xs, UniqStrings = remdups,
     AddNewStringsToStringArray = sampleAddNew, ExcludeFromStringArray = \<lambda>xs ys. filter (\<lambda>x. x \<notin> set ys) xs, parallelTasksLimit = 2\<rparr>"

definition sampleOptions :: "bool \<Rightarrow> bool \<Rightarrow> string list \<Rightarrow> CleanupOptions" where
  "sampleOptions disabled dry keep = \<lparr>coImageNameList = [''app''], KubernetesContextClients = [], KubernetesNamespacesByContext = [],
     WithoutKube = True,
     ConfigMetaCleanup = \<lparr>DisableCleanup = disabled, DisableKubernetesBasedPolicy = False, DisableGitHistoryBasedPolicy = False,
       DisableBuiltWithinLastNHoursPolicy = True, KeepImagesBuiltWithinLastNHours = 2, KeepPolicies = []\<rparr>,
     KeepStagesBuiltWithinLastNHours = None, DryRun = dry, KeepList = keep\<rparr>"

theorem dry_run_issues_nothing_witness:
  "ops (cworld (stateOf (Cleanup sampleCleanupEnv (sampleOptions False True []) None))) = []"
  by (rule dry_run_issues_nothing) (simp add: sampleOptions_def)

theorem disabled_cleanup_keeps_images_witness:
  "RmManagedImage ''app'' \<in> set (ops (cworld (stateOf (Cleanup sampleCleanupEnv (sampleOptions True False []) None)))) \<and>
    ((\<exists>i. RmManagedImage ''app'' = RmManagedImage i) \<or> (\<exists>i c st. RmManagedImage ''app'' = RmImageMetadata i c st))"
proof
  show issued: "RmManagedImage ''app'' \<in> set (ops (cworld (stateOf (Cleanup sampleCleanupEnv (sampleOptions True False []) None))))"
    by code_simp
  show "(\<exists>i. RmManagedImage ''app'' = RmManagedImage i) \<or> (\<exists>i c st. RmManagedImage ''app'' = RmImageMetadata i c st)"
    by (rule disabled_cleanup_keeps_images [OF _ issued]) (simp add: sampleOptions_def)
qed

lemma sample_filterOk: "filterOk (storage sampleCleanupEnv)"
  by (simp add: filterOk_def sampleCleanupEnv_def sampleEnv_def)

text \<open>The stage on the keep list survives a run that deletes another stage.\<close>

theorem kept_by_policy_survives_witness:
  "DeleteStage (sampleStages ! 2) \<in> set (ops (cworld (stateOf (Cleanup sampleCleanupEnv (sampleOptions False False [''app2'']) None)))) \<and>
   DeleteStage (sampleStages ! 3) \<notin> set (ops (cworld (stateOf (Cleanup sampleCleanupEnv (sampleOptions False False [''app2'']) None)))) \<and>
    (\<forall>c. DeleteCacheStage c (sampleStages ! 3) \<notin> set (ops (cworld (stateOf (Cleanup sampleCleanupEnv (sampleOptions False False [''app2'']) None)))))"
proof
  show "DeleteStage (sampleStages ! 2) \<in> set (ops (cworld (stateOf (Cleanup sampleCleanupEnv (sampleOptions False False [''app2'']) None))))"
    by code_simp
  have "GetStageDescSetWithCache (storage sampleCleanupEnv) [] = Inr sampleStages" by (simp add: sampleCleanupEnv_def)
  moreover have "distinct (map (\<lambda>d. StageID_String (sdStageID d)) sampleStages)" by code_simp
  moreover have "sampleStages ! 3 \<in> set sampleStages" by code_simp
  moreover have "keptByPolicy sampleCleanupEnv (sampleOptions False False [''app2'']) (sampleStages ! 3)"
    by (simp add: keptByPolicy_def sampleOptions_def sampleStages_def sampleStage_def sampleInfo_def)
  ultimately show "DeleteStage (sampleStages ! 3) \<notin> set (ops (cworld (stateOf (Cleanup sampleCleanupEnv (sampleOptions False False [''app2'']) None)))) \<and>
    (\<forall>c. DeleteCacheStage c (sampleStages ! 3) \<notin> set (ops (cworld (stateOf (Cleanup sampleCleanupEnv (sampleOptions False False [''app2'']) None)))))"
    by (intro kept_by_policy_survives [OF _ sample_filterOk]) (simp_all add: sampleOptions_def)
qed

section \<open>Rejected stages in use\<close>

text \<open>The last of the sample stages runs in a cluster, and it has a rejection marker.\<close>

definition rejectedInUseEnv :: cleanupEnv where
  "rejectedInUseEnv = sampleCleanupEnv\<lparr>
     storage := (storage sampleCleanupEnv)\<lparr>GetRejectedStageIDsOf := \<lambda>os. Inr [sdStageID (sampleStages ! 3)]\<rparr>,
     kubeQuery := \<lambda>c ns. Inr [(''repo:app2'', [''pod/app''])]\<rparr>"

definition inUseOptions :: CleanupOptions where
  "inUseOptions = (sampleOptions False False [])\<lparr>WithoutKube := False, KubernetesContextClients := [''ctx''],
     KubernetesNamespacesByContext := [(''ctx'', [''ns''])]\<rparr>"

text \<open>The rejection of a stage overrides every policy: the image of a rejected stage is deleted although the
  Kubernetes policy has found it in use and has protected it.\<close>

theorem rejected_stage_in_use_is_deleted:
  "(case deployedDockerImages (kubeQuery rejectedInUseEnv) (KubernetesContextClients inUseOptions) (KubernetesNamespacesByContext inUseOptions) of
      Inl e \<Rightarrow> False | Inr deployed \<Rightarrow> isDeployed (Address (storage rejectedInUseEnv)) deployed (sampleStages ! 3)) \<and>
   DeleteRejectedStageImage (sdStageID (sampleStages ! 3)) \<in> set (ops (cworld (stateOf (Cleanup rejectedInUseEnv inUseOptions None))))"
proof
  show "DeleteRejectedStageImage (sdStageID (sampleStages ! 3)) \<in> set (ops (cworld (stateOf (Cleanup rejectedInUseEnv inUseOptions None))))"
    by code_simp
qed code_simp

end
