(* ===== verification/CleanupHistory.thy ===== *)
theory CleanupHistory
  imports CleanupProps
begin

text \<open>
  The git history policy end to end: from the references selected in the repository and the scan of
  their history to the stages that a cleanup deletes. Shows that no stage is deleted as unused whose image
  was built for a commit in the history of a branch that keeps all its images.
\<close>

section \<open>The references that are scanned\<close>

lemma collectReference_depth: "collectReference repo r = Inr (Some ref) \<Longrightarrow> scanDepthLimit ref \<noteq> 0"
  by (cases r) (auto simp: collectReference_def bindR_Inr split: if_splits)

lemma ReferencesToScan_depth:
  assumes "is_perm perm" and "ReferencesToScan repo perm t pols = Inr refs"
  shows "\<forall>ref \<in> set refs. scanDepthLimit ref \<noteq> 0"
proof -
  let ?pols = "if pols = [] then defaultKeepPolicies else pols"
  from assms(2) obtain rs found h ptrs where
    fold: "foldR (\<lambda>refs r. bindR (collectReference repo r) (\<lambda>res.
              Inr (case res of None \<Rightarrow> refs | Some ref \<Rightarrow> refs @ [ref]))) [] rs = Inr found"
    and sel: "selectReferences repo perm t found pols = Inr (h, ptrs)" and refs: "refs = map (\<lambda>r. h ! r) ptrs"
    by (auto simp: ReferencesToScan_def bindR_Inr)
  have found: "\<forall>ref \<in> set found. scanDepthLimit ref \<noteq> 0"
    by (rule foldR_invariant [OF fold])
      (auto simp: bindR_Inr split: option.splits dest: collectReference_depth)
  have ne: "?pols \<noteq> []" by (simp add: defaultKeepPolicies_def)
  have "selectReferences repo perm t found ?pols = Inr (h, ptrs)"
    using sel ne unfolding selectReferences_def Let_def by simp
  from selectReferences_done [OF assms(1) this ne] obtain rt rb where
    d: "policiesDone repo perm t found (branchPtrs repo found) (tagPtrs repo found) ?pols (h, rt, rb)"
    and ptrs: "set ptrs = set rb \<union> set rt"
    using assms(1) by auto
  have "r < length found" if "r \<in> set ptrs" for r
    using that d ptrs by (auto simp: policiesDone_def branchPtrs_def tagPtrs_def)
  with d found show ?thesis
    by (auto simp: refs policiesDone_def same_refs_def)
qed

section \<open>Marking the stages that the history keeps\<close>

lemma handleSaved_protects:
  assumes "handleSavedStageIDs ids m = Inr m'" and "metaOk (managed m)"
    and "i \<in> set ids" and "GetStageDescByStageID (managed m) i = Some d"
  shows "d \<in> protectedSet (managed m')"
  using assms
proof (induction ids arbitrary: m)
  case Nil
  then show ?case by simp
next
  case (Cons x ids)
  from Cons.prems(1) obtain dx where dx: "GetStageDescByStageID (managed m) x = Some dx"
    and rest: "handleSavedStageIDs ids (Manager_MarkStageDescAsProtected m dx ProtectionReasonGitPolicy True) = Inr m'"
    by (auto simp: handleSavedStageIDs_def bindR_Inr MarkStageDescAsProtectedByStageID_def
        Manager_MarkStageDescAsProtected_def split: option.splits)
  let ?m = "Manager_MarkStageDescAsProtected m dx ProtectionReasonGitPolicy True"
  have ok: "metaOk (managed ?m)" using Cons.prems(2) by (rule mgr.ok_mark)
  show ?case
  proof (cases "i = x")
    case True
    then have "d \<in> protectedSet (managed ?m)" using Cons.prems dx by (simp add: mgr.prot_mark)
    then show ?thesis using handleSaved_grows [OF rest] ok by (auto simp: grows_def)
  next
    case False
    have "GetStageDescByStageID (managed ?m) i = Some d" using Cons.prems(4) by (simp add: mgr.look_mark)
    then show ?thesis using Cons.IH [OF rest ok] Cons.prems(3) False by simp
  qed
qed

lemma grows_look: "grows m m' \<Longrightarrow> GetStageDescByStageID (managed m') = GetStageDescByStageID (managed m)"
  by (auto simp: grows_def GetStageDescByStageID_def)

text \<open>What a reference keeps for sure of an image's stages.\<close>

definition keptByReference :: "cleanupEnv \<Rightarrow> ReferenceToScan \<Rightarrow> stageCommits \<Rightarrow> string \<Rightarrow> bool" where
  "keptByReference env ref expected stageID \<longleftrightarrow> scanDepthLimit ref < 0 \<and>
     (\<exists>refExp. refExpected (commits env) (now env) ref expected = Inr refExp \<and>
        keepsAll ref (stagesIn refExp (headHistory (commits env) ref)) \<and>
        stageID \<in> stagesIn refExp (headHistory (commits env) ref))"

definition gitEnvOk :: "cleanupEnv \<Rightarrow> bool" where
  "gitEnvOk env \<longleftrightarrow> is_perm (refPerm env) \<and> is_perm (commitPerm env) \<and> addNew_ok (AddNewStringsToStringArray env)"

lemma stagesIn_count:
  assumes "stageID \<in> stagesIn m C"
  shows "countStageIDCommitList m \<noteq> 0"
proof -
  from assms obtain c vs where "(stageID, vs) \<in> set m" "c \<in> set vs"
    by (auto simp: stagesIn_def elim!: sliceAtE dest!: map_of_SomeD)
  then show ?thesis
    by (auto simp: countStageIDCommitList_def length_pos_if_in_set intro!: bexI [of _ "(stageID, vs)"])
qed

lemma gitHistoryOfImage_protects:
  assumes "gitHistoryOfImage env opts refs cm (img, expected) = Inr cm'" and "gitEnvOk env"
    and "expectedOk (commits env) expected" and "\<forall>ref \<in> set refs. scanDepthLimit ref \<noteq> 0"
    and "ref \<in> set refs" and "keptByReference env ref expected i" and "countStageIDCommitList expected \<noteq> 0"
    and "metaOk (managed (stageManager cm))" and "GetStageDescByStageID (managed (stageManager cm)) i = Some d"
  shows "d \<in> protectedSet (managed (stageManager cm'))"
proof -
  from assms(1,7) obtain reached hits m where
    scan: "ScanReferencesHistory (AddNewStringsToStringArray env) (commits env) (commitPerm env) (now env) refs expected = Inr (reached, hits)"
    and saved: "(if reached \<noteq> [] then handleSavedStageIDs reached (stageManager cm) else Inr (stageManager cm)) = Inr m"
    and man: "stageManager cm' = m"
    by (auto simp: gitHistoryOfImage_def orFail_Inr Let_def split: sum.splits if_splits
        dest!: cleanupImageMetadata_manager)
  from assms(6) obtain refExp where refExp: "scanDepthLimit ref < 0" "refExpected (commits env) (now env) ref expected = Inr refExp"
    "keepsAll ref (stagesIn refExp (headHistory (commits env) ref))" "i \<in> stagesIn refExp (headHistory (commits env) ref)"
    unfolding keptByReference_def by blast
  have "i \<in> set reached"
    using scan_all_inv [OF scan _ assms(3) _ assms(4)] assms(2,5) refExp unfolding gitEnvOk_def scansInv_def by auto
  then show ?thesis using handleSaved_protects [OF _ assms(8) _ assms(9)] saved man by (auto split: if_splits)
qed

lemma history_protects:
  assumes "gitHistoryBasedCleanup env opts cm = Inr cm'" and "gitEnvOk env"
    and "PlainOpen env = Inr repo" and "ReferencesToScan repo (refPerm env) (now env) (KeepPolicies (ConfigMetaCleanup opts)) = Inr refs"
    and "(img, expected) \<in> set (GetImageStageIDCommitListToCleanup (stageManager cm))" and "expectedOk (commits env) expected"
    and "ref \<in> set refs" and "keptByReference env ref expected i"
    and "metaOk (managed (stageManager cm))" and "GetStageDescByStageID (managed (stageManager cm)) i = Some d"
  shows "d \<in> protectedSet (managed (stageManager cm'))"
proof -
  let ?f = "\<lambda>cm img. gitHistoryOfImage env opts refs cm img" and ?imgs = "GetImageStageIDCommitListToCleanup (stageManager cm)"
  from assms(1,3,4) obtain cm1 where fold: "foldR ?f cm ?imgs = Inr cm1"
    and last: "cleanupNonexistentImageMetadata env opts cm1 = Inr cm'"
    by (auto simp: gitHistoryBasedCleanup_def Let_def DoTasks_list orFail_Inr bindR_Inr)
  obtain pre post where imgs: "?imgs = pre @ (img, expected) # post" using assms(5) by (meson split_list)
  from fold obtain cm2 cm3 where pre: "foldR ?f cm pre = Inr cm2" and mid: "?f cm2 (img, expected) = Inr cm3"
    and post: "foldR ?f cm3 post = Inr cm1"
    unfolding imgs foldR_append by (auto simp: bindR_Inr)
  have g: "foldR ?f a xs = Inr b \<Longrightarrow> grows (stageManager a) (stageManager b)" for a b xs
    by (rule foldR_invariant [where P = "\<lambda>s. grows (stageManager a) (stageManager s)"])
      (auto intro: grows_trans dest: gitHistoryOfImage_grows)
  have ok2: "metaOk (managed (stageManager cm2))" and look: "GetStageDescByStageID (managed (stageManager cm2)) i = Some d"
    using g [OF pre] assms(9,10) grows_look [OF g [OF pre]] by (auto simp: grows_def)
  have perm: "is_perm (refPerm env)" using assms(2) by (simp add: gitEnvOk_def)
  from assms(8) have count: "countStageIDCommitList expected \<noteq> 0"
    using refExpected_stages(2) assms(6) stagesIn_count unfolding keptByReference_def expectedOk_def by blast
  have "d \<in> protectedSet (managed (stageManager cm3))"
    by (rule gitHistoryOfImage_protects [OF mid assms(2,6) ReferencesToScan_depth [OF perm assms(4)] assms(7,8) count ok2 look])
  moreover have "metaOk (managed (stageManager cm3))"
    using gitHistoryOfImage_grows [OF mid] ok2 by (simp add: grows_def)
  ultimately show ?thesis
    using g [OF post] nonexistent_manager [OF last] by (auto simp: grows_def)
qed

section \<open>No deletion of what the history keeps\<close>

text \<open>C1: A stage is never deleted as unused, from the repository or from a cache, when its image was built for a commit in
  the history of a scanned branch that keeps all its images of the period. This covers the whole run: the
  selection of the references, the scan of each image's commits, the marking, and the deletion.\<close>

theorem history_survives:
  assumes "\<not> DisableCleanup (ConfigMetaCleanup opts)" and "\<not> DisableGitHistoryBasedPolicy (ConfigMetaCleanup opts)"
    and "filterOk (storage env)" and "gitEnvOk env"
    and "GetStageDescSetWithCache (storage env) [] = Inr ds"
    and "distinct (map (\<lambda>d. StageID_String (sdStageID d)) ds)" and "d \<in> set ds"
    and "init env (newCleanupManager opts rep) = Inr cm"
    and "(img, expected) \<in> set (GetImageStageIDCommitListToCleanup (stageManager cm))" and "expectedOk (commits env) expected"
    and "PlainOpen env = Inr repo"
    and "ReferencesToScan repo (refPerm env) (now env) (KeepPolicies (ConfigMetaCleanup opts)) = Inr refs" and "ref \<in> set refs"
    and "keptByReference env ref expected (StageID_String (sdStageID d))"
  shows "DeleteStage d \<notin> set (ops (cworld (stateOf (Cleanup env opts rep)))) \<and>
    (\<forall>c. DeleteCacheStage c d \<notin> set (ops (cworld (stateOf (Cleanup env opts rep)))))"
proof (rule protected_survives [OF assms(1,3,5)])
  fix cmI cmK cmG hours m
  assume I: "managed (stageManager cmI) = newManagedStageDescSet ds" "init env (newCleanupManager opts rep) = Inr cmI"
    and K: "kubernetesPolicy env opts cmI = Inr cmK" and G: "historyPolicy env opts cmK = Inr cmG"
    and P: "policiesApplied env opts (stageManager cmG) = (hours, m)"
  note gK = kubernetesPolicy_grows [OF K]
  have cm: "cmI = cm" using I(2) assms(8) by simp
  have ok: "metaOk (managed (stageManager cmK))" using gK I(1) by (simp add: grows_def)
  have look: "GetStageDescByStageID (managed (stageManager cmK)) (StageID_String (sdStageID d)) = Some d"
    using grows_look [OF gK] I(1) newManaged_look [OF assms(6,7)] by simp
  have img: "(img, expected) \<in> set (GetImageStageIDCommitListToCleanup (stageManager cmK))"
    using gK assms(9) cm by (simp add: grows_def GetImageStageIDCommitListToCleanup_def)
  have "gitHistoryBasedCleanup env opts cmK = Inr cmG" using G assms(2) by (simp add: historyPolicy_def)
  from history_protects [OF this assms(4,11,12) img assms(10,13,14) ok look]
  have "d \<in> protectedSet (managed (stageManager cmG))" .
  moreover have "metaOk (managed (stageManager cmG))" using historyPolicy_grows [OF G] ok by (simp add: grows_def)
  ultimately show "d \<in> protectedSet (managed m)"
    using policiesApplied_grows [of "stageManager cmG" env opts] P by (auto simp: grows_def)
qed

section \<open>Instance\<close>

text \<open>One branch, \<^verbatim>\<open>origin/main\<close>, with the sample history; the image \<^verbatim>\<open>app\<close> was built for its first commit.\<close>

definition historyEnv :: cleanupEnv where
  "historyEnv = sampleCleanupEnv\<lparr>
     storage := (storage sampleCleanupEnv)\<lparr>GetAllAndGroupImageMetadata := \<lambda>os names. Inr ([(''app'', [(''app1'', [''c1''])])], [])\<rparr>,
     PlainOpen := Inr (sampleRepo\<lparr>grReferences := Inr [(''r/origin/main'', ''c3'')],
       grCommitObject := \<lambda>h. case map_of sampleHistory h of None \<Rightarrow> Inl (GitError h) | Some co \<Rightarrow> Inr co\<rparr>)\<rparr>"

definition historyRef :: ReferenceToScan where
  "historyRef = \<lparr>rtsName = ''r/origin/main'', CreatedAt = 3, HeadCommit = sampleCommit ''c3'' 3 [''c2''],
     scanDepthLimit = -1, imagesCleanupKeepPolicy = newLimit (Some 10) None None\<rparr>"

lemma history_init:
  "\<exists>cm. init historyEnv (newCleanupManager (sampleOptions False False []) None) = Inr cm \<and>
     GetImageStageIDCommitListToCleanup (stageManager cm) = [(''app'', [(''app1'', [''c1''])])]"
proof -
  have "map_sum id (\<lambda>cm. GetImageStageIDCommitListToCleanup (stageManager cm))
      (init historyEnv (newCleanupManager (sampleOptions False False []) None)) = Inr [(''app'', [(''app1'', [''c1''])])]"
    by code_simp
  then show ?thesis by (cases "init historyEnv (newCleanupManager (sampleOptions False False []) None)") auto
qed

lemma history_refs:
  "\<exists>repo. PlainOpen historyEnv = Inr repo \<and>
     ReferencesToScan repo (refPerm historyEnv) (now historyEnv) (KeepPolicies (ConfigMetaCleanup (sampleOptions False False []))) =
       Inr [historyRef]"
proof -
  have "bindR (PlainOpen historyEnv) (\<lambda>repo. ReferencesToScan repo (refPerm historyEnv) (now historyEnv)
      (KeepPolicies (ConfigMetaCleanup (sampleOptions False False [])))) = Inr [historyRef]"
    by code_simp
  then show ?thesis by (simp add: bindR_Inr)
qed

lemma history_kept: "keptByReference historyEnv historyRef [(''app1'', [''c1''])] ''app1''"
proof -
  have hist: "headHistory (commits historyEnv) historyRef = {''c1'', ''c2'', ''c3''}"
    using sampleHistory_ancestors
    by (simp add: headHistory_def historyEnv_def sampleCleanupEnv_def historyRef_def sampleCommit_def)
  have "refExpected (commits historyEnv) (now historyEnv) historyRef [(''app1'', [''c1''])] = Inr [(''app1'', [''c1''])]"
    by (simp add: refExpected_def historyRef_def newLimit_def ImagesPerReference_Last_def)
  moreover have "stagesIn [(''app1'', [''c1''])] {''c1'', ''c2'', ''c3''} = {''app1''}"
    by (auto simp: stagesIn_def split: if_splits)
  moreover have "keepsAll historyRef {''app1''}"
    by (simp add: keepsAll_def historyRef_def newLimit_def ImagesPerReference_Last_def)
  ultimately show ?thesis by (simp add: keptByReference_def hist) (simp add: historyRef_def)
qed

theorem history_survives_witness:
  "DeleteStage (sampleStages ! 3) \<in> set (ops (cworld (stateOf (Cleanup historyEnv (sampleOptions False False []) None)))) \<and>
   DeleteStage (sampleStages ! 2) \<notin> set (ops (cworld (stateOf (Cleanup historyEnv (sampleOptions False False []) None)))) \<and>
    (\<forall>c. DeleteCacheStage c (sampleStages ! 2) \<notin> set (ops (cworld (stateOf (Cleanup historyEnv (sampleOptions False False []) None)))))"
proof
  show "DeleteStage (sampleStages ! 3) \<in> set (ops (cworld (stateOf (Cleanup historyEnv (sampleOptions False False []) None))))"
    by code_simp
  obtain cm repo where cm: "init historyEnv (newCleanupManager (sampleOptions False False []) None) = Inr cm"
      "(''app'', [(''app1'', [''c1''])]) \<in> set (GetImageStageIDCommitListToCleanup (stageManager cm))"
    and repo: "PlainOpen historyEnv = Inr repo" "ReferencesToScan repo (refPerm historyEnv) (now historyEnv)
        (KeepPolicies (ConfigMetaCleanup (sampleOptions False False []))) = Inr [historyRef]"
    using history_init history_refs by auto
  have env: "filterOk (storage historyEnv)" "gitEnvOk historyEnv" "expectedOk (commits historyEnv) [(''app1'', [''c1''])]"
    "GetStageDescSetWithCache (storage historyEnv) [] = Inr sampleStages"
    using sample_filterOk sampleAddNew_ok
    by (simp_all add: filterOk_def gitEnvOk_def expectedOk_def historyEnv_def sampleCleanupEnv_def sampleHistory_def is_goMap_def)
  have opts: "\<not> DisableCleanup (ConfigMetaCleanup (sampleOptions False False []))"
    "\<not> DisableGitHistoryBasedPolicy (ConfigMetaCleanup (sampleOptions False False []))"
    by (simp_all add: sampleOptions_def)
  have ids: "distinct (map (\<lambda>d. StageID_String (sdStageID d)) sampleStages)" "sampleStages ! 2 \<in> set sampleStages"
    "StageID_String (sdStageID (sampleStages ! 2)) = ''app1''" by code_simp+
  show "DeleteStage (sampleStages ! 2) \<notin> set (ops (cworld (stateOf (Cleanup historyEnv (sampleOptions False False []) None)))) \<and>
    (\<forall>c. DeleteCacheStage c (sampleStages ! 2) \<notin> set (ops (cworld (stateOf (Cleanup historyEnv (sampleOptions False False []) None)))))"
    by (rule history_survives [OF opts env(1,2,4) ids(1,2) cm env(3) repo]) (simp, simp only: ids(3), rule history_kept)
qed

end
