(* ===== verification/Purge.thy ===== *)
theory Purge
  imports Deletions
begin

text \<open>
  The purge, \<^verbatim>\<open>pkg/cleaning/purge.go\<close>: it deletes everything of the project, in a fixed order, and takes the
  safeguard marker of a separate meta repository away at the end. The storage is the one of theory \<open>Storage\<close>, with the
  filter of local images of the purge (\<^verbatim>\<open>RmContainersThatUseWerfImages\<close>) as \<open>localFilter\<close>.
\<close>

section \<open>The steps\<close>

record PurgeOptions =
  puDryRun :: bool

definition deleteStages :: "storageEnv \<Rightarrow> PurgeOptions \<Rightarrow> world \<Rightarrow> world result" where
  "deleteStages env m w =
     (case GetStageDescSetWithCache env (ops w) of
        Inl e \<Rightarrow> Inl (ReadFailed e, w)
      | Inr ds \<Rightarrow> deleteStageDescSet env (puDryRun m) ds False w)"

definition purge_deleteCustomTags :: "storageEnv \<Rightarrow> PurgeOptions \<Rightarrow> world \<Rightarrow> world result" where
  "purge_deleteCustomTags env m w =
     (case GetCustomTagsMetadata env (ops w) of
        Inl e \<Rightarrow> Inl (e, w)
      | Inr customTagsByStageID \<Rightarrow> deleteCustomTags env (concat (map snd customTagsByStageID)) (puDryRun m) w)"

definition purgeRejectedStages :: "storageEnv \<Rightarrow> PurgeOptions \<Rightarrow> world \<Rightarrow> world result" where
  "purgeRejectedStages env m w =
     (case GetCustomTagsMetadata env (ops w) of
        Inl e \<Rightarrow> Inl (e, w)
      | Inr customTagsByStageID \<Rightarrow>
          (case deleteRejectedStagesWithLinkedTags env customTagsByStageID (puDryRun m) w of
             Inl (e, (w', _)) \<Rightarrow> Inl (e, w') | Inr (w', _) \<Rightarrow> Inr w'))"

definition deleteFinalStages :: "storageEnv \<Rightarrow> PurgeOptions \<Rightarrow> world \<Rightarrow> world result" where
  "deleteFinalStages env m w =
     (case GetFinalStageDescSetOf env of
        None \<Rightarrow> Inr w
      | Some get \<Rightarrow> (case get (ops w) of
            Inl e \<Rightarrow> Inl (ReadFailed e, w)
          | Inr finalDescSet \<Rightarrow> deleteStageDescSet env (puDryRun m) finalDescSet True w))"

definition purge_deleteOrphanedArtifacts :: "storageEnv \<Rightarrow> PurgeOptions \<Rightarrow> world \<Rightarrow> world result" where
  "purge_deleteOrphanedArtifacts env m w =
     bindR (deleteOrphanedArtifacts env False (puDryRun m) w) (\<lambda>w.
       if GetFinalStageDescSetOf env \<noteq> None then deleteOrphanedArtifacts env True (puDryRun m) w else Inr w)"

definition deleteMetaRepoMarker :: "storageEnv \<Rightarrow> PurgeOptions \<Rightarrow> world \<Rightarrow> world result" where
  "deleteMetaRepoMarker env m w =
     (case GetMetaRepoMarker env of
        None \<Rightarrow> Inr w
      | Some get \<Rightarrow> (case get (ops w) of
            Inl e \<Rightarrow> Inl (ReadFailed (''unable to get meta-repo marker: '' @ e), w)
          | Inr found \<Rightarrow>
              if \<not> found then Inr w
              else if puDryRun m then Inr w
              else (case issue env RmMetaRepoMarker w of
                      (w', None) \<Rightarrow> Inr w'
                    | (w', Some e) \<Rightarrow> Inl (OperationFailed (''unable to remove meta-repo marker: '' @ e), w'))))"

text \<open>All steps of \<^verbatim>\<open>run\<close> but the last one.\<close>

definition purgeDeletions :: "storageEnv \<Rightarrow> PurgeOptions \<Rightarrow> world \<Rightarrow> world result" where
  "purgeDeletions env m w =
     bindR (deleteStages env m w) (\<lambda>w.
     bindR (purgeManagedImages env (puDryRun m) w) (\<lambda>w.
     bindR (purgeImageMetadata env (puDryRun m) w) (\<lambda>w.
     bindR (purge_deleteCustomTags env m w) (\<lambda>w.
     bindR (purgeRejectedStages env m w) (\<lambda>w.
     bindR (deleteFinalStages env m w) (\<lambda>w.
       purge_deleteOrphanedArtifacts env m w))))))"

definition purge_run :: "storageEnv \<Rightarrow> PurgeOptions \<Rightarrow> world \<Rightarrow> world result" where
  "purge_run env m w = bindR (purgeDeletions env m w) (deleteMetaRepoMarker env m)"

definition Purge :: "storageEnv \<Rightarrow> PurgeOptions \<Rightarrow> Report option \<Rightarrow> world result" where
  "Purge env options rep = purge_run env options \<lparr>ops = [], report = rep\<rparr>"

section \<open>The marker goes last\<close>

definition purgeOps :: "PurgeOptions \<Rightarrow> storageOp \<Rightarrow> bool" where
  "purgeOps m op \<longleftrightarrow> \<not> puDryRun m \<and> op \<noteq> RmMetaRepoMarker \<and> op \<noteq> PostLastCleanupRecord"

lemma deleteSet_footprint:
  "extends (\<lambda>op. \<not> dryRun \<and> (\<exists>d c. op = DeleteStage d \<or> op = DeleteCacheStage c d \<or> op = DeleteFinalStage d)) w
     (stateOf (deleteStageDescSet env dryRun ds isFinal w))"
proof (cases "dryRun \<or> filterOk env")
  case True
  then show ?thesis
    by (rule extends_mono [OF deleteStageDescSet_footprint]) (auto simp: stageOps_def split: storageOp.splits)
next
  case False
  let ?P = "\<lambda>op. \<not> dryRun \<and> (\<exists>d c. op = DeleteStage d \<or> op = DeleteCacheStage c d \<or> op = DeleteFinalStage d)"
  show ?thesis
  proof (cases isFinal)
    case True
    let ?env = "env\<lparr>localFilter := None\<rparr>"
    have "deleteStageDescSet env dryRun ds isFinal w = deleteStageDescSet ?env dryRun ds isFinal w"
      using True by (simp add: deleteStageDescSet_def ForEachDeleteFinalStage_def Let_def issue_def)
    moreover have "extends ?P w (stateOf (deleteStageDescSet ?env dryRun ds isFinal w))"
      by (rule extends_mono [OF deleteStageDescSet_footprint]) (auto simp: filterOk_def stageOps_def split: storageOp.splits)
    ultimately show ?thesis by simp
  next
    case stage: False
    have "extends ?P w (stateOf (foldR (\<lambda>w d. case issue env (DeleteStage d)
        (foldl (\<lambda>w c. fst (issue env (DeleteCacheStage c d) w)) w [0..<cacheStorages env]) of
          (w2, err) \<Rightarrow> onDelete (tagItem ItemTypeStage (Tag (sdInfo d))) w2 err) w ds'))" for ds'
      by (rule extends_foldR [where proj = "\<lambda>w. w"], rule extends_trans [OF extends_foldl extends_step])
        (use False in auto)
    then show ?thesis
      using stage False by (auto simp: deleteStageDescSet_def ForEachDeleteStage_loop Let_def split: sum.splits)
  qed
qed

lemma purgeRejectedStages_footprint: "extends (purgeOps m) w (stateOf (purgeRejectedStages env m w))"
proof (cases "GetCustomTagsMetadata env (ops w)")
  case (Inl e)
  then show ?thesis by (simp add: purgeRejectedStages_def)
next
  case (Inr tags)
  have "extends (purgeOps m) w (fst (stateOf (deleteRejectedStagesWithLinkedTags env tags (puDryRun m) w)))"
    by (rule extends_mono [OF deleteRejectedStagesWithLinkedTags_footprint])
      (auto simp: purgeOps_def rejectedOps_def rejectedPlan_def linkedTagsPlan_def)
  with Inr show ?thesis by (auto simp: purgeRejectedStages_def split: sum.splits prod.splits)
qed

lemma purgeOrphaned_footprint: "extends (purgeOps m) w (stateOf (purge_deleteOrphanedArtifacts env m w))"
  using cleanupOrphanedArtifacts_footprint [of "puDryRun m" w env]
  unfolding purge_deleteOrphanedArtifacts_def cleanupOrphanedArtifacts_def
  by (rule extends_mono) (auto simp: purgeOps_def)

lemma purgeDeletions_footprint: "extends (purgeOps m) w (stateOf (purgeDeletions env m w))"
proof -
  have 1: "extends (purgeOps m) w (stateOf (deleteStages env m w))" for w
    by (cases "GetStageDescSetWithCache env (ops w)")
      (auto simp: deleteStages_def purgeOps_def intro!: extends_mono [OF deleteSet_footprint])
  have 2: "extends (purgeOps m) w (stateOf (purgeManagedImages env (puDryRun m) w))" for w
    by (rule extends_mono [OF purgeManagedImages_footprint]) (auto simp: purgeOps_def)
  have 3: "extends (purgeOps m) w (stateOf (purgeImageMetadata env (puDryRun m) w))" for w
    by (rule extends_mono [OF purgeImageMetadata_footprint]) (auto simp: purgeOps_def)
  have 4: "extends (purgeOps m) w (stateOf (purge_deleteCustomTags env m w))" for w
    by (cases "GetCustomTagsMetadata env (ops w)")
      (auto simp: purge_deleteCustomTags_def purgeOps_def customTagOps_def intro!: extends_mono [OF deleteCustomTags_footprint])
  have 6: "extends (purgeOps m) w (stateOf (deleteFinalStages env m w))" for w
    by (auto simp: deleteFinalStages_def purgeOps_def split: option.splits sum.splits intro!: extends_mono [OF deleteSet_footprint])
  show ?thesis
    unfolding purgeDeletions_def by (intro extends_bindR 1 2 3 4 6 purgeRejectedStages_footprint purgeOrphaned_footprint)
qed

text \<open>The safeguard marker of the meta repository is removed last, once, and only after every other step of the purge
  has returned without an error; a dry run removes nothing at all.\<close>

theorem purge_marker_last:
  "(RmMetaRepoMarker \<in> set (ops (stateOf (Purge env m rep))) \<longrightarrow>
     (\<exists>w. purgeDeletions env m \<lparr>ops = [], report = rep\<rparr> = Inr w \<and> RmMetaRepoMarker \<notin> set (ops w) \<and>
        ops (stateOf (Purge env m rep)) = ops w @ [RmMetaRepoMarker])) \<and>
   (puDryRun m \<longrightarrow> ops (stateOf (Purge env m rep)) = [])"
proof -
  let ?w0 = "\<lparr>ops = [], report = rep\<rparr>"
  note foot = purgeDeletions_footprint [of m ?w0 env]
  have no: "RmMetaRepoMarker \<notin> set (ops (stateOf (purgeDeletions env m ?w0)))"
    and dry: "puDryRun m \<Longrightarrow> ops (stateOf (purgeDeletions env m ?w0)) = []"
    using foot by (auto simp: extends_def list_all_iff purgeOps_def)
  have last: "ops (stateOf (deleteMetaRepoMarker env m w)) = ops w \<or>
      ops (stateOf (deleteMetaRepoMarker env m w)) = ops w @ [RmMetaRepoMarker] \<and> \<not> puDryRun m" for w
    by (auto simp: deleteMetaRepoMarker_def issue_def split: option.splits sum.splits)
  show ?thesis
  proof (cases "purgeDeletions env m ?w0")
    case (Inl e)
    then show ?thesis using no dry by (simp add: Purge_def purge_run_def)
  next
    case (Inr w)
    then have "stateOf (Purge env m rep) = stateOf (deleteMetaRepoMarker env m w)" by (simp add: Purge_def purge_run_def)
    then show ?thesis using no dry last [of w] Inr by auto
  qed
qed

section \<open>A purge without failures deletes everything\<close>

lemma foldR_plan:
  assumes "\<And>w x. x \<in> set xs \<Longrightarrow> \<exists>w'. f w x = Inr w' \<and> ops w' = ops w @ plan x"
  shows "\<exists>w'. foldR f w xs = Inr w' \<and> ops w' = ops w @ concat (map plan xs)"
  using assms
proof (induction xs arbitrary: w)
  case Nil
  show ?case by simp
next
  case (Cons x xs)
  from Cons.prems [of x] obtain w1 where "f w x = Inr w1" "ops w1 = ops w @ plan x" by auto
  with Cons.IH [of w1] Cons.prems show ?case by auto
qed

definition stagePlan :: "storageEnv \<Rightarrow> StageDesc \<Rightarrow> storageOp list" where
  "stagePlan env d = map (\<lambda>c. DeleteCacheStage c d) [0..<cacheStorages env] @ [DeleteStage d]"

lemma cache_calls:
  "neverFails env \<Longrightarrow> ops (foldl (\<lambda>w c. fst (issue env (DeleteCacheStage c d) w)) w cs) = ops w @ map (\<lambda>c. DeleteCacheStage c d) cs"
  by (induction cs arbitrary: w) simp_all

lemma onDelete_success: "onDelete it w None = Inr (reportDeleted it w)"
  by (simp add: onDelete_def)

lemma deleteStageDescSet_calls:
  assumes "neverFails env" and "\<forall>flt. localFilter env = Some flt \<longrightarrow> flt ds = Inr ds"
  shows "\<exists>w'. deleteStageDescSet env False ds False w = Inr w' \<and> ops w' = ops w @ concat (map (stagePlan env) ds)"
proof -
  have "\<exists>w'. foldR (\<lambda>w d. case issue env (DeleteStage d)
      (foldl (\<lambda>w c. fst (issue env (DeleteCacheStage c d) w)) w [0..<cacheStorages env]) of
        (w2, err) \<Rightarrow> onDelete (tagItem ItemTypeStage (Tag (sdInfo d))) w2 err) w ds = Inr w' \<and>
      ops w' = ops w @ concat (map (stagePlan env) ds)"
    by (rule foldR_plan)
      (simp add: issue_neverFails [OF assms(1), of "DeleteStage _"] onDelete_success cache_calls [OF assms(1)] stagePlan_def)
  with assms(2) show ?thesis by (cases "localFilter env") (simp_all add: deleteStageDescSet_def ForEachDeleteStage_loop Let_def)
qed

lemma deleteFinal_calls:
  assumes "neverFails env"
  shows "\<exists>w'. deleteStageDescSet env False ds True w = Inr w' \<and> ops w' = ops w @ map DeleteFinalStage ds"
proof -
  let ?f = "\<lambda>w d. case issue env (DeleteFinalStage d) w of (w', err) \<Rightarrow> onDelete (tagItem ItemTypeFinalStage (Tag (sdInfo d))) w' err"
  have "\<exists>w'. foldR ?f w ds = Inr w' \<and> ops w' = ops w @ concat (map (\<lambda>d. [DeleteFinalStage d]) ds)"
    by (rule foldR_plan) (simp add: issue_neverFails [OF assms] onDelete_success)
  then show ?thesis
    by (simp add: deleteStageDescSet_def ForEachDeleteFinalStage_def Let_def DoTasks_list [where f = ?f] concat_map_singleton)
qed

lemma deleteManagedImages_calls:
  assumes "neverFails env"
  shows "\<exists>w'. deleteManagedImages env images False w = Inr w' \<and> ops w' = ops w @ map RmManagedImage images"
proof -
  have "\<exists>w'. foldR (\<lambda>w i. case issue env (RmManagedImage i) w of (w', err) \<Rightarrow> onDelete (managedImageItem i) w' err) w images = Inr w' \<and>
      ops w' = ops w @ concat (map (\<lambda>i. [RmManagedImage i]) images)"
    by (rule foldR_plan) (simp add: issue_neverFails [OF assms] onDelete_success)
  then show ?thesis
    by (simp add: deleteManagedImages_def ForEachRmManagedImage_def Let_def DoTasks_list
        [where f = "\<lambda>w i. case issue env (RmManagedImage i) w of (w', err) \<Rightarrow> onDelete (managedImageItem i) w' err"]
        concat_map_singleton)
qed

definition metadataPlan :: "string \<times> (string, string list) goMap \<Rightarrow> storageOp list" where
  "metadataPlan = (\<lambda>(img, m). concat (map (\<lambda>(stageID, commitList). map (\<lambda>commit. RmImageMetadata img commit stageID) commitList) m))"

lemma deleteImageMetadata_calls:
  assumes "neverFails env"
  shows "\<exists>w'. deleteImageMetadata env img m False isID w = Inr w' \<and> ops w' = ops w @ metadataPlan (img, m)"
proof -
  let ?tasks = "concat (map (\<lambda>(stageID, commitList). map (\<lambda>commit. (commit, stageID)) commitList) m)"
  have "\<exists>w'. foldR (\<lambda>w (commit, stageID). case issue env (RmImageMetadata img commit stageID) w of
      (w', err) \<Rightarrow> onDelete (metadataItem img isID stageID commit) w' err) w ?tasks = Inr w' \<and>
      ops w' = ops w @ concat (map (\<lambda>(commit, stageID). [RmImageMetadata img commit stageID]) ?tasks)"
    by (rule foldR_plan) (auto simp: issue_neverFails [OF assms] onDelete_success)
  moreover have "concat (map (\<lambda>(commit, stageID). [RmImageMetadata img commit stageID]) ?tasks) = metadataPlan (img, m)"
    by (induction m) (auto simp: metadataPlan_def comp_def concat_map_singleton)
  ultimately show ?thesis by (simp add: deleteImageMetadata_def metadata_tasks)
qed

lemma deleteCustomTags_calls:
  assumes "neverFails env"
  shows "\<exists>w'. deleteCustomTags env tags False w = Inr w' \<and> ops w' = ops w @ linkedTagsPlan tags"
  unfolding deleteCustomTags_def customTag_tasks if_False linkedTagsPlan_def
  by (rule foldR_plan) (simp add: issue_neverFails [OF assms] onDelete_success)

lemma deleteRejected_calls:
  assumes "neverFails env" and "GetRejectedStageIDsOf env (ops w) = Inr ids"
  shows "\<exists>w' d. deleteRejectedStagesWithLinkedTags env tags False w = Inr (w', d) \<and> ops w' = ops w @ concat (map (rejectedPlan tags) ids)"
proof -
  have ok: "allSucceed env os p" for os p using assms(1) by (induction p arbitrary: os) (simp_all add: neverFails_def)
  have step: "\<exists>st'. deleteRejectedStage env tags st i = Inr st' \<and> ops (fst st') = ops (fst st) @ rejectedPlan tags i" for st i
  proof -
    obtain w d where st: "st = (w, d)" by fastforce
    have "deleteLinkedTags env ts w \<noteq> Inl a" for ts w a
      using deleteLinkedTags_calls [where env = env and tags = ts and w = w] ok by (cases "deleteLinkedTags env ts w") (auto split: prod.splits)
    then have "\<exists>st'. deleteRejectedStage env tags st i = Inr st'"
      by (auto simp: st deleteRejectedStage_def Let_def issue_neverFails [OF assms(1)] split: sum.splits bool.splits)
    then show ?thesis
      using deleteRejectedStage_calls [of env tags w d i] allSucceed_calls [OF ok] by (auto simp: st)
  qed
  have "\<exists>st'. foldR (deleteRejectedStage env tags) st ids = Inr st' \<and> ops (fst st') = ops (fst st) @ concat (map (rejectedPlan tags) ids)" for st
  proof (induction ids arbitrary: st)
    case (Cons i ids)
    from step [of st i] obtain st1 where "deleteRejectedStage env tags st i = Inr st1" "ops (fst st1) = ops (fst st) @ rejectedPlan tags i" by blast
    with Cons.IH [of st1] show ?case by auto
  qed simp
  from this [of "(w, [])"] assms(2) show ?thesis
    by (auto simp: deleteRejectedStagesWithLinkedTags_def ForEachRejectedStage_def DoTasks_list)
qed

lemma deleteOrphaned_calls:
  assumes "neverFails env" and "GetOrphanedArtifactNames env (ops w) isFinal = Inr names"
  shows "\<exists>w'. deleteOrphanedArtifacts env isFinal False w = Inr w' \<and> ops w' = ops w @ map (DeleteArtifact isFinal) names"
proof -
  have "\<exists>w'. deleteOrphanedArtifacts env isFinal False w = Inr w' \<and> ops w' = ops w @ concat (map (\<lambda>n. [DeleteArtifact isFinal n]) names)"
    unfolding deleteOrphanedArtifacts_def assms(2) sum.case if_False
    by (rule foldR_plan) (simp add: issue_neverFails [OF assms(1)])
  then show ?thesis by (simp add: concat_map_singleton)
qed

text \<open>
  A purge as a sequence of phases. Each phase reads a listing after the calls of the phases before it and issues the calls planned
  for the listing, each as often as planned; the order inside a phase is that of the workers and is left open.
\<close>

definition phase :: "(storageOp list \<Rightarrow> 'e + 'a) \<Rightarrow> ('a \<Rightarrow> storageOp list) \<Rightarrow> storageOp list \<Rightarrow> storageOp list \<Rightarrow> bool" where
  "phase list_of plan before calls \<longleftrightarrow> (\<exists>x. list_of before = Inr x \<and> mset calls = mset (plan x))"

definition phaseIf :: "(storageOp list \<Rightarrow> 'e + 'a) option \<Rightarrow> ('a \<Rightarrow> storageOp list) \<Rightarrow> storageOp list \<Rightarrow> storageOp list \<Rightarrow> bool" where
  "phaseIf list_of plan before calls \<longleftrightarrow> (case list_of of None \<Rightarrow> calls = [] | Some f \<Rightarrow> phase f plan before calls)"

fun phases :: "(storageOp list \<Rightarrow> storageOp list \<Rightarrow> bool) list \<Rightarrow> storageOp list \<Rightarrow> storageOp list \<Rightarrow> bool" where
  "phases [] before all \<longleftrightarrow> all = before"
| "phases (P # Ps) before all \<longleftrightarrow> (\<exists>calls. P before calls \<and> phases Ps (before @ calls) all)"

lemma phases_prefix: "phases Ps before all \<Longrightarrow> prefix before all"
proof (induction Ps before all rule: phases.induct)
  case (2 P Ps before all)
  then show ?case by (auto dest: append_prefixD)
qed simp

definition pairR :: "('e + 'a) \<Rightarrow> ('f + 'b) \<Rightarrow> unit + ('a \<times> 'b)" where
  "pairR x y = (case (x, y) of (Inr a, Inr b) \<Rightarrow> Inr (a, b) | _ \<Rightarrow> Inl ())"

definition purgePhases :: "storageEnv \<Rightarrow> (storageOp list \<Rightarrow> storageOp list \<Rightarrow> bool) list" where
  "purgePhases env =
     [phase (GetStageDescSetWithCache env) (\<lambda>ds. concat (map (stagePlan env) ds)),
      phase (GetManagedImages env) (map RmManagedImage),
      phase (\<lambda>os. GetAllAndGroupImageMetadata env os []) (\<lambda>(known, md). concat (map metadataPlan md)),
      phase (GetCustomTagsMetadata env) (\<lambda>tags. linkedTagsPlan (concat (map snd tags))),
      phase (\<lambda>os. pairR (GetCustomTagsMetadata env os) (GetRejectedStageIDsOf env os)) (\<lambda>(tags, ids). concat (map (rejectedPlan tags) ids)),
      phaseIf (GetFinalStageDescSetOf env) (map DeleteFinalStage),
      phase (\<lambda>os. GetOrphanedArtifactNames env os False) (map (DeleteArtifact False)),
      phaseIf (map_option (\<lambda>_ os. GetOrphanedArtifactNames env os True) (GetFinalStageDescSetOf env)) (map (DeleteArtifact True)),
      phaseIf (GetMetaRepoMarker env) (\<lambda>found. if found then [RmMetaRepoMarker] else [])]"

text \<open>No reading fails; what is read may change from one moment to the next.\<close>

definition readsSucceed :: "storageEnv \<Rightarrow> bool" where
  "readsSucceed env \<longleftrightarrow> (\<forall>os. \<not> isl (GetStageDescSetWithCache env os) \<and> \<not> isl (GetManagedImages env os) \<and>
     \<not> isl (GetAllAndGroupImageMetadata env os []) \<and> \<not> isl (GetCustomTagsMetadata env os) \<and> \<not> isl (GetRejectedStageIDsOf env os) \<and>
     (\<forall>isFinal. \<not> isl (GetOrphanedArtifactNames env os isFinal)) \<and>
     (\<forall>get. GetFinalStageDescSetOf env = Some get \<longrightarrow> \<not> isl (get os)) \<and>
     (\<forall>get. GetMetaRepoMarker env = Some get \<longrightarrow> \<not> isl (get os)))"

text \<open>A step of the purge that makes the calls of its phase.\<close>

definition doesPhase :: "(storageOp list \<Rightarrow> storageOp list \<Rightarrow> bool) \<Rightarrow> (world \<Rightarrow> world result) \<Rightarrow> bool" where
  "doesPhase P f \<longleftrightarrow> (\<forall>w. \<exists>w' calls. f w = Inr w' \<and> ops w' = ops w @ calls \<and> P (ops w) calls)"

lemma phases_bind:
  assumes "doesPhase P f" and "\<And>w. \<exists>w'. g w = Inr w' \<and> phases Ps (ops w) (ops w')"
  shows "\<exists>w'. bindR (f w) g = Inr w' \<and> phases (P # Ps) (ops w) (ops w')"
proof -
  from assms(1) obtain w1 calls where w1: "f w = Inr w1" "ops w1 = ops w @ calls" "P (ops w) calls" unfolding doesPhase_def by blast
  from assms(2) [of w1] obtain w2 where "g w1 = Inr w2" "phases Ps (ops w1) (ops w2)" by blast
  with w1 show ?thesis by auto
qed

lemma not_isl_Inr: "\<not> isl r \<Longrightarrow> \<exists>x. r = Inr x"
  by (metis sum.collapse(2))

lemma bindR_assoc: "bindR (bindR r f) g = bindR r (\<lambda>x. bindR (f x) g)"
  by (cases r) auto

lemma doesPhaseI:
  fixes f :: "world \<Rightarrow> world result"
  assumes "\<And>os. \<not> isl (list_of os)"
    and "\<And>w x. list_of (ops w) = Inr x \<Longrightarrow> \<exists>w'. f w = Inr w' \<and> ops w' = ops w @ plan x"
  shows "doesPhase (phase list_of plan) f"
  unfolding doesPhase_def phase_def
proof
  fix w :: world
  from assms(1) [of "ops w"] obtain x where x: "list_of (ops w) = Inr x" by (auto dest: not_isl_Inr)
  with assms(2) [OF x] show "\<exists>w' calls. f w = Inr w' \<and> ops w' = ops w @ calls \<and> (\<exists>x. list_of (ops w) = Inr x \<and> mset calls = mset (plan x))"
    by metis
qed

lemma doesPhaseIfI:
  assumes "list_of = None \<Longrightarrow> f = Inr" and "\<And>get. list_of = Some get \<Longrightarrow> doesPhase (phase get plan) f"
  shows "doesPhase (phaseIf list_of plan) f"
proof (cases list_of)
  case None
  then show ?thesis using assms(1) by (simp add: doesPhase_def phaseIf_def)
next
  case (Some get)
  then show ?thesis using assms(2) by (simp add: doesPhase_def phaseIf_def)
qed

lemma managed_phase:
  assumes "neverFails env" and "readsSucceed env"
  shows "doesPhase (phase (GetManagedImages env) (map RmManagedImage)) (purgeManagedImages env False)"
  by (rule doesPhaseI) (use assms(2) deleteManagedImages_calls [OF assms(1)] in \<open>auto simp: readsSucceed_def purgeManagedImages_def\<close>)

lemma metadata_phase:
  assumes "neverFails env" and "readsSucceed env"
  shows "doesPhase (phase (\<lambda>os. GetAllAndGroupImageMetadata env os []) (\<lambda>(known, md). concat (map metadataPlan md))) (purgeImageMetadata env False)"
proof (rule doesPhaseI)
  have md: "\<exists>w'. foldR (\<lambda>w (imageNameID, stageIDCommitList). deleteImageMetadata env imageNameID stageIDCommitList False True w) w md = Inr w' \<and>
      ops w' = ops w @ concat (map metadataPlan md)" for w md
    using deleteImageMetadata_calls [OF assms(1)] by (intro foldR_plan) (auto split: prod.splits)
  show "\<exists>w'. purgeImageMetadata env False w = Inr w' \<and> ops w' = ops w @ (case x of (known, md) \<Rightarrow> concat (map metadataPlan md))"
    if "GetAllAndGroupImageMetadata env (ops w) [] = Inr x" for w x
    using that md by (cases x) (simp add: purgeImageMetadata_def)
qed (use assms(2) in \<open>simp add: readsSucceed_def\<close>)

lemma custom_tags_phase:
  assumes "neverFails env" and "readsSucceed env" and "\<not> puDryRun m"
  shows "doesPhase (phase (GetCustomTagsMetadata env) (\<lambda>tags. linkedTagsPlan (concat (map snd tags)))) (purge_deleteCustomTags env m)"
  by (rule doesPhaseI)
    (use assms(2,3) deleteCustomTags_calls [OF assms(1)] in \<open>auto simp: readsSucceed_def purge_deleteCustomTags_def\<close>)

lemma rejected_phase:
  assumes "neverFails env" and "readsSucceed env" and "\<not> puDryRun m"
  shows "doesPhase (phase (\<lambda>os. pairR (GetCustomTagsMetadata env os) (GetRejectedStageIDsOf env os)) (\<lambda>(tags, ids). concat (map (rejectedPlan tags) ids)))
    (purgeRejectedStages env m)"
proof (rule doesPhaseI)
  show "\<not> isl (pairR (GetCustomTagsMetadata env os) (GetRejectedStageIDsOf env os))" for os
  proof -
    have "\<not> isl (GetCustomTagsMetadata env os)" "\<not> isl (GetRejectedStageIDsOf env os)" using assms(2) by (simp_all add: readsSucceed_def)
    then show ?thesis by (auto simp: pairR_def dest!: not_isl_Inr)
  qed
  show "\<exists>w'. purgeRejectedStages env m w = Inr w' \<and> ops w' = ops w @ (case x of (tags, ids) \<Rightarrow> concat (map (rejectedPlan tags) ids))"
    if "pairR (GetCustomTagsMetadata env (ops w)) (GetRejectedStageIDsOf env (ops w)) = Inr x" for w x
  proof -
    from that obtain tags ids where r: "GetCustomTagsMetadata env (ops w) = Inr tags" "GetRejectedStageIDsOf env (ops w) = Inr ids" "x = (tags, ids)"
      by (auto simp: pairR_def split: sum.splits)
    then show ?thesis using deleteRejected_calls [OF assms(1) r(2), of tags] assms(3) by (auto simp: purgeRejectedStages_def)
  qed
qed

lemma final_phase:
  assumes "neverFails env" and "readsSucceed env" and "\<not> puDryRun m"
  shows "doesPhase (phaseIf (GetFinalStageDescSetOf env) (map DeleteFinalStage)) (deleteFinalStages env m)"
proof (rule doesPhaseIfI)
  show "doesPhase (phase get (map DeleteFinalStage)) (deleteFinalStages env m)" if "GetFinalStageDescSetOf env = Some get" for get
    by (rule doesPhaseI)
      (use that assms(2,3) deleteFinal_calls [OF assms(1)] in \<open>auto simp: readsSucceed_def deleteFinalStages_def\<close>)
qed (simp add: deleteFinalStages_def fun_eq_iff)

lemma orphaned_phase:
  assumes "neverFails env" and "readsSucceed env"
  shows "doesPhase (phase (\<lambda>os. GetOrphanedArtifactNames env os isFinal) (map (DeleteArtifact isFinal))) (deleteOrphanedArtifacts env isFinal False)"
  by (rule doesPhaseI) (use assms deleteOrphaned_calls [OF assms(1)] in \<open>auto simp: readsSucceed_def\<close>)

lemma final_orphaned_phase:
  assumes "neverFails env" and "readsSucceed env"
  shows "doesPhase (phaseIf (map_option (\<lambda>_ os. GetOrphanedArtifactNames env os True) (GetFinalStageDescSetOf env)) (map (DeleteArtifact True)))
    (\<lambda>w. if GetFinalStageDescSetOf env \<noteq> None then deleteOrphanedArtifacts env True False w else Inr w)"
  by (rule doesPhaseIfI) (use orphaned_phase [OF assms, of True] in auto)

lemma marker_phase:
  assumes "neverFails env" and "readsSucceed env" and "\<not> puDryRun m"
  shows "doesPhase (phaseIf (GetMetaRepoMarker env) (\<lambda>found. if found then [RmMetaRepoMarker] else [])) (deleteMetaRepoMarker env m)"
proof (rule doesPhaseIfI)
  show "doesPhase (phase get (\<lambda>found. if found then [RmMetaRepoMarker] else [])) (deleteMetaRepoMarker env m)"
    if "GetMetaRepoMarker env = Some get" for get
    by (rule doesPhaseI)
      (use that assms(2,3) in \<open>auto simp: readsSucceed_def deleteMetaRepoMarker_def issue_neverFails [OF assms(1)]\<close>)
qed (simp add: deleteMetaRepoMarker_def fun_eq_iff)

text \<open>C38: A purge that is not a dry run, in which no reading and no deletion fails and whose filter of local stages, if there is one,
  lets all the stages pass, returns without an error and makes, phase after phase, exactly these calls: each listed stage is deleted
  from every cache repository and from the repository, then the managed images, all the image metadata, the custom tags with their
  registrations, the rejected stages with their linked tags and markers, the final stages, the orphaned artifacts, and at the end the
  marker of the meta repository. Each listing is what the storage answers after the calls of the phases before; inside a phase the
  order is left open.\<close>

theorem purge_deletes_everything:
  assumes "neverFails env" and "readsSucceed env" and "\<not> puDryRun m"
    and "\<forall>flt ds. localFilter env = Some flt \<longrightarrow> GetStageDescSetWithCache env [] = Inr ds \<longrightarrow> flt ds = Inr ds"
  shows "\<exists>w. Purge env m rep = Inr w \<and> phases (purgePhases env) [] (ops w)"
proof -
  let ?w0 = "\<lparr>ops = [], report = rep\<rparr>"
  note P = managed_phase [OF assms(1,2)] metadata_phase [OF assms(1,2)] custom_tags_phase [OF assms(1-3)] rejected_phase [OF assms(1-3)]
    final_phase [OF assms(1-3)] orphaned_phase [OF assms(1,2), of False] final_orphaned_phase [OF assms(1,2)] marker_phase [OF assms(1-3)]
  have dry: "puDryRun m = False" using assms(3) by simp
  obtain ds where ds: "GetStageDescSetWithCache env [] = Inr ds"
    using assms(2) [unfolded readsSucceed_def, THEN spec, of "[]"] by (cases "GetStageDescSetWithCache env []") auto
  obtain w1 where w1: "deleteStages env m ?w0 = Inr w1" "ops w1 = concat (map (stagePlan env) ds)"
    using deleteStageDescSet_calls [OF assms(1), of ds ?w0] assms(3,4) ds by (auto simp: deleteStages_def)
  have last: "\<exists>w'. deleteMetaRepoMarker env m w = Inr w' \<and> phases [phaseIf (GetMetaRepoMarker env) (\<lambda>found. if found then [RmMetaRepoMarker] else [])] (ops w) (ops w')" for w
    using P(8) by (fastforce simp: doesPhase_def)
  have "\<exists>w'. bindR (purgeManagedImages env False w1) (\<lambda>w. bindR (purgeImageMetadata env False w) (\<lambda>w. bindR (purge_deleteCustomTags env m w) (\<lambda>w.
      bindR (purgeRejectedStages env m w) (\<lambda>w. bindR (deleteFinalStages env m w) (\<lambda>w. bindR (deleteOrphanedArtifacts env False False w) (\<lambda>w.
      bindR (if GetFinalStageDescSetOf env \<noteq> None then deleteOrphanedArtifacts env True False w else Inr w)
        (\<lambda>w. deleteMetaRepoMarker env m w))))))) = Inr w' \<and> phases (tl (purgePhases env)) (ops w1) (ops w')"
    unfolding purgePhases_def list.sel by (intro phases_bind P(1-6) P(7) last)
  then obtain w' where w': "purge_run env m ?w0 = Inr w'" "phases (tl (purgePhases env)) (ops w1) (ops w')"
    using w1(1) unfolding purge_run_def purgeDeletions_def purge_deleteOrphanedArtifacts_def dry by (auto simp: bindR_assoc)
  have "phase (GetStageDescSetWithCache env) (\<lambda>ds. concat (map (stagePlan env) ds)) [] ([] @ ops w1)"
    using ds w1(2) by (simp add: phase_def)
  moreover have "purgePhases env = phase (GetStageDescSetWithCache env) (\<lambda>ds. concat (map (stagePlan env) ds)) # tl (purgePhases env)"
    by (simp add: purgePhases_def)
  ultimately have "phases (purgePhases env) [] (ops w')" using w'(2) phases.simps(2) by (metis append_Nil)
  then show ?thesis using w'(1) by (simp add: Purge_def)
qed

section \<open>Instances\<close>

definition samplePurgeEnv :: "(storageOp \<Rightarrow> string option) \<Rightarrow> storageEnv" where
  "samplePurgeEnv answer = sampleEnv\<lparr>outcome := \<lambda>os op. answer op, GetStageDescSetWithCache := \<lambda>os. Inr [],
     GetAllAndGroupImageMetadata := \<lambda>os names. Inr ([], [(''id'', [(''stage'', [''commit''])])]),
     GetStageCustomTagMetadataIDs := \<lambda>os. Inr [''t''], GetStageCustomTagMetadata := \<lambda>os i. CustomTag ''stage'' ''v1'',
     GetMetaRepoMarker := Some (\<lambda>os. Inr True)\<rparr>"

definition samplePurge :: PurgeOptions where
  "samplePurge = \<lparr>puDryRun = False\<rparr>"

lemma samplePurge_result:
  "ops (stateOf (Purge (samplePurgeEnv (\<lambda>op. None)) samplePurge None)) =
     [RmManagedImage ''app'', RmImageMetadata ''id'' ''commit'' ''stage'', DeleteStageCustomTag ''v1'', UnregisterStageCustomTag ''v1'',
      DeleteRejectedStageImage (NewStageID ''abc'' 5), DeleteRejectedStageRecord (NewStageID ''abc'' 5), RmMetaRepoMarker]"
  by code_simp

theorem purge_marker_last_witness:
  "\<exists>w. purgeDeletions (samplePurgeEnv (\<lambda>op. None)) samplePurge \<lparr>ops = [], report = None\<rparr> = Inr w \<and> RmMetaRepoMarker \<notin> set (ops w) \<and>
     ops (stateOf (Purge (samplePurgeEnv (\<lambda>op. None)) samplePurge None)) = ops w @ [RmMetaRepoMarker]"
proof -
  have "RmMetaRepoMarker \<in> set (ops (stateOf (Purge (samplePurgeEnv (\<lambda>op. None)) samplePurge None)))"
    unfolding samplePurge_result by simp
  then show ?thesis using purge_marker_last by blast
qed

text \<open>A repository with one stage, which is kept in one cache repository as well.\<close>

definition purgedStage :: StageDesc where
  "purgedStage = \<lparr>sdRef = 0, sdStageID = NewStageID ''abc'' 5, sdInfo = Info [] [] ''abc-5'' [] [] [] [] [] 0 0 [] False []\<rparr>"

theorem purge_deletes_everything_witness:
  "\<exists>w. Purge ((samplePurgeEnv (\<lambda>op. None))\<lparr>GetStageDescSetWithCache := \<lambda>os. Inr [purgedStage]\<rparr>) samplePurge None = Inr w \<and>
     {DeleteCacheStage 0 purgedStage, DeleteStage purgedStage, RmManagedImage ''app''} \<subseteq> set (ops w)"
proof -
  let ?env = "(samplePurgeEnv (\<lambda>op. None))\<lparr>GetStageDescSetWithCache := \<lambda>os. Inr [purgedStage]\<rparr>"
  have "GetCustomTagsMetadata ?env os = Inr [(''stage'', [''v1''])]" for os
    unfolding GetCustomTagsMetadata_def ForEachGetStageCustomTagMetadata_def
    by (simp add: DoTasks_eq samplePurgeEnv_def sampleEnv_def appendAt_def)
  then have "readsSucceed ?env" "neverFails ?env" "localFilter ?env = None" "\<not> puDryRun samplePurge"
    by (simp_all add: readsSucceed_def neverFails_def samplePurgeEnv_def sampleEnv_def samplePurge_def)
  then obtain w where w: "Purge ?env samplePurge None = Inr w" "phases (purgePhases ?env) [] (ops w)"
    using purge_deletes_everything [of ?env samplePurge None] by auto
  then obtain c1 c2 where c: "phase (GetStageDescSetWithCache ?env) (\<lambda>ds. concat (map (stagePlan ?env) ds)) [] c1"
    "phase (GetManagedImages ?env) (map RmManagedImage) c1 c2" and ph: "phases (tl (tl (purgePhases ?env))) (c1 @ c2) (ops w)"
    unfolding purgePhases_def list.sel phases.simps append_Nil append_assoc by blast
  have c1: "mset c1 = mset [DeleteCacheStage 0 purgedStage, DeleteStage purgedStage]" and c2: "mset c2 = mset [RmManagedImage ''app'']"
    using c by (simp_all add: phase_def samplePurgeEnv_def sampleEnv_def stagePlan_def)
  have "set (c1 @ c2) \<subseteq> set (ops w)" using phases_prefix [OF ph] by (rule set_mono_prefix)
  moreover have "set c1 = {DeleteCacheStage 0 purgedStage, DeleteStage purgedStage}" "set c2 = {RmManagedImage ''app''}"
    using mset_eq_setD [OF c1] mset_eq_setD [OF c2] by auto
  ultimately show ?thesis using w(1) by auto
qed

text \<open>A failure to delete metadata that is only logged does not stop the purge: the metadata call fails, the purge goes on,
  removes the marker and returns without an error. The marker is gone although metadata is left.\<close>

theorem purge_marker_despite_failure:
  "outcome (samplePurgeEnv (\<lambda>op. if op = RmImageMetadata ''id'' ''commit'' ''stage'' then Some ''timeout'' else None)) []
     (RmImageMetadata ''id'' ''commit'' ''stage'') \<noteq> None \<and>
   map_sum id ops (Purge (samplePurgeEnv (\<lambda>op. if op = RmImageMetadata ''id'' ''commit'' ''stage'' then Some ''timeout'' else None)) samplePurge None) =
     Inr [RmManagedImage ''app'', RmImageMetadata ''id'' ''commit'' ''stage'', DeleteStageCustomTag ''v1'', UnregisterStageCustomTag ''v1'',
      DeleteRejectedStageImage (NewStageID ''abc'' 5), DeleteRejectedStageRecord (NewStageID ''abc'' 5), RmMetaRepoMarker]"
  by code_simp

end
