(* ===== verification/Graph.thy ===== *)
theory Graph
  imports GoStrings
begin

text \<open>
  The dependency graph of the images to build, \<^verbatim>\<open>pkg/build/image/graph.go\<close>: resolving the names of
  dependencies, the topological sort by depth-first search, and the levels of the build plan. An image is a
  pointer in the source (\<^verbatim>\<open>*Image\<close> is the key of the maps); its identity is the field \<open>imgRef\<close>. The
  recursion of \<^verbatim>\<open>visit\<close> runs on fuel; \<open>length images + 1\<close> is enough, since each nested call turns one more
  image gray.
\<close>

section \<open>The graph\<close>

record BuildImage =
  imgRef :: nat
  imgName :: string
  TargetPlatform :: string
  dependencyNames :: "string list"

definition AddDependencyName :: "BuildImage \<Rightarrow> string \<Rightarrow> BuildImage" where
  "AddDependencyName i name = i\<lparr>dependencyNames := snocNew (dependencyNames i) name\<rparr>"

record ImagesGraph =
  nodes :: "BuildImage list"
  deps :: "(BuildImage, BuildImage list) goMap"
  dependents :: "(BuildImage, BuildImage list) goMap"

datatype graphError =
    NameConflict string string
  | NotBuiltForPlatform string string string "string list"
  | DependencyCycle string
  | OutOfFuel

definition imageGraphKey :: "string \<Rightarrow> string \<Rightarrow> string" where
  "imageGraphKey name targetPlatform = targetPlatform @ [char_of (0::nat)] @ name"

text \<open>The two indexes over the images.\<close>

definition indexImage ::
  "(string, BuildImage) goMap \<times> (string, string list) goMap \<Rightarrow> BuildImage \<Rightarrow>
     graphError + ((string, BuildImage) goMap \<times> (string, string list) goMap)" where
  "indexImage idx img =
     (case idx of (byNameAndPlatform, platformsByName) \<Rightarrow>
        let key = imageGraphKey (imgName img) (TargetPlatform img)
        in if map_of byNameAndPlatform key \<noteq> None then Inl (NameConflict (imgName img) (TargetPlatform img))
           else Inr (AList.update key img byNameAndPlatform,
                     appendAt platformsByName (imgName img) [TargetPlatform img]))"

type_synonym edges = "(BuildImage, BuildImage list) goMap \<times> (BuildImage, BuildImage list) goMap"

definition addDependency ::
  "(string, BuildImage) goMap \<times> (string, string list) goMap \<Rightarrow> BuildImage \<Rightarrow> edges \<Rightarrow> string \<Rightarrow> graphError + edges" where
  "addDependency idx img es depName =
     (case idx of (byNameAndPlatform, platformsByName) \<Rightarrow> case es of (ds, dts) \<Rightarrow>
        (case map_of byNameAndPlatform (imageGraphKey depName (TargetPlatform img)) of
           None \<Rightarrow> (case map_of platformsByName depName of
                Some platforms \<Rightarrow> Inl (NotBuiltForPlatform (imgName img) (TargetPlatform img) depName (sort platforms))
              | None \<Rightarrow> Inr es)
         | Some depImg \<Rightarrow>
             if depImg = img then Inr es else Inr (appendAt ds img [depImg], appendAt dts depImg [img])))"

section \<open>The topological sort\<close>

datatype color = White | Gray | Black

definition colorOf :: "(BuildImage, color) goMap \<Rightarrow> BuildImage \<Rightarrow> color" where
  "colorOf c img = (case map_of c img of None \<Rightarrow> White | Some k \<Rightarrow> k)"

type_synonym dfsState = "(BuildImage, color) goMap \<times> BuildImage list"

fun visit :: "nat \<Rightarrow> (BuildImage, BuildImage list) goMap \<Rightarrow> dfsState \<Rightarrow> BuildImage \<Rightarrow> graphError + dfsState" where
  "visit 0 ds st img = Inl OutOfFuel"
| "visit (Suc fuel) ds st img =
     (case colorOf (fst st) img of
        Black \<Rightarrow> Inr st
      | Gray \<Rightarrow> Inl (DependencyCycle (imgName img))
      | White \<Rightarrow>
          bindR (foldR (visit fuel ds) (AList.update img Gray (fst st), snd st) (sliceAt ds img)) (\<lambda>(c, result).
            Inr (AList.update img Black c, result @ [img])))"

definition topologicalSort ::
  "BuildImage list \<Rightarrow> (BuildImage, BuildImage list) goMap \<Rightarrow> graphError + BuildImage list" where
  "topologicalSort images ds =
     bindR (foldR (visit (length images + 1) ds) ([], []) images) (\<lambda>(c, result). Inr result)"

definition BuildImagesGraph :: "BuildImage list \<Rightarrow> graphError + ImagesGraph" where
  "BuildImagesGraph images =
     (let dedupedImages = foldl snocNew [] images
      in bindR (foldR indexImage ([], []) dedupedImages) (\<lambda>idx.
         bindR (foldR (\<lambda>es img. foldR (addDependency idx img) es (dependencyNames img)) ([], []) dedupedImages) (\<lambda>(ds, dts).
         bindR (topologicalSort dedupedImages ds) (\<lambda>ns.
           Inr \<lparr>nodes = ns, deps = ds, dependents = dts\<rparr>))))"

definition Dependencies :: "ImagesGraph \<Rightarrow> BuildImage \<Rightarrow> BuildImage list" where
  "Dependencies g img = sliceAt (deps g) img"

definition Dependents :: "ImagesGraph \<Rightarrow> BuildImage \<Rightarrow> BuildImage list" where
  "Dependents g img = sliceAt (dependents g) img"

section \<open>Levels\<close>

definition levelAt :: "(BuildImage, nat) goMap \<Rightarrow> BuildImage \<Rightarrow> nat" where
  "levelAt level img = (case map_of level img of None \<Rightarrow> 0 | Some l \<Rightarrow> l)"

definition assignLevel :: "ImagesGraph \<Rightarrow> (BuildImage, nat) goMap \<Rightarrow> BuildImage \<Rightarrow> (BuildImage, nat) goMap" where
  "assignLevel g level img =
     AList.update img (foldl (\<lambda>l dep. if levelAt level dep + 1 > l then levelAt level dep + 1 else l) 0 (sliceAt (deps g) img)) level"

definition Levels :: "ImagesGraph \<Rightarrow> BuildImage list list" where
  "Levels g =
     (let level = foldl (assignLevel g) [] (nodes g);
          maxLevel = foldl max 0 (map (levelAt level) (nodes g))
      in foldl (\<lambda>levels img. levels[levelAt level img := levels ! levelAt level img @ [img]])
           (replicate (maxLevel + 1) []) (nodes g))"

section \<open>Orders in which dependencies come first\<close>

definition depsFirst :: "(BuildImage \<Rightarrow> BuildImage list) \<Rightarrow> BuildImage list \<Rightarrow> bool" where
  "depsFirst dep ns \<longleftrightarrow> (\<forall>xs x ys. ns = xs @ x # ys \<longrightarrow> set (dep x) \<subseteq> set xs)"

lemma depsFirst_Nil [simp]: "depsFirst dep []"
  by (simp add: depsFirst_def)

lemma depsFirst_snoc: "depsFirst dep (ns @ [x]) \<longleftrightarrow> depsFirst dep ns \<and> set (dep x) \<subseteq> set ns"
proof
  assume d: "depsFirst dep (ns @ [x])"
  have "set (dep y) \<subseteq> set xs" if "ns = xs @ y # ys" for xs y ys
    using d that unfolding depsFirst_def by (metis append.assoc append_Cons)
  with d show "depsFirst dep ns \<and> set (dep x) \<subseteq> set ns"
    unfolding depsFirst_def by blast
next
  assume d: "depsFirst dep ns \<and> set (dep x) \<subseteq> set ns"
  show "depsFirst dep (ns @ [x])"
    unfolding depsFirst_def
  proof (intro allI impI)
    fix xs y ys assume eq: "ns @ [x] = xs @ y # ys"
    show "set (dep y) \<subseteq> set xs"
    proof (cases ys rule: rev_cases)
      case Nil
      with eq d show ?thesis by simp
    next
      case (snoc zs z)
      with eq have "ns = xs @ y # zs" by simp
      with d show ?thesis unfolding depsFirst_def by blast
    qed
  qed
qed

definition edge :: "(BuildImage, BuildImage list) goMap \<Rightarrow> (BuildImage \<times> BuildImage) set" where
  "edge ds = {(x, y). y \<in> set (sliceAt ds x)}"

text \<open>Such an order exists only for graphs without cycles.\<close>

lemma depsFirst_acyclic:
  assumes "depsFirst (sliceAt ds) ns" and "distinct ns" and "x \<in> set ns"
  shows "(x, x) \<notin> (edge ds)\<^sup>+"
proof
  assume cyc: "(x, x) \<in> (edge ds)\<^sup>+"
  have before: "y \<in> set xs" if "ns = xs @ x # ys" "(x, y) \<in> (edge ds)\<^sup>+" for xs ys y
    using that(2)
  proof (induction rule: trancl_induct)
    case (base y)
    then show ?case using assms(1) that(1) by (auto simp: depsFirst_def edge_def)
  next
    case (step y z)
    then obtain us vs where "xs = us @ y # vs" by (meson split_list)
    then have "ns = us @ y # (vs @ x # ys)" using that(1) by simp
    then have "set (sliceAt ds y) \<subseteq> set us" using assms(1) unfolding depsFirst_def by blast
    with step \<open>xs = us @ y # vs\<close> show ?case by (auto simp: edge_def)
  qed
  obtain xs ys where ns: "ns = xs @ x # ys" using assms(3) by (meson split_list)
  from before [OF ns cyc] ns assms(2) show False by simp
qed

section \<open>The search\<close>

definition withColor :: "color \<Rightarrow> dfsState \<Rightarrow> BuildImage set" where
  "withColor k st = {x. colorOf (fst st) x = k}"

definition dfsInv :: "BuildImage set \<Rightarrow> (BuildImage, BuildImage list) goMap \<Rightarrow> dfsState \<Rightarrow> bool" where
  "dfsInv V ds st \<longleftrightarrow> set (snd st) = withColor Black st \<and> distinct (snd st) \<and> depsFirst (sliceAt ds) (snd st) \<and>
     withColor Gray st \<subseteq> V \<and> withColor Black st \<subseteq> V"

lemma colorOf_update [simp]: "colorOf (AList.update img k c) x = (if x = img then k else colorOf c x)"
  by (simp add: colorOf_def)

text \<open>What a call of \<^verbatim>\<open>visit\<close> leaves behind: the image is black, the gray images are the same.\<close>

definition visited :: "BuildImage set \<Rightarrow> (BuildImage, BuildImage list) goMap \<Rightarrow> dfsState \<Rightarrow> BuildImage set \<Rightarrow> dfsState \<Rightarrow> bool" where
  "visited V ds st xs st' \<longleftrightarrow> dfsInv V ds st' \<and> withColor Gray st' = withColor Gray st \<and>
     withColor Black st \<subseteq> withColor Black st' \<and> xs \<subseteq> withColor Black st'"

definition onCycle :: "BuildImage set \<Rightarrow> (BuildImage, BuildImage list) goMap \<Rightarrow> graphError \<Rightarrow> bool" where
  "onCycle V ds e \<longleftrightarrow> (\<exists>x \<in> V. e = DependencyCycle (imgName x) \<and> (x, x) \<in> (edge ds)\<^sup>+)"

definition visitOk :: "BuildImage set \<Rightarrow> (BuildImage, BuildImage list) goMap \<Rightarrow> dfsState \<Rightarrow> BuildImage set \<Rightarrow> graphError + dfsState \<Rightarrow> bool" where
  "visitOk V ds st xs r \<longleftrightarrow> (case r of Inl e \<Rightarrow> onCycle V ds e | Inr st' \<Rightarrow> visited V ds st xs st')"

definition whites :: "BuildImage set \<Rightarrow> dfsState \<Rightarrow> BuildImage set" where
  "whites V st = V \<inter> withColor White st"

lemma white_iff: "x \<in> withColor White st \<longleftrightarrow> x \<notin> withColor Gray st \<and> x \<notin> withColor Black st"
  by (cases "colorOf (fst st) x") (auto simp: withColor_def)

lemma visited_trans: "visited V ds st xs st' \<Longrightarrow> visited V ds st' ys st'' \<Longrightarrow> visited V ds st (xs \<union> ys) st''"
  by (auto simp: visited_def)

lemma visited_whites: "visited V ds st xs st' \<Longrightarrow> whites V st' \<subseteq> whites V st"
  by (auto simp: visited_def whites_def white_iff)

text \<open>The loops over images: over the dependencies of an image, and over all images.\<close>

lemma visit_loop:
  assumes "\<And>st x. x \<in> set xs \<Longrightarrow> dfsInv V ds st \<Longrightarrow> withColor Gray st = G \<Longrightarrow> card (whites V st) < fuel \<Longrightarrow>
      visitOk V ds st {x} (visit fuel ds st x)"
    and "finite V" and "dfsInv V ds st" and "withColor Gray st = G" and "card (whites V st) < fuel"
  shows "visitOk V ds st (set xs) (foldR (visit fuel ds) st xs)"
  using assms(1,3-5)
proof (induction xs arbitrary: st)
  case Nil
  then show ?case by (simp add: visitOk_def visited_def)
next
  case (Cons x xs)
  have one: "visitOk V ds st {x} (visit fuel ds st x)" using Cons.prems by simp
  show ?case
  proof (cases "visit fuel ds st x")
    case (Inl e)
    with one show ?thesis by (simp add: visitOk_def)
  next
    case (Inr st1)
    with one have v: "visited V ds st {x} st1" by (simp add: visitOk_def)
    have "card (whites V st1) \<le> card (whites V st)"
      by (rule card_mono) (use assms(2) visited_whites [OF v] in \<open>auto simp: whites_def\<close>)
    then have "visitOk V ds st1 (set xs) (foldR (visit fuel ds) st1 xs)"
      using Cons.IH [of st1] Cons.prems v by (simp add: visited_def)
    then show ?thesis
      using Inr visited_trans [OF v] by (cases "foldR (visit fuel ds) st1 xs") (auto simp: visitOk_def)
  qed
qed

lemma visit_spec:
  assumes "finite V" and closed: "\<And>x. x \<in> V \<Longrightarrow> set (sliceAt ds x) \<subseteq> V"
  shows "img \<in> V \<Longrightarrow> dfsInv V ds st \<Longrightarrow> \<forall>y \<in> withColor Gray st. (y, img) \<in> (edge ds)\<^sup>+ \<Longrightarrow>
    card (whites V st) < fuel \<Longrightarrow> visitOk V ds st {img} (visit fuel ds st img)"
proof (induction fuel arbitrary: st img)
  case 0
  then show ?case by simp
next
  case (Suc fuel)
  show ?case
  proof (cases "colorOf (fst st) img")
    case Gray
    then have "(img, img) \<in> (edge ds)\<^sup>+" using Suc.prems(3) by (simp add: withColor_def)
    with Gray Suc.prems(1) show ?thesis by (auto simp: visitOk_def onCycle_def)
  next
    case Black
    with Suc.prems show ?thesis by (simp add: visitOk_def visited_def) (simp add: withColor_def)
  next
    case White
    let ?st = "(AList.update img Gray (fst st), snd st)"
    have cols: "withColor Gray ?st = insert img (withColor Gray st)" "withColor Black ?st = withColor Black st"
      using White by (auto simp: withColor_def)
    have inv: "dfsInv V ds ?st" using Suc.prems(1,2) cols by (auto simp: dfsInv_def)
    have "whites V ?st \<subset> whites V st" using White Suc.prems(1) by (auto simp: whites_def withColor_def)
    then have "card (whites V ?st) < card (whites V st)"
      by (intro psubset_card_mono) (use assms(1) in \<open>auto simp: whites_def\<close>)
    then have few: "card (whites V ?st) < fuel" using Suc.prems(4) by simp
    have reach: "(y, d) \<in> (edge ds)\<^sup>+" if "d \<in> set (sliceAt ds img)" "y \<in> insert img (withColor Gray st)" for y d
      using that Suc.prems(3) by (auto simp: edge_def intro: trancl_into_trancl)
    have loop: "visitOk V ds ?st (set (sliceAt ds img)) (foldR (visit fuel ds) ?st (sliceAt ds img))"
      using visit_loop [OF _ assms(1) inv cols(1) few] Suc.IH closed [OF Suc.prems(1)] reach by (simp add: subset_iff)
    show ?thesis
    proof (cases "foldR (visit fuel ds) ?st (sliceAt ds img)")
      case (Inl e)
      with loop White show ?thesis by (simp add: visitOk_def)
    next
      case (Inr st1)
      with loop have v: "visited V ds ?st (set (sliceAt ds img)) st1" by (simp add: visitOk_def)
      let ?st2 = "(AList.update img Black (fst st1), snd st1 @ [img])"
      have gray: "img \<in> withColor Gray st1" using v cols by (simp add: visited_def)
      have cols2: "withColor Black ?st2 = insert img (withColor Black st1)" "withColor Gray ?st2 = withColor Gray st1 - {img}"
        by (auto simp: withColor_def)
      have "img \<notin> withColor Black st1" using gray by (simp add: withColor_def)
      then have "dfsInv V ds ?st2"
        using v Suc.prems(1) cols2 by (auto simp: visited_def dfsInv_def depsFirst_snoc)
      moreover have "withColor Gray ?st2 = withColor Gray st"
        using v cols cols2 White by (auto simp: visited_def withColor_def)
      ultimately have "visited V ds st {img} ?st2" using v cols cols2 by (auto simp: visited_def)
      then show ?thesis using White Inr by (simp add: visitOk_def case_prod_beta)
    qed
  qed
qed

lemma topologicalSort_spec:
  assumes "\<And>x. x \<in> set images \<Longrightarrow> set (sliceAt ds x) \<subseteq> set images"
  shows "case topologicalSort images ds of
      Inl e \<Rightarrow> onCycle (set images) ds e
    | Inr ns \<Rightarrow> set ns = set images \<and> distinct ns \<and> depsFirst (sliceAt ds) ns"
proof -
  let ?V = "set images" and ?st = "([], [])"
  have start: "dfsInv ?V ds ?st" "withColor Gray ?st = {}" "withColor Black ?st = {}"
    by (auto simp: dfsInv_def withColor_def colorOf_def)
  have "card (whites ?V ?st) \<le> card ?V" by (intro card_mono) (auto simp: whites_def)
  then have fuel: "card (whites ?V ?st) < length images + 1" using card_length [of images] by simp
  have each: "visitOk ?V ds st {x} (visit (length images + 1) ds st x)"
    if "x \<in> ?V" "dfsInv ?V ds st" "withColor Gray st = {}" "card (whites ?V st) < length images + 1" for st x
    by (rule visit_spec) (use that assms in simp_all)
  have "visitOk ?V ds ?st ?V (foldR (visit (length images + 1) ds) ?st images)"
    by (rule visit_loop [OF each _ start(1,2) fuel]) simp_all
  then show ?thesis
    by (auto simp: topologicalSort_def visitOk_def visited_def dfsInv_def split: sum.splits)
qed

section \<open>The indexes and the edges\<close>

abbreviation keyOf :: "BuildImage \<Rightarrow> string" where
  "keyOf i \<equiv> imageGraphKey (imgName i) (TargetPlatform i)"

text \<open>The byte that separates platform and name in a key does not occur in a platform.\<close>

definition platformOk :: "BuildImage \<Rightarrow> bool" where
  "platformOk i \<longleftrightarrow> char_of (0::nat) \<notin> set (TargetPlatform i)"

lemma append_sep_inj: "c \<notin> set xs \<Longrightarrow> c \<notin> set xs' \<Longrightarrow> xs @ c # ys = xs' @ c # ys' \<Longrightarrow> xs = xs' \<and> ys = ys'"
proof (induction xs arbitrary: xs')
  case Nil
  then show ?case by (cases xs') auto
next
  case (Cons x xs)
  then show ?case by (cases xs') auto
qed

lemma imageGraphKey_eq:
  "platformOk i \<Longrightarrow> platformOk j \<Longrightarrow>
   keyOf i = imageGraphKey n (TargetPlatform j) \<longleftrightarrow> imgName i = n \<and> TargetPlatform i = TargetPlatform j"
  using append_sep_inj [of "char_of (0::nat)" "TargetPlatform i" "TargetPlatform j" "imgName i" n]
  by (auto simp: imageGraphKey_def platformOk_def)

definition indexed :: "BuildImage list \<Rightarrow> (string, BuildImage) goMap \<times> (string, string list) goMap \<Rightarrow> bool" where
  "indexed imgs idx \<longleftrightarrow> (\<forall>k i. map_of (fst idx) k = Some i \<longleftrightarrow> i \<in> set imgs \<and> keyOf i = k) \<and>
     keys (snd idx) = imgName ` set imgs"

lemma indexImage_step:
  assumes "indexed imgs idx" and "img \<notin> set imgs"
  shows "case indexImage idx img of
      Inl e \<Rightarrow> e = NameConflict (imgName img) (TargetPlatform img) \<and> (\<exists>i \<in> set imgs. keyOf i = keyOf img)
    | Inr idx' \<Rightarrow> indexed (imgs @ [img]) idx'"
proof (cases "map_of (fst idx) (keyOf img)")
  case None
  then have "\<forall>i \<in> set imgs. keyOf i \<noteq> keyOf img" using assms(1) unfolding indexed_def by (metis option.distinct(1))
  with None assms(1) show ?thesis
    by (auto simp: indexImage_def Let_def indexed_def case_prod_beta)
next
  case (Some i)
  then show ?thesis using assms(1) by (auto simp: indexImage_def Let_def indexed_def case_prod_beta)
qed

lemma indexImages_spec:
  "distinct (imgs @ rest) \<Longrightarrow> indexed imgs idx \<Longrightarrow>
   (case foldR indexImage idx rest of
      Inl e \<Rightarrow> \<exists>i \<in> set (imgs @ rest). \<exists>j \<in> set (imgs @ rest). i \<noteq> j \<and> keyOf i = keyOf j \<and> e = NameConflict (imgName i) (TargetPlatform i)
    | Inr idx' \<Rightarrow> indexed (imgs @ rest) idx')"
proof (induction rest arbitrary: imgs idx)
  case Nil
  then show ?case by simp
next
  case (Cons x rest)
  have step: "case indexImage idx x of
      Inl e \<Rightarrow> e = NameConflict (imgName x) (TargetPlatform x) \<and> (\<exists>i \<in> set imgs. keyOf i = keyOf x)
    | Inr idx' \<Rightarrow> indexed (imgs @ [x]) idx'"
    using Cons.prems by (intro indexImage_step) auto
  show ?case
  proof (cases "indexImage idx x")
    case (Inl e)
    then obtain i where "i \<in> set imgs" "keyOf x = keyOf i" "e = NameConflict (imgName x) (TargetPlatform x)" using step by auto
    moreover have "x \<noteq> i" using \<open>i \<in> set imgs\<close> Cons.prems(1) by auto
    ultimately have "\<exists>i \<in> set (imgs @ x # rest). \<exists>j \<in> set (imgs @ x # rest). i \<noteq> j \<and> keyOf i = keyOf j \<and> e = NameConflict (imgName i) (TargetPlatform i)"
      by (intro bexI [of _ x] bexI [of _ i]) auto
    with Inl show ?thesis by simp
  next
    case (Inr idx')
    with step Cons.prems(1) have "case foldR indexImage idx' rest of
        Inl e \<Rightarrow> \<exists>i \<in> set ((imgs @ [x]) @ rest). \<exists>j \<in> set ((imgs @ [x]) @ rest). i \<noteq> j \<and> keyOf i = keyOf j \<and>
          e = NameConflict (imgName i) (TargetPlatform i)
      | Inr idx' \<Rightarrow> indexed ((imgs @ [x]) @ rest) idx'" by (intro Cons.IH) simp_all
    with Inr show ?thesis by (cases "foldR indexImage idx' rest") simp_all
  qed
qed

text \<open>What a dependency name resolves to.\<close>

definition resolve :: "(string, BuildImage) goMap \<Rightarrow> BuildImage \<Rightarrow> string \<Rightarrow> BuildImage option" where
  "resolve by img n = (case map_of by (imageGraphKey n (TargetPlatform img)) of
     None \<Rightarrow> None | Some d \<Rightarrow> if d = img then None else Some d)"

definition dual :: "edges \<Rightarrow> bool" where
  "dual es \<longleftrightarrow> (\<forall>x y. count_list (sliceAt (snd es) x) y = count_list (sliceAt (fst es) y) x)"

lemma addDependency_step:
  "case addDependency idx img es n of
     Inl e \<Rightarrow> map_of (fst idx) (imageGraphKey n (TargetPlatform img)) = None \<and>
       (\<exists>ps. map_of (snd idx) n = Some ps \<and> e = NotBuiltForPlatform (imgName img) (TargetPlatform img) n (sort ps))
   | Inr es' \<Rightarrow> (dual es \<longrightarrow> dual es') \<and>
       (\<forall>x. sliceAt (fst es') x = sliceAt (fst es) x @ (if x = img then (case resolve (fst idx) img n of None \<Rightarrow> [] | Some d \<Rightarrow> [d]) else []))"
  by (cases idx; cases es)
    (auto simp: addDependency_def resolve_def dual_def split: option.splits)

lemma addDependencies_spec:
  "case foldR (addDependency idx img) es ns of
     Inl e \<Rightarrow> \<exists>n \<in> set ns. map_of (fst idx) (imageGraphKey n (TargetPlatform img)) = None \<and>
       (\<exists>ps. map_of (snd idx) n = Some ps \<and> e = NotBuiltForPlatform (imgName img) (TargetPlatform img) n (sort ps))
   | Inr es' \<Rightarrow> (dual es \<longrightarrow> dual es') \<and>
       (\<forall>x. sliceAt (fst es') x = sliceAt (fst es) x @ (if x = img then List.map_filter (resolve (fst idx) img) ns else []))"
proof (induction ns arbitrary: es)
  case Nil
  show ?case by simp
next
  case (Cons n ns)
  show ?case
  proof (cases "addDependency idx img es n")
    case (Inl e)
    then show ?thesis using addDependency_step [where idx = idx and img = img and es = es and n = n] by simp
  next
    case (Inr es1)
    then show ?thesis
      using addDependency_step [where idx = idx and img = img and es = es and n = n] Cons.IH [of es1]
      by (auto simp: List.map_filter_simps split: sum.splits option.splits)
  qed
qed

lemma allDependencies_spec:
  "distinct imgs \<Longrightarrow>
   (case foldR (\<lambda>es img. foldR (addDependency idx img) es (dependencyNames img)) es imgs of
     Inl e \<Rightarrow> \<exists>img \<in> set imgs. \<exists>n \<in> set (dependencyNames img). map_of (fst idx) (imageGraphKey n (TargetPlatform img)) = None \<and>
       (\<exists>ps. map_of (snd idx) n = Some ps \<and> e = NotBuiltForPlatform (imgName img) (TargetPlatform img) n (sort ps))
   | Inr es' \<Rightarrow> (dual es \<longrightarrow> dual es') \<and> (\<forall>x. sliceAt (fst es') x = sliceAt (fst es) x @
        (if x \<in> set imgs then List.map_filter (resolve (fst idx) x) (dependencyNames x) else [])))"
proof (induction imgs arbitrary: es)
  case Nil
  show ?case by simp
next
  case (Cons img imgs)
  show ?case
  proof (cases "foldR (addDependency idx img) es (dependencyNames img)")
    case (Inl e)
    then show ?thesis using addDependencies_spec [where idx = idx and img = img and es = es and ns = "dependencyNames img"] by simp
  next
    case (Inr es1)
    then show ?thesis
      using addDependencies_spec [where idx = idx and img = img and es = es and ns = "dependencyNames img"] Cons.IH [of es1] Cons.prems
      by (auto split: sum.splits)
  qed
qed

section \<open>The graph that is built\<close>

definition dependsOn :: "BuildImage set \<Rightarrow> (BuildImage \<times> BuildImage) set" where
  "dependsOn V = {(x, d). x \<in> V \<and> d \<in> V \<and> imgName d \<in> set (dependencyNames x) \<and> TargetPlatform d = TargetPlatform x \<and> d \<noteq> x}"

lemma set_map_filter_iff: "d \<in> set (List.map_filter f ns) \<longleftrightarrow> (\<exists>n \<in> set ns. f n = Some d)"
  by (induction ns) (auto simp: List.map_filter_simps split: option.splits)

lemma resolved_set:
  assumes "indexed imgs idx" and "\<forall>i \<in> set imgs. platformOk i" and "x \<in> set imgs"
  shows "set (List.map_filter (resolve (fst idx) x) (dependencyNames x)) = {d. (x, d) \<in> dependsOn (set imgs)}"
proof -
  have "resolve (fst idx) x n = Some d \<longleftrightarrow> d \<in> set imgs \<and> imgName d = n \<and> TargetPlatform d = TargetPlatform x \<and> d \<noteq> x" for n d
  proof -
    have look: "map_of (fst idx) (imageGraphKey n (TargetPlatform x)) = Some d \<longleftrightarrow>
        d \<in> set imgs \<and> imgName d = n \<and> TargetPlatform d = TargetPlatform x"
      using assms imageGraphKey_eq [of d x n] by (auto simp: indexed_def)
    show ?thesis
      by (cases "map_of (fst idx) (imageGraphKey n (TargetPlatform x)) = Some d")
        (use look in \<open>auto simp: resolve_def split: option.splits\<close>)
  qed
  then have mem: "d \<in> set (List.map_filter (resolve (fst idx) x) ns) \<longleftrightarrow>
      imgName d \<in> set ns \<and> d \<in> set imgs \<and> TargetPlatform d = TargetPlatform x \<and> d \<noteq> x" for d ns
    by (auto simp: set_map_filter_iff)
  show ?thesis using assms(3) by (auto simp: mem dependsOn_def)
qed

definition graphOk :: "ImagesGraph \<Rightarrow> bool" where
  "graphOk g \<longleftrightarrow> distinct (nodes g) \<and> depsFirst (Dependencies g) (nodes g) \<and>
     (\<forall>x y. count_list (Dependents g x) y = count_list (Dependencies g y) x) \<and>
     (\<forall>x. x \<notin> set (nodes g) \<longrightarrow> Dependencies g x = [])"

lemma depsFirst_inside:
  assumes "depsFirst dep ns" and "x \<in> set ns"
  shows "set (dep x) \<subseteq> set ns"
proof -
  obtain xs ys where "ns = xs @ x # ys" using assms(2) by (meson split_list)
  then show ?thesis using assms(1) by (auto simp: depsFirst_def)
qed

lemma depsFirst_cong: "(\<And>x. dep x = dep' x) \<Longrightarrow> depsFirst dep ns = depsFirst dep' ns"
  by (simp add: depsFirst_def)

lemma edge_mono: "edge ds \<subseteq> dependsOn V \<Longrightarrow> onCycle V ds e \<Longrightarrow> \<exists>x \<in> V. e = DependencyCycle (imgName x) \<and> (x, x) \<in> (dependsOn V)\<^sup>+"
  by (auto simp: onCycle_def dest: trancl_mono)

text \<open>The outcome of \<^verbatim>\<open>BuildImagesGraph\<close>, with and without an error.\<close>

lemma BuildImagesGraph_spec:
  assumes "\<forall>i \<in> set images. platformOk i"
  shows "case BuildImagesGraph images of
      Inr g \<Rightarrow> set (nodes g) = set images \<and> graphOk g \<and> (\<forall>x \<in> set images. set (Dependencies g x) = {d. (x, d) \<in> dependsOn (set images)})
    | Inl (NameConflict n p) \<Rightarrow> \<exists>i \<in> set images. \<exists>j \<in> set images. i \<noteq> j \<and> imgName i = n \<and> imgName j = n \<and> TargetPlatform i = p \<and> TargetPlatform j = p
    | Inl (NotBuiltForPlatform i p n ps) \<Rightarrow> \<exists>x \<in> set images. imgName x = i \<and> TargetPlatform x = p \<and> n \<in> set (dependencyNames x) \<and>
        n \<in> imgName ` set images \<and> \<not> (\<exists>d \<in> set images. imgName d = n \<and> TargetPlatform d = p)
    | Inl (DependencyCycle n) \<Rightarrow> \<exists>x \<in> set images. imgName x = n \<and> (x, x) \<in> (dependsOn (set images))\<^sup>+
    | Inl OutOfFuel \<Rightarrow> False"
proof -
  let ?imgs = "foldl snocNew [] images"
  have imgs: "set ?imgs = set images" "distinct ?imgs" by simp_all
  have index: "case foldR indexImage ([], []) ?imgs of
      Inl e \<Rightarrow> \<exists>i \<in> set ?imgs. \<exists>j \<in> set ?imgs. i \<noteq> j \<and> keyOf i = keyOf j \<and> e = NameConflict (imgName i) (TargetPlatform i)
    | Inr idx \<Rightarrow> indexed ?imgs idx"
    using indexImages_spec [of "[]" ?imgs "([], [])", unfolded append_Nil] imgs(2) by (simp add: indexed_def)
  show ?thesis
  proof (cases "foldR indexImage ([], []) ?imgs")
    case (Inl e)
    with index obtain i j where ij: "i \<in> set images" "j \<in> set images" "i \<noteq> j" "keyOf i = keyOf j" "e = NameConflict (imgName i) (TargetPlatform i)"
      using imgs(1) by auto
    moreover have "imgName j = imgName i \<and> TargetPlatform j = TargetPlatform i"
      using ij imageGraphKey_eq [of j i "imgName i"] assms by auto
    ultimately show ?thesis using Inl by (auto simp: BuildImagesGraph_def Let_def)
  next
    case (Inr idx)
    with index have idx: "indexed ?imgs idx" by simp
    note edges = allDependencies_spec [OF imgs(2), of idx "([], [])"]
    show ?thesis
    proof (cases "foldR (\<lambda>es img. foldR (addDependency idx img) es (dependencyNames img)) ([], []) ?imgs")
      case Err: (Inl e)
      with edges obtain x n ps where x: "x \<in> set images" "n \<in> set (dependencyNames x)"
        "map_of (fst idx) (imageGraphKey n (TargetPlatform x)) = None" "map_of (snd idx) n = Some ps"
        "e = NotBuiltForPlatform (imgName x) (TargetPlatform x) n (sort ps)" using imgs(1) by auto
      have "\<not> (\<exists>d \<in> set images. imgName d = n \<and> TargetPlatform d = TargetPlatform x)"
        using x(1,3) idx imgs(1) imageGraphKey_eq [of _ x n] assms unfolding indexed_def by (metis option.distinct(1))
      moreover have "n \<in> imgName ` set images"
        using x(4) idx imgs(1) unfolding indexed_def by (metis keys_iff option.distinct(1))
      ultimately show ?thesis using Inr Err x(1,2,5) by (auto simp: BuildImagesGraph_def Let_def)
    next
      case E: (Inr es)
      obtain ds dts where es: "es = (ds, dts)" by fastforce
      have ds: "sliceAt ds x = (if x \<in> set images then List.map_filter (resolve (fst idx) x) (dependencyNames x) else [])" for x
        using edges E es imgs(1) by simp
      have dl: "dual (ds, dts)" using edges E es by (simp add: dual_def)
      have dset: "set (sliceAt ds x) = {d. (x, d) \<in> dependsOn (set images)}" for x
        using resolved_set [OF idx] assms imgs(1) by (cases "x \<in> set images") (auto simp: ds dependsOn_def)
      have sub: "edge ds \<subseteq> dependsOn (set images)" by (auto simp: edge_def dset)
      have topo: "case topologicalSort ?imgs ds of
          Inl e \<Rightarrow> onCycle (set ?imgs) ds e | Inr ns \<Rightarrow> set ns = set ?imgs \<and> distinct ns \<and> depsFirst (sliceAt ds) ns"
        by (rule topologicalSort_spec) (auto simp: dset dependsOn_def)
      show ?thesis
      proof (cases "topologicalSort ?imgs ds")
        case T: (Inl e)
        with topo obtain x where "x \<in> set images" "e = DependencyCycle (imgName x)" "(x, x) \<in> (dependsOn (set images))\<^sup>+"
          using edge_mono [OF sub] imgs(1) by auto
        then show ?thesis using Inr E es T by (auto simp: BuildImagesGraph_def Let_def)
      next
        case T: (Inr ns)
        let ?g = "\<lparr>nodes = ns, deps = ds, dependents = dts\<rparr>"
        have g: "BuildImagesGraph images = Inr ?g" using Inr E es T by (simp add: BuildImagesGraph_def Let_def)
        have dep: "Dependencies ?g = sliceAt ds" "Dependents ?g = sliceAt dts"
          by (rule ext, simp add: Dependencies_def Dependents_def)+
        have "x \<notin> set images \<Longrightarrow> sliceAt ds x = []" for x by (simp add: ds)
        then have "graphOk ?g"
          unfolding graphOk_def dep using topo T dl imgs(1) by (simp add: dual_def)
        then show ?thesis using g topo T imgs(1) dset by (simp add: Dependencies_def)
      qed
    qed
  qed
qed

text \<open>The checks that a graph without error has passed.\<close>

lemma graph_checked:
  assumes "BuildImagesGraph images = Inr g" and "\<forall>i \<in> set images. platformOk i"
  shows "i \<in> set images \<Longrightarrow> j \<in> set images \<Longrightarrow> imgName i = imgName j \<Longrightarrow> TargetPlatform i = TargetPlatform j \<Longrightarrow> i = j"
    and "x \<in> set images \<Longrightarrow> n \<in> set (dependencyNames x) \<Longrightarrow> n \<in> imgName ` set images \<Longrightarrow>
      \<exists>d \<in> set images. imgName d = n \<and> TargetPlatform d = TargetPlatform x"
proof -
  let ?imgs = "foldl snocNew [] images"
  have imgs: "set ?imgs = set images" by simp
  from assms(1) obtain idx es where idx: "foldR indexImage ([], []) ?imgs = Inr idx"
    and es: "foldR (\<lambda>es img. foldR (addDependency idx img) es (dependencyNames img)) ([], []) ?imgs = Inr es"
    unfolding BuildImagesGraph_def Let_def bindR_Inr by auto
  have ok: "indexed ?imgs idx"
    using indexImages_spec [of "[]" ?imgs "([], [])", unfolded append_Nil] idx by (simp add: indexed_def)
  show "i \<in> set images \<Longrightarrow> j \<in> set images \<Longrightarrow> imgName i = imgName j \<Longrightarrow> TargetPlatform i = TargetPlatform j \<Longrightarrow> i = j"
    using ok imgs unfolding indexed_def by (metis option.inject)
  assume x: "x \<in> set images" and n: "n \<in> set (dependencyNames x)" "n \<in> imgName ` set images"
  obtain e1 e2 where "foldR (addDependency idx x) e1 (dependencyNames x) = Inr e2" using foldR_member [OF es, of x] x imgs by auto
  then obtain e3 e4 where add: "addDependency idx x e3 n = Inr e4" using foldR_member n(1) by metis
  have "map_of (snd idx) n \<noteq> None" using ok n(2) imgs unfolding indexed_def by (metis keys_iff)
  then obtain d where "map_of (fst idx) (imageGraphKey n (TargetPlatform x)) = Some d"
    using add by (cases idx; cases e3) (auto simp: addDependency_def split: option.splits)
  then have "d \<in> set images" "keyOf d = imageGraphKey n (TargetPlatform x)" using ok imgs unfolding indexed_def by auto
  then show "\<exists>d \<in> set images. imgName d = n \<and> TargetPlatform d = TargetPlatform x"
    using imageGraphKey_eq [of d x n] assms(2) x by auto
qed

section \<open>What the scheduler relies on\<close>

text \<open>
  The interface of the graph for its clients: the nodes are in an order in which dependencies come first,
  and the two directions of the edges agree, multiplicities included.
\<close>

locale build_order =
  fixes nodes_of :: "'g \<Rightarrow> 'i list"
    and deps_of :: "'g \<Rightarrow> 'i \<Rightarrow> 'i list"
    and dependents_of :: "'g \<Rightarrow> 'i \<Rightarrow> 'i list"
    and ok :: "'g \<Rightarrow> bool"
  assumes distinct_nodes: "ok g \<Longrightarrow> distinct (nodes_of g)"
    and deps_first: "ok g \<Longrightarrow> nodes_of g = xs @ x # ys \<Longrightarrow> set (deps_of g x) \<subseteq> set xs"
    and edges_dual: "ok g \<Longrightarrow> count_list (dependents_of g x) y = count_list (deps_of g y) x"
    and deps_of_nodes: "ok g \<Longrightarrow> x \<notin> set (nodes_of g) \<Longrightarrow> deps_of g x = []"
begin

lemma dependents_iff:
  assumes "ok g"
  shows "y \<in> set (dependents_of g x) \<longleftrightarrow> x \<in> set (deps_of g y)"
  by (metis assms edges_dual count_list_0_iff)

lemma deps_inside:
  assumes "ok g"
  shows "set (deps_of g x) \<subseteq> set (nodes_of g)"
proof (cases "x \<in> set (nodes_of g)")
  case True
  then obtain xs ys where "nodes_of g = xs @ x # ys" by (meson split_list)
  then show ?thesis using deps_first [OF assms] by fastforce
next
  case False
  then show ?thesis using deps_of_nodes [OF assms] by simp
qed

lemma dependents_inside: "ok g \<Longrightarrow> set (dependents_of g x) \<subseteq> set (nodes_of g)"
  using deps_of_nodes dependents_iff by (metis empty_iff empty_set subsetI)

lemma not_own_dependency:
  assumes "ok g"
  shows "x \<notin> set (deps_of g x)"
proof
  assume x: "x \<in> set (deps_of g x)"
  then obtain xs ys where n: "nodes_of g = xs @ x # ys" using deps_inside [OF assms] by (meson split_list subsetD)
  then show False using deps_first [OF assms n] distinct_nodes [OF assms] x by auto
qed

text \<open>As long as some node is left, one of the nodes left has no dependency left.\<close>

lemma some_node_is_free:
  assumes "ok g" and "x \<in> set (nodes_of g)" and "x \<notin> S"
  shows "\<exists>y \<in> set (nodes_of g) - S. set (deps_of g y) \<subseteq> S"
proof -
  from assms(2,3) obtain xs y ys where n: "nodes_of g = xs @ y # ys" and "y \<notin> S" and "\<forall>z \<in> set xs. z \<in> S"
    using split_list_first_prop [of "nodes_of g" "\<lambda>z. z \<notin> S"] by blast
  then show ?thesis using deps_first [OF assms(1) n] by auto
qed

end

interpretation ig: build_order nodes Dependencies Dependents graphOk
proof
  fix g :: ImagesGraph and xs x ys
  assume ok: "graphOk g"
  show "distinct (nodes g)" using ok by (simp add: graphOk_def)
  show "count_list (Dependents g x) y = count_list (Dependencies g y) x" for y using ok by (simp add: graphOk_def)
  show "x \<notin> set (nodes g) \<Longrightarrow> Dependencies g x = []" using ok by (simp add: graphOk_def)
  assume "nodes g = xs @ x # ys"
  then show "set (Dependencies g x) \<subseteq> set xs" using ok by (auto simp: graphOk_def depsFirst_def)
qed

section \<open>Properties of the graph\<close>

lemma graph_of_images:
  assumes "BuildImagesGraph images = Inr g" and "\<forall>i \<in> set images. platformOk i"
  shows "set (nodes g) = set images" and "graphOk g"
    and "x \<in> set images \<Longrightarrow> set (Dependencies g x) = {d. (x, d) \<in> dependsOn (set images)}"
  using BuildImagesGraph_spec [OF assms(2)] assms(1) by auto

lemma acyclic_images:
  assumes "BuildImagesGraph images = Inr g" and "\<forall>i \<in> set images. platformOk i"
  shows "acyclic (dependsOn (set images))"
proof -
  note g = graph_of_images [OF assms]
  have "x \<notin> set images \<Longrightarrow> sliceAt (deps g) x = []" for x
    using ig.deps_of_nodes [OF g(2)] g(1) by (simp add: Dependencies_def)
  then have "y \<in> set (sliceAt (deps g) x) \<longleftrightarrow> (x, y) \<in> dependsOn (set images)" for x y
    using g(3) [of x] by (cases "x \<in> set images") (simp_all add: Dependencies_def, simp add: dependsOn_def)
  then have e: "edge (deps g) = dependsOn (set images)" by (auto simp: edge_def)
  have "(x, x) \<notin> (dependsOn (set images))\<^sup>+" for x
  proof (cases "x \<in> set images")
    case True
    have "depsFirst (sliceAt (deps g)) (nodes g)" using g(2) by (simp add: graphOk_def depsFirst_def Dependencies_def)
    from depsFirst_acyclic [OF this ig.distinct_nodes [OF g(2)], of x] show ?thesis using True g(1) e by simp
  next
    case False
    then show ?thesis by (auto simp: dependsOn_def dest: tranclD)
  qed
  then show ?thesis by (auto simp: acyclic_def)
qed

text \<open>C28: The nodes of the graph are the given images, each once, in an order in which every image comes after all the images of
  its platform that it names as dependencies; the images have no dependency cycle.\<close>

theorem images_in_build_order:
  assumes "BuildImagesGraph images = Inr g" and "\<forall>i \<in> set images. platformOk i"
  shows "set (nodes g) = set images \<and> distinct (nodes g) \<and>
    (\<forall>xs x ys. nodes g = xs @ x # ys \<longrightarrow> {d. (x, d) \<in> dependsOn (set images)} \<subseteq> set xs) \<and> acyclic (dependsOn (set images))"
proof -
  note g = graph_of_images [OF assms]
  have first: "{d. (x, d) \<in> dependsOn (set images)} \<subseteq> set xs" if "nodes g = xs @ x # ys" for xs x ys
  proof -
    have "x \<in> set images" using that g(1) by (metis in_set_conv_decomp)
    then show ?thesis using ig.deps_first [OF g(2) that] g(3) by simp
  qed
  then show ?thesis using g acyclic_images [OF assms] ig.distinct_nodes by blast
qed

text \<open>C29: The construction of the graph fails only for a reason that exists, and names it: two different images with one name
  and platform, a dependency on an image that is built for other platforms only, or an image on a dependency cycle.\<close>

theorem images_graph_errors:
  assumes "BuildImagesGraph images = Inl e" and "\<forall>i \<in> set images. platformOk i"
  shows "(\<exists>i \<in> set images. \<exists>j \<in> set images. i \<noteq> j \<and> imgName i = imgName j \<and> TargetPlatform i = TargetPlatform j \<and>
      e = NameConflict (imgName i) (TargetPlatform i)) \<or>
    (\<exists>x \<in> set images. \<exists>n \<in> set (dependencyNames x). n \<in> imgName ` set images \<and>
      \<not> (\<exists>d \<in> set images. imgName d = n \<and> TargetPlatform d = TargetPlatform x) \<and>
      (\<exists>ps. e = NotBuiltForPlatform (imgName x) (TargetPlatform x) n ps)) \<or>
    (\<exists>x \<in> set images. (x, x) \<in> (dependsOn (set images))\<^sup>+ \<and> e = DependencyCycle (imgName x))"
  using BuildImagesGraph_spec [OF assms(2)] assms(1) by (cases e) (auto, metis)

section \<open>Levels\<close>

lemma levelAt_update [simp]: "levelAt (AList.update x l m) y = (if y = x then l else levelAt m y)"
  by (simp add: levelAt_def)

lemma levelAt_assign:
  "levelAt (assignLevel g m x) y = (if y = x then foldl max 0 (map (\<lambda>d. levelAt m d + 1) (Dependencies g x)) else levelAt m y)"
proof -
  have "foldl (\<lambda>l dep. if levelAt m dep + 1 > l then levelAt m dep + 1 else l) l0 ds = foldl max l0 (map (\<lambda>d. levelAt m d + 1) ds)"
    for l0 ds by (induction ds arbitrary: l0) (simp_all add: max_def)
  then show ?thesis by (simp add: assignLevel_def Dependencies_def)
qed

lemma levelAt_later: "y \<notin> set ns \<Longrightarrow> levelAt (foldl (assignLevel g) m ns) y = levelAt m y"
  by (induction ns arbitrary: m) (simp_all add: levelAt_assign)

definition levelOf :: "ImagesGraph \<Rightarrow> BuildImage \<Rightarrow> nat" where
  "levelOf g x = levelAt (foldl (assignLevel g) [] (nodes g)) x"

lemma levelOf_fun: "levelOf g = levelAt (foldl (assignLevel g) [] (nodes g))"
  by (rule ext) (simp add: levelOf_def)

lemma foldl_max: "foldl max (a::nat) xs = Max (insert a (set xs))"
proof (induction xs arbitrary: a)
  case (Cons x xs)
  then show ?case by (cases "xs = []") (simp_all add: insert_commute max.assoc max.left_commute)
qed simp

lemma levelOf_eq:
  assumes "graphOk g" and "x \<in> set (nodes g)"
  shows "levelOf g x = Max (insert 0 ((\<lambda>d. levelOf g d + 1) ` set (Dependencies g x)))"
proof -
  from assms(2) obtain xs ys where n: "nodes g = xs @ x # ys" by (meson split_list)
  let ?m = "foldl (assignLevel g) [] xs"
  have dist: "x \<notin> set ys" "\<And>d. d \<in> set xs \<Longrightarrow> d \<notin> set (x # ys)"
    using ig.distinct_nodes [OF assms(1)] n by auto
  have "levelOf g x = foldl max 0 (map (\<lambda>d. levelAt ?m d + 1) (Dependencies g x))"
    using levelAt_later [OF dist(1)] by (simp add: levelOf_def n levelAt_assign)
  also have "map (\<lambda>d. levelAt ?m d + 1) (Dependencies g x) = map (\<lambda>d. levelOf g d + 1) (Dependencies g x)"
  proof (rule map_cong [OF refl])
    fix d assume "d \<in> set (Dependencies g x)"
    then have "d \<in> set xs" using ig.deps_first [OF assms(1) n] by auto
    then have "levelAt (foldl (assignLevel g) ?m (x # ys)) d = levelAt ?m d" by (intro levelAt_later dist(2))
    then show "levelAt ?m d + 1 = levelOf g d + 1" by (simp add: levelOf_def n)
  qed
  finally show ?thesis by (simp only: foldl_max set_map)
qed

lemma levelOf_deps:
  assumes "graphOk g" and "x \<in> set (nodes g)"
  shows "d \<in> set (Dependencies g x) \<Longrightarrow> levelOf g d < levelOf g x"
    and "0 < levelOf g x \<Longrightarrow> \<exists>d \<in> set (Dependencies g x). levelOf g x = levelOf g d + 1"
proof -
  let ?S = "insert 0 ((\<lambda>d. levelOf g d + 1) ` set (Dependencies g x))"
  show "levelOf g d < levelOf g x" if "d \<in> set (Dependencies g x)"
  proof -
    have "levelOf g d + 1 \<le> Max ?S" by (rule Max_ge) (use that in auto)
    then show ?thesis using levelOf_eq [OF assms] by linarith
  qed
  have "Max ?S \<in> ?S" by (rule Max_in) auto
  then show "\<exists>d \<in> set (Dependencies g x). levelOf g x = levelOf g d + 1" if "0 < levelOf g x"
    using that unfolding levelOf_eq [OF assms, symmetric] by auto
qed

lemma distribute:
  "(\<forall>x \<in> set xs. f x < length ls) \<Longrightarrow> k < length ls \<Longrightarrow>
   length (foldl (\<lambda>ls x. ls[f x := ls ! f x @ [x]]) ls xs) = length ls \<and>
   foldl (\<lambda>ls x. ls[f x := ls ! f x @ [x]]) ls xs ! k = ls ! k @ filter (\<lambda>x. f x = k) xs"
  by (induction xs arbitrary: ls) (auto simp: nth_list_update)

lemma Levels_nth:
  "length (Levels g) = Max (insert 0 (levelOf g ` set (nodes g))) + 1"
  "k < length (Levels g) \<Longrightarrow> Levels g ! k = filter (\<lambda>x. levelOf g x = k) (nodes g)"
proof -
  let ?top = "foldl max 0 (map (levelOf g) (nodes g))"
  have eq: "Levels g = foldl (\<lambda>ls x. ls[levelOf g x := ls ! levelOf g x @ [x]]) (replicate (?top + 1) []) (nodes g)"
    by (simp add: Levels_def Let_def levelOf_fun)
  have top: "?top = Max (insert 0 (levelOf g ` set (nodes g)))" by (simp add: foldl_max)
  have small: "\<forall>x \<in> set (nodes g). levelOf g x < length (replicate (?top + 1) ([] :: BuildImage list))"
    unfolding top by (simp add: less_Suc_eq_le)
  from distribute [OF small, of 0] show len: "length (Levels g) = Max (insert 0 (levelOf g ` set (nodes g))) + 1"
    unfolding eq top by simp
  show "Levels g ! k = filter (\<lambda>x. levelOf g x = k) (nodes g)" if "k < length (Levels g)"
    using distribute [OF small, of k] that len nth_replicate [of k "?top + 1" "[] :: BuildImage list"] unfolding eq top by simp
qed

text \<open>The levels of the build plan are those of the longest paths: every image is on exactly one level, all its dependencies
  are on lower levels, and an image that is not on the lowest level has a dependency on the level just below.\<close>

theorem levels_by_longest_path:
  assumes "graphOk g" and "x \<in> set (nodes g)"
  shows "\<exists>i < length (Levels g). x \<in> set (Levels g ! i) \<and> (\<forall>j < length (Levels g). x \<in> set (Levels g ! j) \<longrightarrow> j = i) \<and>
    (\<forall>d \<in> set (Dependencies g x). \<exists>j < i. d \<in> set (Levels g ! j)) \<and>
    (0 < i \<longrightarrow> (\<exists>d \<in> set (Dependencies g x). d \<in> set (Levels g ! (i - 1))))"
proof -
  have inL: "levelOf g y < length (Levels g) \<and> y \<in> set (Levels g ! levelOf g y)" if "y \<in> set (nodes g)" for y
  proof -
    have "levelOf g y < length (Levels g)" unfolding Levels_nth(1) using that by (simp add: less_Suc_eq_le)
    then show ?thesis using that by (simp add: Levels_nth(2))
  qed
  have dep: "d \<in> set (nodes g)" if "d \<in> set (Dependencies g x)" for d
    using ig.deps_inside [OF assms(1)] that by auto
  show ?thesis
  proof (rule exI [of _ "levelOf g x"], intro conjI allI impI ballI)
    show "levelOf g x < length (Levels g)" "x \<in> set (Levels g ! levelOf g x)" using inL [OF assms(2)] by simp_all
    show "j = levelOf g x" if "j < length (Levels g)" "x \<in> set (Levels g ! j)" for j
      using that by (simp add: Levels_nth(2))
    show "\<exists>j < levelOf g x. d \<in> set (Levels g ! j)" if "d \<in> set (Dependencies g x)" for d
      using levelOf_deps(1) [OF assms that] inL [OF dep [OF that]] by blast
    show "\<exists>d \<in> set (Dependencies g x). d \<in> set (Levels g ! (levelOf g x - 1))" if "0 < levelOf g x"
      using levelOf_deps(2) [OF assms that] inL dep by (metis add_diff_cancel_right')
  qed
qed

section \<open>Instances\<close>

definition sampleImages :: "BuildImage list" where
  "sampleImages = [\<lparr>imgRef = 0, imgName = ''app'', TargetPlatform = ''linux/amd64'', dependencyNames = [''base'', ''lib'', ''alpine'']\<rparr>,
     \<lparr>imgRef = 1, imgName = ''lib'', TargetPlatform = ''linux/amd64'', dependencyNames = [''base'']\<rparr>,
     \<lparr>imgRef = 2, imgName = ''base'', TargetPlatform = ''linux/amd64'', dependencyNames = []\<rparr>]"

definition sampleGraph :: ImagesGraph where
  "sampleGraph = \<lparr>nodes = [sampleImages ! 2, sampleImages ! 1, sampleImages ! 0],
     deps = [(sampleImages ! 0, [sampleImages ! 2, sampleImages ! 1]), (sampleImages ! 1, [sampleImages ! 2])],
     dependents = [(sampleImages ! 2, [sampleImages ! 0, sampleImages ! 1]), (sampleImages ! 1, [sampleImages ! 0])]\<rparr>"

lemma sampleGraph_built: "BuildImagesGraph sampleImages = Inr sampleGraph"
  by code_simp

lemma sampleImages_ok: "\<forall>i \<in> set sampleImages. platformOk i"
  by code_simp

theorem images_in_build_order_witness:
  "set (nodes sampleGraph) = set sampleImages \<and> distinct (nodes sampleGraph) \<and> acyclic (dependsOn (set sampleImages))"
  using images_in_build_order [OF sampleGraph_built sampleImages_ok] by blast

definition cyclicImages :: "BuildImage list" where
  "cyclicImages = [\<lparr>imgRef = 0, imgName = ''a'', TargetPlatform = [], dependencyNames = [''b'']\<rparr>,
     \<lparr>imgRef = 1, imgName = ''b'', TargetPlatform = [], dependencyNames = [''a'']\<rparr>]"

theorem images_graph_errors_witness:
  "\<exists>x \<in> set cyclicImages. (x, x) \<in> (dependsOn (set cyclicImages))\<^sup>+ \<and> imgName x = ''a''"
proof -
  have e: "BuildImagesGraph cyclicImages = Inl (DependencyCycle ''a'')" by code_simp
  have "\<forall>i \<in> set cyclicImages. platformOk i" by code_simp
  from images_graph_errors [OF e this] show ?thesis by fastforce
qed

theorem levels_by_longest_path_witness:
  "\<exists>i < length (Levels sampleGraph). sampleImages ! 0 \<in> set (Levels sampleGraph ! i) \<and>
    (\<forall>d \<in> set (Dependencies sampleGraph (sampleImages ! 0)). \<exists>j < i. d \<in> set (Levels sampleGraph ! j))"
proof -
  have "graphOk sampleGraph" using graph_of_images(2) [OF sampleGraph_built sampleImages_ok] .
  moreover have "sampleImages ! 0 \<in> set (nodes sampleGraph)" by (simp add: sampleGraph_def)
  ultimately show ?thesis using levels_by_longest_path by meson
qed

end
