(* ===== verification/Scheduler.thy ===== *)
theory Scheduler
  imports Graph
begin

text \<open>
  The scheduler of image builds, \<^verbatim>\<open>pkg/build/graph_scheduler.go\<close>, driven by the workers of \<^verbatim>\<open>DoTasksDynamic\<close>
  (\<^verbatim>\<open>pkg/util/parallel/parallel.go\<close>): the operations of the scheduler, a step relation for the workers, and its refinement of
  an abstract scheduler in which a task may start whenever its dependencies are finished. The channel \<^verbatim>\<open>ready\<close> is a list with
  the capacity of the source; a send to the full channel and a second close of \<^verbatim>\<open>done\<close>, which would block and panic, are error
  values. The context is cancelled by a failing build or, at any time, from outside; a worker that finds it cancelled quits.
  Among idle workers one is always past the wait for the first task of its predecessor, so that the workers need not be told
  apart.
\<close>

section \<open>The scheduler\<close>

record graphScheduler =
  remaining :: "(BuildImage, int) goMap"
  ready :: "nat list"
  doneClosed :: bool
  completed :: nat

datatype schedulerError = SendBlocks | ClosedTwice

fun indexOf :: "'a list \<Rightarrow> 'a \<Rightarrow> nat" where
  "indexOf [] x = 0"
| "indexOf (y # ys) x = (if y = x then 0 else Suc (indexOf ys x))"

definition remainingAt :: "graphScheduler \<Rightarrow> BuildImage \<Rightarrow> int" where
  "remainingAt s img = (case map_of (remaining s) img of None \<Rightarrow> 0 | Some n \<Rightarrow> n)"

definition sendReady :: "ImagesGraph \<Rightarrow> BuildImage \<Rightarrow> graphScheduler \<Rightarrow> schedulerError + graphScheduler" where
  "sendReady g img s =
     (if length (ready s) < length (nodes g) then Inr (s\<lparr>ready := ready s @ [indexOf (nodes g) img]\<rparr>) else Inl SendBlocks)"

definition closeDone :: "graphScheduler \<Rightarrow> schedulerError + graphScheduler" where
  "closeDone s = (if doneClosed s then Inl ClosedTwice else Inr (s\<lparr>doneClosed := True\<rparr>))"

text \<open>The body of the loop of \<^verbatim>\<open>newGraphScheduler\<close>.\<close>

definition enroll :: "ImagesGraph \<Rightarrow> graphScheduler \<Rightarrow> BuildImage \<Rightarrow> schedulerError + graphScheduler" where
  "enroll g s img =
     (let n = int (length (Dependencies g img)); s' = s\<lparr>remaining := AList.update img n (remaining s)\<rparr>
      in if n = 0 then sendReady g img s' else Inr s')"

definition newGraphScheduler :: "ImagesGraph \<Rightarrow> schedulerError + graphScheduler" where
  "newGraphScheduler g =
     bindR (foldR (enroll g) \<lparr>remaining = [], ready = [], doneClosed = False, completed = 0\<rparr> (nodes g)) (\<lambda>s.
     if nodes g = [] then closeDone s else Inr s)"

definition decrement :: "ImagesGraph \<Rightarrow> graphScheduler \<Rightarrow> BuildImage \<Rightarrow> schedulerError + graphScheduler" where
  "decrement g s dependent =
     (let n = remainingAt s dependent - 1; s' = s\<lparr>remaining := AList.update dependent n (remaining s)\<rparr>
      in if n = 0 then sendReady g dependent s' else Inr s')"

text \<open>What the \<^verbatim>\<open>select\<close> of \<^verbatim>\<open>next\<close> may choose; when nothing is possible, it waits.\<close>

datatype nextResult = Task nat | NoMoreTasks | ContextDone

definition nextTask :: "graphScheduler \<Rightarrow> bool \<Rightarrow> nextResult list" where
  "nextTask s cancelled =
     (case ready s of [] \<Rightarrow> [] | taskId # _ \<Rightarrow> [Task taskId]) @
     (if doneClosed s then [NoMoreTasks] else []) @ (if cancelled then [ContextDone] else [])"

lemma nextTask_iff [simp]:
  "Task i \<in> set (nextTask s c) \<longleftrightarrow> ready s = i # tl (ready s)"
  "NoMoreTasks \<in> set (nextTask s c) \<longleftrightarrow> doneClosed s"
  "ContextDone \<in> set (nextTask s c) \<longleftrightarrow> c"
  by (cases "ready s"; auto simp: nextTask_def)+

definition complete :: "ImagesGraph \<Rightarrow> BuildImage \<Rightarrow> graphScheduler \<Rightarrow> schedulerError + graphScheduler" where
  "complete g img s =
     bindR (foldR (decrement g) (s\<lparr>completed := completed s + 1\<rparr>) (Dependents g img)) (\<lambda>s.
     if completed s = length (nodes g) then closeDone s else Inr s)"

section \<open>The workers\<close>

record build =
  scheduler :: graphScheduler
  idle :: nat
  asking :: nat
  building :: "nat list"
  built :: "nat list"
  failures :: "nat list"
  quits :: nat
  interrupted :: bool

text \<open>
  The context of the workers is done once a build has failed (the group cancels it with the first error) or the context of the
  caller has been cancelled (\<open>interrupted\<close>, set at any time by \<open>interruption\<close>, which is a step of the outside and not of a worker).
  A worker that finds it done returns its error; \<open>quits\<close> counts these returns.
\<close>

definition ctxDone :: "build \<Rightarrow> bool" where
  "ctxDone b \<longleftrightarrow> failures b \<noteq> [] \<or> interrupted b"

inductive interruption :: "build \<Rightarrow> build \<Rightarrow> bool" where
  interrupt: "interruption b (b\<lparr>interrupted := True\<rparr>)"

text \<open>
  An idle worker calls \<^verbatim>\<open>next\<close> while the context is not done (\<open>ask\<close>) and returns its error otherwise (\<open>cancelled\<close>).
  The \<^verbatim>\<open>select\<close> of \<^verbatim>\<open>next\<close> chooses among what is possible: a node from the channel, even when the context has been
  cancelled meanwhile (\<open>take\<close>), the return of the worker once \<^verbatim>\<open>done\<close> is closed (\<open>leave\<close>), or its return with the error of
  the context (\<open>quit\<close>). A build ends with the call of \<^verbatim>\<open>complete\<close> (\<open>finish\<close>), after which the worker is idle, or with an
  error (\<open>fail\<close>), which ends the worker and cancels the context.
\<close>

inductive buildStep :: "ImagesGraph \<Rightarrow> (nat \<Rightarrow> bool) \<Rightarrow> build \<Rightarrow> build \<Rightarrow> bool" for g failing where
  ask: "0 < idle b \<Longrightarrow> \<not> ctxDone b \<Longrightarrow> buildStep g failing b (b\<lparr>idle := idle b - 1, asking := asking b + 1\<rparr>)"
| cancelled: "0 < idle b \<Longrightarrow> ctxDone b \<Longrightarrow> buildStep g failing b (b\<lparr>idle := idle b - 1, quits := quits b + 1\<rparr>)"
| take: "0 < asking b \<Longrightarrow> Task i \<in> set (nextTask (scheduler b) (ctxDone b)) \<Longrightarrow>
    buildStep g failing b (b\<lparr>scheduler := (scheduler b)\<lparr>ready := tl (ready (scheduler b))\<rparr>, asking := asking b - 1, building := building b @ [i]\<rparr>)"
| leave: "0 < asking b \<Longrightarrow> NoMoreTasks \<in> set (nextTask (scheduler b) (ctxDone b)) \<Longrightarrow> buildStep g failing b (b\<lparr>asking := asking b - 1\<rparr>)"
| quit: "0 < asking b \<Longrightarrow> ContextDone \<in> set (nextTask (scheduler b) (ctxDone b)) \<Longrightarrow>
    buildStep g failing b (b\<lparr>asking := asking b - 1, quits := quits b + 1\<rparr>)"
| finish: "i \<in> set (building b) \<Longrightarrow> \<not> failing i \<Longrightarrow> complete g (nodes g ! i) (scheduler b) = Inr s' \<Longrightarrow>
    buildStep g failing b (b\<lparr>scheduler := s', idle := idle b + 1, building := remove1 i (building b), built := built b @ [i]\<rparr>)"
| fail: "i \<in> set (building b) \<Longrightarrow> failing i \<Longrightarrow>
    buildStep g failing b (b\<lparr>building := remove1 i (building b), failures := i # failures b\<rparr>)"

inductive_cases buildStepE: "buildStep g failing b b'"

text \<open>\<^verbatim>\<open>DoTasksDynamic\<close> runs one worker when the limit is not positive.\<close>

definition dynamicWorkers :: "int \<Rightarrow> nat" where
  "dynamicWorkers maxNumberOfWorkers = (if maxNumberOfWorkers \<le> 0 then 1 else nat maxNumberOfWorkers)"

definition startBuild :: "int \<Rightarrow> graphScheduler \<Rightarrow> build" where
  "startBuild maxNumberOfWorkers s =
     \<lparr>scheduler = s, idle = dynamicWorkers maxNumberOfWorkers, asking = 0, building = [], built = [], failures = [],
      quits = 0, interrupted = False\<rparr>"

text \<open>No worker has returned an error, so that the call of \<^verbatim>\<open>DoTasksDynamic\<close> returns none.\<close>

definition succeeded :: "build \<Rightarrow> bool" where
  "succeeded b \<longleftrightarrow> failures b = [] \<and> quits b = 0"

section \<open>Indexes\<close>

lemma indexOf_less: "x \<in> set xs \<Longrightarrow> indexOf xs x < length xs"
  by (induction xs) auto

lemma nth_indexOf: "x \<in> set xs \<Longrightarrow> xs ! indexOf xs x = x"
  by (induction xs) auto

lemma indexOf_nth: "distinct xs \<Longrightarrow> i < length xs \<Longrightarrow> indexOf xs (xs ! i) = i"
proof (induction xs arbitrary: i)
  case (Cons x xs)
  then show ?case by (cases i) auto
qed simp

section \<open>Sending the nodes that have become ready\<close>

text \<open>
  The state of the scheduler that belongs to a set \<open>F\<close> of finished nodes: the counters are the numbers of
  dependencies left, and the nodes handed out, waiting or not, are those with no dependency left.
\<close>

definition left :: "ImagesGraph \<Rightarrow> BuildImage set \<Rightarrow> BuildImage \<Rightarrow> BuildImage list" where
  "left g F x = filter (\<lambda>d. d \<notin> F) (Dependencies g x)"

text \<open>\<open>out\<close>: the nodes that have left the channel; \<open>rem\<close>: the counters.\<close>

definition inStep :: "ImagesGraph \<Rightarrow> (BuildImage \<Rightarrow> int) \<Rightarrow> nat list \<Rightarrow> graphScheduler \<Rightarrow> bool" where
  "inStep g rem out s \<longleftrightarrow> (\<forall>x \<in> set (nodes g). remainingAt s x = rem x) \<and> distinct (ready s @ out) \<and>
     set (ready s @ out) = {i. i < length (nodes g) \<and> rem (nodes g ! i) = 0}"

lemma remainingAt_update [simp]:
  "remainingAt (s\<lparr>remaining := AList.update x n (remaining s)\<rparr>) y = (if y = x then n else remainingAt s y)"
  by (simp add: remainingAt_def)

lemma remainingAt_frame [simp]:
  "remainingAt (s\<lparr>ready := r\<rparr>) y = remainingAt s y" "remainingAt (s\<lparr>completed := c\<rparr>) y = remainingAt s y"
  "remainingAt (s\<lparr>doneClosed := b\<rparr>) y = remainingAt s y"
  by (simp_all add: remainingAt_def)

lemma sendReady_ok:
  assumes "distinct (nodes g)" and "x \<in> set (nodes g)" and "distinct (ready s @ out)"
    and "set (ready s @ out) \<subseteq> {..<length (nodes g)} - {indexOf (nodes g) x}"
  shows "sendReady g x s = Inr (s\<lparr>ready := ready s @ [indexOf (nodes g) x]\<rparr>)"
proof -
  have "length (ready s @ out) = card (set (ready s @ out))" using assms(3) by (rule distinct_card [symmetric])
  also have "\<dots> \<le> card ({..<length (nodes g)} - {indexOf (nodes g) x})" using assms(4) by (intro card_mono) auto
  also have "\<dots> < length (nodes g)" using indexOf_less [OF assms(2)] by simp
  finally show ?thesis by (simp add: sendReady_def)
qed

lemma decrement_ok:
  assumes "distinct (nodes g)" and "x \<in> set (nodes g)" and "inStep g rem out s" and "0 < rem x"
  shows "\<exists>s'. decrement g s x = Inr s' \<and> inStep g (rem(x := rem x - 1)) out s' \<and>
    completed s' = completed s \<and> doneClosed s' = doneClosed s"
proof -
  let ?i = "indexOf (nodes g) x" and ?s = "s\<lparr>remaining := AList.update x (rem x - 1) (remaining s)\<rparr>"
  have r: "remainingAt s x = rem x" using assms(2,3) by (simp add: inStep_def)
  have node: "i < length (nodes g) \<Longrightarrow> nodes g ! i = x \<longleftrightarrow> i = ?i" for i
    using indexOf_nth [OF assms(1)] nth_indexOf [OF assms(2)] by auto
  have at: "nodes g ! ?i = x" using assms(2) by (rule nth_indexOf)
  have S: "set (ready s @ out) = {i. i < length (nodes g) \<and> rem (nodes g ! i) = 0}" using assms(3) by (simp add: inStep_def)
  have out: "?i \<notin> set (ready s @ out)" "distinct (ready s @ out)" unfolding S using assms(3,4) by (auto simp: at inStep_def)
  then have sub: "set (ready s @ out) \<subseteq> {..<length (nodes g)} - {?i}" using S by auto
  have rem: "\<forall>y \<in> set (nodes g). remainingAt ?s y = (rem(x := rem x - 1)) y" using assms(3) by (simp add: inStep_def)
  show ?thesis
  proof (cases "rem x = 1")
    case True
    have "sendReady g x ?s = Inr (?s\<lparr>ready := ready s @ [?i]\<rparr>)"
      using sendReady_ok [OF assms(1,2), of ?s out] out(2) sub by simp
    moreover have "{i. i < length (nodes g) \<and> (rem(x := 0)) (nodes g ! i) = 0} = insert ?i {i. i < length (nodes g) \<and> rem (nodes g ! i) = 0}"
      using indexOf_less [OF assms(2)] node by (auto simp: at)
    ultimately show ?thesis
      using True r rem out assms(3) by (auto simp: decrement_def Let_def inStep_def)
  next
    case False
    then have "{i. i < length (nodes g) \<and> (rem(x := rem x - 1)) (nodes g ! i) = 0} = {i. i < length (nodes g) \<and> rem (nodes g ! i) = 0}"
      using assms(4) by auto
    then show ?thesis using False r rem assms(3) by (auto simp: decrement_def Let_def inStep_def)
  qed
qed

lemma decrements_ok:
  assumes "distinct (nodes g)" and "set xs \<subseteq> set (nodes g)" and "inStep g rem out s"
    and "\<forall>x. int (count_list xs x) \<le> rem x \<or> x \<notin> set xs"
  shows "\<exists>s'. foldR (decrement g) s xs = Inr s' \<and> inStep g (\<lambda>x. rem x - int (count_list xs x)) out s' \<and>
    completed s' = completed s \<and> doneClosed s' = doneClosed s"
  using assms(2-4)
proof (induction xs arbitrary: s rem)
  case Nil
  then show ?case by simp
next
  case (Cons y ys)
  have "int (count_list (y # ys) y) \<le> rem y" using Cons.prems(3) by fastforce
  then have pos: "0 < rem y" by simp
  from decrement_ok [OF assms(1) _ Cons.prems(2) pos] Cons.prems(1) obtain s1 where
    s1: "decrement g s y = Inr s1" "inStep g (rem(y := rem y - 1)) out s1" "completed s1 = completed s" "doneClosed s1 = doneClosed s"
    by auto
  have "\<forall>x. int (count_list ys x) \<le> (rem(y := rem y - 1)) x \<or> x \<notin> set ys"
    using Cons.prems(3) by (auto split: if_splits)
  from Cons.IH [OF _ s1(2) this] Cons.prems(1) obtain s2 where s2: "foldR (decrement g) s1 ys = Inr s2"
    "inStep g (\<lambda>x. (rem(y := rem y - 1)) x - int (count_list ys x)) out s2" "completed s2 = completed s1" "doneClosed s2 = doneClosed s1"
    by auto
  moreover have "(\<lambda>x. (rem(y := rem y - 1)) x - int (count_list ys x)) = (\<lambda>x. rem x - int (count_list (y # ys) x))" by (rule ext) simp
  ultimately show ?case using s1 by simp
qed


section \<open>The scheduler at its start\<close>

abbreviation counters :: "ImagesGraph \<Rightarrow> BuildImage set \<Rightarrow> BuildImage \<Rightarrow> int" where
  "counters g F \<equiv> (\<lambda>x. int (length (left g F x)))"

lemma start_loop:
  assumes "distinct (nodes g)" and "nodes g = pre @ suf" and "remaining s = map (\<lambda>x. (x, counters g {} x)) pre"
    and "ready s = filter (\<lambda>i. Dependencies g (nodes g ! i) = []) [0..<length pre]"
  shows "\<exists>s'. foldR (enroll g) s suf = Inr s' \<and>
      remaining s' = map (\<lambda>x. (x, counters g {} x)) (nodes g) \<and>
      ready s' = filter (\<lambda>i. Dependencies g (nodes g ! i) = []) [0..<length (nodes g)] \<and>
      doneClosed s' = doneClosed s \<and> completed s' = completed s"
  using assms(2-4)
proof (induction suf arbitrary: pre s)
  case Nil
  then show ?case by simp
next
  case (Cons x suf)
  let ?n = "int (length (Dependencies g x))" and ?s = "s\<lparr>remaining := AList.update x (int (length (Dependencies g x))) (remaining s)\<rparr>"
  have x: "x \<in> set (nodes g)" "x \<notin> set pre" "nodes g ! length pre = x" "length pre < length (nodes g)"
    using Cons.prems(1) assms(1) by auto
  have upd: "remaining ?s = map (\<lambda>x. (x, counters g {} x)) (pre @ [x])"
    using x(2) Cons.prems(2) by (simp add: update_fresh keys_def image_iff left_def)
  have i: "indexOf (nodes g) x = length pre" using indexOf_nth [OF assms(1) x(4)] x(3) by simp
  have len: "length (ready ?s) \<le> length pre" using Cons.prems(3) by (simp, metis length_filter_le length_upt minus_nat.diff_0)
  show ?case
  proof (cases "?n = 0")
    case True
    let ?s' = "?s\<lparr>ready := ready s @ [length pre]\<rparr>"
    have send: "sendReady g x ?s = Inr ?s'" using len x(4) i by (simp add: sendReady_def)
    have "ready ?s' = filter (\<lambda>i. Dependencies g (nodes g ! i) = []) [0..<length (pre @ [x])]"
      using True x(3) Cons.prems(3) by simp
    from Cons.IH [OF _ _ this] Cons.prems(1) upd show ?thesis using send True by (simp add: enroll_def Let_def)
  next
    case False
    then have "ready ?s = filter (\<lambda>i. Dependencies g (nodes g ! i) = []) [0..<length (pre @ [x])]"
      using x(3) Cons.prems(3) by simp
    from Cons.IH [OF _ upd this] Cons.prems(1) show ?thesis using False by (simp add: enroll_def Let_def)
  qed
qed


lemma newGraphScheduler_ok:
  assumes "graphOk g"
  obtains s where "newGraphScheduler g = Inr s" and "inStep g (counters g {}) [] s" and "completed s = 0"
    and "doneClosed s \<longleftrightarrow> nodes g = []"
proof -
  let ?s0 = "\<lparr>remaining = [], ready = [], doneClosed = False, completed = 0\<rparr>"
  obtain s where s: "foldR (enroll g) ?s0 (nodes g) = Inr s"
    and rem: "remaining s = map (\<lambda>x. (x, counters g {} x)) (nodes g)"
    and rd: "ready s = filter (\<lambda>i. Dependencies g (nodes g ! i) = []) [0..<length (nodes g)]"
    and fr: "\<not> doneClosed s" "completed s = 0"
    using start_loop [OF ig.distinct_nodes [OF assms], of "[]" "nodes g" ?s0] by auto
  define s' where "s' = (if nodes g = [] then s\<lparr>doneClosed := True\<rparr> else s)"
  have rem_at: "\<forall>x \<in> set (nodes g). remainingAt s x = counters g {} x"
    by (auto simp: remainingAt_def rem map_of_map_restrict)
  have rd': "set (ready s) = {i. i < length (nodes g) \<and> counters g {} (nodes g ! i) = 0}"
    by (auto simp: rd left_def)
  have "inStep g (counters g {}) [] s'" using rem_at rd' rd by (simp add: inStep_def s'_def)
  moreover have "newGraphScheduler g = Inr s'" using s fr unfolding newGraphScheduler_def by (simp add: closeDone_def s'_def)
  ultimately show ?thesis using that fr by (simp add: s'_def)
qed

section \<open>Completing a node\<close>

lemma inStep_perm: "mset out = mset out' \<Longrightarrow> inStep g rem out s \<longleftrightarrow> inStep g rem out' s"
  using mset_eq_imp_distinct_iff [of "ready s @ out" "ready s @ out'"] mset_eq_setD [of out out'] by (simp add: inStep_def)

lemma length_left_insert: "x \<notin> F \<Longrightarrow> length (left g F y) = length (left g (insert x F) y) + count_list (Dependencies g y) x"
proof -
  assume "x \<notin> F"
  then have "length (filter (\<lambda>d. d \<notin> F) ds) = length (filter (\<lambda>d. d \<notin> insert x F) ds) + count_list ds x" for ds
    by (induction ds) auto
  then show ?thesis by (simp add: left_def)
qed

lemma complete_ok:
  assumes "graphOk g" and "x \<notin> F" and "inStep g (counters g F) out s" and "Suc (completed s) = length (nodes g) \<Longrightarrow> \<not> doneClosed s"
  shows "\<exists>s'. complete g x s = Inr s' \<and> inStep g (counters g (insert x F)) out s' \<and> completed s' = Suc (completed s) \<and>
    (doneClosed s' \<longleftrightarrow> doneClosed s \<or> Suc (completed s) = length (nodes g))"
proof -
  let ?s = "s\<lparr>completed := completed s + 1\<rparr>" and ?xs = "Dependents g x"
  have cnt: "int (count_list ?xs y) = counters g F y - counters g (insert x F) y" for y
    using length_left_insert [OF assms(2), of g y] ig.edges_dual [OF assms(1)] by simp
  then have rem: "(\<lambda>y. counters g F y - int (count_list ?xs y)) = counters g (insert x F)" by (intro ext) simp
  have "inStep g (counters g F) out ?s" using assms(3) by (simp add: inStep_def)
  moreover have "\<forall>y. int (count_list ?xs y) \<le> counters g F y \<or> y \<notin> set ?xs" using cnt by simp
  ultimately obtain s1 where s1: "foldR (decrement g) ?s ?xs = Inr s1" "inStep g (counters g (insert x F)) out s1"
    "completed s1 = Suc (completed s)" "doneClosed s1 = doneClosed s"
    using decrements_ok [OF ig.distinct_nodes [OF assms(1)] ig.dependents_inside [OF assms(1)], where s = ?s] rem by fastforce
  have "inStep g (counters g (insert x F)) out (s1\<lparr>doneClosed := True\<rparr>)" using s1(2) by (simp add: inStep_def)
  then show ?thesis using s1 assms(4) by (auto simp: complete_def closeDone_def)
qed

section \<open>The invariant of a build\<close>

definition builtNodes :: "ImagesGraph \<Rightarrow> build \<Rightarrow> BuildImage set" where
  "builtNodes g b = (!) (nodes g) ` set (built b)"

definition buildInv :: "ImagesGraph \<Rightarrow> build \<Rightarrow> bool" where
  "buildInv g b \<longleftrightarrow> inStep g (counters g (builtNodes g b)) (building b @ built b @ failures b) (scheduler b) \<and>
     completed (scheduler b) = length (built b) \<and> (doneClosed (scheduler b) \<longleftrightarrow> length (built b) = length (nodes g))"

lemma startBuild_inv:
  assumes "graphOk g" and "newGraphScheduler g = Inr s"
  shows "buildInv g (startBuild n s)"
  using newGraphScheduler_ok [OF assms(1)] assms(2) by (auto simp: buildInv_def startBuild_def builtNodes_def)

lemma inv_indexes:
  assumes "buildInv g b" and "i \<in> set (ready (scheduler b) @ building b @ built b @ failures b)"
  shows "i < length (nodes g)" and "set (Dependencies g (nodes g ! i)) \<subseteq> builtNodes g b"
  using assms by (auto simp: buildInv_def inStep_def left_def filter_empty_conv)

lemma inv_distinct:
  assumes "buildInv g b"
  shows "distinct (ready (scheduler b) @ building b @ built b @ failures b)"
  using assms by (simp add: buildInv_def inStep_def)

lemma builtNodes_iff:
  assumes "graphOk g" and "buildInv g b" and "i < length (nodes g)"
  shows "nodes g ! i \<in> builtNodes g b \<longleftrightarrow> i \<in> set (built b)"
proof -
  have "\<forall>j \<in> set (built b). j < length (nodes g)" using inv_indexes(1) [OF assms(2)] by auto
  then show ?thesis using ig.distinct_nodes [OF assms(1)] assms(3) by (auto simp: builtNodes_def nth_eq_iff_index_eq)
qed

text \<open>The completion of a node that is being built succeeds and keeps the invariant.\<close>

lemma finish_inv:
  assumes "graphOk g" and "buildInv g b" and "i \<in> set (building b)"
  obtains s' where "complete g (nodes g ! i) (scheduler b) = Inr s'"
    and "buildInv g (b\<lparr>scheduler := s', idle := idle b + 1, building := remove1 i (building b), built := built b @ [i]\<rparr>)"
proof -
  let ?F = "builtNodes g b" and ?s = "scheduler b"
  have i: "i < length (nodes g)" using inv_indexes [OF assms(2), of i] assms(3) by simp
  have fresh: "i \<notin> set (built b)" using inv_distinct [OF assms(2)] assms(3) by auto
  then have "nodes g ! i \<notin> ?F" using builtNodes_iff [OF assms(1,2) i] by simp
  moreover have inv: "inStep g (counters g ?F) (building b @ built b @ failures b) ?s" "completed ?s = length (built b)"
    "doneClosed ?s \<longleftrightarrow> length (built b) = length (nodes g)"
    using assms(2) by (simp_all add: buildInv_def)
  ultimately obtain s' where s': "complete g (nodes g ! i) ?s = Inr s'"
    "inStep g (counters g (insert (nodes g ! i) ?F)) (building b @ built b @ failures b) s'"
    "completed s' = Suc (length (built b))" "doneClosed s' \<longleftrightarrow> length (built b) = length (nodes g) \<or> Suc (length (built b)) = length (nodes g)"
    using complete_ok [OF assms(1)] by (metis n_not_Suc_n)
  have "set (i # built b) \<subseteq> {..<length (nodes g)}" using i inv_indexes(1) [OF assms(2)] by auto
  then have "card (set (i # built b)) \<le> length (nodes g)" by (metis card_lessThan card_mono finite_lessThan)
  then have len: "Suc (length (built b)) \<le> length (nodes g)"
    using fresh inv_distinct [OF assms(2)] by (simp add: distinct_card)
  have "mset (building b @ built b @ failures b) = mset (remove1 i (building b) @ (built b @ [i]) @ failures b)"
    using assms(3) by simp
  from inStep_perm [OF this] s' len show ?thesis using that [OF s'(1)] by (simp add: buildInv_def builtNodes_def)
qed

lemma buildStep_inv:
  assumes "graphOk g" and "buildStep g failing b b'" and "buildInv g b"
  shows "buildInv g b'"
  using assms(2)
proof cases
  case (take i)
  then obtain rest where "ready (scheduler b) = i # rest" by fastforce
  then show ?thesis using take assms(3) by (auto simp: buildInv_def inStep_def builtNodes_def)
next
  case (finish i s')
  then show ?thesis using finish_inv [OF assms(1,3)] by (metis sum.inject(2))
next
  case (fail i)
  then have "mset (building b @ built b @ failures b) = mset (remove1 i (building b) @ built b @ i # failures b)" by simp
  from inStep_perm [OF this] show ?thesis using fail assms(3) by (simp add: buildInv_def builtNodes_def)
qed (use assms(3) in \<open>simp_all add: buildInv_def builtNodes_def\<close>)


section \<open>An abstract scheduler\<close>

text \<open>What the scheduler promises: a node may start once all its dependencies are finished, and it starts at most once.\<close>

record buildSpec =
  started :: "BuildImage set"
  finished :: "BuildImage set"
  gaveUp :: "BuildImage set"

inductive specStep :: "ImagesGraph \<Rightarrow> buildSpec \<Rightarrow> buildSpec \<Rightarrow> bool" for g where
  specStart: "x \<in> set (nodes g) \<Longrightarrow> x \<notin> started a \<Longrightarrow> set (Dependencies g x) \<subseteq> finished a \<Longrightarrow>
    specStep g a (a\<lparr>started := insert x (started a)\<rparr>)"
| specFinish: "x \<in> started a \<Longrightarrow> x \<notin> finished a \<union> gaveUp a \<Longrightarrow> specStep g a (a\<lparr>finished := insert x (finished a)\<rparr>)"
| specGiveUp: "x \<in> started a \<Longrightarrow> x \<notin> finished a \<union> gaveUp a \<Longrightarrow> specStep g a (a\<lparr>gaveUp := insert x (gaveUp a)\<rparr>)"

definition absBuild :: "ImagesGraph \<Rightarrow> build \<Rightarrow> buildSpec" where
  "absBuild g b = \<lparr>started = (!) (nodes g) ` set (building b @ built b @ failures b),
     finished = (!) (nodes g) ` set (built b), gaveUp = (!) (nodes g) ` set (failures b)\<rparr>"

lemma node_in_image:
  assumes "graphOk g" and "i < length (nodes g)" and "\<forall>j \<in> J. j < length (nodes g)"
  shows "nodes g ! i \<in> (!) (nodes g) ` J \<longleftrightarrow> i \<in> J"
  using ig.distinct_nodes [OF assms(1)] assms(2,3) by (auto simp: nth_eq_iff_index_eq)

lemma ending_node:
  assumes "graphOk g" and "buildInv g b" and "i \<in> set (building b)"
  shows "nodes g ! i \<in> started (absBuild g b)" and "nodes g ! i \<notin> finished (absBuild g b) \<union> gaveUp (absBuild g b)"
proof -
  have i: "i < length (nodes g)" "i \<notin> set (built b) \<union> set (failures b)" "\<forall>j \<in> set (built b) \<union> set (failures b). j < length (nodes g)"
    using inv_indexes(1) [OF assms(2)] inv_distinct [OF assms(2)] assms(3) by auto
  show "nodes g ! i \<notin> finished (absBuild g b) \<union> gaveUp (absBuild g b)"
    using node_in_image [OF assms(1) i(1,3)] i(2) by (simp add: absBuild_def image_Un)
qed (use assms(3) in \<open>simp add: absBuild_def\<close>)

lemma buildStep_refines:
  assumes "graphOk g" and "buildInv g b" and "buildStep g failing b b'"
  shows "absBuild g b' = absBuild g b \<or> specStep g (absBuild g b) (absBuild g b')"
  using assms(3)
proof cases
  case (take i)
  then have "ready (scheduler b) = i # tl (ready (scheduler b))" by simp
  then have "i \<in> set (ready (scheduler b))" by (metis list.set_intros(1))
  then have i: "i < length (nodes g)" "set (Dependencies g (nodes g ! i)) \<subseteq> finished (absBuild g b)"
    using inv_indexes [OF assms(2), of i] by (auto simp: builtNodes_def absBuild_def)
  have "i \<notin> set (building b @ built b @ failures b)"
    using inv_distinct [OF assms(2)] \<open>i \<in> set (ready (scheduler b))\<close> by auto
  moreover have "\<forall>j \<in> set (building b @ built b @ failures b). j < length (nodes g)" using inv_indexes(1) [OF assms(2)] by auto
  ultimately have "nodes g ! i \<notin> started (absBuild g b)" using node_in_image [OF assms(1) i(1)] by (simp add: absBuild_def)
  moreover have "absBuild g b' = (absBuild g b)\<lparr>started := insert (nodes g ! i) (started (absBuild g b))\<rparr>"
    using take by (auto simp: absBuild_def)
  ultimately show ?thesis using specStart [OF nth_mem [OF i(1)]] i(2) by simp
next
  case (finish i s')
  then have "absBuild g b' = (absBuild g b)\<lparr>finished := insert (nodes g ! i) (finished (absBuild g b))\<rparr>"
    using inv_distinct [OF assms(2)] by (auto simp: absBuild_def)
  then show ?thesis using specFinish [OF ending_node [OF assms(1,2)]] finish by simp
next
  case (fail i)
  then have "absBuild g b' = (absBuild g b)\<lparr>gaveUp := insert (nodes g ! i) (gaveUp (absBuild g b))\<rparr>"
    using inv_distinct [OF assms(2)] by (auto simp: absBuild_def)
  then show ?thesis using specGiveUp [OF ending_node [OF assms(1,2)]] fail by simp
qed (simp_all add: absBuild_def)

section \<open>Runs of a build\<close>

text \<open>Until a worker returns an error or everything is done, no worker has left; errors of the context need a cause.\<close>

definition workersInv :: "nat \<Rightarrow> build \<Rightarrow> bool" where
  "workersInv w b \<longleftrightarrow> (succeeded b \<longrightarrow> doneClosed (scheduler b) \<or> idle b + asking b + length (building b) = w) \<and>
     (0 < quits b \<longrightarrow> ctxDone b)"

lemma foldR_decrement_doneClosed: "foldR (decrement g) s xs = Inr s' \<Longrightarrow> doneClosed s' = doneClosed s"
proof (induction xs arbitrary: s)
  case (Cons x xs)
  then obtain s1 where s1: "decrement g s x = Inr s1" "foldR (decrement g) s1 xs = Inr s'" by (auto simp: bindR_Inr split: sum.splits)
  then have "doneClosed s1 = doneClosed s" by (auto simp: decrement_def sendReady_def Let_def split: if_splits)
  then show ?case using Cons.IH s1(2) by simp
qed simp

lemma complete_keeps_done: "complete g x s = Inr s' \<Longrightarrow> doneClosed s \<Longrightarrow> doneClosed s'"
  using foldR_decrement_doneClosed by (fastforce simp: complete_def bindR_Inr closeDone_def split: if_splits)

lemma buildStep_workers:
  assumes "buildStep g failing b b'" and "workersInv w b"
  shows "workersInv w b'"
  using assms
proof cases
  case (finish i s')
  then have "0 < length (building b)" by auto
  then show ?thesis using finish assms(2) complete_keeps_done by (auto simp: workersInv_def succeeded_def ctxDone_def length_remove1)
qed (auto simp: workersInv_def succeeded_def ctxDone_def)

abbreviation interruptedStep :: "ImagesGraph \<Rightarrow> (nat \<Rightarrow> bool) \<Rightarrow> build \<Rightarrow> build \<Rightarrow> bool" where
  "interruptedStep g failing \<equiv> sup interruption (buildStep g failing)"

inductive_cases interruptionE: "interruption b b'"

definition runs :: "ImagesGraph \<Rightarrow> (nat \<Rightarrow> bool) \<Rightarrow> int \<Rightarrow> build \<Rightarrow> bool" where
  "runs g failing n b \<longleftrightarrow> (\<exists>s. newGraphScheduler g = Inr s \<and> (interruptedStep g failing)\<^sup>*\<^sup>* (startBuild n s) b)"

lemma runs_step: "runs g failing n b \<Longrightarrow> buildStep g failing b b' \<Longrightarrow> runs g failing n b'"
  unfolding runs_def using rtranclp.rtrancl_into_rtrancl [of "interruptedStep g failing" _ b b'] by blast

lemma runs_steps:
  assumes "runs g failing n b" and "(buildStep g failing)\<^sup>*\<^sup>* b b'"
  shows "runs g failing n b'"
  using assms(2,1) by induction (auto intro: runs_step)

lemma runs_induct [consumes 1, case_names start interrupt step]:
  assumes "runs g failing n b" and "\<And>s. newGraphScheduler g = Inr s \<Longrightarrow> P (startBuild n s)"
    and "\<And>b. runs g failing n b \<Longrightarrow> P b \<Longrightarrow> P (b\<lparr>interrupted := True\<rparr>)"
    and "\<And>b b'. runs g failing n b \<Longrightarrow> buildStep g failing b b' \<Longrightarrow> P b \<Longrightarrow> P b'"
  shows "P b"
proof -
  from assms(1) obtain s where s: "newGraphScheduler g = Inr s" and r: "(interruptedStep g failing)\<^sup>*\<^sup>* (startBuild n s) b"
    by (auto simp: runs_def)
  from r show ?thesis
  proof induction
    case (step b b')
    then have "runs g failing n b" using s by (auto simp: runs_def)
    then show ?case using step(2,3) assms(3,4) by (auto elim: interruptionE)
  qed (rule assms(2) [OF s])
qed

lemma interrupt_frame [simp]:
  "buildInv g (b\<lparr>interrupted := True\<rparr>) \<longleftrightarrow> buildInv g b" "absBuild g (b\<lparr>interrupted := True\<rparr>) = absBuild g b"
  "workersInv w b \<Longrightarrow> workersInv w (b\<lparr>interrupted := True\<rparr>)"
  by (simp_all add: buildInv_def builtNodes_def absBuild_def workersInv_def succeeded_def ctxDone_def)

lemma run_inv:
  assumes "graphOk g" and "runs g failing n b"
  shows "buildInv g b \<and> workersInv (dynamicWorkers n) b"
  using assms(2)
proof (induction rule: runs_induct)
  case (start s)
  then show ?case using startBuild_inv [OF assms(1)] by (simp add: workersInv_def startBuild_def)
next
  case (step b b')
  then show ?case using buildStep_inv [OF assms(1)] buildStep_workers by blast
qed simp


text \<open>In the order in which nodes are finished, dependencies come first.\<close>

lemma built_order:
  assumes "graphOk g" and "runs g failing n b" and "built b = xs @ i # ys"
  shows "set (Dependencies g (nodes g ! i)) \<subseteq> (!) (nodes g) ` set xs"
proof -
  from assms(2) have "\<forall>xs i ys. built b = xs @ i # ys \<longrightarrow> set (Dependencies g (nodes g ! i)) \<subseteq> (!) (nodes g) ` set xs"
  proof (induction rule: runs_induct)
    case (step b b')
    have inv: "buildInv g b" using run_inv [OF assms(1) step(1)] ..
    from step(2) show ?case
    proof cases
      case (finish j s')
      have "set (Dependencies g (nodes g ! j)) \<subseteq> (!) (nodes g) ` set (built b)"
        using inv_indexes(2) [OF inv, of j] finish by (simp add: builtNodes_def)
      moreover have "xs = built b \<and> i = j \<or> (\<exists>zs. built b = xs @ i # zs)" if "built b' = xs @ i # ys" for xs i ys
        using that finish by (cases ys rule: rev_cases) auto
      ultimately show ?thesis using step(3) by blast
    qed (use step(3) in simp_all)
  qed (simp_all add: startBuild_def)
  then show ?thesis using assms(3) by blast
qed

section \<open>Properties of the scheduler\<close>

text \<open>C21: Every run of the workers is, read through its sets of started, finished and failed nodes, a run of the abstract scheduler: a
  node starts at most once, and only when all its dependencies are finished.\<close>

theorem scheduler_refines_spec:
  assumes "BuildImagesGraph images = Inr g" and "\<forall>i \<in> set images. platformOk i" and "runs g failing n b"
  shows "(specStep g)\<^sup>*\<^sup>* \<lparr>started = {}, finished = {}, gaveUp = {}\<rparr> (absBuild g b)"
proof -
  have ok: "graphOk g" using assms(1,2) by (rule graph_of_images(2))
  from assms(3) show ?thesis
  proof (induction rule: runs_induct)
    case (start s)
    show ?case by (simp add: absBuild_def startBuild_def)
  next
    case (step b b')
    then have "buildInv g b" using run_inv [OF ok] by blast
    from buildStep_refines [OF ok this step(2)] step(3) show ?case by (metis rtranclp.rtrancl_into_rtrancl)
  qed simp
qed

text \<open>C24: The completion of a node that is being built neither blocks on the channel of ready nodes nor closes \<^verbatim>\<open>done\<close> twice, and
  the channel, the counters and the number of completed nodes stay within their bounds.\<close>

theorem scheduler_within_bounds:
  assumes "graphOk g" and "runs g failing n b"
  shows "length (ready (scheduler b)) + length (building b) + completed (scheduler b) \<le> length (nodes g) \<and>
    (\<forall>x \<in> set (nodes g). 0 \<le> remainingAt (scheduler b) x \<and> remainingAt (scheduler b) x \<le> int (length (Dependencies g x))) \<and>
    (\<forall>i \<in> set (building b). \<exists>s'. complete g (nodes g ! i) (scheduler b) = Inr s')"
proof (intro conjI)
  have inv: "buildInv g b" using run_inv [OF assms] ..
  have "set (ready (scheduler b) @ building b @ built b) \<subseteq> {..<length (nodes g)}" using inv_indexes(1) [OF inv] by auto
  then have "card (set (ready (scheduler b) @ building b @ built b)) \<le> length (nodes g)" by (metis card_lessThan card_mono finite_lessThan)
  moreover have "distinct (ready (scheduler b) @ building b @ built b)" using inv_distinct [OF inv] by auto
  ultimately show "length (ready (scheduler b)) + length (building b) + completed (scheduler b) \<le> length (nodes g)"
    using inv distinct_card by (fastforce simp: buildInv_def)
  show "\<forall>x \<in> set (nodes g). 0 \<le> remainingAt (scheduler b) x \<and> remainingAt (scheduler b) x \<le> int (length (Dependencies g x))"
    using inv by (simp add: buildInv_def inStep_def left_def)
  show "\<forall>i \<in> set (building b). \<exists>s'. complete g (nodes g ! i) (scheduler b) = Inr s'"
    using finish_inv [OF assms(1) inv] by metis
qed

definition workLeft :: "ImagesGraph \<Rightarrow> build \<Rightarrow> nat" where
  "workLeft g b = 3 * (length (nodes g) - (length (building b) + length (built b) + length (failures b))) +
     3 * length (building b) + 2 * idle b + asking b"

lemma buildStep_workLeft:
  assumes "graphOk g" and "buildInv g b" and "buildStep g failing b b'"
  shows "workLeft g b' < workLeft g b"
  using assms(3)
proof cases
  case (take i)
  then have "0 < length (ready (scheduler b))" by fastforce
  have "set (ready (scheduler b) @ building b @ built b @ failures b) \<subseteq> {..<length (nodes g)}" using inv_indexes(1) [OF assms(2)] by auto
  then have "card (set (ready (scheduler b) @ building b @ built b @ failures b)) \<le> length (nodes g)"
    by (metis card_lessThan card_mono finite_lessThan)
  then have "length (building b) + length (built b) + length (failures b) < length (nodes g)"
    using distinct_card [OF inv_distinct [OF assms(2)]] \<open>0 < length (ready (scheduler b))\<close> by (simp del: length_greater_0_conv)
  then show ?thesis using take by (simp add: workLeft_def)
next
  case (finish i s')
  then obtain m where "length (building b) = Suc m" by (cases "building b") auto
  then show ?thesis using finish by (simp add: workLeft_def length_remove1)
next
  case (fail i)
  then obtain m where "length (building b) = Suc m" by (cases "building b") auto
  then show ?thesis using fail by (simp add: workLeft_def length_remove1)
qed (auto simp: workLeft_def)

text \<open>C23: A build makes at most three steps for each node and two for each worker, whether and whenever the context of the
  caller is cancelled.\<close>

theorem build_ends:
  assumes "graphOk g" and "newGraphScheduler g = Inr s" and "((interruption\<^sup>=\<^sup>= OO buildStep g failing) ^^ k) (startBuild n s) b"
  shows "k \<le> 3 * length (nodes g) + 2 * dynamicWorkers n"
proof -
  have step: "buildInv g b' \<and> workLeft g b' < workLeft g b" if "buildInv g b" "(interruption\<^sup>=\<^sup>= OO buildStep g failing) b b'" for b b'
  proof -
    from that(2) obtain c where c: "c = b \<or> c = b\<lparr>interrupted := True\<rparr>" "buildStep g failing c b'" by (auto elim: interruptionE)
    then have "buildInv g c" "workLeft g c = workLeft g b" using that(1) by (auto simp: workLeft_def)
    then show ?thesis using buildStep_inv [OF assms(1) c(2)] buildStep_workLeft [OF assms(1) _ c(2)] by simp
  qed
  have "((interruption\<^sup>=\<^sup>= OO buildStep g failing) ^^ k) (startBuild n s) b \<Longrightarrow>
      buildInv g b \<and> workLeft g b + k \<le> workLeft g (startBuild n s)" for b
  proof (induction k arbitrary: b)
    case 0
    then show ?case using startBuild_inv [OF assms(1,2)] by auto
  next
    case (Suc k)
    then obtain c where c: "((interruption\<^sup>=\<^sup>= OO buildStep g failing) ^^ k) (startBuild n s) c" "(interruption\<^sup>=\<^sup>= OO buildStep g failing) c b"
      by (metis relpowp_Suc_E)
    then show ?case using Suc.IH [OF c(1)] step [OF _ c(2)] by simp
  qed
  from this [OF assms(3)] show ?thesis by (simp add: workLeft_def startBuild_def)
qed

text \<open>A worker waits in \<^verbatim>\<open>next\<close> for good only if everything is built.\<close>

lemma waiting_built:
  assumes "graphOk g" and inv: "buildInv g b" and rest: "\<nexists>b'. buildStep g failing b b'"
    and "building b = []" and "failures b = []" and "0 < asking b"
  shows "set (built b) = {..<length (nodes g)}"
proof (rule ccontr)
  assume "set (built b) \<noteq> {..<length (nodes g)}"
  then obtain i where i: "i < length (nodes g)" "i \<notin> set (built b)" using inv_indexes(1) [OF inv] by auto
  then obtain y where y: "y \<in> set (nodes g) - builtNodes g b" "set (Dependencies g y) \<subseteq> builtNodes g b"
    using ig.some_node_is_free [OF assms(1)] builtNodes_iff [OF assms(1) inv] nth_mem by metis
  then obtain j where j: "j < length (nodes g)" "nodes g ! j = y" by (auto simp: in_set_conv_nth)
  have "ready (scheduler b) = []" using rest take [OF assms(6)] by (metis list.collapse nextTask_iff(1))
  then have "{i. i < length (nodes g) \<and> counters g (builtNodes g b) (nodes g ! i) = 0} = set (built b)"
    using inv assms(4,5) by (simp add: buildInv_def inStep_def)
  then have "j \<in> set (built b)" using j y(2) by (auto simp: left_def filter_empty_conv)
  then show False using y(1) j builtNodes_iff [OF assms(1) inv j(1)] by simp
qed

lemma run_at_rest:
  assumes "graphOk g" and "runs g failing n b" and "\<nexists>b'. buildStep g failing b b'"
  shows "idle b = 0 \<and> asking b = 0 \<and> building b = [] \<and> (failures b = [] \<and> \<not> interrupted b \<longrightarrow> succeeded b) \<and>
    (succeeded b \<longrightarrow> set (built b) = {..<length (nodes g)} \<and> distinct (built b) \<and> doneClosed (scheduler b))"
proof -
  have inv: "buildInv g b" and workers: "workersInv (dynamicWorkers n) b" using run_inv [OF assms(1,2)] by auto
  have idle: "idle b = 0" using assms(3) ask cancelled by blast
  have none: "building b = []"
  proof (rule ccontr)
    assume "building b \<noteq> []"
    then obtain i where i: "i \<in> set (building b)" by fastforce
    then show False using assms(3) fail finish finish_inv [OF assms(1) inv i] by metis
  qed
  have d: "distinct (built b)" using inv_distinct [OF inv] by simp
  have sub: "set (built b) \<subseteq> {..<length (nodes g)}" using inv_indexes(1) [OF inv] by auto
  have asking: "asking b = 0"
  proof (rule ccontr)
    assume a: "asking b \<noteq> 0"
    then have "\<not> ctxDone b" "\<not> doneClosed (scheduler b)"
      using assms(3) quit [of b g failing] leave [of b g failing] unfolding nextTask_iff by blast+
    then have "set (built b) = {..<length (nodes g)}" using waiting_built [OF assms(1) inv assms(3) none] a by (simp add: ctxDone_def)
    then have "length (built b) = length (nodes g)" using d distinct_card [of "built b"] by simp
    then show False using inv \<open>\<not> doneClosed (scheduler b)\<close> by (simp add: buildInv_def)
  qed
  have closed: "doneClosed (scheduler b)" if "succeeded b"
  proof -
    have "0 < dynamicWorkers n" by (simp add: dynamicWorkers_def)
    then show ?thesis using that workers none idle asking by (simp add: workersInv_def)
  qed
  have "set (built b) = {..<length (nodes g)}" if "succeeded b"
  proof -
    have "length (built b) = length (nodes g)" using closed [OF that] inv by (simp add: buildInv_def)
    then show ?thesis using d sub by (intro card_subset_eq) (auto simp: distinct_card)
  qed
  moreover have "succeeded b" if "failures b = []" "\<not> interrupted b" using that workers by (simp add: workersInv_def succeeded_def ctxDone_def)
  ultimately show ?thesis using idle none asking d closed by blast
qed


text \<open>C22: When no worker can move any more, all workers have returned. If none of them has returned an error, which is so whenever
  no build has failed and the context of the caller has not been cancelled, every node has been built exactly once; so an interrupted
  build with a node left out always reports an error.\<close>

theorem build_leaves_nothing:
  assumes "graphOk g" and "runs g failing n b" and "\<nexists>b'. buildStep g failing b b'"
  shows "idle b = 0 \<and> asking b = 0 \<and> building b = [] \<and> (failures b = [] \<and> \<not> interrupted b \<longrightarrow> succeeded b) \<and>
    (succeeded b \<longrightarrow> set (built b) = {..<length (nodes g)} \<and> distinct (built b) \<and> doneClosed (scheduler b))"
  using assms by (rule run_at_rest)

section \<open>Instances\<close>

definition sampleScheduler :: graphScheduler where
  "sampleScheduler = \<lparr>remaining = [(sampleImages ! 2, 0), (sampleImages ! 1, 1), (sampleImages ! 0, 2)], ready = [0],
     doneClosed = False, completed = 0\<rparr>"

lemma sampleScheduler_new: "newGraphScheduler sampleGraph = Inr sampleScheduler"
  by code_simp

lemma sampleGraph_ok: "graphOk sampleGraph"
  using sampleGraph_built sampleImages_ok by (rule graph_of_images(2))

text \<open>Two workers, of which the first has taken the image without dependencies.\<close>

definition sampleBuild :: build where
  "sampleBuild = \<lparr>scheduler = sampleScheduler\<lparr>ready := []\<rparr>, idle = 1, asking = 0, building = [0], built = [], failures = [],
     quits = 0, interrupted = False\<rparr>"

lemma sampleBuild_steps: "(buildStep sampleGraph failing ^^ 2) (startBuild 2 sampleScheduler) sampleBuild"
proof -
  let ?b = "startBuild 2 sampleScheduler"
  let ?b' = "?b\<lparr>idle := idle ?b - 1, asking := asking ?b + 1\<rparr>"
  have "buildStep sampleGraph failing ?b ?b'" by (rule ask) (simp_all add: startBuild_def dynamicWorkers_def ctxDone_def)
  moreover have "buildStep sampleGraph failing ?b' sampleBuild"
  proof -
    have "buildStep sampleGraph failing ?b'
      (?b'\<lparr>scheduler := (scheduler ?b')\<lparr>ready := tl (ready (scheduler ?b'))\<rparr>, asking := asking ?b' - 1, building := building ?b' @ [0]\<rparr>)"
      by (rule take) (simp_all add: startBuild_def sampleScheduler_def)
    then show ?thesis by (simp add: sampleBuild_def startBuild_def dynamicWorkers_def sampleScheduler_def)
  qed
  ultimately show ?thesis by (auto simp: numeral_2_eq_2 relcompp_apply)
qed

lemma sampleBuild_runs: "runs sampleGraph failing 2 sampleBuild"
proof -
  have "runs sampleGraph failing 2 (startBuild 2 sampleScheduler)" using sampleScheduler_new by (auto simp: runs_def)
  then show ?thesis using relpowp_imp_rtranclp [OF sampleBuild_steps] by (rule runs_steps)
qed

theorem scheduler_refines_spec_witness:
  "(specStep sampleGraph)\<^sup>*\<^sup>* \<lparr>started = {}, finished = {}, gaveUp = {}\<rparr> \<lparr>started = {sampleImages ! 2}, finished = {}, gaveUp = {}\<rparr>"
  using scheduler_refines_spec [OF sampleGraph_built sampleImages_ok sampleBuild_runs]
  by (simp add: absBuild_def sampleBuild_def sampleGraph_def)

theorem scheduler_within_bounds_witness:
  "\<exists>s'. complete sampleGraph (sampleImages ! 2) (scheduler sampleBuild) = Inr s'"
  using scheduler_within_bounds [OF sampleGraph_ok sampleBuild_runs] by (auto simp: sampleBuild_def sampleGraph_def)

theorem build_ends_witness: "2 \<le> 3 * length (nodes sampleGraph) + 2 * dynamicWorkers 2"
proof (rule build_ends [OF sampleGraph_ok sampleScheduler_new])
  have "(interruption\<^sup>=\<^sup>= OO buildStep sampleGraph failing) b b'" if "buildStep sampleGraph failing b b'" for failing b b'
    using that by auto
  then show "((interruption\<^sup>=\<^sup>= OO buildStep sampleGraph (\<lambda>_. False)) ^^ 2) (startBuild 2 sampleScheduler) sampleBuild"
    using relpowp_mono [OF _ sampleBuild_steps] by blast
qed

text \<open>Every state of a run leads to a state of rest, without an interruption.\<close>

lemma buildStep_interrupted: "buildStep g failing b b' \<Longrightarrow> interrupted b' = interrupted b"
  by (auto elim: buildStepE)

lemma run_rests:
  assumes "graphOk g" and "runs g failing n b"
  shows "\<exists>b'. runs g failing n b' \<and> (\<nexists>b''. buildStep g failing b' b'') \<and> interrupted b' = interrupted b"
  using assms(2)
proof (induction "workLeft g b" arbitrary: b rule: less_induct)
  case less
  show ?case
  proof (cases "\<exists>b'. buildStep g failing b b'")
    case True
    then obtain b' where b': "buildStep g failing b b'" ..
    have "workLeft g b' < workLeft g b" using buildStep_workLeft [OF assms(1) _ b'] run_inv [OF assms(1) less.prems] by blast
    then show ?thesis using less.hyps runs_step [OF less.prems b'] buildStep_interrupted [OF b'] by metis
  next
    case False
    then show ?thesis using less.prems by blast
  qed
qed

lemma failures_failing: "runs g failing n b \<Longrightarrow> \<forall>i \<in> set (failures b). failing i"
proof (induction rule: runs_induct)
  case (step b b')
  from step(2) show ?case using step(3) by cases auto
qed (simp_all add: startBuild_def)

lemma at_rest_exists:
  assumes "graphOk g"
  obtains b where "runs g (\<lambda>_. False) n b" and "\<nexists>b'. buildStep g (\<lambda>_. False) b b'" and "succeeded b" and "\<not> interrupted b"
proof -
  obtain s where "newGraphScheduler g = Inr s" using newGraphScheduler_ok [OF assms] by blast
  then have "runs g (\<lambda>_. False) n (startBuild n s)" by (auto simp: runs_def)
  from run_rests [OF assms this] obtain b where b: "runs g (\<lambda>_. False) n b" "\<nexists>b'. buildStep g (\<lambda>_. False) b b'" "\<not> interrupted b"
    by (auto simp: startBuild_def)
  have "failures b = []" using failures_failing [OF b(1)] by (cases "failures b") auto
  then show ?thesis using that b run_at_rest [OF assms b(1,2)] by blast
qed

theorem build_leaves_nothing_witness:
  "\<exists>b. runs sampleGraph (\<lambda>_. False) 2 b \<and> set (built b) = {..<length (nodes sampleGraph)} \<and> doneClosed (scheduler b)"
proof -
  obtain b where b: "runs sampleGraph (\<lambda>_. False) 2 b" "\<nexists>b'. buildStep sampleGraph (\<lambda>_. False) b b'" "succeeded b"
    using at_rest_exists [OF sampleGraph_ok] by blast
  then show ?thesis using build_leaves_nothing [OF sampleGraph_ok b(1,2)] by blast
qed

end
