(* ===== verification/BuildPlan.thy ===== *)
theory BuildPlan
  imports Scheduler
begin

text \<open>
  Which images of the graph are processed: \<^verbatim>\<open>markUnneededImages\<close> and its caller in \<^verbatim>\<open>pkg/build/build_phase.go\<close>, and the
  parallel processing of \<^verbatim>\<open>doImagesInParallel\<close> in \<^verbatim>\<open>pkg/build/conveyor.go\<close>, which builds a second graph over the images
  that are not skipped and hands it to the scheduler. The fields of an image that the pass reads and writes are a store
  over the images of the graph. Log output is left out.
\<close>

section \<open>Images that no image being built needs\<close>

record imageFields =
  IsFinal :: bool
  AnchorReused :: bool
  Skipped :: bool

type_synonym imageStore = "BuildImage \<Rightarrow> imageFields"

definition flagAt :: "('k, bool) goMap \<Rightarrow> 'k \<Rightarrow> bool" where
  "flagAt m k = (case map_of m k of None \<Rightarrow> False | Some b \<Rightarrow> b)"

lemma flagAt_simps [simp]:
  "flagAt [] k = False" "flagAt (AList.update k b m) k' = (if k' = k then b else flagAt m k')"
  by (simp_all add: flagAt_def)

text \<open>The first loop: the decision for an image by itself.\<close>

definition decideImage ::
  "ImagesGraph \<Rightarrow> imageStore \<Rightarrow> (BuildImage, bool) goMap \<Rightarrow> (BuildImage \<Rightarrow> bool) \<Rightarrow>
     (string, bool) goMap \<Rightarrow> BuildImage \<Rightarrow> (string, bool) goMap" where
  "decideImage g st anchorExists isRequested skipped img =
     (if IsFinal (st img) \<or> length (Dependents g img) = 0 \<or> flagAt anchorExists img \<or> isRequested img
      then AList.update (imgName img) False skipped
      else if map_of skipped (imgName img) = None then AList.update (imgName img) True skipped
      else skipped)"

text \<open>The second loop: one pass over the nodes, and the passes until nothing changes.\<close>

definition keepNeeded ::
  "ImagesGraph \<Rightarrow> (BuildImage, bool) goMap \<Rightarrow> (string, bool) goMap \<times> bool \<Rightarrow> BuildImage \<Rightarrow> (string, bool) goMap \<times> bool" where
  "keepNeeded g anchorExists acc img =
     (case acc of (skipped, changed) \<Rightarrow>
        if \<not> flagAt skipped (imgName img) then (skipped, changed)
        else if list_ex (\<lambda>dependent. \<not> (flagAt skipped (imgName dependent) \<or> flagAt anchorExists dependent)) (Dependents g img)
        then (AList.update (imgName img) False skipped, True)
        else (skipped, changed))"

definition passOver ::
  "ImagesGraph \<Rightarrow> (BuildImage, bool) goMap \<Rightarrow> (string, bool) goMap \<Rightarrow> (string, bool) goMap \<times> bool" where
  "passOver g anchorExists skipped = foldl (keepNeeded g anchorExists) (skipped, False) (nodes g)"

text \<open>The names of the graph that are marked as skipped.\<close>

definition skippedNames :: "ImagesGraph \<Rightarrow> (string, bool) goMap \<Rightarrow> string set" where
  "skippedNames g skipped = {n \<in> imgName ` set (nodes g). flagAt skipped n}"

lemma finite_skippedNames [simp]: "finite (skippedNames g skipped)"
  by (simp add: skippedNames_def)

lemma passes_shrink:
  assumes "set xs \<subseteq> set (nodes g)" and "foldl (keepNeeded g anc) (skipped, changed) xs = (skipped', changed')"
  shows "skippedNames g skipped' \<subseteq> skippedNames g skipped \<and>
    (changed' \<and> \<not> changed \<longrightarrow> skippedNames g skipped' \<subset> skippedNames g skipped)"
  using assms
proof (induction xs arbitrary: skipped changed)
  case (Cons x xs)
  obtain sk ch where k: "keepNeeded g anc (skipped, changed) x = (sk, ch)" by (cases "keepNeeded g anc (skipped, changed) x")
  then have "(sk, ch) = (skipped, changed) \<or>
      flagAt skipped (imgName x) \<and> sk = AList.update (imgName x) False skipped \<and> ch"
    by (auto simp: keepNeeded_def split: if_splits)
  moreover have "skippedNames g (AList.update (imgName x) False skipped) \<subset> skippedNames g skipped" if "flagAt skipped (imgName x)"
    using that Cons.prems(1) by (auto simp: skippedNames_def)
  ultimately show ?case using Cons.IH [of sk ch] Cons.prems k by auto
qed simp

lemma passOver_shrinks:
  assumes "passOver g anc skipped = (skipped', True)"
  shows "card (skippedNames g skipped') < card (skippedNames g skipped)"
  using passes_shrink [of "nodes g" g anc skipped False skipped' True] assms by (simp add: passOver_def psubset_card_mono)

function resolveSkipped ::
  "ImagesGraph \<Rightarrow> (BuildImage, bool) goMap \<Rightarrow> (string, bool) goMap \<Rightarrow> (string, bool) goMap" where
  "resolveSkipped g anchorExists skipped =
     (case passOver g anchorExists skipped of (skipped', changed) \<Rightarrow>
        if changed then resolveSkipped g anchorExists skipped' else skipped')"
  by auto
termination
  by (relation "measure (\<lambda>(g, anc, skipped). card (skippedNames g skipped))") (auto dest: passOver_shrinks [OF sym])

declare resolveSkipped.simps [simp del]

definition markUnneededImages ::
  "ImagesGraph \<Rightarrow> (BuildImage, bool) goMap \<Rightarrow> (BuildImage \<Rightarrow> bool) \<Rightarrow> imageStore \<Rightarrow> imageStore" where
  "markUnneededImages g anchorExists isRequested st =
     (let skipped = resolveSkipped g anchorExists (foldl (decideImage g st anchorExists isRequested) [] (nodes g))
      in foldl (\<lambda>st img. st(img := (st img)\<lparr>Skipped := flagAt skipped (imgName img)\<rparr>)) st (nodes g))"

definition skipUnneededImages ::
  "bool \<Rightarrow> ImagesGraph \<Rightarrow> (BuildImage \<Rightarrow> bool) \<Rightarrow> imageStore \<Rightarrow> imageStore" where
  "skipUnneededImages enableSbom g isRequested st =
     (if enableSbom then st
      else markUnneededImages g (foldl (\<lambda>m img. AList.update img (AnchorReused (st img)) m) [] (nodes g)) isRequested st)"

definition isRequestedImage :: "string list \<Rightarrow> string list \<Rightarrow> BuildImage \<Rightarrow> bool" where
  "isRequestedImage imageNameList introspectTargets img =
     (imgName img \<in> set imageNameList \<or> list_ex (\<lambda>target. target = ''*'' \<or> target = imgName img) introspectTargets)"

section \<open>The images that are processed\<close>

definition parallelWorkers :: "int \<Rightarrow> nat \<Rightarrow> int" where
  "parallelWorkers parallelTasksLimit n =
     (if parallelTasksLimit \<le> 0 \<or> parallelTasksLimit > int n then int n else parallelTasksLimit)"

definition processedGraph :: "ImagesGraph \<Rightarrow> imageStore \<Rightarrow> graphError + ImagesGraph" where
  "processedGraph g st = BuildImagesGraph (filter (\<lambda>img. \<not> Skipped (st img)) (nodes g))"


section \<open>The greatest set of names that may be skipped\<close>

text \<open>
  A name may be skipped on its own account when no image of the name is final, requested, reused or without dependents; a
  set of names can be skipped together when moreover every dependent of their images is reused or in the set.
\<close>

definition unneededAlone :: "ImagesGraph \<Rightarrow> imageStore \<Rightarrow> (BuildImage \<Rightarrow> bool) \<Rightarrow> (BuildImage \<Rightarrow> bool) \<Rightarrow> string \<Rightarrow> bool" where
  "unneededAlone g st reused isRequested n \<longleftrightarrow> (\<forall>img \<in> set (nodes g). imgName img = n \<longrightarrow>
     \<not> IsFinal (st img) \<and> Dependents g img \<noteq> [] \<and> \<not> reused img \<and> \<not> isRequested img)"

definition closedSkip :: "ImagesGraph \<Rightarrow> (BuildImage \<Rightarrow> bool) \<Rightarrow> string set \<Rightarrow> bool" where
  "closedSkip g reused S \<longleftrightarrow> (\<forall>img \<in> set (nodes g). imgName img \<in> S \<longrightarrow>
     (\<forall>d \<in> set (Dependents g img). imgName d \<in> S \<or> reused d))"

lemma decide_loop:
  assumes "\<And>m x. f m x = (if K x then AList.update (h x) False m else if map_of m (h x) = None then AList.update (h x) True m else m)"
  shows "(map_of (foldl f [] xs) n = None \<longleftrightarrow> n \<notin> h ` set xs) \<and>
    (flagAt (foldl f [] xs) n \<longleftrightarrow> n \<in> h ` set xs \<and> (\<forall>x \<in> set xs. h x = n \<longrightarrow> \<not> K x))"
proof (induction xs rule: rev_induct)
  case (snoc x xs)
  show ?case
  proof (cases "h x = n")
    case True
    let ?m = "foldl f [] xs"
    consider "K x" | "\<not> K x" "n \<in> h ` set xs" | "\<not> K x" "n \<notin> h ` set xs" by blast
    then show ?thesis
    proof cases
      case 1
      then show ?thesis using True by (auto simp: assms [of ?m x])
    next
      case 2
      then have "f ?m x = ?m" using snoc True by (auto simp: assms [of ?m x])
      then show ?thesis using 2 snoc by auto
    next
      case 3
      then have "f ?m x = AList.update n True ?m" using snoc True by (simp add: assms [of ?m x])
      moreover have "\<forall>y \<in> set xs. h y \<noteq> n" using 3 by blast
      ultimately show ?thesis using 3 True by simp
    qed
  next
    case False
    then have "map_of (f m x) n = map_of m n" "flagAt (f m x) n = flagAt m n" for m by (auto simp: assms)
    then show ?thesis using snoc False by auto
  qed
qed (simp add: flagAt_def)

lemma decide_spec:
  "{n. flagAt (foldl (decideImage g st anc req) [] (nodes g)) n} =
     {n \<in> imgName ` set (nodes g). unneededAlone g st (flagAt anc) req n}"
proof -
  have "decideImage g st anc req m x =
      (if IsFinal (st x) \<or> Dependents g x = [] \<or> flagAt anc x \<or> req x then AList.update (imgName x) False m
       else if map_of m (imgName x) = None then AList.update (imgName x) True m else m)" for m x
    by (simp add: decideImage_def)
  from decide_loop [of "decideImage g st anc req", OF this, of "nodes g"] show ?thesis by (auto simp: unneededAlone_def)
qed

lemma keepNeeded_cases:
  "keepNeeded g anc (sk, ch) x = (sk, ch) \<and>
      (flagAt sk (imgName x) \<longrightarrow> (\<forall>d \<in> set (Dependents g x). flagAt sk (imgName d) \<or> flagAt anc d)) \<or>
   keepNeeded g anc (sk, ch) x = (AList.update (imgName x) False sk, True) \<and> flagAt sk (imgName x) \<and>
      (\<exists>d \<in> set (Dependents g x). \<not> flagAt sk (imgName d) \<and> \<not> flagAt anc d)"
  by (auto simp: keepNeeded_def list_ex_iff)

text \<open>A pass keeps every closed set.\<close>

lemma keepNeeded_closed:
  assumes "closedSkip g (flagAt anc) S" and "\<forall>n \<in> S. flagAt (fst acc) n" and "img \<in> set (nodes g)"
  shows "\<forall>n \<in> S. flagAt (fst (keepNeeded g anc acc img)) n"
  using assms by (cases acc) (auto simp: keepNeeded_def closedSkip_def list_ex_iff)

lemma pass_closed:
  assumes "closedSkip g (flagAt anc) S" and "set xs \<subseteq> set (nodes g)" and "\<forall>n \<in> S. flagAt (fst acc) n"
  shows "\<forall>n \<in> S. flagAt (fst (foldl (keepNeeded g anc) acc xs)) n"
  using assms(2,3)
proof (induction xs arbitrary: acc)
  case (Cons x xs)
  from Cons.IH [OF _ keepNeeded_closed [OF assms(1) Cons.prems(2)]] Cons.prems(1) show ?case by simp
qed simp

text \<open>A pass that changes nothing has found a closed set.\<close>

lemma pass_unchanged:
  assumes "foldl (keepNeeded g anc) (skipped, False) xs = (skipped', False)"
  shows "skipped' = skipped \<and> (\<forall>img \<in> set xs. flagAt skipped (imgName img) \<longrightarrow>
    (\<forall>d \<in> set (Dependents g img). flagAt skipped (imgName d) \<or> flagAt anc d))"
proof -
  have changed: "snd (foldl (keepNeeded g anc) (sk, True) ys)" for sk ys
  proof (induction ys arbitrary: sk)
    case (Cons y ys)
    obtain sk' where "keepNeeded g anc (sk, True) y = (sk', True)" using keepNeeded_cases [of g anc sk True y] by blast
    then show ?case using Cons.IH by simp
  qed simp
  show ?thesis
    using assms
  proof (induction xs)
    case (Cons x xs)
    have "keepNeeded g anc (skipped, False) x = (skipped, False)"
    proof (rule ccontr)
      assume "keepNeeded g anc (skipped, False) x \<noteq> (skipped, False)"
      then obtain sk where "keepNeeded g anc (skipped, False) x = (sk, True)" using keepNeeded_cases [of g anc skipped False x] by blast
      then show False using changed [of sk xs] Cons.prems by simp
    qed
    then show ?case using Cons keepNeeded_cases [of g anc skipped False x] by auto
  qed simp
qed

lemma resolve_spec:
  shows "closedSkip g (flagAt anc) {n. flagAt (resolveSkipped g anc skipped) n}"
    and "flagAt (resolveSkipped g anc skipped) n \<Longrightarrow> flagAt skipped n"
    and "closedSkip g (flagAt anc) S \<Longrightarrow> \<forall>n \<in> S. flagAt skipped n \<Longrightarrow> \<forall>n \<in> S. flagAt (resolveSkipped g anc skipped) n"
proof (induction g anc skipped rule: resolveSkipped.induct)
  case (1 g anc skipped)
  obtain sk ch where p: "passOver g anc skipped = (sk, ch)" by (cases "passOver g anc skipped")
  have le: "flagAt sk m \<Longrightarrow> flagAt skipped m" for m
  proof -
    have "flagAt (fst (foldl (keepNeeded g anc) (k, c) xs)) m \<Longrightarrow> flagAt k m" for k c xs
    proof (induction xs arbitrary: k c)
      case (Cons x xs)
      obtain k' c' where k': "keepNeeded g anc (k, c) x = (k', c')" by (cases "keepNeeded g anc (k, c) x")
      then have "flagAt k' m" using Cons by simp
      then show ?case using keepNeeded_cases [of g anc k c x] k' by (auto split: if_splits)
    qed simp
    from this [of skipped False "nodes g"] show "flagAt sk m \<Longrightarrow> flagAt skipped m" using p by (simp add: passOver_def)
  qed
  have step: "resolveSkipped g anc skipped = (if ch then resolveSkipped g anc sk else sk)"
    using p by (simp add: resolveSkipped.simps [of g anc skipped])
  have same: "\<not> ch \<Longrightarrow> closedSkip g (flagAt anc) {n. flagAt sk n}"
    using pass_unchanged [of g anc skipped "nodes g" sk] p by (simp add: passOver_def closedSkip_def)
  {
    case 1
    show ?case using step same "1.IH"(1) [OF p [symmetric]] by simp
  next
    case 2
    then show ?case using step le "1.IH"(2) [OF p [symmetric]] by (auto split: if_splits)
  next
    case 3
    then have "\<forall>n \<in> S. flagAt sk n" using pass_closed [of g anc S "nodes g" "(skipped, False)"] p by (simp add: passOver_def)
    then show ?case using step 3 "1.IH"(3) [OF p [symmetric]] by simp
  }
qed


section \<open>The outcome of the marking\<close>

lemma closedSkip_cong:
  assumes "\<And>img d. img \<in> set (nodes g) \<Longrightarrow> d \<in> set (Dependents g img) \<Longrightarrow> r d = r' d"
  shows "closedSkip g r S = closedSkip g r' S"
  using assms by (auto simp: closedSkip_def)

lemma flagAt_collect: "flagAt (foldl (\<lambda>m x. AList.update x (f x) m) m xs) y = (if y \<in> set xs then f y else flagAt m y)"
  by (induction xs arbitrary: m) auto

lemma store_marks:
  "foldl (\<lambda>st x. st(x := (st x)\<lparr>Skipped := f x\<rparr>)) st xs y = (if y \<in> set xs then (st y)\<lparr>Skipped := f y\<rparr> else st y)"
  by (induction xs arbitrary: st) auto

text \<open>The names skipped, as the union of all the sets that can be skipped together.\<close>

definition maySkip :: "ImagesGraph \<Rightarrow> imageStore \<Rightarrow> (BuildImage \<Rightarrow> bool) \<Rightarrow> string set \<Rightarrow> bool" where
  "maySkip g st isRequested S \<longleftrightarrow> S \<subseteq> {n \<in> imgName ` set (nodes g). unneededAlone g st (\<lambda>i. AnchorReused (st i)) isRequested n} \<and>
     closedSkip g (\<lambda>i. AnchorReused (st i)) S"

lemma unneededAlone_cong:
  assumes "\<And>x. x \<in> set (nodes g) \<Longrightarrow> r x = r' x"
  shows "unneededAlone g st r req n = unneededAlone g st r' req n"
  using assms by (auto simp: unneededAlone_def)

lemma skip_spec:
  assumes "graphOk g"
  obtains N where "maySkip g st req N" and "\<And>S. maySkip g st req S \<Longrightarrow> S \<subseteq> N"
    and "\<And>x. x \<in> set (nodes g) \<Longrightarrow> skipUnneededImages False g req st x = (st x)\<lparr>Skipped := imgName x \<in> N\<rparr>"
proof -
  define anc where "anc = foldl (\<lambda>m img. AList.update img (AnchorReused (st img)) m) [] (nodes g)"
  define sk where "sk = foldl (decideImage g st anc req) [] (nodes g)"
  let ?N = "{n. flagAt (resolveSkipped g anc sk) n}"
  have anc: "x \<in> set (nodes g) \<Longrightarrow> flagAt anc x = AnchorReused (st x)" for x by (simp add: anc_def flagAt_collect)
  have cl: "closedSkip g (flagAt anc) S = closedSkip g (\<lambda>i. AnchorReused (st i)) S" for S
    using anc ig.dependents_inside [OF assms] by (intro closedSkip_cong) blast
  have al: "{n. flagAt sk n} = {n \<in> imgName ` set (nodes g). unneededAlone g st (\<lambda>i. AnchorReused (st i)) req n}"
    unfolding sk_def decide_spec using unneededAlone_cong [of g "flagAt anc" "\<lambda>i. AnchorReused (st i)"] anc by simp
  have "?N \<subseteq> {n. flagAt sk n}" using resolve_spec(2) by blast
  then have "maySkip g st req ?N" using resolve_spec(1) [of g anc sk] cl al unfolding maySkip_def by blast
  moreover have "S \<subseteq> ?N" if "maySkip g st req S" for S
  proof -
    have "\<forall>n \<in> S. flagAt sk n" using that al unfolding maySkip_def by blast
    then show ?thesis using resolve_spec(3) [of g anc S sk] that cl unfolding maySkip_def by blast
  qed
  moreover have "x \<in> set (nodes g) \<Longrightarrow> skipUnneededImages False g req st x = (st x)\<lparr>Skipped := imgName x \<in> ?N\<rparr>" for x
    by (simp add: skipUnneededImages_def markUnneededImages_def Let_def store_marks flip: anc_def sk_def)
  ultimately show ?thesis by (rule that)
qed

section \<open>The graph of the processed images\<close>

definition sameForName :: "ImagesGraph \<Rightarrow> imageStore \<Rightarrow> bool" where
  "sameForName g st \<longleftrightarrow> (\<forall>x \<in> set (nodes g). \<forall>y \<in> set (nodes g). imgName x = imgName y \<longrightarrow> Skipped (st x) = Skipped (st y))"

lemma dependsOn_mono: "V \<subseteq> W \<Longrightarrow> dependsOn V \<subseteq> dependsOn W"
  by (auto simp: dependsOn_def)

lemma processedGraph_ok:
  assumes "BuildImagesGraph images = Inr g" and "\<forall>i \<in> set images. platformOk i" and "sameForName g st"
  obtains g' where "processedGraph g st = Inr g'" and "graphOk g'" and "set (nodes g') = {x \<in> set (nodes g). \<not> Skipped (st x)}"
    and "\<And>x. x \<in> set (nodes g') \<Longrightarrow> set (Dependencies g' x) = {d \<in> set (Dependencies g x). \<not> Skipped (st d)}"
proof -
  let ?imgs = "filter (\<lambda>img. \<not> Skipped (st img)) (nodes g)"
  note g = graph_of_images [OF assms(1,2)] and checked = graph_checked [OF assms(1,2)]
  have sub: "set ?imgs \<subseteq> set images" using g(1) by auto
  then have plat: "\<forall>i \<in> set ?imgs. platformOk i" using assms(2) by blast
  have acyc: "(x, x) \<notin> (dependsOn (set ?imgs))\<^sup>+" for x
    using acyclic_images [OF assms(1,2)] trancl_mono [OF _ dependsOn_mono [OF sub], of "(x, x)"] by (auto simp: acyclic_def)
  have noerr: "BuildImagesGraph ?imgs \<noteq> Inl e" for e
  proof
    assume "BuildImagesGraph ?imgs = Inl e"
    note err = BuildImagesGraph_spec [OF plat, unfolded this sum.case]
    show False
    proof (cases e)
      case (NameConflict n p)
      then obtain i j where "i \<in> set ?imgs" "j \<in> set ?imgs" "i \<noteq> j" "imgName i = imgName j" "TargetPlatform i = TargetPlatform j"
        using err by auto
      then show ?thesis using checked(1) [of i j] sub by blast
    next
      case (NotBuiltForPlatform i p n ps)
      have "\<exists>x \<in> set ?imgs. TargetPlatform x = p \<and> n \<in> set (dependencyNames x) \<and> n \<in> imgName ` set ?imgs \<and>
          \<not> (\<exists>d \<in> set ?imgs. imgName d = n \<and> TargetPlatform d = p)"
        using err unfolding NotBuiltForPlatform graphError.case by blast
      then obtain x y where x: "x \<in> set ?imgs" "TargetPlatform x = p" "n \<in> set (dependencyNames x)" and y: "y \<in> set ?imgs" "imgName y = n"
        and no: "\<not> (\<exists>d \<in> set ?imgs. imgName d = n \<and> TargetPlatform d = p)" by blast
      then obtain d where d: "d \<in> set images" "imgName d = n" "TargetPlatform d = p" using checked(2) [of x n] sub by blast
      have "Skipped (st d) = Skipped (st y)"
        using assms(3) [unfolded sameForName_def, rule_format, of d y] d(1,2) y g(1) by simp
      then have "d \<in> set ?imgs" using d(1) y(1) g(1) by simp
      then show ?thesis using no d by blast
    next
      case (DependencyCycle n)
      then show ?thesis using err acyc by auto
    next
      case OutOfFuel
      then show ?thesis using err by simp
    qed
  qed
  then obtain g' where g': "BuildImagesGraph ?imgs = Inr g'" by (cases "BuildImagesGraph ?imgs") auto
  note h = graph_of_images [OF g' plat]
  have "set (Dependencies g' x) = {d \<in> set (Dependencies g x). \<not> Skipped (st d)}" if "x \<in> set (nodes g')" for x
    using that h(1) h(3) [of x] g(3) [of x] g(1) by (auto simp: dependsOn_def)
  then show ?thesis using that g' h by (auto simp: processedGraph_def)
qed


text \<open>A run of \<^verbatim>\<open>doImagesInParallel\<close>: the scheduler over the graph of the images that are not skipped.\<close>

definition processes :: "ImagesGraph \<Rightarrow> imageStore \<Rightarrow> int \<Rightarrow> (nat \<Rightarrow> bool) \<Rightarrow> ImagesGraph \<Rightarrow> build \<Rightarrow> bool" where
  "processes g st parallelTasksLimit failing g' b \<longleftrightarrow> processedGraph g st = Inr g' \<and>
     runs g' failing (parallelWorkers parallelTasksLimit (length (nodes g'))) b"

lemma skip_sameForName:
  assumes "graphOk g" and "\<forall>x. \<not> Skipped (st x)"
  shows "sameForName g (skipUnneededImages sbom g req st)"
proof (cases sbom)
  case True
  then show ?thesis using assms(2) by (simp add: skipUnneededImages_def sameForName_def)
next
  case False
  from skip_spec [OF assms(1), of st req] obtain N where
    "\<And>x. x \<in> set (nodes g) \<Longrightarrow> skipUnneededImages False g req st x = (st x)\<lparr>Skipped := imgName x \<in> N\<rparr>" by metis
  then show ?thesis using False by (simp add: sameForName_def)
qed

lemma skipped_unneeded:
  assumes "graphOk g" and "\<forall>x. \<not> Skipped (st x)" and "x \<in> set (nodes g)" and "Skipped (skipUnneededImages sbom g req st x)"
  shows "\<not> IsFinal (st x) \<and> \<not> req x \<and> \<not> AnchorReused (st x) \<and>
    (\<forall>y \<in> set (nodes g). x \<in> set (Dependencies g y) \<longrightarrow> Skipped (skipUnneededImages sbom g req st y) \<or> AnchorReused (st y))"
proof -
  have sb: "\<not> sbom" using assms(2,4) by (auto simp: skipUnneededImages_def)
  from skip_spec [OF assms(1), of st req] obtain N where N: "maySkip g st req N"
    "\<And>x. x \<in> set (nodes g) \<Longrightarrow> skipUnneededImages False g req st x = (st x)\<lparr>Skipped := imgName x \<in> N\<rparr>" by metis
  then have n: "imgName x \<in> N" using assms(3,4) sb by simp
  have "y \<in> set (Dependents g x) \<longleftrightarrow> x \<in> set (Dependencies g y)" for y by (rule ig.dependents_iff [OF assms(1)])
  moreover have "\<forall>d \<in> set (Dependents g x). imgName d \<in> N \<or> AnchorReused (st d)"
    using N(1) n assms(3) unfolding maySkip_def closedSkip_def by blast
  moreover have "unneededAlone g st (\<lambda>i. AnchorReused (st i)) req (imgName x)" using N(1) n unfolding maySkip_def by blast
  ultimately show ?thesis using N(2) assms(3) sb by (auto simp: unneededAlone_def)
qed

section \<open>Properties of the build plan\<close>

text \<open>C34: Unless SBOMs are enabled, the images skipped are those with a name in the greatest set that can be skipped together: none
  of its images is final, requested, without dependents or reused by its content anchor, and every dependent of one of its images is
  reused or has a name in the set, too. With SBOMs enabled no image is marked at all.\<close>

theorem skips_greatest_set:
  assumes "graphOk g" and "x \<in> set (nodes g)"
  shows "Skipped (skipUnneededImages enableSbom g isRequested st x) \<longleftrightarrow>
    (if enableSbom then Skipped (st x) else imgName x \<in> \<Union>{S. maySkip g st isRequested S})"
proof (cases enableSbom)
  case False
  from skip_spec [OF assms(1), of st isRequested] obtain N where "maySkip g st isRequested N"
    "\<And>S. maySkip g st isRequested S \<Longrightarrow> S \<subseteq> N"
    "\<And>x. x \<in> set (nodes g) \<Longrightarrow> skipUnneededImages False g isRequested st x = (st x)\<lparr>Skipped := imgName x \<in> N\<rparr>" by metis
  then show ?thesis using False assms(2) by auto
qed (simp add: skipUnneededImages_def)

text \<open>C12: The second graph, over the images that are not skipped, is built without error, and when the run of its scheduler has come to
  rest without an error of a worker, exactly these images have been built, each once; an image that is not reused has all the dependencies it
  has in the first graph built before it.\<close>

theorem processed_images_built:
  assumes "BuildImagesGraph images = Inr g" and "\<forall>i \<in> set images. platformOk i" and "\<forall>x. \<not> Skipped (st x)"
    and "st' = skipUnneededImages sbom g isRequested st"
  shows "\<exists>g'. processedGraph g st' = Inr g' \<and>
    (\<forall>limit failing b. processes g st' limit failing g' b \<longrightarrow> (\<nexists>b'. buildStep g' failing b b') \<longrightarrow> succeeded b \<longrightarrow>
      distinct (map ((!) (nodes g')) (built b)) \<and> set (map ((!) (nodes g')) (built b)) = {x \<in> set images. \<not> Skipped (st' x)} \<and>
      (\<forall>xs i ys. built b = xs @ i # ys \<longrightarrow> \<not> AnchorReused (st (nodes g' ! i)) \<longrightarrow>
        set (Dependencies g (nodes g' ! i)) \<subseteq> (!) (nodes g') ` set xs))"
proof -
  note g = graph_of_images [OF assms(1,2)]
  have "sameForName g st'" using skip_sameForName [OF g(2) assms(3)] assms(4) by simp
  from processedGraph_ok [OF assms(1,2) this] obtain g' where g': "processedGraph g st' = Inr g'" and ok: "graphOk g'"
    and n: "set (nodes g') = {x \<in> set (nodes g). \<not> Skipped (st' x)}"
    and d: "\<And>x. x \<in> set (nodes g') \<Longrightarrow> set (Dependencies g' x) = {d \<in> set (Dependencies g x). \<not> Skipped (st' d)}" by blast
  have main: "distinct (map ((!) (nodes g')) (built b)) \<and> set (map ((!) (nodes g')) (built b)) = {x \<in> set images. \<not> Skipped (st' x)} \<and>
      (\<forall>xs i ys. built b = xs @ i # ys \<longrightarrow> \<not> AnchorReused (st (nodes g' ! i)) \<longrightarrow>
        set (Dependencies g (nodes g' ! i)) \<subseteq> (!) (nodes g') ` set xs)"
    if p: "processes g st' limit failing g' b" and rest: "\<nexists>b'. buildStep g' failing b b'" and f: "succeeded b" for limit failing b
  proof -
    obtain k where r: "runs g' failing k b" using p by (auto simp: processes_def)
    have b: "set (built b) = {..<length (nodes g')}" "distinct (built b)" using run_at_rest [OF ok r rest] f by auto
    have inj: "inj_on ((!) (nodes g')) {..<length (nodes g')}" using ig.distinct_nodes [OF ok] by (auto simp: inj_on_def nth_eq_iff_index_eq)
    have img: "(!) (nodes g') ` {..<length (nodes g')} = set (nodes g')" by (metis atLeast_upt map_nth set_map set_upt)
    have "set (Dependencies g (nodes g' ! i)) \<subseteq> (!) (nodes g') ` set xs"
      if "built b = xs @ i # ys" "\<not> AnchorReused (st (nodes g' ! i))" for xs i ys
    proof -
      have "i < length (nodes g')" using b(1) that(1) by auto
      then have x: "nodes g' ! i \<in> set (nodes g')" by simp
      then have x': "nodes g' ! i \<in> set (nodes g)" "\<not> Skipped (st' (nodes g' ! i))" using n by auto
      have "\<not> Skipped (st' y)" if "y \<in> set (Dependencies g (nodes g' ! i))" for y
        using skipped_unneeded [OF g(2) assms(3), of y sbom isRequested] that x' \<open>\<not> AnchorReused (st (nodes g' ! i))\<close>
          ig.deps_inside [OF g(2)] assms(4) by blast
      then show ?thesis using built_order [OF ok r that(1)] d [OF x] by auto
    qed
    then show ?thesis using b inj img n g(1) by (simp add: distinct_map)
  qed
  then show ?thesis using g' by blast
qed


section \<open>Instances\<close>

text \<open>The final image is reused, so that neither of the images it is built from is needed.\<close>

definition sampleStore :: imageStore where
  "sampleStore img = \<lparr>IsFinal = imgName img = ''app'', AnchorReused = imgName img = ''app'', Skipped = False\<rparr>"

theorem skips_greatest_set_witness: "''base'' \<in> \<Union>{S. maySkip sampleGraph sampleStore (\<lambda>_. False) S}"
proof -
  have "sampleImages ! 2 \<in> set (nodes sampleGraph)" by (simp add: sampleGraph_def)
  from skips_greatest_set [OF sampleGraph_ok this, of False "\<lambda>_. False" sampleStore]
  have "imgName (sampleImages ! 2) \<in> \<Union>{S. maySkip sampleGraph sampleStore (\<lambda>_. False) S} \<longleftrightarrow>
      Skipped (skipUnneededImages False sampleGraph (\<lambda>_. False) sampleStore (sampleImages ! 2))" by simp
  moreover have "Skipped (skipUnneededImages False sampleGraph (\<lambda>_. False) sampleStore (sampleImages ! 2))" by code_simp
  moreover have "imgName (sampleImages ! 2) = ''base''" by code_simp
  ultimately show ?thesis by simp
qed

theorem processed_images_built_witness:
  "\<exists>g' b. processedGraph sampleGraph (skipUnneededImages True sampleGraph (\<lambda>_. False) sampleStore) = Inr g' \<and>
    processes sampleGraph (skipUnneededImages True sampleGraph (\<lambda>_. False) sampleStore) 2 (\<lambda>_. False) g' b \<and>
    set (map ((!) (nodes g')) (built b)) = set sampleImages"
proof -
  let ?st = "skipUnneededImages True sampleGraph (\<lambda>_. False) sampleStore"
  have none: "\<forall>x. \<not> Skipped (sampleStore x)" by (simp add: sampleStore_def)
  note main = processed_images_built [OF sampleGraph_built sampleImages_ok none refl, of True "\<lambda>_. False"]
  then obtain g' where g': "processedGraph sampleGraph ?st = Inr g'" by blast
  have "graphOk g'"
    using processedGraph_ok [OF sampleGraph_built sampleImages_ok skip_sameForName [OF sampleGraph_ok none]] g' by (metis sum.inject(2))
  from at_rest_exists [OF this] obtain b where b: "processes sampleGraph ?st 2 (\<lambda>_. False) g' b"
    "\<nexists>b'. buildStep g' (\<lambda>_. False) b b'" "succeeded b" using g' unfolding processes_def by blast
  have "{x \<in> set sampleImages. \<not> Skipped (?st x)} = set sampleImages"
    using none by (auto simp: skipUnneededImages_def)
  then show ?thesis using main g' b by (metis sum.inject(2))
qed

end
