(* ===== verification/Anchors.thy ===== *)
theory Anchors
  imports Scheduler Image
begin

text \<open>
  The content-based digests of the images, \<^verbatim>\<open>pkg/build/build_phase.go\<close>: the inputs of a digest, its calculation, and
  the pass over the graph that calculates the digests of all images whose inputs are known before the build, one after
  another or under the scheduler. The hash function, the parser of references and what the stages contribute are
  parameters; the digests already calculated are a store over the images. Log output is left out.
\<close>

section \<open>The inputs of a digest\<close>

record DependencyImport =
  impType :: string
  TargetBuildArg :: string
  TargetEnv :: string

record Dependency =
  From :: string
  Imports :: "DependencyImport list"

datatype anchorError =
    DependencyWithoutDigest string
  | StageError string string
  | BuildContextError string
  | UnexpectedImportType string

record stageInfo =
  stgName :: string
  IsContentAnchor :: bool
  stgUsesBuildContext :: bool
  GetContentDependencies :: "string + string"

text \<open>What an image brings to its digest: the configured dependencies are those of the section the image comes from.\<close>

record imageInputs =
  RequiresResolvedDependencyInputs :: bool
  baseImage :: "string option"
  dockerfileDependencies :: "Dependency list option"
  stapelDependencies :: "Dependency list option"
  stages :: "stageInfo list"
  buildContext :: "string + unit"

record parsedReference =
  refName :: "string option"
  refTag :: "string option"
  refDigest :: "string option"

record anchorEnv =
  inputsOf :: "BuildImage \<Rightarrow> imageInputs"
  GetImageContentTagName :: "string \<Rightarrow> string \<Rightarrow> string"
  GetImageContentTagDigest :: "string \<Rightarrow> string \<Rightarrow> string"
  referenceParse :: "string \<Rightarrow> parsedReference option"
  mapOrder :: "(string \<times> string) list \<Rightarrow> (string \<times> string) list"
  Sha3_224Hash :: "string list \<Rightarrow> string"
  BuildCacheVersion :: string
  InHouseEnabled :: bool
  BsignEnabled :: bool
  PGPPrivateKeyFingerprint :: string
  signerCert :: string
  signerChain :: string
  EnableSbom :: bool

definition orEmpty :: "string option \<Rightarrow> string" where
  "orEmpty s = (case s of None \<Rightarrow> [] | Some s \<Rightarrow> s)"

definition ParseRef :: "(string \<Rightarrow> parsedReference option) \<Rightarrow> string \<Rightarrow> string \<times> string \<times> string" where
  "ParseRef parse ref =
     (case parse ref of
        None \<Rightarrow> let (repository, tag) = SplitRepositoryAndTagLegacy ref in (repository, tag, [])
      | Some r \<Rightarrow> (orEmpty (refName r), orEmpty (refTag r), orEmpty (refDigest r)))"

definition ParseRepositoryAndTag :: "(string \<Rightarrow> parsedReference option) \<Rightarrow> string \<Rightarrow> string \<times> string" where
  "ParseRepositoryAndTag parse ref = (let (repository, tag, _) = ParseRef parse ref in (repository, tag))"

definition ResolveDependenciesArgsForContent :: "Dependency list \<Rightarrow> (string, string) goMap" where
  "ResolveDependenciesArgsForContent dependencies =
     foldl (\<lambda>m dep. foldl (\<lambda>m imp.
         AList.update (TargetBuildArg imp) (''werf-dependency-'' @ From dep @ ''-'' @ impType imp) m) m (Imports dep))
       [] dependencies"

definition configuredDependencies :: "imageInputs \<Rightarrow> Dependency list" where
  "configuredDependencies i =
     (case dockerfileDependencies i of
        Some ds \<Rightarrow> ds
      | None \<Rightarrow> (case stapelDependencies i of Some ds \<Rightarrow> ds | None \<Rightarrow> []))"

text \<open>The digests of the dependency images.\<close>

type_synonym digestStore = "BuildImage \<Rightarrow> string"

definition dependencyInput :: "digestStore \<Rightarrow> string list \<Rightarrow> BuildImage \<Rightarrow> anchorError + string list" where
  "dependencyInput st inputs dep =
     (if st dep = [] then Inl (DependencyWithoutDigest (imgName dep))
      else Inr (inputs @ [''dependency:'' @ imgName dep @ '':'' @ st dep]))"

definition resolvedInput :: "anchorEnv \<Rightarrow> string \<Rightarrow> Dependency \<Rightarrow> string list \<Rightarrow> DependencyImport \<Rightarrow> anchorError + string list" where
  "resolvedInput env platform dependency inputs imp =
     (let imageName = GetImageContentTagName env platform (From dependency);
          imageDigest = GetImageContentTagDigest env platform (From dependency);
          (imageRepo, imageTag) = ParseRepositoryAndTag (referenceParse env) imageName;
          add = (\<lambda>value. Inr (inputs @ [''dependencyValue:'' @ From dependency @ '':'' @ impType imp @ '':'' @
                   TargetBuildArg imp @ '':'' @ TargetEnv imp @ '':'' @ value]))
      in if impType imp = ''ImageName'' then add imageName
         else if impType imp = ''ImageTag'' then add imageTag
         else if impType imp = ''ImageRepo'' then add imageRepo
         else if impType imp = ''ImageDigest'' then add imageDigest
         else Inl (UnexpectedImportType (impType imp)))"

definition stageInput :: "string list \<Rightarrow> stageInfo \<Rightarrow> anchorError + string list" where
  "stageInput inputs stg =
     (case GetContentDependencies stg of
        Inl err \<Rightarrow> Inl (StageError (stgName stg) err)
      | Inr ds \<Rightarrow> Inr (if ds = [] then inputs else inputs @ [stgName stg @ '':'' @ ds]))"

definition collectHolisticInputs ::
  "anchorEnv \<Rightarrow> digestStore \<Rightarrow> BuildImage \<Rightarrow> BuildImage list \<Rightarrow> bool \<Rightarrow> anchorError + string list" where
  "collectHolisticInputs env st img dependencies includeResolved =
     (let i = inputsOf env img in
      bindR (foldR (dependencyInput st) [] dependencies) (\<lambda>ds.
      let ds = ds @ (case baseImage i of None \<Rightarrow> [] | Some b \<Rightarrow> [''baseImage:'' @ b]);
          ds = ds @ (case dockerfileDependencies i of None \<Rightarrow> []
             | Some cs \<Rightarrow> map (\<lambda>(arg, value). ''dependencyArg:'' @ arg @ '':'' @ value) (mapOrder env (ResolveDependenciesArgsForContent cs)))
      in bindR (if includeResolved
           then foldR (\<lambda>ds dependency. foldR (resolvedInput env (TargetPlatform img) dependency) ds (Imports dependency)) ds (configuredDependencies i)
           else Inr ds) (\<lambda>ds.
         foldR stageInput (sort ds) (stages i))))"

section \<open>The digest\<close>

record calculateDigestOptions =
  optTargetPlatform :: string
  optBuildCacheVersion :: string
  BaseImage :: string
  Anchor :: bool
  HolisticInputs :: "string list"

definition signingArgs :: "anchorEnv \<Rightarrow> string list" where
  "signingArgs env =
     (if InHouseEnabled env \<or> BsignEnabled env
      then (if BsignEnabled env then [PGPPrivateKeyFingerprint env] else []) @
           (if InHouseEnabled env then [signerCert env, signerChain env] else [])
      else [])"

definition digestArgs ::
  "anchorEnv \<Rightarrow> string \<Rightarrow> string \<Rightarrow> (string \<times> (string + string)) option \<Rightarrow> calculateDigestOptions \<Rightarrow> anchorError + string list" where
  "digestArgs env stageName stageDependencies prevNonEmptyStage opts =
     (if Anchor opts then
        Inr ([optBuildCacheVersion opts, optTargetPlatform opts] @ filter (\<lambda>s. s \<noteq> []) (HolisticInputs opts) @ signingArgs env @
             (if EnableSbom env then [''sbom_enabled''] else []))
      else
        bindR (case prevNonEmptyStage of
             None \<Rightarrow> Inr []
           | Some (prevDigest, Inl err) \<Rightarrow> Inl (StageError stageName err)
           | Some (prevDigest, Inr prevStageDependencies) \<Rightarrow> Inr [prevDigest, prevStageDependencies]) (\<lambda>prev.
        Inr ((if optTargetPlatform opts \<noteq> [] then [optTargetPlatform opts] else []) @
             [optBuildCacheVersion opts, stageName, stageDependencies] @ signingArgs env @ prev @
             (if BaseImage opts \<noteq> [] then [BaseImage opts] else []) @
             (if EnableSbom env then [''sbom_enabled''] else []))))"

definition calculateDigest ::
  "anchorEnv \<Rightarrow> string \<Rightarrow> string \<Rightarrow> (string \<times> (string + string)) option \<Rightarrow> calculateDigestOptions \<Rightarrow> anchorError + string" where
  "calculateDigest env stageName stageDependencies prevNonEmptyStage opts =
     bindR (digestArgs env stageName stageDependencies prevNonEmptyStage opts) (\<lambda>args. Inr (Sha3_224Hash env args))"

definition UsesBuildContext :: "imageInputs \<Rightarrow> bool" where
  "UsesBuildContext i = list_ex stgUsesBuildContext (stages i)"

text \<open>The new digest of an image: unchanged when the image has no content anchor.\<close>

definition anchorDigestOf :: "anchorEnv \<Rightarrow> digestStore \<Rightarrow> BuildImage \<Rightarrow> BuildImage list \<Rightarrow> bool \<Rightarrow> anchorError + string" where
  "anchorDigestOf env st img dependencies includeResolved =
     (let i = inputsOf env img in
      if stages i = [] then Inr (st img)
      else if \<not> IsContentAnchor (last (stages i)) then Inr (st img)
      else
        bindR (if UsesBuildContext i then (case buildContext i of Inl e \<Rightarrow> Inl (BuildContextError e) | Inr _ \<Rightarrow> Inr ()) else Inr ()) (\<lambda>_.
        bindR (collectHolisticInputs env st img dependencies includeResolved) (\<lambda>holisticInputs.
        calculateDigest env (stgName (last (stages i))) [] None
          \<lparr>optTargetPlatform = TargetPlatform img, optBuildCacheVersion = BuildCacheVersion env, BaseImage = [], Anchor = True,
           HolisticInputs = holisticInputs\<rparr>)))"

definition calculateAnchorDigest ::
  "anchorEnv \<Rightarrow> digestStore \<Rightarrow> BuildImage \<Rightarrow> BuildImage list \<Rightarrow> bool \<Rightarrow> anchorError + digestStore" where
  "calculateAnchorDigest env st img dependencies includeResolved =
     bindR (anchorDigestOf env st img dependencies includeResolved) (\<lambda>digest. Inr (st(img := digest)))"

definition canCalculateAnchorDigest :: "anchorEnv \<Rightarrow> digestStore \<Rightarrow> BuildImage \<Rightarrow> BuildImage list \<Rightarrow> bool" where
  "canCalculateAnchorDigest env st img dependencies \<longleftrightarrow>
     \<not> RequiresResolvedDependencyInputs (inputsOf env img) \<and> \<not> list_ex (\<lambda>dep. st dep = []) dependencies"

section \<open>The pass over the graph\<close>

definition calculate :: "anchorEnv \<Rightarrow> ImagesGraph \<Rightarrow> digestStore \<Rightarrow> BuildImage \<Rightarrow> anchorError + digestStore" where
  "calculate env g st img =
     (let dependencies = Dependencies g img
      in if \<not> canCalculateAnchorDigest env st img dependencies then Inr st
         else calculateAnchorDigest env st img dependencies False)"

definition prepassWorkers :: "bool \<Rightarrow> int \<Rightarrow> nat \<Rightarrow> int" where
  "prepassWorkers parallelBuild parallelTasksLimit numberOfTasks =
     (if \<not> parallelBuild \<or> numberOfTasks \<le> 1 then 1
      else if parallelTasksLimit \<le> 0 \<or> parallelTasksLimit > int numberOfTasks then int numberOfTasks
      else parallelTasksLimit)"

text \<open>
  With one worker the pass goes over the nodes in order; with more, the images are calculated in the order in which the
  scheduler's run finishes them.
\<close>

definition sequentialPrepass :: "anchorEnv \<Rightarrow> ImagesGraph \<Rightarrow> digestStore \<Rightarrow> anchorError + digestStore" where
  "sequentialPrepass env g st = foldR (calculate env g) st (nodes g)"

definition parallelPrepass :: "anchorEnv \<Rightarrow> ImagesGraph \<Rightarrow> digestStore \<Rightarrow> build \<Rightarrow> anchorError + digestStore" where
  "parallelPrepass env g st b = foldR (calculate env g) st (map ((!) (nodes g)) (built b))"


section \<open>Evaluation along a dependency order\<close>

text \<open>
  A value for each node, calculated from the values of its dependencies and its own old value. Any two orders in which
  dependencies come first give the same result.
\<close>

definition evaluateAt :: "(BuildImage \<Rightarrow> (BuildImage \<Rightarrow> 'v) \<Rightarrow> 'e + 'v) \<Rightarrow> (BuildImage \<Rightarrow> 'v) \<Rightarrow> BuildImage \<Rightarrow> 'e + (BuildImage \<Rightarrow> 'v)" where
  "evaluateAt val st x = bindR (val x st) (\<lambda>v. Inr (st(x := v)))"

lemma evaluate_snoc:
  "foldR (evaluateAt val) st (xs @ [y]) = bindR (foldR (evaluateAt val) st xs) (\<lambda>s. bindR (val y s) (\<lambda>v. Inr (s(y := v))))"
proof -
  have "foldR (evaluateAt val) s [y] = bindR (val y s) (\<lambda>v. Inr (s(y := v)))" for s
    by (cases "val y s") (simp_all add: evaluateAt_def)
  then show ?thesis by (simp only: foldR_append)
qed

locale dependency_evaluation =
  fixes dep :: "BuildImage \<Rightarrow> BuildImage list"
    and val :: "BuildImage \<Rightarrow> (BuildImage \<Rightarrow> 'v) \<Rightarrow> 'e + 'v"
  assumes val_local: "(\<And>d. d \<in> insert x (set (dep x)) \<Longrightarrow> st d = st' d) \<Longrightarrow> val x st = val x st'"
begin

lemma evaluation_solves:
  assumes "depsFirst dep xs" and "distinct xs" and "foldR (evaluateAt val) st xs = Inr st'"
  shows "(\<forall>x. x \<notin> set xs \<longrightarrow> st' x = st x) \<and> (\<forall>x \<in> set xs. val x (st'(x := st x)) = Inr (st' x))"
  using assms
proof (induction xs arbitrary: st' rule: rev_induct)
  case (snoc y xs)
  from snoc.prems(1) have first: "depsFirst dep xs" "set (dep y) \<subseteq> set xs" by (simp_all add: depsFirst_snoc)
  from snoc.prems(3) obtain s1 v where s1: "foldR (evaluateAt val) st xs = Inr s1" "val y s1 = Inr v" "st' = s1(y := v)"
    unfolding evaluate_snoc bindR_Inr by auto
  have "distinct xs" using snoc.prems(2) by simp
  from snoc.IH [OF first(1) this s1(1)]
  have ih: "\<forall>x. x \<notin> set xs \<longrightarrow> s1 x = st x" "\<forall>x \<in> set xs. val x (s1(x := st x)) = Inr (s1 x)" by blast+
  have y: "y \<notin> set xs" using snoc.prems(2) by simp
  have "val y (st'(y := st y)) = Inr (st' y)"
  proof -
    have "st'(y := st y) = s1" using s1(3) ih(1) y by auto
    then show ?thesis using s1(2,3) by simp
  qed
  moreover have "val x (st'(x := st x)) = Inr (st' x)" if x: "x \<in> set xs" for x
  proof -
    have "y \<notin> insert x (set (dep x))" using depsFirst_inside [OF first(1) x] x y by auto
    then have "val x (st'(x := st x)) = val x (s1(x := st x))" using s1(3) by (intro val_local) auto
    then show ?thesis using ih(2) x y s1(3) by auto
  qed
  moreover have "st' x = st x" if "x \<notin> set (xs @ [y])" for x using ih(1) s1(3) that by simp
  ultimately show ?case by (metis Un_iff empty_iff empty_set insert_iff list.simps(15) set_append)
qed simp

lemma solution_evaluates:
  assumes "depsFirst dep ys" and "distinct ys" and "\<And>x. x \<in> set ys \<Longrightarrow> val x (st'(x := st x)) = Inr (st' x)"
  shows "foldR (evaluateAt val) st ys = Inr (\<lambda>x. if x \<in> set ys then st' x else st x)"
  using assms
proof (induction ys rule: rev_induct)
  case (snoc y ys)
  let ?s = "\<lambda>x. if x \<in> set ys then st' x else st x"
  from snoc.prems(1) have first: "depsFirst dep ys" "set (dep y) \<subseteq> set ys" by (simp_all add: depsFirst_snoc)
  have "foldR (evaluateAt val) st ys = Inr ?s" using snoc first(1) by simp
  moreover have "val y ?s = val y (st'(y := st y))" using first(2) snoc.prems(2) by (intro val_local) auto
  moreover have "?s(y := st' y) = (\<lambda>x. if x \<in> set (ys @ [y]) then st' x else st x)" by auto
  ultimately show ?case using snoc.prems(3) [of y] by (simp add: evaluate_snoc)
qed simp

lemma order_irrelevant:
  assumes "depsFirst dep xs" and "distinct xs" and "depsFirst dep ys" and "distinct ys" and "set ys = set xs"
    and "foldR (evaluateAt val) st xs = Inr st'"
  shows "foldR (evaluateAt val) st ys = Inr st'"
proof -
  note sol = evaluation_solves [OF assms(1,2,6)]
  then have "foldR (evaluateAt val) st ys = Inr (\<lambda>x. if x \<in> set ys then st' x else st x)"
    using solution_evaluates [OF assms(3,4)] assms(5) by blast
  moreover have "(\<lambda>x. if x \<in> set ys then st' x else st x) = st'" using sol assms(5) by auto
  ultimately show ?thesis by simp
qed

end

section \<open>The digests depend on the dependencies only\<close>

definition digestAt :: "anchorEnv \<Rightarrow> ImagesGraph \<Rightarrow> BuildImage \<Rightarrow> digestStore \<Rightarrow> anchorError + string" where
  "digestAt env g x st =
     (if canCalculateAnchorDigest env st x (Dependencies g x) then anchorDigestOf env st x (Dependencies g x) False else Inr (st x))"

lemma calculate_evaluates: "calculate env g = evaluateAt (digestAt env g)"
  by (intro ext) (auto simp: calculate_def evaluateAt_def digestAt_def calculateAnchorDigest_def Let_def)

lemma foldR_cong: "(\<And>s x. x \<in> set xs \<Longrightarrow> f s x = f' s x) \<Longrightarrow> foldR f s xs = foldR f' s xs"
proof (induction xs arbitrary: s)
  case (Cons x xs)
  then show ?case by (auto split: sum.splits)
qed simp

interpretation anchors: dependency_evaluation "Dependencies g" "digestAt env g" for g env
proof
  fix x :: BuildImage and st st' :: digestStore
  assume same: "\<And>d. d \<in> insert x (set (Dependencies g x)) \<Longrightarrow> st d = st' d"
  have "foldR (dependencyInput st) [] (Dependencies g x) = foldR (dependencyInput st') [] (Dependencies g x)"
    using same by (intro foldR_cong) (simp add: dependencyInput_def)
  then have "anchorDigestOf env st x (Dependencies g x) False = anchorDigestOf env st' x (Dependencies g x) False"
    using same [of x] by (simp add: anchorDigestOf_def collectHolisticInputs_def Let_def)
  moreover have "canCalculateAnchorDigest env st x (Dependencies g x) = canCalculateAnchorDigest env st' x (Dependencies g x)"
    using same by (auto simp: canCalculateAnchorDigest_def list_ex_iff)
  ultimately show "digestAt env g x st = digestAt env g x st'" using same [of x] by (simp add: digestAt_def)
qed


section \<open>The inputs as a list\<close>

lemma dependencyInputs_eq:
  "foldR (dependencyInput st) inputs ds =
     (case filter (\<lambda>d. st d = []) ds of
        d # _ \<Rightarrow> Inl (DependencyWithoutDigest (imgName d))
      | [] \<Rightarrow> Inr (inputs @ map (\<lambda>d. ''dependency:'' @ imgName d @ '':'' @ st d) ds))"
proof (induction ds arbitrary: inputs)
  case (Cons d ds)
  then show ?case by (simp add: dependencyInput_def split: list.splits)
qed simp

lemma sort_mset: "mset xs = mset ys \<Longrightarrow> sort xs = sort (ys :: string list)"
  by (metis sorted_list_of_multiset_mset)

lemma stageInputs_prefix:
  "foldR stageInput inputs ss = Inr r \<Longrightarrow>
   \<exists>t. r = inputs @ t \<and> [] \<notin> set t \<and> (\<forall>inputs'. foldR stageInput inputs' ss = Inr (inputs' @ t))"
proof (induction ss arbitrary: inputs)
  case (Cons x xs)
  then obtain ds where ds: "GetContentDependencies x = Inr ds" by (auto simp: stageInput_def split: sum.splits)
  define u where "u = (if ds = [] then [] else [stgName x @ '':'' @ ds])"
  have u: "stageInput i x = Inr (i @ u)" for i using ds by (simp add: stageInput_def u_def)
  from Cons.prems u have "foldR stageInput (inputs @ u) xs = Inr r" by simp
  from Cons.IH [OF this] obtain t where t: "r = (inputs @ u) @ t" "[] \<notin> set t" "\<forall>i. foldR stageInput i xs = Inr (i @ t)" by blast
  moreover have "[] \<notin> set u" by (simp add: u_def)
  ultimately show ?case using u by (intro exI [of _ "u @ t"]) simp
qed simp

definition fixedInputs :: "anchorEnv \<Rightarrow> BuildImage \<Rightarrow> string list" where
  "fixedInputs env img =
     (case baseImage (inputsOf env img) of None \<Rightarrow> [] | Some b \<Rightarrow> [''baseImage:'' @ b]) @
     (case dockerfileDependencies (inputsOf env img) of None \<Rightarrow> []
        | Some cs \<Rightarrow> map (\<lambda>(arg, value). ''dependencyArg:'' @ arg @ '':'' @ value) (mapOrder env (ResolveDependenciesArgsForContent cs)))"

lemma collect_eq:
  assumes "\<forall>d \<in> set ds. st d \<noteq> []"
  shows "collectHolisticInputs env st img ds False =
    foldR stageInput (sort (map (\<lambda>d. ''dependency:'' @ imgName d @ '':'' @ st d) ds @ fixedInputs env img)) (stages (inputsOf env img))"
proof -
  have "filter (\<lambda>d. st d = []) ds = []" using assms by (simp add: filter_empty_conv)
  then show ?thesis by (simp add: collectHolisticInputs_def Let_def dependencyInputs_eq fixedInputs_def)
qed

lemma collect_digests:
  assumes "collectHolisticInputs env st img ds False = Inr r"
  shows "\<forall>d \<in> set ds. st d \<noteq> []"
proof (rule ccontr)
  assume "\<not> ?thesis"
  then have "filter (\<lambda>d. st d = []) ds \<noteq> []" by (auto simp: filter_empty_conv)
  then show False using assms by (auto simp: collectHolisticInputs_def Let_def dependencyInputs_eq split: list.splits)
qed

section \<open>Properties of the digests\<close>

text \<open>C20: Whatever order the workers finish in, when no worker returns an error the parallel pass gives every image the digest that the sequential pass gives it.\<close>

theorem prepass_schedule_independent:
  assumes "graphOk g" and "runs g failing n b" and "\<nexists>b'. buildStep g failing b b'" and "succeeded b"
  shows "parallelPrepass env g st b = Inr st' \<longleftrightarrow> sequentialPrepass env g st = Inr st'"
proof -
  let ?xs = "map ((!) (nodes g)) (built b)"
  have b: "set (built b) = {..<length (nodes g)}" "distinct (built b)" using run_at_rest [OF assms(1-3)] assms(4) by auto
  have nodes: "(!) (nodes g) ` {..<length (nodes g)} = set (nodes g)" by (metis atLeast_upt map_nth set_map set_upt)
  have xs: "distinct ?xs" "set ?xs = set (nodes g)"
    using b nodes ig.distinct_nodes [OF assms(1)] by (auto simp: distinct_map inj_on_def nth_eq_iff_index_eq)
  have "set (Dependencies g x) \<subseteq> set us" if split: "?xs = us @ x # vs" for us x vs
  proof -
    from split obtain us' i vs' where "built b = us' @ i # vs'" "us = map ((!) (nodes g)) us'" "x = nodes g ! i"
      by (auto simp: map_eq_append_conv)
    then show ?thesis using built_order [OF assms(1,2)] by simp
  qed
  then have first: "depsFirst (Dependencies g) ?xs" by (simp add: depsFirst_def)
  have "depsFirst (Dependencies g) (nodes g)" "distinct (nodes g)" using assms(1) by (simp_all add: graphOk_def)
  then show ?thesis
    using anchors.order_irrelevant [of g ?xs "nodes g" env st st'] anchors.order_irrelevant [of g "nodes g" ?xs env st st'] first xs
    unfolding parallelPrepass_def sequentialPrepass_def calculate_evaluates by blast
qed

text \<open>The inputs of a digest depend neither on the order in which the dependencies are listed nor on the iteration order of the
  map of build arguments.\<close>

theorem inputs_order_independent:
  assumes "collectHolisticInputs env st img ds False = Inr r" and "mset ds' = mset ds" and "is_perm (mapOrder env)" and "is_perm p"
  shows "collectHolisticInputs (env\<lparr>mapOrder := p\<rparr>) st img ds' False = Inr r"
proof -
  let ?f = "\<lambda>d. ''dependency:'' @ imgName d @ '':'' @ st d"
  have ok: "\<forall>d \<in> set ds. st d \<noteq> []" using assms(1) by (rule collect_digests)
  then have ok': "\<forall>d \<in> set ds'. st d \<noteq> []" using mset_eq_setD [OF assms(2)] by simp
  have "mset (map ?f ds') = mset (map ?f ds)" using assms(2) by simp
  moreover have "mset (fixedInputs (env\<lparr>mapOrder := p\<rparr>) img) = mset (fixedInputs env img)"
    using assms(3,4) by (auto simp: fixedInputs_def is_perm_def split: option.splits)
  ultimately have "mset (map ?f ds' @ fixedInputs (env\<lparr>mapOrder := p\<rparr>) img) = mset (map ?f ds @ fixedInputs env img)"
    by (simp only: mset_append)
  then have "sort (map ?f ds' @ fixedInputs (env\<lparr>mapOrder := p\<rparr>) img) = sort (map ?f ds @ fixedInputs env img)"
    by (rule sort_mset)
  then show ?thesis using assms(1) unfolding collect_eq [OF ok] collect_eq [OF ok'] by simp
qed


lemma labelled_digest_inj:
  assumes "n @ '':'' @ d = n' @ '':'' @ d'" and "CHR '':'' \<notin> set d" and "CHR '':'' \<notin> set d'"
  shows "n = n' \<and> d = d'"
proof -
  have "rev d @ CHR '':'' # rev n = rev d' @ CHR '':'' # rev n'" using arg_cong [OF assms(1), of rev] by simp
  then show ?thesis using append_sep_inj [of "CHR '':''" "rev d" "rev d'" "rev n" "rev n'"] assms(2,3) by simp
qed

text \<open>A content-based digest tracks the digests of the dependencies: when the arguments of the hash function are the same for two
  stores of digests, every dependency has the same digest in both.\<close>

theorem digest_tracks_dependencies:
  assumes "collectHolisticInputs env st img ds False = Inr r" and "collectHolisticInputs env st' img ds False = Inr r'"
    and "digestArgs env anchor [] None (opts\<lparr>Anchor := True, HolisticInputs := r\<rparr>) =
      digestArgs env anchor [] None (opts\<lparr>Anchor := True, HolisticInputs := r'\<rparr>)"
    and "distinct (map imgName ds)" and "\<forall>d \<in> set ds. CHR '':'' \<notin> set (st d) \<and> CHR '':'' \<notin> set (st' d)" and "d \<in> set ds"
  shows "st d = st' d"
proof -
  let ?f = "\<lambda>st d. ''dependency:'' @ imgName d @ '':'' @ st d" and ?F = "fixedInputs env img"
  note ok = collect_digests [OF assms(1)] and ok' = collect_digests [OF assms(2)]
  obtain t where t: "r = sort (map (?f st) ds @ ?F) @ t" "[] \<notin> set t" and t': "r' = sort (map (?f st') ds @ ?F) @ t"
    using stageInputs_prefix [OF assms(1) [unfolded collect_eq [OF ok]]] assms(2) [unfolded collect_eq [OF ok']] by auto
  have "[] \<notin> set ?F" by (auto simp: fixedInputs_def split: option.splits)
  then have "[] \<notin> set r" "[] \<notin> set r'" unfolding t(1) t' using t(2) by auto
  moreover have "filter (\<lambda>s. s \<noteq> []) xs = xs" if "[] \<notin> set xs" for xs :: "string list" using that by (auto simp: filter_id_conv)
  ultimately have "r = r'" using assms(3) by (simp add: digestArgs_def)
  then have "sort (map (?f st) ds @ ?F) = sort (map (?f st') ds @ ?F)" using t(1) t' by simp
  from arg_cong [OF this, of mset] have "mset (map (?f st) ds) = mset (map (?f st') ds)"
    by (simp only: mset_sort mset_append add_right_cancel)
  from mset_eq_setD [OF this] have "?f st d \<in> ?f st' ` set ds" using assms(6) unfolding set_map by blast
  then obtain e where e: "e \<in> set ds" "imgName d @ '':'' @ st d = imgName e @ '':'' @ st' e" by auto
  then have "imgName d = imgName e \<and> st d = st' e" using assms(5,6) by (intro labelled_digest_inj) auto
  then show ?thesis using assms(4,6) e(1) by (metis distinct_map inj_on_def)
qed


section \<open>Instances\<close>

definition sampleEnv :: anchorEnv where
  "sampleEnv = \<lparr>inputsOf = (\<lambda>img. \<lparr>RequiresResolvedDependencyInputs = False, baseImage = None, dockerfileDependencies = None,
       stapelDependencies = None,
       stages = [\<lparr>stgName = ''setup'', IsContentAnchor = True, stgUsesBuildContext = False, GetContentDependencies = Inr (imgName img)\<rparr>],
       buildContext = Inr ()\<rparr>),
     GetImageContentTagName = (\<lambda>_ _. []), GetImageContentTagDigest = (\<lambda>_ _. []), referenceParse = (\<lambda>_. None), mapOrder = rev,
     Sha3_224Hash = concat, BuildCacheVersion = ''1.2'', InHouseEnabled = False, BsignEnabled = False, PGPPrivateKeyFingerprint = [],
     signerCert = [], signerChain = [], EnableSbom = False\<rparr>"

theorem prepass_schedule_independent_witness:
  "\<exists>b st'. runs sampleGraph (\<lambda>_. False) 2 b \<and> parallelPrepass sampleEnv sampleGraph (\<lambda>_. []) b = Inr st' \<and>
    st' (sampleImages ! 1) = ''1.2linux/amd64dependency:base:1.2linux/amd64setup:basesetup:lib''"
proof -
  obtain b where b: "runs sampleGraph (\<lambda>_. False) 2 b" "\<nexists>b'. buildStep sampleGraph (\<lambda>_. False) b b'" "succeeded b"
    using at_rest_exists [OF sampleGraph_ok] by blast
  have "map_sum id (\<lambda>st. st (sampleImages ! 1)) (sequentialPrepass sampleEnv sampleGraph (\<lambda>_. [])) =
      Inr ''1.2linux/amd64dependency:base:1.2linux/amd64setup:basesetup:lib''" by code_simp
  then obtain st' where st': "sequentialPrepass sampleEnv sampleGraph (\<lambda>_. []) = Inr st'"
    "st' (sampleImages ! 1) = ''1.2linux/amd64dependency:base:1.2linux/amd64setup:basesetup:lib''"
    by (cases "sequentialPrepass sampleEnv sampleGraph (\<lambda>_. [])") auto
  from prepass_schedule_independent [OF sampleGraph_ok b] st' show ?thesis using b(1) by blast
qed

theorem inputs_order_independent_witness:
  "collectHolisticInputs (sampleEnv\<lparr>mapOrder := \<lambda>xs. xs\<rparr>) imgName (sampleImages ! 0) [sampleImages ! 2, sampleImages ! 1] False =
    Inr [''dependency:base:base'', ''dependency:lib:lib'', ''setup:app'']"
proof (rule inputs_order_independent [where ds = "[sampleImages ! 1, sampleImages ! 2]"])
  show "collectHolisticInputs sampleEnv imgName (sampleImages ! 0) [sampleImages ! 1, sampleImages ! 2] False =
      Inr [''dependency:base:base'', ''dependency:lib:lib'', ''setup:app'']" by code_simp
qed (simp_all add: sampleEnv_def)

theorem digest_tracks_dependencies_witness: "imgName (sampleImages ! 2) = ''base''"
proof (rule digest_tracks_dependencies [where st = imgName and st' = "\<lambda>d. if imgName d = ''lib'' then ''lib'' else ''base''"
    and ds = "[sampleImages ! 1, sampleImages ! 2]" and env = sampleEnv and img = "sampleImages ! 0", THEN trans])
  show "collectHolisticInputs sampleEnv imgName (sampleImages ! 0) [sampleImages ! 1, sampleImages ! 2] False =
      Inr [''dependency:base:base'', ''dependency:lib:lib'', ''setup:app'']" by code_simp
  show "collectHolisticInputs sampleEnv (\<lambda>d. if imgName d = ''lib'' then ''lib'' else ''base'') (sampleImages ! 0)
      [sampleImages ! 1, sampleImages ! 2] False =
      Inr [''dependency:base:base'', ''dependency:lib:lib'', ''setup:app'']" by code_simp
  show "\<forall>d \<in> set [sampleImages ! 1, sampleImages ! 2]. CHR '':'' \<notin> set (imgName d) \<and>
      CHR '':'' \<notin> set (if imgName d = ''lib'' then ''lib'' else ''base'')" by code_simp
  show "(if imgName (sampleImages ! 2) = ''lib'' then ''lib'' else ''base'') = ''base''" by code_simp
qed (simp_all, code_simp)

end
