(* ===== verification/GoQuote.thy ===== *)
theory GoQuote
  imports GoStrings
begin

text \<open>
  \<^verbatim>\<open>strconv.Quote\<close> and \<^verbatim>\<open>strconv.Unquote\<close> for strings in double quotes, over strings as lists of bytes, with the UTF-8
  coding of \<^verbatim>\<open>unicode/utf8\<close> they rest on. Which code points above 0xFF are printable is a table of the Unicode
  standard and a parameter.
\<close>

section \<open>UTF-8\<close>

definition RuneError :: nat where
  "RuneError = 0xFFFD"

abbreviation byteAt :: "string \<Rightarrow> nat \<Rightarrow> nat" where
  "byteAt s i \<equiv> of_char (s ! i)"

definition contByte :: "nat \<Rightarrow> bool" where
  "contByte b \<longleftrightarrow> 0x80 \<le> b \<and> b \<le> 0xBF"

text \<open>\<^verbatim>\<open>DecodeRuneInString\<close>: the first code point and the number of its bytes.\<close>

definition decodeRune :: "string \<Rightarrow> nat \<times> nat" where
  "decodeRune s =
     (if s = [] then (RuneError, 0)
      else let b0 = byteAt s 0 in
        if b0 < 0x80 then (b0, 1)
        else if b0 < 0xC2 \<or> b0 > 0xF4 then (RuneError, 1)
        else if b0 < 0xE0 then
          (if length s \<ge> 2 \<and> contByte (byteAt s 1) then ((b0 - 0xC0) * 0x40 + (byteAt s 1 - 0x80), 2) else (RuneError, 1))
        else if b0 < 0xF0 then
          (if length s \<ge> 3 \<and> contByte (byteAt s 1) \<and> (b0 = 0xE0 \<longrightarrow> 0xA0 \<le> byteAt s 1) \<and> (b0 = 0xED \<longrightarrow> byteAt s 1 \<le> 0x9F) \<and>
              contByte (byteAt s 2)
           then ((b0 - 0xE0) * 0x1000 + (byteAt s 1 - 0x80) * 0x40 + (byteAt s 2 - 0x80), 3) else (RuneError, 1))
        else
          (if length s \<ge> 4 \<and> contByte (byteAt s 1) \<and> (b0 = 0xF0 \<longrightarrow> 0x90 \<le> byteAt s 1) \<and> (b0 = 0xF4 \<longrightarrow> byteAt s 1 \<le> 0x8F) \<and>
              contByte (byteAt s 2) \<and> contByte (byteAt s 3)
           then ((b0 - 0xF0) * 0x40000 + (byteAt s 1 - 0x80) * 0x1000 + (byteAt s 2 - 0x80) * 0x40 + (byteAt s 3 - 0x80), 4)
           else (RuneError, 1)))"

definition ValidRune :: "nat \<Rightarrow> bool" where
  "ValidRune r \<longleftrightarrow> r < 0xD800 \<or> 0xDFFF < r \<and> r \<le> 0x10FFFF"

definition bytes :: "nat list \<Rightarrow> string" where
  "bytes bs = map char_of bs"

definition encodeRune :: "nat \<Rightarrow> string" where
  "encodeRune r =
     (if r < 0x80 then bytes [r]
      else if r < 0x800 then bytes [0xC0 + r div 0x40, 0x80 + r mod 0x40]
      else if \<not> ValidRune r then bytes [0xEF, 0xBF, 0xBD]
      else if r < 0x10000 then bytes [0xE0 + r div 0x1000, 0x80 + r div 0x40 mod 0x40, 0x80 + r mod 0x40]
      else bytes [0xF0 + r div 0x40000, 0x80 + r div 0x1000 mod 0x40, 0x80 + r div 0x40 mod 0x40, 0x80 + r mod 0x40])"

section \<open>Quoting\<close>

definition hexDigit :: "nat \<Rightarrow> char" where
  "hexDigit d = (if d < 10 then char_of (48 + d) else char_of (87 + d))"

fun fmtHex :: "nat \<Rightarrow> nat \<Rightarrow> string" where
  "fmtHex 0 n = []"
| "fmtHex (Suc k) n = fmtHex k (n div 16) @ [hexDigit (n mod 16)]"

definition IsPrint :: "(nat \<Rightarrow> bool) \<Rightarrow> nat \<Rightarrow> bool" where
  "IsPrint table r \<longleftrightarrow> (if r \<le> 0xFF then 0x20 \<le> r \<and> r < 0x7F \<or> 0xA1 \<le> r \<and> r \<noteq> 0xAD else table r)"

text \<open>The escapes of one letter, as pairs of byte and letter.\<close>

definition letterEscapes :: "(nat \<times> char) list" where
  "letterEscapes = [(7, CHR ''a''), (8, CHR ''b''), (12, CHR ''f''), (10, CHR ''n''), (13, CHR ''r''), (9, CHR ''t''), (11, CHR ''v'')]"

definition backslash :: char where
  "backslash = char_of (92::nat)"

definition dquote :: char where
  "dquote = char_of (34::nat)"

definition escapedRune :: "(nat \<Rightarrow> bool) \<Rightarrow> nat \<Rightarrow> string" where
  "escapedRune table r =
     (if r = 34 \<or> r = 92 then [backslash, char_of r]
      else if IsPrint table r then encodeRune r
      else (case map_of letterEscapes r of
         Some c \<Rightarrow> [backslash, c]
       | None \<Rightarrow>
           if r < 0x20 \<or> r = 0x7F then [backslash, CHR ''x''] @ fmtHex 2 r
           else if \<not> ValidRune r then [backslash, CHR ''u''] @ fmtHex 4 RuneError
           else if r < 0x10000 then [backslash, CHR ''u''] @ fmtHex 4 r
           else [backslash, CHR ''U''] @ fmtHex 8 r))"

lemma decodeRune_width: "s \<noteq> [] \<Longrightarrow> 0 < snd (decodeRune s)"
  by (simp add: decodeRune_def Let_def)

function (sequential) quoteBody :: "(nat \<Rightarrow> bool) \<Rightarrow> string \<Rightarrow> string" where
  "quoteBody table [] = []"
| "quoteBody table (c # s) =
     (let (r, width) = decodeRune (c # s)
      in (if width = 1 \<and> r = RuneError then [backslash, CHR ''x''] @ fmtHex 2 (of_char c) else escapedRune table r) @
         quoteBody table (drop width (c # s)))"
  by pat_completeness auto
termination
proof (relation "measure (\<lambda>(_, s). length s)")
  fix table c s x r width
  assume "x = decodeRune (c # s)" and "(r, width) = x"
  then have "0 < width" using decodeRune_width [of "c # s"] by (metis list.distinct(1) snd_conv)
  then show "((table, drop width (c # s)), table, c # s) \<in> measure (\<lambda>(_, s). length s)" by simp
qed simp

definition Quote :: "(nat \<Rightarrow> bool) \<Rightarrow> string \<Rightarrow> string" where
  "Quote table s = [dquote] @ quoteBody table s @ [dquote]"

section \<open>Unquoting\<close>

definition hexVal :: "char \<Rightarrow> nat option" where
  "hexVal c =
     (let b = of_char c :: nat
      in if 48 \<le> b \<and> b \<le> 57 then Some (b - 48)
         else if 97 \<le> b \<and> b \<le> 102 then Some (b - 87)
         else if 65 \<le> b \<and> b \<le> 70 then Some (b - 55)
         else None)"

definition parseHex :: "string \<Rightarrow> nat option" where
  "parseHex s = foldl (\<lambda>v c. case (v, hexVal c) of (Some v, Some d) \<Rightarrow> Some (v * 16 + d) | _ \<Rightarrow> None) (Some 0) s"

definition octVal :: "char \<Rightarrow> nat option" where
  "octVal c = (let b = of_char c :: nat in if 48 \<le> b \<and> b \<le> 55 then Some (b - 48) else None)"

text \<open>\<^verbatim>\<open>UnquoteChar\<close> after the backslash: the bytes of the value and the rest; \<open>None\<close> is a syntax error.\<close>

definition unquoteEscape :: "char \<Rightarrow> string \<Rightarrow> (string \<times> string) option" where
  "unquoteEscape c s =
     (case find (\<lambda>(b, e). e = c) letterEscapes of
        Some (b, e) \<Rightarrow> Some (bytes [b], s)
      | None \<Rightarrow>
          if c \<in> {CHR ''x'', CHR ''u'', CHR ''U''} then
            (let n = (if c = CHR ''x'' then 2 else if c = CHR ''u'' then 4 else 8)
             in if length s < n then None
                else (case parseHex (take n s) of
                    None \<Rightarrow> None
                  | Some v \<Rightarrow> if c = CHR ''x'' then Some (bytes [v], drop n s)
                              else if ValidRune v then Some (encodeRune v, drop n s) else None))
          else if octVal c \<noteq> None then
            (case s of
               d1 # d2 # s' \<Rightarrow>
                 (case (octVal c, octVal d1, octVal d2) of
                    (Some a, Some b, Some d) \<Rightarrow> if a * 64 + b * 8 + d > 255 then None else Some (bytes [a * 64 + b * 8 + d], s')
                  | _ \<Rightarrow> None)
             | _ \<Rightarrow> None)
          else if c = backslash \<or> c = dquote then Some ([c], s)
          else None)"

definition unquoteChar :: "char \<Rightarrow> string \<Rightarrow> (string \<times> string) option" where
  "unquoteChar c s =
     (if of_char c = (10::nat) then None
      else if of_char c \<ge> (0x80::nat) then (let (r, width) = decodeRune (c # s) in Some (encodeRune r, drop width (c # s)))
      else if c \<noteq> backslash then Some ([c], s)
      else (case s of [] \<Rightarrow> None | e # s' \<Rightarrow> unquoteEscape e s'))"

lemma unquoteEscape_length: "unquoteEscape c s = Some (v, r) \<Longrightarrow> length r \<le> length s"
  by (auto simp: unquoteEscape_def Let_def split: option.splits if_splits list.splits)

lemma unquoteChar_length: "unquoteChar c s = Some (v, r) \<Longrightarrow> length r < Suc (length s)"
  using decodeRune_width [of "c # s"]
  by (auto simp: unquoteChar_def Let_def split: if_splits list.splits prod.splits dest!: unquoteEscape_length)

text \<open>The text up to the closing quote, which has to be the end.\<close>

function (sequential) unquoteBody :: "string \<Rightarrow> string option" where
  "unquoteBody [] = None"
| "unquoteBody (c # s) =
     (if c = dquote then (if s = [] then Some [] else None)
      else (case unquoteChar c s of
          None \<Rightarrow> None
        | Some (v, r) \<Rightarrow> (case unquoteBody r of None \<Rightarrow> None | Some t \<Rightarrow> Some (v @ t))))"
  by pat_completeness auto
termination
  by (relation "measure length") (auto dest: unquoteChar_length)

definition Unquote :: "string \<Rightarrow> string option" where
  "Unquote s = (case s of [] \<Rightarrow> None | c # r \<Rightarrow> if c = dquote then unquoteBody r else None)"

end
