(* ===== verification/DiffParser.thy ===== *)
theory DiffParser
  imports GoQuote "HOL-Library.Word"
begin

text \<open>
  The parser of \<^verbatim>\<open>git diff\<close> output, \<^verbatim>\<open>pkg/true_git/diff_parser.go\<close>: a state machine over the lines of the diff that
  rewrites the paths of the files in scope, drops the other files and collects the paths for the patch descriptor of
  \<^verbatim>\<open>writePatch\<close>. The path matcher and the helper that makes a path relative to the scope are parameters, and so is the
  writer, which may fail. An index out of range is the error \<open>IndexOutOfRange\<close>; debug output is left out.
\<close>

section \<open>The parser\<close>

datatype parserState =
    Unrecognized | DiffBegin | DiffBody | NewFileDiff | DeleteFileDiff | ModifyFileDiff | RenameDiff | IgnoreDiff

datatype diffError =
    UnexpectedDiffLine parserState string
  | UnexpectedDiffBegin string
  | UnquoteFailed string
  | IndexOutOfRange
  | CommitsNotPresent string
  | WriteFailed string
  | PipeFailed string
  | GitDiffFailed string

record diffEnv =
  PathScope :: string
  IsPathMatched :: "string \<Rightarrow> bool"
  FileRenames :: "(string, string) goMap"
  GetRelativeToBaseFilepath :: "string \<Rightarrow> string \<Rightarrow> string"
  unicodePrint :: "nat \<Rightarrow> bool"
  outError :: "string \<Rightarrow> string \<Rightarrow> string option"

record diffParser =
  Out :: string
  OutLines :: "64 word"
  UnrecognizedCapture :: string
  Paths :: "string list"
  BinaryPaths :: "string list"
  PathsToRemove :: "string list"
  LastSeenPaths :: "string list"
  parserState :: parserState
  lineBuf :: string

definition makeDiffParser :: diffParser where
  "makeDiffParser = \<lparr>Out = [], OutLines = 0, UnrecognizedCapture = [], Paths = [], BinaryPaths = [], PathsToRemove = [],
     LastSeenPaths = [], parserState = Unrecognized, lineBuf = []\<rparr>"

definition appendUnique :: "string list \<Rightarrow> string \<Rightarrow> string list" where
  "appendUnique = snocNew"

definition newline :: char where
  "newline = char_of (10::nat)"

definition tab :: char where
  "tab = char_of (9::nat)"

definition writeOutLine :: "diffEnv \<Rightarrow> string \<Rightarrow> diffParser \<Rightarrow> diffError + diffParser" where
  "writeOutLine env line p =
     (case outError env (Out p) (line @ [newline]) of
        Some e \<Rightarrow> Inl (WriteFailed e)
      | None \<Rightarrow> Inr (p\<lparr>OutLines := OutLines p + 1, Out := Out p @ line @ [newline]\<rparr>))"

definition writeUnrecognizedLine :: "string \<Rightarrow> diffParser \<Rightarrow> diffError + diffParser" where
  "writeUnrecognizedLine line p = Inr (p\<lparr>UnrecognizedCapture := UnrecognizedCapture p @ line @ [newline]\<rparr>)"

definition HandleStderr :: "string \<Rightarrow> diffParser \<Rightarrow> diffParser" where
  "HandleStderr data p = p\<lparr>UnrecognizedCapture := UnrecognizedCapture p @ data\<rparr>"

section \<open>Paths\<close>

definition applyFileRenames :: "diffEnv \<Rightarrow> string \<Rightarrow> string" where
  "applyFileRenames env path =
     (case map_of (FileRenames env) path of
        Some renamedFileName \<Rightarrow> PathJoin [PathScope env, renamedFileName]
      | None \<Rightarrow> path)"

definition trimFileBaseFilepath :: "diffEnv \<Rightarrow> string \<Rightarrow> string" where
  "trimFileBaseFilepath env path = TrimRight (GetRelativeToBaseFilepath env (PathScope env) path) [tab]"

section \<open>Handlers of the lines\<close>

text \<open>One of the two paths of a \<^verbatim>\<open>diff --git\<close> line: \<open>None\<close> when it is not matched, and otherwise the rewritten path.\<close>

definition handleDiffPath ::
  "diffEnv \<Rightarrow> string \<Rightarrow> string \<Rightarrow> diffParser \<Rightarrow> diffError + (diffParser \<times> string option)" where
  "handleDiffPath env pathWithPrefix prefix p =
     (let isPathQuoted = HasPrefix pathWithPrefix [dquote] \<and> HasSuffix pathWithPrefix [dquote]
      in bindR (if isPathQuoted
                then (case Unquote pathWithPrefix of None \<Rightarrow> Inl (UnquoteFailed pathWithPrefix) | Some s \<Rightarrow> Inr s)
                else Inr pathWithPrefix) (\<lambda>unquoted.
         let path = TrimPrefix unquoted prefix
         in if \<not> IsPathMatched env path then Inr (p\<lparr>parserState := IgnoreDiff\<rparr>, None)
            else let newPath = trimFileBaseFilepath env (applyFileRenames env path)
                 in Inr (p\<lparr>Paths := appendUnique (Paths p) newPath, LastSeenPaths := appendUnique (LastSeenPaths p) newPath\<rparr>,
                         Some (if isPathQuoted then Quote (unicodePrint env) (prefix @ newPath) else prefix @ newPath))))"

definition splitPaths :: "string \<Rightarrow> diffError + (string \<times> string)" where
  "splitPaths line =
     (case SplitN2 line ('' '' @ [dquote] @ ''a/'') of
        [_, rest] \<Rightarrow>
          (case SplitN2 rest ('' '' @ [dquote] @ ''b/'') of
             [a, b] \<Rightarrow> Inr ([dquote] @ ''a/'' @ a, [dquote] @ ''b/'' @ b)
           | _ \<Rightarrow> Inl IndexOutOfRange)
      | _ \<Rightarrow>
          (case SplitN2 line '' a/'' of
             [_, rest] \<Rightarrow>
               (case SplitN2 rest '' b/'' of
                  [a, b] \<Rightarrow> Inr (''a/'' @ a, ''b/'' @ b)
                | _ \<Rightarrow> Inl IndexOutOfRange)
           | _ \<Rightarrow> Inl (UnexpectedDiffBegin line)))"

definition handleDiffBegin :: "diffEnv \<Rightarrow> string \<Rightarrow> diffParser \<Rightarrow> diffError + diffParser" where
  "handleDiffBegin env line p =
     bindR (splitPaths line) (\<lambda>(a, b).
     bindR (handleDiffPath env a ''a/'' (p\<lparr>LastSeenPaths := []\<rparr>)) (\<lambda>(p, trimmedA).
       case trimmedA of
         None \<Rightarrow> Inr p
       | Some trimmedA \<Rightarrow>
           bindR (handleDiffPath env b ''b/'' p) (\<lambda>(p, trimmedB).
             case trimmedB of
               None \<Rightarrow> Inr p
             | Some trimmedB \<Rightarrow>
                 writeOutLine env (''diff --git '' @ trimmedA @ '' '' @ trimmedB) (p\<lparr>parserState := DiffBegin\<rparr>))))"

definition handleDeleteFileDiff :: "diffEnv \<Rightarrow> string \<Rightarrow> diffParser \<Rightarrow> diffError + diffParser" where
  "handleDeleteFileDiff env line p = writeOutLine env line (p\<lparr>parserState := DeleteFileDiff\<rparr>)"

definition handleNewFileDiff :: "diffEnv \<Rightarrow> string \<Rightarrow> diffParser \<Rightarrow> diffError + diffParser" where
  "handleNewFileDiff env line p = writeOutLine env line (p\<lparr>parserState := NewFileDiff\<rparr>)"

definition handleModifyFileDiff :: "diffEnv \<Rightarrow> string \<Rightarrow> diffParser \<Rightarrow> diffError + diffParser" where
  "handleModifyFileDiff env line p = writeOutLine env line (p\<lparr>parserState := ModifyFileDiff\<rparr>)"

definition handleIndexDiffLine :: "diffParser \<Rightarrow> diffError + diffParser" where
  "handleIndexDiffLine p = Inr p"

definition handleModifyFilePathA :: "diffEnv \<Rightarrow> string \<Rightarrow> diffParser \<Rightarrow> diffError + diffParser" where
  "handleModifyFilePathA env line p =
     (let path = applyFileRenames env (TrimPrefix line ''--- a/''); newPath = trimFileBaseFilepath env path
      in writeOutLine env (''--- a/'' @ newPath) p)"

definition handleModifyFilePathB :: "diffEnv \<Rightarrow> string \<Rightarrow> diffParser \<Rightarrow> diffError + diffParser" where
  "handleModifyFilePathB env line p =
     (let path = applyFileRenames env (TrimPrefix line ''+++ b/''); newPath = trimFileBaseFilepath env path
      in writeOutLine env (''+++ b/'' @ newPath) (p\<lparr>parserState := DiffBody\<rparr>))"

definition handleSubmoduleLine :: "string \<Rightarrow> diffParser \<Rightarrow> diffError + diffParser" where
  "handleSubmoduleLine line p =
     (if HasSuffix line '' (commits not present)'' then Inl (CommitsNotPresent line) else Inr (p\<lparr>parserState := Unrecognized\<rparr>))"

definition handleNewFilePath :: "diffEnv \<Rightarrow> string \<Rightarrow> diffParser \<Rightarrow> diffError + diffParser" where
  "handleNewFilePath env line p =
     (let path = applyFileRenames env (TrimPrefix line ''+++ b/''); newPath = trimFileBaseFilepath env path
      in writeOutLine env (''+++ b/'' @ newPath) (p\<lparr>parserState := DiffBody\<rparr>))"

definition handleDeleteFilePath :: "diffEnv \<Rightarrow> string \<Rightarrow> diffParser \<Rightarrow> diffError + diffParser" where
  "handleDeleteFilePath env line p =
     (let path = applyFileRenames env (TrimPrefix line ''--- a/''); newPath = trimFileBaseFilepath env path
      in writeOutLine env (''--- a/'' @ newPath)
           (p\<lparr>parserState := DiffBody, PathsToRemove := appendUnique (PathsToRemove p) newPath\<rparr>))"

text \<open>The paths of a binary file, of which a deleted one is to be removed.\<close>

definition recordBinary :: "diffParser \<Rightarrow> diffParser" where
  "recordBinary p =
     (let p1 = p\<lparr>BinaryPaths := foldl appendUnique (BinaryPaths p) (LastSeenPaths p)\<rparr>
      in if parserState p = DeleteFileDiff
         then p1\<lparr>PathsToRemove := foldl appendUnique (PathsToRemove p1) (LastSeenPaths p1)\<rparr> else p1)"

definition handleBinaryBeginHeader :: "diffEnv \<Rightarrow> string \<Rightarrow> diffParser \<Rightarrow> diffError + diffParser" where
  "handleBinaryBeginHeader env line p = writeOutLine env line ((recordBinary p)\<lparr>parserState := DiffBody\<rparr>)"

definition handleShortBinaryHeader :: "diffEnv \<Rightarrow> string \<Rightarrow> diffParser \<Rightarrow> diffError + diffParser" where
  "handleShortBinaryHeader env line p = writeOutLine env line ((recordBinary p)\<lparr>parserState := Unrecognized\<rparr>)"

definition handleSimilarityIndex :: "diffParser \<Rightarrow> diffError + diffParser" where
  "handleSimilarityIndex p = Inr (p\<lparr>parserState := RenameDiff\<rparr>)"

definition handleRenameFrom :: "diffEnv \<Rightarrow> string \<Rightarrow> diffParser \<Rightarrow> diffError + diffParser" where
  "handleRenameFrom env line p =
     (let path = applyFileRenames env (TrimPrefix line ''rename from ''); newPath = trimFileBaseFilepath env path
      in Inr (p\<lparr>PathsToRemove := appendUnique (PathsToRemove p) newPath\<rparr>))"

section \<open>Dispatch on the state\<close>

definition handleDiffLine :: "diffEnv \<Rightarrow> diffParser \<Rightarrow> string \<Rightarrow> diffError + diffParser" where
  "handleDiffLine env p line =
     (case parserState p of
        Unrecognized \<Rightarrow>
          if HasPrefix line ''diff --git '' then handleDiffBegin env line p
          else if HasPrefix line ''Submodule '' then handleSubmoduleLine line p
          else writeUnrecognizedLine line p
      | IgnoreDiff \<Rightarrow>
          if HasPrefix line ''diff --git '' then handleDiffBegin env line p
          else if HasPrefix line ''Submodule '' then handleSubmoduleLine line p
          else Inr p
      | DiffBegin \<Rightarrow>
          if HasPrefix line ''deleted file mode '' then handleDeleteFileDiff env line p
          else if HasPrefix line ''new file mode '' then handleNewFileDiff env line p
          else if HasPrefix line ''old mode '' then handleModifyFileDiff env line p
          else if HasPrefix line ''similarity index '' then handleSimilarityIndex p
          else if HasPrefix line ''index '' then handleIndexDiffLine (p\<lparr>parserState := ModifyFileDiff\<rparr>)
          else Inl (UnexpectedDiffLine DiffBegin line)
      | ModifyFileDiff \<Rightarrow>
          if HasPrefix line ''new mode '' then writeOutLine env line p
          else if HasPrefix line ''--- '' then handleModifyFilePathA env line p
          else if HasPrefix line ''+++ '' then handleModifyFilePathB env line p
          else if HasPrefix line ''GIT binary patch'' then handleBinaryBeginHeader env line p
          else if HasPrefix line ''Binary files'' then handleShortBinaryHeader env line p
          else if HasPrefix line ''diff --git '' then handleDiffBegin env line p
          else if HasPrefix line ''index '' then handleIndexDiffLine p
          else if HasPrefix line ''Submodule '' then handleSubmoduleLine line p
          else writeOutLine env line p
      | NewFileDiff \<Rightarrow>
          if HasPrefix line ''+++ '' then handleNewFilePath env line p
          else if HasPrefix line ''GIT binary patch'' then handleBinaryBeginHeader env line p
          else if HasPrefix line ''Binary files'' then handleShortBinaryHeader env line p
          else if HasPrefix line ''diff --git '' then handleDiffBegin env line p
          else if HasPrefix line ''index '' then handleIndexDiffLine p
          else if HasPrefix line ''Submodule '' then handleSubmoduleLine line p
          else writeOutLine env line p
      | DeleteFileDiff \<Rightarrow>
          if HasPrefix line ''--- '' then handleDeleteFilePath env line p
          else if HasPrefix line ''GIT binary patch'' then handleBinaryBeginHeader env line p
          else if HasPrefix line ''Binary files'' then handleShortBinaryHeader env line p
          else if HasPrefix line ''diff --git '' then handleDiffBegin env line p
          else if HasPrefix line ''index '' then handleIndexDiffLine p
          else if HasPrefix line ''Submodule '' then handleSubmoduleLine line p
          else writeOutLine env line p
      | RenameDiff \<Rightarrow>
          if HasPrefix line ''rename from '' then handleRenameFrom env line p
          else if HasPrefix line ''rename to '' then Inr p
          else if HasPrefix line ''index '' then handleIndexDiffLine (p\<lparr>parserState := ModifyFileDiff\<rparr>)
          else if HasPrefix line ''diff --git '' then handleDiffBegin env line p
          else if HasPrefix line ''Submodule '' then handleSubmoduleLine line p
          else Inr p
      | DiffBody \<Rightarrow>
          if HasPrefix line ''diff --git '' then handleDiffBegin env line p
          else if HasPrefix line ''Submodule '' then handleSubmoduleLine line p
          else writeOutLine env line p)"

definition handleByte :: "diffEnv \<Rightarrow> diffParser \<Rightarrow> char \<Rightarrow> diffError + diffParser" where
  "handleByte env p b =
     (if b = newline then handleDiffLine env (p\<lparr>lineBuf := []\<rparr>) (lineBuf p)
      else Inr (p\<lparr>lineBuf := lineBuf p @ [b]\<rparr>))"

definition HandleStdout :: "diffEnv \<Rightarrow> diffParser \<Rightarrow> string \<Rightarrow> diffError + diffParser" where
  "HandleStdout env p data = foldR (handleByte env) p data"

text \<open>
  The loop of \<^verbatim>\<open>writePatch\<close> over the chunks of the two pipes, of which one may break, the end of the command, which may
  have failed, and the descriptor.
\<close>

datatype stdPipeItem = StdoutItem string | StderrItem string | ErrItem string

record PatchDescriptor =
  descPaths :: "string list"
  descBinaryPaths :: "string list"
  descPathsToRemove :: "string list"

definition handleItem :: "diffEnv \<Rightarrow> diffParser \<Rightarrow> stdPipeItem \<Rightarrow> diffError + diffParser" where
  "handleItem env p item =
     (case item of
        ErrItem e \<Rightarrow> Inl (PipeFailed e)
      | StdoutItem data \<Rightarrow> HandleStdout env p data
      | StderrItem data \<Rightarrow> Inr (HandleStderr data p))"

definition parsePatch :: "diffEnv \<Rightarrow> string option \<Rightarrow> stdPipeItem list \<Rightarrow> diffError + (string \<times> PatchDescriptor)" where
  "parsePatch env waitError items =
     bindR (foldR (handleItem env) makeDiffParser items) (\<lambda>p.
       case waitError of
         Some e \<Rightarrow> Inl (GitDiffFailed e)
       | None \<Rightarrow> Inr (Out p, \<lparr>descPaths = Paths p, descBinaryPaths = BinaryPaths p, descPathsToRemove = PathsToRemove p\<rparr>))"

end
