(* ===== verification/DiffProps.thy ===== *)
theory DiffProps
  imports DiffParser
begin

text \<open>
  What the diff parser makes of the diffs that git prints: the lines of a file diff are given by a function from its parts,
  and the parser, fed with the lines of several file diffs in any chunks, writes the lines of the files in scope under their
  new names and describes them. The invariant of the collected paths holds for any input.
\<close>

section \<open>Writing lines\<close>

definition unlines :: "string list \<Rightarrow> string" where
  "unlines ls = concat (map (\<lambda>l. l @ [newline]) ls)"

lemma unlines_simps [simp]: "unlines [] = []" "unlines (ls @ ms) = unlines ls @ unlines ms" "unlines (l # ls) = l @ newline # unlines ls"
  by (simp_all add: unlines_def)

definition wrote :: "string list \<Rightarrow> diffParser \<Rightarrow> diffParser" where
  "wrote ls p = p\<lparr>OutLines := OutLines p + of_nat (length ls), Out := Out p @ unlines ls\<rparr>"

lemma wrote_simps [simp]:
  "wrote [] p = p" "wrote ls (wrote ks p) = wrote (ks @ ls) p"
  "parserState (wrote ls p) = parserState p" "Paths (wrote ls p) = Paths p" "BinaryPaths (wrote ls p) = BinaryPaths p"
  "PathsToRemove (wrote ls p) = PathsToRemove p" "LastSeenPaths (wrote ls p) = LastSeenPaths p" "lineBuf (wrote ls p) = lineBuf p"
  "(wrote ls p)\<lparr>parserState := s\<rparr> = wrote ls (p\<lparr>parserState := s\<rparr>)"
  "(wrote ls p)\<lparr>BinaryPaths := bs\<rparr> = wrote ls (p\<lparr>BinaryPaths := bs\<rparr>)"
  "(wrote ls p)\<lparr>PathsToRemove := rs\<rparr> = wrote ls (p\<lparr>PathsToRemove := rs\<rparr>)"
  by (simp_all add: wrote_def)

definition writable :: "diffEnv \<Rightarrow> bool" where
  "writable env \<longleftrightarrow> (\<forall>written data. outError env written data = None)"

lemma writeOutLine_wrote: "writable env \<Longrightarrow> writeOutLine env l p = Inr (wrote [l] p)"
  by (simp add: writeOutLine_def writable_def wrote_def)

section \<open>File diffs as git prints them\<close>

datatype changeKind = Modified "(string \<times> string) option" | Created string | Deleted string

datatype content = Hunks "string list" | BinaryPatch "string list" | BinaryDiffer string | NoContent

record fileDiff =
  fdPath :: string
  fdKind :: changeKind
  fdIndex :: "string option"
  fdContent :: content

fun kindLines :: "changeKind \<Rightarrow> string list" where
  "kindLines (Modified None) = []"
| "kindLines (Modified (Some (old, new))) = [''old mode '' @ old, ''new mode '' @ new]"
| "kindLines (Created mode) = [''new file mode '' @ mode]"
| "kindLines (Deleted mode) = [''deleted file mode '' @ mode]"

definition minusLine :: "changeKind \<Rightarrow> string \<Rightarrow> string" where
  "minusLine k path = (case k of Created _ \<Rightarrow> ''--- /dev/null'' | _ \<Rightarrow> ''--- a/'' @ path)"

definition plusLine :: "changeKind \<Rightarrow> string \<Rightarrow> string" where
  "plusLine k path = (case k of Deleted _ \<Rightarrow> ''+++ /dev/null'' | _ \<Rightarrow> ''+++ b/'' @ path)"

fun contentLines :: "changeKind \<Rightarrow> string \<Rightarrow> content \<Rightarrow> string list" where
  "contentLines k path (Hunks ls) = minusLine k path # plusLine k path # ls"
| "contentLines k path (BinaryPatch ls) = ''GIT binary patch'' # ls"
| "contentLines k path (BinaryDiffer l) = [''Binary files '' @ l]"
| "contentLines k path NoContent = []"

definition headerLine :: "string \<Rightarrow> string" where
  "headerLine path = ''diff --git a/'' @ path @ '' b/'' @ path"

text \<open>Git ends a path that contains a space with a tab on the lines before the hunks.\<close>

definition tabbed :: "string \<Rightarrow> string" where
  "tabbed path = (if CHR '' '' \<in> set path then path @ [tab] else path)"

definition gitLines :: "fileDiff \<Rightarrow> string list" where
  "gitLines d = headerLine (fdPath d) # kindLines (fdKind d) @
     (case fdIndex d of None \<Rightarrow> [] | Some i \<Rightarrow> [''index '' @ i]) @ contentLines (fdKind d) (tabbed (fdPath d)) (fdContent d)"

text \<open>The name of a file in the patch, and the lines of the file diff there.\<close>

definition newName :: "diffEnv \<Rightarrow> string \<Rightarrow> string" where
  "newName env path = trimFileBaseFilepath env (applyFileRenames env path)"

definition patchLines :: "diffEnv \<Rightarrow> fileDiff \<Rightarrow> string list" where
  "patchLines env d = headerLine (newName env (fdPath d)) # kindLines (fdKind d) @
     contentLines (fdKind d) (newName env (fdPath d)) (fdContent d)"

fun isBinary :: "content \<Rightarrow> bool" where
  "isBinary (BinaryPatch _) = True"
| "isBinary (BinaryDiffer _) = True"
| "isBinary _ = False"

fun isDeleted :: "changeKind \<Rightarrow> bool" where
  "isDeleted (Deleted _) = True"
| "isDeleted _ = False"

definition isRemoved :: "fileDiff \<Rightarrow> bool" where
  "isRemoved d \<longleftrightarrow> isDeleted (fdKind d) \<and> fdContent d \<noteq> NoContent"

definition bodyLine :: "string \<Rightarrow> bool" where
  "bodyLine l \<longleftrightarrow> \<not> HasPrefix l ''diff --git '' \<and> \<not> HasPrefix l ''Submodule ''"

fun contentBody :: "content \<Rightarrow> string list" where
  "contentBody (Hunks ls) = ls"
| "contentBody (BinaryPatch ls) = ls"
| "contentBody _ = []"

text \<open>
  What is asked of a file diff: a path that git does not quote and that does not contain the separator of the header, no
  line of the content that looks like the start of another diff, and an index line or a mode for a modified file.
\<close>

definition fileDiffOk :: "fileDiff \<Rightarrow> bool" where
  "fileDiffOk d \<longleftrightarrow> dquote \<notin> set (fdPath d) \<and> \<not> Contains (fdPath d) '' b/'' \<and> list_all bodyLine (contentBody (fdContent d)) \<and>
     (fdKind d = Modified None \<longrightarrow> fdIndex d \<noteq> None) \<and> list_all (\<lambda>l. newline \<notin> set l) (gitLines d)"

text \<open>A path with a space is not renamed, and making it relative to the scope keeps the tab at its end.\<close>

definition spacesOk :: "diffEnv \<Rightarrow> string \<Rightarrow> bool" where
  "spacesOk env path \<longleftrightarrow> (CHR '' '' \<in> set path \<longrightarrow>
     map_of (FileRenames env) path = None \<and> map_of (FileRenames env) (path @ [tab]) = None \<and>
     GetRelativeToBaseFilepath env (PathScope env) (path @ [tab]) = GetRelativeToBaseFilepath env (PathScope env) path @ [tab])"

section \<open>The header line\<close>

lemma Cut_first:
  assumes "\<not> Contains a sep" and "\<And>i. 0 < i \<Longrightarrow> i < length sep \<Longrightarrow> sep ! i \<noteq> sep ! 0" and "sep \<noteq> []"
  shows "Cut (a @ sep @ b) sep = Some (a, b)"
  using assms(1)
proof (induction a)
  case Nil
  obtain c t where "sep = c # t" using assms(3) by (cases sep) auto
  then show ?case by (simp add: HasPrefix_def)
next
  case (Cons x a)
  have "\<not> HasPrefix (x # a @ sep @ b) sep"
  proof
    assume pre: "HasPrefix (x # a @ sep @ b) sep"
    show False
    proof (cases "length sep \<le> length (x # a)")
      case True
      then have "take (length sep) ((x # a) @ sep @ b) = take (length sep) (x # a)" by (subst take_append) simp
      then have "HasPrefix (x # a) sep" using pre by (simp add: HasPrefix_def)
      then show False using Cons.prems by (simp add: Contains_def)
    next
      case False
      let ?i = "length (x # a)"
      have "sep = take (length sep) ((x # a) @ sep @ b)" using pre by (simp add: HasPrefix_def)
      then have "sep ! ?i = ((x # a) @ sep @ b) ! ?i" using False by (metis not_le nth_take)
      also have "\<dots> = sep ! 0" using assms(3) by (metis length_greater_0_conv nth_append nth_append_length_plus add_0_right)
      finally show False using assms(2) [of ?i] False by simp
    qed
  qed
  moreover have "\<not> Contains a sep" using Cons.prems by (auto simp: Contains_def split: if_splits option.splits)
  ultimately show ?case using Cons.IH by simp
qed


lemma Cut_no_char:
  assumes "c \<in> set sep" and "c \<notin> set s"
  shows "Cut s sep = None"
proof (cases "Cut s sep")
  case (Some ab)
  then obtain a b where "s = a @ sep @ b" using Cut_Some [of s sep] by (cases ab) auto
  then show ?thesis using assms by auto
qed

lemma no_overlap: "0 < i \<Longrightarrow> i < length [x, y, z] \<Longrightarrow> y \<noteq> x \<Longrightarrow> z \<noteq> x \<Longrightarrow> [x, y, z] ! i \<noteq> [x, y, z] ! 0"
  by (cases i; cases "i - 1") auto

lemma splitPaths_header:
  assumes "dquote \<notin> set path" and "\<not> Contains path '' b/''"
  shows "splitPaths (headerLine path) = Inr (''a/'' @ path, ''b/'' @ path)"
proof -
  have q: "dquote \<notin> set (headerLine path)" using assms(1) unfolding headerLine_def set_append by (simp, code_simp)
  have "SplitN2 (headerLine path) ('' '' @ [dquote] @ ''a/'') = [headerLine path]"
    unfolding SplitN2_def using Cut_no_char [OF _ q, of "'' '' @ [dquote] @ ''a/''"] by simp
  moreover have "SplitN2 (headerLine path) '' a/'' = [''diff --git'', path @ '' b/'' @ path]"
  proof -
    have "\<not> Contains ''diff --git'' '' a/''" by code_simp
    from Cut_first [OF this, of "path @ '' b/'' @ path"] show ?thesis
      unfolding SplitN2_def headerLine_def using no_overlap [where x = "CHR '' ''" and y = "CHR ''a''" and z = "CHR ''/''"] by simp
  qed
  moreover have "SplitN2 (path @ '' b/'' @ path) '' b/'' = [path, path]"
    using Cut_first [OF assms(2), of path] no_overlap [where x = "CHR '' ''" and y = "CHR ''b''" and z = "CHR ''/''"]
    unfolding SplitN2_def by simp
  ultimately show ?thesis unfolding splitPaths_def by simp
qed

text \<open>The states in which the next file diff may begin.\<close>

definition betweenFiles :: "parserState \<Rightarrow> bool" where
  "betweenFiles s \<longleftrightarrow> s \<noteq> DiffBegin"

lemmas prefix_simps = HasPrefix_Cons HasPrefix_Nil

lemma header_dispatch:
  assumes "betweenFiles (parserState p)"
  shows "handleDiffLine env p (headerLine path) = handleDiffBegin env (headerLine path) p"
  using assms by (cases "parserState p") (simp_all add: handleDiffLine_def headerLine_def prefix_simps betweenFiles_def)

lemma handleDiffPath_plain:
  assumes "pathWithPrefix = prefix @ path" and "\<not> HasPrefix pathWithPrefix [dquote]"
  shows "handleDiffPath env pathWithPrefix prefix p =
    (if \<not> IsPathMatched env path then Inr (p\<lparr>parserState := IgnoreDiff\<rparr>, None)
     else Inr (p\<lparr>Paths := snocNew (Paths p) (newName env path), LastSeenPaths := snocNew (LastSeenPaths p) (newName env path)\<rparr>,
               Some (prefix @ newName env path)))"
  using assms by (simp add: handleDiffPath_def Let_def newName_def appendUnique_def)

lemma snocNew_twice [simp]: "snocNew (snocNew xs x) x = snocNew xs x" "snocNew [] x = [x]" "snocNew [x] x = [x]"
  by (simp_all add: snocNew_def)

lemma header_handled:
  assumes "dquote \<notin> set path" and "\<not> Contains path '' b/''" and "writable env" and "betweenFiles (parserState p)"
  shows "handleDiffLine env p (headerLine path) =
    (if IsPathMatched env path
     then Inr (wrote [headerLine (newName env path)]
       (p\<lparr>Paths := snocNew (Paths p) (newName env path), LastSeenPaths := [newName env path], parserState := DiffBegin\<rparr>))
     else Inr (p\<lparr>LastSeenPaths := [], parserState := IgnoreDiff\<rparr>))"
proof -
  have "CHR ''a'' \<noteq> dquote" "CHR ''b'' \<noteq> dquote" by code_simp+
  then have q: "\<not> HasPrefix (''a/'' @ path) [dquote]" "\<not> HasPrefix (''b/'' @ path) [dquote]" by (simp_all add: prefix_simps)
  note plain = handleDiffPath_plain [OF refl q(1)] handleDiffPath_plain [OF refl q(2)]
  show ?thesis
    unfolding header_dispatch [OF assms(4)] handleDiffBegin_def splitPaths_header [OF assms(1,2)] bindR_simps prod.case plain
    by (simp add: writeOutLine_wrote [OF assms(3)] headerLine_def)
qed


section \<open>The lines of a file diff\<close>

lemma body_written:
  assumes "writable env" and "parserState p = DiffBody" and "list_all bodyLine ls"
  shows "foldR (handleDiffLine env) p ls = Inr (wrote ls p)"
  using assms(2,3)
proof (induction ls arbitrary: p)
  case (Cons l ls)
  have "handleDiffLine env p l = Inr (wrote [l] p)"
    using Cons.prems by (simp add: handleDiffLine_def bodyLine_def writeOutLine_wrote [OF assms(1)])
  then show ?case using Cons.IH [of "wrote [l] p"] Cons.prems by simp
qed simp

lemma ignored_lines:
  assumes "parserState p = IgnoreDiff" and "list_all bodyLine ls"
  shows "foldR (handleDiffLine env) p ls = Inr p"
  using assms by (induction ls) (simp_all add: handleDiffLine_def bodyLine_def)

text \<open>The state after the mode lines and the index line.\<close>

fun kindState :: "changeKind \<Rightarrow> parserState" where
  "kindState (Modified _) = ModifyFileDiff"
| "kindState (Created _) = NewFileDiff"
| "kindState (Deleted _) = DeleteFileDiff"

definition indexLines :: "string option \<Rightarrow> string list" where
  "indexLines i = (case i of None \<Rightarrow> [] | Some i \<Rightarrow> [''index '' @ i])"

lemma mode_lines:
  assumes "writable env" and "parserState p = DiffBegin" and "k = Modified None \<longrightarrow> i \<noteq> None"
  shows "foldR (handleDiffLine env) p (kindLines k @ indexLines i) = Inr (wrote (kindLines k) (p\<lparr>parserState := kindState k\<rparr>))"
  using assms(2,3)
  by (cases k rule: kindLines.cases; cases i)
    (simp_all add: indexLines_def handleDiffLine_def prefix_simps handleModifyFileDiff_def handleNewFileDiff_def handleDeleteFileDiff_def
      handleIndexDiffLine_def writeOutLine_wrote [OF assms(1)])

lemma trim_tab: "TrimRight (s @ [c]) [c] = TrimRight s [c]"
  by (simp add: TrimRight_def)

lemma newName_tabbed: "spacesOk env path \<Longrightarrow> trimFileBaseFilepath env (applyFileRenames env (tabbed path)) = newName env path"
  by (auto simp: tabbed_def newName_def spacesOk_def applyFileRenames_def trimFileBaseFilepath_def trim_tab)

definition endState :: "fileDiff \<Rightarrow> parserState" where
  "endState d = (case fdContent d of NoContent \<Rightarrow> kindState (fdKind d) | BinaryDiffer _ \<Rightarrow> Unrecognized | _ \<Rightarrow> DiffBody)"

definition afterFile :: "diffEnv \<Rightarrow> fileDiff \<Rightarrow> diffParser \<Rightarrow> diffParser" where
  "afterFile env d p =
     (let q = newName env (fdPath d)
      in wrote (patchLines env d) (p\<lparr>Paths := snocNew (Paths p) q, LastSeenPaths := [q], parserState := endState d,
           BinaryPaths := (if isBinary (fdContent d) then snocNew (BinaryPaths p) q else BinaryPaths p),
           PathsToRemove := (if isRemoved d then snocNew (PathsToRemove p) q else PathsToRemove p)\<rparr>))"

lemma content_handled:
  assumes "writable env" and "list_all bodyLine (contentBody c)" and "parserState p = kindState k" and "LastSeenPaths p = [newName env path]"
    and "spacesOk env path"
  shows "foldR (handleDiffLine env) p (contentLines k (tabbed path) c) =
    Inr (wrote (contentLines k (newName env path) c) (p\<lparr>
      BinaryPaths := (if isBinary c then snocNew (BinaryPaths p) (newName env path) else BinaryPaths p),
      PathsToRemove := (if isDeleted k \<and> c \<noteq> NoContent then snocNew (PathsToRemove p) (newName env path) else PathsToRemove p),
      parserState := (case c of NoContent \<Rightarrow> kindState k | BinaryDiffer _ \<Rightarrow> Unrecognized | _ \<Rightarrow> DiffBody)\<rparr>))"
proof (cases c)
  case (Hunks ls)
  note step = handleDiffLine_def prefix_simps writeOutLine_wrote [OF assms(1)] minusLine_def plusLine_def Let_def
    newName_tabbed [OF assms(5)] appendUnique_def
  show ?thesis
  proof (cases k)
    case (Modified m)
    then show ?thesis using Hunks assms(2,3) body_written [OF assms(1), of _ ls]
      by (simp add: step handleModifyFilePathA_def handleModifyFilePathB_def TrimPrefix_def)
  next
    case (Created m)
    then show ?thesis using Hunks assms(2,3) body_written [OF assms(1), of _ ls]
      by (simp add: step handleNewFilePath_def TrimPrefix_def)
  next
    case (Deleted m)
    then show ?thesis using Hunks assms(2,3) body_written [OF assms(1), of _ ls]
      by (cases p) (simp add: step handleDeleteFilePath_def TrimPrefix_def bodyLine_def)
  qed
next
  case (BinaryPatch ls)
  show ?thesis using BinaryPatch assms(2-4) body_written [OF assms(1), of _ ls]
    by (cases k) (simp_all add: handleDiffLine_def prefix_simps writeOutLine_wrote [OF assms(1)] handleBinaryBeginHeader_def recordBinary_def
        Let_def appendUnique_def)
next
  case (BinaryDiffer l)
  show ?thesis using BinaryDiffer assms(3,4)
    by (cases k) (simp_all add: handleDiffLine_def prefix_simps writeOutLine_wrote [OF assms(1)] handleShortBinaryHeader_def recordBinary_def
        Let_def appendUnique_def)
next
  case NoContent
  then show ?thesis using assms(3) by simp
qed


lemma endState_between: "betweenFiles (endState d)"
  by (cases "fdContent d"; cases "fdKind d") (simp_all add: endState_def betweenFiles_def)

lemma other_lines_body:
  assumes "fileDiffOk d"
  shows "list_all bodyLine (kindLines (fdKind d) @ indexLines (fdIndex d) @ contentLines (fdKind d) (tabbed (fdPath d)) (fdContent d))"
proof -
  have "list_all bodyLine (kindLines (fdKind d))" by (cases "fdKind d" rule: kindLines.cases) (simp_all add: bodyLine_def prefix_simps)
  moreover have "list_all bodyLine (indexLines (fdIndex d))" by (simp add: indexLines_def bodyLine_def prefix_simps split: option.splits)
  moreover have "list_all bodyLine (contentLines (fdKind d) (tabbed (fdPath d)) (fdContent d))"
    using assms by (cases "fdContent d"; cases "fdKind d") (simp_all add: fileDiffOk_def bodyLine_def prefix_simps minusLine_def plusLine_def)
  ultimately show ?thesis by simp
qed

lemma file_handled:
  assumes "fileDiffOk d" and "spacesOk env (fdPath d)" and "writable env" and "betweenFiles (parserState p)"
  shows "foldR (handleDiffLine env) p (gitLines d) =
    Inr (if IsPathMatched env (fdPath d) then afterFile env d p else p\<lparr>LastSeenPaths := [], parserState := IgnoreDiff\<rparr>)"
proof -
  let ?q = "newName env (fdPath d)"
  have lines: "gitLines d = headerLine (fdPath d) # (kindLines (fdKind d) @ indexLines (fdIndex d)) @
      contentLines (fdKind d) (tabbed (fdPath d)) (fdContent d)" by (simp add: gitLines_def indexLines_def)
  have ok: "dquote \<notin> set (fdPath d)" "\<not> Contains (fdPath d) '' b/''" "list_all bodyLine (contentBody (fdContent d))"
    "fdKind d = Modified None \<longrightarrow> fdIndex d \<noteq> None" using assms(1) by (auto simp: fileDiffOk_def)
  note header = header_handled [OF ok(1,2) assms(3,4)]
  show ?thesis
  proof (cases "IsPathMatched env (fdPath d)")
    case True
    define p1 where "p1 = p\<lparr>Paths := snocNew (Paths p) ?q, LastSeenPaths := [?q], parserState := DiffBegin\<rparr>"
    have s1: "parserState (wrote [headerLine ?q] p1) = DiffBegin" by (simp add: p1_def)
    let ?p2 = "wrote (headerLine ?q # kindLines (fdKind d)) (p1\<lparr>parserState := kindState (fdKind d)\<rparr>)"
    have s2: "parserState ?p2 = kindState (fdKind d)" "LastSeenPaths ?p2 = [?q]" by (simp_all add: p1_def)
    have "foldR (handleDiffLine env) p (gitLines d) =
        foldR (handleDiffLine env) ?p2 (contentLines (fdKind d) (tabbed (fdPath d)) (fdContent d))"
    proof -
      have h: "handleDiffLine env p (headerLine (fdPath d)) = Inr (wrote [headerLine ?q] p1)" using header True by (simp add: p1_def)
      have m: "foldR (handleDiffLine env) (wrote [headerLine ?q] p1) (kindLines (fdKind d) @ indexLines (fdIndex d)) = Inr ?p2"
        using mode_lines [OF assms(3) s1 ok(4)] by simp
      show ?thesis unfolding lines foldR_step(1) [where f = "handleDiffLine env", OF h] foldR_step(2) [OF m] ..
    qed
    also have "\<dots> = Inr (afterFile env d p)"
      unfolding content_handled [OF assms(3) ok(3) s2 assms(2)]
      by (cases p) (simp add: afterFile_def Let_def patchLines_def p1_def endState_def isRemoved_def wrote_def)
    finally show ?thesis using True by simp
  next
    case False
    then show ?thesis
      using header ignored_lines [OF _ other_lines_body [OF assms(1)], of "p\<lparr>LastSeenPaths := [], parserState := IgnoreDiff\<rparr>"]
      by (simp add: lines)
  qed
qed

text \<open>The whole diff.\<close>

lemma files_handled:
  assumes "list_all fileDiffOk ds" and "list_all (\<lambda>d. spacesOk env (fdPath d)) ds" and "writable env" and "betweenFiles (parserState p)"
  shows "\<exists>p'. foldR (handleDiffLine env) p (concat (map gitLines ds)) = Inr p' \<and> betweenFiles (parserState p') \<and> lineBuf p' = lineBuf p \<and>
    (let ms = filter (\<lambda>d. IsPathMatched env (fdPath d)) ds; names = map (\<lambda>d. newName env (fdPath d))
     in Out p' = Out p @ unlines (concat (map (patchLines env) ms)) \<and>
        Paths p' = foldl snocNew (Paths p) (names ms) \<and>
        BinaryPaths p' = foldl snocNew (BinaryPaths p) (names (filter (\<lambda>d. isBinary (fdContent d)) ms)) \<and>
        PathsToRemove p' = foldl snocNew (PathsToRemove p) (names (filter isRemoved ms)))"
  using assms(1,2,4)
proof (induction ds arbitrary: p)
  case (Cons d ds)
  let ?p = "if IsPathMatched env (fdPath d) then afterFile env d p else p\<lparr>LastSeenPaths := [], parserState := IgnoreDiff\<rparr>"
  have b: "betweenFiles (parserState ?p)" using endState_between by (simp add: afterFile_def Let_def betweenFiles_def)
  have "foldR (handleDiffLine env) p (gitLines d) = Inr ?p" using Cons.prems by (intro file_handled [OF _ _ assms(3)]) simp_all
  moreover have "Out (wrote ls p) = Out p @ unlines ls" for ls p by (simp add: wrote_def)
  ultimately show ?case using Cons.IH [OF _ _ b] Cons.prems by (auto simp: foldR_append afterFile_def Let_def)
qed simp


section \<open>Bytes, chunks and the other pipe\<close>

lemmas handler_defs = writeOutLine_def writeUnrecognizedLine_def handleDeleteFileDiff_def handleNewFileDiff_def handleModifyFileDiff_def
  handleIndexDiffLine_def handleModifyFilePathA_def handleModifyFilePathB_def handleSubmoduleLine_def handleNewFilePath_def
  handleDeleteFilePath_def recordBinary_def handleBinaryBeginHeader_def handleShortBinaryHeader_def handleSimilarityIndex_def
  handleRenameFrom_def

text \<open>Two parsers that differ in the output they have not recognized only.\<close>

definition sim :: "diffParser \<Rightarrow> diffParser \<Rightarrow> bool" where
  "sim p q \<longleftrightarrow> p\<lparr>UnrecognizedCapture := []\<rparr> = q\<lparr>UnrecognizedCapture := []\<rparr>"

lemma sim_refl [simp]: "sim p p"
  by (simp add: sim_def)

lemma sim_cases:
  assumes "sim p q"
  obtains u where "q = p\<lparr>UnrecognizedCapture := u\<rparr>"
  using assms by (cases p; cases q) (simp add: sim_def)

lemma handleDiffPath_sim:
  "handleDiffPath env s prefix (p\<lparr>UnrecognizedCapture := u\<rparr>) =
     map_sum id (\<lambda>(p', t). (p'\<lparr>UnrecognizedCapture := u\<rparr>, t)) (handleDiffPath env s prefix p)"
proof -
  have comm: "p\<lparr>UnrecognizedCapture := u, parserState := x\<rparr> = p\<lparr>parserState := x, UnrecognizedCapture := u\<rparr>"
    "p\<lparr>UnrecognizedCapture := u, Paths := y, LastSeenPaths := z\<rparr> = p\<lparr>Paths := y, LastSeenPaths := z, UnrecognizedCapture := u\<rparr>" for x y z
    by (cases p; simp)+
  show ?thesis by (auto simp: handleDiffPath_def Let_def bindR_def comm split: option.splits sum.splits)
qed

lemma writeOutLine_sim: "sim p q \<Longrightarrow> rel_sum (=) sim (writeOutLine env l p) (writeOutLine env l q)"
  by (erule sim_cases; cases p) (simp add: writeOutLine_def sim_def split: option.splits)

lemma handleDiffBegin_sim:
  assumes "sim p q"
  shows "rel_sum (=) sim (handleDiffBegin env l p) (handleDiffBegin env l q)"
proof -
  obtain u where q: "q = p\<lparr>UnrecognizedCapture := u\<rparr>" using assms by (rule sim_cases)
  have last: "q\<lparr>LastSeenPaths := []\<rparr> = (p\<lparr>LastSeenPaths := []\<rparr>)\<lparr>UnrecognizedCapture := u\<rparr>" by (cases p) (simp add: q)
  have sim_u: "sim r (r\<lparr>UnrecognizedCapture := u\<rparr>)" "sim (r\<lparr>parserState := x\<rparr>) (r\<lparr>UnrecognizedCapture := u, parserState := x\<rparr>)" for r x
    by (cases r; simp add: sim_def)+
  show ?thesis
    unfolding handleDiffBegin_def last handleDiffPath_sim
    by (auto simp: bindR_def sim_u handleDiffPath_sim writeOutLine_sim split: sum.splits option.splits)
qed

lemma handleDiffLine_sim:
  assumes "sim p q"
  shows "rel_sum (=) sim (handleDiffLine env p l) (handleDiffLine env q l)"
proof -
  obtain u where q: "q = p\<lparr>UnrecognizedCapture := u\<rparr>" using assms by (rule sim_cases)
  have same: "parserState q = parserState p" by (simp add: q)
  have upd: "sim (p\<lparr>parserState := x\<rparr>) (q\<lparr>parserState := x\<rparr>)" for x by (cases p) (simp add: q sim_def)
  have h: "rel_sum (=) sim (handleModifyFilePathA env l p) (handleModifyFilePathA env l q)"
    "rel_sum (=) sim (handleModifyFilePathB env l p) (handleModifyFilePathB env l q)"
    "rel_sum (=) sim (handleNewFilePath env l p) (handleNewFilePath env l q)"
    "rel_sum (=) sim (handleDeleteFilePath env l p) (handleDeleteFilePath env l q)"
    "rel_sum (=) sim (handleBinaryBeginHeader env l p) (handleBinaryBeginHeader env l q)"
    "rel_sum (=) sim (handleShortBinaryHeader env l p) (handleShortBinaryHeader env l q)"
    "rel_sum (=) sim (handleRenameFrom env l p) (handleRenameFrom env l q)"
    "rel_sum (=) sim (handleSimilarityIndex p) (handleSimilarityIndex q)"
    "rel_sum (=) sim (handleSubmoduleLine l p) (handleSubmoduleLine l q)"
    "rel_sum (=) sim (handleDeleteFileDiff env l p) (handleDeleteFileDiff env l q)"
    "rel_sum (=) sim (handleNewFileDiff env l p) (handleNewFileDiff env l q)"
    "rel_sum (=) sim (handleModifyFileDiff env l p) (handleModifyFileDiff env l q)"
    "rel_sum (=) sim (handleIndexDiffLine p) (handleIndexDiffLine q)"
    "rel_sum (=) sim (writeUnrecognizedLine l p) (writeUnrecognizedLine l q)"
    by (cases p; simp add: q handler_defs sim_def Let_def split: option.splits)+
  show ?thesis
    unfolding handleDiffLine_def same
    using h upd assms handleDiffBegin_sim [OF assms] writeOutLine_sim [OF assms]
    by (cases "parserState p") (simp_all add: handleIndexDiffLine_def)
qed

lemma handleByte_sim:
  assumes "sim p q"
  shows "rel_sum (=) sim (handleByte env p b) (handleByte env q b)"
proof -
  obtain u where q: "q = p\<lparr>UnrecognizedCapture := u\<rparr>" using assms by (rule sim_cases)
  have "sim (p\<lparr>lineBuf := x\<rparr>) (q\<lparr>lineBuf := x\<rparr>)" for x by (cases p) (simp add: q sim_def)
  then show ?thesis using handleDiffLine_sim by (simp add: handleByte_def q)
qed


section \<open>What holds of the parser for any input\<close>

definition inScope :: "diffEnv \<Rightarrow> string \<Rightarrow> bool" where
  "inScope env x \<longleftrightarrow> (\<exists>path. IsPathMatched env path \<and> x = newName env path)"

definition descOk :: "diffEnv \<Rightarrow> diffParser \<Rightarrow> bool" where
  "descOk env p \<longleftrightarrow> (\<forall>x \<in> set (Paths p). inScope env x) \<and> set (BinaryPaths p) \<subseteq> set (Paths p) \<and>
     set (LastSeenPaths p) \<subseteq> set (Paths p) \<and> distinct (Paths p) \<and> distinct (BinaryPaths p) \<and> distinct (PathsToRemove p)"

definition stepOk :: "diffEnv \<Rightarrow> diffParser \<Rightarrow> diffError + diffParser \<Rightarrow> bool" where
  "stepOk env p r \<longleftrightarrow> (case r of Inl e \<Rightarrow> True | Inr p' \<Rightarrow> descOk env p' \<and> lineBuf p' = lineBuf p)"

lemma descOk_frame [simp]:
  "descOk env (p\<lparr>parserState := s\<rparr>) = descOk env p" "descOk env (p\<lparr>lineBuf := l\<rparr>) = descOk env p"
  "descOk env (p\<lparr>UnrecognizedCapture := u\<rparr>) = descOk env p" "descOk env (p\<lparr>OutLines := n, Out := out\<rparr>) = descOk env p"
  by (simp_all add: descOk_def)

lemma writeOutLine_ok: "descOk env p \<Longrightarrow> lineBuf p = lineBuf p0 \<Longrightarrow> stepOk env p0 (writeOutLine env l p)"
  by (simp add: stepOk_def writeOutLine_def split: option.splits)

lemma handleDiffPath_ok:
  assumes "handleDiffPath env s prefix p = Inr (p', t)" and "descOk env p"
  shows "descOk env p' \<and> lineBuf p' = lineBuf p"
  using assms by (auto simp: handleDiffPath_def Let_def bindR_Inr descOk_def appendUnique_def inScope_def newName_def split: if_splits)

lemma handleDiffBegin_ok:
  assumes "descOk env p"
  shows "stepOk env p (handleDiffBegin env l p)"
proof -
  have start: "descOk env (p\<lparr>LastSeenPaths := []\<rparr>)" using assms by (simp add: descOk_def)
  show ?thesis
  proof (cases "handleDiffBegin env l p")
    case (Inr r)
    then obtain a b p1 t where p1: "splitPaths l = Inr (a, b)" "handleDiffPath env a ''a/'' (p\<lparr>LastSeenPaths := []\<rparr>) = Inr (p1, t)"
      by (auto simp: handleDiffBegin_def bindR_Inr)
    note ok1 = handleDiffPath_ok [OF p1(2) start]
    show ?thesis
    proof (cases t)
      case None
      then show ?thesis using Inr p1 ok1 by (simp add: handleDiffBegin_def stepOk_def)
    next
      case (Some ta)
      then obtain p2 u where p2: "handleDiffPath env b ''b/'' p1 = Inr (p2, u)" using Inr p1 by (auto simp: handleDiffBegin_def bindR_Inr)
      have ok2: "descOk env p2 \<and> lineBuf p2 = lineBuf p" using handleDiffPath_ok [OF p2] ok1 by simp
      then show ?thesis
        using p1 p2 Some writeOutLine_ok [of env "p2\<lparr>parserState := DiffBegin\<rparr>" p]
        by (cases u) (simp_all add: handleDiffBegin_def stepOk_def)
    qed
  qed (simp add: stepOk_def)
qed

lemma handlers_ok:
  assumes "descOk env p"
  shows "stepOk env p (handleModifyFilePathA env l p)" "stepOk env p (handleModifyFilePathB env l p)"
    "stepOk env p (handleNewFilePath env l p)" "stepOk env p (handleDeleteFilePath env l p)"
    "stepOk env p (handleBinaryBeginHeader env l p)" "stepOk env p (handleShortBinaryHeader env l p)"
    "stepOk env p (handleRenameFrom env l p)" "stepOk env p (handleSimilarityIndex p)" "stepOk env p (handleSubmoduleLine l p)"
    "stepOk env p (handleDeleteFileDiff env l p)" "stepOk env p (handleNewFileDiff env l p)" "stepOk env p (handleModifyFileDiff env l p)"
    "stepOk env p (handleIndexDiffLine p)" "stepOk env p (handleIndexDiffLine (p\<lparr>parserState := ModifyFileDiff\<rparr>))"
    "stepOk env p (writeUnrecognizedLine l p)" "stepOk env p (writeOutLine env l p)" "stepOk env p (Inr p)" "stepOk env p (Inl e)"
  using assms
  by (simp_all add: handler_defs Let_def stepOk_def split: option.splits)
    (auto simp: descOk_def appendUnique_def)

lemma handleDiffLine_ok: "descOk env p \<Longrightarrow> stepOk env p (handleDiffLine env p l)"
  using handlers_ok [of env p] handleDiffBegin_ok [of env p l]
  by (cases "parserState p") (simp_all add: handleDiffLine_def)

lemma handleByte_ok:
  assumes "handleByte env p b = Inr p'" and "descOk env p" and "newline \<notin> set (lineBuf p)"
  shows "descOk env p' \<and> newline \<notin> set (lineBuf p')"
  using assms handleDiffLine_ok [of env "p\<lparr>lineBuf := []\<rparr>" "lineBuf p"] by (auto simp: handleByte_def stepOk_def split: if_splits)


section \<open>From lines to chunks\<close>

lemma buffered: "newline \<notin> set l \<Longrightarrow> foldR (handleByte env) p l = Inr (p\<lparr>lineBuf := lineBuf p @ l\<rparr>)"
  by (induction l arbitrary: p) (auto simp: handleByte_def)

lemma HandleStdout_line:
  assumes "newline \<notin> set l" and "lineBuf p = []"
  shows "foldR (handleByte env) p (l @ [newline]) = handleDiffLine env p l"
proof -
  have "p\<lparr>lineBuf := []\<rparr> = p" using assms(2) by (cases p) simp
  then have "foldR (handleByte env) (p\<lparr>lineBuf := l\<rparr>) [newline] = handleDiffLine env p l"
    by (cases "handleDiffLine env p l") (simp_all add: handleByte_def)
  then show ?thesis using foldR_step(2) [OF buffered [OF assms(1), of env p]] assms(2) by simp
qed

lemma HandleStdout_lines:
  assumes "list_all (\<lambda>l. newline \<notin> set l) ls" and "lineBuf p = []" and "descOk env p"
  shows "HandleStdout env p (unlines ls) = foldR (handleDiffLine env) p ls"
  using assms
proof (induction ls arbitrary: p)
  case (Cons l ls)
  have line: "foldR (handleByte env) p (l @ [newline]) = handleDiffLine env p l" using Cons.prems by (intro HandleStdout_line) simp_all
  have split: "unlines (l # ls) = (l @ [newline]) @ unlines ls" by simp
  show ?case
  proof (cases "handleDiffLine env p l")
    case (Inl e)
    then show ?thesis unfolding HandleStdout_def split foldR_append [of _ _ "l @ [newline]" "unlines ls"] line by simp
  next
    case (Inr p1)
    then have "descOk env p1 \<and> lineBuf p1 = []" using handleDiffLine_ok [of env p l] Cons.prems by (simp add: stepOk_def)
    then have "foldR (handleByte env) p1 (unlines ls) = foldR (handleDiffLine env) p1 ls"
      using Cons.IH [of p1] Cons.prems(1) by (simp add: HandleStdout_def)
    then show ?thesis using Inr unfolding HandleStdout_def split foldR_append [of _ _ "l @ [newline]" "unlines ls"] line by simp
  qed
qed (simp add: HandleStdout_def)

definition stdoutOf :: "stdPipeItem list \<Rightarrow> string" where
  "stdoutOf items = concat (map (\<lambda>item. case item of StdoutItem data \<Rightarrow> data | _ \<Rightarrow> []) items)"

definition noPipeError :: "stdPipeItem list \<Rightarrow> bool" where
  "noPipeError items \<longleftrightarrow> list_all (\<lambda>item. case item of ErrItem _ \<Rightarrow> False | _ \<Rightarrow> True) items"

lemma foldR_related:
  assumes "\<And>s t x. R s t \<Longrightarrow> rel_sum (=) R (f s x) (g t x)" and "R s t"
  shows "rel_sum (=) R (foldR f s xs) (foldR g t xs)"
  using assms(2)
proof (induction xs arbitrary: s t)
  case (Cons x xs)
  from assms(1) [OF Cons.prems, of x] show ?case by (cases rule: rel_sum.cases) (simp_all add: Cons.IH)
qed simp

text \<open>The parser sees the bytes of the standard output only, however they are cut and mixed with the error output.\<close>

lemma items_handled:
  assumes "sim p q" and "noPipeError items"
  shows "rel_sum (=) sim (foldR (handleItem env) p items) (HandleStdout env q (stdoutOf items))"
  using assms
proof (induction items arbitrary: p q)
  case (Cons item items)
  show ?case
  proof (cases item)
    case (StdoutItem data)
    have "rel_sum (=) sim (HandleStdout env p data) (HandleStdout env q data)"
      unfolding HandleStdout_def using handleByte_sim Cons.prems(1) by (rule foldR_related)
    then show ?thesis
    proof (cases rule: rel_sum.cases)
      case (1 e e')
      then show ?thesis using StdoutItem by (simp add: handleItem_def stdoutOf_def HandleStdout_def foldR_append)
    next
      case (2 p1 q1)
      then show ?thesis using StdoutItem Cons.IH [OF 2(3)] Cons.prems(2) by (simp add: handleItem_def stdoutOf_def HandleStdout_def foldR_append noPipeError_def)
    qed
  next
    case (StderrItem data)
    have "sim (HandleStderr data p) q" using Cons.prems(1) by (cases p; cases q) (simp add: sim_def HandleStderr_def)
    from Cons.IH [OF this] show ?thesis using StderrItem Cons.prems(2) by (simp add: handleItem_def stdoutOf_def noPipeError_def)
  qed (use Cons.prems(2) in \<open>simp add: noPipeError_def\<close>)
qed (simp add: stdoutOf_def HandleStdout_def)

lemma parsePatch_lines:
  assumes "stdoutOf items = unlines ls" and "noPipeError items" and "list_all (\<lambda>l. newline \<notin> set l) ls"
  shows "parsePatch env None items = bindR (foldR (handleDiffLine env) makeDiffParser ls) (\<lambda>p.
    Inr (Out p, \<lparr>descPaths = Paths p, descBinaryPaths = BinaryPaths p, descPathsToRemove = PathsToRemove p\<rparr>))"
proof -
  have "lineBuf makeDiffParser = []" "descOk env makeDiffParser" by (simp_all add: makeDiffParser_def descOk_def)
  then have "HandleStdout env makeDiffParser (stdoutOf items) = foldR (handleDiffLine env) makeDiffParser ls"
    unfolding assms(1) using HandleStdout_lines assms(3) by blast
  then have "rel_sum (=) sim (foldR (handleItem env) makeDiffParser items) (foldR (handleDiffLine env) makeDiffParser ls)"
    using items_handled [of makeDiffParser makeDiffParser items env] assms(2) by simp
  then show ?thesis
  proof (cases rule: rel_sum.cases)
    case (2 p q)
    then show ?thesis by (cases p; cases q) (simp add: parsePatch_def sim_def)
  qed (simp add: parsePatch_def)
qed

lemma parsePatch_files:
  assumes "stdoutOf items = unlines (concat (map gitLines ds))" and "noPipeError items" and "list_all fileDiffOk ds"
    and "list_all (\<lambda>d. spacesOk env (fdPath d)) ds" and "writable env"
  shows "let ms = filter (\<lambda>d. IsPathMatched env (fdPath d)) ds; names = (\<lambda>fs. foldl snocNew [] (map (\<lambda>d. newName env (fdPath d)) fs))
    in parsePatch env None items = Inr (unlines (concat (map (patchLines env) ms)),
      \<lparr>descPaths = names ms, descBinaryPaths = names (filter (\<lambda>d. isBinary (fdContent d)) ms),
       descPathsToRemove = names (filter isRemoved ms)\<rparr>)"
proof -
  let ?p = makeDiffParser
  have start: "betweenFiles (parserState ?p)" "Out ?p = []" "Paths ?p = []" "BinaryPaths ?p = []" "PathsToRemove ?p = []"
    by (simp_all add: makeDiffParser_def betweenFiles_def)
  have "list_all (\<lambda>l. newline \<notin> set l) (concat (map gitLines ds))" using assms(3) by (auto simp: list_all_iff fileDiffOk_def)
  note parsePatch_lines [OF assms(1,2) this]
  then show ?thesis using files_handled [OF assms(3-5) start(1)] start(2-5) unfolding Let_def by auto
qed

section \<open>Properties of the parser\<close>

text \<open>C11: Fed with the diffs that git prints without rename detection for modified, created and deleted files, in chunks of any size and
  mixed with error output in any way, the parser succeeds; the patch consists of the diffs of the files that the matcher selects,
  under their names relative to the scope and without the index lines, and the descriptor lists these names, those of the binary
  files among them and those of the deleted files among them that had any content, each once and in order. The theorem covers
  paths that git prints without quotes and that do not contain the separator \<open>b/\<close> of the header line after a space, lines
  without a line break, bodies in which no line begins like the header of a file or of a submodule, and modified files with an
  index line or a change of mode; a path with a space must not be renamed and must keep the tab that git puts after it when it
  is made relative. Neither the pipe nor the output fails. A deleted empty file is among the paths, but not among the removed.\<close>

theorem patch_of_file_diffs:
  assumes "stdoutOf items = unlines (concat (map gitLines ds))" and "noPipeError items" and "list_all fileDiffOk ds"
    and "list_all (\<lambda>d. spacesOk env (fdPath d)) ds" and "writable env"
  shows "let ms = filter (\<lambda>d. IsPathMatched env (fdPath d)) ds; names = (\<lambda>fs. foldl snocNew [] (map (\<lambda>d. newName env (fdPath d)) fs))
    in parsePatch env None items = Inr (unlines (concat (map (patchLines env) ms)),
      \<lparr>descPaths = names ms, descBinaryPaths = names (filter (\<lambda>d. isBinary (fdContent d)) ms),
       descPathsToRemove = names (filter isRemoved ms)\<rparr>)"
  using assms by (rule parsePatch_files)

text \<open>Whatever bytes git prints, every path of the descriptor is the new name of a path that the matcher selects, the binary paths are
  among the paths, and no list has duplicates.\<close>

theorem descriptor_in_scope:
  assumes "parsePatch env waitError items = Inr (patch, desc)"
  shows "(\<forall>x \<in> set (descPaths desc). inScope env x) \<and> set (descBinaryPaths desc) \<subseteq> set (descPaths desc) \<and>
    distinct (descPaths desc) \<and> distinct (descBinaryPaths desc) \<and> distinct (descPathsToRemove desc)"
proof -
  obtain p where p: "foldR (handleItem env) makeDiffParser items = Inr p" and desc: "desc =
      \<lparr>descPaths = Paths p, descBinaryPaths = BinaryPaths p, descPathsToRemove = PathsToRemove p\<rparr>"
    using assms by (auto simp: parsePatch_def bindR_Inr split: option.splits)
  have bytes: "descOk env p' \<and> newline \<notin> set (lineBuf p')"
    if "HandleStdout env p0 data = Inr p'" "descOk env p0 \<and> newline \<notin> set (lineBuf p0)" for p0 p' data
    using foldR_invariant [of "handleByte env" p0 data p' "\<lambda>p. descOk env p \<and> newline \<notin> set (lineBuf p)"] that handleByte_ok
    by (auto simp: HandleStdout_def)
  have "descOk env p \<and> newline \<notin> set (lineBuf p)"
  proof (rule foldR_invariant [OF p])
    show "descOk env makeDiffParser \<and> newline \<notin> set (lineBuf makeDiffParser)" by (simp add: makeDiffParser_def descOk_def)
    show "descOk env s' \<and> newline \<notin> set (lineBuf s')" if "handleItem env s x = Inr s'" "descOk env s \<and> newline \<notin> set (lineBuf s)" for s x s'
      using that bytes by (auto simp: handleItem_def HandleStderr_def split: stdPipeItem.splits)
  qed
  then show ?thesis by (simp add: desc descOk_def)
qed


text \<open>The deletion of an empty file in scope, for which git prints no line with the path, is not recorded among the paths to
  remove.\<close>

theorem empty_file_not_removed:
  assumes "stdoutOf items = unlines (gitLines d)" and "noPipeError items" and "fileDiffOk d" and "spacesOk env (fdPath d)" and "writable env"
    and "fdKind d = Deleted mode" and "fdContent d = NoContent" and "IsPathMatched env (fdPath d)"
  shows "\<exists>patch. parsePatch env None items =
    Inr (patch, \<lparr>descPaths = [newName env (fdPath d)], descBinaryPaths = [], descPathsToRemove = []\<rparr>)"
  using parsePatch_files [of items "[d]" env] assms by (simp add: isRemoved_def Let_def)

section \<open>Instances\<close>

text \<open>A scope of one directory, a matcher that selects the files below it, and one renamed file.\<close>

definition sampleDiffEnv :: diffEnv where
  "sampleDiffEnv = \<lparr>PathScope = ''app'', IsPathMatched = (\<lambda>path. HasPrefix path ''app/''), FileRenames = [(''app/b'', ''c'')],
     GetRelativeToBaseFilepath = (\<lambda>base path. TrimPrefix path (base @ ''/'')), unicodePrint = (\<lambda>_. False), outError = (\<lambda>_ _. None)\<rparr>"

definition sampleDiffs :: "fileDiff list" where
  "sampleDiffs = [\<lparr>fdPath = ''app/b'', fdKind = Modified None, fdIndex = Some ''1..2'', fdContent = Hunks [''@@ -1 +1 @@'', ''-x'', ''+y'']\<rparr>,
     \<lparr>fdPath = ''doc/b'', fdKind = Created ''100644'', fdIndex = Some ''0..1'', fdContent = Hunks [''@@ -0,0 +1 @@'', ''+y'']\<rparr>,
     \<lparr>fdPath = ''app/d e'', fdKind = Deleted ''100644'', fdIndex = Some ''1..0'', fdContent = Hunks [''@@ -1 +0,0 @@'', ''-z'']\<rparr>]"

lemma sampleDiffEnv_writable: "writable sampleDiffEnv"
  by (simp add: writable_def sampleDiffEnv_def)

theorem patch_of_file_diffs_witness:
  "parsePatch sampleDiffEnv None [StdoutItem (take 7 (unlines (concat (map gitLines sampleDiffs)))), StderrItem ''warning'',
      StdoutItem (drop 7 (unlines (concat (map gitLines sampleDiffs))))] =
    Inr (unlines [''diff --git a/c b/c'', ''--- a/c'', ''+++ b/c'', ''@@ -1 +1 @@'', ''-x'', ''+y'',
      ''diff --git a/d e b/d e'', ''deleted file mode 100644'', ''--- a/d e'', ''+++ /dev/null'', ''@@ -1 +0,0 @@'', ''-z''],
      \<lparr>descPaths = [''c'', ''d e''], descBinaryPaths = [], descPathsToRemove = [''d e'']\<rparr>)"
proof -
  let ?data = "unlines (concat (map gitLines sampleDiffs))"
  let ?ms = "filter (\<lambda>d. IsPathMatched sampleDiffEnv (fdPath d)) sampleDiffs"
  have items: "stdoutOf [StdoutItem (take 7 ?data), StderrItem ''warning'', StdoutItem (drop 7 ?data)] = ?data"
    "noPipeError [StdoutItem (take 7 ?data), StderrItem ''warning'', StdoutItem (drop 7 ?data)]"
    by (simp_all add: stdoutOf_def noPipeError_def)
  have ok: "list_all fileDiffOk sampleDiffs" "list_all (\<lambda>d. spacesOk sampleDiffEnv (fdPath d)) sampleDiffs" by code_simp+
  have lines: "concat (map (patchLines sampleDiffEnv) ?ms) = [''diff --git a/c b/c'', ''--- a/c'', ''+++ b/c'', ''@@ -1 +1 @@'', ''-x'', ''+y'',
      ''diff --git a/d e b/d e'', ''deleted file mode 100644'', ''--- a/d e'', ''+++ /dev/null'', ''@@ -1 +0,0 @@'', ''-z'']" by code_simp
  have names: "foldl snocNew [] (map (\<lambda>d. newName sampleDiffEnv (fdPath d)) ?ms) = [''c'', ''d e'']"
    "foldl snocNew [] (map (\<lambda>d. newName sampleDiffEnv (fdPath d)) (filter (\<lambda>d. isBinary (fdContent d)) ?ms)) = []"
    "foldl snocNew [] (map (\<lambda>d. newName sampleDiffEnv (fdPath d)) (filter isRemoved ?ms)) = [''d e'']" by code_simp+
  from patch_of_file_diffs [OF items ok sampleDiffEnv_writable] show ?thesis unfolding Let_def lines names .
qed

theorem descriptor_in_scope_witness: "inScope sampleDiffEnv ''x''"
proof -
  let ?d = "\<lparr>fdPath = ''app/x'', fdKind = Modified (Some (''100644'', ''100755'')), fdIndex = None, fdContent = NoContent\<rparr>"
  have out: "stdoutOf [StdoutItem (unlines (gitLines ?d))] = unlines (concat (map gitLines [?d]))"
    "noPipeError [StdoutItem (unlines (gitLines ?d))]" by (simp_all add: stdoutOf_def noPipeError_def)
  have ok: "list_all fileDiffOk [?d]" "list_all (\<lambda>d. spacesOk sampleDiffEnv (fdPath d)) [?d]" by code_simp+
  have "IsPathMatched sampleDiffEnv ''app/x''" "newName sampleDiffEnv ''app/x'' = ''x''" by code_simp+
  then have "\<exists>patch. parsePatch sampleDiffEnv None [StdoutItem (unlines (gitLines ?d))] =
      Inr (patch, \<lparr>descPaths = [''x''], descBinaryPaths = [], descPathsToRemove = []\<rparr>)"
    using parsePatch_files [OF out ok sampleDiffEnv_writable] by (simp add: Let_def isRemoved_def)
  then show ?thesis using descriptor_in_scope by fastforce
qed

theorem empty_file_not_removed_witness:
  "\<exists>patch. parsePatch sampleDiffEnv None [StdoutItem (unlines (gitLines
      \<lparr>fdPath = ''app/empty'', fdKind = Deleted ''100644'', fdIndex = Some ''e69de29..0000000'', fdContent = NoContent\<rparr>))] =
    Inr (patch, \<lparr>descPaths = [''empty''], descBinaryPaths = [], descPathsToRemove = []\<rparr>)"
proof -
  let ?d = "\<lparr>fdPath = ''app/empty'', fdKind = Deleted ''100644'', fdIndex = Some ''e69de29..0000000'', fdContent = NoContent\<rparr>"
  have out: "stdoutOf [StdoutItem (unlines (gitLines ?d))] = unlines (gitLines ?d)"
    "noPipeError [StdoutItem (unlines (gitLines ?d))]" by (simp_all add: stdoutOf_def noPipeError_def)
  have ok: "fileDiffOk ?d" "spacesOk sampleDiffEnv (fdPath ?d)" "IsPathMatched sampleDiffEnv (fdPath ?d)" by code_simp+
  have "newName sampleDiffEnv (fdPath ?d) = ''empty''" by code_simp
  then show ?thesis
    using empty_file_not_removed [OF out ok(1,2) sampleDiffEnv_writable _ _ ok(3), of "''100644''"] by simp
qed

text \<open>A path that contains the separator of the header is read as two other paths: the file is lost when these are not selected.\<close>

lemma separator_in_path_misread: "splitPaths (headerLine ''app b/x'') = Inr (''a/app'', ''b/x b/app b/x'')"
  by code_simp

text \<open>The lookup of a renamed file with a space in its path misses the name that ends with a tab.\<close>

lemma renamed_with_space:
  "applyFileRenames (sampleDiffEnv\<lparr>FileRenames := [(''app/a b'', ''c'')]\<rparr>) ''app/a b'' = ''app/c'' \<and>
   applyFileRenames (sampleDiffEnv\<lparr>FileRenames := [(''app/a b'', ''c'')]\<rparr>) (tabbed ''app/a b'') = tabbed ''app/a b''"
  by code_simp

end
