(* ===== verification/PathMatcher.thy ===== *)
theory PathMatcher
  imports GoStrings
begin

text \<open>
  The path matchers, \<^verbatim>\<open>pkg/path_matcher\<close>: matching of paths against a base path, include and exclude globs, ignore
  patterns of Dockerfiles and combinations of these, the question whether a directory has to be entered, and the identifiers
  that the caches of archives, patches and checksums use as keys. The glob and ignore pattern libraries and the helpers
  on file paths are parameters (\<open>matcherLib\<close>). A bad pattern ends the program; it is an error value here. The methods
  \<^verbatim>\<open>String\<close> are log output and left out. The pattern matcher of a Dockerfile matcher is never nil, since its constructor
  sets it.
\<close>

section \<open>Globs\<close>

record ignorePattern =
  patString :: string
  Exclusion :: bool

record matcherLib =
  SplitFilepath :: "string \<Rightarrow> string list"
  SafeTrimGlobsAndSlashesFromFilepath :: "string \<Rightarrow> string"
  IsSubpathOfBasePath :: "string \<Rightarrow> string \<Rightarrow> bool"
  relToBase :: "string \<Rightarrow> string \<Rightarrow> string"
  PathMatch :: "string \<Rightarrow> string \<Rightarrow> bool option"
  newIgnorePatterns :: "string list \<Rightarrow> ignorePattern list option"
  ignoreMatches :: "ignorePattern list \<Rightarrow> string \<Rightarrow> bool option"
  MatchesUsingParentResult :: "ignorePattern list \<Rightarrow> string \<Rightarrow> bool \<Rightarrow> bool option"
  Sha256Hash :: "string list \<Rightarrow> string"

datatype matchError = BadGlob string string | NoGlobParts string | BadIgnorePattern string | BadIgnoreMatcher

definition matchGlob :: "matcherLib \<Rightarrow> string \<Rightarrow> string \<Rightarrow> matchError + (string \<times> string)" where
  "matchGlob lib pathPart glob =
     (case SplitFilepath lib glob of
        [] \<Rightarrow> Inl (NoGlobParts glob)
      | part # parts \<Rightarrow>
          (case PathMatch lib part pathPart of
             None \<Rightarrow> Inl (BadGlob part pathPart)
           | Some isMatched \<Rightarrow>
               Inr (if \<not> isMatched then ([], [])
                    else if Contains part ''**'' then (glob, [])
                    else if parts \<noteq> [] then (PathJoin parts, [])
                    else ([], glob))))"

definition matchGlobs :: "matcherLib \<Rightarrow> string \<Rightarrow> string list \<Rightarrow> matchError + (string list \<times> string list)" where
  "matchGlobs lib pathPart globs =
     foldR (\<lambda>(inProgressGlobs, matchedGlobs) glob.
       bindR (matchGlob lib pathPart glob) (\<lambda>(inProgressGlob, matchedGlob).
         Inr (if inProgressGlob \<noteq> [] then (inProgressGlobs @ [inProgressGlob], matchedGlobs)
              else if matchedGlob \<noteq> [] then (inProgressGlobs, matchedGlobs @ [matchedGlob])
              else (inProgressGlobs, matchedGlobs)))) ([], []) globs"

definition hasUniversalGlob :: "matcherLib \<Rightarrow> string list \<Rightarrow> bool" where
  "hasUniversalGlob lib globs = list_ex (\<lambda>glob. glob = ''.'' \<or> SafeTrimGlobsAndSlashesFromFilepath lib glob = []) globs"

text \<open>A search that stops at the first success and at the first error.\<close>

fun anyR :: "('a \<Rightarrow> 'e + bool) \<Rightarrow> 'a list \<Rightarrow> 'e + bool" where
  "anyR f [] = Inr False"
| "anyR f (x # xs) = bindR (f x) (\<lambda>b. if b then Inr True else anyR f xs)"

definition isPathMatched :: "matcherLib \<Rightarrow> string \<Rightarrow> string \<Rightarrow> matchError + bool" where
  "isPathMatched lib filePath glob =
     anyR (\<lambda>g. case PathMatch lib g filePath of None \<Rightarrow> Inl (BadGlob g filePath) | Some matched \<Rightarrow> Inr matched)
       [glob, SafeTrimGlobsAndSlashesFromFilepath lib glob,
        PathJoin [SafeTrimGlobsAndSlashesFromFilepath lib glob, ''**'', ''*'']]"

definition isAnyPatternMatched :: "matcherLib \<Rightarrow> string \<Rightarrow> string list \<Rightarrow> matchError + bool" where
  "isAnyPatternMatched lib path patterns = anyR (isPathMatched lib path) patterns"

definition formatPath :: "string \<Rightarrow> string" where
  "formatPath path = (if path = [] \<or> path = ''.'' \<or> path = ''/'' then [] else Clean path)"

definition formatPaths :: "string list \<Rightarrow> string list" where
  "formatPaths paths = map formatPath paths"

section \<open>The matchers\<close>

datatype PathMatcher =
    BasePathMatcher string "PathMatcher option"
  | IncludePathMatcher "string list"
  | ExcludePathMatcher "string list"
  | DockerfileIgnorePathMatcher "ignorePattern list"
  | MultiPathMatcher "PathMatcher list"
  | TruePathMatcher
  | FalsePathMatcher

definition newBasePathMatcher :: "string \<Rightarrow> PathMatcher \<Rightarrow> PathMatcher" where
  "newBasePathMatcher basePath matcher = BasePathMatcher (formatPath basePath) (Some matcher)"

definition newIncludePathMatcher :: "string list \<Rightarrow> PathMatcher" where
  "newIncludePathMatcher includePaths = IncludePathMatcher (formatPaths includePaths)"

definition newExcludePathMatcher :: "string list \<Rightarrow> PathMatcher" where
  "newExcludePathMatcher excludeGlobs = ExcludePathMatcher (formatPaths excludeGlobs)"

definition NewMultiPathMatcher :: "PathMatcher list \<Rightarrow> PathMatcher" where
  "NewMultiPathMatcher matchers = MultiPathMatcher (if matchers = [] then [TruePathMatcher] else matchers)"

definition checkIgnorePattern :: "matcherLib \<Rightarrow> string \<Rightarrow> matchError + unit" where
  "checkIgnorePattern lib pattern =
     (case newIgnorePatterns lib [pattern] of
        None \<Rightarrow> Inl (BadIgnorePattern pattern)
      | Some ps \<Rightarrow>
          (case MatchesUsingParentResult lib ps ''.'' (list_ex Exclusion ps) of
             None \<Rightarrow> Inl (BadIgnorePattern pattern)
           | Some _ \<Rightarrow> Inr ()))"

definition NewDockerfileIgnorePathMatcher :: "matcherLib \<Rightarrow> string list \<Rightarrow> matchError + PathMatcher" where
  "NewDockerfileIgnorePathMatcher lib dockerignorePatterns =
     bindR (foldR (\<lambda>_ pattern. checkIgnorePattern lib pattern) () dockerignorePatterns) (\<lambda>_.
     case newIgnorePatterns lib dockerignorePatterns of
       None \<Rightarrow> Inl BadIgnoreMatcher
     | Some ps \<Rightarrow> Inr (DockerfileIgnorePathMatcher ps))"

record PathMatcherOptions =
  BasePath :: string
  IncludeGlobs :: "string list"
  ExcludeGlobs :: "string list"
  Matchers :: "PathMatcher list"

definition NewPathMatcher :: "PathMatcherOptions \<Rightarrow> PathMatcher" where
  "NewPathMatcher options =
     (let matchers = (if IncludeGlobs options \<noteq> [] then [newIncludePathMatcher (IncludeGlobs options)] else []);
          matchers = matchers @ (if ExcludeGlobs options \<noteq> [] then [newExcludePathMatcher (ExcludeGlobs options)] else []);
          matchers = matchers @ Matchers options;
          matchers = (if matchers = [] then [TruePathMatcher] else matchers);
          matcher = NewMultiPathMatcher matchers
      in if BasePath options \<noteq> [] then newBasePathMatcher (BasePath options) matcher else matcher)"

subsection \<open>Complete matches\<close>

fun IsPathMatched :: "matcherLib \<Rightarrow> PathMatcher \<Rightarrow> string \<Rightarrow> matchError + bool"
  and allPathMatched :: "matcherLib \<Rightarrow> PathMatcher list \<Rightarrow> string \<Rightarrow> matchError + bool" where
  "IsPathMatched lib (BasePathMatcher basePath matcher) path =
     (let path = formatPath path
      in if \<not> (IsSubpathOfBasePath lib basePath path \<or> basePath = path) then Inr False
         else (case matcher of None \<Rightarrow> Inr True | Some m \<Rightarrow> IsPathMatched lib m (relToBase lib basePath path)))"
| "IsPathMatched lib (IncludePathMatcher includeGlobs) path =
     (if length includeGlobs > 0 then isAnyPatternMatched lib (formatPath path) includeGlobs else Inr True)"
| "IsPathMatched lib (ExcludePathMatcher excludeGlobs) path =
     (if length excludeGlobs > 0 then bindR (isAnyPatternMatched lib (formatPath path) excludeGlobs) (\<lambda>b. Inr (\<not> b)) else Inr True)"
| "IsPathMatched lib (DockerfileIgnorePathMatcher ps) path =
     (case ignoreMatches lib ps (formatPath path) of None \<Rightarrow> Inl (BadIgnorePattern path) | Some isMatched \<Rightarrow> Inr (\<not> isMatched))"
| "IsPathMatched lib (MultiPathMatcher matchers) path = allPathMatched lib matchers path"
| "IsPathMatched lib TruePathMatcher path = Inr True"
| "IsPathMatched lib FalsePathMatcher path = Inr False"
| "allPathMatched lib [] path = Inr True"
| "allPathMatched lib (m # ms) path =
     bindR (IsPathMatched lib m path) (\<lambda>b. if \<not> b then Inr False else allPathMatched lib ms path)"

subsection \<open>Directories to go through\<close>

definition includeShouldGoThrough :: "matcherLib \<Rightarrow> string list \<Rightarrow> string \<Rightarrow> matchError + bool" where
  "includeShouldGoThrough lib includeGlobs path =
     (if length includeGlobs = 0 then Inr False
      else if hasUniversalGlob lib includeGlobs then Inr False
      else if path = [] then Inr True
      else bindR (foldR (\<lambda>globsInProgress pathPart.
             if length globsInProgress = 0 then Inr globsInProgress
             else bindR (matchGlobs lib pathPart globsInProgress) (\<lambda>(globsInProgress, _). Inr globsInProgress))
             includeGlobs (SplitFilepath lib path)) (\<lambda>globsInProgress.
           Inr (length globsInProgress \<noteq> 0 \<and> \<not> hasUniversalGlob lib globsInProgress)))"

definition excludeShouldGoThrough :: "matcherLib \<Rightarrow> string list \<Rightarrow> string \<Rightarrow> matchError + bool" where
  "excludeShouldGoThrough lib excludeGlobs path =
     (if length excludeGlobs = 0 then Inr False
      else if hasUniversalGlob lib excludeGlobs then Inr False
      else if path = [] then Inr True
      else bindR (foldR (\<lambda>(globsInProgress, matchedGlobs) pathPart.
             if length globsInProgress = 0 then Inr (globsInProgress, matchedGlobs)
             else matchGlobs lib pathPart globsInProgress)
             (excludeGlobs, []) (SplitFilepath lib path)) (\<lambda>(globsInProgress, matchedGlobs).
           Inr (length matchedGlobs = 0 \<and> length globsInProgress \<noteq> 0 \<and> \<not> hasUniversalGlob lib globsInProgress)))"

record patternProgress =
  pattern :: string
  progressExclusion :: bool
  isMatched :: bool
  isInProgress :: bool

definition advancePattern :: "matcherLib \<Rightarrow> string \<Rightarrow> patternProgress list \<Rightarrow> patternProgress \<Rightarrow> matchError + patternProgress list" where
  "advancePattern lib pathPart ps p =
     (if \<not> isInProgress p then Inr (ps @ [p])
      else bindR (matchGlob lib pathPart (pattern p)) (\<lambda>(inProgressGlob, matchedGlob).
        Inr (ps @ [if inProgressGlob \<noteq> [] then p\<lparr>pattern := inProgressGlob\<rparr>
                   else if matchedGlob \<noteq> [] then p\<lparr>isMatched := True, isInProgress := False\<rparr>
                   else p\<lparr>isInProgress := False\<rparr>])))"

definition ignoreShouldGoThrough :: "matcherLib \<Rightarrow> ignorePattern list \<Rightarrow> string \<Rightarrow> matchError + bool" where
  "ignoreShouldGoThrough lib ps path =
     (if length ps = 0 then Inr False
      else if path = [] then Inr True
      else bindR (foldR (\<lambda>patterns pathPart. foldR (advancePattern lib pathPart) [] patterns)
             (map (\<lambda>p. \<lparr>pattern = patString p, progressExclusion = Exclusion p, isMatched = False, isInProgress = True\<rparr>) ps)
             (SplitFilepath lib path)) (\<lambda>patterns.
           Inr (foldl (\<lambda>shouldGoThrough p. if isMatched p then False else if isInProgress p then True else shouldGoThrough)
                 False patterns)))"

fun ShouldGoThrough :: "matcherLib \<Rightarrow> PathMatcher \<Rightarrow> string \<Rightarrow> matchError + bool"
  and multiShouldGoThrough :: "matcherLib \<Rightarrow> PathMatcher list \<Rightarrow> string \<Rightarrow> bool \<Rightarrow> matchError + bool" where
  "ShouldGoThrough lib (BasePathMatcher basePath matcher) path =
     (let path = formatPath path
      in if IsSubpathOfBasePath lib path basePath then Inr True
         else (case matcher of None \<Rightarrow> Inr False | Some m \<Rightarrow> ShouldGoThrough lib m (relToBase lib basePath path)))"
| "ShouldGoThrough lib (IncludePathMatcher includeGlobs) path = includeShouldGoThrough lib includeGlobs (formatPath path)"
| "ShouldGoThrough lib (ExcludePathMatcher excludeGlobs) path = excludeShouldGoThrough lib excludeGlobs (formatPath path)"
| "ShouldGoThrough lib (DockerfileIgnorePathMatcher ps) path = ignoreShouldGoThrough lib ps (formatPath path)"
| "ShouldGoThrough lib (MultiPathMatcher matchers) path = multiShouldGoThrough lib matchers path False"
| "ShouldGoThrough lib TruePathMatcher path = Inr False"
| "ShouldGoThrough lib FalsePathMatcher path = Inr False"
| "multiShouldGoThrough lib [] path shouldGoThrough = Inr shouldGoThrough"
| "multiShouldGoThrough lib (m # ms) path shouldGoThrough =
     bindR (ShouldGoThrough lib m path) (\<lambda>b.
       if b then multiShouldGoThrough lib ms path True
       else bindR (IsPathMatched lib m path) (\<lambda>c.
         if \<not> c then Inr False else multiShouldGoThrough lib ms path shouldGoThrough))"

definition IsDirOrSubmodulePathMatched :: "matcherLib \<Rightarrow> PathMatcher \<Rightarrow> string \<Rightarrow> matchError + bool" where
  "IsDirOrSubmodulePathMatched lib m path =
     (case m of
        TruePathMatcher \<Rightarrow> Inr True
      | FalsePathMatcher \<Rightarrow> Inr False
      | _ \<Rightarrow> bindR (IsPathMatched lib m path) (\<lambda>b. if b then Inr True else ShouldGoThrough lib m path))"

subsection \<open>Identifiers\<close>

definition idOf :: "matcherLib \<Rightarrow> string \<Rightarrow> string list \<Rightarrow> string" where
  "idOf lib kind args = Sha256Hash lib [Join (kind # args) '':::'']"

fun ID :: "matcherLib \<Rightarrow> PathMatcher \<Rightarrow> string"
  and IDs :: "matcherLib \<Rightarrow> PathMatcher list \<Rightarrow> string list" where
  "ID lib (BasePathMatcher basePath matcher) =
     (case matcher of
        None \<Rightarrow> if basePath = [] then [] else idOf lib ''basePath'' [basePath]
      | Some m \<Rightarrow> if basePath = [] \<and> ID lib m = [] then [] else idOf lib ''basePath'' [basePath, ID lib m])"
| "ID lib (IncludePathMatcher includeGlobs) = (if length includeGlobs = 0 then [] else idOf lib ''include'' (sort includeGlobs))"
| "ID lib (ExcludePathMatcher excludeGlobs) = (if length excludeGlobs = 0 then [] else idOf lib ''exclude'' (sort excludeGlobs))"
| "ID lib (DockerfileIgnorePathMatcher ps) =
     (if length ps = 0 then [] else idOf lib ''dockerfileIgnore'' (sort (map patString ps)))"
| "ID lib (MultiPathMatcher matchers) = idOf lib ''multi'' (sort (IDs lib matchers))"
| "ID lib TruePathMatcher = ''{ true }''"
| "ID lib FalsePathMatcher = ''{ false }''"
| "IDs lib [] = []"
| "IDs lib (m # ms) = ID lib m # IDs lib ms"


subsection \<open>Keys of the git caches\<close>

text \<open>
  The identifiers of \<^verbatim>\<open>pkg/true_git/patch.go\<close>, \<^verbatim>\<open>archive.go\<close> and \<^verbatim>\<open>ls_tree/ls_tree.go\<close>. The iteration over the map of renames is
  in the order \<open>mapOrder\<close>.
\<close>

definition fmtBool :: "bool \<Rightarrow> string" where
  "fmtBool b = (if b then ''true'' else ''false'')"

record PatchOptions =
  patchPathScope :: string
  patchMatcher :: PathMatcher
  FromCommit :: string
  ToCommit :: string
  patchRenames :: "(string, string) goMap"
  WithEntireFileContext :: bool
  WithBinary :: bool

definition PatchOptions_ID :: "matcherLib \<Rightarrow> ((string \<times> string) list \<Rightarrow> (string \<times> string) list) \<Rightarrow> PatchOptions \<Rightarrow> string" where
  "PatchOptions_ID lib mapOrder opts =
     (let renames = mapOrder (patchRenames opts)
      in Sha256Hash lib (map fst renames @ map snd renames @
           [FromCommit opts, ToCommit opts, patchPathScope opts, ID lib (patchMatcher opts), fmtBool (WithBinary opts),
            fmtBool (WithEntireFileContext opts)]))"

record ArchiveOptions =
  ContentChecksum :: string
  Commit :: string
  archivePathScope :: string
  archiveMatcher :: PathMatcher
  archiveRenames :: "(string, string) goMap"
  Owner :: string
  Group :: string

definition ArchiveOptions_ID :: "matcherLib \<Rightarrow> ((string \<times> string) list \<Rightarrow> (string \<times> string) list) \<Rightarrow> ArchiveOptions \<Rightarrow> string" where
  "ArchiveOptions_ID lib mapOrder opts =
     (if ContentChecksum opts \<noteq> [] then
        Sha256Hash lib ([''dockerfile-context-v4-lfs'', ContentChecksum opts, archivePathScope opts, Owner opts, Group opts] @
          concat (map (\<lambda>path. [path, the (map_of (archiveRenames opts) path)]) (sort (map fst (mapOrder (archiveRenames opts))))))
      else
        (let renames = mapOrder (archiveRenames opts)
         in Sha256Hash lib (map fst renames @ map snd renames @
              [Commit opts, archivePathScope opts, ID lib (archiveMatcher opts), ''git-lfs-v1''])))"

record LsTreeOptions =
  lsPathScope :: string
  lsMatcher :: PathMatcher
  AllFiles :: bool

definition LsTreeOptions_ID :: "matcherLib \<Rightarrow> LsTreeOptions \<Rightarrow> string" where
  "LsTreeOptions_ID lib opts = Sha256Hash lib [lsPathScope opts, ID lib (lsMatcher opts), fmtBool (AllFiles opts)]"

end
