(* ===== verification/PathMatcherProps.thy ===== *)
theory PathMatcherProps
  imports PathMatcher
begin

text \<open>
  What the path matchers decide, for patterns that the libraries accept: the meaning of the matcher made from options, and
  of the combination of several matchers for files and directories. Identifiers that are shared by different matchers,
  or that depend on an iteration order.
\<close>

section \<open>Accepted globs\<close>

text \<open>A glob is tried as it is, without the asterisks at its end, and as the directory of the path.\<close>

definition globVariants :: "matcherLib \<Rightarrow> string \<Rightarrow> string list" where
  "globVariants lib glob = [glob, SafeTrimGlobsAndSlashesFromFilepath lib glob,
     PathJoin [SafeTrimGlobsAndSlashesFromFilepath lib glob, ''**'', ''*'']]"

definition globAccepted :: "matcherLib \<Rightarrow> string \<Rightarrow> bool" where
  "globAccepted lib glob \<longleftrightarrow> (\<forall>g \<in> set (globVariants lib glob). \<forall>path. PathMatch lib g path \<noteq> None)"

definition globMatches :: "matcherLib \<Rightarrow> string \<Rightarrow> string \<Rightarrow> bool" where
  "globMatches lib path glob \<longleftrightarrow> (\<exists>g \<in> set (globVariants lib glob). PathMatch lib g path = Some True)"

lemma anyR_total:
  assumes "\<And>x. x \<in> set xs \<Longrightarrow> f x = Inr (P x)"
  shows "anyR f xs = Inr (\<exists>x \<in> set xs. P x)"
  using assms by (induction xs) auto

lemma isPathMatched_total:
  assumes "globAccepted lib glob"
  shows "isPathMatched lib path glob = Inr (globMatches lib path glob)"
  unfolding isPathMatched_def globVariants_def [symmetric] globMatches_def
  by (rule anyR_total) (use assms in \<open>auto simp: globAccepted_def split: option.splits\<close>)

lemma isAnyPatternMatched_total:
  "(\<And>g. g \<in> set globs \<Longrightarrow> globAccepted lib g) \<Longrightarrow>
   isAnyPatternMatched lib path globs = Inr (\<exists>g \<in> set globs. globMatches lib path g)"
  unfolding isAnyPatternMatched_def by (rule anyR_total) (rule isPathMatched_total)

section \<open>Decisions as truth values\<close>

definition matches :: "matcherLib \<Rightarrow> PathMatcher \<Rightarrow> string \<Rightarrow> bool" where
  "matches lib m path \<longleftrightarrow> IsPathMatched lib m path = Inr True"

definition goesThrough :: "matcherLib \<Rightarrow> PathMatcher \<Rightarrow> string \<Rightarrow> bool" where
  "goesThrough lib m path \<longleftrightarrow> ShouldGoThrough lib m path = Inr True"

lemma matches_True [simp]: "matches lib TruePathMatcher path"
  by (simp add: matches_def)

lemma not_isl_bool: "\<not> isl r \<Longrightarrow> r = Inr (r = Inr True)"
  by (cases r) auto

lemma IsPathMatched_eq: "\<not> isl (IsPathMatched lib m path) \<Longrightarrow> IsPathMatched lib m path = Inr (matches lib m path)"
  unfolding matches_def by (rule not_isl_bool)

lemma ShouldGoThrough_eq: "\<not> isl (ShouldGoThrough lib m path) \<Longrightarrow> ShouldGoThrough lib m path = Inr (goesThrough lib m path)"
  unfolding goesThrough_def by (rule not_isl_bool)

lemma allPathMatched_eq:
  "(\<And>m. m \<in> set ms \<Longrightarrow> \<not> isl (IsPathMatched lib m path)) \<Longrightarrow>
   allPathMatched lib ms path = Inr (\<forall>m \<in> set ms. matches lib m path)"
  by (induction ms) (auto simp: IsPathMatched_eq)

lemma multiShouldGoThrough_eq:
  "(\<And>m. m \<in> set ms \<Longrightarrow> \<not> isl (IsPathMatched lib m path) \<and> \<not> isl (ShouldGoThrough lib m path)) \<Longrightarrow>
   multiShouldGoThrough lib ms path b =
     Inr ((b \<or> (\<exists>m \<in> set ms. goesThrough lib m path)) \<and> (\<forall>m \<in> set ms. goesThrough lib m path \<or> matches lib m path))"
  by (induction ms arbitrary: b) (auto simp: IsPathMatched_eq ShouldGoThrough_eq)

lemma formatPaths_matched:
  "(\<And>g. g \<in> set gs \<Longrightarrow> globAccepted lib (formatPath g)) \<Longrightarrow>
   isAnyPatternMatched lib path (formatPaths gs) = Inr (\<exists>g \<in> set gs. globMatches lib path (formatPath g))"
  using isAnyPatternMatched_total [of "formatPaths gs" lib] by (auto simp: formatPaths_def)

lemma newInclude_eq:
  "(\<And>g. g \<in> set gs \<Longrightarrow> globAccepted lib (formatPath g)) \<Longrightarrow> IsPathMatched lib (newIncludePathMatcher gs) path =
   Inr (gs = [] \<or> (\<exists>g \<in> set gs. globMatches lib (formatPath path) (formatPath g)))"
  by (simp add: newIncludePathMatcher_def formatPaths_matched) (simp add: formatPaths_def)

lemma newExclude_eq:
  "(\<And>g. g \<in> set gs \<Longrightarrow> globAccepted lib (formatPath g)) \<Longrightarrow> IsPathMatched lib (newExcludePathMatcher gs) path =
   Inr (\<forall>g \<in> set gs. \<not> globMatches lib (formatPath path) (formatPath g))"
  by (simp add: newExcludePathMatcher_def formatPaths_matched) (simp add: formatPaths_def)

lemma IsDirOrSubmodule_eq:
  assumes "\<not> isl (IsPathMatched lib m path)" "\<not> isl (ShouldGoThrough lib m path)"
  shows "IsDirOrSubmodulePathMatched lib m path = Inr (matches lib m path \<or> goesThrough lib m path)"
proof -
  have "IsDirOrSubmodulePathMatched lib m path = bindR (IsPathMatched lib m path) (\<lambda>b. if b then Inr True else ShouldGoThrough lib m path)"
    by (simp add: IsDirOrSubmodulePathMatched_def split: PathMatcher.split)
  then show ?thesis unfolding IsPathMatched_eq [OF assms(1)] ShouldGoThrough_eq [OF assms(2)] by simp
qed

section \<open>Properties of the matchers\<close>

text \<open>C35: A matcher made from options selects a path if the path lies at or below the base path and its part relative to the base
  path matches one of the include globs, if there are any, none of the exclude globs, and all of the further matchers.\<close>

theorem new_path_matcher_meaning:
  assumes globs: "\<forall>g \<in> set (IncludeGlobs opts) \<union> set (ExcludeGlobs opts). globAccepted lib (formatPath g)"
    and further: "\<forall>m \<in> set (Matchers opts). \<forall>q. \<not> isl (IsPathMatched lib m q)"
  shows "IsPathMatched lib (NewPathMatcher opts) path =
    (let base = formatPath (BasePath opts); full = formatPath path;
         inside = (BasePath opts = [] \<or> IsSubpathOfBasePath lib base full \<or> base = full);
         rel = (if BasePath opts = [] then path else relToBase lib base full)
     in Inr (inside \<and>
          (IncludeGlobs opts = [] \<or> (\<exists>g \<in> set (IncludeGlobs opts). globMatches lib (formatPath rel) (formatPath g))) \<and>
          (\<forall>g \<in> set (ExcludeGlobs opts). \<not> globMatches lib (formatPath rel) (formatPath g)) \<and>
          (\<forall>m \<in> set (Matchers opts). IsPathMatched lib m rel = Inr True)))"
proof -
  define ms where "ms = (if IncludeGlobs opts \<noteq> [] then [newIncludePathMatcher (IncludeGlobs opts)] else []) @
    (if ExcludeGlobs opts \<noteq> [] then [newExcludePathMatcher (ExcludeGlobs opts)] else []) @ Matchers opts"
  note eqs = newInclude_eq [of "IncludeGlobs opts" lib] newExclude_eq [of "ExcludeGlobs opts" lib]
  have inner: "IsPathMatched lib (NewMultiPathMatcher (if ms = [] then [TruePathMatcher] else ms)) q =
      Inr ((IncludeGlobs opts = [] \<or> (\<exists>g \<in> set (IncludeGlobs opts). globMatches lib (formatPath q) (formatPath g))) \<and>
        (\<forall>g \<in> set (ExcludeGlobs opts). \<not> globMatches lib (formatPath q) (formatPath g)) \<and>
        (\<forall>m \<in> set (Matchers opts). IsPathMatched lib m q = Inr True))" for q
  proof -
    have "\<not> isl (IsPathMatched lib m q)" if "m \<in> set ms" for m
      using that globs further eqs [of q] by (auto simp: ms_def split: if_splits)
    then have "IsPathMatched lib (NewMultiPathMatcher (if ms = [] then [TruePathMatcher] else ms)) q = Inr (\<forall>m \<in> set ms. matches lib m q)"
      by (simp add: NewMultiPathMatcher_def allPathMatched_eq)
    moreover have "(\<forall>m \<in> set ms. matches lib m q) \<longleftrightarrow>
        (IncludeGlobs opts = [] \<or> matches lib (newIncludePathMatcher (IncludeGlobs opts)) q) \<and>
        (ExcludeGlobs opts = [] \<or> matches lib (newExcludePathMatcher (ExcludeGlobs opts)) q) \<and>
        (\<forall>m \<in> set (Matchers opts). matches lib m q)"
      by (auto simp: ms_def)
    ultimately show ?thesis using globs eqs [of q] by (auto simp: matches_def [of lib _ q])
  qed
  have new: "NewPathMatcher opts = (let m = NewMultiPathMatcher (if ms = [] then [TruePathMatcher] else ms)
      in if BasePath opts \<noteq> [] then newBasePathMatcher (BasePath opts) m else m)"
    by (simp add: NewPathMatcher_def Let_def ms_def)
  show ?thesis
    by (cases "BasePath opts = []") (simp_all add: new Let_def newBasePathMatcher_def inner)
qed

text \<open>A combination of matchers selects a directory for a walk, completely or in part, if every one of its matchers does.\<close>

theorem multi_directory_matched:
  assumes "\<forall>m \<in> set ms. \<not> isl (IsPathMatched lib m path) \<and> \<not> isl (ShouldGoThrough lib m path)"
  shows "IsDirOrSubmodulePathMatched lib (NewMultiPathMatcher ms) path = Inr (\<forall>m \<in> set ms. IsDirOrSubmodulePathMatched lib m path = Inr True)"
proof (cases "ms = []")
  case False
  have matched: "IsPathMatched lib (MultiPathMatcher ms) path = Inr (\<forall>m \<in> set ms. matches lib m path)"
    using assms by (simp add: allPathMatched_eq)
  moreover have through: "ShouldGoThrough lib (MultiPathMatcher ms) path = Inr ((\<exists>m \<in> set ms. goesThrough lib m path) \<and>
      (\<forall>m \<in> set ms. goesThrough lib m path \<or> matches lib m path))"
    using assms by (simp add: multiShouldGoThrough_eq)
  ultimately have "IsDirOrSubmodulePathMatched lib (MultiPathMatcher ms) path = Inr (\<forall>m \<in> set ms. matches lib m path \<or> goesThrough lib m path)"
    using False by (auto simp: IsDirOrSubmodule_eq matches_def [of lib "MultiPathMatcher ms"] goesThrough_def [of lib "MultiPathMatcher ms"])
  then show ?thesis using assms False by (simp add: NewMultiPathMatcher_def IsDirOrSubmodule_eq)
qed (simp add: NewMultiPathMatcher_def IsDirOrSubmodulePathMatched_def)

text \<open>The identifier of an ignore matcher determines neither the order of its patterns nor which of them are exceptions: matchers
  that decide differently share it, and with it the keys of the caches.\<close>

theorem ignore_identifiers_collide:
  assumes "mset (map patString ps') = mset (map patString ps)"
  shows "ID lib (DockerfileIgnorePathMatcher ps') = ID lib (DockerfileIgnorePathMatcher ps) \<and>
    LsTreeOptions_ID lib (opts\<lparr>lsMatcher := DockerfileIgnorePathMatcher ps'\<rparr>) =
    LsTreeOptions_ID lib (opts\<lparr>lsMatcher := DockerfileIgnorePathMatcher ps\<rparr>)"
proof -
  have "sort (map patString ps') = sort (map patString ps)" using assms by (metis sorted_list_of_multiset_mset)
  moreover have "length ps' = length ps" using assms by (metis length_map size_mset)
  ultimately show ?thesis by (simp add: LsTreeOptions_ID_def)
qed

section \<open>Instances\<close>

text \<open>A library without wildcards, with ignore patterns of which the last that equals the path decides.\<close>

definition plainLib :: matcherLib where
  "plainLib = \<lparr>SplitFilepath = (\<lambda>p. SplitChar p (CHR ''/'')), SafeTrimGlobsAndSlashesFromFilepath = (\<lambda>g. g),
     IsSubpathOfBasePath = (\<lambda>base p. base = [] \<or> HasPrefix p (base @ ''/'')), relToBase = (\<lambda>base p. TrimPrefix p (base @ ''/'')),
     PathMatch = (\<lambda>g p. Some (g = p)), newIgnorePatterns = (\<lambda>ss. Some (map (\<lambda>s. \<lparr>patString = s, Exclusion = False\<rparr>) ss)),
     ignoreMatches = (\<lambda>ps p. Some (foldl (\<lambda>m q. if patString q = p then \<not> Exclusion q else m) False ps)),
     MatchesUsingParentResult = (\<lambda>ps p b. Some (foldl (\<lambda>m q. if patString q = p then \<not> Exclusion q else m) b ps)), Sha256Hash = concat\<rparr>"

lemma plainLib_accepts: "globAccepted plainLib g"
  by (simp add: globAccepted_def plainLib_def)

definition plainOptions :: PathMatcherOptions where
  "plainOptions = \<lparr>BasePath = ''app'', IncludeGlobs = [''src/main.go''], ExcludeGlobs = [''src/a''], Matchers = [TruePathMatcher]\<rparr>"

theorem new_path_matcher_meaning_witness: "IsPathMatched plainLib (NewPathMatcher plainOptions) ''app/src/main.go'' = Inr True"
  proof -
  have globs: "\<forall>g \<in> set (IncludeGlobs plainOptions) \<union> set (ExcludeGlobs plainOptions). globAccepted plainLib (formatPath g)"
    by (simp add: plainLib_accepts)
  have further: "\<forall>m \<in> set (Matchers plainOptions). \<forall>q. \<not> isl (IsPathMatched plainLib m q)" by (simp add: plainOptions_def)
  show ?thesis unfolding new_path_matcher_meaning [OF globs further] by code_simp
qed

theorem multi_directory_matched_witness:
  "IsDirOrSubmodulePathMatched plainLib (NewMultiPathMatcher [IncludePathMatcher [''a/b''], ExcludePathMatcher [''a/c'']]) ''a'' = Inr True"
proof -
  have all: "\<forall>m \<in> set [IncludePathMatcher [''a/b''], ExcludePathMatcher [''a/c'']].
      \<not> isl (IsPathMatched plainLib m ''a'') \<and> \<not> isl (ShouldGoThrough plainLib m ''a'')" by code_simp
  show ?thesis unfolding multi_directory_matched [OF all] by code_simp
qed

definition ignoreAll :: "ignorePattern list" where
  "ignoreAll = [\<lparr>patString = ''a'', Exclusion = False\<rparr>, \<lparr>patString = ''a'', Exclusion = True\<rparr>]"

theorem ignore_identifiers_collide_witness:
  "ID plainLib (DockerfileIgnorePathMatcher (rev ignoreAll)) = ID plainLib (DockerfileIgnorePathMatcher ignoreAll) \<and>
   IsPathMatched plainLib (DockerfileIgnorePathMatcher (rev ignoreAll)) ''a'' \<noteq>
   IsPathMatched plainLib (DockerfileIgnorePathMatcher ignoreAll) ''a''"
proof
  have "mset (map patString (rev ignoreAll)) = mset (map patString ignoreAll)" by (simp add: rev_map)
  from ignore_identifiers_collide [OF this, of plainLib] show
    "ID plainLib (DockerfileIgnorePathMatcher (rev ignoreAll)) = ID plainLib (DockerfileIgnorePathMatcher ignoreAll)" by blast
  show "IsPathMatched plainLib (DockerfileIgnorePathMatcher (rev ignoreAll)) ''a'' \<noteq>
      IsPathMatched plainLib (DockerfileIgnorePathMatcher ignoreAll) ''a''" by code_simp
qed

text \<open>A directory that an exclude matcher selects completely may have to be gone through all the same.\<close>

lemma matched_and_gone_through:
  "IsPathMatched plainLib (ExcludePathMatcher [''a/b'']) ''a'' = Inr True \<and> ShouldGoThrough plainLib (ExcludePathMatcher [''a/b'']) ''a'' = Inr True"
  by code_simp

text \<open>The key of a patch with two renamed files depends on the iteration order of the map.\<close>

lemma patch_key_depends_on_order:
  "let opts = \<lparr>patchPathScope = [], patchMatcher = TruePathMatcher, FromCommit = ''f'', ToCommit = ''t'',
       patchRenames = [(''a'', ''b''), (''c'', ''d'')], WithEntireFileContext = False, WithBinary = False\<rparr>
   in PatchOptions_ID plainLib rev opts \<noteq> PatchOptions_ID plainLib (\<lambda>xs. xs) opts"
  by code_simp

end
