(* ===== verification/Slug.thy ===== *)
theory Slug
  imports SlugMap GoQuote Prelude
begin

text \<open>
  Names that are made of arbitrary strings, \<^verbatim>\<open>pkg/slug/slug.go\<close>: slugs, and the names of projects, docker tags, Kubernetes
  namespaces and Helm releases with their validation. The hash function and the validation of DNS names are
  parameters. A regular expression of the source is the predicate that says which strings it matches. A slice with a
  negative bound is a panic in Go; it is an error value here.
\<close>

section \<open>Strings of the Go library\<close>

text \<open>The code points of a string, as \<^verbatim>\<open>range\<close> enumerates them, and the string of code points.\<close>

function (sequential) runes :: "string \<Rightarrow> nat list" where
  "runes [] = []"
| "runes (c # s) = fst (decodeRune (c # s)) # runes (drop (snd (decodeRune (c # s))) (c # s))"
  by pat_completeness auto
termination
  by (relation "measure length") (simp_all add: decodeRune_width)

definition ofRunes :: "nat list \<Rightarrow> string" where
  "ofRunes rs = concat (map encodeRune rs)"

text \<open>\<^verbatim>\<open>strings.Count\<close> for a non-empty separator and \<^verbatim>\<open>strings.Replace\<close> of one occurrence.\<close>

function CountStr :: "string \<Rightarrow> string \<Rightarrow> nat" where
  "CountStr s sep = (case Cut s sep of None \<Rightarrow> 0 | Some (_, b) \<Rightarrow> if length b < length s then Suc (CountStr b sep) else 0)"
  by pat_completeness auto
termination
  by (relation "measure (length \<circ> fst)") simp_all

declare CountStr.simps [simp del]

definition ReplaceFirst :: "string \<Rightarrow> string \<Rightarrow> string \<Rightarrow> string" where
  "ReplaceFirst s old new = (case Cut s old of None \<Rightarrow> s | Some (a, b) \<Rightarrow> a @ new @ b)"

section \<open>Slugs\<close>

definition slugSeparator :: string where
  "slugSeparator = ''-''"

text \<open>The source calls \<open>algorithm\<close> with strings of a single code point, for which its loop has one iteration.\<close>

definition algorithm :: "nat \<Rightarrow> string" where
  "algorithm r = (case map_of mapping r of Some char \<Rightarrow> char | None \<Rightarrow> [])"

record slugifyState =
  sgResult :: "nat list"
  isCursorDash :: bool
  isPreviousDash :: bool
  isResultEmpty :: bool

definition slugifyRune :: "slugifyState \<Rightarrow> nat \<Rightarrow> slugifyState" where
  "slugifyRune st r =
     (let cursor = algorithm r
      in if cursor = [] then st
         else let st = st\<lparr>isCursorDash := (cursor = ''-'')\<rparr>;
                  isStartedDash = isCursorDash st \<and> isResultEmpty st;
                  isDoubledDash = isCursorDash st \<and> \<not> isResultEmpty st \<and> isPreviousDash st
              in if isStartedDash \<or> isDoubledDash then st
                 else st\<lparr>sgResult := sgResult st @ runes cursor, isPreviousDash := isCursorDash st, isResultEmpty := False\<rparr>)"

definition slugify :: "string \<Rightarrow> string" where
  "slugify data =
     (let st = foldl slugifyRune \<lparr>sgResult = [], isCursorDash = False, isPreviousDash = False, isResultEmpty = True\<rparr> (runes data);
          isEndedDash = \<not> isResultEmpty st \<and> isCursorDash st
      in if isEndedDash then ofRunes (butlast (sgResult st)) else ofRunes (sgResult st))"

datatype slugError = SliceOutOfRange

definition cropSluggedData :: "string \<Rightarrow> string \<Rightarrow> int \<Rightarrow> slugError + string" where
  "cropSluggedData data hash maxSize =
     (let maxLength = maxSize - int (length hash) - int (length slugSeparator);
          index = (if int (length data) > maxLength then maxLength else int (length data))
      in if index < 0 then Inl SliceOutOfRange else Inr (take (nat index) data))"

definition slug :: "(string \<Rightarrow> string) \<Rightarrow> string \<Rightarrow> int \<Rightarrow> slugError + string" where
  "slug LegacyMurmurHash data maxSize =
     (let sluggedData = slugify data; murmurHash = LegacyMurmurHash data
      in bindR (if sluggedData \<noteq> []
                then bindR (cropSluggedData sluggedData murmurHash maxSize) (\<lambda>croppedSluggedData.
                  Inr [if HasPrefix croppedSluggedData ''-'' then butlast croppedSluggedData else croppedSluggedData])
                else Inr []) (\<lambda>slugParts.
         Inr (Join (slugParts @ [murmurHash]) slugSeparator)))"

definition shouldBeSlugged :: "string \<Rightarrow> int \<Rightarrow> bool" where
  "shouldBeSlugged data slugMaxSize =
     (if length data = 0 then False
      else if slugify data = data \<and> int (length data) \<le> slugMaxSize then False
      else if int (length data) > slugMaxSize then True
      else if CountStr data ''--'' \<noteq> 1 then True
      else let formattedData = ReplaceFirst data ''--'' ''-''
           in slugify formattedData \<noteq> formattedData)"

definition Slug :: "string \<Rightarrow> string" where
  "Slug data = slugify data"

definition LimitedSlug :: "(string \<Rightarrow> string) \<Rightarrow> string \<Rightarrow> int \<Rightarrow> slugError + string" where
  "LimitedSlug LegacyMurmurHash data slugMaxSize =
     (if \<not> shouldBeSlugged data slugMaxSize then Inr data else slug LegacyMurmurHash data slugMaxSize)"

section \<open>Names\<close>

definition lowerAlnum :: string where
  "lowerAlnum = ''abcdefghijklmnopqrstuvwxyz0123456789''"

definition upperAlpha :: string where
  "upperAlpha = ''ABCDEFGHIJKLMNOPQRSTUVWXYZ''"

definition dockerTagRegexp :: "string \<Rightarrow> bool" where
  "dockerTagRegexp s =
     (case s of
        [] \<Rightarrow> False
      | c # cs \<Rightarrow> c \<in> set (lowerAlnum @ upperAlpha @ ''_'') \<and> list_all (\<lambda>d. d \<in> set (lowerAlnum @ upperAlpha @ ''_.-'')) cs)"

definition projectNameRegex :: "string \<Rightarrow> bool" where
  "projectNameRegex s \<longleftrightarrow> s \<noteq> [] \<and> hd s \<in> set lowerAlnum \<and> last s \<in> set lowerAlnum \<and> list_all (\<lambda>c. c \<in> set (lowerAlnum @ ''-'')) s"

definition imageNameSegment :: "string \<Rightarrow> bool" where
  "imageNameSegment s =
     (case s of
        [] \<Rightarrow> False
      | c # cs \<Rightarrow> c \<in> set (lowerAlnum @ upperAlpha) \<and>
          (cs = [] \<or> last cs \<in> set (lowerAlnum @ upperAlpha @ ''+'') \<and>
             list_all (\<lambda>d. d \<in> set (lowerAlnum @ upperAlpha @ ''_.+-'')) (butlast cs)))"

definition imageNameRegex :: "string \<Rightarrow> bool" where
  "imageNameRegex s = list_all imageNameSegment (SplitChar s (CHR ''/''))"

definition DockerTagMaxSize :: int where
  "DockerTagMaxSize = 128"

definition projectNameMaxSize :: int where
  "projectNameMaxSize = 50"

definition kubernetesNamespaceMaxSize :: int where
  "kubernetesNamespaceMaxSize = 63"

definition helmReleaseMaxSize :: int where
  "helmReleaseMaxSize = 53"

datatype nameError =
    InvalidProjectName
  | InvalidImageName string
  | InvalidDockerTag string
  | NameTooLong string nat
  | NotADNSName "string list"

record nameLib =
  LegacyMurmurHash :: "string \<Rightarrow> string"
  IsDNS1123Label :: "string \<Rightarrow> string list"
  IsDNS1123Subdomain :: "string \<Rightarrow> string list"

definition shouldNotBeSlugged :: "string \<Rightarrow> (string \<Rightarrow> bool) \<Rightarrow> int \<Rightarrow> bool" where
  "shouldNotBeSlugged data regexp maxSize \<longleftrightarrow> length data = 0 \<or> regexp data \<and> int (length data) \<le> maxSize"

definition validateProject :: "string \<Rightarrow> nameError + unit" where
  "validateProject name = (if shouldNotBeSlugged name projectNameRegex projectNameMaxSize then Inr () else Inl InvalidProjectName)"

definition ValidateImage :: "string \<Rightarrow> nameError + unit" where
  "ValidateImage name = (if imageNameRegex name then Inr () else Inl (InvalidImageName name))"

definition Project :: "string \<Rightarrow> string" where
  "Project name =
     (case validateProject name of
        Inl _ \<Rightarrow> (let res = slugify name
                  in if int (length res) > projectNameMaxSize then take (nat projectNameMaxSize) res else res)
      | Inr _ \<Rightarrow> name)"

definition IsValidDockerTag :: "string \<Rightarrow> bool" where
  "IsValidDockerTag name = (if shouldNotBeSlugged name dockerTagRegexp DockerTagMaxSize then True else False)"

definition ValidateDockerTag :: "string \<Rightarrow> nameError + unit" where
  "ValidateDockerTag name = (if IsValidDockerTag name then Inr () else Inl (InvalidDockerTag name))"

definition DockerTag :: "nameLib \<Rightarrow> string \<Rightarrow> slugError + string" where
  "DockerTag lib name =
     (case ValidateDockerTag name of Inl _ \<Rightarrow> slug (LegacyMurmurHash lib) name DockerTagMaxSize | Inr _ \<Rightarrow> Inr name)"

definition validateKubernetesNamespace :: "nameLib \<Rightarrow> string \<Rightarrow> nameError + unit" where
  "validateKubernetesNamespace lib name =
     (if length name = 0 then Inr ()
      else if int (length name) > kubernetesNamespaceMaxSize then Inl (NameTooLong name (length name))
      else let msgs = IsDNS1123Label lib name in if length msgs > 0 then Inl (NotADNSName msgs) else Inr ())"

definition KubernetesNamespace :: "nameLib \<Rightarrow> string \<Rightarrow> slugError + string" where
  "KubernetesNamespace lib name =
     (case validateKubernetesNamespace lib name of
        Inl _ \<Rightarrow> slug (LegacyMurmurHash lib) name kubernetesNamespaceMaxSize
      | Inr _ \<Rightarrow> Inr name)"

definition validateHelmRelease :: "nameLib \<Rightarrow> string \<Rightarrow> nameError + unit" where
  "validateHelmRelease lib name =
     (if length name = 0 then Inr ()
      else if int (length name) > helmReleaseMaxSize then Inl (NameTooLong name (length name))
      else let msgs = IsDNS1123Subdomain lib name in if length msgs > 0 then Inl (NotADNSName msgs) else Inr ())"

definition HelmRelease :: "nameLib \<Rightarrow> string \<Rightarrow> slugError + string" where
  "HelmRelease lib name =
     (case validateHelmRelease lib name of
        Inl _ \<Rightarrow> slug (LegacyMurmurHash lib) name helmReleaseMaxSize
      | Inr _ \<Rightarrow> Inr name)"

end
