(* ===== verification/SlugProps.thy ===== *)
theory SlugProps
  imports Slug
begin

text \<open>
  What is proved of the names. The loop of \<open>slugify\<close> with its flags does what a simple description says (\<open>slugOf\<close>): its
  results are slugs, and slugs are left as they are. From this follow the idempotence and the bound of \<open>LimitedSlug\<close>
  and the validity of tags, namespaces and releases; a project name may come out invalid.
\<close>

section \<open>Strings of ASCII characters\<close>

definition ascii :: "char \<Rightarrow> bool" where
  "ascii c \<longleftrightarrow> of_char c < (128::nat)"

lemma decodeRune_ascii: "ascii c \<Longrightarrow> decodeRune (c # s) = (of_char c, 1)"
  by (simp add: decodeRune_def ascii_def)

lemma runes_ascii: "list_all ascii s \<Longrightarrow> runes s = map of_char s"
  by (induction s) (simp_all add: decodeRune_ascii)

lemma ofRunes_ascii: "list_all ascii s \<Longrightarrow> ofRunes (map of_char s) = s"
  by (induction s) (simp_all add: ofRunes_def encodeRune_def bytes_def ascii_def)

section \<open>The table\<close>

abbreviation dash :: char where
  "dash \<equiv> CHR ''-''"

abbreviation alnum :: "char \<Rightarrow> bool" where
  "alnum c \<equiv> c \<in> set lowerAlnum"

definition slugChar :: "char \<Rightarrow> bool" where
  "slugChar c \<longleftrightarrow> alnum c \<or> c = dash"

definition goodValue :: "string \<Rightarrow> bool" where
  "goodValue v \<longleftrightarrow> v = [dash] \<or> list_all (\<lambda>c. alnum c) v"

lemma alnum_ascii: "alnum c \<Longrightarrow> ascii c"
proof -
  have "\<forall>c \<in> set lowerAlnum. ascii c" by code_simp
  then show "alnum c \<Longrightarrow> ascii c" by blast
qed

lemma dash_not_alnum [simp]: "\<not> alnum dash"
  by code_simp

lemma slugChar_ascii: "slugChar c \<Longrightarrow> ascii c"
  by (auto simp: slugChar_def alnum_ascii) (simp add: ascii_def)

lemma list_all_slugChar_ascii: "list_all slugChar s \<Longrightarrow> list_all ascii s"
  by (auto simp: list_all_iff slugChar_ascii)

definition slugCodes :: "nat list" where
  "slugCodes = 45 # [48..<58] @ [97..<123]"

lemma slugChar_code: "slugChar c \<Longrightarrow> of_char c \<in> set slugCodes"
proof -
  have "list_all (\<lambda>c. of_char c \<in> set slugCodes) (dash # lowerAlnum)" by code_simp
  then show "slugChar c \<Longrightarrow> of_char c \<in> set slugCodes" by (auto simp: slugChar_def list_all_iff)
qed

lemma slugCodes_mapped: "set slugCodes \<subseteq> fst ` set mapping1"
  by (simp add: slugCodes_def mapping1_def upt_conv_Cons)

lemma slugCodes_value: "list_all (\<lambda>(k, v). k \<in> set slugCodes \<longrightarrow> map of_char v = [k]) mapping1"
  by (simp add: slugCodes_def mapping1_def)

lemma algorithm_slugChar:
  assumes "slugChar c"
  shows "algorithm (of_char c) = [c]"
proof -
  have "of_char c \<in> fst ` set mapping1" using slugChar_code [OF assms] slugCodes_mapped by blast
  then obtain v where v: "map_of mapping1 (of_char c) = Some v" by (metis map_of_eq_None_iff option.exhaust)
  then have "(of_char c, v) \<in> set mapping1" by (rule map_of_SomeD)
  then have "map of_char v = [of_char c :: nat]" using slugCodes_value slugChar_code [OF assms] by (auto simp: list_all_iff)
  then have "v = [c]" by auto
  then show ?thesis using v by (simp add: algorithm_def mapping_def map_add_def)
qed

lemma alnum_letters:
  "alnum (CHR ''a'')" "alnum (CHR ''b'')" "alnum (CHR ''c'')" "alnum (CHR ''d'')" "alnum (CHR ''e'')" "alnum (CHR ''f'')"
    "alnum (CHR ''g'')" "alnum (CHR ''h'')" "alnum (CHR ''i'')" "alnum (CHR ''j'')" "alnum (CHR ''k'')" "alnum (CHR ''l'')"
    "alnum (CHR ''m'')" "alnum (CHR ''n'')" "alnum (CHR ''o'')" "alnum (CHR ''p'')" "alnum (CHR ''q'')" "alnum (CHR ''r'')"
    "alnum (CHR ''s'')" "alnum (CHR ''t'')" "alnum (CHR ''u'')" "alnum (CHR ''v'')" "alnum (CHR ''w'')" "alnum (CHR ''x'')"
    "alnum (CHR ''y'')" "alnum (CHR ''z'')" "alnum (CHR ''0'')" "alnum (CHR ''1'')" "alnum (CHR ''2'')" "alnum (CHR ''3'')"
    "alnum (CHR ''4'')" "alnum (CHR ''5'')" "alnum (CHR ''6'')" "alnum (CHR ''7'')" "alnum (CHR ''8'')" "alnum (CHR ''9'')"
  by (simp_all add: lowerAlnum_def)

lemma goodValue_intros: "goodValue [dash]" "list_all (\<lambda>c. alnum c) v \<Longrightarrow> goodValue v"
  by (simp_all add: goodValue_def)

lemma mapping_values:
  "list_all (\<lambda>(_, v). goodValue v) mapping1" "list_all (\<lambda>(_, v). goodValue v) mapping2" "list_all (\<lambda>(_, v). goodValue v) mapping3"
  "list_all (\<lambda>(_, v). goodValue v) mapping4" "list_all (\<lambda>(_, v). goodValue v) mapping5" "list_all (\<lambda>(_, v). goodValue v) mapping6"
  "list_all (\<lambda>(_, v). goodValue v) mapping7"
  unfolding mapping_parts by (simp_all add: goodValue_intros alnum_letters)

lemma algorithm_good: "goodValue (algorithm r)"
proof (cases "map_of mapping r")
  case (Some v)
  then have "(r, v) \<in> set mapping" by (rule map_of_SomeD)
  then show ?thesis using mapping_values Some by (auto simp: algorithm_def mapping_def list_all_iff)
qed (simp add: algorithm_def goodValue_def)

section \<open>The loop\<close>

text \<open>What the loop adds to the text it has, without flags.\<close>

definition slugAppend :: "string \<Rightarrow> string \<Rightarrow> string" where
  "slugAppend w v = (if v = [dash] \<and> (w = [] \<or> last w = dash) then w else w @ v)"

definition slugOf :: "string \<Rightarrow> string" where
  "slugOf data = (let w = foldl (\<lambda>w r. slugAppend w (algorithm r)) [] (runes data)
     in if w \<noteq> [] \<and> last w = dash then butlast w else w)"

definition represents :: "slugifyState \<Rightarrow> string \<Rightarrow> bool" where
  "represents st w \<longleftrightarrow> sgResult st = map of_char w \<and> list_all slugChar w \<and> (isResultEmpty st \<longleftrightarrow> w = []) \<and>
     (w \<noteq> [] \<longrightarrow> (isCursorDash st \<longleftrightarrow> last w = dash) \<and> (isPreviousDash st \<longleftrightarrow> last w = dash))"

lemma goodValue_slugChar: "goodValue v \<Longrightarrow> list_all slugChar v"
  by (auto simp: goodValue_def slugChar_def list_all_iff)

lemma goodValue_dash: "goodValue v \<Longrightarrow> v = [dash] \<or> dash \<notin> set v"
  using dash_not_alnum by (auto simp: goodValue_def list_all_iff simp del: dash_not_alnum)

lemma goodValue_last: "goodValue v \<Longrightarrow> v \<noteq> [] \<Longrightarrow> last v = dash \<longleftrightarrow> v = [dash]"
  by (cases v rule: rev_cases) (auto dest: goodValue_dash)

lemma slugifyRune_represents:
  assumes "represents st w"
  shows "represents (slugifyRune st r) (slugAppend w (algorithm r))"
proof (cases "algorithm r = []")
  case True
  then show ?thesis using assms by (simp add: slugifyRune_def slugAppend_def)
next
  case False
  note good = algorithm_good [of r]
  have "runes (algorithm r) = map of_char (algorithm r)"
    by (intro runes_ascii list_all_slugChar_ascii goodValue_slugChar good)
  then show ?thesis using assms False goodValue_last [OF good False] goodValue_slugChar [OF good]
    by (auto simp: slugifyRune_def slugAppend_def represents_def Let_def)
qed

lemma foldl_represents:
  "represents st w \<Longrightarrow> represents (foldl slugifyRune st rs) (foldl (\<lambda>w r. slugAppend w (algorithm r)) w rs)"
  by (induction rs arbitrary: st w) (simp_all add: slugifyRune_represents)

lemma slugify_eq: "slugify data = slugOf data"
proof -
  let ?st = "\<lparr>sgResult = [], isCursorDash = False, isPreviousDash = False, isResultEmpty = True\<rparr> :: slugifyState"
  let ?w = "foldl (\<lambda>w r. slugAppend w (algorithm r)) [] (runes data)"
  have rep: "represents (foldl slugifyRune ?st (runes data)) ?w"
    by (rule foldl_represents) (simp add: represents_def)
  then have "list_all ascii ?w" by (simp add: represents_def list_all_slugChar_ascii)
  moreover from this have "list_all ascii (butlast ?w)" unfolding list_all_iff by (blast dest: in_set_butlastD)
  ultimately have "ofRunes (map of_char ?w) = ?w" "ofRunes (map of_char (butlast ?w)) = butlast ?w"
    by (simp_all only: ofRunes_ascii)
  then show ?thesis using rep by (auto simp: slugify_def slugOf_def represents_def Let_def map_butlast)
qed

section \<open>Slugs\<close>

fun noDouble :: "string \<Rightarrow> bool" where
  "noDouble (a # b # s) \<longleftrightarrow> \<not> (a = dash \<and> b = dash) \<and> noDouble (b # s)"
| "noDouble _ \<longleftrightarrow> True"

definition isSlug :: "string \<Rightarrow> bool" where
  "isSlug s \<longleftrightarrow> list_all slugChar s \<and> noDouble s \<and> (s \<noteq> [] \<longrightarrow> hd s \<noteq> dash \<and> last s \<noteq> dash)"

lemma noDouble_append:
  "noDouble (u @ v) \<longleftrightarrow> noDouble u \<and> noDouble v \<and> (u = [] \<or> v = [] \<or> \<not> (last u = dash \<and> hd v = dash))"
proof (induction u)
  case (Cons a u)
  then show ?case by (cases u; cases v) auto
qed simp

lemma noDouble_no_dash: "dash \<notin> set s \<Longrightarrow> noDouble s"
  by (induction s rule: noDouble.induct) auto

lemma noDouble_take: "noDouble s \<Longrightarrow> noDouble (take n s)"
  by (metis append_take_drop_id noDouble_append)

lemma goodValue_noDouble: "goodValue v \<Longrightarrow> noDouble v"
  using goodValue_dash [of v] by (auto intro: noDouble_no_dash)

lemma goodValue_hd: "goodValue v \<Longrightarrow> v \<noteq> [] \<Longrightarrow> hd v = dash \<longleftrightarrow> v = [dash]"
  by (cases v) (auto dest: goodValue_dash)

definition slugPrefix :: "string \<Rightarrow> bool" where
  "slugPrefix w \<longleftrightarrow> list_all slugChar w \<and> noDouble w \<and> (w \<noteq> [] \<longrightarrow> hd w \<noteq> dash)"

lemma slugAppend_prefix: "goodValue v \<Longrightarrow> slugPrefix w \<Longrightarrow> slugPrefix (slugAppend w v)"
  using goodValue_hd [of v]
  by (cases "v = []") (auto simp: slugPrefix_def slugAppend_def noDouble_append goodValue_noDouble goodValue_slugChar hd_append)

lemma foldl_prefix: "slugPrefix w \<Longrightarrow> slugPrefix (foldl (\<lambda>w r. slugAppend w (algorithm r)) w rs)"
  by (induction rs arbitrary: w) (simp_all add: slugAppend_prefix algorithm_good)

lemma slugify_isSlug: "isSlug (slugify data)"
proof -
  let ?w = "foldl (\<lambda>w r. slugAppend w (algorithm r)) [] (runes data)"
  have w: "slugPrefix ?w" by (rule foldl_prefix) (simp add: slugPrefix_def)
  have "isSlug (butlast u)" if u: "slugPrefix (u)" "u \<noteq> []" "last u = dash" for u
  proof -
    obtain t where t: "u = t @ [dash]" using u by (metis append_butlast_last_id)
    then show ?thesis using u(1) by (auto simp: slugPrefix_def isSlug_def noDouble_append hd_append split: if_splits)
  qed
  then show ?thesis using w by (auto simp: slugify_eq slugOf_def Let_def isSlug_def slugPrefix_def)
qed

lemma foldl_slugAppend:
  "slugPrefix (w @ s) \<Longrightarrow> foldl (\<lambda>w r. slugAppend w (algorithm r)) w (map of_char s) = w @ s"
proof (induction s arbitrary: w)
  case (Cons c s)
  from Cons.prems have "slugAppend w (algorithm (of_char c)) = w @ [c]"
    by (auto simp: slugPrefix_def algorithm_slugChar slugAppend_def noDouble_append)
  then show ?case using Cons by simp
qed simp

lemma slugify_fixed:
  assumes "isSlug s"
  shows "slugify s = s"
proof -
  have s: "slugPrefix s" "s \<noteq> [] \<longrightarrow> last s \<noteq> dash" using assms by (auto simp: isSlug_def slugPrefix_def)
  then have "runes s = map of_char s" by (simp add: slugPrefix_def runes_ascii list_all_slugChar_ascii)
  then show ?thesis using s foldl_slugAppend [of "[]" s] by (auto simp: slugify_eq slugOf_def)
qed

section \<open>Slugs with a hash\<close>

text \<open>The hash is a number of 32 bits in hexadecimal digits.\<close>

definition hexDigits :: string where
  "hexDigits = ''0123456789abcdef''"

definition hashOk :: "string \<Rightarrow> bool" where
  "hashOk h \<longleftrightarrow> h \<noteq> [] \<and> length h \<le> 8 \<and> list_all (\<lambda>c. c \<in> set hexDigits) h"

lemma hashOk_nonempty: "hashOk h \<Longrightarrow> h \<noteq> []"
  by (simp add: hashOk_def)

lemma hashOk_alnum: "hashOk h \<Longrightarrow> list_all (\<lambda>c. alnum c) h"
proof -
  have "list_all (\<lambda>c. alnum c) hexDigits" by (simp add: hexDigits_def alnum_letters)
  then show "hashOk h \<Longrightarrow> list_all (\<lambda>c. alnum c) h" unfolding hashOk_def list_all_iff by blast
qed

lemma hashOk_no_dash: "hashOk h \<Longrightarrow> dash \<notin> set h"
  using hashOk_alnum [of h] dash_not_alnum by (auto simp: list_all_iff simp del: dash_not_alnum)

text \<open>The shape of a slug with a hash: the hash, or a prefix of a slug before it. The legacy check for a dash never applies.\<close>

lemma slugPrefix_take: "isSlug s \<Longrightarrow> slugPrefix (take n s)"
  by (cases n; cases s) (auto simp: isSlug_def slugPrefix_def list_all_iff noDouble_take [of "_ # _" "Suc _", simplified] dest: in_set_takeD)

lemma slug_shape:
  assumes "hashOk (h data)" "10 \<le> maxSize"
  shows "\<exists>r. slug h data maxSize = Inr r \<and> int (length r) \<le> maxSize \<and>
    (r = h data \<or> (\<exists>w. w \<noteq> [] \<and> slugPrefix w \<and> r = w @ [dash] @ h data))"
proof (cases "slugify data = []")
  case True
  then show ?thesis using assms by (auto simp: slug_def hashOk_def)
next
  case False
  define n where "n = maxSize - int (length (h data)) - 1"
  define w where "w = take (nat (min n (int (length (slugify data))))) (slugify data)"
  have n: "1 \<le> n" using assms by (simp add: n_def hashOk_def)
  have crop: "cropSluggedData (slugify data) (h data) maxSize = Inr w"
    using n by (auto simp: cropSluggedData_def slugSeparator_def n_def w_def min_def Let_def)
  have "w \<noteq> []" using False n by (simp add: w_def min_def)
  moreover have "slugPrefix w" unfolding w_def by (rule slugPrefix_take) (rule slugify_isSlug)
  moreover from calculation have "\<not> HasPrefix w ''-''" by (cases w) (auto simp: slugPrefix_def HasPrefix_def)
  moreover have "int (length w) \<le> n" using n by (simp add: w_def)
  ultimately show ?thesis using False crop by (auto simp: slug_def slugSeparator_def n_def)
qed

lemma no_dash_ends: "dash \<notin> set s \<Longrightarrow> s \<noteq> [] \<Longrightarrow> hd s \<noteq> dash \<and> last s \<noteq> dash"
  by (metis hd_in_set last_in_set)

lemma isSlug_hash: "hashOk h \<Longrightarrow> isSlug h"
  using hashOk_alnum [of h] hashOk_no_dash [of h] no_dash_ends [of h]
  by (auto simp: isSlug_def list_all_iff slugChar_def noDouble_no_dash)

lemma isSlug_joined:
  assumes "slugPrefix w" "w \<noteq> []" "last w \<noteq> dash" "hashOk h"
  shows "isSlug (w @ [dash] @ h)"
proof -
  have h: "isSlug h" "h \<noteq> []" using assms(4) by (rule isSlug_hash, rule hashOk_nonempty)
  then have "noDouble (dash # h)" using noDouble_append [of "[dash]" h] by (simp add: isSlug_def)
  then show ?thesis using assms h by (simp add: isSlug_def slugPrefix_def noDouble_append slugChar_def)
qed

lemma Cut_double: "noDouble u \<Longrightarrow> (u \<noteq> [] \<Longrightarrow> last u \<noteq> dash) \<Longrightarrow> Cut (u @ dash # dash # t) ''--'' = Some (u, t)"
proof (induction u)
  case (Cons a u)
  then show ?case by (cases u) (auto simp: HasPrefix_Cons)
qed (simp add: HasPrefix_Cons)

lemma Cut_no_dash: "dash \<notin> set s \<Longrightarrow> Cut s ''--'' = None"
  by (induction s) (auto simp: HasPrefix_Cons)

lemma Count_double:
  assumes "noDouble u" "u \<noteq> [] \<Longrightarrow> last u \<noteq> dash" "dash \<notin> set t"
  shows "CountStr (u @ dash # dash # t) ''--'' = 1"
proof -
  have "CountStr t ''--'' = 0" by (subst CountStr.simps) (simp add: Cut_no_dash [OF assms(3)])
  then show ?thesis by (subst CountStr.simps) (simp add: Cut_double [OF assms(1,2)])
qed

lemma slug_not_slugged_again:
  assumes "slugPrefix w" "w \<noteq> []" "hashOk h" "int (length (w @ [dash] @ h)) \<le> maxSize"
  shows "\<not> shouldBeSlugged (w @ [dash] @ h) maxSize"
proof (cases "last w = dash")
  case False
  then show ?thesis using slugify_fixed [OF isSlug_joined [OF assms(1,2) _ assms(3)]] assms(4) by (simp add: shouldBeSlugged_def)
next
  case True
  then obtain u where w: "w = u @ [dash]" using assms(2) by (metis append_butlast_last_id)
  have u: "noDouble u" "u \<noteq> []" "last u \<noteq> dash" "slugPrefix u"
    using assms(1) unfolding w by (auto simp: slugPrefix_def noDouble_append)
  have "CountStr (w @ [dash] @ h) ''--'' = 1" using Count_double [of u h] u hashOk_no_dash [OF assms(3)] by (simp add: w)
  moreover have "ReplaceFirst (w @ [dash] @ h) ''--'' ''-'' = u @ [dash] @ h" using Cut_double [of u h] u by (simp add: w ReplaceFirst_def)
  moreover have "slugify (u @ [dash] @ h) = u @ [dash] @ h" by (rule slugify_fixed) (rule isSlug_joined [OF u(4,2,3) assms(3)])
  ultimately show ?thesis using assms(4) by (simp add: shouldBeSlugged_def)
qed

section \<open>Properties of the names\<close>

text \<open>C36: A slug of limited size is made for every string if the limit leaves room for a letter and the hash. It is not longer than
  the limit, and it is its own slug.\<close>

theorem limited_slug_idempotent:
  assumes "hashOk (h data)" "10 \<le> maxSize"
  shows "\<exists>r. LimitedSlug h data maxSize = Inr r \<and> int (length r) \<le> maxSize \<and> LimitedSlug h r maxSize = Inr r"
proof (cases "shouldBeSlugged data maxSize")
  case True
  obtain r where r: "slug h data maxSize = Inr r" "int (length r) \<le> maxSize"
      and shape: "r = h data \<or> (\<exists>w. w \<noteq> [] \<and> slugPrefix w \<and> r = w @ [dash] @ h data)"
    using slug_shape [of h data maxSize] assms by blast
  from shape have "\<not> shouldBeSlugged r maxSize"
  proof
    assume "r = h data"
    then show ?thesis using slugify_fixed [OF isSlug_hash [OF assms(1)]] r(2) by (simp add: shouldBeSlugged_def)
  next
    assume "\<exists>w. w \<noteq> [] \<and> slugPrefix w \<and> r = w @ [dash] @ h data"
    then show ?thesis using slug_not_slugged_again [OF _ _ assms(1)] r(2) by blast
  qed
  then show ?thesis using True r by (simp add: LimitedSlug_def)
next
  case False
  then have "int (length data) \<le> maxSize" using assms(2) by (auto simp: shouldBeSlugged_def split: if_splits)
  then show ?thesis using False by (simp add: LimitedSlug_def)
qed

text \<open>The shape of DNS-1123 labels, and what the validation of DNS names says of it.\<close>

definition labelShape :: "string \<Rightarrow> bool" where
  "labelShape s \<longleftrightarrow> s \<noteq> [] \<and> alnum (hd s) \<and> alnum (last s) \<and> list_all slugChar s"

definition acceptsLabels :: "nameLib \<Rightarrow> bool" where
  "acceptsLabels lib \<longleftrightarrow> (\<forall>s. labelShape s \<and> length s \<le> 63 \<longrightarrow> IsDNS1123Label lib s = [] \<and> IsDNS1123Subdomain lib s = [])"

lemma slug_label:
  assumes "hashOk (h data)" "10 \<le> maxSize"
  shows "\<exists>r. slug h data maxSize = Inr r \<and> int (length r) \<le> maxSize \<and> labelShape r"
proof -
  have h: "h data \<noteq> []" "list_all (\<lambda>c. alnum c) (h data)" "list_all slugChar (h data)"
    using assms(1) hashOk_alnum [OF assms(1)] isSlug_hash [OF assms(1)] by (simp_all add: hashOk_nonempty isSlug_def)
  then have ends: "alnum (hd (h data))" "alnum (last (h data))" by (simp_all add: list_all_iff)
  have "labelShape (w @ [dash] @ h data)" if "w \<noteq> []" "slugPrefix w" for w
    using that h ends by (cases w) (auto simp: labelShape_def slugPrefix_def slugChar_def)
  moreover have "labelShape (h data)" using h ends by (simp add: labelShape_def)
  ultimately show ?thesis using slug_shape [of h data maxSize] assms by blast
qed

lemma labelShape_tag: "labelShape s \<Longrightarrow> dockerTagRegexp s"
  by (cases s) (auto simp: labelShape_def dockerTagRegexp_def slugChar_def list_all_iff)

text \<open>Whatever the name is, the docker tag, the Kubernetes namespace and the Helm release that are made from it pass the
  validation of their kind, and a name that passes it is left as it is.\<close>

theorem made_names_valid:
  assumes "hashOk (LegacyMurmurHash lib name)" "acceptsLabels lib"
  shows "(\<exists>t. DockerTag lib name = Inr t \<and> ValidateDockerTag t = Inr () \<and> (ValidateDockerTag name = Inr () \<longrightarrow> t = name)) \<and>
    (\<exists>n. KubernetesNamespace lib name = Inr n \<and> validateKubernetesNamespace lib n = Inr () \<and>
      (validateKubernetesNamespace lib name = Inr () \<longrightarrow> n = name)) \<and>
    (\<exists>r. HelmRelease lib name = Inr r \<and> validateHelmRelease lib r = Inr () \<and> (validateHelmRelease lib name = Inr () \<longrightarrow> r = name))"
proof -
  let ?slug = "slug (LegacyMurmurHash lib) name"
  have made: "\<exists>r. ?slug maxSize = Inr r \<and> int (length r) \<le> maxSize \<and> labelShape r" if "10 \<le> maxSize" for maxSize
    using slug_label [of "LegacyMurmurHash lib" name maxSize] assms(1) that by blast
  obtain t where t: "?slug DockerTagMaxSize = Inr t" "int (length t) \<le> DockerTagMaxSize" "labelShape t"
    using made [of DockerTagMaxSize] by (auto simp: DockerTagMaxSize_def)
  obtain n where n: "?slug kubernetesNamespaceMaxSize = Inr n" "int (length n) \<le> kubernetesNamespaceMaxSize" "labelShape n"
    using made [of kubernetesNamespaceMaxSize] by (auto simp: kubernetesNamespaceMaxSize_def)
  obtain r where r: "?slug helmReleaseMaxSize = Inr r" "int (length r) \<le> helmReleaseMaxSize" "labelShape r"
    using made [of helmReleaseMaxSize] by (auto simp: helmReleaseMaxSize_def)
  have "ValidateDockerTag t = Inr ()"
    using t labelShape_tag by (simp add: ValidateDockerTag_def IsValidDockerTag_def shouldNotBeSlugged_def)
  moreover have "validateKubernetesNamespace lib n = Inr ()"
    using n assms(2) by (simp add: validateKubernetesNamespace_def acceptsLabels_def kubernetesNamespaceMaxSize_def)
  moreover have "validateHelmRelease lib r = Inr ()"
    using r assms(2) by (simp add: validateHelmRelease_def acceptsLabels_def helmReleaseMaxSize_def)
  ultimately show ?thesis
    using t(1) n(1) r(1) by (auto simp: DockerTag_def KubernetesNamespace_def HelmRelease_def split: sum.splits)
qed

text \<open>A project name that has to be cut may end with a dash, which its own validation refuses.\<close>

theorem project_name_invalid:
  "let name = replicate 49 (CHR ''a'') @ ''-bc''
   in validateProject (Project name) = Inl InvalidProjectName \<and> length (Project name) = 50"
proof -
  have "isSlug (replicate 49 (CHR ''a'') @ ''-bc'')" by code_simp
  then have "slugify (replicate 49 (CHR ''a'') @ ''-bc'') = replicate 49 (CHR ''a'') @ ''-bc''" by (rule slugify_fixed)
  then show ?thesis
    by (simp add: Let_def Project_def validateProject_def shouldNotBeSlugged_def projectNameMaxSize_def projectNameRegex_def)
qed

text \<open>A limit that leaves no room for the hash is a panic.\<close>

lemma slug_without_room: "slugify data \<noteq> [] \<Longrightarrow> maxSize < int (length (h data)) + 1 \<Longrightarrow> slug h data maxSize = Inl SliceOutOfRange"
  by (simp add: slug_def cropSluggedData_def slugSeparator_def)

section \<open>Instances\<close>

theorem limited_slug_idempotent_witness:
  "\<exists>r. LimitedSlug (\<lambda>_. ''852739dc'') ''postgres-feature-31981-change-delivery-date-del-result'' 48 = Inr r \<and> int (length r) \<le> 48 \<and>
    LimitedSlug (\<lambda>_. ''852739dc'') r 48 = Inr r"
  by (rule limited_slug_idempotent) code_simp+

definition shapeLib :: nameLib where
  "shapeLib = \<lparr>LegacyMurmurHash = (\<lambda>_. ''3b339d14''), IsDNS1123Label = (\<lambda>s. if labelShape s \<and> length s \<le> 63 then [] else [''label'']),
     IsDNS1123Subdomain = (\<lambda>s. if list_all labelShape (SplitChar s (CHR ''.'')) \<and> length s \<le> 253 then [] else [''subdomain''])\<rparr>"

lemma shapeLib_accepts: "acceptsLabels shapeLib"
proof -
  have "CHR ''.'' \<notin> set s" if "labelShape s" for s
  proof -
    have "\<not> slugChar (CHR ''.'')" by code_simp
    then show ?thesis using that by (auto simp: labelShape_def list_all_iff)
  qed
  then show ?thesis by (auto simp: acceptsLabels_def shapeLib_def SplitChar_none)
qed

theorem made_names_valid_witness:
  "\<exists>n. KubernetesNamespace shapeLib ''da_ta'' = Inr n \<and> validateKubernetesNamespace shapeLib n = Inr ()"
proof -
  have "hashOk (LegacyMurmurHash shapeLib ''da_ta'')" by code_simp
  from made_names_valid [OF this shapeLib_accepts] show ?thesis by blast
qed

end
