(* ===== verification/Effects.thy ===== *)
theory Effects
  imports Prelude
begin

text \<open>
  Operations with effects and errors, for the components that work on the host: a function from the state to the new
  state and a result that is an error (\<open>Inl\<close>) or a value. What was done before an error stays done. Triples
  say what an operation makes of a state, whether it returns an error or not.
\<close>

named_theorems triple_intros "rules for triples"

type_synonym ('s, 'e, 'a) eff = "'s \<Rightarrow> 's \<times> ('e + 'a)"

section \<open>Operations\<close>

definition retE :: "'a \<Rightarrow> ('s, 'e, 'a) eff" where
  "retE x = (\<lambda>s. (s, Inr x))"

definition failE :: "'e \<Rightarrow> ('s, 'e, 'a) eff" where
  "failE e = (\<lambda>s. (s, Inl e))"

definition bindE :: "('s, 'e, 'a) eff \<Rightarrow> ('a \<Rightarrow> ('s, 'e, 'b) eff) \<Rightarrow> ('s, 'e, 'b) eff" where
  "bindE m f = (\<lambda>s. case m s of (s', Inl e) \<Rightarrow> (s', Inl e) | (s', Inr x) \<Rightarrow> f x s')"

text \<open>The result of an operation as a value, for code that looks at the error itself.\<close>

definition attemptE :: "('s, 'e, 'a) eff \<Rightarrow> ('s, 'e2, 'e + 'a) eff" where
  "attemptE m = (\<lambda>s. case m s of (s', r) \<Rightarrow> (s', Inr r))"

text \<open>Another kind of error, and an error that is the value of an early return.\<close>

definition mapErrorE :: "('e \<Rightarrow> 'e2) \<Rightarrow> ('s, 'e, 'a) eff \<Rightarrow> ('s, 'e2, 'a) eff" where
  "mapErrorE f m = (\<lambda>s. case m s of (s', r) \<Rightarrow> (s', map_sum f (\<lambda>x. x) r))"

definition earlyReturn :: "('s, 'a, 'a) eff \<Rightarrow> ('s, 'e, 'a) eff" where
  "earlyReturn m = (\<lambda>s. case m s of (s', Inl x) \<Rightarrow> (s', Inr x) | (s', Inr x) \<Rightarrow> (s', Inr x))"

text \<open>The loop over a list that ends at the first error.\<close>

fun foldE :: "('b \<Rightarrow> 'a \<Rightarrow> ('s, 'e, 'b) eff) \<Rightarrow> 'b \<Rightarrow> 'a list \<Rightarrow> ('s, 'e, 'b) eff" where
  "foldE f b [] = retE b"
| "foldE f b (x # xs) = bindE (f b x) (\<lambda>b'. foldE f b' xs)"

lemma retE_apply [simp]: "retE x s = (s, Inr x)"
  by (simp add: retE_def)

lemma failE_apply [simp]: "failE e s = (s, Inl e)"
  by (simp add: failE_def)

lemma bindE_simps [simp]: "bindE (retE x) f = f x" "bindE (failE e) f = failE e"
  by (simp_all add: bindE_def retE_def failE_def)

lemma bindE_step: "m s = (s', Inr x) \<Longrightarrow> bindE m f s = f x s'"
  by (simp add: bindE_def)

lemma bindE_stop: "m s = (s', Inl e) \<Longrightarrow> bindE m f s = (s', Inl e)"
  by (simp add: bindE_def)

lemma bindE_assoc: "bindE (bindE m f) g = bindE m (\<lambda>x. bindE (f x) g)"
  by (rule ext) (auto simp: bindE_def split: prod.splits sum.splits)

lemma bindE_Inr: "bindE m f s = (s', Inr y) \<longleftrightarrow> (\<exists>s1 x. m s = (s1, Inr x) \<and> f x s1 = (s', Inr y))"
  by (auto simp: bindE_def split: prod.splits sum.splits)

lemma bindE_Inl: "bindE m f s = (s', Inl e) \<longleftrightarrow> m s = (s', Inl e) \<or> (\<exists>s1 x. m s = (s1, Inr x) \<and> f x s1 = (s', Inl e))"
  by (auto simp: bindE_def split: prod.splits sum.splits)

lemma attemptE_iff: "attemptE m s = (s', r) \<longleftrightarrow> (\<exists>r0. m s = (s', r0) \<and> r = Inr r0)"
  by (auto simp: attemptE_def split: prod.splits)

lemma foldE_append: "foldE f b (xs @ ys) = bindE (foldE f b xs) (\<lambda>b'. foldE f b' ys)"
  by (induction xs arbitrary: b) (simp_all add: bindE_assoc)

section \<open>Triples\<close>

definition triple :: "('s \<Rightarrow> bool) \<Rightarrow> ('s, 'e, 'a) eff \<Rightarrow> ('e + 'a \<Rightarrow> 's \<Rightarrow> bool) \<Rightarrow> bool" where
  "triple P m Q \<longleftrightarrow> (\<forall>s s' r. P s \<longrightarrow> m s = (s', r) \<longrightarrow> Q r s')"

text \<open>An invariant of the state that an operation keeps.\<close>

abbreviation keeps :: "('s \<Rightarrow> bool) \<Rightarrow> ('s, 'e, 'a) eff \<Rightarrow> bool" where
  "keeps I m \<equiv> triple I m (\<lambda>_. I)"

lemma tripleD: "triple P m Q \<Longrightarrow> P s \<Longrightarrow> m s = (s', r) \<Longrightarrow> Q r s'"
  by (auto simp: triple_def)

lemma triple_ret [triple_intros]: "keeps I (retE x)"
  by (simp add: triple_def)

lemma triple_fail [triple_intros]: "keeps I (failE e)"
  by (simp add: triple_def)

lemma triple_bind:
  assumes "triple P m Q" and "\<And>x. triple (Q (Inr x)) (f x) R" and "\<And>e s. Q (Inl e) s \<Longrightarrow> R (Inl e) s"
  shows "triple P (bindE m f) R"
  unfolding triple_def
proof (intro allI impI)
  fix s s' r
  assume P: "P s" and run: "bindE m f s = (s', r)"
  obtain s1 r1 where m: "m s = (s1, r1)" by fastforce
  with assms(1) P have Q: "Q r1 s1" by (rule tripleD)
  show "R r s'"
  proof (cases r1)
    case (Inl e)
    then show ?thesis using run m Q assms(3) by (auto simp: bindE_def)
  next
    case (Inr x)
    then show ?thesis using run m Q assms(2) by (auto simp: bindE_def intro: tripleD)
  qed
qed

lemma keeps_bind [triple_intros]: "keeps I m \<Longrightarrow> (\<And>x. keeps I (f x)) \<Longrightarrow> keeps I (bindE m f)"
  by (rule triple_bind)

lemma keeps_attempt [triple_intros]: "keeps I m \<Longrightarrow> keeps I (attemptE m)"
  by (auto simp: triple_def attemptE_def split: prod.splits)

lemma keeps_mapError [triple_intros]: "keeps I m \<Longrightarrow> keeps I (mapErrorE f m)"
  by (auto simp: triple_def mapErrorE_def split: prod.splits)

lemma keeps_earlyReturn [triple_intros]: "keeps I m \<Longrightarrow> keeps I (earlyReturn m)"
  by (fastforce simp: triple_def earlyReturn_def split: prod.splits sum.splits)

lemma keeps_fold [triple_intros]: "(\<And>b x. x \<in> set xs \<Longrightarrow> keeps I (f b x)) \<Longrightarrow> keeps I (foldE f b xs)"
  by (induction xs arbitrary: b) (auto intro!: triple_ret keeps_bind)

lemma triple_if [triple_intros]: "(c \<Longrightarrow> triple P m Q) \<Longrightarrow> (\<not> c \<Longrightarrow> triple P n Q) \<Longrightarrow> triple P (if c then m else n) Q"
  by simp

lemma triple_sum [triple_intros]:
  "(\<And>e. r = Inl e \<Longrightarrow> triple P (f e) Q) \<Longrightarrow> (\<And>x. r = Inr x \<Longrightarrow> triple P (g x) Q) \<Longrightarrow> triple P (case r of Inl e \<Rightarrow> f e | Inr x \<Rightarrow> g x) Q"
  by (cases r) simp_all

lemma triple_option [triple_intros]:
  "(opt = None \<Longrightarrow> triple P n Q) \<Longrightarrow> (\<And>x. opt = Some x \<Longrightarrow> triple P (g x) Q) \<Longrightarrow> triple P (case opt of None \<Rightarrow> n | Some x \<Rightarrow> g x) Q"
  by (cases opt) simp_all

lemma triple_prod [triple_intros]: "(\<And>a b. p = (a, b) \<Longrightarrow> triple P (f a b) Q) \<Longrightarrow> triple P (case p of (a, b) \<Rightarrow> f a b) Q"
  by (cases p) simp

lemma triple_prod_app [triple_intros]:
  "(\<And>a b. p = (a, b) \<Longrightarrow> triple P (f a b x) Q) \<Longrightarrow> triple P ((case p of (a, b) \<Rightarrow> f a b) x) Q"
  by (cases p) simp

lemma triple_let [triple_intros]: "(\<And>y. y = x \<Longrightarrow> triple P (f y) Q) \<Longrightarrow> triple P (let y = x in f y) Q"
  by (simp add: Let_def)

lemma triple_weaken: "triple P m Q \<Longrightarrow> (\<And>s. P' s \<Longrightarrow> P s) \<Longrightarrow> (\<And>r s. Q r s \<Longrightarrow> Q' r s) \<Longrightarrow> triple P' m Q'"
  unfolding triple_def by blast

section \<open>Values\<close>

text \<open>An operation that keeps an invariant of the state and whose value and error have the given properties.\<close>

named_theorems computes_intros "rules for computed values"

definition computes :: "('s \<Rightarrow> bool) \<Rightarrow> ('s, 'e, 'a) eff \<Rightarrow> ('a \<Rightarrow> bool) \<Rightarrow> ('e \<Rightarrow> bool) \<Rightarrow> bool" where
  "computes I m R E \<longleftrightarrow> triple I m (\<lambda>r s. I s \<and> (case r of Inl e \<Rightarrow> E e | Inr x \<Rightarrow> R x))"

lemma computesD: "computes I m R E \<Longrightarrow> I s \<Longrightarrow> m s = (s', r) \<Longrightarrow> I s' \<and> (case r of Inl e \<Rightarrow> E e | Inr x \<Rightarrow> R x)"
  unfolding computes_def by (erule tripleD)

lemma computes_keeps: "computes I m R E \<Longrightarrow> keeps I m"
  unfolding computes_def by (erule triple_weaken) simp_all

lemma keeps_computes: "keeps I m \<Longrightarrow> computes I m (\<lambda>_. True) (\<lambda>_. True)"
  unfolding computes_def by (erule triple_weaken) (simp_all split: sum.split)

lemma computes_weaken: "computes I m R E \<Longrightarrow> (\<And>x. R x \<Longrightarrow> R' x) \<Longrightarrow> (\<And>e. E e \<Longrightarrow> E' e) \<Longrightarrow> computes I m R' E'"
  unfolding computes_def by (erule triple_weaken) (auto split: sum.splits)

lemma computes_ret [computes_intros]: "R x \<Longrightarrow> computes I (retE x) R E"
  by (simp add: computes_def triple_def)

lemma computes_fail [computes_intros]: "E e \<Longrightarrow> computes I (failE e) R E"
  by (simp add: computes_def triple_def)

lemma computesI: "(\<And>s s' r. I s \<Longrightarrow> m s = (s', r) \<Longrightarrow> I s' \<and> (case r of Inl e \<Rightarrow> E e | Inr x \<Rightarrow> R x)) \<Longrightarrow> computes I m R E"
  unfolding computes_def triple_def by blast

lemma computes_values: "keeps I m \<Longrightarrow> (\<And>s s' x. m s = (s', Inr x) \<Longrightarrow> R x) \<Longrightarrow> computes I m R (\<lambda>_. True)"
  unfolding computes_def triple_def by (metis Inr_inject old.sum.exhaust old.sum.simps(5,6))

lemma computes_bind:
  assumes "computes I m Q E" and "\<And>x. Q x \<Longrightarrow> computes I (f x) R E"
  shows "computes I (bindE m f) R E"
proof (rule computesI)
  fix s s' r
  assume "I s" and run: "bindE m f s = (s', r)"
  obtain s1 r1 where m: "m s = (s1, r1)" by fastforce
  note post = computesD [OF assms(1) \<open>I s\<close> m]
  show "I s' \<and> (case r of Inl e \<Rightarrow> E e | Inr x \<Rightarrow> R x)"
    using run m post computesD [OF assms(2), of _ s1 s' r] by (cases r1) (auto simp: bindE_def)
qed

lemma computes_attempt:
  assumes "computes I m R E"
  shows "computes I (attemptE m) (\<lambda>r. case r of Inl e \<Rightarrow> E e | Inr x \<Rightarrow> R x) E2"
  by (rule computesI) (auto simp: attemptE_iff dest: computesD [OF assms])

lemma computes_mapError:
  assumes "computes I m R (\<lambda>e. E (f e))"
  shows "computes I (mapErrorE f m) R E"
proof (rule computesI)
  fix s s' r
  assume "I s" and run: "mapErrorE f m s = (s', r)"
  obtain s1 r1 where m: "m s = (s1, r1)" by fastforce
  show "I s' \<and> (case r of Inl e \<Rightarrow> E e | Inr x \<Rightarrow> R x)"
    using run m computesD [OF assms \<open>I s\<close> m] by (cases r1) (auto simp: mapErrorE_def)
qed

lemma computes_earlyReturn:
  fixes m :: "('s, 'a, 'a) eff" and E :: "'e \<Rightarrow> bool"
  assumes "computes I m R R"
  shows "computes I (earlyReturn m) R E"
proof (rule computesI)
  fix s s' and r :: "'e + 'a"
  assume "I s" and run: "earlyReturn m s = (s', r)"
  obtain s1 r1 where m: "m s = (s1, r1)" by fastforce
  show "I s' \<and> (case r of Inl e \<Rightarrow> E e | Inr x \<Rightarrow> R x)"
    using run m computesD [OF assms \<open>I s\<close> m] by (cases r1) (auto simp: earlyReturn_def)
qed

lemma computes_fold:
  "R b \<Longrightarrow> (\<And>b x. x \<in> set xs \<Longrightarrow> R b \<Longrightarrow> computes I (f b x) R E) \<Longrightarrow> computes I (foldE f b xs) R E"
  by (induction xs arbitrary: b) (auto intro: computes_ret computes_bind)

lemma computes_cases [computes_intros]:
  "(c \<Longrightarrow> computes I m R E) \<Longrightarrow> (\<not> c \<Longrightarrow> computes I n R E) \<Longrightarrow> computes I (if c then m else n) R E"
  "(\<And>e. r = Inl e \<Longrightarrow> computes I (f e) R E) \<Longrightarrow> (\<And>x. r = Inr x \<Longrightarrow> computes I (g x) R E) \<Longrightarrow>
   computes I (case r of Inl e \<Rightarrow> f e | Inr x \<Rightarrow> g x) R E"
  "(opt = None \<Longrightarrow> computes I n R E) \<Longrightarrow> (\<And>x. opt = Some x \<Longrightarrow> computes I (h x) R E) \<Longrightarrow>
   computes I (case opt of None \<Rightarrow> n | Some x \<Rightarrow> h x) R E"
  "(\<And>a b. p = (a, b) \<Longrightarrow> computes I (k a b) R E) \<Longrightarrow> computes I (case p of (a, b) \<Rightarrow> k a b) R E"
  "(\<And>a b. p = (a, b) \<Longrightarrow> computes I (k2 a b z) R E) \<Longrightarrow> computes I ((case p of (a, b) \<Rightarrow> k2 a b) z) R E"
  "(\<And>y. y = x \<Longrightarrow> computes I (l y) R E) \<Longrightarrow> computes I (let y = x in l y) R E"
  by (auto simp: computes_def Let_def split: sum.split option.split prod.split)

end
