(* ===== verification/GoSpace.thy ===== *)
theory GoSpace
  imports GoQuote
begin

text \<open>
  \<^verbatim>\<open>strings.TrimSpace\<close> and \<^verbatim>\<open>strings.Fields\<close>: white space of Unicode at both ends of a string, and the fields between white
  space. A string is taken apart into the byte sequences of its runes first.
\<close>

section \<open>White space\<close>

function (sequential) runeParts :: "string \<Rightarrow> string list" where
  "runeParts [] = []"
| "runeParts (c # s) = take (snd (decodeRune (c # s))) (c # s) # runeParts (drop (snd (decodeRune (c # s))) (c # s))"
  by pat_completeness auto
termination
  by (relation "measure length") (simp_all add: decodeRune_width)

definition isSpacePart :: "string \<Rightarrow> bool" where
  "isSpacePart part = (let r = fst (decodeRune part) in
     9 \<le> r \<and> r \<le> 13 \<or> r = 0x20 \<or> r = 0x85 \<or> r = 0xA0 \<or> r = 0x1680 \<or> 0x2000 \<le> r \<and> r \<le> 0x200A \<or>
     r = 0x2028 \<or> r = 0x2029 \<or> r = 0x202F \<or> r = 0x205F \<or> r = 0x3000)"

definition TrimSpace :: "string \<Rightarrow> string" where
  "TrimSpace s = concat (rev (dropWhile isSpacePart (rev (dropWhile isSpacePart (runeParts s)))))"

text \<open>The fields between white space.\<close>

fun fieldsOfParts :: "string \<Rightarrow> string list \<Rightarrow> string list" where
  "fieldsOfParts cur [] = (if cur = [] then [] else [cur])"
| "fieldsOfParts cur (p # ps) =
     (if isSpacePart p then (if cur = [] then fieldsOfParts [] ps else cur # fieldsOfParts [] ps)
      else fieldsOfParts (cur @ p) ps)"

definition Fields :: "string \<Rightarrow> string list" where
  "Fields s = fieldsOfParts [] (runeParts s)"

section \<open>Lemmas\<close>

lemma decodeRune_prefix:
  assumes "t \<noteq> []" "snd (decodeRune (t @ u)) \<le> length t"
  shows "decodeRune t = decodeRune (t @ u)"
proof -
  let ?b = "byteAt t 0"
  have bytes: "(t @ u) ! i = t ! i" if "i < length t" for i using that by (simp add: nth_append)
  have "0 < length t" using assms(1) by simp
  then have b0: "byteAt (t @ u) 0 = ?b" by (simp add: bytes)
  consider "?b < 0x80" | "0x80 \<le> ?b" "?b < 0xC2 \<or> ?b > 0xF4" | "0xC2 \<le> ?b" "?b < 0xE0"
    | "0xE0 \<le> ?b" "?b < 0xF0" | "0xF0 \<le> ?b" "?b \<le> 0xF4" by linarith
  then show ?thesis
  proof cases
    case 3
    then show ?thesis using assms by (cases "length t \<ge> 2") (simp_all add: decodeRune_def Let_def b0 bytes split: if_splits)
  next
    case 4
    then show ?thesis using assms
      by (cases "length t \<ge> 3"; cases "length t \<ge> 2") (simp_all add: decodeRune_def Let_def b0 bytes split: if_splits)
  next
    case 5
    then show ?thesis using assms
      by (cases "length t \<ge> 4"; cases "length t \<ge> 3") (simp_all add: decodeRune_def Let_def b0 bytes split: if_splits)
  qed (use assms(1) b0 in \<open>simp_all add: decodeRune_def Let_def\<close>)
qed

lemma decodeRune_width_le: "snd (decodeRune s) \<le> length s"
  by (auto simp: decodeRune_def Let_def Suc_le_eq)

lemma runeParts_nonempty: "p \<in> set (runeParts s) \<Longrightarrow> p \<noteq> []"
proof (induction s rule: runeParts.induct)
  case (2 c s)
  then show ?case using decodeRune_width [of "c # s"] by (cases "p \<in> set (runeParts (drop (snd (decodeRune (c # s))) (c # s)))") auto
qed simp

lemma concat_runeParts [simp]: "concat (runeParts s) = s"
  by (induction s rule: runeParts.induct) auto

declare runeParts.simps(2) [simp del]

lemma runeParts_split:
  assumes "s \<noteq> []"
  shows "runeParts s = take (snd (decodeRune s)) s # runeParts (drop (snd (decodeRune s)) s)"
  using assms by (cases s) (simp_all add: runeParts.simps(2))

lemma runeParts_ascii: "of_char c < (0x80::nat) \<Longrightarrow> runeParts (c # s) = [c] # runeParts s"
  by (simp add: runeParts.simps(2) decodeRune_def)

lemma isSpacePart_ascii:
  "of_char c < (0x80::nat) \<Longrightarrow> isSpacePart [c] \<longleftrightarrow> 9 \<le> (of_char c :: nat) \<and> of_char c \<le> (13::nat) \<or> of_char c = (0x20::nat)"
  by (auto simp: isSpacePart_def decodeRune_def Let_def)

lemma runeParts_suffix: "runeParts s = ps @ qs \<Longrightarrow> runeParts (concat qs) = qs"
proof (induction ps arbitrary: s)
  case Nil
  then show ?case using concat_runeParts [of s] by simp
next
  case (Cons p ps)
  then have "s \<noteq> []" by auto
  then show ?case using Cons runeParts_split [of s] by auto
qed

lemma runeParts_prefix: "runeParts s = ps @ qs \<Longrightarrow> runeParts (concat ps) = ps"
proof (induction ps arbitrary: s)
  case (Cons p ps)
  then have "s \<noteq> []" by auto
  let ?w = "snd (decodeRune s)"
  have p: "p = take ?w s" and rest: "runeParts (drop ?w s) = ps @ qs"
    using Cons.prems runeParts_split [OF \<open>s \<noteq> []\<close>] by auto
  have "s = (p @ concat ps) @ concat qs" using Cons.prems concat_runeParts [of s] by simp
  moreover have "length p = ?w" using p decodeRune_width_le [of s] by simp
  moreover have "p @ concat ps \<noteq> []" using \<open>length p = ?w\<close> decodeRune_width [OF \<open>s \<noteq> []\<close>] by auto
  ultimately have "decodeRune (p @ concat ps) = decodeRune s"
    using decodeRune_prefix [of "p @ concat ps" "concat qs"] by simp
  then show ?case
    using runeParts_split [OF \<open>p @ concat ps \<noteq> []\<close>] \<open>length p = ?w\<close> Cons.IH [OF rest] by simp
qed simp

text \<open>What is left of a string is made of the parts in the middle.\<close>

definition trimParts :: "string list \<Rightarrow> string list" where
  "trimParts ps = rev (dropWhile isSpacePart (rev (dropWhile isSpacePart ps)))"

lemma TrimSpace_trimParts: "TrimSpace s = concat (trimParts (runeParts s))"
  by (simp add: TrimSpace_def trimParts_def)

lemma dropWhile_split: "\<exists>ps. xs = ps @ dropWhile P xs"
  by (metis takeWhile_dropWhile_id)

lemma trimParts_middle: "\<exists>as bs. ps = as @ trimParts ps @ bs"
proof -
  obtain as where 1: "ps = as @ dropWhile isSpacePart ps" using dropWhile_split by blast
  obtain bs where "rev (dropWhile isSpacePart ps) = bs @ dropWhile isSpacePart (rev (dropWhile isSpacePart ps))"
    using dropWhile_split by blast
  then have "dropWhile isSpacePart ps = trimParts ps @ rev bs"
    by (metis rev_append rev_rev_ident trimParts_def)
  then show ?thesis using 1 by metis
qed

lemma dropWhile_stays: "(xs \<noteq> [] \<Longrightarrow> \<not> P (hd xs)) \<Longrightarrow> dropWhile P xs = xs"
  by (cases xs) auto

lemma trimParts_ends:
  assumes "trimParts ps \<noteq> []"
  shows "\<not> isSpacePart (hd (trimParts ps))" "\<not> isSpacePart (last (trimParts ps))"
proof -
  let ?d = "dropWhile isSpacePart ps" and ?r = "dropWhile isSpacePart (rev (dropWhile isSpacePart ps))"
  have ne: "?r \<noteq> []" using assms by (simp add: trimParts_def)
  then have "\<not> isSpacePart (hd ?r)" by (rule hd_dropWhile)
  then show "\<not> isSpacePart (last (trimParts ps))" by (simp add: trimParts_def last_rev)
  obtain bs where "rev ?d = bs @ ?r" using dropWhile_split by blast
  then have "?d = trimParts ps @ rev bs" unfolding trimParts_def by (metis rev_append rev_rev_ident)
  then have hd: "hd ?d = hd (trimParts ps)" using assms by (metis hd_append2)
  have "?d \<noteq> []" using ne by (metis dropWhile.simps(1) rev.simps(1))
  then show "\<not> isSpacePart (hd (trimParts ps))" unfolding hd [symmetric] by (rule hd_dropWhile)
qed

lemma runeParts_TrimSpace: "runeParts (TrimSpace s) = trimParts (runeParts s)"
proof -
  obtain as bs where "runeParts s = as @ trimParts (runeParts s) @ bs" using trimParts_middle by blast
  then have "runeParts (concat (trimParts (runeParts s) @ bs)) = trimParts (runeParts s) @ bs" by (rule runeParts_suffix)
  then show ?thesis unfolding TrimSpace_trimParts by (rule runeParts_prefix)
qed

lemma trimParts_idem: "trimParts (trimParts ps) = trimParts ps"
proof -
  have "dropWhile isSpacePart (trimParts ps) = trimParts ps" using trimParts_ends(1) by (rule dropWhile_stays)
  moreover have "dropWhile isSpacePart (rev (trimParts ps)) = rev (trimParts ps)"
    by (rule dropWhile_stays) (simp add: hd_rev trimParts_ends(2))
  ultimately show ?thesis by (simp add: trimParts_def [of "trimParts ps"])
qed

lemma TrimSpace_idem [simp]: "TrimSpace (TrimSpace s) = TrimSpace s"
  by (simp add: TrimSpace_trimParts [of "TrimSpace s"] runeParts_TrimSpace trimParts_idem) (simp add: TrimSpace_trimParts)

lemma set_TrimSpace: "set (TrimSpace s) \<subseteq> set s"
proof -
  obtain as bs where "runeParts s = as @ trimParts (runeParts s) @ bs" using trimParts_middle by blast
  then have "s = concat as @ TrimSpace s @ concat bs" unfolding TrimSpace_trimParts by (metis concat_append concat_runeParts)
  then show ?thesis by (metis Un_iff set_append subsetI)
qed

end
