(* ===== verification/HostCalls.thy ===== *)
theory HostCalls
  imports Effects GoSpace "HOL-Library.Word"
begin

text \<open>
  The host as the cleanup of the host sees it: the calls of the container backend, of the locker, of the clock and of
  the file system. The state is the list of all calls so far, those that only read included. The answers are a parameter
  (\<open>hostEnv\<close>), and each may depend on all the calls before it, so that the disk usage may change between two
  measurements and a lock may be taken by another process at any time. Also here: the 64-bit values of
  \<^verbatim>\<open>pkg/volumeutils\<close> and \<^verbatim>\<open>pkg/host_cleaning/units\<close>, and the floating-point arithmetic the code does on them.
\<close>

section \<open>Calls and answers\<close>

type_synonym uint64 = "64 word"

datatype hostError =
    ErrUnsupportedFeature
  | ErrCannotRemovePausedContainer
  | ErrCannotRemoveRunningContainer
  | ErrImageUsedByContainer
  | ErrPruneIsAlreadyRunning
  | ErrOptionDryRunNotSupported
  | ErrUnsupportedContainerBackend
  | ErrNotExist
  | ErrPathRemoval
  | OtherError string
  | Joined "hostError list"

text \<open>\<^verbatim>\<open>errors.Is\<close> looks into joined errors, \<^verbatim>\<open>os.IsNotExist\<close> does not. Wrapping of errors is left out.\<close>

fun errorsIs :: "hostError \<Rightarrow> hostError \<Rightarrow> bool" where
  "errorsIs (Joined es) target \<longleftrightarrow> (\<exists>e \<in> set es. errorsIs e target)"
| "errorsIs e target \<longleftrightarrow> e = target"

definition IsNotExist :: "hostError \<Rightarrow> bool" where
  "IsNotExist e \<longleftrightarrow> e = ErrNotExist"

definition errorsJoin :: "hostError list \<Rightarrow> hostError option" where
  "errorsJoin es = (if es = [] then None else Some (Joined es))"

datatype fileType = RegularFile | Directory | Symlink | OtherFile

record FileInfo =
  fileName :: string
  fileMode :: fileType
  ModTime :: int
  FileSize :: int

record Summary =
  ImageID :: string
  RepoTags :: "string list"
  RepoDigests :: "string list"
  SummaryLabels :: "(string \<times> string) list"
  Created :: int
  ImageSize :: int

record Container =
  ContainerID :: string
  ContainerImageID :: string
  Names :: "string list"

datatype ContainerFilter = ByName string | ByAncestor string

record VolumeUsage =
  UsedBytes :: uint64
  TotalBytes :: uint64

record cleanupReport =
  ItemsDeleted :: "string list"
  SpaceReclaimed :: uint64

type_synonym filterPair = "string \<times> string"

datatype hostCall =
    CallInfo
  | CallImages "filterPair list"
  | CallContainers "ContainerFilter list"
  | CallRm string bool
  | CallRmi string bool
  | CallPruneImages "filterPair list"
  | CallPruneVolumes
  | CallRemoveHostDirs string "string list"
  | CallStapelPurge
  | CallVolumeUsage string
  | CallLastRunAt
  | CallLastAccessTime string
  | CallAcquire string
  | CallRelease string
  | CallNow
  | CallStat string
  | CallLstat string
  | CallReadDir string
  | CallReadFile string
  | CallReadlink string
  | CallDirSize string
  | CallWalk string
  | CallRemoveAll string
  | CallRemove string
  | CallRemoveProjectDir string
  | CallLockGC bool
  | CallShouldRunHostLocksGC
  | CallGCHostLockerDir
  | CallWriteNotice
  | CallDetach "string list" "string list"

record hostEnv =
  onInfo :: "hostCall list \<Rightarrow> hostError + string"
  onImages :: "hostCall list \<Rightarrow> filterPair list \<Rightarrow> hostError + Summary list"
  onContainers :: "hostCall list \<Rightarrow> ContainerFilter list \<Rightarrow> hostError + Container list"
  onRm :: "hostCall list \<Rightarrow> string \<Rightarrow> bool \<Rightarrow> hostError + unit"
  onRmi :: "hostCall list \<Rightarrow> string \<Rightarrow> bool \<Rightarrow> hostError + unit"
  onPruneImages :: "hostCall list \<Rightarrow> filterPair list \<Rightarrow> hostError + cleanupReport"
  onPruneVolumes :: "hostCall list \<Rightarrow> hostError + cleanupReport"
  onRemoveHostDirs :: "hostCall list \<Rightarrow> string \<Rightarrow> string list \<Rightarrow> hostError + unit"
  onStapelPurge :: "hostCall list \<Rightarrow> hostError + unit"
  onVolumeUsage :: "hostCall list \<Rightarrow> string \<Rightarrow> hostError + VolumeUsage"
  onLastRunAt :: "hostCall list \<Rightarrow> hostError + int"
  onLastAccessTime :: "hostCall list \<Rightarrow> string \<Rightarrow> hostError + int"
  onAcquire :: "hostCall list \<Rightarrow> string \<Rightarrow> hostError + bool"
  onRelease :: "hostCall list \<Rightarrow> string \<Rightarrow> hostError + unit"
  onNow :: "hostCall list \<Rightarrow> int"
  onStat :: "hostCall list \<Rightarrow> string \<Rightarrow> hostError + FileInfo"
  onLstat :: "hostCall list \<Rightarrow> string \<Rightarrow> hostError + FileInfo"
  onReadDir :: "hostCall list \<Rightarrow> string \<Rightarrow> hostError + FileInfo list"
  onReadFile :: "hostCall list \<Rightarrow> string \<Rightarrow> hostError + string"
  onReadlink :: "hostCall list \<Rightarrow> string \<Rightarrow> hostError + string"
  onDirSize :: "hostCall list \<Rightarrow> string \<Rightarrow> hostError + uint64"
  onWalk :: "hostCall list \<Rightarrow> string \<Rightarrow> hostError + FileInfo list"
  onRemoveAll :: "hostCall list \<Rightarrow> string \<Rightarrow> hostError + unit"
  onRemove :: "hostCall list \<Rightarrow> string \<Rightarrow> hostError + unit"
  onRemoveProjectDir :: "hostCall list \<Rightarrow> string \<Rightarrow> hostError + unit"
  onLockGC :: "hostCall list \<Rightarrow> bool \<Rightarrow> hostError + unit"
  onShouldRunHostLocksGC :: "hostCall list \<Rightarrow> hostError + bool"
  onGCHostLockerDir :: "hostCall list \<Rightarrow> hostError + unit"
  onWriteNotice :: "hostCall list \<Rightarrow> hostError + unit"
  onDetach :: "hostCall list \<Rightarrow> string list \<Rightarrow> string list \<Rightarrow> hostError + unit"
  floatOutOfRange :: "int \<Rightarrow> uint64"
  imageOrder :: "Summary list \<Rightarrow> Summary list"
  localCacheDir :: string
  serviceDir :: string
  sharedContextDir :: string
  homeDir :: string
  werfTmpDir :: string
  werfVersion :: string
  isWindows :: bool
  sameDevice :: "FileInfo \<Rightarrow> FileInfo \<Rightarrow> bool"
  isSubpath :: "string \<Rightarrow> string \<Rightarrow> bool"
  unmarshalTimestamp :: "string \<Rightarrow> hostError + int option"

text \<open>\<open>isSubpath\<close> is a helper of another module. \<open>unmarshalTimestamp\<close> decodes the JSON of a metadata file: \<open>None\<close> is the JSON null, a number
  the timestamp of the last access.\<close>

type_synonym 'a host = "(hostCall list, hostError, 'a) eff"

definition call :: "hostCall \<Rightarrow> (hostCall list \<Rightarrow> hostError + 'a) \<Rightarrow> 'a host" where
  "call c answer = (\<lambda>calls. (calls @ [c], answer calls))"

text \<open>The calls that change the host.\<close>

fun changesHost :: "hostCall \<Rightarrow> bool" where
  "changesHost (CallRm _ _) = True"
| "changesHost (CallRmi _ _) = True"
| "changesHost (CallPruneImages _) = True"
| "changesHost CallPruneVolumes = True"
| "changesHost (CallRemoveHostDirs _ _) = True"
| "changesHost CallStapelPurge = True"
| "changesHost (CallRemoveAll _) = True"
| "changesHost (CallRemove _) = True"
| "changesHost (CallRemoveProjectDir _) = True"
| "changesHost CallGCHostLockerDir = True"
| "changesHost CallWriteNotice = True"
| "changesHost (CallDetach _ _) = True"
| "changesHost _ = False"

text \<open>An operation that only appends calls of a kind.\<close>

definition onlyCalls :: "(hostCall \<Rightarrow> bool) \<Rightarrow> hostCall list \<Rightarrow> hostCall list \<Rightarrow> bool" where
  "onlyCalls P before calls \<longleftrightarrow> (\<exists>more. calls = before @ more \<and> list_all P more)"

lemma onlyCalls_refl [simp]: "onlyCalls P before before"
  by (simp add: onlyCalls_def)

lemma onlyCalls_snoc: "onlyCalls P before calls \<Longrightarrow> P c \<Longrightarrow> onlyCalls P before (calls @ [c])"
  by (auto simp: onlyCalls_def)

lemma onlyCalls_trans: "onlyCalls P a b \<Longrightarrow> onlyCalls P b c \<Longrightarrow> onlyCalls P a c"
  by (auto simp: onlyCalls_def)

lemma onlyCalls_mono: "onlyCalls P a b \<Longrightarrow> (\<And>c. P c \<Longrightarrow> Q c) \<Longrightarrow> onlyCalls Q a b"
  by (auto simp: onlyCalls_def list_all_iff)

lemma call_keeps: "(\<And>calls. I calls \<Longrightarrow> I (calls @ [c])) \<Longrightarrow> keeps I (call c answer)"
  by (simp add: triple_def call_def)

lemma call_onlyCalls [triple_intros]: "P c \<Longrightarrow> keeps (onlyCalls P before) (call c answer)"
  by (rule call_keeps) (rule onlyCalls_snoc)

text \<open>A loop of calls ends after the first that fails.\<close>

lemma foldE_calls:
  "foldE (\<lambda>_ x. call (g x) (answer x)) () xs s = (s', r) \<Longrightarrow>
   \<exists>k \<le> length xs. s' = s @ map g (take k xs) \<and> (\<forall>u. r = Inr u \<longrightarrow> k = length xs)"
proof (induction xs arbitrary: s)
  case (Cons x xs)
  show ?case
  proof (cases "answer x s")
    case (Inl e)
    then show ?thesis using Cons.prems by (intro exI [of _ 1]) (auto simp: bindE_def call_def)
  next
    case (Inr u)
    then have "foldE (\<lambda>_ x. call (g x) (answer x)) () xs (s @ [g x]) = (s', r)" using Cons.prems by (simp add: bindE_def call_def)
    from Cons.IH [OF this] obtain k where "k \<le> length xs" "s' = (s @ [g x]) @ map g (take k xs)" "\<forall>u. r = Inr u \<longrightarrow> k = length xs" by blast
    then show ?thesis by (intro exI [of _ "Suc k"]) simp
  qed
qed simp

lemma foldE_skip: "foldE (\<lambda>_ x. retE ()) () xs s = (s, Inr ())"
  by (induction xs) (simp_all add: bindE_def)

section \<open>Time\<close>

text \<open>The zero value of \<^verbatim>\<open>time.Time\<close> is the year 1; \<^verbatim>\<open>time.Since\<close> saturates at the bounds of a duration. Times are nanoseconds since
  the epoch without bounds.\<close>

definition zeroTime :: int where
  "zeroTime = - 62135596800 * 10 ^ 9"

definition timeSince :: "int \<Rightarrow> int \<Rightarrow> int" where
  "timeSince now t = max (- (2 ^ 63)) (min (2 ^ 63 - 1) (now - t))"

definition hours :: "int \<Rightarrow> int" where
  "hours n = n * 3600 * 10 ^ 9"

section \<open>Differences of 64-bit values\<close>

text \<open>\<^verbatim>\<open>lo.Ternary(a > b, a-b, 0)\<close>\<close>

definition monus :: "uint64 \<Rightarrow> uint64 \<Rightarrow> uint64" where
  "monus a b = (if a > b then a - b else 0)"

lemma unat_monus: "unat (monus a b) = unat a - unat b"
proof (cases "a > b")
  case True
  then show ?thesis by (simp add: monus_def unat_sub order_less_imp_le)
next
  case False
  then have "unat a \<le> unat b" by (simp add: word_le_nat_alt not_less)
  then show ?thesis using False by (simp add: monus_def)
qed

lemma monus_zero [simp]: "monus a b = 0 \<longleftrightarrow> a \<le> b"
  using unat_monus [of a b] by (metis diff_is_0_eq unat_eq_0 word_le_nat_alt)

section \<open>Floating point\<close>

text \<open>
  A \<^verbatim>\<open>float64\<close> that holds a natural number: rounding to 53 significant bits, ties to even. The difference of two such
  numbers is an integer and is rounded in the same way.
\<close>

function bitLen :: "int \<Rightarrow> nat" where
  "bitLen n = (if n \<le> 0 then 0 else Suc (bitLen (n div 2)))"
  by pat_completeness auto
termination
  by (relation "measure nat") auto

declare bitLen.simps [simp del]

definition roundFloat :: "int \<Rightarrow> int" where
  "roundFloat n =
     (if n < 2 ^ 53 then n
      else let shift = bitLen n - 53; q = n div 2 ^ shift; r = n mod 2 ^ shift; half = 2 ^ (shift - 1)
           in (if r > half \<or> r = half \<and> odd q then q + 1 else q) * 2 ^ shift)"

text \<open>\<^verbatim>\<open>uint64(math.Max(float64(a)-float64(b), 0))\<close>; a value that is out of range is left to the implementation by Go.\<close>

definition floatDifference :: "hostEnv \<Rightarrow> uint64 \<Rightarrow> uint64 \<Rightarrow> uint64" where
  "floatDifference env a b =
     (let x = roundFloat (uint a); y = roundFloat (uint b);
          d = (if x \<le> y then 0 else roundFloat (x - y))
      in if d < 2 ^ 64 then of_int d else floatOutOfRange env d)"

lemma floatDifference_exact:
  assumes "uint a < 2 ^ 53" "uint b < 2 ^ 53"
  shows "floatDifference env a b = monus a b"
proof -
  have "uint a - uint b < 2 ^ 53" using assms uint_ge_0 [of b] by linarith
  then show ?thesis using assms by (auto simp: floatDifference_def roundFloat_def Let_def monus_def word_less_def)
qed

section \<open>A host without surprises\<close>

text \<open>A host on which every call succeeds and nothing is found, for instances of the theorems.\<close>

definition idleHost :: hostEnv where
  "idleHost = \<lparr>onInfo = (\<lambda>_. Inr ''/var/lib''), onImages = (\<lambda>_ _. Inr []), onContainers = (\<lambda>_ _. Inr []), onRm = (\<lambda>_ _ _. Inr ()),
     onRmi = (\<lambda>_ _ _. Inr ()), onPruneImages = (\<lambda>_ _. Inr \<lparr>ItemsDeleted = [], SpaceReclaimed = 0\<rparr>),
     onPruneVolumes = (\<lambda>_. Inr \<lparr>ItemsDeleted = [], SpaceReclaimed = 0\<rparr>), onRemoveHostDirs = (\<lambda>_ _ _. Inr ()), onStapelPurge = (\<lambda>_. Inr ()),
     onVolumeUsage = (\<lambda>_ _. Inr \<lparr>UsedBytes = 0, TotalBytes = 100\<rparr>), onLastRunAt = (\<lambda>_. Inr 0), onLastAccessTime = (\<lambda>_ _. Inr zeroTime),
     onAcquire = (\<lambda>_ _. Inr True), onRelease = (\<lambda>_ _. Inr ()), onNow = (\<lambda>_. 0), onStat = (\<lambda>_ _. Inl ErrNotExist),
     onLstat = (\<lambda>_ _. Inl ErrNotExist), onReadDir = (\<lambda>_ _. Inl ErrNotExist), onReadFile = (\<lambda>_ _. Inl ErrNotExist), onReadlink = (\<lambda>_ _. Inl ErrNotExist),
     onDirSize = (\<lambda>_ _. Inr 0), onWalk = (\<lambda>_ _. Inr []), onRemoveAll = (\<lambda>_ _. Inr ()), onRemove = (\<lambda>_ _. Inr ()),
     onRemoveProjectDir = (\<lambda>_ _. Inr ()), onLockGC = (\<lambda>_ _. Inr ()), onShouldRunHostLocksGC = (\<lambda>_. Inr False),
     onGCHostLockerDir = (\<lambda>_. Inr ()), onWriteNotice = (\<lambda>_. Inr ()), onDetach = (\<lambda>_ _ _. Inr ()), floatOutOfRange = (\<lambda>_. 0),
     imageOrder = (\<lambda>imgs. imgs), localCacheDir = ''/cache'', serviceDir = ''/service'', sharedContextDir = ''/shared'', homeDir = ''/home'',
     werfTmpDir = ''/tmp'', werfVersion = ''3'', isWindows = False, sameDevice = (\<lambda>_ _. True), isSubpath = (\<lambda>base path. HasPrefix path (base @ ''/'')),
     unmarshalTimestamp = (\<lambda>_. Inl (OtherError ''json''))\<rparr>"

lemma result_Inr: "\<not> isl (snd p) \<Longrightarrow> p = (fst p, Inr (projr (snd p)))"
  by (cases p; cases "snd p") auto

end
