(* ===== verification/LocalGC.thy ===== *)
theory LocalGC
  imports HostCalls
begin

text \<open>
  The garbage collection of the local container backend, \<^verbatim>\<open>pkg/host_cleaning/local_backend_cleaner.go\<close> with the reports
  of \<^verbatim>\<open>cleanup_report.go\<close> and the containers of \<^verbatim>\<open>containers.go\<close>. Reclaimed space is measured as the code does, by
  the usage of the volume before and after.
\<close>

section \<open>Options and reports\<close>

record RunGCOptions =
  AllowedStorageVolumeUsageBytes :: uint64
  AllowedStorageVolumeUsageMarginBytes :: uint64
  StoragePath :: string
  Force :: bool
  DryRun :: bool

record RunGCReport =
  ImagesDeleted :: nat
  gcSpaceReclaimed :: uint64
  gcUsedBytes :: uint64
  gcTotalBytes :: uint64
  AllowedBytes :: uint64
  gcStoragePath :: string

definition emptyReport :: cleanupReport where
  "emptyReport = \<lparr>ItemsDeleted = [], SpaceReclaimed = 0\<rparr>"

definition Normalize :: "cleanupReport \<Rightarrow> cleanupReport" where
  "Normalize cr = (if length (ItemsDeleted cr) > 0 then cr else emptyReport)"

definition mapPruneReportToCleanupReport :: "cleanupReport \<Rightarrow> cleanupReport" where
  "mapPruneReportToCleanupReport rep = \<lparr>ItemsDeleted = ItemsDeleted rep, SpaceReclaimed = SpaceReclaimed rep\<rparr>"

definition mapImageListToCleanupReport :: "Summary list \<Rightarrow> cleanupReport" where
  "mapImageListToCleanupReport imgs =
     Normalize \<lparr>ItemsDeleted = map ImageID imgs, SpaceReclaimed = foldl (\<lambda>n img. n + of_int (ImageSize img)) 0 imgs\<rparr>"

section \<open>Storage path and usage\<close>

definition backendStoragePath :: "hostEnv \<Rightarrow> string \<Rightarrow> string host" where
  "backendStoragePath env storagePath =
     bindE (if storagePath = [] then call CallInfo (onInfo env) else retE storagePath) (\<lambda>path.
     bindE (call (CallStat path) (\<lambda>tr. onStat env tr path)) (\<lambda>_.
     retE path))"

definition volumeUsage :: "hostEnv \<Rightarrow> string \<Rightarrow> VolumeUsage host" where
  "volumeUsage env path = call (CallVolumeUsage path) (\<lambda>tr. onVolumeUsage env tr path)"

definition ShouldRunAutoGC :: "hostEnv \<Rightarrow> uint64 \<Rightarrow> string \<Rightarrow> bool host" where
  "ShouldRunAutoGC env allowedBytes storagePath =
     bindE (backendStoragePath env storagePath) (\<lambda>path.
     bindE (volumeUsage env path) (\<lambda>vu.
     retE (UsedBytes vu > allowedBytes)))"

definition totalSpaceReclaimed :: "VolumeUsage \<Rightarrow> VolumeUsage \<Rightarrow> uint64" where
  "totalSpaceReclaimed vuBefore vuAfter = monus (UsedBytes vuBefore) (UsedBytes vuAfter)"

definition measureReclaimedSpace :: "hostEnv \<Rightarrow> string \<Rightarrow> VolumeUsage \<Rightarrow> (uint64 \<times> VolumeUsage) host" where
  "measureReclaimedSpace env storagePath vuBefore =
     bindE (volumeUsage env storagePath) (\<lambda>vuAfter.
     retE (floatDifference env (UsedBytes vuBefore) (UsedBytes vuAfter), vuAfter))"

section \<open>Locks and removals\<close>

definition ContainerLockName :: "string \<Rightarrow> string" where
  "ContainerLockName containerName = ''container.'' @ containerName"

definition ImageLockName :: "string \<Rightarrow> string" where
  "ImageLockName imageName = ''image.'' @ imageName"

definition isLocked :: "hostEnv \<Rightarrow> string \<Rightarrow> bool host" where
  "isLocked env lockName =
     bindE (call (CallAcquire lockName) (\<lambda>tr. onAcquire env tr lockName)) (\<lambda>ok.
     if \<not> ok then retE True
     else bindE (call (CallRelease lockName) (\<lambda>tr. onRelease env tr lockName)) (\<lambda>_. retE False))"

definition removeImageRef :: "hostEnv \<Rightarrow> string \<Rightarrow> RunGCOptions \<Rightarrow> unit host" where
  "removeImageRef env ref options =
     (if DryRun options then retE () else call (CallRmi ref (Force options)) (\<lambda>tr. onRmi env tr ref (Force options)))"

definition removeContainerRef :: "hostEnv \<Rightarrow> string \<Rightarrow> RunGCOptions \<Rightarrow> unit host" where
  "removeContainerRef env ref options =
     (if DryRun options then retE () else call (CallRm ref (Force options)) (\<lambda>tr. onRm env tr ref (Force options)))"

definition noneRef :: string where
  "noneRef = ''<none>:<none>''"

definition removeTag :: "hostEnv \<Rightarrow> RunGCOptions \<Rightarrow> nat \<Rightarrow> string \<Rightarrow> nat host" where
  "removeTag env options unRemovedCount ref =
     (if ref = noneRef
      then bindE (attemptE (removeImageRef env ref options)) (\<lambda>r.
        retE (case r of Inl _ \<Rightarrow> unRemovedCount + 1 | Inr _ \<Rightarrow> unRemovedCount))
      else bindE (isLocked env (ImageLockName ref)) (\<lambda>ok.
        if ok then retE (unRemovedCount + 1)
        else bindE (attemptE (removeImageRef env ref options)) (\<lambda>r.
          retE (case r of Inl _ \<Rightarrow> unRemovedCount + 1 | Inr _ \<Rightarrow> unRemovedCount))))"

definition removeImageByRepoTags :: "hostEnv \<Rightarrow> RunGCOptions \<Rightarrow> Summary \<Rightarrow> bool host" where
  "removeImageByRepoTags env options imgSummary =
     bindE (foldE (removeTag env options) 0 (RepoTags imgSummary)) (\<lambda>unRemovedCount.
     retE (unRemovedCount = 0 \<and> length (RepoTags imgSummary) > 0))"

definition removeImageByRepoDigests :: "hostEnv \<Rightarrow> RunGCOptions \<Rightarrow> Summary \<Rightarrow> bool host" where
  "removeImageByRepoDigests env options imgSummary =
     bindE (foldE (\<lambda>unRemovedCount repoDigest. bindE (attemptE (removeImageRef env repoDigest options)) (\<lambda>r.
        retE (case r of Inl _ \<Rightarrow> unRemovedCount + 1 | Inr _ \<Rightarrow> unRemovedCount))) (0::nat) (RepoDigests imgSummary)) (\<lambda>unRemovedCount.
     retE (unRemovedCount = 0 \<and> length (RepoDigests imgSummary) > 0))"

section \<open>Pruning\<close>

definition WerfLabel :: string where
  "WerfLabel = ''werf''"

definition DanglingTrue :: filterPair where
  "DanglingTrue = (''dangling'', ''true'')"

definition DanglingFalse :: filterPair where
  "DanglingFalse = (''dangling'', ''false'')"

definition danglingImagesRetentionPeriod :: string where
  "danglingImagesRetentionPeriod = ''15m''"

definition handleError :: "hostError \<Rightarrow> hostError option" where
  "handleError err =
     (if errorsIs err ErrUnsupportedFeature then None
      else if errorsIs err ErrOptionDryRunNotSupported then None
      else Some err)"

definition pruneImages :: "hostEnv \<Rightarrow> RunGCOptions \<Rightarrow> cleanupReport host" where
  "pruneImages env options =
     (let filters = [DanglingTrue, (''label'', WerfLabel), (''until'', danglingImagesRetentionPeriod)]
      in if DryRun options
         then bindE (call (CallImages filters) (\<lambda>tr. onImages env tr filters)) (\<lambda>imgs. retE (mapImageListToCleanupReport imgs))
         else bindE (attemptE (call (CallPruneImages filters) (\<lambda>tr. onPruneImages env tr filters))) (\<lambda>r.
           case r of
             Inl err \<Rightarrow> (if errorsIs err ErrImageUsedByContainer \<or> errorsIs err ErrPruneIsAlreadyRunning then retE emptyReport else failE err)
           | Inr rep \<Rightarrow> retE (mapPruneReportToCleanupReport rep)))"

definition pruneVolumes :: "hostEnv \<Rightarrow> RunGCOptions \<Rightarrow> cleanupReport host" where
  "pruneVolumes env options =
     (if DryRun options then failE ErrOptionDryRunNotSupported
      else bindE (attemptE (call CallPruneVolumes (onPruneVolumes env))) (\<lambda>r.
        case r of
          Inl err \<Rightarrow> (if errorsIs err ErrPruneIsAlreadyRunning then retE emptyReport else failE err)
        | Inr rep \<Rightarrow> retE (mapPruneReportToCleanupReport rep)))"

section \<open>Containers\<close>

definition StageContainerNamePrefix :: string where
  "StageContainerNamePrefix = ''werf.build.''"

definition ImportServerContainerNamePrefix :: string where
  "ImportServerContainerNamePrefix = ''import-server-''"

definition werfContainersByContainersOptions :: "hostEnv \<Rightarrow> ContainerFilter list \<Rightarrow> Container list host" where
  "werfContainersByContainersOptions env filters =
     (let filters = filters @ [ByName StageContainerNamePrefix, ByName ImportServerContainerNamePrefix]
      in call (CallContainers filters) (\<lambda>tr. onContainers env tr filters))"

definition werfContainerName :: "Container \<Rightarrow> string" where
  "werfContainerName container =
     (case find (\<lambda>name. HasPrefix name (''/'' @ StageContainerNamePrefix) \<or> HasPrefix name (''/'' @ ImportServerContainerNamePrefix)) (Names container) of
        None \<Rightarrow> []
      | Some name \<Rightarrow> TrimPrefix name ''/'')"

definition cleanupContainer :: "hostEnv \<Rightarrow> RunGCOptions \<Rightarrow> cleanupReport \<Rightarrow> Container \<Rightarrow> cleanupReport host" where
  "cleanupContainer env options rep container =
     (let containerName = werfContainerName container
      in if containerName = [] then retE rep
         else bindE (isLocked env (ContainerLockName containerName)) (\<lambda>ok.
           if ok then retE rep
           else bindE (attemptE (removeContainerRef env (ContainerID container) options)) (\<lambda>r.
             case r of
               Inl _ \<Rightarrow> retE rep
             | Inr _ \<Rightarrow> retE (rep\<lparr>ItemsDeleted := ItemsDeleted rep @ [ContainerID container]\<rparr>))))"

definition cleanupWerfContainers :: "hostEnv \<Rightarrow> RunGCOptions \<Rightarrow> VolumeUsage \<Rightarrow> cleanupReport host" where
  "cleanupWerfContainers env options vu =
     bindE (werfContainersByContainersOptions env []) (\<lambda>containers.
     bindE (foldE (cleanupContainer env options) emptyReport containers) (\<lambda>rep.
     if length containers > 0
     then bindE (volumeUsage env (StoragePath options)) (\<lambda>vuAfter.
       retE (Normalize (rep\<lparr>SpaceReclaimed := monus (UsedBytes vu) (UsedBytes vuAfter)\<rparr>)))
     else retE (Normalize rep)))"

section \<open>Images\<close>

definition imagesBy :: "hostEnv \<Rightarrow> filterPair list \<Rightarrow> Summary list host" where
  "imagesBy env filters = call (CallImages filters) (\<lambda>tr. onImages env tr filters)"

definition werfImagesByLabels :: "hostEnv \<Rightarrow> Summary list host" where
  "werfImagesByLabels env = imagesBy env [DanglingFalse, (''label'', WerfLabel)]"

definition werfImagesByLegacyLabels :: "hostEnv \<Rightarrow> Summary list host" where
  "werfImagesByLegacyLabels env = imagesBy env [DanglingFalse, (''label'', WerfLabel), (''label'', ''werf-stage-signature'')]"

definition serviceImageFilters :: "filterPair list" where
  "serviceImageFilters = [DanglingFalse, (''reference'', ''*client-id-*''), (''reference'', ''*managed-image-*''), (''reference'', ''*meta-*''),
     (''reference'', ''*-rejected''), (''reference'', ''werf-client-id/*''), (''reference'', ''werf-managed-images/*''),
     (''reference'', ''werf-images-metadata-by-commit/*'')]"

definition werfImagesByLastRun :: "hostEnv \<Rightarrow> Summary list host" where
  "werfImagesByLastRun env =
     bindE (call CallLastRunAt (onLastRunAt env)) (\<lambda>t.
     if t = zeroTime
     then bindE (imagesBy env serviceImageFilters) (\<lambda>imgs. retE (filter (\<lambda>img. ImageSize img = 0) imgs))
     else retE [])"

definition maxLastUsedAtForImage :: "hostEnv \<Rightarrow> Summary \<Rightarrow> int host" where
  "maxLastUsedAtForImage env img =
     foldE (\<lambda>lastUsedAt ref. bindE (call (CallLastAccessTime ref) (\<lambda>tr. onLastAccessTime env tr ref)) (\<lambda>lastRecentlyUsedAt.
       retE (if lastUsedAt < lastRecentlyUsedAt then lastRecentlyUsedAt else lastUsedAt))) (Created img) (RepoTags img)"

definition collectLastUsed :: "hostEnv \<Rightarrow> Summary list \<Rightarrow> (string, int) goMap host" where
  "collectLastUsed env imgs =
     foldE (\<lambda>lastUsedAtMap img. bindE (maxLastUsedAtForImage env img) (\<lambda>t. retE (AList.update (ImageID img) t lastUsedAtMap))) [] imgs"

definition lastUsedAt :: "(string, int) goMap \<Rightarrow> Summary \<Rightarrow> int" where
  "lastUsedAt lastUsedAtMap img = (case map_of lastUsedAtMap (ImageID img) of None \<Rightarrow> zeroTime | Some t \<Rightarrow> t)"

definition werfImages :: "hostEnv \<Rightarrow> Summary list host" where
  "werfImages env =
     bindE (werfImagesByLabels env) (\<lambda>images0.
     bindE (werfImagesByLegacyLabels env) (\<lambda>images1.
     bindE (werfImagesByLastRun env) (\<lambda>images2.
     let images = images0 @ images1 @ images2 in
     bindE (collectLastUsed env images) (\<lambda>lastUsedAtMap.
     retE (sort_key (lastUsedAt lastUsedAtMap) (imageOrder env images))))))"

subsection \<open>Batches\<close>

function (sequential) batchEnd :: "Summary list \<Rightarrow> nat \<Rightarrow> uint64 \<Rightarrow> uint64 \<Rightarrow> nat" where
  "batchEnd imgs i freedBytes bytesToFree =
     (if i < length imgs \<and> freedBytes < bytesToFree
      then batchEnd imgs (i + 1) (freedBytes + of_int (ImageSize (imgs ! i))) bytesToFree
      else i)"
  by pat_completeness auto
termination
  by (relation "measure (\<lambda>(imgs, i, _, _). length imgs - i)") auto

declare batchEnd.simps [simp del]

text \<open>\<open>None\<close> is the result -1. The indexes are far below the integers that a float cannot hold.\<close>

definition countImagesToFree :: "Summary list \<Rightarrow> nat \<Rightarrow> uint64 \<Rightarrow> nat option" where
  "countImagesToFree imgs startIndex bytesToFree =
     (if bytesToFree = 0 \<or> startIndex \<ge> length imgs then None
      else Some (max (batchEnd imgs startIndex 0 bytesToFree - 1) startIndex))"

definition removeImage :: "hostEnv \<Rightarrow> RunGCOptions \<Rightarrow> cleanupReport \<Rightarrow> Summary \<Rightarrow> cleanupReport host" where
  "removeImage env options rep imgSummary =
     bindE (if length (RepoTags imgSummary) > 0 then removeImageByRepoTags env options imgSummary
            else if length (RepoDigests imgSummary) > 0 then removeImageByRepoDigests env options imgSummary
            else retE False) (\<lambda>ok.
     retE (if ok then rep\<lparr>ItemsDeleted := ItemsDeleted rep @ [ImageID imgSummary]\<rparr> else rep))"

definition batch :: "Summary list \<Rightarrow> nat \<Rightarrow> nat \<Rightarrow> Summary list" where
  "batch imgs startIndex n = drop startIndex (take (n + 1) imgs)"

lemma countImagesToFree_bounds: "countImagesToFree imgs startIndex toFree = Some n \<Longrightarrow> startIndex \<le> n \<and> startIndex < length imgs"
  by (auto simp: countImagesToFree_def split: if_splits)

function cleanLoop ::
    "hostEnv \<Rightarrow> RunGCOptions \<Rightarrow> uint64 \<Rightarrow> Summary list \<Rightarrow> nat \<Rightarrow> VolumeUsage \<Rightarrow> cleanupReport \<Rightarrow> cleanupReport host" where
  "cleanLoop env options targetVolumeUsageBytes imgs startIndex vu rep =
     (case countImagesToFree imgs startIndex (monus (UsedBytes vu) targetVolumeUsageBytes) of
        None \<Rightarrow> retE rep
      | Some n \<Rightarrow>
          bindE (foldE (removeImage env options) rep (batch imgs startIndex n)) (\<lambda>rep.
          bindE (volumeUsage env (StoragePath options)) (\<lambda>vuAfter.
          if UsedBytes vuAfter \<ge> UsedBytes vu then retE rep
          else cleanLoop env options targetVolumeUsageBytes imgs (n + 1) vuAfter
                 (rep\<lparr>SpaceReclaimed := SpaceReclaimed rep + (UsedBytes vu - UsedBytes vuAfter)\<rparr>))))"
  by pat_completeness auto
termination
  by (relation "measure (\<lambda>(_, _, _, imgs, startIndex, _, _). length imgs - startIndex)") (auto dest: countImagesToFree_bounds)

declare cleanLoop.simps [simp del]

definition cleanupWerfImages :: "hostEnv \<Rightarrow> RunGCOptions \<Rightarrow> VolumeUsage \<Rightarrow> uint64 \<Rightarrow> cleanupReport host" where
  "cleanupWerfImages env options vu targetVolumeUsageBytes =
     bindE (werfImages env) (\<lambda>images.
     bindE (cleanLoop env options targetVolumeUsageBytes images 0 vu emptyReport) (\<lambda>rep.
     retE (Normalize rep)))"

section \<open>The run\<close>

text \<open>A step of the run: errors that \<open>handleError\<close> lets pass count as success.\<close>

definition tolerate :: "cleanupReport host \<Rightarrow> unit host" where
  "tolerate m = bindE (attemptE m) (\<lambda>r. case r of Inl err \<Rightarrow> (if handleError err = None then retE () else failE err) | Inr _ \<Rightarrow> retE ())"

definition finishReport :: "RunGCReport \<Rightarrow> VolumeUsage \<Rightarrow> VolumeUsage \<Rightarrow> nat \<Rightarrow> RunGCReport" where
  "finishReport rep vuBefore vu deleted =
     rep\<lparr>ImagesDeleted := deleted, gcSpaceReclaimed := totalSpaceReclaimed vuBefore vu, gcUsedBytes := UsedBytes vu\<rparr>"

definition RunGC :: "hostEnv \<Rightarrow> RunGCOptions \<Rightarrow> RunGCReport host" where
  "RunGC env options =
     bindE (backendStoragePath env (StoragePath options)) (\<lambda>path.
     let options = options\<lparr>StoragePath := path\<rparr> in
     bindE (volumeUsage env path) (\<lambda>vu.
     let rep = \<lparr>ImagesDeleted = 0, gcSpaceReclaimed = 0, gcUsedBytes = UsedBytes vu, gcTotalBytes = TotalBytes vu,
                AllowedBytes = AllowedStorageVolumeUsageBytes options, gcStoragePath = path\<rparr> in
     if UsedBytes vu \<le> AllowedStorageVolumeUsageBytes options then retE rep
     else
       let target = floatDifference env (AllowedStorageVolumeUsageBytes options) (AllowedStorageVolumeUsageMarginBytes options);
           vuBefore = vu in
       bindE (tolerate (pruneVolumes env options)) (\<lambda>_.
       bindE (measureReclaimedSpace env path vu) (\<lambda>(_, vu).
       bindE (tolerate (pruneImages env options)) (\<lambda>_.
       bindE (measureReclaimedSpace env path vu) (\<lambda>(_, vu).
       if UsedBytes vu \<le> AllowedStorageVolumeUsageBytes options then retE (finishReport rep vuBefore vu 0)
       else
         bindE (cleanupWerfContainers env options vu) (\<lambda>_.
         bindE (measureReclaimedSpace env path vu) (\<lambda>(_, vu).
         bindE (cleanupWerfImages env options vu target) (\<lambda>reportWerfImages.
         bindE (measureReclaimedSpace env path vu) (\<lambda>(_, vu).
         retE (finishReport rep vuBefore vu (length (ItemsDeleted reportWerfImages)))))))))))))"

end
