(* ===== verification/TmpGC.thy ===== *)
theory TmpGC
  imports HostCalls
begin

text \<open>
  Temporary files, \<^verbatim>\<open>pkg/tmp_manager/gc.go\<close> and \<^verbatim>\<open>purge.go\<close>: which directories and links are collected, and their
  removal. A pattern of the source is a name with asterisks. \<open>None\<close> as the way to remove a project directory stands for
  the nil function.
\<close>

section \<open>Names\<close>

fun matchStar :: "string \<Rightarrow> string \<Rightarrow> bool" where
  "matchStar [] name \<longleftrightarrow> name = []"
| "matchStar (p # ps) [] \<longleftrightarrow> p = CHR ''*'' \<and> matchStar ps []"
| "matchStar (p # ps) (c # cs) \<longleftrightarrow>
     (if p = CHR ''*'' then matchStar ps (c # cs) \<or> c \<noteq> CHR ''/'' \<and> matchStar (p # ps) cs else p = c \<and> matchStar ps cs)"

definition filepathBase :: "string \<Rightarrow> string" where
  "filepathBase path =
     (if path = [] then ''.''
      else let stripped = rev (dropWhile (\<lambda>c. c = CHR ''/'') (rev path))
           in if stripped = [] then ''/'' else rev (takeWhile (\<lambda>c. c \<noteq> CHR ''/'') (rev stripped)))"

definition isProjectTmpDir :: "string \<Rightarrow> bool" where
  "isProjectTmpDir path \<longleftrightarrow> (\<exists>pattern \<in> set [''werf-*-project-data-*'', ''werf-project-data-*'']. matchStar pattern (filepathBase path))"

definition getServiceTmpDir :: "hostEnv \<Rightarrow> string" where
  "getServiceTmpDir env = PathJoin [serviceDir env, ''tmp'']"

definition getCreatedTmpDirs :: "hostEnv \<Rightarrow> string" where
  "getCreatedTmpDirs env = PathJoin [getServiceTmpDir env, ''created'']"

definition getReleasedTmpDirs :: "hostEnv \<Rightarrow> string" where
  "getReleasedTmpDirs env = PathJoin [getServiceTmpDir env, ''released'']"

definition commonPrefix :: "hostEnv \<Rightarrow> string" where
  "commonPrefix env = ''werf-'' @ werfVersion env @ ''-''"

definition projectDirPrefix :: "hostEnv \<Rightarrow> string" where
  "projectDirPrefix env = commonPrefix env @ ''project-data-''"

section \<open>Collection\<close>

record gcPath =
  gcPathPath :: string
  namePattern :: string
  keepingTime :: int
  followSymlinks :: bool

definition newGCPath :: "string \<Rightarrow> string \<Rightarrow> int \<Rightarrow> gcPath" where
  "newGCPath path pattern t = \<lparr>gcPathPath = path, namePattern = pattern, keepingTime = t, followSymlinks = True\<rparr>"

definition newNoFollowGCPath :: "string \<Rightarrow> string \<Rightarrow> int \<Rightarrow> gcPath" where
  "newNoFollowGCPath path pattern t = \<lparr>gcPathPath = path, namePattern = pattern, keepingTime = t, followSymlinks = False\<rparr>"

definition gcPathList :: "hostEnv \<Rightarrow> gcPath list" where
  "gcPathList env =
     [newGCPath (PathJoin [getReleasedTmpDirs env, ''projects'']) [] 0,
      newGCPath (PathJoin [getCreatedTmpDirs env, ''projects'']) [] 0,
      newGCPath (PathJoin [getCreatedTmpDirs env, ''docker_configs'']) [] (hours 6),
      newGCPath (PathJoin [getCreatedTmpDirs env, ''kubeconfigs'']) [] 0,
      newGCPath (PathJoin [getCreatedTmpDirs env, ''werf_config_renders'']) [] 0,
      newGCPath (PathJoin [getCreatedTmpDirs env, ''context'']) [] 0,
      newGCPath (PathJoin [getCreatedTmpDirs env, ''context_pins'']) [] 0,
      newGCPath (PathJoin [getServiceTmpDir env, ''context_pins'']) [] (hours 24),
      newNoFollowGCPath (werfTmpDir env) ''werf-*-project-data-*'' (hours 24),
      newNoFollowGCPath (werfTmpDir env) ''werf-project-data-*'' (hours 24)]"

text \<open>An error that says the file does not exist ends the treatment of an entry without failure.\<close>

definition ifExists :: "'a host \<Rightarrow> 'b \<Rightarrow> ('a \<Rightarrow> 'b host) \<Rightarrow> 'b host" where
  "ifExists m b f = bindE (attemptE m) (\<lambda>r. case r of Inl e \<Rightarrow> (if errorsIs e ErrNotExist then retE b else failE e) | Inr x \<Rightarrow> f x)"

type_synonym pathLists = "string list \<times> string list"

definition followLink :: "hostEnv \<Rightarrow> string \<Rightarrow> pathLists \<Rightarrow> pathLists host" where
  "followLink env link found =
     ifExists (call (CallReadlink link) (\<lambda>tr. onReadlink env tr link)) found (\<lambda>filePath.
     ifExists (call (CallStat filePath) (\<lambda>tr. onStat env tr filePath)) found (\<lambda>_.
     retE (fst found @ [filePath], snd found)))"

definition listEntry :: "hostEnv \<Rightarrow> gcPath \<Rightarrow> FileInfo \<Rightarrow> pathLists \<Rightarrow> FileInfo \<Rightarrow> pathLists host" where
  "listEntry env item dirInfo found dirEntry =
     (let linkOrFilePath = PathJoin [gcPathPath item, fileName dirEntry]
      in if namePattern item \<noteq> [] \<and> \<not> matchStar (namePattern item) (fileName dirEntry) then retE found
         else ifExists (call (CallLstat linkOrFilePath) (\<lambda>tr. onLstat env tr linkOrFilePath)) found (\<lambda>info.
           bindE (call CallNow (\<lambda>tr. Inr (onNow env tr))) (\<lambda>now.
           if timeSince now (ModTime info) < keepingTime item then retE found
           else if fileMode info = Symlink
           then (let found = (fst found, snd found @ [linkOrFilePath])
                 in if \<not> followSymlinks item then retE found else followLink env linkOrFilePath found)
           else if \<not> followSymlinks item \<and> \<not> sameDevice env dirInfo info then retE found
           else retE (fst found @ [linkOrFilePath], snd found))))"

definition listDirAndFollowSymlinks :: "hostEnv \<Rightarrow> gcPath \<Rightarrow> pathLists host" where
  "listDirAndFollowSymlinks env item =
     (let dir = gcPathPath item
      in ifExists (call (CallStat dir) (\<lambda>tr. onStat env tr dir)) ([], []) (\<lambda>dirInfo.
         bindE (call (CallReadDir dir) (\<lambda>tr. onReadDir env tr dir)) (\<lambda>dirEntries.
         foldE (listEntry env item dirInfo) ([], []) dirEntries)))"

definition collectPaths :: "hostEnv \<Rightarrow> pathLists host" where
  "collectPaths env =
     foldE (\<lambda>(dirs, links) item. bindE (listDirAndFollowSymlinks env item) (\<lambda>(ds, ls). retE (dirs @ ds, links @ ls))) ([], []) (gcPathList env)"

section \<open>Removal\<close>

definition tmp_ShouldRunAutoGC :: "hostEnv \<Rightarrow> bool host" where
  "tmp_ShouldRunAutoGC env = bindE (collectPaths env) (\<lambda>(dirs, links). retE (length dirs > 0 \<or> length links > 0))"

definition runGCForPaths ::
    "hostEnv \<Rightarrow> bool \<Rightarrow> (string \<Rightarrow> unit host) option \<Rightarrow> string list \<Rightarrow> (string list \<times> hostError list) host" where
  "runGCForPaths env dryRun removeProjectDir paths =
     foldE (\<lambda>(failed, removeErrors) path.
       if dryRun then retE (failed, removeErrors)
       else bindE (attemptE (case removeProjectDir of
           Some remove \<Rightarrow> if isProjectTmpDir path then remove path else call (CallRemoveAll path) (\<lambda>tr. onRemoveAll env tr path)
         | None \<Rightarrow> call (CallRemoveAll path) (\<lambda>tr. onRemoveAll env tr path))) (\<lambda>r.
         case r of
           Inl err \<Rightarrow> retE (failed @ [path], removeErrors @ [Joined [ErrPathRemoval, err]])
         | Inr _ \<Rightarrow> retE (failed, removeErrors))) ([], []) paths"

text \<open>A link is kept if its target could not be removed.\<close>

definition keepLink :: "hostEnv \<Rightarrow> string list \<Rightarrow> string list \<Rightarrow> string \<Rightarrow> string list host" where
  "keepLink env failed kept link =
     bindE (attemptE (call (CallReadlink link) (\<lambda>tr. onReadlink env tr link))) (\<lambda>r.
     retE (case r of Inl _ \<Rightarrow> kept @ [link] | Inr target \<Rightarrow> if target \<in> set failed then kept else kept @ [link]))"

definition tmp_RunGC :: "hostEnv \<Rightarrow> bool \<Rightarrow> (string \<Rightarrow> unit host) option \<Rightarrow> unit host" where
  "tmp_RunGC env dryRun removeProjectDir =
     bindE (collectPaths env) (\<lambda>(projectDirsToRemove, pathsToRemove).
     bindE (runGCForPaths env dryRun removeProjectDir projectDirsToRemove) (\<lambda>(failed, dirsErrs).
     bindE (foldE (keepLink env failed) [] pathsToRemove) (\<lambda>linksToRemove.
     bindE (runGCForPaths env dryRun None linksToRemove) (\<lambda>(_, linksErrs).
     if dirsErrs @ linksErrs = [] then retE () else failE (Joined (dirsErrs @ linksErrs))))))"

definition tmp_purge :: "hostEnv \<Rightarrow> bool \<Rightarrow> unit host" where
  "tmp_purge env dryRun =
     bindE (call (CallReadDir (werfTmpDir env)) (\<lambda>tr. onReadDir env tr (werfTmpDir env))) (\<lambda>tmpFiles.
     let path = (\<lambda>finfo. PathJoin [werfTmpDir env, fileName finfo]);
         projectDirsToRemove = map path (filter (\<lambda>finfo. HasPrefix (fileName finfo) (projectDirPrefix env)) tmpFiles);
         filesToRemove = map path (filter (\<lambda>finfo. HasPrefix (fileName finfo) (commonPrefix env)) tmpFiles)
     in bindE (runGCForPaths env dryRun None (projectDirsToRemove @ filesToRemove)) (\<lambda>(_, errs).
        if errs = [] then retE () else failE (Joined errs)))"

end
