(* ===== verification/GitData.thy ===== *)
theory GitData
  imports HostCalls "HOL-Library.Product_Lexorder"
begin

text \<open>
  The entries of the git caches, \<^verbatim>\<open>pkg/git_repo/gitdata\<close>: repositories, mirrors, worktrees, archives and patches with their
  access times, and the collectors that find them in the cache directories and remove what is invalid. A collector returns
  the entries found and the errors met; a failure that ends it is an early return of such a pair. Paths are absolute
  if they begin with a slash.
\<close>

section \<open>Entries\<close>

datatype GitDataEntry =
    GitRepoDesc string int uint64 string
  | GitWorktreeDesc string int uint64 string bool string
  | GitArchiveDesc string string int uint64 string
  | GitPatchDesc string string "string list" int uint64 string

primrec GetPaths :: "GitDataEntry \<Rightarrow> string list" where
  "GetPaths (GitRepoDesc path lastAccessAt sz base) = [path]"
| "GetPaths (GitWorktreeDesc path lastAccessAt sz base hasSubmodules orphanedGitDir) = [path]"
| "GetPaths (GitArchiveDesc metadataPath archivePath timestamp sz base) = [metadataPath, archivePath]"
| "GetPaths (GitPatchDesc metadataPath patchPath sidecarPaths timestamp sz base) = [metadataPath, patchPath] @ sidecarPaths"

primrec GetSize :: "GitDataEntry \<Rightarrow> uint64" where
  "GetSize (GitRepoDesc path lastAccessAt sz base) = sz"
| "GetSize (GitWorktreeDesc path lastAccessAt sz base hasSubmodules orphanedGitDir) = sz"
| "GetSize (GitArchiveDesc metadataPath archivePath timestamp sz base) = sz"
| "GetSize (GitPatchDesc metadataPath patchPath sidecarPaths timestamp sz base) = sz"

primrec GetLastAccessAt :: "GitDataEntry \<Rightarrow> int" where
  "GetLastAccessAt (GitRepoDesc path lastAccessAt sz base) = lastAccessAt"
| "GetLastAccessAt (GitWorktreeDesc path lastAccessAt sz base hasSubmodules orphanedGitDir) = lastAccessAt"
| "GetLastAccessAt (GitArchiveDesc metadataPath archivePath timestamp sz base) = timestamp * 10 ^ 9"
| "GetLastAccessAt (GitPatchDesc metadataPath patchPath sidecarPaths timestamp sz base) = timestamp * 10 ^ 9"

primrec GetCacheBasePath :: "GitDataEntry \<Rightarrow> string" where
  "GetCacheBasePath (GitRepoDesc path lastAccessAt sz base) = base"
| "GetCacheBasePath (GitWorktreeDesc path lastAccessAt sz base hasSubmodules orphanedGitDir) = base"
| "GetCacheBasePath (GitArchiveDesc metadataPath archivePath timestamp sz base) = base"
| "GetCacheBasePath (GitPatchDesc metadataPath patchPath sidecarPaths timestamp sz base) = base"

primrec getGitDataEntryRank :: "GitDataEntry \<Rightarrow> int" where
  "getGitDataEntryRank (GitRepoDesc path lastAccessAt sz base) = 3"
| "getGitDataEntryRank (GitWorktreeDesc path lastAccessAt sz base hasSubmodules orphanedGitDir) =
     (if orphanedGitDir \<noteq> [] then - 1 else if hasSubmodules then 2 else 1)"
| "getGitDataEntryRank (GitArchiveDesc metadataPath archivePath timestamp sz base) = 0"
| "getGitDataEntryRank (GitPatchDesc metadataPath patchPath sidecarPaths timestamp sz base) = 0"

definition getFirstGitDataEntryPath :: "GitDataEntry \<Rightarrow> string" where
  "getFirstGitDataEntryPath entry = (case GetPaths entry of [] \<Rightarrow> [] | path # _ \<Rightarrow> path)"

definition shouldPreserveGitDataEntryByLru :: "hostEnv \<Rightarrow> int \<Rightarrow> bool host" where
  "shouldPreserveGitDataEntryByLru env lastAccessAt =
     bindE (call CallNow (\<lambda>tr. Inr (onNow env tr))) (\<lambda>now. retE (timeSince now lastAccessAt < hours 3))"

definition keepOld :: "hostEnv \<Rightarrow> GitDataEntry list \<Rightarrow> GitDataEntry \<Rightarrow> GitDataEntry list host" where
  "keepOld env filteredEntries entry =
     bindE (shouldPreserveGitDataEntryByLru env (GetLastAccessAt entry)) (\<lambda>preserve.
     retE (if preserve then filteredEntries else filteredEntries @ [entry]))"

text \<open>The paths of entries are distinct, so that the order is total.\<close>

definition keepGitDataByLru :: "hostEnv \<Rightarrow> GitDataEntry list \<Rightarrow> GitDataEntry list host" where
  "keepGitDataByLru env entries =
     bindE (foldE (keepOld env) [] entries) (\<lambda>filteredEntries.
     retE (sort_key (\<lambda>entry. (getGitDataEntryRank entry, GetLastAccessAt entry, getFirstGitDataEntryPath entry)) filteredEntries))"

section \<open>Collectors\<close>

type_synonym found = "GitDataEntry list \<times> hostError list"
type_synonym 'a collect = "(hostCall list, found, 'a) eff"

definition removePath :: "hostEnv \<Rightarrow> bool \<Rightarrow> string \<Rightarrow> unit host" where
  "removePath env dryRun path = (if dryRun then retE () else call (CallRemoveAll path) (\<lambda>tr. onRemoveAll env tr path))"

definition readLastAccessAt :: "hostEnv \<Rightarrow> string \<Rightarrow> int host" where
  "readLastAccessAt env path =
     bindE (attemptE (call (CallReadFile path) (\<lambda>tr. onReadFile env tr path))) (\<lambda>r.
     case r of
       Inl err \<Rightarrow> (if IsNotExist err then retE zeroTime else failE err)
     | Inr data \<Rightarrow> retE (case ParseInt64 (TrimSpace data) of None \<Rightarrow> zeroTime | Some sec \<Rightarrow> sec * 10 ^ 9))"

text \<open>A failure that ends a collector without entries.\<close>

definition giveUp :: "'a host \<Rightarrow> 'a collect" where
  "giveUp m = mapErrorE (\<lambda>err. ([], [err])) m"

definition readDir :: "hostEnv \<Rightarrow> string \<Rightarrow> FileInfo list host" where
  "readDir env dir = call (CallReadDir dir) (\<lambda>tr. onReadDir env tr dir)"

definition sizeAndAccess :: "hostEnv \<Rightarrow> string \<Rightarrow> (uint64 \<times> int) host" where
  "sizeAndAccess env path =
     bindE (call (CallDirSize path) (\<lambda>tr. onDirSize env tr path)) (\<lambda>sz.
     bindE (readLastAccessAt env (PathJoin [path, ''last_access_at''])) (\<lambda>lastAccessAt.
     retE (sz, lastAccessAt)))"

text \<open>An entry that is read or, if reading fails, left out with its error noted.\<close>

definition noteError :: "'a host \<Rightarrow> found \<Rightarrow> ('a \<Rightarrow> found collect) \<Rightarrow> found collect" where
  "noteError m acc f = bindE (attemptE m) (\<lambda>r. case r of Inl err \<Rightarrow> retE (fst acc, snd acc @ [err]) | Inr x \<Rightarrow> f x)"

text \<open>The part that the collectors of repositories, mirrors and archives begin with.\<close>

definition inCacheRoot :: "hostEnv \<Rightarrow> bool \<Rightarrow> string \<Rightarrow> (FileInfo list \<Rightarrow> found collect) \<Rightarrow> found host" where
  "inCacheRoot env dryRun cacheVersionRoot f =
     earlyReturn (bindE (attemptE (call (CallStat cacheVersionRoot) (\<lambda>tr. onStat env tr cacheVersionRoot))) (\<lambda>r.
       case r of
         Inl err \<Rightarrow> (if IsNotExist err then retE ([], []) else failE ([], [err]))
       | Inr fileStat \<Rightarrow>
           if fileMode fileStat \<noteq> Directory then bindE (giveUp (removePath env dryRun cacheVersionRoot)) (\<lambda>_. retE ([], []))
           else bindE (giveUp (readDir env cacheVersionRoot)) f))"

definition repoEntry :: "hostEnv \<Rightarrow> bool \<Rightarrow> string \<Rightarrow> found \<Rightarrow> FileInfo \<Rightarrow> found collect" where
  "repoEntry env dryRun cacheVersionRoot acc repoDirInfo =
     (let repoPath = PathJoin [cacheVersionRoot, fileName repoDirInfo]
      in if fileMode repoDirInfo \<noteq> Directory then bindE (giveUp (removePath env dryRun repoPath)) (\<lambda>_. retE acc)
         else noteError (sizeAndAccess env repoPath) acc (\<lambda>(sz, lastAccessAt).
           retE (fst acc @ [GitRepoDesc repoPath lastAccessAt sz cacheVersionRoot], snd acc)))"

definition GetGitReposAndRemoveInvalid :: "hostEnv \<Rightarrow> bool \<Rightarrow> string \<Rightarrow> found host" where
  "GetGitReposAndRemoveInvalid env dryRun cacheVersionRoot =
     inCacheRoot env dryRun cacheVersionRoot (foldE (repoEntry env dryRun cacheVersionRoot) ([], []))"

definition mirrorChild :: "hostEnv \<Rightarrow> bool \<Rightarrow> string \<Rightarrow> bool \<times> bool \<Rightarrow> FileInfo \<Rightarrow> (bool \<times> bool) collect" where
  "mirrorChild env dryRun repoPath flags childInfo =
     (let (shallowFound, markerFound) = flags
      in if fileName childInfo = ''shallow'' \<and> fileMode childInfo = Directory then retE (True, markerFound)
         else if fileName childInfo = ''requires_full'' \<and> fileMode childInfo = RegularFile then retE (shallowFound, True)
         else bindE (giveUp (removePath env dryRun (PathJoin [repoPath, fileName childInfo]))) (\<lambda>_. retE flags))"

definition mirrorEntry :: "hostEnv \<Rightarrow> bool \<Rightarrow> string \<Rightarrow> found \<Rightarrow> FileInfo \<Rightarrow> found collect" where
  "mirrorEntry env dryRun cacheVersionRoot acc repoDirInfo =
     (let repoPath = PathJoin [cacheVersionRoot, fileName repoDirInfo]; shallowPath = PathJoin [repoPath, ''shallow'']
      in if fileMode repoDirInfo \<noteq> Directory then bindE (giveUp (removePath env dryRun repoPath)) (\<lambda>_. retE acc)
         else noteError (readDir env repoPath) acc (\<lambda>repoChildren.
           bindE (foldE (mirrorChild env dryRun repoPath) (False, False) repoChildren) (\<lambda>(shallowFound, markerFound).
           if \<not> shallowFound \<and> \<not> markerFound then bindE (giveUp (removePath env dryRun repoPath)) (\<lambda>_. retE acc)
           else if \<not> shallowFound then retE acc
           else noteError (sizeAndAccess env shallowPath) acc (\<lambda>(sz, lastAccessAt).
             retE (fst acc @ [GitRepoDesc shallowPath lastAccessAt sz cacheVersionRoot], snd acc)))))"

definition GetGitMirrorsAndRemoveInvalid :: "hostEnv \<Rightarrow> bool \<Rightarrow> string \<Rightarrow> found host" where
  "GetGitMirrorsAndRemoveInvalid env dryRun cacheVersionRoot =
     inCacheRoot env dryRun cacheVersionRoot (foldE (mirrorEntry env dryRun cacheVersionRoot) ([], []))"

subsection \<open>Worktrees\<close>

definition recordedWorktreeOrigin :: "hostEnv \<Rightarrow> string \<Rightarrow> string host" where
  "recordedWorktreeOrigin env worktreeDir =
     (let path = PathJoin [worktreeDir, ''git_dir'']
      in bindE (attemptE (call (CallReadFile path) (\<lambda>tr. onReadFile env tr path))) (\<lambda>r.
         let origin = (\<lambda>data. let o' = TrimSuffix data [CHR 0x0A] in if HasPrefix o' ''/'' then o' else [])
         in case r of
              Inl err \<Rightarrow> (if IsNotExist err then retE (origin []) else failE err)
            | Inr data \<Rightarrow> retE (origin data)))"

definition worktreeHasSubmodules :: "hostEnv \<Rightarrow> string \<Rightarrow> bool host" where
  "worktreeHasSubmodules env worktreeCacheDir =
     (let path = PathJoin [worktreeCacheDir, ''worktree'', ''.gitmodules'']
      in bindE (attemptE (call (CallStat path) (\<lambda>tr. onStat env tr path))) (\<lambda>r.
         retE (case r of Inr _ \<Rightarrow> True | Inl err \<Rightarrow> \<not> IsNotExist err)))"

definition worktreeEntry :: "hostEnv \<Rightarrow> bool \<Rightarrow> string list \<Rightarrow> string \<Rightarrow> string \<Rightarrow> found \<Rightarrow> FileInfo \<Rightarrow> found collect" where
  "worktreeEntry env dryRun missingOrigins subdir dir acc worktreeDirInfo =
     (let worktreeDir = PathJoin [dir, fileName worktreeDirInfo]
      in if fileMode worktreeDirInfo \<noteq> Directory then bindE (giveUp (removePath env dryRun worktreeDir)) (\<lambda>_. retE acc)
         else noteError (sizeAndAccess env worktreeDir) acc (\<lambda>(sz, lastAccessAt).
           bindE (giveUp (bindE (shouldPreserveGitDataEntryByLru env lastAccessAt) (\<lambda>preserve.
             if preserve then retE False else worktreeHasSubmodules env worktreeDir))) (\<lambda>hasSubmodules.
           if subdir = ''local''
           then noteError (recordedWorktreeOrigin env worktreeDir) acc (\<lambda>origin.
             retE (fst acc @ [GitWorktreeDesc worktreeDir lastAccessAt sz dir hasSubmodules (if origin \<in> set missingOrigins then origin else [])], snd acc))
           else retE (fst acc @ [GitWorktreeDesc worktreeDir lastAccessAt sz dir hasSubmodules []], snd acc))))"

definition worktreeSubdir :: "hostEnv \<Rightarrow> bool \<Rightarrow> string list \<Rightarrow> string \<Rightarrow> found \<Rightarrow> string \<Rightarrow> found collect" where
  "worktreeSubdir env dryRun missingOrigins cacheVersionRoot acc subdir =
     (let dir = PathJoin [cacheVersionRoot, subdir]
      in bindE (attemptE (call (CallStat dir) (\<lambda>tr. onStat env tr dir))) (\<lambda>r.
         case r of
           Inl err \<Rightarrow> (if IsNotExist err then retE acc else failE ([], [err]))
         | Inr _ \<Rightarrow> noteError (readDir env dir) acc (\<lambda>worktreeDirs.
             foldE (worktreeEntry env dryRun missingOrigins subdir dir) acc worktreeDirs)))"

definition GetGitWorktreesAndRemoveInvalid :: "hostEnv \<Rightarrow> bool \<Rightarrow> string list \<Rightarrow> string \<Rightarrow> found host" where
  "GetGitWorktreesAndRemoveInvalid env dryRun missingOrigins cacheVersionRoot =
     earlyReturn (foldE (worktreeSubdir env dryRun missingOrigins cacheVersionRoot) ([], []) [''local'', ''remote''])"

definition probeOrigin :: "hostEnv \<Rightarrow> string \<Rightarrow> string list \<Rightarrow> FileInfo \<Rightarrow> string list host" where
  "probeOrigin env dir res worktreeDirInfo =
     (let worktreeDir = PathJoin [dir, fileName worktreeDirInfo]
      in if fileMode worktreeDirInfo \<noteq> Directory then retE res
         else bindE (attemptE (readLastAccessAt env (PathJoin [worktreeDir, ''last_access_at'']))) (\<lambda>r.
           case r of
             Inl _ \<Rightarrow> retE res
           | Inr lastAccessAt \<Rightarrow>
               bindE (shouldPreserveGitDataEntryByLru env lastAccessAt) (\<lambda>preserve.
               if preserve then retE res
               else bindE (attemptE (recordedWorktreeOrigin env worktreeDir)) (\<lambda>r.
                 case r of
                   Inl _ \<Rightarrow> retE res
                 | Inr origin \<Rightarrow>
                     if origin = [] then retE res
                     else bindE (attemptE (call (CallStat origin) (\<lambda>tr. onStat env tr origin))) (\<lambda>r.
                       retE (case r of Inl err \<Rightarrow> (if IsNotExist err then res @ [origin] else res) | Inr _ \<Rightarrow> res))))))"

definition ProbeMissingLocalWorktreeOrigins :: "hostEnv \<Rightarrow> string \<Rightarrow> string list host" where
  "ProbeMissingLocalWorktreeOrigins env cacheVersionRoot =
     (let dir = PathJoin [cacheVersionRoot, ''local'']
      in bindE (attemptE (readDir env dir)) (\<lambda>r.
         case r of Inl _ \<Rightarrow> retE [] | Inr worktreeDirs \<Rightarrow> foldE (probeOrigin env dir) [] worktreeDirs))"

subsection \<open>Archives and patches\<close>

text \<open>
  Both caches have directories of repositories with directories of hash prefixes in them. The state of the work on one such
  directory: the entries and errors so far and the names to keep.
\<close>

type_synonym groupState = "found \<times> string list"

definition walkGroups :: "hostEnv \<Rightarrow> bool \<Rightarrow> (string \<Rightarrow> found \<Rightarrow> FileInfo list \<Rightarrow> found collect) \<Rightarrow> string \<Rightarrow> FileInfo list \<Rightarrow> found collect" where
  "walkGroups env dryRun treatGroup cacheVersionRoot repoDirs =
     foldE (\<lambda>acc repoInfo.
       let repoDir = PathJoin [cacheVersionRoot, fileName repoInfo]
       in if fileMode repoInfo \<noteq> Directory then bindE (giveUp (removePath env dryRun repoDir)) (\<lambda>_. retE acc)
          else noteError (readDir env repoDir) acc (\<lambda>groups.
            foldE (\<lambda>acc groupInfo.
              let groupDir = PathJoin [repoDir, fileName groupInfo]
              in if fileMode groupInfo \<noteq> Directory then bindE (giveUp (removePath env dryRun groupDir)) (\<lambda>_. retE acc)
                 else noteError (readDir env groupDir) acc (treatGroup groupDir acc)) acc groups)) ([], []) repoDirs"

definition removeIrregular :: "hostEnv \<Rightarrow> bool \<Rightarrow> string \<Rightarrow> FileInfo list \<Rightarrow> FileInfo list collect" where
  "removeIrregular env dryRun groupDir files =
     foldE (\<lambda>regularFiles fileInfo.
       if fileMode fileInfo \<noteq> RegularFile
       then bindE (giveUp (removePath env dryRun (PathJoin [groupDir, fileName fileInfo]))) (\<lambda>_. retE regularFiles)
       else retE (regularFiles @ [fileInfo])) [] files"

definition fileOf :: "FileInfo list \<Rightarrow> string \<Rightarrow> FileInfo option" where
  "fileOf regularFiles name = find (\<lambda>f. fileName f = name) regularFiles"

definition removeUnowned :: "hostEnv \<Rightarrow> bool \<Rightarrow> string \<Rightarrow> FileInfo list \<Rightarrow> groupState \<Rightarrow> found collect" where
  "removeUnowned env dryRun groupDir regularFiles st =
     (let (acc, keptNames) = st
      in foldE (\<lambda>acc fileInfo.
           if fileName fileInfo \<in> set keptNames then retE acc
           else bindE (mapErrorE (\<lambda>err. (fst acc, [err])) (removePath env dryRun (PathJoin [groupDir, fileName fileInfo]))) (\<lambda>_. retE acc))
         acc regularFiles)"

definition archiveMetadataSuffix :: string where
  "archiveMetadataSuffix = ''.meta.json''"

definition archivePayloadSuffix :: string where
  "archivePayloadSuffix = ''.tar''"

definition archiveEntry :: "hostEnv \<Rightarrow> string \<Rightarrow> string \<Rightarrow> FileInfo list \<Rightarrow> groupState \<Rightarrow> FileInfo \<Rightarrow> groupState collect" where
  "archiveEntry env cacheVersionRoot groupDir regularFiles st fileInfo =
     (let (acc, keptNames) = st; name = fileName fileInfo;
          metadataPath = PathJoin [groupDir, name];
          payloadName = TrimSuffix name archiveMetadataSuffix @ archivePayloadSuffix
      in if \<not> HasSuffix name archiveMetadataSuffix then retE st
         else bindE (attemptE (call (CallReadFile metadataPath) (\<lambda>tr. onReadFile env tr metadataPath))) (\<lambda>r.
           case r of
             Inl err \<Rightarrow> retE ((fst acc, snd acc @ [err]), keptNames @ [name, payloadName])
           | Inr data \<Rightarrow>
               (case unmarshalTimestamp env data of
                  Inl _ \<Rightarrow> retE st
                | Inr None \<Rightarrow> retE st
                | Inr (Some timestamp) \<Rightarrow>
                    (case fileOf regularFiles payloadName of
                       None \<Rightarrow> retE st
                     | Some payloadInfo \<Rightarrow>
                         retE ((fst acc @ [GitArchiveDesc metadataPath (PathJoin [groupDir, payloadName]) timestamp
                                  (of_int (FileSize payloadInfo)) cacheVersionRoot], snd acc), keptNames @ [name, payloadName])))))"

definition archiveGroup :: "hostEnv \<Rightarrow> bool \<Rightarrow> string \<Rightarrow> string \<Rightarrow> found \<Rightarrow> FileInfo list \<Rightarrow> found collect" where
  "archiveGroup env dryRun cacheVersionRoot groupDir acc files =
     bindE (removeIrregular env dryRun groupDir files) (\<lambda>regularFiles.
     bindE (foldE (archiveEntry env cacheVersionRoot groupDir regularFiles) (acc, []) regularFiles) (\<lambda>st.
     removeUnowned env dryRun groupDir regularFiles st))"

definition GetGitArchivesAndRemoveInvalid :: "hostEnv \<Rightarrow> bool \<Rightarrow> string \<Rightarrow> found host" where
  "GetGitArchivesAndRemoveInvalid env dryRun cacheVersionRoot =
     inCacheRoot env dryRun cacheVersionRoot (walkGroups env dryRun (archiveGroup env dryRun cacheVersionRoot) cacheVersionRoot)"

definition patchMetadataSuffix :: string where
  "patchMetadataSuffix = ''.meta.json''"

definition patchPayloadSuffix :: string where
  "patchPayloadSuffix = ''.patch''"

definition patchSidecarParentName :: "string \<Rightarrow> string option" where
  "patchSidecarParentName name =
     (if \<not> HasSuffix name ''.paths_list'' \<and> \<not> HasSuffix name ''.archive'' then None
      else map_option (\<lambda>(before, _). before @ patchPayloadSuffix) (Cut name (patchPayloadSuffix @ ''.'')))"

definition sidecarsOf :: "FileInfo list \<Rightarrow> string \<Rightarrow> FileInfo list" where
  "sidecarsOf regularFiles payloadName = filter (\<lambda>f. patchSidecarParentName (fileName f) = Some payloadName) regularFiles"

definition patchEntry :: "hostEnv \<Rightarrow> string \<Rightarrow> string \<Rightarrow> FileInfo list \<Rightarrow> groupState \<Rightarrow> FileInfo \<Rightarrow> groupState collect" where
  "patchEntry env cacheVersionRoot groupDir regularFiles st fileInfo =
     (let (acc, keptNames) = st; name = fileName fileInfo;
          metadataPath = PathJoin [groupDir, name];
          payloadName = TrimSuffix name patchMetadataSuffix @ patchPayloadSuffix;
          sidecars = sidecarsOf regularFiles payloadName;
          owned = keptNames @ [name, payloadName] @ map fileName sidecars
      in if \<not> HasSuffix name patchMetadataSuffix then retE st
         else bindE (attemptE (call (CallReadFile metadataPath) (\<lambda>tr. onReadFile env tr metadataPath))) (\<lambda>r.
           case r of
             Inl err \<Rightarrow> retE ((fst acc, snd acc @ [err]), owned)
           | Inr data \<Rightarrow>
               (case unmarshalTimestamp env data of
                  Inl _ \<Rightarrow> retE st
                | Inr None \<Rightarrow> retE st
                | Inr (Some timestamp) \<Rightarrow>
                    (case fileOf regularFiles payloadName of
                       None \<Rightarrow> retE st
                     | Some payloadInfo \<Rightarrow>
                         retE ((fst acc @ [GitPatchDesc metadataPath (PathJoin [groupDir, payloadName])
                                  (map (\<lambda>f. PathJoin [groupDir, fileName f]) sidecars) timestamp
                                  (foldl (\<lambda>n f. n + of_int (FileSize f)) (of_int (FileSize payloadInfo)) sidecars) cacheVersionRoot], snd acc), owned)))))"

definition patchGroup :: "hostEnv \<Rightarrow> bool \<Rightarrow> string \<Rightarrow> string \<Rightarrow> found \<Rightarrow> FileInfo list \<Rightarrow> found collect" where
  "patchGroup env dryRun cacheVersionRoot groupDir acc files =
     bindE (removeIrregular env dryRun groupDir files) (\<lambda>regularFiles.
     bindE (foldE (patchEntry env cacheVersionRoot groupDir regularFiles) (acc, []) regularFiles) (\<lambda>st.
     removeUnowned env dryRun groupDir regularFiles st))"

definition GetGitPatchesAndRemoveInvalid :: "hostEnv \<Rightarrow> bool \<Rightarrow> string \<Rightarrow> found host" where
  "GetGitPatchesAndRemoveInvalid env dryRun cacheVersionRoot =
     earlyReturn (bindE (attemptE (call (CallStat cacheVersionRoot) (\<lambda>tr. onStat env tr cacheVersionRoot))) (\<lambda>r.
       case r of
         Inl err \<Rightarrow> (if IsNotExist err then retE ([], []) else failE ([], [err]))
       | Inr _ \<Rightarrow>
           bindE (giveUp (readDir env cacheVersionRoot))
             (walkGroups env dryRun (patchGroup env dryRun cacheVersionRoot) cacheVersionRoot)))"

end
