(* ===== verification/GitDataGC.thy ===== *)
theory GitDataGC
  imports GitData
begin

text \<open>
  The garbage collection of the git caches, \<^verbatim>\<open>pkg/git_repo/gitdata/gc.go\<close>: stale cache versions are wiped, and if the
  volume is used more than allowed, the entries of the caches are removed by rank and last access until enough is freed.
\<close>

section \<open>Stale cache versions\<close>

definition cacheVersionStalenessWindow :: int where
  "cacheVersionStalenessWindow = hours 72"

text \<open>
  \<^verbatim>\<open>filepath.WalkDir\<close> as one call that answers with the regular files it meets, those that vanish meanwhile left out; the
  clock is read once for a file, until one of them is fresh.
\<close>

fun anyFresh :: "hostEnv \<Rightarrow> FileInfo list \<Rightarrow> bool host" where
  "anyFresh env [] = retE False"
| "anyFresh env (info # infos) =
     bindE (call CallNow (\<lambda>tr. Inr (onNow env tr))) (\<lambda>now.
     if timeSince now (ModTime info) \<le> cacheVersionStalenessWindow then retE True else anyFresh env infos)"

definition hasFreshFiles :: "hostEnv \<Rightarrow> string \<Rightarrow> bool host" where
  "hasFreshFiles env path =
     bindE (call (CallWalk path) (\<lambda>tr. onWalk env tr path)) (\<lambda>infos.
     anyFresh env (filter (\<lambda>info. fileMode info = RegularFile) infos))"

definition wipeVersion :: "hostEnv \<Rightarrow> bool \<Rightarrow> string \<Rightarrow> string list \<Rightarrow> unit \<Rightarrow> FileInfo \<Rightarrow> unit host" where
  "wipeVersion env dryRun cacheRootDir keepCacheVersions u finfo =
     (let versionedCacheDir = PathJoin [cacheRootDir, fileName finfo]
      in if fileName finfo \<in> set keepCacheVersions then retE ()
         else bindE (attemptE (hasFreshFiles env versionedCacheDir)) (\<lambda>r.
           case r of
             Inl _ \<Rightarrow> retE ()
           | Inr fresh \<Rightarrow> if fresh then retE () else removePath env dryRun versionedCacheDir))"

definition wipeCacheDirs :: "hostEnv \<Rightarrow> bool \<Rightarrow> string \<Rightarrow> string list \<Rightarrow> unit host" where
  "wipeCacheDirs env dryRun cacheRootDir keepCacheVersions =
     bindE (attemptE (call (CallStat cacheRootDir) (\<lambda>tr. onStat env tr cacheRootDir))) (\<lambda>r.
     case r of
       Inl err \<Rightarrow> (if IsNotExist err then retE () else failE err)
     | Inr _ \<Rightarrow>
         bindE (readDir env cacheRootDir) (\<lambda>dirs.
         foldE (wipeVersion env dryRun cacheRootDir keepCacheVersions) () dirs))"

section \<open>Removal of entries\<close>

definition filepathDir :: "string \<Rightarrow> string" where
  "filepathDir path = Clean (rev (dropWhile (\<lambda>c. c \<noteq> CHR ''/'') (rev path)))"

text \<open>The loop goes up to the parents; it stops at a directory that is its own parent.\<close>

function removeEmptyParents :: "hostEnv \<Rightarrow> string \<Rightarrow> string \<Rightarrow> unit host" where
  "removeEmptyParents env scopeDir dir =
     (if \<not> isSubpath env scopeDir dir then retE ()
      else bindE (readDir env dir) (\<lambda>files.
        if length files > 0 then retE ()
        else bindE (call (CallRemove dir) (\<lambda>tr. onRemove env tr dir)) (\<lambda>_.
          if length (filepathDir dir) < length dir then removeEmptyParents env scopeDir (filepathDir dir) else retE ())))"
  by pat_completeness auto
termination
  by (relation "measure (\<lambda>(_, _, dir). length dir)") auto

declare removeEmptyParents.simps [simp del]

definition RemovePathWithEmptyParentDirsInsideScope :: "hostEnv \<Rightarrow> string \<Rightarrow> string \<Rightarrow> unit host" where
  "RemovePathWithEmptyParentDirsInsideScope env scopeDir path =
     (if \<not> isSubpath env scopeDir path then retE ()
      else bindE (call (CallRemoveAll path) (\<lambda>tr. onRemoveAll env tr path)) (\<lambda>_.
        removeEmptyParents env scopeDir (filepathDir path)))"

record removeGitDataEntriesOptions =
  BytesToFree :: uint64
  TargetVolumeUsageBytes :: uint64
  RemoveDryRun :: bool

text \<open>A worktree whose origin was missing is left if the origin is back.\<close>

definition originIsBack :: "hostEnv \<Rightarrow> GitDataEntry \<Rightarrow> bool host" where
  "originIsBack env entry =
     (case entry of
        GitWorktreeDesc path lastAccessAt sz base hasSubmodules orphanedGitDir \<Rightarrow>
          if orphanedGitDir = [] then retE False
          else bindE (attemptE (call (CallStat orphanedGitDir) (\<lambda>tr. onStat env tr orphanedGitDir))) (\<lambda>r.
            case r of Inr _ \<Rightarrow> retE True | Inl err \<Rightarrow> (if IsNotExist err then retE False else failE err))
      | _ \<Rightarrow> retE False)"

definition removeEntry :: "hostEnv \<Rightarrow> removeGitDataEntriesOptions \<Rightarrow> GitDataEntry \<Rightarrow> unit host" where
  "removeEntry env options entry =
     foldE (\<lambda>_ path. if RemoveDryRun options then retE () else RemovePathWithEmptyParentDirsInsideScope env (GetCacheBasePath entry) path)
       () (GetPaths entry)"

fun removeLoop :: "hostEnv \<Rightarrow> removeGitDataEntriesOptions \<Rightarrow> uint64 \<Rightarrow> GitDataEntry list \<Rightarrow> uint64 host" where
  "removeLoop env options estimatedFreedBytes [] = retE estimatedFreedBytes"
| "removeLoop env options estimatedFreedBytes (entry # entries) =
     bindE (originIsBack env entry) (\<lambda>back.
     if back then removeLoop env options estimatedFreedBytes entries
     else bindE (removeEntry env options entry) (\<lambda>_.
       let estimatedFreedBytes = estimatedFreedBytes + GetSize entry
       in if estimatedFreedBytes \<ge> BytesToFree options then retE estimatedFreedBytes
          else if RemoveDryRun options then removeLoop env options estimatedFreedBytes entries
          else bindE (attemptE (call (CallVolumeUsage (localCacheDir env)) (\<lambda>tr. onVolumeUsage env tr (localCacheDir env)))) (\<lambda>r.
            case r of
              Inl _ \<Rightarrow> removeLoop env options estimatedFreedBytes entries
            | Inr vu \<Rightarrow>
                if UsedBytes vu \<le> TargetVolumeUsageBytes options then retE estimatedFreedBytes
                else removeLoop env options estimatedFreedBytes entries)))"

definition removeGitDataEntries :: "hostEnv \<Rightarrow> removeGitDataEntriesOptions \<Rightarrow> GitDataEntry list \<Rightarrow> uint64 host" where
  "removeGitDataEntries env options entries =
     (if BytesToFree options = 0 then retE 0 else removeLoop env options 0 entries)"

section \<open>The run\<close>

record gitRunGCOptions =
  AllowedLocalCacheVolumeUsageBytes :: uint64
  AllowedLocalCacheVolumeUsageMarginBytes :: uint64
  gitDryRun :: bool

definition git_ShouldRunAutoGC :: "hostEnv \<Rightarrow> uint64 \<Rightarrow> bool host" where
  "git_ShouldRunAutoGC env allowedVolumeUsageBytes =
     bindE (call (CallVolumeUsage (localCacheDir env)) (\<lambda>tr. onVolumeUsage env tr (localCacheDir env))) (\<lambda>vu.
     retE (UsedBytes vu > allowedVolumeUsageBytes))"

definition cacheVersions :: "(string \<times> string) list" where
  "cacheVersions = [(''git_repos'', ''5''), (''git_mirrors'', ''1''), (''git_worktrees'', ''9''), (''git_archives'', ''7''), (''git_patches'', ''6'')]"

definition wipeAll :: "hostEnv \<Rightarrow> bool \<Rightarrow> hostError list host" where
  "wipeAll env dryRun =
     foldE (\<lambda>errs (cache, version). bindE (attemptE (wipeCacheDirs env dryRun (PathJoin [localCacheDir env, cache]) [version])) (\<lambda>r.
       retE (case r of Inl err \<Rightarrow> errs @ [err] | Inr _ \<Rightarrow> errs))) [] cacheVersions"

definition versionRoot :: "hostEnv \<Rightarrow> string \<Rightarrow> string \<Rightarrow> string" where
  "versionRoot env cache version = PathJoin [localCacheDir env, cache, version]"

definition collectAll :: "hostEnv \<Rightarrow> bool \<Rightarrow> string list \<Rightarrow> found host" where
  "collectAll env dryRun missingOrigins =
     bindE (GetGitReposAndRemoveInvalid env dryRun (versionRoot env ''git_repos'' ''5'')) (\<lambda>(repos, errs1).
     bindE (GetGitMirrorsAndRemoveInvalid env dryRun (versionRoot env ''git_mirrors'' ''1'')) (\<lambda>(mirrors, errs2).
     bindE (GetGitWorktreesAndRemoveInvalid env dryRun missingOrigins (versionRoot env ''git_worktrees'' ''9'')) (\<lambda>(worktrees, errs3).
     bindE (GetGitArchivesAndRemoveInvalid env dryRun (versionRoot env ''git_archives'' ''7'')) (\<lambda>(archives, errs4).
     bindE (GetGitPatchesAndRemoveInvalid env dryRun (versionRoot env ''git_patches'' ''6'')) (\<lambda>(patches, errs5).
     retE (repos @ mirrors @ worktrees @ archives @ patches, errs1 @ errs2 @ errs3 @ errs4 @ errs5))))))"

definition failWith :: "hostError list \<Rightarrow> unit host" where
  "failWith errs = (case errorsJoin errs of None \<Rightarrow> retE () | Some err \<Rightarrow> failE err)"

definition git_cleanup :: "hostEnv \<Rightarrow> gitRunGCOptions \<Rightarrow> string list \<Rightarrow> unit host" where
  "git_cleanup env options missingOrigins =
     bindE (wipeAll env (gitDryRun options)) (\<lambda>errs.
     bindE (attemptE (call (CallVolumeUsage (localCacheDir env)) (\<lambda>tr. onVolumeUsage env tr (localCacheDir env)))) (\<lambda>r.
     case r of
       Inl err \<Rightarrow> failWith (errs @ [err])
     | Inr vu \<Rightarrow>
         if UsedBytes vu \<le> AllowedLocalCacheVolumeUsageBytes options then failWith errs
         else
           let target = floatDifference env (AllowedLocalCacheVolumeUsageBytes options) (AllowedLocalCacheVolumeUsageMarginBytes options);
               bytesToFree = monus (UsedBytes vu) target in
           bindE (collectAll env (gitDryRun options) missingOrigins) (\<lambda>(entries, collectErrs).
           bindE (keepGitDataByLru env entries) (\<lambda>entries.
           bindE (attemptE (removeGitDataEntries env
               \<lparr>BytesToFree = bytesToFree, TargetVolumeUsageBytes = target, RemoveDryRun = gitDryRun options\<rparr> entries)) (\<lambda>r.
           bindE (if gitDryRun options then retE ()
                  else bindE (attemptE (call (CallVolumeUsage (localCacheDir env)) (\<lambda>tr. onVolumeUsage env tr (localCacheDir env)))) (\<lambda>_. retE ())) (\<lambda>_.
           failWith (errs @ collectErrs @ (case r of Inl err \<Rightarrow> [err] | Inr _ \<Rightarrow> []))))))))"

definition git_RunGC :: "hostEnv \<Rightarrow> gitRunGCOptions \<Rightarrow> unit host" where
  "git_RunGC env options =
     bindE (ProbeMissingLocalWorktreeOrigins env (versionRoot env ''git_worktrees'' ''9'')) (\<lambda>missingOrigins.
     bindE (call (CallLockGC False) (\<lambda>tr. onLockGC env tr False)) (\<lambda>_.
     bindE (attemptE (git_cleanup env options missingOrigins)) (\<lambda>r.
     bindE (attemptE (call (CallRelease ''git_data_manager'') (\<lambda>tr. onRelease env tr ''git_data_manager''))) (\<lambda>_.
     case r of Inl err \<Rightarrow> failE err | Inr _ \<Rightarrow> retE ()))))"

end
