(* ===== verification/HostPurge.thy ===== *)
theory HostPurge
  imports LocalGC TmpGC
begin

text \<open>
  The purge of the host, \<^verbatim>\<open>pkg/host_cleaning/host_purge.go\<close> and \<^verbatim>\<open>local_purger.go\<close>, with the removal of containers and images of
  \<^verbatim>\<open>containers.go\<close> and \<^verbatim>\<open>images.go\<close>. The comparison of two image summaries with \<^verbatim>\<open>reflect.DeepEqual\<close> is equality of the
  records.
\<close>

datatype containerBackendType = containerBackendDocker | containerBackendBuildah | containerBackendTest

record CommonOptions =
  RmForce :: bool
  RmiForce :: bool
  SkipUsedImages :: bool
  RmContainersThatUseWerfImages :: bool
  CommonDryRun :: bool

section \<open>Containers and images\<close>

definition containersRemove :: "hostEnv \<Rightarrow> Container list \<Rightarrow> CommonOptions \<Rightarrow> unit host" where
  "containersRemove env containers options =
     foldE (\<lambda>_ container.
       if CommonDryRun options then retE ()
       else call (CallRm (ContainerID container) (RmForce options)) (\<lambda>tr. onRm env tr (ContainerID container) (RmForce options))) () containers"

definition exceptImage :: "Summary list \<Rightarrow> Summary \<Rightarrow> Summary list" where
  "exceptImage images imageToExclude = filter (\<lambda>img. imageToExclude \<noteq> img) images"

definition usedImage :: "CommonOptions \<Rightarrow> Container \<Rightarrow> (Summary list \<times> Container list) \<Rightarrow> Summary \<Rightarrow> (Summary list \<times> Container list) host" where
  "usedImage options container acc img =
     (let (imagesToExclude, containersToRemove) = acc
      in if ImageID img = ContainerImageID container
         then (if SkipUsedImages options then retE (imagesToExclude @ [img], containersToRemove)
               else if RmContainersThatUseWerfImages options then retE (imagesToExclude, containersToRemove @ [container])
               else failE (OtherError ''cannot remove image used by container''))
         else retE acc)"

definition freshImages :: "hostEnv \<Rightarrow> Summary list \<Rightarrow> Summary list \<Rightarrow> Summary list host" where
  "freshImages env imagesToExclude images =
     foldE (\<lambda>imagesToExclude img. bindE (call CallNow (\<lambda>tr. Inr (onNow env tr))) (\<lambda>now.
       retE (if timeSince now (Created img) < hours 3 then imagesToExclude @ [img] else imagesToExclude))) imagesToExclude images"

definition processUsedImages :: "hostEnv \<Rightarrow> Summary list \<Rightarrow> CommonOptions \<Rightarrow> Summary list host" where
  "processUsedImages env images options =
     (let filters = map (\<lambda>img. ByAncestor (ImageID img)) images
      in bindE (call (CallContainers filters) (\<lambda>tr. onContainers env tr filters)) (\<lambda>containers.
         bindE (foldE (\<lambda>acc container. foldE (usedImage options container) acc images) ([], []) containers) (\<lambda>(imagesToExclude, containersToRemove).
         bindE (containersRemove env containersToRemove options) (\<lambda>_.
         bindE (freshImages env imagesToExclude images) (\<lambda>imagesToExclude.
         retE (foldl exceptImage images imagesToExclude))))))"

definition imageReferencesRemove :: "hostEnv \<Rightarrow> string list \<Rightarrow> CommonOptions \<Rightarrow> unit host" where
  "imageReferencesRemove env references options =
     foldE (\<lambda>_ ref.
       if CommonDryRun options then retE ()
       else call (CallRmi ref (RmiForce options)) (\<lambda>tr. onRmi env tr ref (RmiForce options))) () references"

definition imageReferences :: "Summary \<Rightarrow> string list" where
  "imageReferences img =
     (if length (RepoTags img) = 0 then [ImageID img]
      else map (\<lambda>repoTag.
        let isDanglingImage = (repoTag = ''<none>:<none>'');
            isTaglessImage = (\<not> isDanglingImage \<and> HasSuffix repoTag ''<none>'')
        in if isDanglingImage \<or> isTaglessImage then ImageID img else repoTag) (RepoTags img))"

definition imagesRemove :: "hostEnv \<Rightarrow> Summary list \<Rightarrow> CommonOptions \<Rightarrow> unit host" where
  "imagesRemove env images options = imageReferencesRemove env (concat (map imageReferences images)) options"

definition werfImagesFlushByFilterSet :: "hostEnv \<Rightarrow> filterPair list \<Rightarrow> CommonOptions \<Rightarrow> unit host" where
  "werfImagesFlushByFilterSet env filters options =
     bindE (imagesBy env filters) (\<lambda>images.
     bindE (processUsedImages env images options) (\<lambda>images.
     imagesRemove env images options))"

section \<open>The purge\<close>

definition AssemblingContainerNamePrefix :: string where
  "AssemblingContainerNamePrefix = ''werf.stapel.''"

definition FlushContainers :: "hostEnv \<Rightarrow> containerBackendType \<Rightarrow> CommonOptions \<Rightarrow> unit host" where
  "FlushContainers env backendType options =
     (let filters = (if backendType \<noteq> containerBackendDocker \<or> CommonDryRun options then [ByName AssemblingContainerNamePrefix] else [])
      in bindE (werfContainersByContainersOptions env filters) (\<lambda>containers.
         containersRemove env containers options))"

definition FlushImages :: "hostEnv \<Rightarrow> CommonOptions \<Rightarrow> unit host" where
  "FlushImages env options =
     bindE (werfImagesFlushByFilterSet env [(''label'', WerfLabel)] options) (\<lambda>_.
     bindE (werfImagesFlushByFilterSet env [(''reference'', ''werf-managed-images/*'')] options) (\<lambda>_.
     werfImagesFlushByFilterSet env [(''reference'', ''werf-images-metadata-by-commit/*'')] options))"

definition PurgeWerfHomeFiles :: "hostEnv \<Rightarrow> CommonOptions \<Rightarrow> unit host" where
  "PurgeWerfHomeFiles env options =
     (let pathsToRemove = [serviceDir env, localCacheDir env, sharedContextDir env]
      in if CommonDryRun options then retE ()
         else if isWindows env then foldE (\<lambda>_ path. call (CallRemoveAll path) (\<lambda>tr. onRemoveAll env tr path)) () pathsToRemove
         else call (CallRemoveHostDirs (homeDir env) pathsToRemove) (\<lambda>tr. onRemoveHostDirs env tr (homeDir env) pathsToRemove))"

definition PurgeStapelFiles :: "hostEnv \<Rightarrow> containerBackendType \<Rightarrow> CommonOptions \<Rightarrow> unit host" where
  "PurgeStapelFiles env backendType options =
     (if CommonDryRun options then retE ()
      else if backendType \<noteq> containerBackendDocker then retE ()
      else call CallStapelPurge (onStapelPurge env))"

definition HostPurge :: "hostEnv \<Rightarrow> containerBackendType \<Rightarrow> bool \<Rightarrow> bool \<Rightarrow> unit host" where
  "HostPurge env backendType dryRun rmContainersThatUseWerfImages =
     (let commonOptions = \<lparr>RmForce = True, RmiForce = True, SkipUsedImages = False,
            RmContainersThatUseWerfImages = rmContainersThatUseWerfImages, CommonDryRun = dryRun\<rparr>
      in bindE (FlushContainers env backendType commonOptions) (\<lambda>_.
         bindE (FlushImages env commonOptions) (\<lambda>_.
         bindE (tmp_purge env (CommonDryRun commonOptions)) (\<lambda>_.
         bindE (PurgeWerfHomeFiles env commonOptions) (\<lambda>_.
         PurgeStapelFiles env backendType commonOptions)))))"

end
