(* ===== verification/HostCleanup.thy ===== *)
theory HostCleanup
  imports LocalGC TmpGC GitDataGC HostPurge
begin

text \<open>
  The cleanup of the host, \<^verbatim>\<open>pkg/host_cleaning/host_cleanup.go\<close>: the limits of \<^verbatim>\<open>units/units.go\<close>, the run over temporary files,
  locks, git caches and the container backend, and the decision to start it in the background. The text form of byte sizes
  is a parameter (\<open>humanizer\<close>). The path of the backend storage, a flag that is always set, is a string. The backend is
  its type; a backend of the test type is the unsupported one.
\<close>

section \<open>Limits\<close>

record UnitValue =
  Value :: uint64
  isAbsolute :: bool
  isSI :: bool

record humanizer =
  ParseBytes :: "string \<Rightarrow> string + uint64"
  humanBytes :: "uint64 \<Rightarrow> string"
  humanIBytes :: "uint64 \<Rightarrow> string"

definition ParseUint64 :: "string \<Rightarrow> uint64 option" where
  "ParseUint64 s = (case parseDigits s of None \<Rightarrow> None | Some n \<Rightarrow> if int n < 2 ^ 64 then Some (of_nat n) else None)"

text \<open>The runes whose lower case is the letter i.\<close>

definition lowersToI :: "string \<Rightarrow> bool" where
  "lowersToI part = (let r = fst (decodeRune part) in r = 0x69 \<or> r = 0x49 \<or> r = 0x130)"

definition ParseUnitValue :: "humanizer \<Rightarrow> string \<Rightarrow> string + UnitValue" where
  "ParseUnitValue hum input =
     (let input = TrimSpace input
      in if input = [] then Inl ''empty storage value''
         else case ParseUint64 input of
           Some val \<Rightarrow>
             if val > 100 then Inl ''percentage value cannot exceed 100''
             else Inr \<lparr>Value = val, isAbsolute = False, isSI = False\<rparr>
         | None \<Rightarrow>
             (case ParseBytes hum input of
                Inr val \<Rightarrow> Inr \<lparr>Value = val, isAbsolute = True, isSI = \<not> list_ex lowersToI (runeParts input)\<rparr>
              | Inl err \<Rightarrow> Inl (''invalid storage value: '' @ err)))"

definition ToBytes :: "UnitValue \<Rightarrow> uint64 \<Rightarrow> uint64" where
  "ToBytes s totalBytes = (if isAbsolute s then Value s else (totalBytes * Value s) div 100)"

definition UnitValue_String :: "humanizer \<Rightarrow> UnitValue \<Rightarrow> string" where
  "UnitValue_String hum s =
     (if isAbsolute s then (if isSI s then humanBytes hum (Value s) else humanIBytes hum (Value s)) else fmtNat (unat (Value s)))"

definition getRequirementInBytes :: "UnitValue option \<Rightarrow> uint64 \<Rightarrow> uint64 \<Rightarrow> uint64" where
  "getRequirementInBytes val defaultPercent totalBytes =
     (case val of Some v \<Rightarrow> ToBytes v totalBytes | None \<Rightarrow> (totalBytes * defaultPercent) div 100)"

section \<open>The cleanup\<close>

record HostCleanupOptions =
  BackendStoragePath :: string
  AllowedBackendStorageVolumeUsage :: "UnitValue option"
  AllowedBackendStorageVolumeUsageMargin :: "UnitValue option"
  AllowedLocalCacheVolumeUsage :: "UnitValue option"
  AllowedLocalCacheVolumeUsageMargin :: "UnitValue option"
  HostDryRun :: bool
  HostForce :: bool

definition resolveContainerBackendType :: "containerBackendType \<Rightarrow> hostError option" where
  "resolveContainerBackendType backendType =
     (case backendType of
        containerBackendDocker \<Rightarrow> None
      | containerBackendBuildah \<Rightarrow> None
      | containerBackendTest \<Rightarrow> Some ErrUnsupportedContainerBackend)"

definition storageLimitExceeded :: "RunGCReport \<Rightarrow> bool" where
  "storageLimitExceeded notice \<longleftrightarrow> gcUsedBytes notice > AllowedBytes notice"

definition isWorthNotifying :: "RunGCReport \<Rightarrow> bool" where
  "isWorthNotifying notice \<longleftrightarrow> ImagesDeleted notice > 0 \<or> gcSpaceReclaimed notice > 0 \<or> storageLimitExceeded notice"

definition writeAutoCleanupNotice :: "hostEnv \<Rightarrow> RunGCReport \<Rightarrow> unit host" where
  "writeAutoCleanupNotice env rep = (if \<not> isWorthNotifying rep then retE () else call CallWriteNotice (onWriteNotice env))"

definition cleanupTmp :: "hostEnv \<Rightarrow> HostCleanupOptions \<Rightarrow> unit host" where
  "cleanupTmp env options =
     bindE (attemptE (tmp_RunGC env (HostDryRun options)
       (Some (\<lambda>path. call (CallRemoveProjectDir path) (\<lambda>tr. onRemoveProjectDir env tr path))))) (\<lambda>r.
     case r of Inl err \<Rightarrow> (if errorsIs err ErrPathRemoval then retE () else failE err) | Inr _ \<Rightarrow> retE ())"

definition cleanupLocks :: "hostEnv \<Rightarrow> HostCleanupOptions \<Rightarrow> unit host" where
  "cleanupLocks env options =
     (if HostDryRun options then retE ()
      else bindE (attemptE (call CallGCHostLockerDir (onGCHostLockerDir env))) (\<lambda>_. retE ()))"

definition cleanupBackend :: "hostEnv \<Rightarrow> HostCleanupOptions \<Rightarrow> RunGCReport host" where
  "cleanupBackend env options =
     bindE (backendStoragePath env (BackendStoragePath options)) (\<lambda>path.
     bindE (volumeUsage env path) (\<lambda>vuBackend.
     RunGC env
       \<lparr>AllowedStorageVolumeUsageBytes = getRequirementInBytes (AllowedBackendStorageVolumeUsage options) 70 (TotalBytes vuBackend),
        AllowedStorageVolumeUsageMarginBytes = getRequirementInBytes (AllowedBackendStorageVolumeUsageMargin options) 5 (TotalBytes vuBackend),
        StoragePath = BackendStoragePath options, Force = HostForce options, DryRun = HostDryRun options\<rparr>))"

text \<open>The error of the git caches is kept and returned at the end, with the error of the backend if there is one.\<close>

definition failMaybe :: "hostError option \<Rightarrow> unit host" where
  "failMaybe err = (case err of None \<Rightarrow> retE () | Some e \<Rightarrow> failE e)"

definition joinedWith :: "hostError option \<Rightarrow> hostError \<Rightarrow> hostError" where
  "joinedWith gitErr err = Joined ((case gitErr of None \<Rightarrow> [] | Some e \<Rightarrow> [e]) @ [err])"

definition cleanupGit :: "hostEnv \<Rightarrow> HostCleanupOptions \<Rightarrow> VolumeUsage \<Rightarrow> hostError option host" where
  "cleanupGit env options vuLocalCache =
     bindE (attemptE (git_RunGC env
       \<lparr>AllowedLocalCacheVolumeUsageBytes = getRequirementInBytes (AllowedLocalCacheVolumeUsage options) 70 (TotalBytes vuLocalCache),
        AllowedLocalCacheVolumeUsageMarginBytes = getRequirementInBytes (AllowedLocalCacheVolumeUsageMargin options) 5 (TotalBytes vuLocalCache),
        gitDryRun = HostDryRun options\<rparr>)) (\<lambda>r.
     retE (case r of Inl err \<Rightarrow> Some err | Inr _ \<Rightarrow> None))"

definition leaveNotice :: "hostEnv \<Rightarrow> bool \<Rightarrow> HostCleanupOptions \<Rightarrow> RunGCReport \<Rightarrow> unit host" where
  "leaveNotice env backgroundMode options gcReport =
     (if backgroundMode \<and> \<not> HostDryRun options then bindE (attemptE (writeAutoCleanupNotice env gcReport)) (\<lambda>_. retE ()) else retE ())"

definition RunHostCleanup :: "hostEnv \<Rightarrow> containerBackendType \<Rightarrow> bool \<Rightarrow> HostCleanupOptions \<Rightarrow> unit host" where
  "RunHostCleanup env backendType backgroundMode options =
     bindE (cleanupTmp env options) (\<lambda>_.
     bindE (cleanupLocks env options) (\<lambda>_.
     bindE (volumeUsage env (localCacheDir env)) (\<lambda>vuLocalCache.
     bindE (cleanupGit env options vuLocalCache) (\<lambda>gitErr.
     case resolveContainerBackendType backendType of
       Some err \<Rightarrow> if errorsIs err ErrUnsupportedContainerBackend then failMaybe gitErr else failE (joinedWith gitErr err)
     | None \<Rightarrow>
         bindE (mapErrorE (joinedWith gitErr) (cleanupBackend env options)) (\<lambda>gcReport.
         bindE (leaveNotice env backgroundMode options gcReport) (\<lambda>_.
         failMaybe gitErr))))))"

section \<open>The cleanup in the background\<close>

record AutoHostCleanupOptions = HostCleanupOptions +
  TmpDir :: "string option"
  HomeDir :: "string option"
  ProjectName :: "string option"

definition nonEmpty :: "string option \<Rightarrow> bool" where
  "nonEmpty s = (case s of None \<Rightarrow> False | Some v \<Rightarrow> v \<noteq> [])"

definition shouldRunAutoHostCleanup :: "hostEnv \<Rightarrow> containerBackendType \<Rightarrow> bool \<Rightarrow> AutoHostCleanupOptions \<Rightarrow> bool host" where
  "shouldRunAutoHostCleanup env backendType terminating options =
     (if terminating then retE False
      else if nonEmpty (ProjectName options) then retE False
      else
        bindE (tmp_ShouldRunAutoGC env) (\<lambda>shouldRun.
        if shouldRun then retE True
        else bindE (call CallShouldRunHostLocksGC (onShouldRunHostLocksGC env)) (\<lambda>shouldRun.
        if shouldRun then retE True
        else bindE (volumeUsage env (localCacheDir env)) (\<lambda>vuLocalCache.
        bindE (git_ShouldRunAutoGC env (getRequirementInBytes (AllowedLocalCacheVolumeUsage options) 70 (TotalBytes vuLocalCache))) (\<lambda>shouldRun.
        if shouldRun then retE True
        else case resolveContainerBackendType backendType of
          Some err \<Rightarrow> if errorsIs err ErrUnsupportedContainerBackend then retE False else failE err
        | None \<Rightarrow>
            bindE (backendStoragePath env (BackendStoragePath options)) (\<lambda>path.
            bindE (volumeUsage env path) (\<lambda>vuBackend.
            ShouldRunAutoGC env (getRequirementInBytes (AllowedBackendStorageVolumeUsage options) 70 (TotalBytes vuBackend)) (BackendStoragePath options))))))))"

definition fmtBool :: "bool \<Rightarrow> string" where
  "fmtBool b = (if b then ''true'' else ''false'')"

definition limitArg :: "humanizer \<Rightarrow> string \<Rightarrow> UnitValue option \<Rightarrow> string list" where
  "limitArg hum flag limit = (case limit of None \<Rightarrow> [] | Some v \<Rightarrow> [flag, UnitValue_String hum v])"

definition detachArgs :: "humanizer \<Rightarrow> AutoHostCleanupOptions \<Rightarrow> string list" where
  "detachArgs hum options =
     [''host'', ''cleanup'', ''--dry-run='' @ fmtBool (HostDryRun options), ''--force='' @ fmtBool (HostForce options)] @
     limitArg hum ''--allowed-backend-storage-volume-usage'' (AllowedBackendStorageVolumeUsage options) @
     limitArg hum ''--allowed-backend-storage-volume-usage-margin'' (AllowedBackendStorageVolumeUsageMargin options) @
     limitArg hum ''--allowed-local-cache-volume-usage'' (AllowedLocalCacheVolumeUsage options) @
     limitArg hum ''--allowed-local-cache-volume-usage-margin'' (AllowedLocalCacheVolumeUsageMargin options) @
     (if BackendStoragePath options \<noteq> [] then [''--backend-storage-path'', BackendStoragePath options] else [])"

definition detachEnvs :: "AutoHostCleanupOptions \<Rightarrow> string list" where
  "detachEnvs options =
     (case TmpDir options of Some d \<Rightarrow> if d \<noteq> [] then [''WERF_TMP_DIR='' @ d] else [] | None \<Rightarrow> []) @
     (case HomeDir options of Some d \<Rightarrow> if d \<noteq> [] then [''WERF_HOME='' @ d] else [] | None \<Rightarrow> [])"

definition RunAutoHostCleanup :: "hostEnv \<Rightarrow> humanizer \<Rightarrow> containerBackendType \<Rightarrow> bool \<Rightarrow> AutoHostCleanupOptions \<Rightarrow> unit host" where
  "RunAutoHostCleanup env hum backendType terminating options =
     bindE (attemptE (shouldRunAutoHostCleanup env backendType terminating options)) (\<lambda>r.
     case r of
       Inl _ \<Rightarrow> retE ()
     | Inr shouldRun \<Rightarrow>
         if \<not> shouldRun then retE ()
         else let args = detachArgs hum options; envs = detachEnvs options
              in call (CallDetach args envs) (\<lambda>tr. onDetach env tr args envs))"

end
