(* ===== verification/HostPolicy.thy ===== *)
theory HostPolicy
  imports HostCleanup
begin

text \<open>
  Policies for the calls of the host cleanup. A policy says which calls are allowed after which others. Reading is always
  allowed, so that everything in the cleanup that only reads follows every policy; this is proved once, in the locale
  \<open>host_policy\<close>. A policy for removals, \<open>removal_policy\<close>, allows the removal of the paths below some directories, unless the
  run is dry; the garbage collection of the git caches follows each of these.
\<close>

section \<open>Policies\<close>

definition follows :: "(hostCall list \<Rightarrow> hostCall \<Rightarrow> bool) \<Rightarrow> hostCall list \<Rightarrow> hostCall list \<Rightarrow> bool" where
  "follows allowed b calls \<longleftrightarrow>
     (\<exists>more. calls = b @ more \<and> (\<forall>before c after. more = before @ c # after \<longrightarrow> allowed (b @ before) c))"

lemma follows_refl [simp]: "follows allowed b b"
  by (simp add: follows_def)

lemma follows_snoc:
  assumes "follows allowed b calls" "allowed calls c"
  shows "follows allowed b (calls @ [c])"
proof -
  obtain m where calls: "calls = b @ m" and m: "\<And>before c after. m = before @ c # after \<Longrightarrow> allowed (b @ before) c"
    using assms(1) by (auto simp: follows_def)
  have "allowed (b @ before) c'" if "m @ [c] = before @ c' # after" for before c' after
  proof (cases after rule: rev_cases)
    case Nil
    then show ?thesis using that assms(2) calls by simp
  next
    case (snoc ys y)
    then show ?thesis using that m [of before c' ys] by simp
  qed
  then show ?thesis using calls by (auto simp: follows_def intro: exI [of _ "m @ [c]"])
qed

lemma followsD: "follows allowed b (b @ before @ c # after) \<Longrightarrow> allowed (b @ before) c"
  by (auto simp: follows_def)

lemma follows_prefix: "follows allowed b calls \<Longrightarrow> \<exists>m. calls = b @ m"
  by (auto simp: follows_def)

lemma follows_onlyCalls: "follows (\<lambda>_. P) b calls \<longleftrightarrow> onlyCalls P b calls"
proof -
  have "(\<forall>before c after. m = before @ c # after \<longrightarrow> P c) \<longleftrightarrow> list_all P m" for m
    by (metis in_set_conv_decomp list_all_iff)
  then show ?thesis by (simp add: follows_def onlyCalls_def)
qed

lemma follows_run:
  assumes "keeps (follows allowed calls) m"
  shows "\<exists>cs. fst (m calls) = calls @ cs \<and> (\<forall>c \<in> set cs. \<exists>before. allowed before c)"
proof -
  have "follows allowed calls (fst (m calls))" using assms unfolding triple_def by (metis follows_refl prod.collapse)
  then obtain cs where "fst (m calls) = calls @ cs" "\<And>before c after. cs = before @ c # after \<Longrightarrow> allowed (calls @ before) c"
    by (auto simp: follows_def)
  then show ?thesis by (metis in_set_conv_decomp)
qed

lemma call_follows: "(\<And>calls. allowed calls c) \<Longrightarrow> keeps (follows allowed b) (call c answer)"
  by (intro call_keeps follows_snoc) simp_all

named_theorems policy_intros "operations that follow a policy"

lemma keeps_ifExists [triple_intros]: "keeps I m \<Longrightarrow> (\<And>x. keeps I (f x)) \<Longrightarrow> keeps I (ifExists m b f)"
  unfolding ifExists_def by (intro triple_intros)

locale host_policy =
  fixes allowed :: "hostCall list \<Rightarrow> hostCall \<Rightarrow> bool"
  assumes reads: "\<not> changesHost c \<Longrightarrow> allowed calls c"
begin

lemma call_read [policy_intros]: "\<not> changesHost c \<Longrightarrow> keeps (follows allowed b) (call c answer)"
  by (intro call_follows reads)

lemma volumeUsage_follows [policy_intros]: "keeps (follows allowed b) (volumeUsage env path)"
  unfolding volumeUsage_def by (intro policy_intros) simp

lemma backendStoragePath_follows [policy_intros]: "keeps (follows allowed b) (backendStoragePath env path)"
  unfolding backendStoragePath_def by (intro triple_intros policy_intros) simp_all

lemma ShouldRunAutoGC_follows [policy_intros]: "keeps (follows allowed b) (ShouldRunAutoGC env n path)"
  unfolding ShouldRunAutoGC_def by (intro triple_intros policy_intros)

lemma imagesBy_follows [policy_intros]: "keeps (follows allowed b) (imagesBy env filters)"
  unfolding imagesBy_def by (intro policy_intros) simp

lemma containers_follows [policy_intros]: "keeps (follows allowed b) (werfContainersByContainersOptions env filters)"
  unfolding werfContainersByContainersOptions_def by (intro triple_intros policy_intros) simp

lemma freshImages_follows [policy_intros]: "keeps (follows allowed b) (freshImages env imgs images)"
  unfolding freshImages_def by (intro triple_intros policy_intros) simp

lemma listEntry_follows [policy_intros]: "keeps (follows allowed b) (listEntry env item dirInfo acc dirEntry)"
  unfolding listEntry_def followLink_def by (intro triple_intros policy_intros) simp_all

lemma collectPaths_follows [policy_intros]: "keeps (follows allowed b) (collectPaths env)"
  unfolding collectPaths_def listDirAndFollowSymlinks_def by (intro triple_intros policy_intros) simp_all

lemma keepLink_follows [policy_intros]: "keeps (follows allowed b) (keepLink env failed kept link)"
  unfolding keepLink_def by (intro triple_intros policy_intros) simp

lemma tmp_ShouldRunAutoGC_follows [policy_intros]: "keeps (follows allowed b) (tmp_ShouldRunAutoGC env)"
  unfolding tmp_ShouldRunAutoGC_def by (intro triple_intros policy_intros)

lemma shouldPreserve_follows [policy_intros]: "keeps (follows allowed b) (shouldPreserveGitDataEntryByLru env t)"
  unfolding shouldPreserveGitDataEntryByLru_def by (intro triple_intros policy_intros) simp

lemma keepGitDataByLru_follows [policy_intros]: "keeps (follows allowed b) (keepGitDataByLru env entries)"
  unfolding keepGitDataByLru_def keepOld_def by (intro triple_intros policy_intros)

lemma readDir_follows [policy_intros]: "keeps (follows allowed b) (readDir env dir)"
  unfolding readDir_def by (intro policy_intros) simp

lemma readLastAccessAt_follows [policy_intros]: "keeps (follows allowed b) (readLastAccessAt env path)"
  unfolding readLastAccessAt_def by (intro triple_intros policy_intros) simp

lemma sizeAndAccess_follows [policy_intros]: "keeps (follows allowed b) (sizeAndAccess env path)"
  unfolding sizeAndAccess_def by (intro triple_intros policy_intros) simp

lemma recordedWorktreeOrigin_follows [policy_intros]: "keeps (follows allowed b) (recordedWorktreeOrigin env dir)"
  unfolding recordedWorktreeOrigin_def by (intro triple_intros policy_intros) simp

lemma worktreeHasSubmodules_follows [policy_intros]: "keeps (follows allowed b) (worktreeHasSubmodules env dir)"
  unfolding worktreeHasSubmodules_def by (intro triple_intros policy_intros) simp

lemma ProbeMissing_follows [policy_intros]: "keeps (follows allowed b) (ProbeMissingLocalWorktreeOrigins env root)"
  unfolding ProbeMissingLocalWorktreeOrigins_def probeOrigin_def by (intro triple_intros policy_intros) simp_all

lemma anyFresh_follows [policy_intros]: "keeps (follows allowed b) (anyFresh env infos)"
proof (induction infos)
  case Nil
  show ?case unfolding anyFresh.simps by (intro triple_intros)
next
  case (Cons info infos)
  then show ?case unfolding anyFresh.simps by (intro triple_intros policy_intros) simp_all
qed

lemma hasFreshFiles_follows [policy_intros]: "keeps (follows allowed b) (hasFreshFiles env path)"
  unfolding hasFreshFiles_def by (intro triple_intros policy_intros) simp

lemma originIsBack_follows [policy_intros]: "keeps (follows allowed b) (originIsBack env entry)"
  unfolding originIsBack_def by (cases entry) (auto intro!: triple_intros policy_intros)

lemma git_ShouldRunAutoGC_follows [policy_intros]: "keeps (follows allowed b) (git_ShouldRunAutoGC env n)"
  unfolding git_ShouldRunAutoGC_def by (intro triple_intros policy_intros) simp

lemma shouldRunAuto_follows [policy_intros]:
  "keeps (follows allowed b) (shouldRunAutoHostCleanup env backendType terminating options)"
  unfolding shouldRunAutoHostCleanup_def by (intro triple_intros policy_intros) simp

end

section \<open>Removal of paths\<close>

text \<open>Rules for the collectors of the git caches: entries whose properties are kept in a failure as well.\<close>

lemma computes_noteError:
  assumes "computes I m Q (\<lambda>_. True)" and "\<And>err. R (fst acc, snd acc @ [err])" and "\<And>x. Q x \<Longrightarrow> computes I (f x) R R"
  shows "computes I (noteError m acc f) R R"
  unfolding noteError_def
  by (rule computes_bind [OF computes_attempt [OF assms(1)]]) (auto intro: computes_ret assms split: sum.split)

lemma computes_giveUp:
  assumes "computes I m Q (\<lambda>_. True)" and "\<And>err. R ([], [err])"
  shows "computes I (giveUp m) Q R"
  unfolding giveUp_def by (rule computes_mapError) (rule computes_weaken [OF assms(1)], auto intro: assms(2))

lemma computes_giveUp_bind:
  assumes "keeps I m" and "\<And>err. R ([], [err])" and "\<And>x. computes I (f x) R' R"
  shows "computes I (bindE (giveUp m) f) R' R"
  by (rule computes_bind [OF computes_giveUp [where R = R, OF keeps_computes [OF assms(1)]]]) (rule assms)+

locale removal_policy = host_policy allowed for allowed :: "hostCall list \<Rightarrow> hostCall \<Rightarrow> bool" +
  fixes env :: hostEnv and dryRun :: bool and plain :: "string \<Rightarrow> bool" and norm :: "string \<Rightarrow> bool" and below :: "string \<Rightarrow> bool"
  assumes names: "onReadDir env tr dir = Inr infos \<Longrightarrow> f \<in> set infos \<Longrightarrow> plain (fileName f)"
    and fixed_names: "plain ''shallow''" "plain ''local''" "plain ''remote''"
    and join_below: "below dir \<Longrightarrow> plain name \<Longrightarrow> below (PathJoin [dir, name])"
    and below_norm: "below path \<Longrightarrow> norm path"
    and dir_norm: "norm path \<Longrightarrow> norm (filepathDir path)"
    and scoped: "below scope \<Longrightarrow> norm path \<Longrightarrow> isSubpath env scope path \<Longrightarrow> below path"
    and removes: "\<not> dryRun \<Longrightarrow> below path \<Longrightarrow> allowed calls (CallRemoveAll path) \<and> allowed calls (CallRemove path)"
begin

lemma removePath_follows [policy_intros]: "below path \<Longrightarrow> keeps (follows allowed b) (removePath env dryRun path)"
  unfolding removePath_def by (intro triple_intros call_follows) (use removes in blast)

lemma readDir_computes:
  "computes (follows allowed b) (readDir env dir) (\<lambda>infos. \<forall>f \<in> set infos. plain (fileName f)) (\<lambda>_. True)"
proof (rule computesI)
  fix calls calls' r
  assume "follows allowed b calls" and run: "readDir env dir calls = (calls', r)"
  with readDir_follows have "follows allowed b calls'" by (rule tripleD)
  moreover have "r = onReadDir env calls dir" using run by (simp add: readDir_def call_def)
  ultimately show "follows allowed b calls' \<and> (case r of Inl _ \<Rightarrow> True | Inr infos \<Rightarrow> \<forall>f \<in> set infos. plain (fileName f))"
    by (auto dest: names split: sum.split)
qed

definition entryOk :: "GitDataEntry \<Rightarrow> bool" where
  "entryOk entry \<longleftrightarrow> below (GetCacheBasePath entry) \<and> (\<forall>path \<in> set (GetPaths entry). norm path)"

definition foundOk :: "found \<Rightarrow> bool" where
  "foundOk acc \<longleftrightarrow> (\<forall>entry \<in> set (fst acc). entryOk entry)"

lemma foundOk_simps [simp]:
  "foundOk ([], errs)" "foundOk (entry # xs, errs) \<longleftrightarrow> entryOk entry \<and> foundOk (xs, errs)"
  "foundOk (xs @ ys, errs) \<longleftrightarrow> foundOk (xs, errs) \<and> foundOk (ys, errs)"
  by (auto simp: foundOk_def)

lemma foundOk_errs: "foundOk acc \<Longrightarrow> foundOk (fst acc, errs)"
  by (simp add: foundOk_def)

lemma foundOk_snoc: "foundOk acc \<Longrightarrow> entryOk entry \<Longrightarrow> foundOk (fst acc @ [entry], errs)"
  by (auto simp: foundOk_def)

lemma removePath_bind:
  "below path \<Longrightarrow> computes (follows allowed b) m R foundOk \<Longrightarrow>
   computes (follows allowed b) (bindE (giveUp (removePath env dryRun path)) (\<lambda>_. m)) R foundOk"
  by (intro computes_giveUp_bind policy_intros) simp_all

lemma sizeAndAccess_note:
  assumes "foundOk acc" "\<And>sz t. computes (follows allowed b) (f (sz, t)) foundOk foundOk"
  shows "computes (follows allowed b) (noteError (sizeAndAccess env path) acc f) foundOk foundOk"
  by (rule computes_noteError [OF keeps_computes [OF sizeAndAccess_follows]]) (use assms foundOk_errs in auto)

lemma readDir_note:
  assumes "foundOk acc" "\<And>infos. \<forall>f \<in> set infos. plain (fileName f) \<Longrightarrow> computes (follows allowed b) (f infos) foundOk foundOk"
  shows "computes (follows allowed b) (noteError (readDir env dir) acc f) foundOk foundOk"
  by (rule computes_noteError [OF readDir_computes]) (use assms foundOk_errs in auto)

lemma inCacheRoot_computes:
  assumes "below root" "\<And>infos. \<forall>f \<in> set infos. plain (fileName f) \<Longrightarrow> computes (follows allowed b) (f infos) foundOk foundOk"
  shows "computes (follows allowed b) (inCacheRoot env dryRun root f) foundOk (\<lambda>_. True)"
  unfolding inCacheRoot_def
proof (rule computes_earlyReturn, rule computes_bind)
  show "computes (follows allowed b) (attemptE (call (CallStat root) (\<lambda>tr. onStat env tr root))) (\<lambda>_. True) foundOk"
    by (rule computes_weaken [OF computes_attempt [OF keeps_computes [OF call_read]]]) simp_all
  have "computes (follows allowed b) (bindE (giveUp (readDir env root)) f) foundOk foundOk"
    by (rule computes_bind [OF computes_giveUp [OF readDir_computes]]) (use assms(2) in auto)
  then show "computes (follows allowed b) (case r of Inl err \<Rightarrow> (if IsNotExist err then retE ([], []) else failE ([], [err]))
      | Inr fileStat \<Rightarrow> if fileMode fileStat \<noteq> Directory then bindE (giveUp (removePath env dryRun root)) (\<lambda>_. retE ([], []))
          else bindE (giveUp (readDir env root)) f) foundOk foundOk" for r
    by (intro computes_intros removePath_bind assms(1)) simp_all
qed

lemma GetGitRepos_computes:
  assumes "below root"
  shows "computes (follows allowed b) (GetGitReposAndRemoveInvalid env dryRun root) foundOk (\<lambda>_. True)"
proof -
  have "computes (follows allowed b) (repoEntry env dryRun root acc info) foundOk foundOk"
    if "plain (fileName info)" "foundOk acc" for acc info
    unfolding repoEntry_def
    by (intro computes_intros removePath_bind sizeAndAccess_note foundOk_snoc)
      (simp_all add: that entryOk_def assms join_below below_norm)
  then show ?thesis unfolding GetGitReposAndRemoveInvalid_def
    by (intro inCacheRoot_computes assms computes_fold) simp_all
qed

lemma mirrorChild_computes:
  "below repoPath \<Longrightarrow> plain (fileName info) \<Longrightarrow>
   computes (follows allowed b) (mirrorChild env dryRun repoPath flags info) (\<lambda>_. True) foundOk"
  unfolding mirrorChild_def by (intro computes_intros removePath_bind) (simp_all add: join_below)

lemma GetGitMirrors_computes:
  assumes "below root"
  shows "computes (follows allowed b) (GetGitMirrorsAndRemoveInvalid env dryRun root) foundOk (\<lambda>_. True)"
proof -
  have "computes (follows allowed b) (mirrorEntry env dryRun root acc info) foundOk foundOk"
    if "plain (fileName info)" "foundOk acc" for acc info
  proof -
    have children: "computes (follows allowed b) (foldE (mirrorChild env dryRun (PathJoin [root, fileName info])) flags infos) (\<lambda>_. True) foundOk"
      if "\<forall>f \<in> set infos. plain (fileName f)" for flags infos
      by (rule computes_fold) (use that \<open>plain (fileName info)\<close> assms in \<open>auto intro!: mirrorChild_computes join_below\<close>)
    show ?thesis unfolding mirrorEntry_def Let_def
      by (intro computes_intros removePath_bind readDir_note computes_bind [OF children] sizeAndAccess_note foundOk_snoc)
        (simp_all add: that entryOk_def assms join_below below_norm fixed_names)
  qed
  then show ?thesis unfolding GetGitMirrorsAndRemoveInvalid_def
    by (intro inCacheRoot_computes assms computes_fold) simp_all
qed

lemma keeps_note:
  assumes "keeps (follows allowed b) m" "foundOk acc" "\<And>x. computes (follows allowed b) (f x) foundOk foundOk"
  shows "computes (follows allowed b) (noteError m acc f) foundOk foundOk"
  by (rule computes_noteError [OF keeps_computes [OF assms(1)]]) (use assms foundOk_errs in auto)

lemma stat_bind:
  assumes "\<And>r. computes (follows allowed b) (f r) R foundOk"
  shows "computes (follows allowed b) (bindE (attemptE (call (CallStat path) answer)) f) R foundOk"
  by (rule computes_bind [OF computes_weaken [OF computes_attempt [OF keeps_computes [OF call_read]]]]) (use assms in auto)

lemma worktreeEntry_computes:
  assumes "below dir" "plain (fileName info)" "foundOk acc"
  shows "computes (follows allowed b) (worktreeEntry env dryRun missing subdir dir acc info) foundOk foundOk"
  unfolding worktreeEntry_def Let_def
  by (intro computes_intros removePath_bind sizeAndAccess_note computes_giveUp_bind keeps_note triple_intros policy_intros foundOk_snoc)
    (simp_all add: assms entryOk_def join_below below_norm)

lemma GetGitWorktrees_computes:
  assumes "below root"
  shows "computes (follows allowed b) (GetGitWorktreesAndRemoveInvalid env dryRun missing root) foundOk (\<lambda>_. True)"
proof -
  have "computes (follows allowed b) (worktreeSubdir env dryRun missing root acc subdir) foundOk foundOk"
    if "subdir \<in> set [''local'', ''remote'']" "foundOk acc" for acc subdir
  proof -
    have "below (PathJoin [root, subdir])" using that(1) fixed_names assms by (auto intro: join_below)
    then show ?thesis unfolding worktreeSubdir_def Let_def
      by (intro stat_bind computes_intros readDir_note computes_fold worktreeEntry_computes) (simp_all add: that)
  qed
  then show ?thesis unfolding GetGitWorktreesAndRemoveInvalid_def
    by (intro computes_earlyReturn computes_fold) simp_all
qed

lemma removeIrregular_computes:
  assumes "below groupDir" "\<forall>f \<in> set files. plain (fileName f)"
  shows "computes (follows allowed b) (removeIrregular env dryRun groupDir files) (\<lambda>infos. \<forall>f \<in> set infos. plain (fileName f)) foundOk"
  unfolding removeIrregular_def
  by (intro computes_fold computes_intros removePath_bind) (use assms join_below in auto)

lemma removeUnowned_computes:
  assumes "below groupDir" "\<forall>f \<in> set files. plain (fileName f)" "foundOk (fst st)"
  shows "computes (follows allowed b) (removeUnowned env dryRun groupDir files st) foundOk foundOk"
proof -
  have "computes (follows allowed b) (bindE (mapErrorE (\<lambda>err. (fst acc, [err])) (removePath env dryRun (PathJoin [groupDir, fileName f]))) (\<lambda>_. retE acc)) foundOk foundOk"
    if "f \<in> set files" "foundOk acc" for f and acc :: found
  proof (rule computes_bind [OF computes_mapError])
    show "computes (follows allowed b) (removePath env dryRun (PathJoin [groupDir, fileName f])) (\<lambda>_. True) (\<lambda>e. foundOk (fst acc, [e]))"
      by (rule computes_weaken [OF keeps_computes [OF removePath_follows]]) (use that assms in \<open>auto intro: join_below foundOk_errs\<close>)
  qed (use that in \<open>auto intro: computes_ret\<close>)
  then show ?thesis unfolding removeUnowned_def Let_def using assms(3)
    by (intro computes_intros computes_fold) auto
qed

lemma fileOf_plain: "fileOf files name = Some f \<Longrightarrow> \<forall>f \<in> set files. plain (fileName f) \<Longrightarrow> plain name"
  unfolding fileOf_def by (metis (mono_tags, lifting) find_Some_iff nth_mem)

lemma readFile_bind:
  assumes "\<And>r. computes (follows allowed b) (f r) R foundOk"
  shows "computes (follows allowed b) (bindE (attemptE (call (CallReadFile path) answer)) f) R foundOk"
  by (rule computes_bind [OF computes_weaken [OF computes_attempt [OF keeps_computes [OF call_read]]]]) (use assms in auto)

lemma archiveEntry_computes:
  assumes "below root" "below groupDir" "\<forall>f \<in> set files. plain (fileName f)" "info \<in> set files" "foundOk (fst st)"
  shows "computes (follows allowed b) (archiveEntry env root groupDir files st info) (\<lambda>st. foundOk (fst st)) foundOk"
  unfolding archiveEntry_def Let_def
  by (intro computes_intros readFile_bind)
    (use assms in \<open>auto simp: entryOk_def intro!: foundOk_errs foundOk_snoc below_norm join_below dest: fileOf_plain\<close>)

lemma patchEntry_computes:
  assumes "below root" "below groupDir" "\<forall>f \<in> set files. plain (fileName f)" "info \<in> set files" "foundOk (fst st)"
  shows "computes (follows allowed b) (patchEntry env root groupDir files st info) (\<lambda>st. foundOk (fst st)) foundOk"
  unfolding patchEntry_def Let_def
  by (intro computes_intros readFile_bind)
    (use assms in \<open>auto simp: entryOk_def sidecarsOf_def intro!: foundOk_errs foundOk_snoc below_norm join_below dest: fileOf_plain\<close>)

lemma walkGroups_computes:
  assumes "below root" "\<forall>f \<in> set repoDirs. plain (fileName f)"
    and treat: "\<And>groupDir acc files. below groupDir \<Longrightarrow> foundOk acc \<Longrightarrow> \<forall>f \<in> set files. plain (fileName f) \<Longrightarrow>
      computes (follows allowed b) (treatGroup groupDir acc files) foundOk foundOk"
  shows "computes (follows allowed b) (walkGroups env dryRun treatGroup root repoDirs) foundOk foundOk"
  unfolding walkGroups_def Let_def
  by (intro computes_fold computes_intros removePath_bind readDir_note treat) (use assms(1,2) join_below in auto)

lemma group_computes:
  assumes "below groupDir" "foundOk acc" "\<forall>f \<in> set files. plain (fileName f)"
    and entry: "\<And>st info files. \<forall>f \<in> set files. plain (fileName f) \<Longrightarrow> info \<in> set files \<Longrightarrow> foundOk (fst st) \<Longrightarrow>
      computes (follows allowed b) (treatEntry files st info) (\<lambda>st. foundOk (fst st)) foundOk"
  shows "computes (follows allowed b) (bindE (removeIrregular env dryRun groupDir files) (\<lambda>regularFiles.
     bindE (foldE (treatEntry regularFiles) (acc, []) regularFiles) (\<lambda>st. removeUnowned env dryRun groupDir regularFiles st))) foundOk foundOk"
proof (rule computes_bind [OF removeIrregular_computes])
  fix regular :: "FileInfo list"
  assume regular: "\<forall>f \<in> set regular. plain (fileName f)"
  show "computes (follows allowed b) (bindE (foldE (treatEntry regular) (acc, []) regular)
      (\<lambda>st. removeUnowned env dryRun groupDir regular st)) foundOk foundOk"
  proof (rule computes_bind)
    show "computes (follows allowed b) (foldE (treatEntry regular) (acc, []) regular) (\<lambda>st. foundOk (fst st)) foundOk"
      by (rule computes_fold) (use assms(2) entry regular in auto)
  qed (use removeUnowned_computes assms(1) regular in blast)
qed (use assms in auto)

lemma GetGitArchives_computes:
  assumes "below root"
  shows "computes (follows allowed b) (GetGitArchivesAndRemoveInvalid env dryRun root) foundOk (\<lambda>_. True)"
  unfolding GetGitArchivesAndRemoveInvalid_def archiveGroup_def
  by (intro inCacheRoot_computes walkGroups_computes group_computes archiveEntry_computes assms) simp_all

lemma GetGitPatches_computes:
  assumes "below root"
  shows "computes (follows allowed b) (GetGitPatchesAndRemoveInvalid env dryRun root) foundOk (\<lambda>_. True)"
proof -
  have "computes (follows allowed b) (bindE (giveUp (readDir env root)) (walkGroups env dryRun (patchGroup env dryRun root) root)) foundOk foundOk"
    unfolding patchGroup_def
    by (rule computes_bind [OF computes_giveUp [OF readDir_computes]])
      (use assms in \<open>auto intro!: walkGroups_computes group_computes patchEntry_computes\<close>)
  then show ?thesis unfolding GetGitPatchesAndRemoveInvalid_def
    by (intro computes_earlyReturn stat_bind computes_intros) simp_all
qed

lemma wipeCacheDirs_follows [policy_intros]:
  assumes "below root"
  shows "keeps (follows allowed b) (wipeCacheDirs env dryRun root versions)"
proof -
  have version: "keeps (follows allowed b) (wipeVersion env dryRun root versions u info)" if "plain (fileName info)" for u info
    unfolding wipeVersion_def by (intro triple_intros policy_intros) (use that assms join_below in auto)
  have "computes (follows allowed b) (bindE (readDir env root) (\<lambda>dirs. foldE (wipeVersion env dryRun root versions) () dirs)) (\<lambda>_. True) (\<lambda>_. True)"
    by (rule computes_bind [OF readDir_computes]) (auto intro!: keeps_computes keeps_fold version)
  note dirs = computes_keeps [OF this]
  show ?thesis unfolding wipeCacheDirs_def by (intro triple_intros policy_intros dirs) simp
qed

lemma removeEmptyParents_follows [policy_intros]:
  "\<not> dryRun \<Longrightarrow> below scope \<Longrightarrow> norm dir \<Longrightarrow> keeps (follows allowed b) (removeEmptyParents env scope dir)"
proof (induction "length dir" arbitrary: dir rule: less_induct)
  case less
  have remove: "keeps (follows allowed b) (call (CallRemove dir) (\<lambda>tr. onRemove env tr dir))" if "isSubpath env scope dir"
    by (intro call_follows) (use that removes scoped less.prems in blast)
  show ?case
    by (subst removeEmptyParents.simps) (intro triple_intros readDir_follows remove less.hyps dir_norm less.prems, blast)
qed

lemma removeEntry_follows [policy_intros]:
  assumes "entryOk entry" "dryRun = RemoveDryRun options"
  shows "keeps (follows allowed b) (removeEntry env options entry)"
proof -
  have "keeps (follows allowed b) (RemovePathWithEmptyParentDirsInsideScope env (GetCacheBasePath entry) path)"
    if "\<not> dryRun" "path \<in> set (GetPaths entry)" for path
    unfolding RemovePathWithEmptyParentDirsInsideScope_def
    by (intro triple_intros policy_intros call_follows) (use that assms removes scoped dir_norm in \<open>auto simp: entryOk_def\<close>)
  then show ?thesis unfolding removeEntry_def using assms(2) by (intro triple_intros) simp_all
qed

lemma removeLoop_follows [policy_intros]:
  "\<forall>entry \<in> set entries. entryOk entry \<Longrightarrow> dryRun = RemoveDryRun options \<Longrightarrow> keeps (follows allowed b) (removeLoop env options freed entries)"
proof (induction entries arbitrary: freed)
  case Nil
  show ?case unfolding removeLoop.simps by (intro triple_intros)
next
  case (Cons entry entries)
  then show ?case unfolding removeLoop.simps by (intro triple_intros policy_intros) simp_all
qed

lemma failWith_follows [policy_intros]: "keeps (follows allowed b) (failWith errs)"
  unfolding failWith_def by (intro triple_intros)

lemma collectAll_computes:
  assumes "\<And>cache version. (cache, version) \<in> set cacheVersions \<Longrightarrow> below (versionRoot env cache version)"
  shows "computes (follows allowed b) (collectAll env dryRun missing) foundOk (\<lambda>_. True)"
proof -
  have roots: "below (versionRoot env ''git_repos'' ''5'')" "below (versionRoot env ''git_mirrors'' ''1'')"
      "below (versionRoot env ''git_worktrees'' ''9'')" "below (versionRoot env ''git_archives'' ''7'')" "below (versionRoot env ''git_patches'' ''6'')"
    using assms by (simp_all add: cacheVersions_def)
  note bind = computes_bind [OF GetGitRepos_computes [OF roots(1)]] computes_bind [OF GetGitMirrors_computes [OF roots(2)]]
    computes_bind [OF GetGitWorktrees_computes [OF roots(3)]] computes_bind [OF GetGitArchives_computes [OF roots(4)]]
    computes_bind [OF GetGitPatches_computes [OF roots(5)]]
  show ?thesis unfolding collectAll_def by (intro bind computes_intros) (auto simp: foundOk_def)
qed

lemma keepGitDataByLru_computes:
  assumes "\<forall>entry \<in> set entries. entryOk entry"
  shows "computes (follows allowed b) (keepGitDataByLru env entries) (\<lambda>es. \<forall>entry \<in> set es. entryOk entry) (\<lambda>_. True)"
proof -
  have fold: "computes (follows allowed b) (foldE (keepOld env) [] entries) (\<lambda>es. \<forall>entry \<in> set es. entryOk entry) (\<lambda>_. True)"
    unfolding keepOld_def
    by (intro computes_fold computes_bind [OF keeps_computes [OF shouldPreserve_follows]] computes_ret) (use assms in auto)
  show ?thesis unfolding keepGitDataByLru_def by (intro computes_bind [OF fold] computes_ret) simp
qed

lemma evict_follows:
  assumes "\<And>cache version. (cache, version) \<in> set cacheVersions \<Longrightarrow> below (versionRoot env cache version)"
    and "dryRun = RemoveDryRun options"
    and rest: "\<And>errs r. keeps (follows allowed b) (f errs r)"
  shows "keeps (follows allowed b) (bindE (collectAll env dryRun missing) (\<lambda>(entries, errs).
    bindE (keepGitDataByLru env entries) (\<lambda>entries. bindE (attemptE (removeGitDataEntries env options entries)) (f errs))))"
proof -
  have "keeps (follows allowed b) (removeGitDataEntries env options entries)" if "\<forall>entry \<in> set entries. entryOk entry" for entries
    unfolding removeGitDataEntries_def by (intro triple_intros policy_intros that assms(2))
  then have "computes (follows allowed b) (bindE (attemptE (removeGitDataEntries env options entries)) (f errs)) (\<lambda>_. True) (\<lambda>_. True)"
    if "\<forall>entry \<in> set entries. entryOk entry" for entries errs
    using that by (intro keeps_computes triple_intros rest)
  then show ?thesis
    by (intro computes_keeps [of _ _ "\<lambda>_. True" "\<lambda>_. True"] computes_bind [OF collectAll_computes] computes_intros
        computes_bind [OF keepGitDataByLru_computes]) (use assms(1) in \<open>auto simp: foundOk_def\<close>)
qed

lemma git_RunGC_follows:
  assumes roots: "\<And>cache version. (cache, version) \<in> set cacheVersions \<Longrightarrow>
      below (PathJoin [localCacheDir env, cache]) \<and> below (versionRoot env cache version)"
    and "dryRun = gitDryRun options"
  shows "keeps (follows allowed b) (git_RunGC env options)"
proof -
  have "keeps (follows allowed b) (wipeAll env dryRun)"
    unfolding wipeAll_def by (intro triple_intros policy_intros) (use roots in auto)
  then have "keeps (follows allowed b) (git_cleanup env options missing)" for missing
    unfolding git_cleanup_def Let_def
    by (intro triple_intros policy_intros evict_follows [OF conjunct2 [OF roots], unfolded assms(2)]) (simp_all add: assms(2))
  then show ?thesis unfolding git_RunGC_def by (intro triple_intros policy_intros) simp_all
qed

end

section \<open>Dry runs\<close>

interpretation quietCalls: host_policy "\<lambda>_ c. \<not> changesHost c"
  by unfold_locales

interpretation quietGC: removal_policy "\<lambda>_ c. \<not> changesHost c" env True "\<lambda>_. True" "\<lambda>_. True" "\<lambda>_. True" for env
  by unfold_locales simp_all

end
