(* ===== verification/LocalGCProps.thy ===== *)
theory LocalGCProps
  imports LocalGC
begin

text \<open>
  What the garbage collection of the local backend does to the host: nothing in a dry run, nothing to what another
  process has locked, and otherwise the least recently used images first, until the usage has fallen to the target,
  a batch has freed nothing, or no images are left.
\<close>

section \<open>Dry runs\<close>

abbreviation quiet :: "hostCall list \<Rightarrow> hostCall list \<Rightarrow> bool" where
  "quiet \<equiv> onlyCalls (\<lambda>c. \<not> changesHost c)"

named_theorems quiet_intros "operations that do not change the host"

lemma volumeUsage_quiet [quiet_intros]: "keeps (quiet b) (volumeUsage env path)"
  unfolding volumeUsage_def by (intro triple_intros) simp

lemma backendStoragePath_quiet [quiet_intros]: "keeps (quiet b) (backendStoragePath env path)"
  unfolding backendStoragePath_def by (intro triple_intros) simp_all

lemma measure_quiet [quiet_intros]: "keeps (quiet b) (measureReclaimedSpace env path vu)"
  unfolding measureReclaimedSpace_def by (intro triple_intros quiet_intros)

lemma isLocked_quiet [quiet_intros]: "keeps (quiet b) (isLocked env name)"
  unfolding isLocked_def by (intro triple_intros) simp_all

lemma removeImageRef_quiet [quiet_intros]: "DryRun options \<Longrightarrow> keeps (quiet b) (removeImageRef env ref options)"
  unfolding removeImageRef_def by (simp add: triple_ret)

lemma removeContainerRef_quiet [quiet_intros]: "DryRun options \<Longrightarrow> keeps (quiet b) (removeContainerRef env ref options)"
  unfolding removeContainerRef_def by (simp add: triple_ret)

lemma removeImage_quiet [quiet_intros]: "DryRun options \<Longrightarrow> keeps (quiet b) (removeImage env options rep img)"
  unfolding removeImage_def removeImageByRepoTags_def removeImageByRepoDigests_def removeTag_def
  by (intro triple_intros quiet_intros)

lemma imagesBy_quiet [quiet_intros]: "keeps (quiet b) (imagesBy env filters)"
  unfolding imagesBy_def by (intro triple_intros) simp

lemma werfImages_quiet [quiet_intros]: "keeps (quiet b) (werfImages env)"
  unfolding werfImages_def werfImagesByLabels_def werfImagesByLegacyLabels_def werfImagesByLastRun_def collectLastUsed_def
    maxLastUsedAtForImage_def
  by (intro triple_intros quiet_intros) simp_all

lemma pruneVolumes_quiet [quiet_intros]: "DryRun options \<Longrightarrow> keeps (quiet b) (pruneVolumes env options)"
  by (simp add: pruneVolumes_def triple_fail)

lemma pruneImages_quiet [quiet_intros]: "DryRun options \<Longrightarrow> keeps (quiet b) (pruneImages env options)"
  unfolding pruneImages_def by (simp add: Let_def) (intro triple_intros, simp)

lemma tolerate_keeps [triple_intros]: "keeps I m \<Longrightarrow> keeps I (tolerate m)"
  unfolding tolerate_def by (intro triple_intros)

lemma containers_quiet [quiet_intros]: "DryRun options \<Longrightarrow> keeps (quiet b) (cleanupWerfContainers env options vu)"
  unfolding cleanupWerfContainers_def werfContainersByContainersOptions_def cleanupContainer_def
  by (intro triple_intros quiet_intros) simp_all

lemma batch_member: "img \<in> set (batch imgs i n) \<Longrightarrow> img \<in> set imgs"
  unfolding batch_def by (meson in_set_dropD in_set_takeD)

text \<open>What holds of the removal of images and of measurements holds of the loop.\<close>

lemma cleanLoop_keeps:
  assumes "\<And>rep img. img \<in> set imgs \<Longrightarrow> keeps I (removeImage env options rep img)" "\<And>path. keeps I (volumeUsage env path)"
  shows "keeps I (cleanLoop env options target imgs i vu rep)"
  using assms
proof (induction env options target imgs i vu rep rule: cleanLoop.induct)
  case (1 env options target imgs i vu rep)
  have "keeps I (removeImage env options rep img)" if "img \<in> set (batch imgs i n)" for rep img n
    using "1.prems"(1) batch_member [OF that] .
  with 1 show ?case by (subst cleanLoop.simps) (auto intro!: triple_intros)
qed

lemma cleanupWerfImages_quiet [quiet_intros]: "DryRun options \<Longrightarrow> keeps (quiet b) (cleanupWerfImages env options vu target)"
  unfolding cleanupWerfImages_def by (intro triple_intros cleanLoop_keeps quiet_intros)

lemma RunGC_quiet [quiet_intros]: "DryRun options \<Longrightarrow> keeps (quiet b) (RunGC env options)"
  unfolding RunGC_def by (intro triple_intros quiet_intros) simp_all

section \<open>Locks\<close>

text \<open>The last two calls are a lock that was free and its release.\<close>

definition justChecked :: "hostEnv \<Rightarrow> hostCall list \<Rightarrow> string \<Rightarrow> bool" where
  "justChecked env calls name \<longleftrightarrow>
     (\<exists>before. calls = before @ [CallAcquire name, CallRelease name] \<and> onAcquire env before name = Inr True)"

definition untaggedDigest :: "hostEnv \<Rightarrow> string \<Rightarrow> bool" where
  "untaggedDigest env ref \<longleftrightarrow> (\<exists>tr filters imgs img. onImages env tr filters = Inr imgs \<and> img \<in> set imgs \<and>
     RepoTags img = [] \<and> ref \<in> set (RepoDigests img))"

definition listedContainer :: "hostEnv \<Rightarrow> Container \<Rightarrow> bool" where
  "listedContainer env c \<longleftrightarrow> (\<exists>tr filters cs. onContainers env tr filters = Inr cs \<and> c \<in> set cs)"

definition allowedCall :: "hostEnv \<Rightarrow> hostCall list \<Rightarrow> hostCall \<Rightarrow> bool" where
  "allowedCall env before c \<longleftrightarrow>
     (case c of
        CallRmi ref _ \<Rightarrow> ref = noneRef \<or> justChecked env before (ImageLockName ref) \<or> untaggedDigest env ref
      | CallRm i _ \<Rightarrow> (\<exists>cont. listedContainer env cont \<and> ContainerID cont = i \<and>
          justChecked env before (ContainerLockName (werfContainerName cont)))
      | _ \<Rightarrow> True)"

text \<open>Every call after the first \<open>n\<close> is allowed.\<close>

definition lockSafe :: "hostEnv \<Rightarrow> nat \<Rightarrow> hostCall list \<Rightarrow> bool" where
  "lockSafe env n calls \<longleftrightarrow> (\<forall>before c after. calls = before @ c # after \<longrightarrow> n \<le> length before \<longrightarrow> allowedCall env before c)"

named_theorems safe_intros "operations that respect locks"

lemma lockSafe_snoc: "lockSafe env n calls \<Longrightarrow> allowedCall env calls c \<Longrightarrow> lockSafe env n (calls @ [c])"
  unfolding lockSafe_def
  by (metis append_assoc append_Cons append_Nil append_eq_append_conv2 append_self_conv butlast_snoc last_snoc snoc_eq_iff_butlast)

lemma call_lockSafe [safe_intros]:
  assumes "\<And>ref force. c \<noteq> CallRmi ref force" "\<And>i force. c \<noteq> CallRm i force"
  shows "keeps (lockSafe env n) (call c answer)"
proof (rule call_keeps)
  fix calls
  assume "lockSafe env n calls"
  moreover have "allowedCall env calls c" using assms by (cases c) (auto simp: allowedCall_def)
  ultimately show "lockSafe env n (calls @ [c])" by (rule lockSafe_snoc)
qed

lemma isLocked_safe: "triple (lockSafe env n) (isLocked env name) (\<lambda>r calls. lockSafe env n calls \<and> (r = Inr False \<longrightarrow> justChecked env calls name))"
  unfolding triple_def
proof (intro allI impI)
  fix calls calls' r
  assume safe: "lockSafe env n calls" and run: "isLocked env name calls = (calls', r)"
  have "lockSafe env n (calls @ [CallAcquire name])" using safe by (rule lockSafe_snoc) (simp add: allowedCall_def)
  moreover from this have "lockSafe env n ((calls @ [CallAcquire name]) @ [CallRelease name])"
    by (rule lockSafe_snoc) (simp add: allowedCall_def)
  ultimately show "lockSafe env n calls' \<and> (r = Inr False \<longrightarrow> justChecked env calls' name)"
    using run by (auto simp: isLocked_def bindE_def call_def justChecked_def split: sum.splits if_splits)
qed

text \<open>A removal after a check of its lock.\<close>

lemma checked_removal:
  assumes "\<And>calls. justChecked env calls name \<Longrightarrow> allowedCall env calls c"
  shows "triple (\<lambda>calls. lockSafe env n calls \<and> (Inr ok = Inr False \<longrightarrow> justChecked env calls name))
    (if ok then retE x else bindE (attemptE (if dry then retE () else call c answer)) (\<lambda>r. retE (f r))) (\<lambda>_. lockSafe env n)"
proof -
  have "lockSafe env n (calls @ [c])" if "lockSafe env n calls" "justChecked env calls name" for calls
    using that by (intro lockSafe_snoc assms)
  then show ?thesis by (auto simp: triple_def bindE_def attemptE_def call_def split: if_splits)
qed

lemma removeTag_safe [safe_intros]: "keeps (lockSafe env n) (removeTag env options unRemoved ref)"
proof -
  have none: "keeps (lockSafe env n) (removeImageRef env noneRef options)"
    unfolding removeImageRef_def by (intro triple_intros call_keeps lockSafe_snoc) (simp_all add: allowedCall_def)
  have checked: "allowedCall env calls (CallRmi ref (Force options))" if "justChecked env calls (ImageLockName ref)" for calls
    using that by (simp add: allowedCall_def)
  show ?thesis
  proof (cases "ref = noneRef")
    case True
    then show ?thesis unfolding removeTag_def by simp (intro triple_intros none)
  next
    case False
    show ?thesis unfolding removeTag_def removeImageRef_def if_not_P [OF False]
      by (rule triple_bind [OF isLocked_safe]) (rule checked_removal [OF checked], simp_all)
  qed
qed

lemma removeDigest_safe: "untaggedDigest env ref \<Longrightarrow> keeps (lockSafe env n) (removeImageRef env ref options)"
  unfolding removeImageRef_def by (intro triple_intros call_keeps lockSafe_snoc) (simp_all add: allowedCall_def)

definition listedImage :: "hostEnv \<Rightarrow> Summary \<Rightarrow> bool" where
  "listedImage env img \<longleftrightarrow> (\<exists>tr filters imgs. onImages env tr filters = Inr imgs \<and> img \<in> set imgs)"

lemma removeImage_safe: "listedImage env img \<Longrightarrow> keeps (lockSafe env n) (removeImage env options rep img)"
  unfolding removeImage_def removeImageByRepoTags_def removeImageByRepoDigests_def
  by (intro triple_intros safe_intros removeDigest_safe) (auto simp: listedImage_def untaggedDigest_def)

lemma cleanupContainer_safe [safe_intros]:
  assumes "listedContainer env cont"
  shows "keeps (lockSafe env n) (cleanupContainer env options rep cont)"
proof -
  let ?name = "ContainerLockName (werfContainerName cont)"
  have "allowedCall env calls (CallRm (ContainerID cont) (Force options))" if "justChecked env calls ?name" for calls
    using that assms by (auto simp: allowedCall_def)
  note rule = checked_removal [OF this, where f = "\<lambda>r. case r of Inl _ \<Rightarrow> rep | Inr _ \<Rightarrow> rep\<lparr>ItemsDeleted := ItemsDeleted rep @ [ContainerID cont]\<rparr>"]
  have eq: "(case r of Inl _ \<Rightarrow> retE rep | Inr _ \<Rightarrow> retE y) = retE (case r of Inl _ \<Rightarrow> rep | Inr _ \<Rightarrow> y)" for r and y :: cleanupReport
    by (cases r) simp_all
  have "keeps (lockSafe env n) (bindE (isLocked env ?name) (\<lambda>ok. if ok then retE rep
      else bindE (attemptE (removeContainerRef env (ContainerID cont) options)) (\<lambda>r. case r of Inl _ \<Rightarrow> retE rep
        | Inr _ \<Rightarrow> retE (rep\<lparr>ItemsDeleted := ItemsDeleted rep @ [ContainerID cont]\<rparr>))))"
    unfolding eq removeContainerRef_def by (rule triple_bind [OF isLocked_safe]) (rule rule, simp_all)
  then show ?thesis unfolding cleanupContainer_def Let_def by (simp add: triple_ret)
qed

text \<open>An operation whose value was answered by the backend.\<close>

lemma imagesBy_listed: "imagesBy env filters calls = (calls', Inr imgs) \<Longrightarrow> img \<in> set imgs \<Longrightarrow> listedImage env img"
  by (auto simp: imagesBy_def call_def listedImage_def)

text \<open>The images a run works on are those the backend has listed, in the order of their last use.\<close>

lemma werfImages_listed:
  assumes perm: "\<And>xs. set (imageOrder env xs) = set xs" and run: "werfImages env calls = (calls', Inr imgs)"
  shows "\<forall>img \<in> set imgs. listedImage env img"
proof -
  obtain t1 t2 t3 images0 images1 images2 m where lists: "imagesBy env [DanglingFalse, (''label'', WerfLabel)] calls = (t1, Inr images0)"
      "imagesBy env [DanglingFalse, (''label'', WerfLabel), (''label'', ''werf-stage-signature'')] t1 = (t2, Inr images1)"
      "werfImagesByLastRun env t2 = (t3, Inr images2)"
    and imgs: "imgs = sort_key (lastUsedAt m) (imageOrder env (images0 @ images1 @ images2))"
    using run by (auto simp: werfImages_def werfImagesByLabels_def werfImagesByLegacyLabels_def bindE_Inr Let_def)
  have "listedImage env img" if "img \<in> set images2" for img
    using lists(3) that by (auto simp: werfImagesByLastRun_def bindE_Inr split: if_splits dest: imagesBy_listed)
  then show ?thesis using lists(1,2) by (auto simp: imgs perm dest: imagesBy_listed)
qed

lemma volumeUsage_safe [safe_intros]: "keeps (lockSafe env n) (volumeUsage env path)"
  unfolding volumeUsage_def by (intro safe_intros) simp_all

lemma werfImages_safe: "keeps (lockSafe env n) (werfImages env)"
  unfolding werfImages_def werfImagesByLabels_def werfImagesByLegacyLabels_def werfImagesByLastRun_def collectLastUsed_def
    maxLastUsedAtForImage_def imagesBy_def
  by (intro triple_intros safe_intros) simp_all

lemma cleanupWerfImages_safe [safe_intros]:
  assumes "\<And>xs. set (imageOrder env xs) = set xs"
  shows "keeps (lockSafe env n) (cleanupWerfImages env options vu target)"
  unfolding cleanupWerfImages_def
proof (rule triple_bind)
  show "triple (lockSafe env n) (werfImages env)
      (\<lambda>r calls. lockSafe env n calls \<and> (\<forall>imgs. r = Inr imgs \<longrightarrow> (\<forall>img \<in> set imgs. listedImage env img)))"
    using werfImages_safe [of env n] werfImages_listed [OF assms] by (fastforce simp: triple_def)
  fix imgs
  show "triple (\<lambda>calls. lockSafe env n calls \<and> (\<forall>imgs'. Inr imgs = Inr imgs' \<longrightarrow> (\<forall>img \<in> set imgs'. listedImage env img)))
      (bindE (cleanLoop env options target imgs 0 vu emptyReport) (\<lambda>rep. retE (Normalize rep))) (\<lambda>_. lockSafe env n)"
  proof (cases "\<forall>img \<in> set imgs. listedImage env img")
    case True
    then have "keeps (lockSafe env n) (bindE (cleanLoop env options target imgs 0 vu emptyReport) (\<lambda>rep. retE (Normalize rep)))"
      by (intro triple_intros cleanLoop_keeps removeImage_safe safe_intros) blast
    then show ?thesis by (rule triple_weaken) simp_all
  qed (auto simp: triple_def)
qed simp

lemma containers_safe [safe_intros]: "keeps (lockSafe env n) (cleanupWerfContainers env options vu)"
proof -
  have "triple (lockSafe env n) (werfContainersByContainersOptions env [])
      (\<lambda>r calls. lockSafe env n calls \<and> (\<forall>cs. r = Inr cs \<longrightarrow> (\<forall>cont \<in> set cs. listedContainer env cont)))"
    by (auto simp: triple_def werfContainersByContainersOptions_def Let_def call_def listedContainer_def allowedCall_def intro: lockSafe_snoc)
  moreover have "keeps (lockSafe env n) (bindE (foldE (cleanupContainer env options) emptyReport cs) (\<lambda>rep.
      if length cs > 0 then bindE (volumeUsage env (StoragePath options)) (\<lambda>vuAfter.
        retE (Normalize (rep\<lparr>SpaceReclaimed := monus (UsedBytes vu) (UsedBytes vuAfter)\<rparr>))) else retE (Normalize rep)))"
    if "\<forall>cont \<in> set cs. listedContainer env cont" for cs
    using that by (intro triple_intros safe_intros) simp_all
  ultimately show ?thesis
    unfolding cleanupWerfContainers_def by (elim triple_bind) (auto simp: triple_def)
qed

lemma RunGC_safe [safe_intros]:
  assumes "\<And>xs. set (imageOrder env xs) = set xs"
  shows "keeps (lockSafe env n) (RunGC env options)"
  unfolding RunGC_def backendStoragePath_def measureReclaimedSpace_def pruneVolumes_def pruneImages_def
  by (intro triple_intros safe_intros assms) simp_all

section \<open>Images in the order of their last use\<close>

definition refsOf :: "Summary \<Rightarrow> string set" where
  "refsOf img = set (RepoTags img) \<union> set (RepoDigests img)"

text \<open>The usages measured during some calls.\<close>

fun measured :: "hostEnv \<Rightarrow> hostCall list \<Rightarrow> hostCall list \<Rightarrow> uint64 list" where
  "measured env before [] = []"
| "measured env before (c # cs) =
     (case c of CallVolumeUsage path \<Rightarrow> (case onVolumeUsage env before path of Inr vu \<Rightarrow> [UsedBytes vu] | Inl _ \<Rightarrow> []) | _ \<Rightarrow> []) @
     measured env (before @ [c]) cs"

lemma measured_append: "measured env before (xs @ ys) = measured env before xs @ measured env (before @ xs) ys"
  by (induction xs arbitrary: before) simp_all

definition isMeasurement :: "hostCall \<Rightarrow> bool" where
  "isMeasurement c \<longleftrightarrow> (\<exists>path. c = CallVolumeUsage path)"

lemma measured_none: "list_all (\<lambda>c. \<not> isMeasurement c) xs \<Longrightarrow> measured env before xs = []"
  by (induction xs arbitrary: before) (auto simp: isMeasurement_def split: hostCall.splits)

text \<open>The reasons to stop: the target is reached, or the last measurement shows no progress.\<close>

definition stopped :: "uint64 \<Rightarrow> uint64 list \<Rightarrow> bool" where
  "stopped target usages \<longleftrightarrow> last usages \<le> target \<or> length usages \<ge> 2 \<and> usages ! (length usages - 2) \<le> last usages"

definition removalOf :: "Summary set \<Rightarrow> hostCall \<Rightarrow> bool" where
  "removalOf imgs c \<longleftrightarrow> (\<forall>ref force. c = CallRmi ref force \<longrightarrow> (\<exists>img \<in> imgs. ref \<in> refsOf img))"

definition batchCall :: "Summary set \<Rightarrow> hostCall \<Rightarrow> bool" where
  "batchCall imgs c \<longleftrightarrow> \<not> isMeasurement c \<and> removalOf imgs c"

lemma removeImageRef_batch:
  "img \<in> imgs \<Longrightarrow> ref \<in> refsOf img \<Longrightarrow> keeps (onlyCalls (batchCall imgs) b) (removeImageRef env ref options)"
  unfolding removeImageRef_def by (intro triple_intros) (auto simp: batchCall_def isMeasurement_def removalOf_def)

lemma isLocked_batch: "keeps (onlyCalls (batchCall imgs) b) (isLocked env name)"
  unfolding isLocked_def by (intro triple_intros) (auto simp: batchCall_def isMeasurement_def removalOf_def)

lemma removeImage_batch: "img \<in> imgs \<Longrightarrow> keeps (onlyCalls (batchCall imgs) b) (removeImage env options rep img)"
  unfolding removeImage_def removeImageByRepoTags_def removeImageByRepoDigests_def removeTag_def
  by (intro triple_intros isLocked_batch removeImageRef_batch [of img]) (simp_all add: refsOf_def)

lemma removeImage_items:
  "removeImage env options rep img calls = (calls', Inr rep') \<Longrightarrow>
   rep' = rep \<or> rep' = rep\<lparr>ItemsDeleted := ItemsDeleted rep @ [ImageID img]\<rparr>"
  by (auto simp: removeImage_def bindE_Inr split: if_splits)

lemma removeImages_items:
  "foldE (removeImage env options) rep imgs calls = (calls', Inr rep') \<Longrightarrow>
   \<exists>ids. rep' = rep\<lparr>ItemsDeleted := ItemsDeleted rep @ ids\<rparr> \<and> set ids \<subseteq> ImageID ` set imgs"
proof (induction imgs arbitrary: rep calls)
  case (Cons img imgs)
  then obtain rep1 calls1 where "removeImage env options rep img calls = (calls1, Inr rep1)"
    and rest: "foldE (removeImage env options) rep1 imgs calls1 = (calls', Inr rep')" by (auto simp: bindE_Inr)
  note one = removeImage_items [OF this(1)]
  from Cons.IH [OF rest] obtain ids where "rep' = rep1\<lparr>ItemsDeleted := ItemsDeleted rep1 @ ids\<rparr>" "set ids \<subseteq> ImageID ` set imgs"
    by blast
  with one show ?case
    by (elim disjE) (intro exI [of _ ids] exI [of _ "ImageID img # ids"], auto)+
qed (auto intro: exI [of _ "[]"])

lemma removeImages_calls:
  assumes "foldE (removeImage env options) rep imgs calls = (calls', r)"
  shows "\<exists>more. calls' = calls @ more \<and> list_all (batchCall (set imgs)) more"
proof -
  have "keeps (onlyCalls (batchCall (set imgs)) calls) (foldE (removeImage env options) rep imgs)"
    by (intro triple_intros removeImage_batch)
  from tripleD [OF this _ assms] show ?thesis by (simp add: onlyCalls_def)
qed

lemma removalOf_measurement [simp]: "removalOf imgs (CallVolumeUsage path)"
  by (simp add: removalOf_def)

lemma removalOf_mono: "imgs \<subseteq> imgs' \<Longrightarrow> removalOf imgs c \<Longrightarrow> removalOf imgs' c"
  unfolding removalOf_def by blast

lemma stopped_Cons: "us \<noteq> [] \<Longrightarrow> stopped target us \<Longrightarrow> stopped target (u # us)"
  by (cases us rule: rev_cases; cases "butlast us" rule: rev_cases) (auto simp: stopped_def nth_append)

lemma batchEnd_bound: "i \<le> length imgs \<Longrightarrow> batchEnd imgs i freed toFree \<le> length imgs"
  by (induction imgs i freed toFree rule: batchEnd.induct) (subst batchEnd.simps, simp)

lemma batchEnd_above: "i \<le> batchEnd imgs i freed toFree"
  by (induction imgs i freed toFree rule: batchEnd.induct) (subst batchEnd.simps, auto dest: Suc_leD)

lemma batchEnd_step: "i < length imgs \<Longrightarrow> freed < toFree \<Longrightarrow> i < batchEnd imgs i freed toFree"
  using batchEnd_above [of "i + 1" imgs "freed + of_int (ImageSize (imgs ! i))" toFree] by (simp add: batchEnd.simps [of imgs i])

lemma countImagesToFree_last: "countImagesToFree imgs i toFree = Some n \<Longrightarrow> n < length imgs"
  using batchEnd_bound [of i imgs 0 toFree] by (auto simp: countImagesToFree_def split: if_splits)

lemma drop_take_mono: "i \<le> i' \<Longrightarrow> k \<le> k' \<Longrightarrow> x \<in> set (drop i' (take k xs)) \<Longrightarrow> x \<in> set (drop i (take k' xs))"
  using set_drop_subset_set_drop [of i i' "take k xs"] set_take_subset_set_take [OF diff_le_mono, of k k' i "drop i xs"]
  by (auto simp: drop_take)

lemma cleanLoop_spec:
  assumes "cleanLoop env options target imgs i vu rep calls = (calls', Inr rep')" "i \<le> length imgs"
  shows "\<exists>k more. i \<le> k \<and> k \<le> length imgs \<and> calls' = calls @ more \<and> list_all (removalOf (set (drop i (take k imgs)))) more \<and>
    set (ItemsDeleted rep') \<subseteq> set (ItemsDeleted rep) \<union> ImageID ` set (drop i (take k imgs)) \<and>
    (k < length imgs \<longrightarrow> stopped target (UsedBytes vu # measured env calls more))"
  using assms
proof (induction env options target imgs i vu rep arbitrary: calls rule: cleanLoop.induct)
  case (1 env options target imgs i vu rep)
  show ?case
  proof (cases "countImagesToFree imgs i (monus (UsedBytes vu) target)")
    case None
    then have "calls' = calls" "rep' = rep" using "1.prems"(1) by (simp_all add: cleanLoop.simps)
    moreover have "i < length imgs \<longrightarrow> UsedBytes vu \<le> target" using None by (auto simp: countImagesToFree_def split: if_splits)
    ultimately show ?thesis using "1.prems"(2) by (intro exI [of _ i] exI [of _ "[]"]) (auto simp: stopped_def)
  next
    case (Some n)
    have n: "i \<le> n" "n < length imgs" using Some countImagesToFree_last [OF Some] by (auto dest: countImagesToFree_bounds)
    obtain rep1 t1 vu1 where fold: "foldE (removeImage env options) rep (batch imgs i n) calls = (t1, Inr rep1)"
      and vu1: "onVolumeUsage env t1 (StoragePath options) = Inr vu1"
      and rest: "(if UsedBytes vu1 \<ge> UsedBytes vu then retE rep1
        else cleanLoop env options target imgs (n + 1) vu1 (rep1\<lparr>SpaceReclaimed := SpaceReclaimed rep1 + (UsedBytes vu - UsedBytes vu1)\<rparr>))
        (t1 @ [CallVolumeUsage (StoragePath options)]) = (calls', Inr rep')"
      using "1.prems"(1) by (subst (asm) cleanLoop.simps) (auto simp: Some bindE_Inr volumeUsage_def call_def)
    obtain m1 where m1: "t1 = calls @ m1" "list_all (batchCall (set (batch imgs i n))) m1" using removeImages_calls [OF fold] by blast
    obtain ids where ids: "rep1 = rep\<lparr>ItemsDeleted := ItemsDeleted rep @ ids\<rparr>" "set ids \<subseteq> ImageID ` set (batch imgs i n)"
      using removeImages_items [OF fold] by blast
    have b: "batch imgs i n = drop i (take (Suc n) imgs)" by (simp add: batch_def)
    have quietly: "measured env calls m1 = []" using m1(2) by (intro measured_none) (auto simp: batchCall_def list_all_iff)
    have removals: "list_all (removalOf (set (drop i (take (Suc n) imgs)))) m1" using m1(2) by (auto simp: batchCall_def b list_all_iff)
    let ?call = "CallVolumeUsage (StoragePath options)"
    have usage: "measured env calls (m1 @ ?call # xs) = UsedBytes vu1 # measured env (calls @ m1 @ [?call]) xs" for xs
      using vu1 by (simp add: measured_append quietly m1(1))
    show ?thesis
    proof (cases "UsedBytes vu1 \<ge> UsedBytes vu")
      case True
      then have "calls' = calls @ m1 @ [?call]" "rep' = rep1" using rest m1(1) by simp_all
      then show ?thesis using n ids removals True usage [of "[]"]
        by (intro exI [of _ "Suc n"] exI [of _ "m1 @ [?call]"]) (auto simp: b stopped_def)
    next
      case False
      let ?rep2 = "rep1\<lparr>SpaceReclaimed := SpaceReclaimed rep1 + (UsedBytes vu - UsedBytes vu1)\<rparr>"
      have run: "cleanLoop env options target imgs (n + 1) vu1 ?rep2 (t1 @ [?call]) = (calls', Inr rep')" using rest False by simp
      from "1.IH" [OF Some _ this] False n obtain k m2 where k: "Suc n \<le> k" "k \<le> length imgs" and
        m2: "calls' = (t1 @ [?call]) @ m2" "list_all (removalOf (set (drop (Suc n) (take k imgs)))) m2"
          "set (ItemsDeleted rep') \<subseteq> set (ItemsDeleted ?rep2) \<union> ImageID ` set (drop (Suc n) (take k imgs))"
          "k < length imgs \<longrightarrow> stopped target (UsedBytes vu1 # measured env (t1 @ [?call]) m2)" by auto
      have sub: "set (drop i (take (Suc n) imgs)) \<subseteq> set (drop i (take k imgs))" "set (drop (Suc n) (take k imgs)) \<subseteq> set (drop i (take k imgs))"
        using k n drop_take_mono [of i i "Suc n" k _ imgs] drop_take_mono [of i "Suc n" k k _ imgs] by auto
      have "list_all (removalOf (set (drop i (take k imgs)))) (m1 @ ?call # m2)"
        using removals m2(2) removalOf_mono [OF sub(1)] removalOf_mono [OF sub(2)] by (auto simp: list_all_iff)
      moreover have "set (ItemsDeleted rep') \<subseteq> set (ItemsDeleted rep) \<union> ImageID ` set (drop i (take k imgs))"
        using m2(3) ids(2) image_mono [OF sub(1), of ImageID] image_mono [OF sub(2), of ImageID] by (simp add: ids(1) b) blast
      ultimately show ?thesis using k n m2(1,4) m1(1) usage [of m2] stopped_Cons
        by (intro exI [of _ k] exI [of _ "m1 @ ?call # m2"]) auto
    qed
  qed
qed

lemma werfImages_sorted:
  assumes perm: "\<And>xs. mset (imageOrder env xs) = mset xs" and run: "werfImages env calls = (calls', Inr imgs)"
  shows "\<exists>images before used. collectLastUsed env images before = (calls', Inr used) \<and> mset images = mset imgs \<and> sorted (map (lastUsedAt used) imgs)"
proof -
  obtain images before used where "collectLastUsed env images before = (calls', Inr used)"
    and imgs: "imgs = sort_key (lastUsedAt used) (imageOrder env images)"
    using run by (auto simp: werfImages_def bindE_Inr Let_def)
  moreover have "mset images = mset imgs" using perm by (simp add: imgs)
  ultimately show ?thesis by fastforce
qed

section \<open>Sizes of batches\<close>

definition sizesOf :: "Summary list \<Rightarrow> nat list" where
  "sizesOf imgs = map (nat \<circ> ImageSize) imgs"

lemma batchEnd_spec:
  assumes "\<forall>img \<in> set imgs. 0 \<le> ImageSize img" "freed = of_nat f" "f + sum_list (sizesOf (drop i imgs)) < 2 ^ 64"
  shows "i \<le> batchEnd imgs i freed toFree \<and>
    (i < batchEnd imgs i freed toFree \<longrightarrow> f + sum_list (sizesOf (drop i (take (batchEnd imgs i freed toFree - 1) imgs))) < unat toFree) \<and>
    (batchEnd imgs i freed toFree \<ge> length imgs \<or> unat toFree \<le> f + sum_list (sizesOf (drop i (take (batchEnd imgs i freed toFree) imgs))))"
  using assms
proof (induction imgs i freed toFree arbitrary: f rule: batchEnd.induct)
  case (1 imgs i freed toFree)
  have f: "unat freed = f" using "1.prems"(2,3) by (simp add: unat_of_nat take_bit_nat_eq_self_iff)
  show ?case
  proof (cases "i < length imgs \<and> freed < toFree")
    case True
    let ?g = "f + nat (ImageSize (imgs ! i))"
    let ?e = "batchEnd imgs (i + 1) (freed + of_int (ImageSize (imgs ! i))) toFree"
    have step: "batchEnd imgs i freed toFree = ?e" using True by (simp add: batchEnd.simps [of imgs i])
    have size: "sizesOf (drop i ys) = nat (ImageSize (ys ! i)) # sizesOf (drop (Suc i) ys)" if "i < length ys" for ys
      using that by (simp add: sizesOf_def Cons_nth_drop_Suc [symmetric])
    have "0 \<le> ImageSize (imgs ! i)" using True "1.prems"(1) by simp
    then have "freed + of_int (ImageSize (imgs ! i)) = of_nat ?g" using "1.prems"(2) by simp
    moreover have "?g + sum_list (sizesOf (drop (i + 1) imgs)) < 2 ^ 64" using "1.prems"(3) True by (simp add: size)
    ultimately have IH: "i + 1 \<le> ?e \<and> (i + 1 < ?e \<longrightarrow> ?g + sum_list (sizesOf (drop (i + 1) (take (?e - 1) imgs))) < unat toFree) \<and>
        (?e \<ge> length imgs \<or> unat toFree \<le> ?g + sum_list (sizesOf (drop (i + 1) (take ?e imgs))))"
      using "1.IH" True "1.prems"(1) by blast
    have ei: "i < length (take ?e imgs)" "i + 1 < ?e \<Longrightarrow> i < length (take (?e - 1) imgs)" using True IH by auto
    have "f + sum_list (sizesOf (drop i (take (?e - 1) imgs))) < unat toFree"
    proof (cases "i + 1 < ?e")
      case True
      then show ?thesis using IH size [OF ei(2) [OF True]] by simp
    next
      case False
      then have "drop i (take (?e - 1) imgs) = []" by simp
      then show ?thesis using f \<open>i < length imgs \<and> freed < toFree\<close> by (simp add: sizesOf_def word_less_nat_alt)
    qed
    then show ?thesis using IH size [OF ei(1)] unfolding step by auto
  next
    case False
    then have "batchEnd imgs i freed toFree = i" by (subst batchEnd.simps) auto
    then show ?thesis using False f by (auto simp: word_less_nat_alt)
  qed
qed

section \<open>Properties of the garbage collection\<close>

text \<open>C8: A run of the garbage collection removes an image reference only right after its lock was found free, or if it is
  the reference of an intermediate image or the digest of an image without tags, and a container only right after
  the lock of its name was found free. This holds whether the run succeeds or fails.\<close>

theorem gc_respects_locks:
  assumes "\<forall>xs. set (imageOrder env xs) = set xs" and "RunGC env options calls = (before @ c # after, r)" and "length calls \<le> length before"
  shows "case c of
      CallRmi ref _ \<Rightarrow> ref = noneRef \<or> justChecked env before (ImageLockName ref) \<or> untaggedDigest env ref
    | CallRm i _ \<Rightarrow> (\<exists>cont. listedContainer env cont \<and> ContainerID cont = i \<and>
        justChecked env before (ContainerLockName (werfContainerName cont)))
    | _ \<Rightarrow> True"
proof -
  have "lockSafe env (length calls) calls" by (auto simp: lockSafe_def)
  with RunGC_safe have "lockSafe env (length calls) (before @ c # after)" using assms(1,2) by (meson tripleD)
  then have "allowedCall env before c" using assms(3) by (auto simp: lockSafe_def)
  then show ?thesis by (simp only: allowedCall_def)
qed

text \<open>The cleanup of images works on the werf images in the order of their last use: the images it tries to remove are the
  first \<open>k\<close> of them, so that each was last used no later than each of the others. If it leaves images, the usage has
  come down to the target or the last batch has freed nothing.\<close>

theorem gc_least_recently_used:
  assumes "\<forall>xs. mset (imageOrder env xs) = mset xs" and run: "cleanupWerfImages env options vu target calls = (calls', Inr rep)"
  shows "\<exists>imgs images t calls1 used k more. werfImages env calls = (calls1, Inr imgs) \<and> mset images = mset imgs \<and>
    collectLastUsed env images t = (calls1, Inr used) \<and> calls' = calls1 @ more \<and> k \<le> length imgs \<and>
    (\<forall>ref force. CallRmi ref force \<in> set more \<longrightarrow> (\<exists>img \<in> set (take k imgs). ref \<in> set (RepoTags img) \<union> set (RepoDigests img))) \<and>
    set (ItemsDeleted rep) \<subseteq> ImageID ` set (take k imgs) \<and>
    (\<forall>i j. i < k \<longrightarrow> k \<le> j \<longrightarrow> j < length imgs \<longrightarrow> lastUsedAt used (imgs ! i) \<le> lastUsedAt used (imgs ! j)) \<and>
    (k < length imgs \<longrightarrow> stopped target (UsedBytes vu # measured env calls1 more))"
proof -
  obtain imgs calls1 rep1 where imgs: "werfImages env calls = (calls1, Inr imgs)"
    and loop: "cleanLoop env options target imgs 0 vu emptyReport calls1 = (calls', Inr rep1)" and rep: "rep = Normalize rep1"
    using run by (auto simp: cleanupWerfImages_def bindE_Inr)
  obtain images t used where used: "collectLastUsed env images t = (calls1, Inr used)" "mset images = mset imgs" "sorted (map (lastUsedAt used) imgs)"
    using werfImages_sorted [OF _ imgs] assms(1) by blast
  have order: "lastUsedAt used (imgs ! i) \<le> lastUsedAt used (imgs ! j)" if "i < j" "j < length imgs" for i j
    using sorted_nth_mono [OF used(3), of i j] that by simp
  obtain k more where k: "k \<le> length imgs" "calls' = calls1 @ more" "list_all (removalOf (set (take k imgs))) more"
      "set (ItemsDeleted rep1) \<subseteq> ImageID ` set (take k imgs)" "k < length imgs \<longrightarrow> stopped target (UsedBytes vu # measured env calls1 more)"
    using cleanLoop_spec [OF loop] by (auto simp: emptyReport_def)
  have "set (ItemsDeleted rep) \<subseteq> ImageID ` set (take k imgs)" using k(4) by (auto simp: rep Normalize_def emptyReport_def split: if_splits)
  moreover have "\<forall>ref force. CallRmi ref force \<in> set more \<longrightarrow> (\<exists>img \<in> set (take k imgs). ref \<in> set (RepoTags img) \<union> set (RepoDigests img))"
    using k(3) by (auto simp: list_all_iff removalOf_def refsOf_def)
  moreover have "\<forall>i j. i < k \<longrightarrow> k \<le> j \<longrightarrow> j < length imgs \<longrightarrow> lastUsedAt used (imgs ! i) \<le> lastUsedAt used (imgs ! j)"
    using order by simp
  ultimately show ?thesis using imgs used(1,2) k(1,2,5) by blast
qed

text \<open>A batch is as small as possible: without its last image it would not free what is needed, and with it, it does, unless
  it extends to the end of the list.\<close>

theorem gc_batch_minimal:
  assumes "\<forall>img \<in> set imgs. 0 \<le> ImageSize img" "sum_list (sizesOf imgs) < 2 ^ 64" "countImagesToFree imgs startIndex bytesToFree = Some n"
  shows "startIndex \<le> n \<and> n < length imgs \<and> sum_list (sizesOf (drop startIndex (take n imgs))) < unat bytesToFree \<and>
    (n + 1 = length imgs \<or> unat bytesToFree \<le> sum_list (sizesOf (batch imgs startIndex n)))"
proof -
  let ?e = "batchEnd imgs startIndex 0 bytesToFree"
  have pos: "bytesToFree \<noteq> 0" "startIndex < length imgs" and n: "n = max (?e - 1) startIndex"
    using assms(3) by (auto simp: countImagesToFree_def split: if_splits)
  have "sum_list (sizesOf imgs) = sum_list (sizesOf (take startIndex imgs)) + sum_list (sizesOf (drop startIndex imgs))"
    by (metis append_take_drop_id map_append sizesOf_def sum_list_append)
  then have spec: "startIndex \<le> ?e \<and> (startIndex < ?e \<longrightarrow> sum_list (sizesOf (drop startIndex (take (?e - 1) imgs))) < unat bytesToFree) \<and>
      (?e \<ge> length imgs \<or> unat bytesToFree \<le> sum_list (sizesOf (drop startIndex (take ?e imgs))))"
    using batchEnd_spec [of imgs 0 0 startIndex bytesToFree] assms(1,2) by simp
  have "startIndex < ?e"
    using pos batchEnd_step [of startIndex imgs 0 bytesToFree] by (simp add: word_neq_0_conv)
  then have "n = ?e - 1" "?e = n + 1" using n by auto
  then show ?thesis using spec \<open>startIndex < ?e\<close> batchEnd_bound [of startIndex imgs 0 bytesToFree] pos by (auto simp: batch_def)
qed

section \<open>Instances\<close>

definition sampleImage :: "string \<Rightarrow> int \<Rightarrow> Summary" where
  "sampleImage name t = \<lparr>ImageID = name, RepoTags = [name], RepoDigests = [], SummaryLabels = [], Created = t, ImageSize = 30\<rparr>"

text \<open>Three images of size 30 on a volume with 100 bytes in use; each removal frees 30.\<close>

definition sampleGC :: hostEnv where
  "sampleGC = idleHost\<lparr>onStat := (\<lambda>_ path. Inr \<lparr>fileName = path, fileMode = Directory, ModTime = 0, FileSize = 0\<rparr>),
     onImages := (\<lambda>_ filters. Inr (if filters = [DanglingFalse, (''label'', WerfLabel)] then [sampleImage ''a'' 3, sampleImage ''b'' 1, sampleImage ''c'' 2] else [])),
     onVolumeUsage := (\<lambda>calls _. Inr \<lparr>UsedBytes = 100 - 30 * of_nat (length (filter (\<lambda>c. case c of CallRmi _ _ \<Rightarrow> True | _ \<Rightarrow> False) calls)), TotalBytes = 200\<rparr>)\<rparr>"

definition sampleGCOptions :: RunGCOptions where
  "sampleGCOptions = \<lparr>AllowedStorageVolumeUsageBytes = 60, AllowedStorageVolumeUsageMarginBytes = 10, StoragePath = ''/s'', Force = False, DryRun = False\<rparr>"

lemma sample_order: "imageOrder sampleGC xs = xs"
  by (simp add: sampleGC_def idleHost_def)

definition sampleRunBefore :: "hostCall list" where
  "sampleRunBefore = [CallStat ''/s'', CallVolumeUsage ''/s'', CallPruneVolumes, CallVolumeUsage ''/s'',
     CallPruneImages [DanglingTrue, (''label'', WerfLabel), (''until'', ''15m'')], CallVolumeUsage ''/s'',
     CallContainers [ByName StageContainerNamePrefix, ByName ImportServerContainerNamePrefix], CallVolumeUsage ''/s'',
     CallImages [DanglingFalse, (''label'', WerfLabel)], CallImages [DanglingFalse, (''label'', WerfLabel), (''label'', ''werf-stage-signature'')],
     CallLastRunAt, CallLastAccessTime ''a'', CallLastAccessTime ''b'', CallLastAccessTime ''c'',
     CallAcquire ''image.b'', CallRelease ''image.b'']"

definition sampleRunAfter :: "hostCall list" where
  "sampleRunAfter = [CallAcquire ''image.c'', CallRelease ''image.c'', CallRmi ''c'' False, CallVolumeUsage ''/s'', CallVolumeUsage ''/s'']"

lemma sampleGC_run: "fst (RunGC sampleGC sampleGCOptions []) = sampleRunBefore @ CallRmi ''b'' False # sampleRunAfter"
  by code_simp

theorem gc_respects_locks_witness:
  "''b'' = noneRef \<or> justChecked sampleGC sampleRunBefore (ImageLockName ''b'') \<or> untaggedDigest sampleGC ''b''"
proof -
  have "RunGC sampleGC sampleGCOptions [] = (sampleRunBefore @ CallRmi ''b'' False # sampleRunAfter, snd (RunGC sampleGC sampleGCOptions []))"
    by (simp flip: sampleGC_run)
  from gc_respects_locks [OF _ this] show ?thesis by (simp add: sample_order)
qed

definition sampleUsage :: VolumeUsage where
  "sampleUsage = \<lparr>UsedBytes = 100, TotalBytes = 200\<rparr>"

theorem gc_least_recently_used_witness:
  "\<exists>imgs k. snd (werfImages sampleGC []) = Inr imgs \<and> k \<le> length imgs \<and>
     ItemsDeleted (projr (snd (cleanupWerfImages sampleGC sampleGCOptions sampleUsage 50 []))) = [''b'', ''c''] \<and>
     {''b'', ''c''} \<subseteq> ImageID ` set (take k imgs)"
proof -
  let ?run = "cleanupWerfImages sampleGC sampleGCOptions sampleUsage 50 []"
  have ok: "\<not> isl (snd ?run)" and items: "ItemsDeleted (projr (snd ?run)) = [''b'', ''c'']" by code_simp+
  from gc_least_recently_used [OF _ result_Inr [OF ok]] obtain imgs k calls1 where "werfImages sampleGC [] = (calls1, Inr imgs)"
      "k \<le> length imgs" "set (ItemsDeleted (projr (snd ?run))) \<subseteq> ImageID ` set (take k imgs)"
    by (auto simp: sample_order)
  then show ?thesis unfolding items by (intro exI [of _ imgs] exI [of _ k]) simp
qed

theorem gc_batch_minimal_witness:
  "sum_list (sizesOf (drop 0 (take 1 [sampleImage ''a'' 1, sampleImage ''b'' 2, sampleImage ''c'' 3]))) < unat (40 :: uint64)"
proof -
  let ?imgs = "[sampleImage ''a'' 1, sampleImage ''b'' 2, sampleImage ''c'' 3]"
  have "\<forall>img \<in> set ?imgs. 0 \<le> ImageSize img" "sum_list (sizesOf ?imgs) < 2 ^ 64" by (simp_all add: sampleImage_def sizesOf_def)
  moreover have "countImagesToFree ?imgs 0 40 = Some 1" by code_simp
  ultimately show ?thesis using gc_batch_minimal [of ?imgs 0 40 1] by simp
qed

text \<open>An image with both the current and the legacy label is listed twice, and a dry run counts it twice.\<close>

lemma legacy_images_listed_twice:
  "let env = sampleGC\<lparr>onImages := (\<lambda>_ filters. Inr (if (''dangling'', ''false'') \<in> set filters \<and> (''label'', WerfLabel) \<in> set filters then [sampleImage ''a'' 1] else []))\<rparr>
   in map_sum (\<lambda>e. e) ItemsDeleted (snd (cleanupWerfImages env (sampleGCOptions\<lparr>DryRun := True\<rparr>) sampleUsage 50 [])) = Inr [''a'', ''a'']"
  by code_simp

text \<open>An intermediate image is removed by the reference that stands for no name, not by its ID.\<close>

lemma intermediate_image_reference:
  "fst (removeImageByRepoTags sampleGC sampleGCOptions ((sampleImage ''a'' 1)\<lparr>RepoTags := [noneRef]\<rparr>) []) = [CallRmi ''<none>:<none>'' False]"
  by code_simp

end
