(* ===== verification/HostProps.thy ===== *)
theory HostProps
  imports HostPolicy LocalGCProps
begin

text \<open>
  What the cleanup and the purge of the host may do: nothing in a dry run, no removal of temporary files before their time,
  no removal of images that are new or in use, and no more than the failures of the parts in the result.
\<close>

section \<open>Dry runs\<close>

abbreviation silent :: "hostCall list \<Rightarrow> hostCall list \<Rightarrow> bool" where
  "silent \<equiv> follows (\<lambda>_ c. \<not> changesHost c)"

lemma RunGC_silent: "DryRun options \<Longrightarrow> keeps (silent b) (RunGC env options)"
  unfolding follows_onlyCalls [abs_def] by (rule RunGC_quiet)

lemma runGCForPaths_silent: "keeps (silent b) (runGCForPaths env True remove paths)"
  unfolding runGCForPaths_def by (intro triple_intros) simp_all

lemma tmp_RunGC_silent: "keeps (silent b) (tmp_RunGC env True remove)"
  unfolding tmp_RunGC_def by (intro triple_intros policy_intros runGCForPaths_silent)

lemma git_RunGC_silent: "gitDryRun options \<Longrightarrow> keeps (silent b) (git_RunGC env options)"
  by (rule quietGC.git_RunGC_follows) simp_all

lemma RunHostCleanup_silent:
  assumes "HostDryRun options"
  shows "keeps (silent b) (RunHostCleanup env backendType background options)"
proof -
  have "keeps (silent b) (cleanupTmp env options)"
    unfolding cleanupTmp_def using assms by (intro triple_intros) (simp add: tmp_RunGC_silent)
  moreover have "keeps (silent b) (cleanupGit env options vu)" for vu
    unfolding cleanupGit_def using assms by (intro triple_intros git_RunGC_silent) simp
  moreover have "keeps (silent b) (cleanupBackend env options)"
    unfolding cleanupBackend_def using assms by (intro triple_intros policy_intros RunGC_silent) simp
  ultimately show ?thesis
    unfolding RunHostCleanup_def cleanupLocks_def leaveNotice_def failMaybe_def using assms by (intro triple_intros policy_intros) simp_all
qed

lemma processUsedImages_silent: "CommonDryRun options \<Longrightarrow> keeps (silent b) (processUsedImages env images options)"
  unfolding processUsedImages_def containersRemove_def usedImage_def by (intro triple_intros policy_intros) simp_all

lemma HostPurge_silent: "keeps (silent b) (HostPurge env backendType True rmContainers)"
  unfolding HostPurge_def FlushContainers_def containersRemove_def FlushImages_def werfImagesFlushByFilterSet_def
    imagesRemove_def imageReferencesRemove_def tmp_purge_def PurgeWerfHomeFiles_def PurgeStapelFiles_def
  by (intro triple_intros policy_intros processUsedImages_silent) (simp_all add: runGCForPaths_silent)

text \<open>C9: In a dry run neither the cleanup nor the purge of the host makes a call that changes the host.\<close>

theorem dry_run_changes_nothing:
  assumes "HostDryRun options"
  shows "(\<exists>m. fst (RunHostCleanup env backendType background options calls) = calls @ m \<and> list_all (\<lambda>c. \<not> changesHost c) m) \<and>
    (\<exists>m. fst (HostPurge env backendType True rmContainers calls) = calls @ m \<and> list_all (\<lambda>c. \<not> changesHost c) m)"
proof -
  have "\<exists>m'. fst (m calls) = calls @ m' \<and> list_all (\<lambda>c. \<not> changesHost c) m'" if "keeps (silent calls) m" for m :: "unit host"
    using tripleD [OF that follows_refl, of "fst (m calls)" "snd (m calls)"] by (simp add: follows_onlyCalls onlyCalls_def)
  then show ?thesis using RunHostCleanup_silent [OF assms] HostPurge_silent by blast
qed

section \<open>Temporary files\<close>

text \<open>A path that was seen in one of the directories of the collector and was older than its time to keep, or the target of a link
  there that was.\<close>

definition expired :: "hostEnv \<Rightarrow> string \<Rightarrow> bool" where
  "expired env path \<longleftrightarrow> (\<exists>item \<in> set (gcPathList env). \<exists>name info calls link.
     link = PathJoin [gcPathPath item, name] \<and> (namePattern item = [] \<or> matchStar (namePattern item) name) \<and>
     onLstat env calls link = Inr info \<and> keepingTime item \<le> timeSince (onNow env (calls @ [CallLstat link])) (ModTime info) \<and>
     (path = link \<or> followSymlinks item \<and> fileMode info = Symlink \<and> (\<exists>calls2. onReadlink env calls2 link = Inr path)))"

definition tmpAllowed :: "hostEnv \<Rightarrow> hostCall list \<Rightarrow> hostCall \<Rightarrow> bool" where
  "tmpAllowed env calls c \<longleftrightarrow>
     (case c of
        CallRemoveAll path \<Rightarrow> expired env path
      | CallRemoveProjectDir path \<Rightarrow> expired env path \<and> isProjectTmpDir path
      | _ \<Rightarrow> \<not> changesHost c)"

interpretation tmpCalls: host_policy "tmpAllowed env" for env
  by unfold_locales (auto simp: tmpAllowed_def split: hostCall.split)

definition allExpired :: "hostEnv \<Rightarrow> pathLists \<Rightarrow> bool" where
  "allExpired env found \<longleftrightarrow> (\<forall>path \<in> set (fst found) \<union> set (snd found). expired env path)"

lemma followLink_cases:
  "followLink env link found calls = (calls', Inr found') \<Longrightarrow>
   found' = found \<or> (\<exists>path calls2. onReadlink env calls2 link = Inr path \<and> found' = (fst found @ [path], snd found))"
  by (auto simp: followLink_def ifExists_def bindE_Inr attemptE_iff call_def split: if_splits sum.splits)

lemma listEntry_expired:
  assumes "item \<in> set (gcPathList env)" "allExpired env found" and run: "listEntry env item dirInfo found entry calls = (calls', Inr found')"
  shows "allExpired env found'"
proof -
  let ?link = "PathJoin [gcPathPath item, fileName entry]"
  consider "found' = found"
    | info where "namePattern item = [] \<or> matchStar (namePattern item) (fileName entry)" "onLstat env calls ?link = Inr info"
        "keepingTime item \<le> timeSince (onNow env (calls @ [CallLstat ?link])) (ModTime info)"
        "found' = (fst found @ [?link], snd found) \<or> fileMode info = Symlink \<and> (found' = (fst found, snd found @ [?link]) \<or>
           followSymlinks item \<and> (\<exists>calls1 calls2. followLink env ?link (fst found, snd found @ [?link]) calls1 = (calls2, Inr found')))"
    using run by (auto simp: listEntry_def ifExists_def bindE_Inr attemptE_iff call_def Let_def not_less split: if_splits sum.splits)
  then show ?thesis
  proof cases
    case 1
    then show ?thesis using assms(2) by simp
  next
    case (2 info)
    have link: "expired env ?link" using 2(1-3) assms(1) unfolding expired_def by blast
    have target: "expired env path" if "onReadlink env calls2 ?link = Inr path" "followSymlinks item" "fileMode info = Symlink" for path calls2
      using 2(1-3) assms(1) that unfolding expired_def by blast
    show ?thesis using 2(4) link target assms(2) by (auto simp: allExpired_def dest!: followLink_cases)
  qed
qed

lemma collectPaths_expired:
  "computes (follows (tmpAllowed env) b) (collectPaths env) (allExpired env) (\<lambda>_. True)"
proof -
  have entry: "computes (follows (tmpAllowed env) b) (listEntry env item dirInfo found entry) (allExpired env) (\<lambda>_. True)"
    if "item \<in> set (gcPathList env)" "allExpired env found" for item dirInfo found entry
    by (rule computes_values [OF tmpCalls.listEntry_follows listEntry_expired [OF that]])
  have stat: "computes (follows (tmpAllowed env) b) (attemptE (call c answer)) (\<lambda>_. True) (\<lambda>_. True)" if "\<not> changesHost c" for c and answer :: "hostCall list \<Rightarrow> hostError + 'z"
    using that by (intro keeps_computes triple_intros policy_intros)
  have read: "computes (follows (tmpAllowed env) b) (call c answer) (\<lambda>_. True) (\<lambda>_. True)" if "\<not> changesHost c" for c and answer :: "hostCall list \<Rightarrow> hostError + 'z"
    using that by (intro keeps_computes policy_intros)
  have "computes (follows (tmpAllowed env) b) (listDirAndFollowSymlinks env item) (allExpired env) (\<lambda>_. True)"
    if "item \<in> set (gcPathList env)" for item
    unfolding listDirAndFollowSymlinks_def ifExists_def Let_def
    by (intro computes_bind [OF stat] computes_bind [OF read] computes_intros computes_fold entry that) (simp_all add: allExpired_def)
  note list = computes_bind [OF this]
  show ?thesis unfolding collectPaths_def
    by (intro computes_fold computes_intros list) (auto simp: allExpired_def)
qed

text \<open>The removal of a project directory, as the cleanup of the host passes it to the collector.\<close>

abbreviation projectRemover :: "hostEnv \<Rightarrow> string \<Rightarrow> unit host" where
  "projectRemover env \<equiv> \<lambda>path. call (CallRemoveProjectDir path) (\<lambda>tr. onRemoveProjectDir env tr path)"

lemma runGCForPaths_tmp:
  assumes "\<forall>path \<in> set paths. expired env path" "remove = None \<or> remove = Some (projectRemover env)"
  shows "keeps (follows (tmpAllowed env) b) (runGCForPaths env dryRun remove paths)"
proof -
  have "keeps (follows (tmpAllowed env) b) (call (CallRemoveAll path) (\<lambda>tr. onRemoveAll env tr path))" if "path \<in> set paths" for path
    by (rule call_follows) (use that assms(1) in \<open>simp add: tmpAllowed_def\<close>)
  moreover have "keeps (follows (tmpAllowed env) b) (projectRemover env path)" if "path \<in> set paths" "isProjectTmpDir path" for path
    by (rule call_follows) (use that assms(1) in \<open>simp add: tmpAllowed_def\<close>)
  ultimately show ?thesis unfolding runGCForPaths_def using assms(2) by (intro triple_intros) auto
qed

lemma keepLink_subset:
  assumes "keepLink env failed kept link s = (s', Inr res)"
  shows "set res \<subseteq> insert link (set kept)"
proof -
  obtain r :: "hostError + string" where "res = (case r of Inl _ \<Rightarrow> kept @ [link] | Inr target \<Rightarrow> if target \<in> set failed then kept else kept @ [link])"
    using assms unfolding keepLink_def bindE_Inr retE_apply by blast
  then show ?thesis by (cases r) auto
qed

lemma keepLinks_subset: "foldE (keepLink env failed) kept links s = (s', Inr res) \<Longrightarrow> set res \<subseteq> set kept \<union> set links"
proof (induction links arbitrary: kept s)
  case (Cons link links)
  from Cons.prems obtain kept1 s1 where "keepLink env failed kept link s = (s1, Inr kept1)" "foldE (keepLink env failed) kept1 links s1 = (s', Inr res)"
    by (auto simp: bindE_Inr)
  with Cons.IH [OF this(2)] keepLink_subset [OF this(1)] show ?case by auto
qed simp

lemma tmp_RunGC_tmp: "keeps (follows (tmpAllowed env) b) (tmp_RunGC env dryRun (Some (projectRemover env)))"
proof -
  have links: "computes (follows (tmpAllowed env) b) (foldE (keepLink env failed) [] paths) (\<lambda>res. set res \<subseteq> set paths) (\<lambda>_. True)" for failed paths
    by (rule computes_values) (use keepLinks_subset in \<open>fastforce intro: triple_intros policy_intros\<close>)+
  have gc: "computes (follows (tmpAllowed env) b) (runGCForPaths env dryRun remove paths) (\<lambda>_. True) (\<lambda>_. True)"
    if "\<forall>path \<in> set paths. expired env path" "remove = None \<or> remove = Some (projectRemover env)" for remove paths
    using that by (intro keeps_computes runGCForPaths_tmp)
  have "computes (follows (tmpAllowed env) b) (tmp_RunGC env dryRun (Some (projectRemover env))) (\<lambda>_. True) (\<lambda>_. True)"
    unfolding tmp_RunGC_def
    by (intro computes_bind [OF collectPaths_expired] computes_bind [OF gc] computes_bind [OF links] computes_intros)
      (auto simp: allExpired_def)
  then show ?thesis by (rule computes_keeps)
qed

text \<open>C27: The collection of temporary files, dry or not, removes only paths that it has seen in one of its directories under a matching
  name and with an age of at least the time to keep, or the targets of such links where it follows links. Only project
  directories are removed in the way of the backend, and nothing else on the host is changed.\<close>

theorem tmp_gc_respects_age:
  "\<exists>m. fst (tmp_RunGC env dryRun (Some (projectRemover env)) calls) = calls @ m \<and>
     (\<forall>c \<in> set m. case c of
        CallRemoveAll path \<Rightarrow> expired env path
      | CallRemoveProjectDir path \<Rightarrow> expired env path \<and> isProjectTmpDir path
      | _ \<Rightarrow> \<not> changesHost c)"
  using follows_run [OF tmp_RunGC_tmp] unfolding tmpAllowed_def by blast

section \<open>Images of the purge\<close>

lemma exceptImages: "foldl exceptImage images excluded = filter (\<lambda>img. img \<notin> set excluded) images"
proof (induction excluded arbitrary: images)
  case (Cons img excluded)
  then show ?case by (auto simp: exceptImage_def intro: filter_cong)
qed simp

text \<open>What is to be done about an image that a container uses: nothing, with the image excluded, or the removal of the container.\<close>

definition settled :: "CommonOptions \<Rightarrow> Summary list \<times> Container list \<Rightarrow> Container \<Rightarrow> Summary \<Rightarrow> bool" where
  "settled options acc container img \<longleftrightarrow> (ImageID img = ContainerImageID container \<longrightarrow>
     (if SkipUsedImages options then img \<in> set (fst acc) else RmContainersThatUseWerfImages options \<and> container \<in> set (snd acc)))"

definition extends :: "'a list \<times> 'b list \<Rightarrow> 'a list \<times> 'b list \<Rightarrow> bool" where
  "extends acc acc' \<longleftrightarrow> set (fst acc) \<subseteq> set (fst acc') \<and> set (snd acc) \<subseteq> set (snd acc')"

lemma settled_extends: "settled options acc container img \<Longrightarrow> extends acc acc' \<Longrightarrow> settled options acc' container img"
  by (auto simp: settled_def extends_def split: if_splits)

lemma usedImage_spec:
  "usedImage options container acc img s = (s', Inr acc') \<Longrightarrow> s' = s \<and> extends acc acc' \<and> settled options acc' container img"
  by (cases acc) (auto simp: usedImage_def settled_def extends_def split: if_splits)

lemma usedImages_spec:
  "foldE (usedImage options container) acc images s = (s', Inr acc') \<Longrightarrow>
   s' = s \<and> extends acc acc' \<and> (\<forall>img \<in> set images. settled options acc' container img)"
proof (induction images arbitrary: acc s)
  case (Cons img images)
  then obtain acc1 s1 where "usedImage options container acc img s = (s1, Inr acc1)" "foldE (usedImage options container) acc1 images s1 = (s', Inr acc')"
    by (auto simp: bindE_Inr)
  with usedImage_spec [OF this(1)] Cons.IH [OF this(2)] show ?case
    by (auto simp: extends_def intro: settled_extends)
qed (auto simp: extends_def)

lemma usedByContainers_spec:
  "foldE (\<lambda>acc container. foldE (usedImage options container) acc images) acc containers s = (s', Inr acc') \<Longrightarrow>
   s' = s \<and> extends acc acc' \<and> (\<forall>container \<in> set containers. \<forall>img \<in> set images. settled options acc' container img)"
proof (induction containers arbitrary: acc s)
  case (Cons container containers)
  then obtain acc1 s1 where "foldE (usedImage options container) acc images s = (s1, Inr acc1)"
      "foldE (\<lambda>acc container. foldE (usedImage options container) acc images) acc1 containers s1 = (s', Inr acc')"
    by (auto simp: bindE_Inr)
  with usedImages_spec [OF this(1)] Cons.IH [OF this(2)] show ?case
    by (auto simp: extends_def intro: settled_extends)
qed (auto simp: extends_def)

lemma containersRemove_spec:
  assumes "containersRemove env containers options s = (s', Inr ())"
  shows "s' = s @ (if CommonDryRun options then [] else map (\<lambda>c. CallRm (ContainerID c) (RmForce options)) containers)"
  using assms unfolding containersRemove_def
  by (cases "CommonDryRun options") (auto simp: foldE_skip dest: foldE_calls)

lemma freshImages_spec:
  "freshImages env excluded images s = (s', Inr excluded') \<Longrightarrow> (\<exists>m. s' = s @ m) \<and> set excluded \<subseteq> set excluded' \<and>
   (\<forall>img \<in> set images. img \<notin> set excluded' \<longrightarrow> (\<exists>tr m. s' = tr @ m \<and> hours 3 \<le> timeSince (onNow env tr) (Created img)))"
proof (induction images arbitrary: excluded s)
  case (Cons img images)
  let ?excluded = "if timeSince (onNow env s) (Created img) < hours 3 then excluded @ [img] else excluded"
  have "freshImages env ?excluded images (s @ [CallNow]) = (s', Inr excluded')"
    using Cons.prems by (auto simp: freshImages_def bindE_Inr call_def)
  from Cons.IH [OF this] obtain m where "s' = (s @ [CallNow]) @ m" "set ?excluded \<subseteq> set excluded'"
      "\<forall>img \<in> set images. img \<notin> set excluded' \<longrightarrow> (\<exists>tr m. s' = tr @ m \<and> hours 3 \<le> timeSince (onNow env tr) (Created img))"
    by blast
  then show ?case by (auto simp: not_less split: if_splits)
qed (simp add: freshImages_def)

lemma imageReferencesRemove_spec:
  assumes "imageReferencesRemove env refs options s = (s', r)"
  shows "\<exists>k. s' = s @ (if CommonDryRun options then [] else map (\<lambda>ref. CallRmi ref (RmiForce options)) (take k refs))"
  using assms unfolding imageReferencesRemove_def
  by (cases "CommonDryRun options") (auto simp: foldE_skip dest: foldE_calls)

lemma processUsedImages_spec:
  assumes run: "processUsedImages env images options s = (s', Inr res)" and "img \<in> set res"
  shows "img \<in> set images \<and> (\<exists>m. s' = s @ m) \<and> (\<exists>tr m. s' = tr @ m \<and> hours 3 \<le> timeSince (onNow env tr) (Created img)) \<and>
    (\<exists>containers. onContainers env s (map (\<lambda>img. ByAncestor (ImageID img)) images) = Inr containers \<and>
      (\<forall>container \<in> set containers. ContainerImageID container = ImageID img \<longrightarrow> RmContainersThatUseWerfImages options \<and>
        (CommonDryRun options \<or> CallRm (ContainerID container) (RmForce options) \<in> set s')))"
proof -
  let ?filters = "map (\<lambda>img. ByAncestor (ImageID img)) images"
  let ?s1 = "s @ [CallContainers ?filters]"
  obtain containers excluded removed excluded' s1 s2 where answer: "onContainers env s ?filters = Inr containers"
    and used: "foldE (\<lambda>acc container. foldE (usedImage options container) acc images) ([], []) containers ?s1 = (s1, Inr (excluded, removed))"
    and rm: "containersRemove env removed options s1 = (s2, Inr ())" and fresh: "freshImages env excluded images s2 = (s', Inr excluded')"
    and res: "res = foldl exceptImage images excluded'"
    using run by (auto simp: processUsedImages_def Let_def bindE_Inr call_def)
  have s1: "s1 = ?s1" using usedByContainers_spec [OF used] by simp
  have img: "img \<in> set images" "img \<notin> set excluded'" using assms(2) by (auto simp: res exceptImages)
  have fresh': "(\<exists>m. s' = s2 @ m)" "set excluded \<subseteq> set excluded'" "\<exists>tr m. s' = tr @ m \<and> hours 3 \<le> timeSince (onNow env tr) (Created img)"
    using freshImages_spec [OF fresh] img by auto
  have "RmContainersThatUseWerfImages options \<and> (CommonDryRun options \<or> CallRm (ContainerID container) (RmForce options) \<in> set s')"
    if "container \<in> set containers" "ContainerImageID container = ImageID img" for container
  proof -
    have "settled options (excluded, removed) container img" using usedByContainers_spec [OF used] that(1) img(1) by blast
    then have "RmContainersThatUseWerfImages options" "container \<in> set removed"
      using that(2) img(2) fresh'(2) by (auto simp: settled_def split: if_splits)
    then show ?thesis using fresh'(1) containersRemove_spec [OF rm] by (auto split: if_splits)
  qed
  then show ?thesis using img(1) fresh'(1,3) answer containersRemove_spec [OF rm] s1 by auto
qed

definition isRmi :: "hostCall \<Rightarrow> bool" where
  "isRmi c \<longleftrightarrow> (\<exists>ref force. c = CallRmi ref force)"

lemma processUsedImages_calls: "keeps (onlyCalls (\<lambda>c. \<not> isRmi c) b) (processUsedImages env images options)"
  unfolding processUsedImages_def usedImage_def containersRemove_def freshImages_def
  by (intro triple_intros) (simp_all add: isRmi_def)

lemma split_after: "before @ x # after = xs @ ys \<Longrightarrow> x \<notin> set xs \<Longrightarrow> \<exists>m. before = xs @ m \<and> ys = m @ x # after"
proof (induction xs arbitrary: before)
  case (Cons y xs)
  then show ?case by (cases before) auto
qed simp

text \<open>The removal of an image reference comes after all the rest.\<close>

lemma flush_cases:
  assumes run: "werfImagesFlushByFilterSet env filters options calls = (calls @ before @ CallRmi ref force # after, r)"
  obtains images res s k where "onImages env calls filters = Inr images" "processUsedImages env images options (calls @ [CallImages filters]) = (s, Inr res)"
    "\<not> CommonDryRun options" "\<exists>m. calls @ before = s @ m" "ref \<in> set (concat (map imageReferences res))"
proof (cases "onImages env calls filters")
  case (Inl e)
  then show ?thesis using run by (simp add: werfImagesFlushByFilterSet_def imagesBy_def bindE_def call_def append_eq_Cons_conv Cons_eq_append_conv)
next
  case (Inr images)
  obtain s r1 where used: "processUsedImages env images options (calls @ [CallImages filters]) = (s, r1)" by fastforce
  have "onlyCalls (\<lambda>c. \<not> isRmi c) (calls @ [CallImages filters]) s"
    by (rule tripleD [OF processUsedImages_calls onlyCalls_refl used])
  then obtain m where s: "s = calls @ CallImages filters # m" and m: "list_all (\<lambda>c. \<not> isRmi c) m" by (auto simp: onlyCalls_def)
  have rmi: "CallRmi ref force \<notin> set (CallImages filters # m)" using m by (auto simp: list_all_iff isRmi_def)
  show ?thesis
  proof (cases r1)
    case (Inl e)
    then have "before @ CallRmi ref force # after = CallImages filters # m"
      using run used Inr s by (simp add: werfImagesFlushByFilterSet_def imagesBy_def bindE_def call_def)
    then have False using rmi by (metis in_set_conv_decomp)
    then show ?thesis ..
  next
    case (Inr res)
    let ?refs = "concat (map imageReferences res)"
    have "imagesRemove env res options s = (calls @ before @ CallRmi ref force # after, r)"
      using run used Inr \<open>onImages env calls filters = Inr images\<close> by (simp add: werfImagesFlushByFilterSet_def imagesBy_def bindE_def call_def)
    then obtain k where k: "calls @ before @ CallRmi ref force # after = s @ (if CommonDryRun options then [] else map (\<lambda>ref. CallRmi ref (RmiForce options)) (take k ?refs))"
      using imageReferencesRemove_spec unfolding imagesRemove_def by blast
    let ?calls = "if CommonDryRun options then [] else map (\<lambda>ref. CallRmi ref (RmiForce options)) (take k ?refs)"
    have "before @ CallRmi ref force # after = (CallImages filters # m) @ ?calls" using k by (simp add: s)
    from split_after [OF this rmi] obtain m' where "before = (CallImages filters # m) @ m'" and rest: "?calls = m' @ CallRmi ref force # after"
      by blast
    then have "\<exists>m. calls @ before = s @ m" by (simp add: s)
    moreover have "CallRmi ref force \<in> set ?calls" unfolding rest by simp
    ultimately show ?thesis using that \<open>onImages env calls filters = Inr images\<close> used Inr by (auto split: if_splits dest: in_set_takeD)
  qed
qed

text \<open>C26: The purge removes an image reference only if it belongs to an image the backend has listed that was at least three hours
  old by the clock; and if a container uses the image, only when the removal of such containers is asked for, and after the
  container has been removed. This holds whether the purge succeeds or fails.\<close>

theorem purge_spares_fresh_and_used:
  assumes run: "werfImagesFlushByFilterSet env filters options calls = (calls @ before @ CallRmi ref force # after, r)"
  shows "\<exists>images img containers. onImages env calls filters = Inr images \<and> img \<in> set images \<and> ref \<in> set (imageReferences img) \<and>
    (\<exists>tr m. calls @ before = tr @ m \<and> hours 3 \<le> timeSince (onNow env tr) (Created img)) \<and>
    onContainers env (calls @ [CallImages filters]) (map (\<lambda>img. ByAncestor (ImageID img)) images) = Inr containers \<and>
    (\<forall>container \<in> set containers. ContainerImageID container = ImageID img \<longrightarrow>
      RmContainersThatUseWerfImages options \<and> CallRm (ContainerID container) (RmForce options) \<in> set (calls @ before))"
proof -
  obtain images res s where images: "onImages env calls filters = Inr images"
    and used: "processUsedImages env images options (calls @ [CallImages filters]) = (s, Inr res)"
    and dry: "\<not> CommonDryRun options" and s: "\<exists>m. calls @ before = s @ m" and ref: "ref \<in> set (concat (map imageReferences res))"
    using flush_cases [OF run] by metis
  obtain img where img: "img \<in> set res" "ref \<in> set (imageReferences img)" using ref by auto
  note spec = processUsedImages_spec [OF used img(1)]
  obtain tr m where tr: "s = tr @ m" "hours 3 \<le> timeSince (onNow env tr) (Created img)" using spec by blast
  obtain containers where containers: "onContainers env (calls @ [CallImages filters]) (map (\<lambda>img. ByAncestor (ImageID img)) images) = Inr containers"
      "\<And>container. container \<in> set containers \<Longrightarrow> ContainerImageID container = ImageID img \<Longrightarrow> RmContainersThatUseWerfImages options \<and>
        CallRm (ContainerID container) (RmForce options) \<in> set s"
    using spec dry by blast
  have "\<exists>tr m. calls @ before = tr @ m \<and> hours 3 \<le> timeSince (onNow env tr) (Created img)" using s tr by (metis append_assoc)
  moreover have "set s \<subseteq> set (calls @ before)" using s by (metis Un_upper1 set_append)
  ultimately show ?thesis using images img spec containers by blast
qed

section \<open>Failures\<close>

lemma cleanupLocks_ok: "snd (cleanupLocks env options s) = Inr ()"
  by (auto simp: cleanupLocks_def bindE_def attemptE_def split: prod.splits sum.splits)

lemma joinedWith_is:
  "errorsIs (joinedWith gitErr e) target \<longleftrightarrow> errorsIs e target \<or> (\<exists>g. gitErr = Some g \<and> errorsIs g target)"
  by (auto simp: joinedWith_def split: option.splits)

lemma notice_spec:
  assumes "leaveNotice env background options rep s = (s', r)"
  shows "r = Inr () \<and> (\<exists>m. s' = s @ m \<and> set m \<subseteq> {CallWriteNotice})"
  using assms by (auto simp: leaveNotice_def writeAutoCleanupNotice_def bindE_def attemptE_def call_def split: if_splits)

text \<open>A failure of the garbage collection of the git caches does not keep the backend from being cleaned up: with a supported backend, the
  cleanup of the backend is run after it in any case, and nothing but the notice follows. The whole succeeds only
  if both do, and its error is an instance of each error of the two.\<close>

theorem host_cleanup_reports_all:
  assumes "backendType \<noteq> containerBackendTest" and tmp: "cleanupTmp env options calls = (s1, Inr ())"
    and usage: "volumeUsage env (localCacheDir env) (fst (cleanupLocks env options s1)) = (s3, Inr vu)"
    and git: "cleanupGit env options vu s3 = (s4, Inr gitErr)" and backend: "cleanupBackend env options s4 = (s5, b)"
    and run: "RunHostCleanup env backendType background options calls = (calls', r)"
  shows "(\<exists>m. calls' = s5 @ m \<and> set m \<subseteq> {CallWriteNotice}) \<and> (r = Inr () \<longleftrightarrow> gitErr = None \<and> \<not> isl b) \<and>
    (\<forall>e target. gitErr = Some e \<or> b = Inl e \<longrightarrow> errorsIs e target \<longrightarrow> isl r \<and> errorsIs (projl r) target)"
proof -
  have type: "resolveContainerBackendType backendType = None" using assms(1) by (cases backendType) (simp_all add: resolveContainerBackendType_def)
  have locks: "cleanupLocks env options s1 = (fst (cleanupLocks env options s1), Inr ())" by (metis cleanupLocks_ok prod.collapse)
  have run: "bindE (mapErrorE (joinedWith gitErr) (cleanupBackend env options)) (\<lambda>gcReport.
      bindE (leaveNotice env background options gcReport) (\<lambda>_. failMaybe gitErr)) s4 = (calls', r)"
    using run unfolding RunHostCleanup_def bindE_step [of "cleanupTmp env options", OF tmp]
      bindE_step [of "cleanupLocks env options", OF locks] bindE_step [of "volumeUsage env (localCacheDir env)", OF usage]
      bindE_step [of "cleanupGit env options vu", OF git] type by simp
  show ?thesis
  proof (cases b)
    case (Inl e)
    then have "mapErrorE (joinedWith gitErr) (cleanupBackend env options) s4 = (s5, Inl (joinedWith gitErr e))"
      using backend by (simp add: mapErrorE_def)
    with run have "(calls', r) = (s5, Inl (joinedWith gitErr e))" by (simp add: bindE_stop)
    then have "r = Inl (joinedWith gitErr e)" "calls' = s5" by simp_all
    then show ?thesis using Inl by (auto simp: joinedWith_is)
  next
    case (Inr rep)
    then have ok: "mapErrorE (joinedWith gitErr) (cleanupBackend env options) s4 = (s5, Inr rep)"
      using backend by (simp add: mapErrorE_def)
    obtain s6 r6 where notice: "leaveNotice env background options rep s5 = (s6, r6)" by fastforce
    note s6 = notice_spec [OF notice]
    have "failMaybe gitErr s6 = (calls', r)"
      using run notice s6 by (simp add: bindE_step [of "mapErrorE (joinedWith gitErr) (cleanupBackend env options)", OF ok] bindE_step)
    then have "r = (case gitErr of None \<Rightarrow> Inr () | Some e \<Rightarrow> Inl e)" "calls' = s6"
      by (auto simp: failMaybe_def split: option.splits)
    then show ?thesis using Inr s6 by (auto split: option.splits)
  qed
qed

section \<open>Instances\<close>

definition sampleHost :: hostEnv where
  "sampleHost = sampleGC\<lparr>onReadDir := (\<lambda>_ _. Inr [])\<rparr>"

definition absoluteLimit :: "uint64 \<Rightarrow> UnitValue option" where
  "absoluteLimit n = Some \<lparr>Value = n, isAbsolute = True, isSI = True\<rparr>"

definition sampleHostOptions :: "bool \<Rightarrow> HostCleanupOptions" where
  "sampleHostOptions dry = \<lparr>BackendStoragePath = ''/s'', AllowedBackendStorageVolumeUsage = absoluteLimit 60,
     AllowedBackendStorageVolumeUsageMargin = absoluteLimit 10, AllowedLocalCacheVolumeUsage = None,
     AllowedLocalCacheVolumeUsageMargin = None, HostDryRun = dry, HostForce = False\<rparr>"

theorem dry_run_changes_nothing_witness:
  "(\<exists>m. fst (RunHostCleanup sampleHost containerBackendDocker True (sampleHostOptions True) []) = m \<and> list_all (\<lambda>c. \<not> changesHost c) m) \<and>
   \<not> list_all (\<lambda>c. \<not> changesHost c) (fst (RunHostCleanup sampleHost containerBackendDocker True (sampleHostOptions False) []))"
proof -
  have "HostDryRun (sampleHostOptions True)" by (simp add: sampleHostOptions_def)
  note dry = dry_run_changes_nothing [OF this, of sampleHost containerBackendDocker True "[]" True]
  have "\<not> list_all (\<lambda>c. \<not> changesHost c) (fst (RunHostCleanup sampleHost containerBackendDocker True (sampleHostOptions False) []))"
    by code_simp
  with dry show ?thesis by simp
qed

definition sampleTmp :: hostEnv where
  "sampleTmp = idleHost\<lparr>onStat := (\<lambda>_ path. Inr \<lparr>fileName = path, fileMode = Directory, ModTime = 0, FileSize = 0\<rparr>),
     onLstat := (\<lambda>_ path. Inr \<lparr>fileName = path, fileMode = Directory, ModTime = - (10 ^ 15), FileSize = 0\<rparr>),
     onReadDir := (\<lambda>_ dir. Inr (if dir = ''/tmp'' then [\<lparr>fileName = ''werf-1-project-data-2'', fileMode = Directory, ModTime = 0, FileSize = 0\<rparr>] else []))\<rparr>"

theorem tmp_gc_respects_age_witness: "expired sampleTmp ''/tmp/werf-1-project-data-2''"
proof -
  let ?run = "tmp_RunGC sampleTmp False (Some (projectRemover sampleTmp)) []"
  have "CallRemoveProjectDir ''/tmp/werf-1-project-data-2'' \<in> set (fst ?run)" by code_simp
  moreover obtain m where "fst ?run = m" "\<forall>c \<in> set m. case c of CallRemoveAll path \<Rightarrow> expired sampleTmp path
      | CallRemoveProjectDir path \<Rightarrow> expired sampleTmp path \<and> isProjectTmpDir path | _ \<Rightarrow> \<not> changesHost c"
    using tmp_gc_respects_age [of sampleTmp False "[]"] by auto
  ultimately show ?thesis by fastforce
qed

definition samplePurge :: hostEnv where
  "samplePurge = idleHost\<lparr>onImages := (\<lambda>_ _. Inr [sampleImage ''a'' 0, sampleImage ''b'' (- (10 ^ 15))])\<rparr>"

definition samplePurgeOptions :: CommonOptions where
  "samplePurgeOptions = \<lparr>RmForce = True, RmiForce = True, SkipUsedImages = False, RmContainersThatUseWerfImages = True, CommonDryRun = False\<rparr>"

theorem purge_spares_fresh_and_used_witness:
  "\<exists>img. ''b'' \<in> set (imageReferences img) \<and> (\<exists>tr. hours 3 \<le> timeSince (onNow samplePurge tr) (Created img))"
proof -
  let ?f = "[(''label'', WerfLabel)]"
  let ?run = "werfImagesFlushByFilterSet samplePurge ?f samplePurgeOptions []"
  let ?before = "[CallImages ?f, CallContainers [ByAncestor ''a'', ByAncestor ''b''], CallNow, CallNow]"
  have "fst ?run = [] @ ?before @ CallRmi ''b'' True # []" by code_simp
  then have "?run = ([] @ ?before @ CallRmi ''b'' True # [], snd ?run)" by (metis prod.collapse)
  from purge_spares_fresh_and_used [OF this] show ?thesis by blast
qed

text \<open>A container is removed for an image that is then spared because it is new.\<close>

lemma container_of_fresh_image_removed:
  "let env = samplePurge\<lparr>onContainers := (\<lambda>_ _. Inr [\<lparr>ContainerID = ''c'', ContainerImageID = ''a'', Names = []\<rparr>])\<rparr>;
       calls = fst (werfImagesFlushByFilterSet env [(''label'', WerfLabel)] samplePurgeOptions [])
   in CallRm ''c'' True \<in> set calls \<and> CallRmi ''a'' True \<notin> set calls"
  by code_simp

definition sampleLocked :: hostEnv where
  "sampleLocked = sampleHost\<lparr>onLockGC := (\<lambda>_ _. Inl (OtherError ''lock''))\<rparr>"

theorem host_cleanup_reports_all_witness:
  "let r = snd (RunHostCleanup sampleLocked containerBackendDocker False (sampleHostOptions False) [])
   in isl r \<and> errorsIs (projl r) (OtherError ''lock'')"
proof -
  let ?o = "sampleHostOptions False"
  let ?tmp = "cleanupTmp sampleLocked ?o []"
  let ?usage = "volumeUsage sampleLocked (localCacheDir sampleLocked) (fst (cleanupLocks sampleLocked ?o (fst ?tmp)))"
  let ?vu = "\<lparr>UsedBytes = 100, TotalBytes = 200\<rparr>"
  let ?git = "cleanupGit sampleLocked ?o ?vu (fst ?usage)"
  have "snd ?tmp = Inr ()" "snd ?usage = Inr ?vu" "snd ?git = Inr (Some (OtherError ''lock''))" by code_simp+
  then have runs: "?tmp = (fst ?tmp, Inr ())" "?usage = (fst ?usage, Inr ?vu)" "?git = (fst ?git, Inr (Some (OtherError ''lock'')))"
    by (metis prod.collapse)+
  let ?run = "RunHostCleanup sampleLocked containerBackendDocker False ?o []"
  have "\<forall>e target. Some (OtherError ''lock'') = Some e \<or> snd (cleanupBackend sampleLocked ?o (fst ?git)) = Inl e \<longrightarrow> errorsIs e target \<longrightarrow>
      isl (snd ?run) \<and> errorsIs (projl (snd ?run)) target"
    using host_cleanup_reports_all [OF _ runs, of containerBackendDocker "fst (cleanupBackend sampleLocked ?o (fst ?git))"
        "snd (cleanupBackend sampleLocked ?o (fst ?git))" False "fst ?run" "snd ?run"] by simp
  then show ?thesis by simp
qed

end
