(* ===== verification/HostLimits.thy ===== *)
theory HostLimits
  imports HostCleanup
begin

text \<open>
  The limits of the cleanup: percentages survive printing and parsing, and a percentage of a volume is computed without
  overflow on every volume of less than \<open>2 ^ 64 / 100\<close> bytes.
\<close>

section \<open>Decimal numbers\<close>

lemma runeParts_digits: "list_all isDigit s \<Longrightarrow> runeParts s = map (\<lambda>c. [c]) s"
  by (induction s) (auto simp: runeParts_ascii isDigit_def)

lemma digit_no_space: "isDigit c \<Longrightarrow> \<not> isSpacePart [c]"
  by (auto simp: isSpacePart_def decodeRune_def isDigit_def Let_def)

lemma TrimSpace_digits:
  assumes "list_all isDigit s"
  shows "TrimSpace s = s"
proof -
  have "dropWhile isSpacePart (map (\<lambda>c. [c]) t) = map (\<lambda>c. [c]) t" if "list_all isDigit t" for t
    using that by (cases t) (auto dest: digit_no_space)
  moreover have "list_all isDigit (rev s)" using assms by (simp add: list_all_iff)
  ultimately show ?thesis using assms by (simp add: TrimSpace_def runeParts_digits rev_map)
qed

lemma ParseUint64_fmtNat: "int n < 2 ^ 64 \<Longrightarrow> ParseUint64 (fmtNat n) = Some (of_nat n)"
  by (simp add: ParseUint64_def)

section \<open>Percentages\<close>

text \<open>A percentage passed on to the cleanup in the background as text is read back as the same percentage.\<close>

theorem percentage_roundtrip:
  assumes "\<not> isAbsolute u" "\<not> isSI u" "Value u \<le> 100"
  shows "ParseUnitValue hum (UnitValue_String hum u) = Inr u"
proof -
  let ?s = "fmtNat (unat (Value u))"
  have "uint (Value u) < 2 ^ 64" using uint_bounded [of "Value u"] by simp
  then have "ParseUint64 ?s = Some (Value u)" using ParseUint64_fmtNat [of "unat (Value u)"] by simp
  moreover have "TrimSpace ?s = ?s" "?s \<noteq> []" using fmtNat_digits TrimSpace_digits by auto
  moreover have "\<lparr>Value = Value u, isAbsolute = False, isSI = False\<rparr> = u" using assms(1,2) by (cases u) simp
  ultimately show ?thesis using assms by (simp add: ParseUnitValue_def UnitValue_String_def not_less)
qed

lemma ParseUnitValue_percentage: "ParseUnitValue hum s = Inr u \<Longrightarrow> \<not> isAbsolute u \<Longrightarrow> Value u \<le> 100"
  by (auto simp: ParseUnitValue_def Let_def not_less split: if_splits option.splits sum.splits)

lemma unat_percent:
  assumes "p \<le> 100" "unat volume * 100 < 2 ^ 64"
  shows "unat (volume * p div 100 :: uint64) = unat volume * unat p div 100"
proof -
  have "unat p \<le> 100" using assms(1) by (simp add: word_le_nat_alt)
  then have "unat volume * unat p < 2 ^ 64" using assms(2) by (meson le_less_trans mult_le_mono2)
  then show ?thesis by (simp add: unat_div_distrib unat_mult_lem [THEN iffD1])
qed

text \<open>A limit given as a percentage, or left to the default of 70 or 5 percent, is this share of the volume, rounded down, and not more
  than the volume.\<close>

theorem percentage_of_volume:
  assumes "\<forall>u. val = Some u \<longrightarrow> \<not> isAbsolute u \<and> (\<exists>s. ParseUnitValue hum s = Inr u)" "defaultPercent \<le> 100" "unat volume * 100 < 2 ^ 64"
  shows "unat (getRequirementInBytes val defaultPercent volume) = unat volume * unat (case val of Some u \<Rightarrow> Value u | None \<Rightarrow> defaultPercent) div 100 \<and>
    getRequirementInBytes val defaultPercent volume \<le> volume"
proof -
  let ?p = "case val of Some u \<Rightarrow> Value u | None \<Rightarrow> defaultPercent"
  have p: "?p \<le> 100" using assms(1,2) ParseUnitValue_percentage by (auto split: option.split)
  have "getRequirementInBytes val defaultPercent volume = volume * ?p div 100"
    using assms(1) by (auto simp: getRequirementInBytes_def ToBytes_def split: option.split)
  then have eq: "unat (getRequirementInBytes val defaultPercent volume) = unat volume * unat ?p div 100"
    using unat_percent [OF p assms(3)] by simp
  have "unat ?p \<le> 100" using p by (simp add: word_le_nat_alt)
  then have "unat volume * unat ?p div 100 \<le> unat volume" by (simp add: div_le_mono order.trans [OF div_le_mono [OF mult_le_mono2]])
  with eq show ?thesis by (simp add: word_le_nat_alt)
qed

section \<open>Instances\<close>

definition sampleHumanizer :: humanizer where
  "sampleHumanizer = \<lparr>ParseBytes = (\<lambda>_. Inl ''unit''), humanBytes = (\<lambda>_. ''1 B''), humanIBytes = (\<lambda>_. ''1 B'')\<rparr>"

definition seventy :: UnitValue where
  "seventy = \<lparr>Value = 70, isAbsolute = False, isSI = False\<rparr>"

theorem percentage_roundtrip_witness: "ParseUnitValue sampleHumanizer (UnitValue_String sampleHumanizer seventy) = Inr seventy"
  by (rule percentage_roundtrip) (simp_all add: seventy_def)

theorem percentage_of_volume_witness: "unat (getRequirementInBytes (Some seventy) 5 1001) = 700"
proof -
  have "ParseUnitValue sampleHumanizer ''70'' = Inr seventy" by code_simp
  then have "unat (getRequirementInBytes (Some seventy) 5 1001) =
      unat (1001 :: uint64) * unat (case Some seventy of Some u \<Rightarrow> Value u | None \<Rightarrow> 5) div 100"
    by (intro percentage_of_volume [of "Some seventy" sampleHumanizer 5 1001, THEN conjunct1]) (auto simp: seventy_def)
  then show ?thesis by (simp add: seventy_def)
qed

end
