(* ===== verification/GitGCProps.thy ===== *)
theory GitGCProps
  imports HostPolicy "HOL-Library.Sublist"
begin

text \<open>
  What the garbage collection of the git caches removes: only paths inside the cache directories; of the entries, none that was
  accessed within the last three hours, the others by rank and last access, and no more of them when enough is freed;
  of the cache versions, only old ones in which every file is stale.
\<close>

section \<open>Absolute paths\<close>

definition plainName :: "string \<Rightarrow> bool" where
  "plainName name \<longleftrightarrow> name \<noteq> [] \<and> name \<noteq> ''.'' \<and> name \<noteq> ''..'' \<and> CHR ''/'' \<notin> set name"

definition slashed :: "string list \<Rightarrow> string" where
  "slashed names = concat (map (\<lambda>name. CHR ''/'' # name) names)"

definition absPath :: "string list \<Rightarrow> string" where
  "absPath names = (if names = [] then ''/'' else slashed names)"

lemma slashed_simps [simp]: "slashed [] = []" "slashed (x # xs) = CHR ''/'' # x @ slashed xs" "slashed (xs @ ys) = slashed xs @ slashed ys"
  by (simp_all add: slashed_def)

lemma Join_slash: "''/'' @ Join names ''/'' = absPath names"
proof (cases names)
  case (Cons x xs)
  have "CHR ''/'' # Join (x # xs) ''/'' = slashed (x # xs)" by (induction xs arbitrary: x) simp_all
  then show ?thesis by (simp add: Cons absPath_def)
qed (simp add: absPath_def)

lemma SplitChar_slashed: "list_all plainName xs \<Longrightarrow> CHR ''/'' \<notin> set t \<Longrightarrow> SplitChar (x @ slashed xs @ CHR ''/'' # t) (CHR ''/'') = x # xs @ [t]"
  if "CHR ''/'' \<notin> set x" for x
  using that
proof (induction xs arbitrary: x)
  case Nil
  then show ?case by (simp add: SplitChar_append SplitChar_none)
next
  case (Cons y ys)
  then have "SplitChar (y @ slashed ys @ CHR ''/'' # t) (CHR ''/'') = y # ys @ [t]" by (simp add: plainName_def)
  then show ?case using Cons.prems by (simp add: SplitChar_append)
qed

lemma cleanStack_plain: "list_all plainName xs \<Longrightarrow> cleanStack rooted st (xs @ ys) = cleanStack rooted (rev xs @ st) ys"
  by (induction xs arbitrary: st) (auto simp: plainName_def)

text \<open>Cleaning of an absolute path with a last element that may be empty.\<close>

lemma Clean_slashed:
  assumes "list_all plainName xs" "t = [] \<or> plainName t"
  shows "Clean (slashed xs @ CHR ''/'' # t) = absPath (xs @ (if t = [] then [] else [t]))"
proof -
  have t: "CHR ''/'' \<notin> set t" using assms(2) by (auto simp: plainName_def)
  have split: "SplitChar (slashed xs @ CHR ''/'' # t) (CHR ''/'') = [] # xs @ [t]"
    using SplitChar_slashed [of "[]" xs t] assms(1) t by simp
  have "take 1 (slashed xs @ CHR ''/'' # t) = ''/''" by (cases xs) simp_all
  moreover have "cleanStack True [] ([] # xs @ [t]) = xs @ (if t = [] then [] else [t])"
    using assms by (auto simp: cleanStack_plain plainName_def)
  ultimately show ?thesis by (simp add: Clean_def split flip: Join_slash)
qed

lemma PathJoin_absPath:
  assumes "list_all plainName xs" "plainName name" "xs \<noteq> []"
  shows "PathJoin [absPath xs, name] = absPath (xs @ [name])"
proof -
  have "slashed xs \<noteq> []" using assms(3) by (cases xs) simp_all
  moreover have "name \<noteq> []" using assms(2) by (simp add: plainName_def)
  ultimately show ?thesis using Clean_slashed [of xs name] assms by (simp add: PathJoin_def absPath_def)
qed

lemma PathJoin_absPath3:
  assumes "list_all plainName xs" "plainName name" "plainName name2" "xs \<noteq> []"
  shows "PathJoin [absPath xs, name, name2] = absPath (xs @ [name, name2])"
proof -
  have "slashed xs \<noteq> []" using assms(4) by (cases xs) simp_all
  moreover have "name \<noteq> []" "name2 \<noteq> []" using assms(2,3) by (simp_all add: plainName_def)
  ultimately show ?thesis using Clean_slashed [of "xs @ [name]" name2] assms by (simp add: PathJoin_def absPath_def)
qed

lemma filepathDir_absPath:
  assumes "list_all plainName xs"
  shows "filepathDir (absPath xs) = absPath (butlast xs)"
proof (cases xs rule: rev_cases)
  case Nil
  then show ?thesis using Clean_slashed [of "[]" "[]"] by (simp add: filepathDir_def absPath_def)
next
  case (snoc ys y)
  have y: "\<forall>c \<in> set y. c \<noteq> CHR ''/''" using assms snoc by (auto simp: plainName_def)
  have "rev (dropWhile (\<lambda>c. c \<noteq> CHR ''/'') (rev (slashed ys @ CHR ''/'' # y))) = slashed ys @ [CHR ''/'']"
    using y by (simp add: dropWhile_append)
  then show ?thesis using Clean_slashed [of ys "[]"] assms snoc by (simp add: filepathDir_def absPath_def)
qed

section \<open>Paths that are removed\<close>

text \<open>The root of one of the caches, or a path below it.\<close>

definition insideCaches :: "string list \<Rightarrow> string \<Rightarrow> bool" where
  "insideCaches root path \<longleftrightarrow> (\<exists>cache \<in> fst ` set cacheVersions. \<exists>names. list_all plainName names \<and> path = absPath (root @ cache # names))"

lemma insideCachesI:
  "(cache, version) \<in> set cacheVersions \<Longrightarrow> list_all plainName names \<Longrightarrow> insideCaches root (absPath (root @ cache # names))"
  unfolding insideCaches_def by force

lemma insideCachesE:
  assumes "insideCaches root path"
  obtains cache version names where "(cache, version) \<in> set cacheVersions" "list_all plainName names" "path = absPath (root @ cache # names)"
  using assms unfolding insideCaches_def by fastforce

definition cacheAllowed :: "string list \<Rightarrow> hostCall list \<Rightarrow> hostCall \<Rightarrow> bool" where
  "cacheAllowed root calls c \<longleftrightarrow>
     (case c of CallRemoveAll path \<Rightarrow> insideCaches root path | CallRemove path \<Rightarrow> insideCaches root path | _ \<Rightarrow> \<not> changesHost c)"

interpretation cacheCalls: host_policy "cacheAllowed root" for root
  by unfold_locales (auto simp: cacheAllowed_def split: hostCall.split)

text \<open>What is assumed of the host: the names in a directory are plain, and \<^verbatim>\<open>IsSubpathOfBasePath\<close> holds only for paths below the base.\<close>

definition plainHost :: "hostEnv \<Rightarrow> bool" where
  "plainHost env \<longleftrightarrow>
     (\<forall>tr dir infos f. onReadDir env tr dir = Inr infos \<longrightarrow> f \<in> set infos \<longrightarrow> plainName (fileName f)) \<and>
     (\<forall>xs ys. list_all plainName xs \<longrightarrow> list_all plainName ys \<longrightarrow> isSubpath env (absPath xs) (absPath ys) \<longrightarrow> strict_prefix xs ys)"

lemma cacheNames_plain: "(cache, version) \<in> set cacheVersions \<Longrightarrow> plainName cache \<and> plainName version"
  by (auto simp: cacheVersions_def plainName_def)

lemma cache_policy:
  assumes root: "list_all plainName root" and host: "plainHost env"
  shows "removal_policy (cacheAllowed root) env dryRun plainName (\<lambda>path. \<exists>ys. list_all plainName ys \<and> path = absPath ys) (insideCaches root)"
proof unfold_locales
  fix dir name
  assume "insideCaches root dir" "plainName name"
  then obtain cache version names where cache: "(cache, version) \<in> set cacheVersions" "list_all plainName names" "dir = absPath (root @ cache # names)"
    by (auto elim: insideCachesE)
  have "PathJoin [dir, name] = absPath (root @ cache # names @ [name])"
    using root cache cacheNames_plain [OF cache(1)] \<open>plainName name\<close> PathJoin_absPath [of "root @ cache # names" name] by simp
  then show "insideCaches root (PathJoin [dir, name])" using cache(1,2) \<open>plainName name\<close> by (auto intro: insideCachesI)
next
  fix scope path
  assume "insideCaches root scope" "\<exists>ys. list_all plainName ys \<and> path = absPath ys" and sub: "isSubpath env scope path"
  then obtain cache version names ys where c: "(cache, version) \<in> set cacheVersions" "list_all plainName names" "scope = absPath (root @ cache # names)"
      "list_all plainName ys" "path = absPath ys"
    by (auto elim: insideCachesE)
  have "strict_prefix (root @ cache # names) ys" using host root c sub cacheNames_plain [OF c(1)] by (simp add: plainHost_def)
  then obtain zs where "ys = root @ cache # names @ zs" by (auto simp: strict_prefix_def prefix_def)
  then show "insideCaches root path" using c by (auto intro: insideCachesI)
next
  fix path
  assume "insideCaches root path"
  then obtain cache version names where "(cache, version) \<in> set cacheVersions" "list_all plainName names" "path = absPath (root @ cache # names)"
    by (auto elim: insideCachesE)
  then show "\<exists>ys. list_all plainName ys \<and> path = absPath ys" using root cacheNames_plain by (intro exI [of _ "root @ cache # names"]) auto
next
  fix path
  assume "\<exists>ys. list_all plainName ys \<and> path = absPath ys"
  then obtain ys where "list_all plainName ys" "path = absPath ys" by blast
  then show "\<exists>ys. list_all plainName ys \<and> filepathDir path = absPath ys"
    using filepathDir_absPath [of ys] by (auto simp: list_all_iff dest: in_set_butlastD)
next
  fix tr dir infos and f :: FileInfo
  assume "onReadDir env tr dir = Inr infos" "f \<in> set infos"
  then show "plainName (fileName f)" using host unfolding plainHost_def by blast
qed (simp_all add: plainName_def cacheAllowed_def)

lemma insideCaches_roots:
  assumes "list_all plainName root" "root \<noteq> []" "localCacheDir env = absPath root" "(cache, version) \<in> set cacheVersions"
  shows "insideCaches root (PathJoin [localCacheDir env, cache]) \<and> insideCaches root (versionRoot env cache version)"
proof -
  have plain: "plainName cache" "plainName version" using cacheNames_plain assms(4) by auto
  have "PathJoin [localCacheDir env, cache] = absPath (root @ [cache])" using assms plain by (simp add: PathJoin_absPath)
  moreover have "versionRoot env cache version = absPath (root @ [cache, version])" using assms plain by (simp add: versionRoot_def PathJoin_absPath3)
  ultimately show ?thesis using plain assms(4) by (auto intro: insideCachesI)
qed

text \<open>C10: The garbage collection of the git caches, whatever the host answers and whether it succeeds or fails, removes no path outside of the
  five cache directories in the local cache, and changes nothing else on the host.\<close>

theorem git_gc_stays_in_caches:
  assumes "localCacheDir env = absPath root" "list_all plainName root" "root \<noteq> []" "plainHost env"
  shows "\<exists>m. fst (git_RunGC env options calls) = calls @ m \<and>
    (\<forall>c \<in> set m. case c of CallRemoveAll path \<Rightarrow> insideCaches root path | CallRemove path \<Rightarrow> insideCaches root path | _ \<Rightarrow> \<not> changesHost c)"
proof -
  have "keeps (follows (cacheAllowed root) calls) (git_RunGC env options)"
    by (rule removal_policy.git_RunGC_follows [OF cache_policy]) (use assms insideCaches_roots in auto)
  from follows_run [OF this] show ?thesis unfolding cacheAllowed_def by blast
qed

section \<open>Stale cache versions\<close>

definition staleDir :: "hostEnv \<Rightarrow> string \<Rightarrow> bool" where
  "staleDir env path \<longleftrightarrow> (\<exists>calls infos. onWalk env calls path = Inr infos \<and>
     (\<forall>info \<in> set infos. fileMode info = RegularFile \<longrightarrow> (\<exists>calls2. hours 72 < timeSince (onNow env calls2) (ModTime info))))"

definition wipeAllowed :: "hostEnv \<Rightarrow> string \<Rightarrow> string list \<Rightarrow> hostCall list \<Rightarrow> hostCall \<Rightarrow> bool" where
  "wipeAllowed env root versions calls c \<longleftrightarrow>
     (case c of
        CallRemoveAll path \<Rightarrow> (\<exists>name. name \<notin> set versions \<and> path = PathJoin [root, name] \<and> staleDir env path)
      | _ \<Rightarrow> \<not> changesHost c)"

interpretation wipeCalls: host_policy "wipeAllowed env root versions" for env root versions
  by unfold_locales (auto simp: wipeAllowed_def split: hostCall.split)

lemma anyFresh_stale:
  "anyFresh env infos calls = (calls', Inr False) \<Longrightarrow> \<forall>info \<in> set infos. \<exists>calls2. hours 72 < timeSince (onNow env calls2) (ModTime info)"
proof (induction infos arbitrary: calls)
  case (Cons info infos)
  then have "hours 72 < timeSince (onNow env calls) (ModTime info)" "anyFresh env infos (calls @ [CallNow]) = (calls', Inr False)"
    by (auto simp: bindE_Inr call_def cacheVersionStalenessWindow_def split: if_splits)
  with Cons.IH show ?case by auto
qed simp

lemma hasFreshFiles_stale:
  assumes "hasFreshFiles env path calls = (calls', Inr False)"
  shows "staleDir env path"
proof -
  obtain infos calls1 where "onWalk env calls path = Inr infos"
      "anyFresh env (filter (\<lambda>info. fileMode info = RegularFile) infos) calls1 = (calls', Inr False)"
    using assms by (auto simp: hasFreshFiles_def bindE_Inr call_def)
  with anyFresh_stale [OF this(2)] show ?thesis unfolding staleDir_def by auto
qed

lemma wipeVersion_allowed: "keeps (follows (wipeAllowed env root versions) b) (wipeVersion env dryRun root versions u info)"
proof -
  let ?path = "PathJoin [root, fileName info]"
  have fresh: "computes (follows (wipeAllowed env root versions) b) (hasFreshFiles env ?path) (\<lambda>fresh. fresh \<or> staleDir env ?path) (\<lambda>_. True)"
    by (rule computes_values [OF wipeCalls.hasFreshFiles_follows]) (metis (full_types) hasFreshFiles_stale)
  have remove: "computes (follows (wipeAllowed env root versions) b) (removePath env dryRun ?path) (\<lambda>_. True) (\<lambda>_. True)"
    if "staleDir env ?path" "fileName info \<notin> set versions"
    unfolding removePath_def by (intro keeps_computes triple_intros call_follows) (use that in \<open>auto simp: wipeAllowed_def\<close>)
  have "computes (follows (wipeAllowed env root versions) b) (wipeVersion env dryRun root versions u info) (\<lambda>_. True) (\<lambda>_. True)"
    unfolding wipeVersion_def Let_def
    by (intro computes_intros computes_bind [OF computes_attempt [OF fresh]] remove) auto
  then show ?thesis by (rule computes_keeps)
qed

text \<open>Of the versions of a cache, the wipe removes only those that are not kept and in which every regular file was found unchanged for more
  than 72 hours. A version that cannot be examined is left.\<close>

theorem wipe_spares_versions_in_use:
  "\<exists>m. fst (wipeCacheDirs env dryRun root versions calls) = calls @ m \<and>
     (\<forall>c \<in> set m. case c of
        CallRemoveAll path \<Rightarrow> (\<exists>name. name \<notin> set versions \<and> path = PathJoin [root, name] \<and> staleDir env path)
      | _ \<Rightarrow> \<not> changesHost c)"
proof -
  have "keeps (follows (wipeAllowed env root versions) calls) (wipeCacheDirs env dryRun root versions)"
    unfolding wipeCacheDirs_def by (intro triple_intros wipeCalls.call_read wipeCalls.readDir_follows wipeVersion_allowed) simp
  from follows_run [OF this] show ?thesis unfolding wipeAllowed_def by blast
qed

section \<open>Entries that are removed\<close>

lemma keepOld_spec:
  "foldE (keepOld env) b entries calls = (calls', Inr es) \<Longrightarrow> set es \<subseteq> set b \<union> set entries \<and> set b \<subseteq> set es \<and>
   (\<forall>e \<in> set es - set b. \<exists>before. hours 3 \<le> timeSince (onNow env before) (GetLastAccessAt e)) \<and>
   (\<forall>e \<in> set entries - set es. \<exists>before. timeSince (onNow env before) (GetLastAccessAt e) < hours 3)"
proof (induction entries arbitrary: b calls)
  case (Cons e entries)
  let ?b = "if timeSince (onNow env calls) (GetLastAccessAt e) < hours 3 then b else b @ [e]"
  have "keepOld env b e calls = (calls @ [CallNow], Inr ?b)"
    by (simp add: keepOld_def shouldPreserveGitDataEntryByLru_def bindE_def call_def)
  then have "foldE (keepOld env) ?b entries (calls @ [CallNow]) = (calls', Inr es)"
    using Cons.prems by (simp add: bindE_step)
  note IH = Cons.IH [OF this]
  show ?case
  proof (cases "timeSince (onNow env calls) (GetLastAccessAt e) < hours 3")
    case True
    then show ?thesis using IH by auto
  next
    case False
    then show ?thesis using IH by (auto simp: not_less)
  qed
qed simp

lemma keepGitDataByLru_spec:
  assumes "keepGitDataByLru env entries calls = (calls', Inr es)"
  shows "set es \<subseteq> set entries" "sorted (map (\<lambda>e. (getGitDataEntryRank e, GetLastAccessAt e, getFirstGitDataEntryPath e)) es)"
    "\<forall>e \<in> set es. \<exists>before. hours 3 \<le> timeSince (onNow env before) (GetLastAccessAt e)"
    "\<forall>e \<in> set entries - set es. \<exists>before. timeSince (onNow env before) (GetLastAccessAt e) < hours 3"
proof -
  obtain es0 where es0: "es = sort_key (\<lambda>e. (getGitDataEntryRank e, GetLastAccessAt e, getFirstGitDataEntryPath e)) es0"
    and fold: "foldE (keepOld env) [] entries calls = (calls', Inr es0)"
    using assms by (auto simp: keepGitDataByLru_def bindE_Inr)
  note spec = keepOld_spec [OF fold]
  show "set es \<subseteq> set entries" "\<forall>e \<in> set es. \<exists>before. hours 3 \<le> timeSince (onNow env before) (GetLastAccessAt e)"
    "\<forall>e \<in> set entries - set es. \<exists>before. timeSince (onNow env before) (GetLastAccessAt e) < hours 3" using spec by (simp_all add: es0)
  show "sorted (map (\<lambda>e. (getGitDataEntryRank e, GetLastAccessAt e, getFirstGitDataEntryPath e)) es)" by (simp add: es0)
qed

lemma keepOld_ok: "\<exists>calls' es. foldE (keepOld env) b entries calls = (calls', Inr es)"
proof (induction entries arbitrary: b calls)
  case (Cons e entries)
  obtain b1 where "keepOld env b e calls = (calls @ [CallNow], Inr b1)"
    by (simp add: keepOld_def shouldPreserveGitDataEntryByLru_def bindE_def call_def)
  then show ?case using Cons.IH by (simp add: bindE_step)
qed simp

lemma keepGitDataByLru_ok: "\<exists>calls' es. keepGitDataByLru env entries calls = (calls', Inr es)"
  using keepOld_ok [of env "[]" entries calls] by (auto simp: keepGitDataByLru_def bindE_step)

text \<open>The paths that are removed as a whole, in order; and those that the removal of an entry is to remove.\<close>

definition removedPaths :: "hostCall list \<Rightarrow> string list" where
  "removedPaths calls = concat (map (\<lambda>c. case c of CallRemoveAll path \<Rightarrow> [path] | _ \<Rightarrow> []) calls)"

definition evictPaths :: "hostEnv \<Rightarrow> removeGitDataEntriesOptions \<Rightarrow> GitDataEntry \<Rightarrow> string list" where
  "evictPaths env options e = (if RemoveDryRun options then [] else filter (isSubpath env (GetCacheBasePath e)) (GetPaths e))"

lemma removedPaths_simps [simp]:
  "removedPaths [] = []" "removedPaths (c # cs) = (case c of CallRemoveAll path \<Rightarrow> [path] | _ \<Rightarrow> []) @ removedPaths cs"
  "removedPaths (cs @ cs') = removedPaths cs @ removedPaths cs'"
  by (simp_all add: removedPaths_def)

text \<open>Calls by which nothing of an entry is removed and the usage is not measured.\<close>

definition sideCall :: "hostCall \<Rightarrow> bool" where
  "sideCall c \<longleftrightarrow> (\<exists>path. c = CallReadDir path \<or> c = CallRemove path \<or> c = CallStat path)"

lemma sideCalls_removed: "list_all sideCall m \<Longrightarrow> removedPaths m = []"
  by (induction m) (auto simp: sideCall_def)

lemma removeEmptyParents_side: "keeps (onlyCalls sideCall b) (removeEmptyParents env scopeDir dir)"
proof (induction "length dir" arbitrary: dir rule: less_induct)
  case less
  have remove: "keeps (onlyCalls sideCall b) (call (CallRemove dir) (\<lambda>tr. onRemove env tr dir))"
    and list: "keeps (onlyCalls sideCall b) (readDir env dir)"
    unfolding readDir_def by (rule call_onlyCalls, simp add: sideCall_def)+
  show ?case by (subst removeEmptyParents.simps) (intro triple_intros remove list less.hyps, blast)
qed

definition evictCall :: "hostCall \<Rightarrow> bool" where
  "evictCall c \<longleftrightarrow> sideCall c \<or> (\<exists>path. c = CallRemoveAll path)"

lemma sideCalls_evict: "list_all sideCall m \<Longrightarrow> list_all evictCall m"
  by (auto simp: list_all_iff evictCall_def)

lemma RemovePath_evicts:
  assumes "RemovePathWithEmptyParentDirsInsideScope env scopeDir path s = (s', r)"
  shows "\<exists>m. s' = s @ m \<and> list_all evictCall m \<and> removedPaths m = (if isSubpath env scopeDir path then [path] else []) \<and>
    (\<not> isSubpath env scopeDir path \<longrightarrow> r = Inr ())"
proof (cases "isSubpath env scopeDir path")
  case True
  let ?s1 = "s @ [CallRemoveAll path]"
  have "\<exists>m. s' = ?s1 @ m \<and> list_all sideCall m"
  proof (cases "onRemoveAll env s path")
    case (Inl e)
    then show ?thesis using assms True by (auto simp: RemovePathWithEmptyParentDirsInsideScope_def bindE_def call_def)
  next
    case (Inr u)
    then have "removeEmptyParents env scopeDir (filepathDir path) ?s1 = (s', r)"
      using assms True by (simp add: RemovePathWithEmptyParentDirsInsideScope_def bindE_def call_def)
    from tripleD [OF removeEmptyParents_side onlyCalls_refl this] show ?thesis by (auto simp: onlyCalls_def)
  qed
  then obtain m where m: "s' = ?s1 @ m" "list_all sideCall m" by blast
  have "s' = s @ (CallRemoveAll path # m)" "list_all evictCall (CallRemoveAll path # m)" "removedPaths (CallRemoveAll path # m) = [path]"
    using m sideCalls_evict [OF m(2)] by (simp_all add: sideCalls_removed evictCall_def)
  then show ?thesis using True by (intro exI [of _ "CallRemoveAll path # m"]) simp
next
  case False
  then show ?thesis using assms by (intro exI [of _ "[]"]) (simp add: RemovePathWithEmptyParentDirsInsideScope_def)
qed

lemma removeEntry_evicts:
  assumes "removeEntry env options e s = (s', r)"
  shows "\<exists>m. s' = s @ m \<and> list_all evictCall m \<and> prefix (removedPaths m) (evictPaths env options e) \<and>
    (\<forall>u. r = Inr u \<longrightarrow> removedPaths m = evictPaths env options e)"
proof -
  let ?sub = "isSubpath env (GetCacheBasePath e)"
  have "\<exists>m. s' = s @ m \<and> list_all evictCall m \<and> prefix (removedPaths m) (filter ?sub paths) \<and> (\<forall>u. r = Inr u \<longrightarrow> removedPaths m = filter ?sub paths)"
    if "foldE (\<lambda>_. RemovePathWithEmptyParentDirsInsideScope env (GetCacheBasePath e)) () paths s = (s', r)" for paths
    using that
  proof (induction paths arbitrary: s)
    case (Cons path paths)
    obtain s1 r1 where 1: "RemovePathWithEmptyParentDirsInsideScope env (GetCacheBasePath e) path s = (s1, r1)" by fastforce
    from RemovePath_evicts [OF 1] obtain m1 where m1: "s1 = s @ m1" "list_all evictCall m1"
      "removedPaths m1 = (if ?sub path then [path] else [])" "\<not> ?sub path \<longrightarrow> r1 = Inr ()" by blast
    show ?case
    proof (cases r1)
      case (Inl err)
      then have "s' = s1" "r = Inl err" using Cons.prems 1 by (simp_all add: bindE_stop)
      then show ?thesis using m1 Inl by auto
    next
      case (Inr u)
      then have "foldE (\<lambda>_. RemovePathWithEmptyParentDirsInsideScope env (GetCacheBasePath e)) () paths s1 = (s', r)"
        using Cons.prems 1 by (simp add: bindE_step)
      from Cons.IH [OF this] obtain m2 where "s' = s1 @ m2" "list_all evictCall m2" "prefix (removedPaths m2) (filter ?sub paths)"
        "\<forall>u. r = Inr u \<longrightarrow> removedPaths m2 = filter ?sub paths" by blast
      then show ?thesis using m1 by (intro exI [of _ "m1 @ m2"]) simp
    qed
  qed simp
  note real = this
  show ?thesis
  proof (cases "RemoveDryRun options")
    case True
    then have "s' = s" using assms by (simp add: removeEntry_def foldE_skip)
    then show ?thesis using True by (simp add: evictPaths_def)
  next
    case False
    then show ?thesis using assms real [of "GetPaths e"] by (simp add: removeEntry_def evictPaths_def)
  qed
qed

text \<open>The origin of an orphaned worktree was found to be back.\<close>

definition backAt :: "hostEnv \<Rightarrow> hostCall list \<Rightarrow> GitDataEntry \<Rightarrow> bool" where
  "backAt env calls e \<longleftrightarrow> (\<exists>path lastAccessAt sz base hasSubmodules dir before after info.
     e = GitWorktreeDesc path lastAccessAt sz base hasSubmodules dir \<and> dir \<noteq> [] \<and>
     calls = before @ CallStat dir # after \<and> onStat env before dir = Inr info)"

lemma backAt_append: "backAt env calls e \<Longrightarrow> backAt env (calls @ m) e"
  unfolding backAt_def by fastforce

lemma originIsBack_calls:
  assumes "originIsBack env e s = (s', r)"
  shows "\<exists>m. s' = s @ m \<and> list_all sideCall m \<and> (r = Inr True \<longrightarrow> backAt env (s @ m) e)"
proof (cases e)
  case (GitWorktreeDesc path lastAccessAt sz base hasSubmodules dir)
  show ?thesis
  proof (cases "dir = []")
    case True
    then have "s' = s" "r = Inr False" using assms GitWorktreeDesc by (simp_all add: originIsBack_def)
    then show ?thesis by simp
  next
    case False
    then have "s' = s @ [CallStat dir]" "r = Inr True \<longrightarrow> (\<exists>info. onStat env s dir = Inr info)"
      using assms GitWorktreeDesc
      by (auto simp: originIsBack_def bindE_def attemptE_def call_def split: sum.splits if_splits)
    then show ?thesis using False GitWorktreeDesc by (intro exI [of _ "[CallStat dir]"]) (auto simp: sideCall_def backAt_def)
  qed
qed (use assms in \<open>auto simp: originIsBack_def\<close>)

text \<open>The last call has found the usage at the target; and nothing happens after such a call.\<close>

definition reached :: "hostEnv \<Rightarrow> uint64 \<Rightarrow> hostCall list \<Rightarrow> bool" where
  "reached env target calls \<longleftrightarrow> (\<exists>before vu. calls = before @ [CallVolumeUsage (localCacheDir env)] \<and>
     onVolumeUsage env before (localCacheDir env) = Inr vu \<and> UsedBytes vu \<le> target)"

definition stopsAtTarget :: "hostEnv \<Rightarrow> uint64 \<Rightarrow> hostCall list \<Rightarrow> hostCall list \<Rightarrow> bool" where
  "stopsAtTarget env target s m \<longleftrightarrow> (\<forall>a b. m = a @ b \<longrightarrow> a \<noteq> [] \<longrightarrow> b \<noteq> [] \<longrightarrow> \<not> reached env target (s @ a))"

lemma stopsAtTarget_append:
  assumes "stopsAtTarget env target s m" and "m = [] \<or> \<not> reached env target (s @ m)" and "stopsAtTarget env target (s @ m) m'"
  shows "stopsAtTarget env target s (m @ m')"
  unfolding stopsAtTarget_def
proof (intro allI impI)
  fix a b assume ab: "m @ m' = a @ b" "a \<noteq> []" "b \<noteq> []"
  from ab(1) consider us where "a = m @ us" "m' = us @ b" | us where "m = a @ us" "us @ m' = b" by (auto simp: append_eq_append_conv2)
  then show "\<not> reached env target (s @ a)"
  proof cases
    case (1 us)
    then show ?thesis using assms(2,3) ab unfolding stopsAtTarget_def by (cases "us = []") auto
  next
    case (2 us)
    then show ?thesis using assms(1,2) ab unfolding stopsAtTarget_def by (cases "us = []") auto
  qed
qed

lemma evictCalls_unmeasured:
  assumes "list_all evictCall m"
  shows "stopsAtTarget env target s m" and "m = [] \<or> \<not> reached env target (s @ m)"
proof -
  have last: "\<not> reached env target (s @ a)" if "list_all evictCall a" "a \<noteq> []" for a
    using that by (cases a rule: rev_cases) (auto simp: reached_def evictCall_def sideCall_def)
  show "stopsAtTarget env target s m" using assms last by (auto simp: stopsAtTarget_def)
  show "m = [] \<or> \<not> reached env target (s @ m)" using assms last by blast
qed

text \<open>
  What the loop has done when it ends: the first \<open>k\<close> entries are treated, and of these \<open>removed\<close> are removed, one after another;
  the last of them is the first with which enough is freed or after which the usage is at the target.
\<close>

definition evicted :: "hostEnv \<Rightarrow> removeGitDataEntriesOptions \<Rightarrow> uint64 \<Rightarrow> GitDataEntry list \<Rightarrow> nat \<Rightarrow> GitDataEntry list \<Rightarrow>
    hostCall list \<Rightarrow> hostCall list \<Rightarrow> hostError + uint64 \<Rightarrow> bool" where
  "evicted env options freed es k removed s m r \<longleftrightarrow> k \<le> length es \<and> subseq removed (take k es) \<and>
     (\<forall>e \<in> set (take k es) - set removed. backAt env (s @ m) e) \<and>
     prefix (removedPaths m) (concat (map (evictPaths env options) removed)) \<and>
     (\<forall>j < length removed. freed + sum_list (map GetSize (take j removed)) < BytesToFree options) \<and>
     stopsAtTarget env (TargetVolumeUsageBytes options) s m \<and>
     (\<forall>n. r = Inr n \<longrightarrow> removedPaths m = concat (map (evictPaths env options) removed) \<and> n = freed + sum_list (map GetSize removed) \<and>
       (k = length es \<or> removed \<noteq> [] \<and> last removed = es ! (k - 1) \<and>
         (BytesToFree options \<le> n \<or> reached env (TargetVolumeUsageBytes options) (s @ m))))"

lemma evicted_skip:
  assumes "list_all sideCall m1" and "backAt env (s @ m1) e" and "evicted env options freed es k removed (s @ m1) m r"
  shows "evicted env options freed (e # es) (Suc k) removed s (m1 @ m) r"
proof -
  note ev = assms(3) [unfolded evicted_def append_assoc]
  have m1: "removedPaths m1 = []" "list_all evictCall m1" using assms(1) by (auto intro: sideCalls_removed sideCalls_evict)
  have found: "\<forall>x \<in> set (take (Suc k) (e # es)) - set removed. backAt env (s @ m1 @ m) x"
    using ev backAt_append [OF assms(2), of m] by auto
  have nth: "removed \<noteq> [] \<Longrightarrow> (e # es) ! k = es ! (k - 1)" using ev by (cases k) auto
  have "stopsAtTarget env (TargetVolumeUsageBytes options) s (m1 @ m)"
    using stopsAtTarget_append [OF evictCalls_unmeasured [OF m1(2)]] ev by blast
  with ev found nth m1(1) show ?thesis unfolding evicted_def by (auto intro: subseq_order.order_trans)
qed

lemma evicted_remove:
  assumes "freed < BytesToFree options" and "removedPaths m1 = evictPaths env options e"
    and "stopsAtTarget env (TargetVolumeUsageBytes options) s m1" "m1 = [] \<or> \<not> reached env (TargetVolumeUsageBytes options) (s @ m1)"
    and "evicted env options (freed + GetSize e) es k removed (s @ m1) m r"
  shows "evicted env options freed (e # es) (Suc k) (e # removed) s (m1 @ m) r"
proof -
  note ev = assms(5) [unfolded evicted_def append_assoc]
  have sums: "freed + sum_list (map GetSize (take j (e # removed))) < BytesToFree options" if "j < length (e # removed)" for j
    using that ev assms(1) by (cases j) (auto simp: add.assoc)
  have nth: "removed \<noteq> [] \<Longrightarrow> (e # es) ! k = es ! (k - 1)" using ev by (cases k) auto
  have "stopsAtTarget env (TargetVolumeUsageBytes options) s (m1 @ m)"
    using stopsAtTarget_append [OF assms(3,4)] ev by blast
  with ev sums nth assms(2) show ?thesis unfolding evicted_def by (auto simp: add.assoc)
qed

lemma evicted_end:
  assumes "freed < BytesToFree options" and "removedPaths m = evictPaths env options e"
    and "stopsAtTarget env (TargetVolumeUsageBytes options) s m"
    and "BytesToFree options \<le> freed + GetSize e \<or> reached env (TargetVolumeUsageBytes options) (s @ m)"
  shows "evicted env options freed (e # es) 1 [e] s m (Inr (freed + GetSize e))"
  using assms by (auto simp: evicted_def)

text \<open>The part of the loop after the removal of an entry.\<close>

lemma removeLoop_rest:
  assumes less: "freed < BytesToFree options" and m: "removedPaths m = evictPaths env options e" "list_all evictCall m"
    and est: "est = freed + GetSize e"
    and IH: "\<And>s' r s. est < BytesToFree options \<Longrightarrow> removeLoop env options est es s = (s', r) \<Longrightarrow>
      \<exists>k removed m. s' = s @ m \<and> evicted env options est es k removed s m r"
    and run: "(if est \<ge> BytesToFree options then retE est
      else if RemoveDryRun options then removeLoop env options est es
      else bindE (attemptE (call (CallVolumeUsage (localCacheDir env)) (\<lambda>tr. onVolumeUsage env tr (localCacheDir env)))) (\<lambda>r.
        case r of Inl _ \<Rightarrow> removeLoop env options est es
        | Inr vu \<Rightarrow> if UsedBytes vu \<le> TargetVolumeUsageBytes options then retE est else removeLoop env options est es)) (s @ m) = (s', r)"
  shows "\<exists>k removed m'. s' = s @ m' \<and> evicted env options freed (e # es) k removed s m' r"
proof (cases "BytesToFree options \<le> est")
  case True
  then have "s' = s @ m" "r = Inr est" using run by simp_all
  then show ?thesis using evicted_end [OF less m(1) evictCalls_unmeasured(1) [OF m(2)]] True est by blast
next
  case False
  then have below: "est < BytesToFree options" by simp
  note clean = evictCalls_unmeasured [OF m(2), of env "TargetVolumeUsageBytes options" s]
  show ?thesis
  proof (cases "RemoveDryRun options")
    case True
    then have "removeLoop env options est es (s @ m) = (s', r)" using run False by simp
    from IH [OF below this] obtain k removed m2 where "s' = (s @ m) @ m2" "evicted env options est es k removed (s @ m) m2 r" by blast
    then show ?thesis using evicted_remove [OF less m(1) clean] est by (metis append_assoc)
  next
    case dry: False
    let ?m = "m @ [CallVolumeUsage (localCacheDir env)]" and ?answer = "onVolumeUsage env (s @ m) (localCacheDir env)"
    have run': "(case ?answer of Inl _ \<Rightarrow> removeLoop env options est es
        | Inr vu \<Rightarrow> if UsedBytes vu \<le> TargetVolumeUsageBytes options then retE est else removeLoop env options est es) (s @ ?m) = (s', r)"
      using run False dry by (simp add: bindE_step attemptE_def call_def)
    have stops: "stopsAtTarget env (TargetVolumeUsageBytes options) s ?m"
      by (rule stopsAtTarget_append [OF clean]) (auto simp: stopsAtTarget_def append_eq_Cons_conv Cons_eq_append_conv)
    have m': "removedPaths ?m = evictPaths env options e" using m(1) by simp
    show ?thesis
    proof (cases "reached env (TargetVolumeUsageBytes options) (s @ ?m)")
      case True
      then have "s' = s @ ?m" "r = Inr est" using run' by (auto simp: reached_def)
      then show ?thesis using evicted_end [OF less m' stops] True est by blast
    next
      case unreached: False
      then have "removeLoop env options est es (s @ ?m) = (s', r)" using run' by (auto simp: reached_def split: sum.splits if_splits)
      from IH [OF below this] obtain k removed m2 where "s' = (s @ ?m) @ m2" "evicted env options est es k removed (s @ ?m) m2 r" by blast
      then show ?thesis using evicted_remove [OF less m' stops disjI2 [OF unreached]] est by (metis append_assoc)
    qed
  qed
qed

lemma removeLoop_evicts:
  "freed < BytesToFree options \<Longrightarrow> removeLoop env options freed es s = (s', r) \<Longrightarrow>
   \<exists>k removed m. s' = s @ m \<and> evicted env options freed es k removed s m r"
proof (induction es arbitrary: freed s s' r)
  case Nil
  then show ?case by (auto simp: evicted_def stopsAtTarget_def)
next
  case (Cons e es)
  obtain s1 r1 where origin: "originIsBack env e s = (s1, r1)" by fastforce
  from originIsBack_calls [OF origin] obtain m1 where m1: "s1 = s @ m1" "list_all sideCall m1" "r1 = Inr True \<longrightarrow> backAt env (s @ m1) e" by blast
  note quiet = sideCalls_evict [OF m1(2)] sideCalls_removed [OF m1(2)]
  obtain s2 r2 where entry: "removeEntry env options e s1 = (s2, r2)" by fastforce
  from removeEntry_evicts [OF entry] obtain m2 where m2: "s2 = s1 @ m2" "list_all evictCall m2" "prefix (removedPaths m2) (evictPaths env options e)"
    "\<forall>u. r2 = Inr u \<longrightarrow> removedPaths m2 = evictPaths env options e" by blast
  have both: "list_all evictCall (m1 @ m2)" "removedPaths (m1 @ m2) = removedPaths m2" using quiet m2(2) by simp_all
  consider err where "r1 = Inl err" | "r1 = Inr True" | err where "r1 = Inr False" "r2 = Inl err" | "r1 = Inr False" "r2 = Inr ()"
    by (cases r1; cases r2) auto
  then show ?case
  proof cases
    case 1
    then have r: "s' = s @ m1" "r = Inl err" using Cons.prems(2) origin m1(1) by (auto simp: bindE_stop)
    have "evicted env options freed (e # es) 0 [] s m1 (Inl err)" using quiet evictCalls_unmeasured(1) by (simp add: evicted_def)
    then show ?thesis using r by blast
  next
    case 2
    then have "removeLoop env options freed es s1 = (s', r)" using Cons.prems(2) origin by (simp add: bindE_step)
    from Cons.IH [OF Cons.prems(1) this] obtain k removed m where "s' = s1 @ m" "evicted env options freed es k removed s1 m r" by blast
    then show ?thesis using evicted_skip [OF m1(2)] m1 2 by (metis append_assoc)
  next
    case 3
    then have r: "s' = s @ (m1 @ m2)" "r = Inl err" using Cons.prems(2) origin entry m1(1) m2(1)
      by (auto simp: bindE_step [of "originIsBack env e" s s1 False] bindE_stop)
    have "evicted env options freed (e # es) 1 [e] s (m1 @ m2) (Inl err)"
      using both m2(3) evictCalls_unmeasured(1) [OF both(1)] Cons.prems(1) by (simp add: evicted_def del: removedPaths_simps)
    then show ?thesis using r by blast
  next
    case 4
    show ?thesis
      by (rule removeLoop_rest [OF Cons.prems(1) _ both(1) refl Cons.IH])
        (use Cons.prems(2) origin entry 4 m1(1) m2 both in \<open>auto simp: bindE_step [of "originIsBack env e" s s1 False] bindE_step Let_def\<close>)
  qed
qed

text \<open>C25: The entries of the git caches are evicted in the order of rank, last access and path. What is left out of the list was accessed within
  three hours by the clock, what is in it was not. Of the first \<open>k\<close> entries in this order all are removed, except orphaned worktrees
  whose origin was found to be back; the paths removed as a whole are exactly the paths of the removed entries inside their caches, in
  the same order (none in a dry run, and the first of these paths if an error ends the loop). The loop goes on only while the sizes of
  the entries removed so far are below what has to be freed and no measurement has found the usage at the target; if it ends without an
  error before the last entry, it ends right after an entry with which enough is freed or after which the usage is at the target, and
  the number returned is the size of the removed entries, in 64-bit arithmetic.\<close>

theorem git_eviction_order:
  assumes run: "bindE (keepGitDataByLru env entries) (removeGitDataEntries env options) calls = (calls', r)" and "BytesToFree options \<noteq> 0"
  shows "\<exists>es calls1 k removed m. keepGitDataByLru env entries calls = (calls1, Inr es) \<and> set es \<subseteq> set entries \<and>
    sorted (map (\<lambda>e. (getGitDataEntryRank e, GetLastAccessAt e, getFirstGitDataEntryPath e)) es) \<and>
    (\<forall>e \<in> set es. \<exists>before. hours 3 \<le> timeSince (onNow env before) (GetLastAccessAt e)) \<and>
    (\<forall>e \<in> set entries - set es. \<exists>before. timeSince (onNow env before) (GetLastAccessAt e) < hours 3) \<and>
    calls' = calls1 @ m \<and> k \<le> length es \<and> subseq removed (take k es) \<and>
    (\<forall>e \<in> set (take k es) - set removed. backAt env calls' e) \<and>
    prefix (removedPaths m) (concat (map (evictPaths env options) removed)) \<and>
    (\<forall>j < length removed. sum_list (map GetSize (take j removed)) < BytesToFree options) \<and>
    stopsAtTarget env (TargetVolumeUsageBytes options) calls1 m \<and>
    (\<forall>n. r = Inr n \<longrightarrow> removedPaths m = concat (map (evictPaths env options) removed) \<and> n = sum_list (map GetSize removed) \<and>
      (k = length es \<or> removed \<noteq> [] \<and> last removed = es ! (k - 1) \<and>
        (BytesToFree options \<le> n \<or> reached env (TargetVolumeUsageBytes options) calls')))"
proof -
  obtain es calls1 where keep: "keepGitDataByLru env entries calls = (calls1, Inr es)" using keepGitDataByLru_ok by blast
  note spec = keepGitDataByLru_spec [OF keep]
  have "removeLoop env options 0 es calls1 = (calls', r)"
    using run assms(2) by (simp add: bindE_step [of "keepGitDataByLru env entries", OF keep] removeGitDataEntries_def)
  moreover have "0 < BytesToFree options" using assms(2) word_neq_0_conv by blast
  ultimately obtain k removed m where m: "calls' = calls1 @ m" and ev: "evicted env options 0 es k removed calls1 m r"
    using removeLoop_evicts by blast
  show ?thesis
    by (rule exI [of _ es], rule exI [of _ calls1], rule exI [of _ k], rule exI [of _ removed], rule exI [of _ m])
      (use keep spec m ev in \<open>auto simp: evicted_def\<close>)
qed

section \<open>Instances\<close>

lemma slashed_takeWhile: "plainName x \<Longrightarrow> takeWhile (\<lambda>c. c \<noteq> CHR ''/'') (x @ slashed xs) = x"
  by (cases xs) (auto simp: plainName_def takeWhile_append)

lemma slashed_prefix:
  "list_all plainName xs \<Longrightarrow> list_all plainName ys \<Longrightarrow> slashed ys = slashed xs @ CHR ''/'' # r \<Longrightarrow> strict_prefix xs ys"
proof (induction xs arbitrary: ys)
  case Nil
  then show ?case by (cases ys) auto
next
  case (Cons x xs)
  then obtain y ys' where ys: "ys = y # ys'" by (cases ys) auto
  have eq: "y @ slashed ys' = x @ slashed xs @ CHR ''/'' # r" using Cons.prems(3) ys by simp
  have x: "takeWhile (\<lambda>c. c \<noteq> CHR ''/'') (x @ slashed xs @ CHR ''/'' # r) = x"
    using slashed_takeWhile [of x "xs @ [r]"] Cons.prems(1) by simp
  have "x = y" using slashed_takeWhile [of y ys'] Cons.prems(2) x by (simp add: ys eq)
  then show ?case using Cons eq ys by simp
qed

definition sampleDir :: "string \<Rightarrow> FileInfo" where
  "sampleDir name = \<lparr>fileName = name, fileMode = Directory, ModTime = 0, FileSize = 0\<rparr>"

definition sampleGit :: hostEnv where
  "sampleGit = idleHost\<lparr>onStat := (\<lambda>_ path. if path = ''/cache/git_repos'' then Inr (sampleDir path) else Inl ErrNotExist),
     onReadDir := (\<lambda>_ dir. if dir = ''/cache/git_repos'' then Inr [sampleDir ''5'', sampleDir ''4''] else Inl ErrNotExist)\<rparr>"

lemma sampleGit_plain: "plainHost sampleGit"
proof -
  have "strict_prefix xs ys" if "list_all plainName xs" "list_all plainName ys" "isSubpath sampleGit (absPath xs) (absPath ys)" for xs ys
  proof (cases "xs = []")
    case True
    then show ?thesis using that
      by (cases ys) (auto simp: sampleGit_def idleHost_def absPath_def HasPrefix_iff plainName_def Cons_eq_append_conv append_eq_Cons_conv)
  next
    case False
    note sub = that(3)
    from False obtain r where "slashed ys = slashed xs @ CHR ''/'' # r" using sub
      by (cases "ys = []"; cases xs) (auto simp: sampleGit_def idleHost_def absPath_def HasPrefix_iff append_eq_Cons_conv)
    then show ?thesis using that(1,2) slashed_prefix by blast
  qed
  then show ?thesis unfolding plainHost_def by (auto simp: sampleGit_def sampleDir_def plainName_def split: if_splits)
qed

definition sampleGitOptions :: gitRunGCOptions where
  "sampleGitOptions = \<lparr>AllowedLocalCacheVolumeUsageBytes = 70, AllowedLocalCacheVolumeUsageMarginBytes = 5, gitDryRun = False\<rparr>"

theorem git_gc_stays_in_caches_witness:
  "CallRemoveAll ''/cache/git_repos/4'' \<in> set (fst (git_RunGC sampleGit sampleGitOptions [])) \<and> insideCaches [''cache''] ''/cache/git_repos/4''"
proof -
  have called: "CallRemoveAll ''/cache/git_repos/4'' \<in> set (fst (git_RunGC sampleGit sampleGitOptions []))" by code_simp
  have "localCacheDir sampleGit = absPath [''cache'']" "list_all plainName [''cache'']" by (simp_all add: sampleGit_def idleHost_def absPath_def plainName_def)
  from git_gc_stays_in_caches [OF this _ sampleGit_plain, of sampleGitOptions "[]"] called show ?thesis by fastforce
qed

theorem wipe_spares_versions_in_use_witness: "staleDir sampleGit ''/cache/git_repos/4''"
proof -
  have "CallRemoveAll ''/cache/git_repos/4'' \<in> set (fst (wipeCacheDirs sampleGit False ''/cache/git_repos'' [''5''] []))" by code_simp
  with wipe_spares_versions_in_use [of sampleGit False "''/cache/git_repos''" "[''5'']" "[]"] show ?thesis by fastforce
qed

definition sampleEntries :: "GitDataEntry list" where
  "sampleEntries = [GitRepoDesc ''/cache/git_repos/5/r'' (- (10 ^ 15)) 7 ''/cache/git_repos/5'',
     GitArchiveDesc ''/cache/git_archives/7/a.meta.json'' ''/cache/git_archives/7/a.tar'' (- (10 ^ 5)) 5 ''/cache/git_archives/7'']"

theorem git_eviction_order_witness:
  "\<exists>es k n removed. snd (keepGitDataByLru sampleGit sampleEntries []) = Inr es \<and> k \<le> length es \<and>
     snd (bindE (keepGitDataByLru sampleGit sampleEntries) (removeGitDataEntries sampleGit \<lparr>BytesToFree = 4, TargetVolumeUsageBytes = 0, RemoveDryRun = False\<rparr>) []) = Inr n \<and>
     n = 5 \<and> subseq removed (take k es) \<and> n = sum_list (map GetSize removed)"
proof -
  let ?options = "\<lparr>BytesToFree = 4, TargetVolumeUsageBytes = 0, RemoveDryRun = False\<rparr> :: removeGitDataEntriesOptions"
  let ?run = "bindE (keepGitDataByLru sampleGit sampleEntries) (removeGitDataEntries sampleGit ?options) []"
  have n: "snd ?run = Inr 5" by code_simp
  have "?run = (fst ?run, snd ?run)" by simp
  from git_eviction_order [OF this] n show ?thesis by fastforce
qed

end
