(* ===== verification/Sbom.thy ===== *)
theory Sbom
  imports GoStrings
begin

text \<open>
  The documents of \<^verbatim>\<open>src/pkg/sbom\<close>: the parts of a CycloneDX document that the code names. The library that defines them is
  not in the repository; a part the code passes on without looking into it is \<open>opaque\<close>. A pointer is an option, so a pointer to
  a slice is \<open>'a list option\<close>. Components and services are trees with data of their own at each node. Documents
  share no memory, so an assignment through a pointer is an update of the value.
\<close>

section \<open>Pointers\<close>

type_synonym opaque = string

text \<open>\<^verbatim>\<open>lo.FromPtr\<close> of a pointer to a slice, and the return of \<^verbatim>\<open>nil\<close> for an empty slice.\<close>

definition fromPtr :: "'a list option \<Rightarrow> 'a list" where
  "fromPtr p = (case p of None \<Rightarrow> [] | Some xs \<Rightarrow> xs)"

definition ptrOrNil :: "'a list \<Rightarrow> 'a list option" where
  "ptrOrNil xs = (if xs = [] then None else Some xs)"

lemma fromPtr_simps [simp]: "fromPtr None = []" "fromPtr (Some xs) = xs"
  by (simp_all add: fromPtr_def)

lemma fromPtr_ptrOrNil [simp]: "fromPtr (ptrOrNil xs) = xs"
  by (simp add: ptrOrNil_def)

lemma fromPtr_map_option [simp]: "fromPtr (map_option (map f) p) = map f (fromPtr p)"
  by (cases p) auto

lemma ptrOrNil_None [simp]: "ptrOrNil xs = None \<longleftrightarrow> xs = []"
  by (simp add: ptrOrNil_def)

section \<open>Entities\<close>

datatype 'd node = Node (payload: 'd) (children: "'d node list option")

record Hash =
  Algorithm :: string
  hashValue :: string

record Property =
  propName :: string
  propValue :: string

record ExternalReference =
  erType :: string
  erURL :: string
  erComment :: string
  erRest :: opaque

record License =
  licID :: string
  licName :: string
  licRest :: opaque

record LicenseChoice =
  lcLicense :: "License option"
  lcExpression :: string

type_synonym Licenses = "LicenseChoice list"

record Evidence =
  evIdentity :: "opaque list option"
  evOccurrences :: "opaque list option"
  evCallstack :: "opaque option"
  evLicenses :: "Licenses option"
  evCopyright :: "opaque list option"

record ComponentData =
  cBOMRef :: string
  cMIMEType :: string
  cType :: string
  cSupplier :: "opaque option"
  cManufacturer :: "opaque option"
  cAuthor :: string
  cAuthors :: "opaque list option"
  cPublisher :: string
  cGroup :: string
  cName :: string
  cVersion :: string
  cDescription :: string
  cScope :: string
  cHashes :: "Hash list option"
  cLicenses :: "Licenses option"
  cCopyright :: string
  cCPE :: string
  cPackageURL :: string
  cOmniborID :: "string list option"
  cSWHID :: "string list option"
  cSWID :: "opaque option"
  cModified :: "bool option"
  cPedigree :: "opaque option"
  cExternalReferences :: "ExternalReference list option"
  cProperties :: "Property list option"
  cEvidence :: "Evidence option"
  cReleaseNotes :: "opaque option"
  cModelCard :: "opaque option"
  cData :: "opaque list option"
  cCryptoProperties :: "opaque option"
  cTags :: "string list option"
  cSignature :: "opaque option"

type_synonym Component = "ComponentData node"

record ServiceData =
  sBOMRef :: string
  sProvider :: "opaque option"
  sGroup :: string
  sName :: string
  sVersion :: string
  sDescription :: string
  sEndpoints :: "string list option"
  sAuthenticated :: "bool option"
  sCrossesTrustBoundary :: "bool option"
  sTrustZone :: string
  sData :: "opaque list option"
  sLicenses :: "Licenses option"
  sExternalReferences :: "ExternalReference list option"
  sProperties :: "Property list option"
  sReleaseNotes :: "opaque option"
  sTags :: "string list option"
  sSignature :: "opaque option"

type_synonym Service = "ServiceData node"

text \<open>The component of which only type, name and version are set.\<close>

definition newComponent :: "string \<Rightarrow> string \<Rightarrow> string \<Rightarrow> ComponentData" where
  "newComponent ty name version =
     \<lparr>cBOMRef = [], cMIMEType = [], cType = ty, cSupplier = None, cManufacturer = None, cAuthor = [], cAuthors = None,
      cPublisher = [], cGroup = [], cName = name, cVersion = version, cDescription = [], cScope = [], cHashes = None,
      cLicenses = None, cCopyright = [], cCPE = [], cPackageURL = [], cOmniborID = None, cSWHID = None, cSWID = None,
      cModified = None, cPedigree = None, cExternalReferences = None, cProperties = None, cEvidence = None,
      cReleaseNotes = None, cModelCard = None, cData = None, cCryptoProperties = None, cTags = None, cSignature = None\<rparr>"

section \<open>Documents\<close>

record DependencyEntry =
  depRef :: string
  depDependencies :: "string list option"
  depProvides :: "string list option"

record Affects =
  affRef :: string
  affRest :: opaque

record Source =
  srcName :: string
  srcURL :: string

record Vulnerability =
  vBOMRef :: string
  vID :: string
  vSource :: "Source option"
  vReferences :: "opaque list option"
  vRatings :: "opaque list option"
  vCWEs :: "int list option"
  vDescription :: string
  vDetail :: string
  vRecommendation :: string
  vWorkaround :: string
  vProofOfConcept :: "opaque option"
  vAdvisories :: "opaque list option"
  vCreated :: string
  vPublished :: string
  vUpdated :: string
  vRejected :: string
  vCredits :: "opaque option"
  vTools :: "opaque option"
  vAnalysis :: "opaque option"
  vAffects :: "Affects list option"
  vProperties :: "Property list option"

record Composition =
  cpBOMRef :: string
  cpAssemblies :: "string list option"
  cpDependencies :: "string list option"
  cpVulnerabilities :: "string list option"
  cpRest :: opaque

record Annotation =
  anBOMRef :: string
  anSubjects :: "string list option"
  anRest :: opaque

record Formula =
  fBOMRef :: string
  fComponents :: "Component list option"
  fServices :: "Service list option"
  fRest :: opaque

text \<open>Assessors, claims and pieces of evidence of the declarations.\<close>

record Declared =
  dcBOMRef :: string
  dcRest :: opaque

record Targets =
  tgOrganizations :: "opaque list option"
  tgComponents :: "Component list option"
  tgServices :: "Service list option"

record Declarations =
  dsAssessors :: "Declared list option"
  dsAttestations :: "opaque list option"
  dsClaims :: "Declared list option"
  dsEvidence :: "Declared list option"
  dsTargets :: "Targets option"
  dsAffirmation :: "opaque option"

record Tool =
  tVendor :: string
  tName :: string
  tVersion :: string
  tHashes :: "Hash list option"
  tExternalReferences :: "ExternalReference list option"

record ToolsChoice =
  tcTools :: "Tool list option"
  tcComponents :: "Component list option"
  tcServices :: "Service list option"

record Metadata =
  mdTimestamp :: string
  mdTools :: "ToolsChoice option"
  mdComponent :: "Component option"
  mdLicenses :: "Licenses option"
  mdRest :: opaque

datatype SpecVersion = SpecVersion1_6 | OtherSpecVersion int

record BOM =
  bSpecVersion :: SpecVersion
  bSerialNumber :: string
  bVersion :: int
  bMetadata :: "Metadata option"
  bComponents :: "Component list option"
  bServices :: "Service list option"
  bExternalReferences :: "ExternalReference list option"
  bDependencies :: "DependencyEntry list option"
  bCompositions :: "Composition list option"
  bProperties :: "Property list option"
  bVulnerabilities :: "Vulnerability list option"
  bAnnotations :: "Annotation list option"
  bFormulation :: "Formula list option"
  bDeclarations :: "Declarations option"
  bSignature :: "opaque option"

text \<open>The optional parts of the metadata.\<close>

definition bomRoot :: "BOM \<Rightarrow> Component option" where
  "bomRoot bom = (case bMetadata bom of None \<Rightarrow> None | Some md \<Rightarrow> mdComponent md)"

definition bomTools :: "BOM \<Rightarrow> ToolsChoice option" where
  "bomTools bom = (case bMetadata bom of None \<Rightarrow> None | Some md \<Rightarrow> mdTools md)"

definition mapRoot :: "(Component \<Rightarrow> Component) \<Rightarrow> BOM \<Rightarrow> BOM" where
  "mapRoot f bom = bom\<lparr>bMetadata := map_option (\<lambda>md. md\<lparr>mdComponent := map_option f (mdComponent md)\<rparr>) (bMetadata bom)\<rparr>"

definition mapTools :: "(ToolsChoice \<Rightarrow> ToolsChoice) \<Rightarrow> BOM \<Rightarrow> BOM" where
  "mapTools f bom = bom\<lparr>bMetadata := map_option (\<lambda>md. md\<lparr>mdTools := map_option f (mdTools md)\<rparr>) (bMetadata bom)\<rparr>"

end
