(* ===== verification/SbomForest.thy ===== *)
theory SbomForest
  imports Sbom
begin

text \<open>
  The collapsing of duplicates in a forest of entities. \<^verbatim>\<open>canonicalizeComponents\<close> and \<^verbatim>\<open>canonicalizeServices\<close>
  (\<^verbatim>\<open>src/pkg/sbom/cyclonedxutil/canonicalize.go\<close>) are the same loop over different data, together with the recursion through
  \<^verbatim>\<open>mergeComponentInto\<close> and \<^verbatim>\<open>mergeServiceInto\<close>; here it is written once, over the operations on the data of one entity.
  The result of the loop and its index are one association list in the order of the result. Each removal of an entity is a step
  of an abstract relation on the refs that are still declared, and that relation says where the refs go.
\<close>

type_synonym refMap = "(string, string) goMap"

record 'd entity =
  entKey :: "'d \<Rightarrow> nat \<Rightarrow> string"
  entRef :: "'d \<Rightarrow> string"
  entSetRef :: "string \<Rightarrow> 'd \<Rightarrow> 'd"
  entCanon :: "'d \<Rightarrow> 'd"
  entMerge :: "'d \<Rightarrow> 'd \<Rightarrow> 'd"

section \<open>The loop\<close>

fun nodeCount :: "'d node \<Rightarrow> nat" where
  "nodeCount (Node d None) = 1"
| "nodeCount (Node d (Some ks)) = Suc (sum_list (map nodeCount ks))"

abbreviation nodesCount :: "'d node list \<Rightarrow> nat" where
  "nodesCount ns \<equiv> sum_list (map nodeCount ns)"

text \<open>A survivor without a ref takes the one of its duplicate; otherwise the ref of the duplicate leads to the survivor.\<close>

definition adoptRef :: "string \<Rightarrow> string \<Rightarrow> refMap \<Rightarrow> string \<times> refMap" where
  "adoptRef survivorRef dupRef m =
     (if survivorRef = [] then (dupRef, m)
      else if dupRef \<noteq> [] \<and> dupRef \<noteq> survivorRef then (survivorRef, AList.update dupRef survivorRef m)
      else (survivorRef, m))"

definition sealed :: "(string \<times> 'd node) list \<times> refMap \<Rightarrow> 'd node list option \<times> refMap" where
  "sealed r = (ptrOrNil (map snd (fst r)), snd r)"

function (sequential) collapseNodes ::
  "'d entity \<Rightarrow> nat \<Rightarrow> (string \<times> 'd node) list \<Rightarrow> 'd node list \<Rightarrow> refMap \<Rightarrow> (string \<times> 'd node) list \<times> refMap" where
  "collapseNodes ent i result [] m = (result, m)"
| "collapseNodes ent i result (n # ns) m =
     (let kids = (case children n of None \<Rightarrow> (None, m) | Some ks \<Rightarrow> sealed (collapseNodes ent 0 [] ks m));
          key = entKey ent (payload n) i
      in case map_of result key of
           None \<Rightarrow> collapseNodes ent (i + 1) (result @ [(key, Node (entCanon ent (payload n)) (fst kids))]) ns (snd kids)
         | Some survivor \<Rightarrow>
             let adopted = adoptRef (entRef ent (payload survivor)) (entRef ent (payload n)) (snd kids);
                 merged = (case fst kids of
                             None \<Rightarrow> (children survivor, snd adopted)
                           | Some ks \<Rightarrow> sealed (collapseNodes ent 0 [] (fromPtr (children survivor) @ ks) (snd adopted)));
                 d = entCanon ent (entMerge ent (entSetRef ent (fst adopted) (payload survivor)) (payload n))
             in collapseNodes ent (i + 1) (AList.update key (Node d (fst merged)) result) ns (snd merged))"
  by pat_completeness auto

lemma nodeCount_parts: "nodeCount n = Suc (nodesCount (fromPtr (children n)))"
  by (cases n rule: nodeCount.cases) simp_all

lemma nodesCount_survivor: "map_of result key = Some n \<Longrightarrow> nodeCount n \<le> nodesCount (map snd result)"
  by (induction result) (auto split: if_splits)

lemma nodesCount_update:
  "map_of result key = Some n \<Longrightarrow>
     nodesCount (map snd (AList.update key n' result)) + nodeCount n = nodesCount (map snd result) + nodeCount n'"
  by (induction result) (auto split: if_splits)

lemma sealed_simps [simp]: "fst (sealed r) = ptrOrNil (map snd (fst r))" "snd (sealed r) = snd r"
  by (simp_all add: sealed_def)

text \<open>The loop never has more entities than it was given, so its recursion ends.\<close>

lemma collapse_count:
  "collapseNodes_dom (ent, i, result, ns, m) \<Longrightarrow>
     nodesCount (map snd (fst (collapseNodes ent i result ns m))) \<le> nodesCount (map snd result) + nodesCount ns"
proof (induction rule: collapseNodes.pinduct)
  case (2 ent i result n ns m)
  let ?kids = "case children n of None \<Rightarrow> (None, m) | Some ks \<Rightarrow> sealed (collapseNodes ent 0 [] ks m)"
  let ?key = "entKey ent (payload n) i"
  have kids: "nodesCount (fromPtr (fst ?kids)) \<le> nodesCount (fromPtr (children n))"
    using 2(2) by (cases "children n") (simp_all add: o_def)
  note n = nodeCount_parts [of n]
  show ?case
  proof (cases "map_of result ?key")
    case None
    then show ?thesis using 2(3) [OF refl refl None] kids n collapseNodes.psimps(2) [OF 2(1)]
      by (simp add: Let_def nodeCount_parts [of "Node a b" for a b])
  next
    case (Some survivor)
    let ?adopted = "adoptRef (entRef ent (payload survivor)) (entRef ent (payload n)) (snd ?kids)"
    let ?merged = "case fst ?kids of None \<Rightarrow> (children survivor, snd ?adopted)
      | Some ks \<Rightarrow> sealed (collapseNodes ent 0 [] (fromPtr (children survivor) @ ks) (snd ?adopted))"
    let ?d = "entCanon ent (entMerge ent (entSetRef ent (fst ?adopted) (payload survivor)) (payload n))"
    have "nodesCount (fromPtr (fst ?merged)) \<le> nodesCount (fromPtr (children survivor)) + nodesCount (fromPtr (fst ?kids))"
      using 2(4) [OF refl refl Some refl] by (cases "fst ?kids") simp_all
    then have "nodeCount (Node ?d (fst ?merged)) \<le> nodeCount survivor + nodeCount n"
      using kids n by (simp add: nodeCount_parts [of "Node a b" for a b] nodeCount_parts [of survivor])
    then show ?thesis
      using 2(5) [OF refl refl Some refl refl refl] nodesCount_update [OF Some, of "Node ?d (fst ?merged)"] collapseNodes.psimps(2) [OF 2(1)] Some
      by (simp add: Let_def)
  qed
qed (simp add: collapseNodes.psimps)

lemma kids_count:
  assumes "\<And>ks. children n = Some ks \<Longrightarrow> collapseNodes_dom (ent, 0, [], ks, m)"
  shows "nodesCount (fromPtr (fst (case children n of None \<Rightarrow> (None, m) | Some ks \<Rightarrow> sealed (collapseNodes ent 0 [] ks m))))
    \<le> nodesCount (fromPtr (children n))"
  using collapse_count assms by (cases "children n") fastforce+

termination collapseNodes
proof (relation "measures [\<lambda>(ent, i, result, ns, m). nodesCount (map snd result) + nodesCount ns,
    \<lambda>(ent, i, result, ns, m). length ns]", goal_cases)
  case 1
  show ?case by simp
next
  case (2 ent i result n ns m ks)
  then show ?case using nodeCount_parts [of n] by simp
next
  case (3 ent i result n ns m kids key)
  then show ?case using kids_count [of n ent m]
    by (simp add: nodeCount_parts [of n] nodeCount_parts [of "Node a b" for a b] flip: le_less)
next
  case (4 ent i result n ns m kids key survivor adopted ks)
  then show ?case using kids_count [of n ent m] nodesCount_survivor [of result key survivor]
    by (simp add: nodeCount_parts [of n] nodeCount_parts [of survivor])
next
  case (5 ent i result n ns m kids key survivor adopted merged d)
  have kids: "nodesCount (fromPtr (fst kids)) \<le> nodesCount (fromPtr (children n))" unfolding 5(1) using 5(8) by (rule kids_count)
  have "nodesCount (fromPtr (fst merged)) \<le> nodesCount (fromPtr (children survivor)) + nodesCount (fromPtr (fst kids))"
  proof (cases "fst kids")
    case (Some ks)
    then show ?thesis using collapse_count [OF 5(7) [OF Some]] unfolding 5(5) by simp
  qed (simp add: 5(5))
  then have "nodeCount (Node d (fst merged)) < nodeCount survivor + nodeCount n"
    using kids by (simp add: nodeCount_parts [of n] nodeCount_parts [of survivor] nodeCount_parts [of "Node a b" for a b])
  then show ?case using nodesCount_update [OF 5(3), of "Node d (fst merged)"] by simp
qed

definition canonicalizeNodes :: "'d entity \<Rightarrow> 'd node list option \<Rightarrow> refMap \<Rightarrow> 'd node list option \<times> refMap" where
  "canonicalizeNodes ent p m = (case p of None \<Rightarrow> (None, m) | Some ns \<Rightarrow> sealed (collapseNodes ent 0 [] ns m))"

section \<open>The refs of a forest\<close>

text \<open>A declared ref is counted together with a label of the entity that declares it.\<close>

definition refOf :: "string \<Rightarrow> 'l \<Rightarrow> (string \<times> 'l) multiset" where
  "refOf r l = (if r = [] then {#} else {#(r, l)#})"

fun nodeRefs :: "('d \<Rightarrow> string) \<Rightarrow> ('d \<Rightarrow> 'l) \<Rightarrow> 'd node \<Rightarrow> (string \<times> 'l) multiset" where
  "nodeRefs ref label (Node d None) = refOf (ref d) (label d)"
| "nodeRefs ref label (Node d (Some ks)) = refOf (ref d) (label d) + sum_list (map (nodeRefs ref label) ks)"

abbreviation forestRefs :: "('d \<Rightarrow> string) \<Rightarrow> ('d \<Rightarrow> 'l) \<Rightarrow> 'd node list \<Rightarrow> (string \<times> 'l) multiset" where
  "forestRefs ref label ns \<equiv> sum_list (map (nodeRefs ref label) ns)"

lemma nodeRefs_parts:
  "nodeRefs ref label n = refOf (ref (payload n)) (label (payload n)) + forestRefs ref label (fromPtr (children n))"
  by (cases "(ref, label, n)" rule: nodeRefs.cases) simp_all

lemma survivorRefs:
  fixes f :: "'n \<Rightarrow> 'r multiset"
  assumes "map_of result key = Some n"
  obtains rest where "sum_list (map f (map snd result)) = f n + rest"
    and "\<And>n'. sum_list (map f (map snd (AList.update key n' result))) = f n' + rest"
  using assms
proof (induction result arbitrary: thesis)
  case (Cons x result)
  show ?case
  proof (cases "fst x = key")
    case True
    then have "n = snd x" using Cons.prems(2) by (cases x) simp
    then show ?thesis using True by (intro Cons.prems(1) [of "sum_list (map f (map snd result))"]) (cases x; simp)+
  next
    case False
    then obtain rest where "sum_list (map f (map snd result)) = f n + rest"
      "\<And>n'. sum_list (map f (map snd (AList.update key n' result))) = f n' + rest"
      using Cons.IH Cons.prems(2) by (cases x) auto
    then show ?thesis using False by (intro Cons.prems(1) [of "f (snd x) + rest"]) (cases x; simp)+
  qed
qed simp

section \<open>Where refs go\<close>

text \<open>
  The abstract process: of all the declared refs, one declaration at a time goes away. Either another entity of the same label
  declares the same ref, or the ref is redirected to the ref of an entity of the same label that is still there.
\<close>

type_synonym 'l refState = "(string \<times> 'l) multiset \<times> (string \<rightharpoonup> string)"

inductive redirect :: "'l refState \<Rightarrow> 'l refState \<Rightarrow> bool" where
  repeated: "(x, l) \<in># M \<Longrightarrow> redirect (add_mset (x, l) M, m) (M, m)"
| moved: "x \<noteq> y \<Longrightarrow> (y, l) \<in># M \<Longrightarrow> redirect (add_mset (x, l) M, m) (M, m(x \<mapsto> y))"

abbreviation redirects :: "'l refState \<Rightarrow> 'l refState \<Rightarrow> bool" where
  "redirects \<equiv> redirect\<^sup>*\<^sup>*"

lemma redirect_frame: "redirect s t \<Longrightarrow> redirect (fst s + F, snd s) (fst t + F, snd t)"
proof (induction rule: redirect.induct)
  case (repeated x l M m)
  then show ?case using redirect.repeated [of x l "M + F" m] by simp
next
  case (moved x y l M m)
  then show ?case using redirect.moved [of x y l "M + F" m] by (simp del: fun_upd_apply)
qed

lemma redirects_frame: "redirects (M, m) (M', m') \<Longrightarrow> redirects (M + F, m) (M' + F, m')"
proof -
  have "redirects (fst s + F, snd s) (fst t + F, snd t)" if "redirects s t" for s t
    using that by (induction rule: rtranclp_induct) (auto dest: redirect_frame intro: rtranclp.rtrancl_into_rtrancl)
  from this [of "(M, m)" "(M', m')"] show "redirects (M, m) (M', m') \<Longrightarrow> redirects (M + F, m) (M' + F, m')" by simp
qed

lemma adoptRef_redirects:
  "redirects (refOf s l + refOf d l, map_of m) (refOf (fst (adoptRef s d m)) l, map_of (snd (adoptRef s d m)))"
proof (cases "s = [] \<or> d = []")
  case False
  then have "redirect (add_mset (d, l) {#(s, l)#}, map_of m) ({#(s, l)#}, if d = s then map_of m else (map_of m)(d \<mapsto> s))"
    using repeated [of s l "{#(s, l)#}"] moved [of d s l "{#(s, l)#}"] by auto
  then show ?thesis using False by (auto simp: adoptRef_def refOf_def add_mset_commute)
qed (auto simp: adoptRef_def refOf_def)

text \<open>The laws of the operations on one entity: only \<open>entSetRef\<close> changes the ref, no operation changes the label, and entities of
  the same key have the same label.\<close>

locale entity_laws =
  fixes ent :: "'d entity" and label :: "'d \<Rightarrow> 'l"
  assumes ref_setRef: "entRef ent (entSetRef ent r d) = r"
    and ref_canon: "entRef ent (entCanon ent d) = entRef ent d"
    and ref_merge: "entRef ent (entMerge ent s d) = entRef ent s"
    and label_setRef: "label (entSetRef ent r d) = label d"
    and label_canon: "label (entCanon ent d) = label d"
    and label_merge: "label (entMerge ent s d) = label s"
    and label_key: "entKey ent d i = entKey ent d' j \<Longrightarrow> label d = label d'"
begin

lemmas laws = ref_canon ref_merge ref_setRef label_canon label_merge label_setRef

text \<open>The survivors have the labels of their keys.\<close>

definition labelled :: "(string \<times> 'd node) list \<Rightarrow> bool" where
  "labelled result \<longleftrightarrow> (\<forall>k n. map_of result k = Some n \<longrightarrow> (\<forall>d i. entKey ent d i = k \<longrightarrow> label (payload n) = label d))"

lemma labelled_snoc: "labelled result \<Longrightarrow> map_of result (entKey ent d i) = None \<Longrightarrow>
    labelled (result @ [(entKey ent d i, Node (entCanon ent d) ks)])"
  by (auto simp: labelled_def map_add_def laws dest: label_key split: if_splits option.splits)

lemma labelled_update:
  "labelled result \<Longrightarrow> map_of result k = Some n \<Longrightarrow> label d = label (payload n) \<Longrightarrow> labelled (AList.update k (Node d ks) result)"
  by (auto simp: labelled_def split: if_splits)

lemma collapseNodes_redirects:
  "e = ent \<Longrightarrow> labelled result \<Longrightarrow>
   redirects (forestRefs (entRef e) label (map snd result) + forestRefs (entRef e) label ns, map_of m)
     (forestRefs (entRef e) label (map snd (fst (collapseNodes e i result ns m))), map_of (snd (collapseNodes e i result ns m)))"
proof (induction e i result ns m rule: collapseNodes.induct)
  case (1 e i result m)
  then show ?case by simp
next
  case (2 e i result n ns m)
  have empty: "labelled []" by (simp add: labelled_def)
  note IH = 2(1-4) [unfolded 2(5), simplified, simplified empty, simplified]
  let ?R = "forestRefs (entRef ent) label" and ?ref = "entRef ent"
  let ?own = "refOf (?ref (payload n)) (label (payload n))"
  define kids where "kids = (case children n of None \<Rightarrow> (None, m) | Some ks \<Rightarrow> sealed (collapseNodes ent 0 [] ks m))"
  define key where "key = entKey ent (payload n) i"
  note laws = laws nodeRefs_parts [of _ _ "Node a b" for a b]
  have "redirects (?R (fromPtr (children n)), map_of m) (?R (fromPtr (fst kids)), map_of (snd kids))"
    unfolding kids_def using IH(1) by (cases "children n") simp_all
  from redirects_frame [OF this, of "?R (map snd result) + ?own + ?R ns"]
  have T1: "redirects (?R (map snd result) + ?R (n # ns), map_of m)
      (?R (map snd result) + ?own + ?R (fromPtr (fst kids)) + ?R ns, map_of (snd kids))"
    by (simp add: nodeRefs_parts [of ?ref label n] ac_simps)
  show ?case
  proof (cases "map_of result key")
    case None
    have "collapseNodes ent i result (n # ns) m =
        collapseNodes ent (i + 1) (result @ [(key, Node (entCanon ent (payload n)) (fst kids))]) ns (snd kids)"
      using None by (simp add: key_def kids_def Let_def)
    then show ?thesis using rtranclp_trans [OF T1] IH(2) [OF kids_def key_def None] 2(5)
        labelled_snoc [OF 2(6) None [unfolded key_def]] by (simp add: laws add.assoc key_def)
  next
    case (Some survivor)
    define adopted where "adopted = adoptRef (?ref (payload survivor)) (?ref (payload n)) (snd kids)"
    define merged where "merged = (case fst kids of None \<Rightarrow> (children survivor, snd adopted)
      | Some ks \<Rightarrow> sealed (collapseNodes ent 0 [] (fromPtr (children survivor) @ ks) (snd adopted)))"
    define d where "d = entCanon ent (entMerge ent (entSetRef ent (fst adopted) (payload survivor)) (payload n))"
    have same: "label (payload survivor) = label (payload n)" using 2(6) Some by (auto simp: labelled_def key_def)
    obtain rest where rest: "?R (map snd result) = nodeRefs ?ref label survivor + rest"
      "\<And>n'. ?R (map snd (AList.update key n' result)) = nodeRefs ?ref label n' + rest"
      using survivorRefs [OF Some] by blast
    have "redirects (refOf (?ref (payload survivor)) (label (payload n)) + ?own, map_of (snd kids))
        (refOf (fst adopted) (label (payload n)), map_of (snd adopted))"
      unfolding adopted_def by (rule adoptRef_redirects)
    from redirects_frame [OF this, of "?R (fromPtr (children survivor)) + ?R (fromPtr (fst kids)) + rest + ?R ns"]
    have T2: "redirects (?R (map snd result) + ?own + ?R (fromPtr (fst kids)) + ?R ns, map_of (snd kids))
        (refOf (fst adopted) (label (payload n)) + ?R (fromPtr (children survivor)) + ?R (fromPtr (fst kids)) + rest + ?R ns, map_of (snd adopted))"
      by (simp only: rest(1) nodeRefs_parts [of ?ref label survivor] same ac_simps)
    have "redirects (?R (fromPtr (children survivor)) + ?R (fromPtr (fst kids)), map_of (snd adopted))
        (?R (fromPtr (fst merged)), map_of (snd merged))"
      using IH(3) [OF kids_def key_def Some adopted_def] by (cases "fst kids") (simp_all add: merged_def)
    from redirects_frame [OF this, of "refOf (fst adopted) (label (payload n)) + rest + ?R ns"]
    have T3: "redirects (refOf (fst adopted) (label (payload n)) + ?R (fromPtr (children survivor)) + ?R (fromPtr (fst kids)) + rest + ?R ns, map_of (snd adopted))
        (?R (map snd (AList.update key (Node d (fst merged)) result)) + ?R ns, map_of (snd merged))"
      by (simp add: rest(2) [simplified] laws d_def same ac_simps)
    have "collapseNodes ent i result (n # ns) m =
        collapseNodes ent (i + 1) (AList.update key (Node d (fst merged)) result) ns (snd merged)"
      by (simp only: collapseNodes.simps(2) Let_def Some option.case flip: key_def kids_def adopted_def merged_def d_def)
    moreover have "labelled (AList.update key (Node d (fst merged)) result)"
      using 2(6) Some by (rule labelled_update) (simp add: d_def laws)
    ultimately show ?thesis
      using rtranclp_trans [OF rtranclp_trans [OF T1 T2] T3] IH(4) [OF kids_def key_def Some adopted_def merged_def d_def] 2(5)
      by simp
  qed
qed

lemma canonicalizeNodes_redirects:
  "redirects (forestRefs (entRef ent) label (fromPtr p), map_of m)
     (forestRefs (entRef ent) label (fromPtr (fst (canonicalizeNodes ent p m))), map_of (snd (canonicalizeNodes ent p m)))"
  using collapseNodes_redirects [OF refl, of "[]" _ m 0] by (cases p) (simp_all add: canonicalizeNodes_def labelled_def)

end

section \<open>Siblings are told apart\<close>

text \<open>When equal labels of a kind mean equal keys, no two siblings of the result have the same label of that kind, on any level,
  and the labels of the top level are those of the input.\<close>

locale identified_entity = entity_laws +
  fixes identified :: "'b \<Rightarrow> bool"
  assumes label_identifies: "identified (label d) \<Longrightarrow> label d = label d' \<Longrightarrow> entKey ent d i = entKey ent d' j"
begin

abbreviation labels :: "'a node list \<Rightarrow> 'b list" where
  "labels ns \<equiv> map (\<lambda>n. label (payload n)) ns"

definition apart :: "'a node list \<Rightarrow> bool" where
  "apart ns \<longleftrightarrow> distinct (filter identified (labels ns))"

fun allApart :: "'a node \<Rightarrow> bool" where
  "allApart (Node d None) \<longleftrightarrow> True"
| "allApart (Node d (Some ks)) \<longleftrightarrow> apart ks \<and> list_all allApart ks"

lemma allApart_parts: "allApart n \<longleftrightarrow> apart (fromPtr (children n)) \<and> list_all allApart (fromPtr (children n))"
  by (cases n rule: allApart.cases) (simp_all add: apart_def)

definition keyed :: "(string \<times> 'a node) list \<Rightarrow> bool" where
  "keyed result \<longleftrightarrow> is_goMap result \<and> list_all (\<lambda>(k, n). allApart n \<and> (\<exists>d i. k = entKey ent d i \<and> label (payload n) = label d)) result"

lemma keyed_apart: "keyed result \<Longrightarrow> apart (map snd result)"
proof (induction result)
  case (Cons x result)
  obtain k n where x: "x = (k, n)" by fastforce
  have "label (payload n) \<noteq> label (payload n')" if id: "identified (label (payload n))" and n': "(k', n') \<in> set result" for k' n'
  proof
    assume eq: "label (payload n) = label (payload n')"
    obtain d i d' i' where k: "k = entKey ent d i" "label (payload n) = label d" "k' = entKey ent d' i'" "label (payload n') = label d'"
      using Cons.prems n' x by (fastforce simp: keyed_def list_all_iff)
    then have "k = k'" using label_identifies [of d d'] id eq by metis
    then show False using Cons.prems n' x by (auto simp: keyed_def is_goMap_Cons dest: keys_memI)
  qed
  then have "label (payload n) \<notin> set (labels (map snd result))" if "identified (label (payload n))" using that by fastforce
  moreover have "apart (map snd result)" using Cons by (simp add: keyed_def is_goMap_Cons)
  ultimately show ?case by (simp add: apart_def x)
qed (simp add: apart_def)

lemma keyed_sealed:
  assumes "keyed (fst r)"
  shows "apart (fromPtr (fst (sealed r))) \<and> list_all allApart (fromPtr (fst (sealed r)))"
  using assms keyed_apart by (auto simp: keyed_def list_all_iff)

lemma set_AList_update: "set (AList.update k v al) \<subseteq> insert (k, v) (set al)"
  by (induction al) auto

lemma keyed_update:
  assumes "keyed result" "allApart n" "\<exists>d i. k = entKey ent d i \<and> label (payload n) = label d"
  shows "keyed (AList.update k n result)"
  using assms set_AList_update [of k n result] by (fastforce simp: keyed_def list_all_iff)

lemma collapse_keyed:
  "e = ent \<Longrightarrow> keyed result \<Longrightarrow>
   keyed (fst (collapseNodes e i result ns m)) \<and>
   set (labels (map snd (fst (collapseNodes e i result ns m)))) = set (labels (map snd result)) \<union> set (labels ns)"
proof (induction e i result ns m rule: collapseNodes.induct)
  case (1 e i result m)
  then show ?case by simp
next
  case (2 e i result n ns m)
  have empty: "keyed []" by (simp add: keyed_def)
  note IH = 2(1-4) [unfolded 2(5), simplified, simplified empty, simplified]
  define kids where "kids = (case children n of None \<Rightarrow> (None, m) | Some ks \<Rightarrow> sealed (collapseNodes ent 0 [] ks m))"
  define key where "key = entKey ent (payload n) i"
  have kids: "apart (fromPtr (fst kids)) \<and> list_all allApart (fromPtr (fst kids))"
    unfolding kids_def using IH(1) keyed_sealed by (cases "children n") (simp_all add: apart_def)
  show ?case
  proof (cases "map_of result key")
    case None
    let ?result = "result @ [(key, Node (entCanon ent (payload n)) (fst kids))]"
    have "collapseNodes ent i result (n # ns) m = collapseNodes ent (i + 1) ?result ns (snd kids)"
      using None by (simp add: key_def kids_def Let_def)
    moreover have "?result = AList.update key (Node (entCanon ent (payload n)) (fst kids)) result"
      using None by (simp add: update_fresh keys_iff)
    moreover have "keyed (AList.update key (Node (entCanon ent (payload n)) (fst kids)) result)"
      using 2(6) by (rule keyed_update) (use kids in \<open>auto simp: allApart_parts key_def laws\<close>)
    ultimately show ?thesis using IH(2) [OF kids_def key_def None] 2(5) by (auto simp: laws)
  next
    case (Some survivor)
    define adopted where "adopted = adoptRef (entRef ent (payload survivor)) (entRef ent (payload n)) (snd kids)"
    define merged where "merged = (case fst kids of None \<Rightarrow> (children survivor, snd adopted)
      | Some ks \<Rightarrow> sealed (collapseNodes ent 0 [] (fromPtr (children survivor) @ ks) (snd adopted)))"
    define d where "d = entCanon ent (entMerge ent (entSetRef ent (fst adopted) (payload survivor)) (payload n))"
    let ?result = "AList.update key (Node d (fst merged)) result"
    have mem: "(key, survivor) \<in> set result" using Some by (rule map_of_SomeD)
    then have survivor: "allApart survivor" and lab: "\<exists>d i. key = entKey ent d i \<and> label (payload survivor) = label d"
      using 2(6) by (auto simp: keyed_def list_all_iff)
    from lab obtain d' j where "key = entKey ent d' j" "label (payload survivor) = label d'" by blast
    then have same: "label (payload survivor) = label (payload n)" using label_key [of "payload n" i d' j] by (simp add: key_def)
    have merged: "apart (fromPtr (fst merged)) \<and> list_all allApart (fromPtr (fst merged))"
      using IH(3) [OF kids_def key_def Some adopted_def] keyed_sealed survivor
      by (cases "fst kids") (simp_all add: merged_def allApart_parts)
    have "keyed ?result" using 2(6) by (rule keyed_update) (use merged lab in \<open>auto simp: allApart_parts d_def laws\<close>)
    moreover have "set (labels (map snd ?result)) = set (labels (map snd result)) \<union> {label (payload n)}"
    proof -
      have "map (\<lambda>p. label (payload (snd p))) (AList.update key v al) = map (\<lambda>p. label (payload (snd p))) al"
        if "map_of al key = Some s" "label (payload v) = label (payload s)" for al v s
        using that by (induction al) (auto split: if_splits)
      from this [OF Some, of "Node d (fst merged)"] have "labels (map snd ?result) = labels (map snd result)"
        by (simp add: d_def laws o_def)
      moreover have "label (payload n) \<in> set (labels (map snd result))" using mem same by force
      ultimately show ?thesis by auto
    qed
    moreover have "collapseNodes ent i result (n # ns) m = collapseNodes ent (i + 1) ?result ns (snd merged)"
      by (simp only: collapseNodes.simps(2) Let_def Some option.case flip: key_def kids_def adopted_def merged_def d_def)
    ultimately show ?thesis using IH(4) [OF kids_def key_def Some adopted_def merged_def d_def] 2(5) by auto
  qed
qed

lemma canonicalizeNodes_apart:
  "apart (fromPtr (fst (canonicalizeNodes ent p m))) \<and> list_all allApart (fromPtr (fst (canonicalizeNodes ent p m))) \<and>
   set (labels (fromPtr (fst (canonicalizeNodes ent p m)))) = set (labels (fromPtr p))"
proof (cases p)
  case (Some ns)
  have "keyed []" by (simp add: keyed_def)
  from collapse_keyed [OF refl this, of 0 ns m] keyed_sealed [of "collapseNodes ent 0 [] ns m"] Some
  show ?thesis by (simp add: canonicalizeNodes_def)
qed (simp add: canonicalizeNodes_def apart_def)

end

end
