(* ===== verification/SbomRefs.thy ===== *)
theory SbomRefs
  imports SbomForest
begin

text \<open>
  The refs of a document (\<^verbatim>\<open>src/pkg/sbom/cyclonedxutil/bomref.go\<close>, \<^verbatim>\<open>namespace.go\<close> and the reference part of \<^verbatim>\<open>canonicalize.go\<close>):
  which refs a document declares, how references are rewritten along a map of refs, how the map of merged refs is flattened,
  the prefixes of a namespace, and the derivation of new refs. SHA-256 and the package URL library are parameters.
\<close>

record PackageURL =
  purlQualifiers :: "(string \<times> string) list"
  purlRest :: opaque

record refEnv =
  sha256Hex :: "string \<Rightarrow> string"
  purlFromString :: "string \<Rightarrow> PackageURL option"
  purlToString :: "PackageURL \<Rightarrow> string"

section \<open>Walks over a forest\<close>

fun mapState :: "('a \<Rightarrow> 's \<Rightarrow> 'b \<times> 's) \<Rightarrow> 'a list \<Rightarrow> 's \<Rightarrow> 'b list \<times> 's" where
  "mapState f [] s = ([], s)"
| "mapState f (x # xs) s = (let r = f x s; rs = mapState f xs (snd r) in (fst r # fst rs, snd rs))"

lemma mapState_cong [fundef_cong]:
  "xs = ys \<Longrightarrow> s = t \<Longrightarrow> (\<And>x s. x \<in> set ys \<Longrightarrow> f x s = g x s) \<Longrightarrow> mapState f xs s = mapState g ys t"
  by (induction xs arbitrary: ys s t) (auto simp: Let_def)

definition mapPtr :: "('a \<Rightarrow> 's \<Rightarrow> 'b \<times> 's) \<Rightarrow> 'a list option \<Rightarrow> 's \<Rightarrow> 'b list option \<times> 's" where
  "mapPtr f p s = (case p of None \<Rightarrow> (None, s) | Some xs \<Rightarrow> let r = mapState f xs s in (Some (fst r), snd r))"

text \<open>An entity is visited before the entities inside it.\<close>

fun walkNode :: "('d \<Rightarrow> 's \<Rightarrow> 'd \<times> 's) \<Rightarrow> 'd node \<Rightarrow> 's \<Rightarrow> 'd node \<times> 's" where
  "walkNode f (Node d None) s = (let r = f d s in (Node (fst r) None, snd r))"
| "walkNode f (Node d (Some ks)) s = (let r = f d s; rs = mapState (walkNode f) ks (snd r) in (Node (fst r) (Some (fst rs)), snd rs))"

definition walkNodes :: "('d \<Rightarrow> 's \<Rightarrow> 'd \<times> 's) \<Rightarrow> 'd node list option \<Rightarrow> 's \<Rightarrow> 'd node list option \<times> 's" where
  "walkNodes f = mapPtr (walkNode f)"

text \<open>A change of one ref, on the data that carry it.\<close>

definition onComponent :: "(ComponentData \<Rightarrow> string \<Rightarrow> 's \<Rightarrow> string \<times> 's) \<Rightarrow> ComponentData \<Rightarrow> 's \<Rightarrow> ComponentData \<times> 's" where
  "onComponent f d s = (let r = f d (cBOMRef d) s in (d\<lparr>cBOMRef := fst r\<rparr>, snd r))"

definition onService :: "(string \<Rightarrow> 's \<Rightarrow> string \<times> 's) \<Rightarrow> ServiceData \<Rightarrow> 's \<Rightarrow> ServiceData \<times> 's" where
  "onService f d s = (let r = f (sBOMRef d) s in (d\<lparr>sBOMRef := fst r\<rparr>, snd r))"

definition onVulnerability :: "(string \<Rightarrow> 's \<Rightarrow> string \<times> 's) \<Rightarrow> Vulnerability \<Rightarrow> 's \<Rightarrow> Vulnerability \<times> 's" where
  "onVulnerability f v s = (let r = f (vBOMRef v) s in (v\<lparr>vBOMRef := fst r\<rparr>, snd r))"

definition onComposition :: "(string \<Rightarrow> 's \<Rightarrow> string \<times> 's) \<Rightarrow> Composition \<Rightarrow> 's \<Rightarrow> Composition \<times> 's" where
  "onComposition f c s = (let r = f (cpBOMRef c) s in (c\<lparr>cpBOMRef := fst r\<rparr>, snd r))"

definition onAnnotation :: "(string \<Rightarrow> 's \<Rightarrow> string \<times> 's) \<Rightarrow> Annotation \<Rightarrow> 's \<Rightarrow> Annotation \<times> 's" where
  "onAnnotation f a s = (let r = f (anBOMRef a) s in (a\<lparr>anBOMRef := fst r\<rparr>, snd r))"

definition onFormula ::
  "(ComponentData \<Rightarrow> string \<Rightarrow> 's \<Rightarrow> string \<times> 's) \<Rightarrow> (string \<Rightarrow> 's \<Rightarrow> string \<times> 's) \<Rightarrow> Formula \<Rightarrow> 's \<Rightarrow> Formula \<times> 's" where
  "onFormula fc f formula s =
     (let r = f (fBOMRef formula) s;
          cs = walkNodes (onComponent fc) (fComponents formula) (snd r);
          ss = walkNodes (onService f) (fServices formula) (snd cs)
      in (formula\<lparr>fBOMRef := fst r, fComponents := fst cs, fServices := fst ss\<rparr>, snd ss))"

definition onTools ::
  "(ComponentData \<Rightarrow> string \<Rightarrow> 's \<Rightarrow> string \<times> 's) \<Rightarrow> (string \<Rightarrow> 's \<Rightarrow> string \<times> 's) \<Rightarrow> BOM \<Rightarrow> 's \<Rightarrow> BOM \<times> 's" where
  "onTools fc f bom s =
     (case bomTools bom of
        None \<Rightarrow> (bom, s)
      | Some tools \<Rightarrow>
          let cs = walkNodes (onComponent fc) (tcComponents tools) s;
              ss = walkNodes (onService f) (tcServices tools) (snd cs)
          in (mapTools (\<lambda>_. tools\<lparr>tcComponents := fst cs, tcServices := fst ss\<rparr>) bom, snd ss))"

definition onEntities ::
  "(ComponentData \<Rightarrow> string \<Rightarrow> 's \<Rightarrow> string \<times> 's) \<Rightarrow> (string \<Rightarrow> 's \<Rightarrow> string \<times> 's) \<Rightarrow> BOM \<Rightarrow> 's \<Rightarrow> BOM \<times> 's" where
  "onEntities fc f bom s =
     (let cs = walkNodes (onComponent fc) (bComponents bom) s;
          ss = walkNodes (onService f) (bServices bom) (snd cs)
      in (bom\<lparr>bComponents := fst cs, bServices := fst ss\<rparr>, snd ss))"

text \<open>The parts after the components and services are visited in the same order everywhere.\<close>

definition onSections ::
  "(ComponentData \<Rightarrow> string \<Rightarrow> 's \<Rightarrow> string \<times> 's) \<Rightarrow> (string \<Rightarrow> 's \<Rightarrow> string \<times> 's) \<Rightarrow> BOM \<Rightarrow> 's \<Rightarrow> BOM \<times> 's" where
  "onSections fc f bom s =
     (let fs = mapPtr (onFormula fc f) (bFormulation bom) s;
          vs = mapPtr (onVulnerability f) (bVulnerabilities bom) (snd fs);
          ps = mapPtr (onComposition f) (bCompositions bom) (snd vs);
          as = mapPtr (onAnnotation f) (bAnnotations bom) (snd ps)
      in (bom\<lparr>bFormulation := fst fs, bVulnerabilities := fst vs, bCompositions := fst ps, bAnnotations := fst as\<rparr>, snd as))"

section \<open>Rewriting of references\<close>

definition remapRef :: "string \<Rightarrow> refMap \<Rightarrow> string" where
  "remapRef ref m = (case map_of m ref of Some newRef \<Rightarrow> newRef | None \<Rightarrow> ref)"

definition remapSlice :: "string list option \<Rightarrow> refMap \<Rightarrow> string list option" where
  "remapSlice ss m = map_option (map (\<lambda>ref. remapRef ref m)) ss"

definition rewriteDependency :: "refMap \<Rightarrow> DependencyEntry \<Rightarrow> DependencyEntry" where
  "rewriteDependency m dep =
     dep\<lparr>depRef := remapRef (depRef dep) m, depDependencies := remapSlice (depDependencies dep) m,
         depProvides := remapSlice (depProvides dep) m\<rparr>"

definition rewriteVulnerability :: "refMap \<Rightarrow> Vulnerability \<Rightarrow> Vulnerability" where
  "rewriteVulnerability m v =
     v\<lparr>vAffects := map_option (map (\<lambda>a. a\<lparr>affRef := remapRef (affRef a) m\<rparr>)) (vAffects v)\<rparr>"

definition rewriteComposition :: "refMap \<Rightarrow> Composition \<Rightarrow> Composition" where
  "rewriteComposition m c =
     c\<lparr>cpAssemblies := remapSlice (cpAssemblies c) m, cpDependencies := remapSlice (cpDependencies c) m,
       cpVulnerabilities := remapSlice (cpVulnerabilities c) m\<rparr>"

definition rewriteAnnotation :: "refMap \<Rightarrow> Annotation \<Rightarrow> Annotation" where
  "rewriteAnnotation m a = a\<lparr>anSubjects := remapSlice (anSubjects a) m\<rparr>"

definition rewriteDeclared :: "refMap \<Rightarrow> Declared \<Rightarrow> Declared" where
  "rewriteDeclared m d = d\<lparr>dcBOMRef := remapRef (dcBOMRef d) m\<rparr>"

definition rewriteDeclarations :: "refMap \<Rightarrow> Declarations \<Rightarrow> Declarations" where
  "rewriteDeclarations m d =
     d\<lparr>dsAssessors := map_option (map (rewriteDeclared m)) (dsAssessors d),
       dsClaims := map_option (map (rewriteDeclared m)) (dsClaims d),
       dsEvidence := map_option (map (rewriteDeclared m)) (dsEvidence d)\<rparr>"

definition RewriteRefs :: "BOM \<Rightarrow> refMap \<Rightarrow> BOM" where
  "RewriteRefs bom m =
     (if m = [] then bom
      else bom\<lparr>bDependencies := map_option (map (rewriteDependency m)) (bDependencies bom),
               bVulnerabilities := map_option (map (rewriteVulnerability m)) (bVulnerabilities bom),
               bCompositions := map_option (map (rewriteComposition m)) (bCompositions bom),
               bAnnotations := map_option (map (rewriteAnnotation m)) (bAnnotations bom),
               bDeclarations := map_option (rewriteDeclarations m) (bDeclarations bom)\<rparr>)"

section \<open>Declared refs\<close>

definition refList :: "string \<Rightarrow> string list" where
  "refList ref = (if ref \<noteq> [] then [ref] else [])"

fun collectNode :: "('d \<Rightarrow> string) \<Rightarrow> 'd node \<Rightarrow> string list" where
  "collectNode ref (Node d None) = refList (ref d)"
| "collectNode ref (Node d (Some ks)) = refList (ref d) @ concat (map (collectNode ref) ks)"

definition collectNodes :: "('d \<Rightarrow> string) \<Rightarrow> 'd node list option \<Rightarrow> string list" where
  "collectNodes ref p = concat (map (collectNode ref) (fromPtr p))"

definition collectKnownRefs :: "BOM \<Rightarrow> string list" where
  "collectKnownRefs bom =
     (case bomRoot bom of None \<Rightarrow> [] | Some root \<Rightarrow> collectNode cBOMRef root) @
     collectNodes cBOMRef (bComponents bom) @
     collectNodes sBOMRef (bServices bom) @
     (case bomTools bom of None \<Rightarrow> [] | Some tools \<Rightarrow> collectNodes cBOMRef (tcComponents tools) @ collectNodes sBOMRef (tcServices tools)) @
     concat (map (\<lambda>formula. collectNodes cBOMRef (fComponents formula) @ collectNodes sBOMRef (fServices formula))
       (fromPtr (bFormulation bom))) @
     concat (map (\<lambda>vuln. refList (vBOMRef vuln)) (fromPtr (bVulnerabilities bom)))"

definition dropSurvivingRefs :: "refMap \<Rightarrow> string list \<Rightarrow> refMap" where
  "dropSurvivingRefs m knownRefs = filter (\<lambda>(ref, target). ref \<notin> set knownRefs) m"

text \<open>The loop that follows a chain, with the refs seen so far.\<close>

function followRef :: "refMap \<Rightarrow> string list \<Rightarrow> string \<Rightarrow> string" where
  "followRef m seen target =
     (case map_of m target of
        None \<Rightarrow> target
      | Some nxt \<Rightarrow> if nxt \<in> set seen then target else followRef m (nxt # seen) nxt)"
  by pat_completeness auto
termination
proof (relation "measure (\<lambda>(m, seen, target). card (snd ` set m - set seen))", goal_cases)
  case (2 m seen target nxt)
  then have "nxt \<in> snd ` set m - set seen" by (force dest: map_of_SomeD)
  then have "card (snd ` set m - set seen - {nxt}) < card (snd ` set m - set seen)" by (intro psubset_card_mono) auto
  moreover have "snd ` set m - set (nxt # seen) = snd ` set m - set seen - {nxt}" by auto
  ultimately show ?case by simp
qed simp

declare followRef.simps [simp del]

definition flattenRefMap :: "refMap \<Rightarrow> refMap" where
  "flattenRefMap m = map (\<lambda>(ref, target). (ref, followRef m [ref, target] target)) m"

section \<open>Namespaces\<close>

definition namespacedRef :: "string \<Rightarrow> string \<Rightarrow> string" where
  "namespacedRef ref pre = pre @ ''/'' @ ref"

definition namespaceRef :: "string \<Rightarrow> string \<Rightarrow> refMap \<Rightarrow> string \<times> refMap" where
  "namespaceRef pre ref m =
     (if ref = [] then (ref, m) else (namespacedRef ref pre, AList.update ref (namespacedRef ref pre) m))"

definition namespaceRoot :: "string \<Rightarrow> BOM \<Rightarrow> refMap \<Rightarrow> BOM \<times> refMap" where
  "namespaceRoot pre bom m =
     (case bomRoot bom of
        None \<Rightarrow> (bom, m)
      | Some root \<Rightarrow> let r = walkNode (onComponent (\<lambda>_. namespaceRef pre)) root m in (mapRoot (\<lambda>_. fst r) bom, snd r))"

definition isBOMLink :: "string \<Rightarrow> bool" where
  "isBOMLink ref \<longleftrightarrow> HasPrefix ref ''urn:cdx:''"

text \<open>All references of a document, in the order in which they are visited.\<close>

definition bomReferences :: "BOM \<Rightarrow> string list" where
  "bomReferences bom =
     concat (map (\<lambda>dep. depRef dep # fromPtr (depDependencies dep) @ fromPtr (depProvides dep)) (fromPtr (bDependencies bom))) @
     concat (map (\<lambda>vuln. map affRef (fromPtr (vAffects vuln))) (fromPtr (bVulnerabilities bom))) @
     concat (map (\<lambda>c. fromPtr (cpAssemblies c) @ fromPtr (cpDependencies c) @ fromPtr (cpVulnerabilities c)) (fromPtr (bCompositions bom))) @
     concat (map (\<lambda>a. fromPtr (anSubjects a)) (fromPtr (bAnnotations bom)))"

definition visitReference :: "string \<Rightarrow> string \<Rightarrow> refMap \<Rightarrow> string \<Rightarrow> refMap" where
  "visitReference serial pre m ref =
     (if map_of m ref \<noteq> None \<or> ref = [] \<or> ref = serial \<or> isBOMLink ref then m else AList.update ref (namespacedRef ref pre) m)"

definition namespaceUndeclaredReferences :: "BOM \<Rightarrow> string \<Rightarrow> refMap \<Rightarrow> refMap" where
  "namespaceUndeclaredReferences bom pre m = foldl (visitReference (bSerialNumber bom) pre) m (bomReferences bom)"

definition NamespaceBOMRefs :: "BOM \<Rightarrow> string \<Rightarrow> BOM" where
  "NamespaceBOMRefs bom pre =
     (let r1 = namespaceRoot pre bom [];
          r2 = onTools (\<lambda>_. namespaceRef pre) (namespaceRef pre) (fst r1) (snd r1);
          r3 = onEntities (\<lambda>_. namespaceRef pre) (namespaceRef pre) (fst r2) (snd r2);
          r4 = onSections (\<lambda>_. namespaceRef pre) (namespaceRef pre) (fst r3) (snd r3)
      in RewriteRefs (fst r4) (namespaceUndeclaredReferences (fst r4) pre (snd r4)))"

section \<open>Derived refs\<close>

definition packageIDQualifier :: string where
  "packageIDQualifier = ''package-id''"

text \<open>Eight bytes of the hash are sixteen hexadecimal digits.\<close>

definition packageID :: "refEnv \<Rightarrow> string \<Rightarrow> nat \<Rightarrow> string" where
  "packageID env serial index = take 16 (sha256Hex env (serial @ '':'' @ fmtNat index))"

definition deriveBomRef :: "refEnv \<Rightarrow> string \<Rightarrow> string \<Rightarrow> nat \<Rightarrow> string" where
  "deriveBomRef env purl serial index =
     (let pid = packageID env serial index in
      case purlFromString env purl of
        None \<Rightarrow> pid
      | Some parsed \<Rightarrow>
          purlToString env
            (parsed\<lparr>purlQualifiers := filter (\<lambda>(key, val). key \<noteq> packageIDQualifier) (purlQualifiers parsed) @ [(packageIDQualifier, pid)]\<rparr>))"

definition assignNewRef :: "refEnv \<Rightarrow> string \<Rightarrow> string \<Rightarrow> string \<Rightarrow> nat \<Rightarrow> refMap \<Rightarrow> string \<times> refMap" where
  "assignNewRef env oldRef purl serial index m =
     (let newRef = deriveBomRef env purl serial index
      in (newRef, if oldRef \<noteq> newRef then AList.update oldRef newRef m else m))"

text \<open>The state of the derivation: the index and the map of refs.\<close>

definition derive :: "refEnv \<Rightarrow> string \<Rightarrow> string \<Rightarrow> string \<Rightarrow> nat \<times> refMap \<Rightarrow> string \<times> nat \<times> refMap" where
  "derive env serial purl ref d =
     (let r = (if ref \<noteq> [] then assignNewRef env ref purl serial (fst d) (snd d) else (ref, snd d))
      in (fst r, fst d + 1, snd r))"

definition ensureUniqueBOMRefs :: "refEnv \<Rightarrow> BOM \<Rightarrow> BOM" where
  "ensureUniqueBOMRefs env bom =
     (let fc = (\<lambda>component. derive env (bSerialNumber bom) (cPackageURL component)); f = derive env (bSerialNumber bom) [];
          r1 = onEntities fc f bom (0, []);
          r2 = onTools fc f (fst r1) (snd r1);
          r3 = onSections fc f (fst r2) (snd r2)
      in RewriteRefs (fst r3) (snd (snd r3)))"

end
