(* ===== verification/SbomGost.thy ===== *)
theory SbomGost
  imports Sbom GoSpace
begin

text \<open>
  The GOST properties of a document (\<^verbatim>\<open>src/pkg/sbom/cyclonedxutil/gost\<close>, without the choice of the dependencies): the values
  and their order, the accessor of a component, the list of source languages, and the validation. The result of the
  validation is the error or \<open>()\<close>.
\<close>

section \<open>Values\<close>

definition PropertyAttackSurface :: string where
  "PropertyAttackSurface = ''GOST:attack_surface''"

definition PropertySecurityFunction :: string where
  "PropertySecurityFunction = ''GOST:security_function''"

definition PropertySourceLangs :: string where
  "PropertySourceLangs = ''GOST:source_langs''"

type_synonym GostValue = string

definition GostValueYes :: GostValue where "GostValueYes = ''yes''"
definition GostValueNo :: GostValue where "GostValueNo = ''no''"
definition GostValueIndirect :: GostValue where "GostValueIndirect = ''indirect''"
definition GostValueUndefined :: GostValue where "GostValueUndefined = []"

lemmas gost_values = GostValueYes_def GostValueNo_def GostValueIndirect_def GostValueUndefined_def

record Config =
  AttackSurface :: GostValue
  SecurityFunction :: GostValue

definition DefaultConfig :: Config where
  "DefaultConfig = \<lparr>AttackSurface = GostValueYes, SecurityFunction = GostValueYes\<rparr>"

definition IsUndefined :: "GostValue \<Rightarrow> bool" where
  "IsUndefined v \<longleftrightarrow> v = GostValueUndefined"

definition Config_Merge :: "Config \<Rightarrow> Config \<Rightarrow> Config" where
  "Config_Merge c other =
     (let res = (if \<not> IsUndefined (AttackSurface other) then c\<lparr>AttackSurface := AttackSurface other\<rparr> else c)
      in if \<not> IsUndefined (SecurityFunction other) then res\<lparr>SecurityFunction := SecurityFunction other\<rparr> else res)"

definition IsValidAttackSurfaceValue :: "string \<Rightarrow> bool" where
  "IsValidAttackSurfaceValue v \<longleftrightarrow> v = GostValueYes \<or> v = GostValueNo \<or> v = GostValueIndirect"

definition IsValidSecurityFunctionValue :: "string \<Rightarrow> bool" where
  "IsValidSecurityFunctionValue v \<longleftrightarrow> v = GostValueYes \<or> v = GostValueNo"

text \<open>A value that is not in the table has the precedence 0.\<close>

definition gostValuePrecedence :: "GostValue \<Rightarrow> nat" where
  "gostValuePrecedence v =
     (if v = GostValueNo then 1 else if v = GostValueIndirect then 2 else if v = GostValueYes then 3 else 0)"

definition gostMax :: "GostValue \<Rightarrow> GostValue \<Rightarrow> GostValue" where
  "gostMax a b = (if gostValuePrecedence b > gostValuePrecedence a then b else a)"

section \<open>Accessor\<close>

definition getProperty :: "ComponentData \<Rightarrow> string \<Rightarrow> GostValue \<times> bool" where
  "getProperty component name =
     (case find (\<lambda>prop. propName prop = name) (fromPtr (cProperties component)) of
        Some prop \<Rightarrow> (propValue prop, True)
      | None \<Rightarrow> (GostValueUndefined, False))"

text \<open>The first property of the name is updated, or a property is added at the end.\<close>

fun setFirst :: "string \<Rightarrow> GostValue \<Rightarrow> Property list \<Rightarrow> Property list" where
  "setFirst name val [] = [\<lparr>propName = name, propValue = val\<rparr>]"
| "setFirst name val (prop # props) =
     (if propName prop = name then prop\<lparr>propValue := val\<rparr> # props else prop # setFirst name val props)"

definition setProperty :: "ComponentData \<Rightarrow> string \<Rightarrow> GostValue \<Rightarrow> ComponentData" where
  "setProperty component name val =
     (if IsUndefined val then component else component\<lparr>cProperties := Some (setFirst name val (fromPtr (cProperties component)))\<rparr>)"

definition GetAttackSurface :: "ComponentData \<Rightarrow> GostValue \<times> bool" where
  "GetAttackSurface component = getProperty component PropertyAttackSurface"

definition SetAttackSurface :: "ComponentData \<Rightarrow> GostValue \<Rightarrow> ComponentData" where
  "SetAttackSurface component val = setProperty component PropertyAttackSurface val"

definition GetSecurityFunction :: "ComponentData \<Rightarrow> GostValue \<times> bool" where
  "GetSecurityFunction component = getProperty component PropertySecurityFunction"

definition SetSecurityFunction :: "ComponentData \<Rightarrow> GostValue \<Rightarrow> ComponentData" where
  "SetSecurityFunction component val = setProperty component PropertySecurityFunction val"

definition SetComponent :: "ComponentData \<Rightarrow> Config \<Rightarrow> ComponentData" where
  "SetComponent component config =
     SetSecurityFunction (SetAttackSurface component (AttackSurface config)) (SecurityFunction config)"

definition GetComponent :: "ComponentData \<Rightarrow> Config" where
  "GetComponent component =
     \<lparr>AttackSurface = fst (GetAttackSurface component), SecurityFunction = fst (GetSecurityFunction component)\<rparr>"

lemmas gost_access = GetAttackSurface_def SetAttackSurface_def GetSecurityFunction_def SetSecurityFunction_def

section \<open>Source languages\<close>

definition joinSourceLangs :: "string list \<Rightarrow> string" where
  "joinSourceLangs langs = Join langs '',''"

definition splitSourceLangs :: "string \<Rightarrow> string list" where
  "splitSourceLangs raw = SplitChar raw (CHR '','')"

text \<open>\<^verbatim>\<open>lo.Uniq\<close> keeps the first of equal elements.\<close>

definition loUniq :: "'a list \<Rightarrow> 'a list" where
  "loUniq xs = foldl snocNew [] xs"

definition normalizeSourceLangs :: "string list \<Rightarrow> string list" where
  "normalizeSourceLangs langs =
     (let trimmed = filter (\<lambda>lang. lang \<noteq> []) (map TrimSpace langs)
      in if trimmed = [] then [] else sort (loUniq trimmed))"

definition NormalizeSourceLangsValue :: "string \<Rightarrow> string" where
  "NormalizeSourceLangsValue raw = joinSourceLangs (normalizeSourceLangs (splitSourceLangs raw))"

definition MergeSourceLangsValues :: "string \<Rightarrow> string \<Rightarrow> string" where
  "MergeSourceLangsValues a b = joinSourceLangs (normalizeSourceLangs (splitSourceLangs a @ splitSourceLangs b))"

definition UnionSourceLangs :: "string list list \<Rightarrow> string list" where
  "UnionSourceLangs ls = normalizeSourceLangs (concat ls)"

text \<open>The loop of \<^verbatim>\<open>SetComponentSourceLangs\<close>: the first property of the name is replaced, the others are dropped.\<close>

fun writeSourceLangs :: "string \<Rightarrow> bool \<Rightarrow> Property list \<Rightarrow> Property list" where
  "writeSourceLangs val written [] = (if written then [] else [\<lparr>propName = PropertySourceLangs, propValue = val\<rparr>])"
| "writeSourceLangs val written (prop # props) =
     (if propName prop \<noteq> PropertySourceLangs then prop # writeSourceLangs val written props
      else if written then writeSourceLangs val written props
      else \<lparr>propName = PropertySourceLangs, propValue = val\<rparr> # writeSourceLangs val True props)"

definition SetComponentSourceLangs :: "ComponentData \<Rightarrow> string list \<Rightarrow> ComponentData" where
  "SetComponentSourceLangs component langs =
     (let normalized = normalizeSourceLangs langs
      in if normalized = [] then component
         else component\<lparr>cProperties := Some (writeSourceLangs (joinSourceLangs normalized) False (fromPtr (cProperties component)))\<rparr>)"

definition sourceLangsOfProperties :: "Property list \<Rightarrow> string list" where
  "sourceLangsOfProperties props =
     normalizeSourceLangs (concat (map (\<lambda>prop. splitSourceLangs (propValue prop))
       (filter (\<lambda>prop. propName prop = PropertySourceLangs) props)))"

definition GetComponentSourceLangs :: "ComponentData \<Rightarrow> string list" where
  "GetComponentSourceLangs component = sourceLangsOfProperties (fromPtr (cProperties component))"

fun collectNodeLangs :: "Component \<Rightarrow> string list" where
  "collectNodeLangs (Node component None) = GetComponentSourceLangs component @ normalizeSourceLangs []"
| "collectNodeLangs (Node component (Some kids)) =
     GetComponentSourceLangs component @ normalizeSourceLangs (concat (map collectNodeLangs kids))"

definition CollectSourceLangs :: "Component list \<Rightarrow> string list" where
  "CollectSourceLangs components = normalizeSourceLangs (concat (map collectNodeLangs components))"

definition CollectBOMSourceLangs :: "BOM \<Rightarrow> string list" where
  "CollectBOMSourceLangs bom =
     normalizeSourceLangs
       (sourceLangsOfProperties (fromPtr (bProperties bom)) @
        (case bomRoot bom of
           None \<Rightarrow> []
         | Some root \<Rightarrow> GetComponentSourceLangs (payload root) @ CollectSourceLangs (fromPtr (children root))) @
        CollectSourceLangs (fromPtr (bComponents bom)))"

section \<open>Validation\<close>

datatype gostError =
    BOMRequired
  | UnsupportedVersion SpecVersion
  | InvalidValue string GostValue
  | MissingProperties "string list"
  | InMetadataComponent string gostError
  | InComponent string gostError

definition ValidateComponentValues :: "ComponentData \<Rightarrow> gostError + unit" where
  "ValidateComponentValues component =
     (let (as, ok) = GetAttackSurface component; (sf, ok') = GetSecurityFunction component
      in if ok \<and> \<not> IsValidAttackSurfaceValue as then Inl (InvalidValue PropertyAttackSurface as)
         else if ok' \<and> \<not> IsValidSecurityFunctionValue sf then Inl (InvalidValue PropertySecurityFunction sf)
         else Inr ())"

definition ValidateComponent :: "ComponentData \<Rightarrow> gostError + unit" where
  "ValidateComponent component =
     (let missing = (if snd (GetAttackSurface component) then [] else [PropertyAttackSurface]) @
                    (if snd (GetSecurityFunction component) then [] else [PropertySecurityFunction])
      in bindR (ValidateComponentValues component) (\<lambda>_. if missing \<noteq> [] then Inl (MissingProperties missing) else Inr ()))"

text \<open>The walk over a component and the components inside it, in the order of the source, with the check as an argument.\<close>

fun checkNode :: "(ComponentData \<Rightarrow> gostError + unit) \<Rightarrow> Component \<Rightarrow> gostError + unit" where
  "checkNode check (Node component kids) =
     bindR (case check component of Inl e \<Rightarrow> Inl (InComponent (cName component) e) | Inr u \<Rightarrow> Inr ())
       (\<lambda>_. case kids of None \<Rightarrow> Inr () | Some ks \<Rightarrow> foldr (\<lambda>k r. bindR (checkNode check k) (\<lambda>_. r)) ks (Inr ()))"

definition validateComponents :: "(ComponentData \<Rightarrow> gostError + unit) \<Rightarrow> Component list \<Rightarrow> gostError + unit" where
  "validateComponents check components = foldr (\<lambda>k r. bindR (checkNode check k) (\<lambda>_. r)) components (Inr ())"

text \<open>\<^verbatim>\<open>Validate\<close> and \<^verbatim>\<open>ValidateValues\<close> share the walk; only the first looks at the version.\<close>

definition validateBOMWith :: "(ComponentData \<Rightarrow> gostError + unit) \<Rightarrow> BOM \<Rightarrow> gostError + unit" where
  "validateBOMWith check bom =
     bindR (case bomRoot bom of
              None \<Rightarrow> Inr ()
            | Some root \<Rightarrow>
                bindR (case check (payload root) of
                         Inl e \<Rightarrow> Inl (InMetadataComponent (cName (payload root)) e) | Inr u \<Rightarrow> Inr ())
                  (\<lambda>_. validateComponents check (fromPtr (children root))))
       (\<lambda>_. validateComponents check (fromPtr (bComponents bom)))"

definition Validate :: "BOM option \<Rightarrow> gostError + unit" where
  "Validate p =
     (case p of
        None \<Rightarrow> Inl BOMRequired
      | Some bom \<Rightarrow>
          if bSpecVersion bom \<noteq> SpecVersion1_6 then Inl (UnsupportedVersion (bSpecVersion bom))
          else validateBOMWith ValidateComponent bom)"

definition ValidateValues :: "BOM option \<Rightarrow> gostError + unit" where
  "ValidateValues p = (case p of None \<Rightarrow> Inl BOMRequired | Some bom \<Rightarrow> validateBOMWith ValidateComponentValues bom)"

end
