(* ===== verification/SbomLicense.thy ===== *)
theory SbomLicense
  imports Sbom SbomGost
begin

text \<open>
  Licenses (\<^verbatim>\<open>src/pkg/sbom/cyclonedxutil/license.go\<close> and the license list of \<^verbatim>\<open>validate.go\<close>): the parser of SPDX expressions and the
  normalization of a list of licenses. The identifiers of the embedded SPDX schema are the parameter \<open>schema\<close>: the enumeration
  that is read from it, or \<open>None\<close> when it cannot be read.
\<close>

section \<open>Identifiers\<close>

definition loadSPDXLicenseIDs :: "string list option \<Rightarrow> string + string list" where
  "loadSPDXLicenseIDs schema =
     (case schema of
        None \<Rightarrow> Inl ''parse embedded SPDX schema''
      | Some ids \<Rightarrow> if ids = [] then Inl ''embedded SPDX schema has no enum'' else Inr ids)"

definition SPDXLicenseIDKnown :: "string list option \<Rightarrow> string \<Rightarrow> string + bool" where
  "SPDXLicenseIDKnown schema lid = bindR (loadSPDXLicenseIDs schema) (\<lambda>ids. Inr (lid \<in> set ids))"

definition spdxLicenseIDKnown :: "string list option \<Rightarrow> string \<Rightarrow> bool" where
  "spdxLicenseIDKnown schema lid = (case SPDXLicenseIDKnown schema lid of Inl e \<Rightarrow> False | Inr known \<Rightarrow> known)"

definition spdxExceptionIDs :: "string list" where
  "spdxExceptionIDs = [
    ''389-exception'', ''Asterisk-exception'', ''Asterisk-linking-protocols-exception'', ''Autoconf-exception-2.0'',
     ''Autoconf-exception-3.0'', ''Autoconf-exception-generic'', ''Autoconf-exception-generic-3.0'',
     ''Autoconf-exception-macro'', ''Bison-exception-1.24'', ''Bison-exception-2.2'', ''Bootloader-exception'',
     ''CGAL-linking-exception'', ''CLISP-exception-2.0'', ''Classpath-exception-2.0'', ''Classpath-exception-2.0-short'',
     ''DigiRule-FOSS-exception'', ''Digia-Qt-LGPL-exception-1.1'', ''FLTK-exception'', ''Fawkes-Runtime-exception'',
     ''Font-exception-2.0'', ''GCC-exception-2.0'', ''GCC-exception-2.0-note'', ''GCC-exception-3.1'', ''GNAT-exception'',
     ''GNOME-examples-exception'', ''GNU-compiler-exception'', ''GPL-3.0-389-ds-base-exception'',
     ''GPL-3.0-interface-exception'', ''GPL-3.0-linking-exception'', ''GPL-3.0-linking-source-exception'', ''GPL-CC-1.0'',
     ''GStreamer-exception-2005'', ''GStreamer-exception-2008'', ''Gmsh-exception'', ''Google-Patent-WebM'',
     ''Independent-modules-exception'', ''KiCad-libraries-exception'', ''LGPL-3.0-linking-exception'', ''LLGPL'',
     ''LLVM-exception'', ''LZMA-exception'', ''Libtool-exception'', ''Linux-syscall-note'', ''Nokia-Qt-exception-1.1'',
     ''OCCT-exception-1.0'', ''OCaml-LGPL-linking-exception'', ''OpenJDK-assembly-exception-1.0'', ''PCRE2-exception'',
     ''PS-or-PDF-font-exception-20170817'', ''QPL-1.0-INRIA-2004-exception'', ''Qt-GPL-exception-1.0'',
     ''Qt-LGPL-exception-1.1'', ''Qwt-exception-1.0'', ''RRDtool-FLOSS-exception-2.0'', ''SANE-exception'', ''SHL-2.0'',
     ''SHL-2.1'', ''SWI-exception'', ''Simple-Library-Usage-exception'', ''Spelling-Provider-LGPL-exception'',
     ''Swift-exception'', ''Texinfo-exception'', ''UBDL-exception'', ''Universal-FOSS-exception-1.0'',
     ''WxWindows-exception-3.1'', ''cryptsetup-OpenSSL-exception'', ''eCos-exception-2.0'', ''erlang-otp-linking-exception'',
     ''fmt-exception'', ''freertos-exception-2.0'', ''gnu-javamail-exception'', ''harbour-exception'',
     ''i2p-gpl-java-exception'', ''kvirc-openssl-exception'', ''libpri-OpenH323-exception'', ''mif-exception'',
     ''mxml-exception'', ''openvpn-openssl-exception'', ''polyparse-exception'', ''romic-exception'',
     ''rsync-linking-exception'', ''sqlitestudio-OpenSSL-exception'', ''stunnel-exception'', ''u-boot-exception-2.0'',
     ''vsftpd-openssl-exception'', ''x11vnc-openssl-exception'']"

definition refChar :: "char \<Rightarrow> bool" where
  "refChar c \<longleftrightarrow>
     list_ex (\<lambda>(first, final). first \<le> c \<and> c \<le> final) [(CHR ''a'', CHR ''z''), (CHR ''A'', CHR ''Z''), (CHR ''0'', CHR ''9'')] \<or>
     c \<in> set ''-.''"

definition spdxLicenseRef :: "string \<Rightarrow> bool" where
  "spdxLicenseRef token =
     (let token = (if HasPrefix token ''DocumentRef-''
                   then (case Cut token '':'' of None \<Rightarrow> [] | Some (before, after) \<Rightarrow> after) else token)
      in HasPrefix token ''LicenseRef-'' \<and>
         (let ref = TrimPrefix token ''LicenseRef-'' in ref \<noteq> [] \<and> list_all refChar ref))"

definition spdxSimpleExpression :: "string list option \<Rightarrow> string \<Rightarrow> bool" where
  "spdxSimpleExpression schema token =
     (if token = [] then False
      else if token \<in> set spdxExceptionIDs then False
      else if spdxLicenseIDKnown schema token \<or> spdxLicenseIDKnown schema (TrimSuffix token ''+'') then True
      else spdxLicenseRef token)"

definition spdxExceptionOK :: "string \<Rightarrow> bool" where
  "spdxExceptionOK token \<longleftrightarrow> token \<in> set spdxExceptionIDs \<or> spdxLicenseRef token"

section \<open>Expressions\<close>

definition spaceAround :: "char \<Rightarrow> string \<Rightarrow> string" where
  "spaceAround p s = concat (map (\<lambda>c. if c = p then [CHR '' '', p, CHR '' ''] else [c]) s)"

definition tokenizeSPDXExpression :: "string \<Rightarrow> string list" where
  "tokenizeSPDXExpression s = Fields (spaceAround (CHR '')'') (spaceAround (CHR ''('') s))"

definition peek :: "string list \<Rightarrow> nat \<Rightarrow> string" where
  "peek tokens pos = (if pos \<ge> length tokens then [] else tokens ! pos)"

text \<open>
  The parser returns whether it succeeded and leaves its position behind; here the position is the result of a success. The
  loop of \<^verbatim>\<open>parseExpression\<close> is \<open>parseMore\<close>.
\<close>

function (sequential) parseExpression :: "string list option \<Rightarrow> string list \<Rightarrow> nat \<Rightarrow> nat option"
  and parseMore :: "string list option \<Rightarrow> string list \<Rightarrow> nat \<Rightarrow> nat option"
  and parseTerm :: "string list option \<Rightarrow> string list \<Rightarrow> nat \<Rightarrow> nat option" where
  "parseExpression schema tokens pos =
     (case parseTerm schema tokens pos of None \<Rightarrow> None | Some p \<Rightarrow> parseMore schema tokens p)"
| "parseMore schema tokens pos =
     (if peek tokens pos = ''AND'' \<or> peek tokens pos = ''OR'' then
        (case parseTerm schema tokens (pos + 1) of None \<Rightarrow> None | Some p \<Rightarrow> parseMore schema tokens p)
      else Some pos)"
| "parseTerm schema tokens pos =
     (let token = peek tokens pos in
      if token = ''('' then
        (case parseExpression schema tokens (pos + 1) of
           None \<Rightarrow> None
         | Some p \<Rightarrow> if peek tokens p \<noteq> '')'' then None else Some (p + 1))
      else if spdxSimpleExpression schema token then
        (if peek tokens (pos + 1) = ''WITH'' then
           (if spdxExceptionOK (peek tokens (pos + 2)) then Some (pos + 3) else None)
         else Some (pos + 1))
      else None)"
  by pat_completeness auto

lemma parse_advances:
  "parseExpression_parseMore_parseTerm_dom (Inl (schema, tokens, pos)) \<Longrightarrow>
     parseExpression schema tokens pos = Some p \<Longrightarrow> pos < p \<and> pos < length tokens"
  "parseExpression_parseMore_parseTerm_dom (Inr (Inl (schema, tokens, pos))) \<Longrightarrow>
     parseMore schema tokens pos = Some p \<Longrightarrow> pos \<le> p"
  "parseExpression_parseMore_parseTerm_dom (Inr (Inr (schema, tokens, pos))) \<Longrightarrow>
     parseTerm schema tokens pos = Some p \<Longrightarrow> pos < p \<and> pos < length tokens"
proof (induction arbitrary: p and p and p rule: parseExpression_parseMore_parseTerm.pinduct)
  case (1 schema tokens pos)
  then show ?case by (auto simp: parseExpression.psimps split: option.splits) (meson order_less_le_trans)
next
  case (2 schema tokens pos)
  then show ?case by (auto simp: parseMore.psimps split: option.splits if_splits) (meson Suc_lessD less_or_eq_imp_le order_trans)+
next
  case (3 schema tokens pos)
  have "peek tokens pos \<noteq> [] \<Longrightarrow> pos < length tokens" by (auto simp: peek_def split: if_splits)
  moreover have "peek tokens pos \<noteq> []" using 3(3) parseTerm.psimps [OF 3(1)]
    by (auto simp: spdxSimpleExpression_def Let_def split: if_splits)
  ultimately show ?case using 3 parseTerm.psimps [OF 3(1)] by (fastforce simp: Let_def split: if_splits option.splits)
qed

lemma parser_returns: "All parseExpression_parseMore_parseTerm_dom"
proof (relation "measures [\<lambda>x. case x of Inl (schema, tokens, pos) \<Rightarrow> length tokens - pos
     | Inr (Inl (schema, tokens, pos)) \<Rightarrow> length tokens - pos | Inr (Inr (schema, tokens, pos)) \<Rightarrow> length tokens - pos,
   \<lambda>x. case x of Inl a \<Rightarrow> 1 | Inr b \<Rightarrow> 0]", goal_cases)
  case (3 schema tokens pos p)
  then show ?case using parse_advances(3) [OF 3(2,1)] by auto
next
  case (5 schema tokens pos p)
  then show ?case using parse_advances(3) [OF 5(3,2)] by auto
qed (auto simp: peek_def split: if_splits)

termination parseExpression
  by (rule parser_returns)

definition spdxExpressionValid :: "string list option \<Rightarrow> string \<Rightarrow> bool" where
  "spdxExpressionValid schema s =
     (let tokens = tokenizeSPDXExpression s in
      if length tokens < 3 then False else parseExpression schema tokens 0 = Some (length tokens))"

section \<open>Lists of licenses\<close>

definition licensesOrNil :: "Licenses \<Rightarrow> Licenses option" where
  "licensesOrNil licenses = (if licenses = [] then None else Some licenses)"

definition namedLicense :: "string \<Rightarrow> LicenseChoice" where
  "namedLicense name = \<lparr>lcLicense = Some \<lparr>licID = [], licName = name, licRest = []\<rparr>, lcExpression = []\<rparr>"

definition expressionChoice :: "string \<Rightarrow> LicenseChoice" where
  "expressionChoice e = \<lparr>lcLicense = None, lcExpression = e\<rparr>"

text \<open>One round of the loop of \<^verbatim>\<open>normalizeLicenses\<close>, on the expressions and the plain licenses so far.\<close>

definition placeChoice :: "string list option \<Rightarrow> string list \<times> Licenses \<Rightarrow> LicenseChoice \<Rightarrow> string list \<times> Licenses" where
  "placeChoice schema acc choice =
     (let (expressions, plain) = acc in
      if lcExpression choice \<noteq> [] then (expressions @ [lcExpression choice], plain)
      else (case lcLicense choice of
              None \<Rightarrow> (expressions, plain)
            | Some lic \<Rightarrow>
                if licID lic = [] then (expressions, plain @ [choice])
                else if spdxLicenseIDKnown schema (licID lic) then (expressions, plain @ [choice])
                else if spdxExpressionValid schema (licID lic) then (expressions @ [licID lic], plain)
                else (expressions, plain @ [\<lparr>lcLicense = Some (lic\<lparr>licName := licID lic, licID := []\<rparr>), lcExpression = []\<rparr>])))"

definition choiceID :: "LicenseChoice \<Rightarrow> string" where
  "choiceID choice = (case lcLicense choice of None \<Rightarrow> [] | Some lic \<Rightarrow> licID lic)"

definition parenthesized :: "string \<Rightarrow> string" where
  "parenthesized expression =
     (if CHR '' '' \<in> set expression \<or> CHR ''('' \<in> set expression then ''('' @ expression @ '')'' else expression)"

definition normalizeLicenses :: "string list option \<Rightarrow> Licenses option \<Rightarrow> Licenses option" where
  "normalizeLicenses schema licenses =
     (case licenses of
        None \<Rightarrow> None
      | Some choices \<Rightarrow>
          let (all, plain) = foldl (placeChoice schema) ([], []) choices;
              expressions = loUniq all
          in if expressions = [] then licensesOrNil plain
             else if length expressions = 1 \<and> plain = [] then Some [expressionChoice (expressions ! 0)]
             else if \<not> list_all (\<lambda>choice. choiceID choice \<noteq> []) plain
             then licensesOrNil (plain @ map namedLicense expressions)
             else Some [expressionChoice (Join (loUniq (map choiceID plain @ map parenthesized expressions)) '' AND '')])"

section \<open>The grammar of expressions\<close>

text \<open>
  The compound expressions of SPDX 2.3, annex D, on tokens, over the licenses and the exceptions that may stand in them.
\<close>

inductive compoundExpression :: "(string \<Rightarrow> bool) \<Rightarrow> (string \<Rightarrow> bool) \<Rightarrow> string list \<Rightarrow> bool"
  for license :: "string \<Rightarrow> bool" and exceptionID :: "string \<Rightarrow> bool" where
  "license t \<Longrightarrow> compoundExpression license exceptionID [t]"
| "license t \<Longrightarrow> exceptionID e \<Longrightarrow> compoundExpression license exceptionID [t, ''WITH'', e]"
| "compoundExpression license exceptionID a \<Longrightarrow> compoundExpression license exceptionID b \<Longrightarrow> op \<in> {''AND'', ''OR''} \<Longrightarrow>
     compoundExpression license exceptionID (a @ op # b)"
| "compoundExpression license exceptionID a \<Longrightarrow> compoundExpression license exceptionID (''('' # a @ ['')''])"

text \<open>
  The leaves of annex D. A license identifier is one of the embedded list that is not an exception (the list has both); the
  empty word and the parenthesis are no identifiers.
\<close>

definition idstring :: "string \<Rightarrow> bool" where
  "idstring s \<longleftrightarrow> s \<noteq> [] \<and> set s \<subseteq> set ''abcdefghijklmnopqrstuvwxyzABCDEFGHIJKLMNOPQRSTUVWXYZ0123456789-.''"

inductive licenseRef :: "string \<Rightarrow> bool" where
  "idstring r \<Longrightarrow> licenseRef (''LicenseRef-'' @ r)"
| "idstring d \<Longrightarrow> idstring r \<Longrightarrow> licenseRef (''DocumentRef-'' @ d @ '':'' @ ''LicenseRef-'' @ r)"

definition licenseID :: "string list option \<Rightarrow> string \<Rightarrow> bool" where
  "licenseID schema i \<longleftrightarrow> spdxLicenseIDKnown schema i \<and> i \<notin> set spdxExceptionIDs \<and> i \<notin> {[], ''(''}"

inductive simpleExpression :: "string list option \<Rightarrow> string \<Rightarrow> bool" for schema where
  "licenseID schema i \<Longrightarrow> simpleExpression schema i"
| "licenseID schema i \<Longrightarrow> simpleExpression schema (i @ ''+'')"
| "licenseRef r \<Longrightarrow> simpleExpression schema r"

abbreviation annexD :: "string list option \<Rightarrow> string list \<Rightarrow> bool" where
  "annexD schema \<equiv> compoundExpression (simpleExpression schema) (\<lambda>e. e \<in> set spdxExceptionIDs)"

text \<open>
  Where the parser is laxer: a reference whose document part is no \<^verbatim>\<open>idstring\<close>, and the suffix \<^verbatim>\<open>+\<close> after a
  word of the embedded list that is no license, which is an exception in practice.
\<close>

inductive laxRef :: "string \<Rightarrow> bool" where
  "CHR '':'' \<notin> set d \<Longrightarrow> \<not> idstring d \<Longrightarrow> idstring r \<Longrightarrow> laxRef (''DocumentRef-'' @ d @ '':'' @ ''LicenseRef-'' @ r)"

inductive laxSimple :: "string list option \<Rightarrow> string \<Rightarrow> bool" for schema where
  "spdxLicenseIDKnown schema i \<Longrightarrow> \<not> licenseID schema i \<Longrightarrow> laxSimple schema (i @ ''+'')"
| "laxRef r \<Longrightarrow> laxSimple schema r"

text \<open>The third one: a reference in the place of an exception.\<close>

definition refAfterWith :: "string list \<Rightarrow> bool" where
  "refAfterWith ts \<longleftrightarrow> (\<exists>pre e post. ts = pre @ [''WITH'', e] @ post \<and> (licenseRef e \<or> laxRef e))"

text \<open>
  What the parser accepts, with the tests of the code at the leaves and the expression as a sequence of terms. It never gives
  up on a sequence that has a derivation, although it looks only one token ahead.
\<close>

inductive spdxExpr :: "string list option \<Rightarrow> string list \<Rightarrow> bool"
  and spdxTerm :: "string list option \<Rightarrow> string list \<Rightarrow> bool" for schema where
  simple: "spdxSimpleExpression schema t \<Longrightarrow> t \<noteq> ''('' \<Longrightarrow> spdxTerm schema [t]"
| withException: "spdxSimpleExpression schema t \<Longrightarrow> t \<noteq> ''('' \<Longrightarrow> spdxExceptionOK e \<Longrightarrow> spdxTerm schema [t, ''WITH'', e]"
| parens: "spdxExpr schema e \<Longrightarrow> spdxTerm schema (''('' # e @ ['')''])"
| single: "spdxTerm schema t \<Longrightarrow> spdxExpr schema t"
| combined: "spdxExpr schema e \<Longrightarrow> op = ''AND'' \<or> op = ''OR'' \<Longrightarrow> spdxTerm schema t \<Longrightarrow> spdxExpr schema (e @ op # t)"

declare parseExpression.simps [simp del] parseMore.simps [simp del] parseTerm.simps [simp del]

abbreviation slice :: "'a list \<Rightarrow> nat \<Rightarrow> nat \<Rightarrow> 'a list" where
  "slice xs i j \<equiv> take (j - i) (drop i xs)"

lemma slice_split: "i \<le> j \<Longrightarrow> j \<le> k \<Longrightarrow> slice xs i k = slice xs i j @ slice xs j k"
proof -
  assume "i \<le> j" "j \<le> k"
  then have "k - i = (j - i) + (k - j)" "(j - i) + i = j" by auto
  then show ?thesis by (simp only: take_add drop_drop)
qed

lemma slice_one: "i < length xs \<Longrightarrow> slice xs i (i + 1) = [xs ! i]"
  by (simp add: take_Suc_conv_app_nth hd_drop_conv_nth take_Suc)

lemma slice_peek: "peek tokens i = t \<Longrightarrow> t \<noteq> [] \<Longrightarrow> slice tokens i (i + 1) = [t] \<and> i < length tokens"
  using slice_one [of i tokens] by (auto simp: peek_def split: if_splits)

lemmas parse_progress = parse_advances [OF parser_returns [THEN spec]]

lemma parser_sound:
  "parseExpression schema tokens pos = Some p \<Longrightarrow> p \<le> length tokens \<and> spdxExpr schema (slice tokens pos p)"
  "parseMore schema tokens pos = Some p \<Longrightarrow> i \<le> pos \<Longrightarrow> pos \<le> length tokens \<Longrightarrow> spdxExpr schema (slice tokens i pos) \<Longrightarrow>
     p \<le> length tokens \<and> spdxExpr schema (slice tokens i p)"
  "parseTerm schema tokens pos = Some p \<Longrightarrow> p \<le> length tokens \<and> spdxTerm schema (slice tokens pos p)"
proof (induction schema tokens pos and schema tokens pos and schema tokens pos arbitrary: p and p i and p
    rule: parseExpression_parseMore_parseTerm.induct)
  case (1 schema tokens pos)
  obtain q where q: "parseTerm schema tokens pos = Some q" and p: "parseMore schema tokens q = Some p"
    using 1(3) by (auto simp: parseExpression.simps split: option.splits)
  show ?case using 1(2) [OF q p, of pos] 1(1) [OF q] parse_progress(3) [OF q] by (simp add: single)
next
  case (2 schema tokens pos)
  show ?case
  proof (cases "peek tokens pos = ''AND'' \<or> peek tokens pos = ''OR''")
    case True
    then obtain q where q: "parseTerm schema tokens (pos + 1) = Some q" and p: "parseMore schema tokens q = Some p"
      using 2(3) by (auto simp: parseMore.simps [of _ _ pos] split: option.splits)
    have q': "pos + 1 < q" "q \<le> length tokens" "spdxTerm schema (slice tokens (pos + 1) q)"
      using 2(1) [OF True q] parse_progress(3) [OF q] by auto
    have "slice tokens pos (pos + 1) = [peek tokens pos]" using slice_peek [of tokens pos] True by auto
    then have "slice tokens i q = slice tokens i pos @ peek tokens pos # slice tokens (pos + 1) q"
      using slice_split [of i pos q tokens] slice_split [of pos "pos + 1" q tokens] q' 2(4) by simp
    then have "spdxExpr schema (slice tokens i q)" using combined [OF 2(6) True q'(3)] by simp
    then show ?thesis using 2(2) [OF True q p, of i] q' 2(4) by simp
  qed (use 2 in \<open>auto simp: parseMore.simps [of _ _ pos]\<close>)
next
  case (3 schema tokens pos)
  show ?case
  proof (cases "peek tokens pos = ''(''")
    case True
    then obtain q where q: "parseExpression schema tokens (pos + 1) = Some q" and p: "peek tokens q = '')''" "p = q + 1"
      using 3(2) by (auto simp: parseTerm.simps Let_def split: option.splits if_splits)
    have q': "pos + 1 < q" "spdxExpr schema (slice tokens (pos + 1) q)" using 3(1) [OF refl True q] parse_progress(1) [OF q] by auto
    have "slice tokens pos p = slice tokens pos (pos + 1) @ slice tokens (pos + 1) q @ slice tokens q (q + 1)"
      using slice_split [of pos "pos + 1" p tokens] slice_split [of "pos + 1" q p tokens] q'(1) p(2) by simp
    then have "slice tokens pos p = ''('' # slice tokens (pos + 1) q @ ['')'']"
      using slice_peek [OF True] slice_peek [OF p(1)] by simp
    then show ?thesis using parens [OF q'(2)] slice_peek [OF p(1)] p(2) by simp
  next
    case False
    then have s: "spdxSimpleExpression schema (peek tokens pos)" using 3(2) by (auto simp: parseTerm.simps Let_def split: if_splits)
    then have ne: "peek tokens pos \<noteq> []" by (auto simp: spdxSimpleExpression_def)
    show ?thesis
    proof (cases "peek tokens (pos + 1) = ''WITH''")
      case True
      then have e: "spdxExceptionOK (peek tokens (pos + 2))" and p: "p = pos + 3"
        using 3(2) False s by (auto simp: parseTerm.simps Let_def split: if_splits)
      then have "peek tokens (pos + 2) \<noteq> []" by (auto simp: spdxExceptionOK_def spdxExceptionIDs_def spdxLicenseRef_def HasPrefix_def)
      then have "slice tokens (pos + 2) p = [peek tokens (pos + 2)]" "pos + 2 < length tokens"
        using slice_peek [OF refl, of tokens "pos + 2"] p by auto
      moreover have "slice tokens pos p = slice tokens pos (pos + 1) @ slice tokens (pos + 1) (pos + 2) @ slice tokens (pos + 2) p"
        using slice_split [of pos "pos + 1" p tokens] slice_split [of "pos + 1" "pos + 2" p tokens] p by simp
      ultimately have "slice tokens pos p = [peek tokens pos, ''WITH'', peek tokens (pos + 2)]"
        using slice_peek [OF refl ne] slice_peek [OF True] by simp
      then show ?thesis using withException [OF s False e] \<open>pos + 2 < length tokens\<close> p by simp
    next
      case no: False
      then have "p = pos + 1" using 3(2) False s by (auto simp: parseTerm.simps Let_def split: if_splits)
      then show ?thesis using simple [OF s False] slice_peek [OF refl ne] by simp
    qed
  qed
qed

lemma peek_append [simp]: "peek (pre @ ys) (length pre + k) = peek ys k" "peek (pre @ ys) (length pre) = peek ys 0"
  by (simp_all add: peek_def nth_append)

lemma peek_Cons [simp]: "peek (x # xs) 0 = x" "peek (x # xs) (Suc k) = peek xs k" "peek [] k = []"
  by (simp_all add: peek_def)

lemma parser_complete:
  "spdxExpr schema e \<Longrightarrow> peek rest 0 \<noteq> ''WITH'' \<Longrightarrow>
     parseExpression schema (pre @ e @ rest) (length pre) = parseMore schema (pre @ e @ rest) (length pre + length e)"
  "spdxTerm schema t \<Longrightarrow> peek rest 0 \<noteq> ''WITH'' \<Longrightarrow>
     parseTerm schema (pre @ t @ rest) (length pre) = Some (length pre + length t)"
proof (induction arbitrary: pre rest and pre rest rule: spdxExpr_spdxTerm.inducts)
  case (simple t)
  then show ?case using peek_append(1) [of pre "t # rest" 1] by (simp add: parseTerm.simps Let_def)
next
  case (withException t e)
  then show ?case using peek_append(1) [of pre "[t, ''WITH'', e] @ rest" 1] peek_append(1) [of pre "[t, ''WITH'', e] @ rest" 2]
    by (simp add: parseTerm.simps Let_def numeral_2_eq_2)
next
  case (parens e)
  let ?ts = "pre @ (''('' # e @ ['')'']) @ rest"
  have "parseExpression schema ?ts (length pre + 1) = parseMore schema ?ts (length pre + 1 + length e)"
    using parens(2) [of "'')'' # rest" "pre @ [''('']"] by simp
  moreover have "peek ?ts (length pre + 1 + length e) = '')''"
    using peek_append(2) [of "pre @ ''('' # e" "'')'' # rest"] by (simp add: add.commute add.left_commute)
  ultimately show ?case by (simp add: parseTerm.simps [of _ _ "length pre"] parseMore.simps Let_def)
next
  case (single t)
  then show ?case by (simp add: parseExpression.simps)
next
  case (combined e op t)
  let ?ts = "pre @ (e @ op # t) @ rest"
  have op: "op = ''AND'' \<or> op = ''OR''" using combined by blast
  have "parseExpression schema ?ts (length pre) = parseMore schema ?ts (length pre + length e)"
    using combined(2) [of "op # t @ rest" pre] op by auto
  moreover have "peek ?ts (length pre + length e) = op" using peek_append(2) [of "pre @ e" "op # t @ rest"] by simp
  moreover have "parseTerm schema ?ts (length pre + length e + 1) = Some (length pre + length e + 1 + length t)"
    using combined(4) [of rest "pre @ e @ [op]"] combined(6) by simp
  ultimately show ?case using op by (simp add: parseMore.simps [of _ _ "length pre + length e"] add.assoc)
qed

lemma parser_accepts:
  "spdxExpressionValid schema s \<longleftrightarrow>
     3 \<le> length (tokenizeSPDXExpression s) \<and> spdxExpr schema (tokenizeSPDXExpression s)"
proof -
  let ?ts = "tokenizeSPDXExpression s"
  have "spdxExpr schema ?ts" if "parseExpression schema ?ts 0 = Some (length ?ts)" using parser_sound(1) [OF that] by simp
  moreover have "parseExpression schema ?ts 0 = Some (length ?ts)" if "spdxExpr schema ?ts"
    using parser_complete(1) [OF that, of "[]" "[]"] by (simp add: parseMore.simps peek_def)
  ultimately show ?thesis by (auto simp: spdxExpressionValid_def Let_def)
qed

subsection \<open>The tests of the code and the leaves of the grammar\<close>

lemma refChar_letters: "\<forall>c. refChar c \<longleftrightarrow> c \<in> set ''abcdefghijklmnopqrstuvwxyzABCDEFGHIJKLMNOPQRSTUVWXYZ0123456789-.''"
  by code_simp

lemma refChar_idstring: "r \<noteq> [] \<and> list_all refChar r \<longleftrightarrow> idstring r"
  unfolding idstring_def list_all_iff subset_eq by (intro conj_cong refl ball_cong refChar_letters [rule_format])

lemma Cut_char_first: "Cut s [c] = Some (a, b) \<Longrightarrow> c \<notin> set a"
  by (induction s arbitrary: a b) (auto simp: HasPrefix_Cons split: if_splits option.splits)

lemma exceptions_plain: "list_all (\<lambda>e. last e \<noteq> CHR ''+'' \<and> \<not> HasPrefix e ''LicenseRef-'' \<and> \<not> HasPrefix e ''DocumentRef-'') spdxExceptionIDs"
  by code_simp

lemma HasPrefix_split: "HasPrefix s p \<Longrightarrow> \<exists>u. s = p @ u"
  unfolding HasPrefix_def by (metis append_take_drop_id)

lemma Cut_after_prefix:
  assumes "Cut (p @ u) [c] = Some (a, b)" and "c \<notin> set p"
  shows "\<exists>d. u = d @ c # b \<and> c \<notin> set d"
proof -
  have split: "p @ u = a @ c # b" and "c \<notin> set a" using Cut_Some [OF assms(1)] Cut_char_first [OF assms(1)] by auto
  then obtain d where "a = p @ d \<and> u = d @ c # b \<or> p = a @ d \<and> d @ u = c # b" by (auto simp: append_eq_append_conv2)
  then show ?thesis using assms(2) \<open>c \<notin> set a\<close> by (cases d) auto
qed

lemma idstring_after: "HasPrefix w p \<and> (let r = TrimPrefix w p in r \<noteq> [] \<and> list_all refChar r) \<longleftrightarrow> (\<exists>r. w = p @ r \<and> idstring r)"
  unfolding Let_def refChar_idstring using HasPrefix_split [of w p] by auto

lemma reference_split:
  assumes "c \<notin> set q" and "p \<noteq> []" and "\<And>r. \<not> HasPrefix (p @ r) q"
  shows "(\<exists>r. (if HasPrefix t q then (case Cut t [c] of None \<Rightarrow> [] | Some (a, b) \<Rightarrow> b) else t) = p @ r \<and> idstring r) \<longleftrightarrow>
    (\<exists>r. idstring r \<and> (t = p @ r \<or> (\<exists>d. c \<notin> set d \<and> t = q @ d @ [c] @ p @ r)))"
proof (cases "HasPrefix t q")
  case True
  then obtain u where u: "t = q @ u" using HasPrefix_split by blast
  have cut: "(\<exists>d. c \<notin> set d \<and> t = q @ d @ [c] @ b) \<longleftrightarrow> (\<exists>a. Cut t [c] = Some (a, b))" for b
    using Cut_after_prefix [of q u c _ b] Cut_char [of c "q @ _" b] assms(1) unfolding u by fastforce
  have "t \<noteq> p @ r" for r using True assms(3) [of r] by blast
  then show ?thesis unfolding cut using True assms(2) by (cases "Cut t [c]") auto
next
  case False
  then show ?thesis by auto
qed

lemma spdxLicenseRef_iff: "spdxLicenseRef t \<longleftrightarrow> licenseRef t \<or> laxRef t"
proof -
  have "spdxLicenseRef t \<longleftrightarrow> (\<exists>r. idstring r \<and> (t = ''LicenseRef-'' @ r \<or>
      (\<exists>d. CHR '':'' \<notin> set d \<and> t = ''DocumentRef-'' @ d @ '':'' @ ''LicenseRef-'' @ r)))"
    unfolding spdxLicenseRef_def Let_def [of "if _ then _ else _"] idstring_after
    by (rule reference_split) (simp_all add: HasPrefix_Cons)
  moreover have "CHR '':'' \<notin> set d" if "idstring d" for d using that by (auto simp: idstring_def)
  ultimately show ?thesis unfolding licenseRef.simps laxRef.simps by blast
qed

lemma ref_no_exception: "spdxLicenseRef t \<Longrightarrow> t \<notin> set spdxExceptionIDs"
proof -
  assume "spdxLicenseRef t"
  then have "HasPrefix t ''LicenseRef-'' \<or> HasPrefix t ''DocumentRef-''"
    unfolding spdxLicenseRef_def Let_def by (cases "HasPrefix t ''DocumentRef-''") simp_all
  then show ?thesis using exceptions_plain unfolding list_all_iff by blast
qed

lemma plus_no_exception: "i @ ''+'' \<notin> set spdxExceptionIDs"
proof
  assume "i @ ''+'' \<in> set spdxExceptionIDs"
  then have "last (i @ ''+'') \<noteq> CHR ''+''" using exceptions_plain unfolding list_all_iff by blast
  then show False by simp
qed

lemma TrimSuffix_plus: "TrimSuffix t ''+'' \<noteq> t \<Longrightarrow> \<exists>i. t = i @ ''+'' \<and> TrimSuffix t ''+'' = i"
  by (cases t rule: rev_cases) (auto simp: TrimSuffix_def HasSuffix_def HasPrefix_Cons split: if_splits)

lemma TrimSuffix_append_plus: "TrimSuffix (i @ ''+'') ''+'' = i"
  by (simp add: TrimSuffix_def HasSuffix_def HasPrefix_Cons)

lemma paren_no_ref: "\<not> spdxLicenseRef ''(''"
  by code_simp

lemma spdxSimple_iff: "spdxSimpleExpression schema t \<and> t \<noteq> ''('' \<longleftrightarrow> simpleExpression schema t \<or> laxSimple schema t"
proof
  assume t: "spdxSimpleExpression schema t \<and> t \<noteq> ''(''"
  then have "t \<noteq> []" "t \<notin> set spdxExceptionIDs" by (auto simp: spdxSimpleExpression_def split: if_splits)
  then have known: "simpleExpression schema t" if "spdxLicenseIDKnown schema t"
    using that t by (auto simp: licenseID_def intro!: simpleExpression.intros(1))
  consider "spdxLicenseIDKnown schema t" | "spdxLicenseIDKnown schema (TrimSuffix t ''+'')" | "spdxLicenseRef t"
    using t by (auto simp: spdxSimpleExpression_def split: if_splits)
  then show "simpleExpression schema t \<or> laxSimple schema t"
  proof cases
    case 2
    then show ?thesis using known TrimSuffix_plus [of t] simpleExpression.intros(2) laxSimple.intros(1) by metis
  next
    case 3
    then show ?thesis using simpleExpression.intros(3) laxSimple.intros(2) unfolding spdxLicenseRef_iff by blast
  qed (use known in blast)
next
  have ref: "spdxSimpleExpression schema t \<and> t \<noteq> ''(''" if "spdxLicenseRef t"
    using that ref_no_exception [OF that] paren_no_ref unfolding spdxSimpleExpression_def
    by (auto simp: spdxLicenseRef_def)
  have plus: "spdxSimpleExpression schema (i @ ''+'') \<and> i @ ''+'' \<noteq> ''(''" if "spdxLicenseIDKnown schema i" for i
    using that plus_no_exception unfolding spdxSimpleExpression_def TrimSuffix_append_plus by auto
  assume "simpleExpression schema t \<or> laxSimple schema t"
  then consider "licenseID schema t" | i where "t = i @ ''+''" "spdxLicenseIDKnown schema i" | "spdxLicenseRef t"
    unfolding simpleExpression.simps [of schema t] laxSimple.simps [of schema t] spdxLicenseRef_iff licenseID_def by blast
  then show "spdxSimpleExpression schema t \<and> t \<noteq> ''(''"
  proof cases
    case 1
    then show ?thesis by (auto simp: licenseID_def spdxSimpleExpression_def)
  next
    case (2 i)
    show ?thesis unfolding 2(1) by (rule plus [OF 2(2)])
  qed (rule ref)
qed

lemma spdxExceptionOK_iff: "spdxExceptionOK e \<longleftrightarrow> e \<in> set spdxExceptionIDs \<or> licenseRef e \<or> laxRef e"
  unfolding spdxExceptionOK_def spdxLicenseRef_iff ..

abbreviation laxExpression :: "string list option \<Rightarrow> string list \<Rightarrow> bool" where
  "laxExpression schema \<equiv> compoundExpression (\<lambda>t. simpleExpression schema t \<or> laxSimple schema t)
     (\<lambda>e. e \<in> set spdxExceptionIDs \<or> licenseRef e \<or> laxRef e)"

lemma spdxExpr_append: "spdxExpr schema b \<Longrightarrow> spdxExpr schema a \<Longrightarrow> op = ''AND'' \<or> op = ''OR'' \<Longrightarrow> spdxExpr schema (a @ op # b)"
  "spdxTerm schema t \<Longrightarrow> True"
proof (induction arbitrary: a op rule: spdxExpr_spdxTerm.inducts)
  case (combined e op' t)
  then show ?case using spdxExpr_spdxTerm.combined [of schema "a @ op # e" op' t] by simp
qed (auto intro: spdxExpr_spdxTerm.intros)

lemma spdxExpr_lax: "spdxExpr schema ts \<longleftrightarrow> laxExpression schema ts"
proof
  have "(spdxExpr schema e \<longrightarrow> laxExpression schema e) \<and> (spdxTerm schema t \<longrightarrow> laxExpression schema t)" for e t
    by (induction rule: spdxExpr_spdxTerm.induct)
      (auto simp: spdxSimple_iff [symmetric] spdxExceptionOK_iff intro: compoundExpression.intros)
  then show "spdxExpr schema ts \<Longrightarrow> laxExpression schema ts" by blast
  show "laxExpression schema ts \<Longrightarrow> spdxExpr schema ts"
  proof (induction rule: compoundExpression.induct)
    case (3 a b op)
    then show ?case using spdxExpr_append(1) by blast
  qed (auto simp: spdxSimple_iff [symmetric] spdxExceptionOK_iff [symmetric] intro: spdxExpr_spdxTerm.intros)
qed

lemma annexD_lax: "annexD schema ts \<Longrightarrow> laxExpression schema ts"
  by (induction rule: compoundExpression.induct) (auto intro: compoundExpression.intros)

lemma refAfterWith_append: "refAfterWith a \<Longrightarrow> refAfterWith (pre @ a @ post)"
  unfolding refAfterWith_def by (metis append.assoc)

lemma lax_annexD: "laxExpression schema ts \<Longrightarrow> annexD schema ts \<or> (\<exists>t \<in> set ts. laxSimple schema t) \<or> refAfterWith ts"
proof (induction rule: compoundExpression.induct)
  case (2 t e)
  have "refAfterWith [t, ''WITH'', e]" if "licenseRef e \<or> laxRef e"
    unfolding refAfterWith_def using that by (intro exI [of _ "[t]"] exI [of _ e] exI [of _ "[]"]) simp
  then show ?case using 2 compoundExpression.intros(2) [of "simpleExpression schema" t _ e] by auto
next
  case (3 a b op)
  then show ?case using refAfterWith_append [of a "[]" "op # b"] refAfterWith_append [of b "a @ [op]" "[]"]
      compoundExpression.intros(3) [of "simpleExpression schema" _ a b op] by auto
next
  case (4 a)
  then show ?case using refAfterWith_append [of a "[''('']" "['')'']"] compoundExpression.intros(4) [of "simpleExpression schema" _ a] by auto
qed (auto intro: compoundExpression.intros)

lemmas token_simps = tokenizeSPDXExpression_def spaceAround_def Fields_def runeParts_ascii isSpacePart_ascii

subsection \<open>What the parser accepts\<close>

text \<open>C30: The parser of license expressions returns on every string and accepts every compound expression of SPDX 2.3, annex D, of at least
  three tokens, over the licenses of the embedded list that are not in the list of exceptions, references to licenses, and the
  exceptions of that list. What else it accepts is exactly this: with the grammar unchanged, it takes a reference to a license after
  WITH, a reference whose document part is no proper name, and a word of the embedded list that is no license when a plus sign
  follows it. A string that it accepts is therefore an expression of annex D unless it has such a token or a reference after WITH.\<close>

theorem spdx_parser_meaning:
  "let ts = tokenizeSPDXExpression s in
     (3 \<le> length ts \<and> annexD schema ts \<longrightarrow> spdxExpressionValid schema s) \<and>
     (spdxExpressionValid schema s \<longleftrightarrow> 3 \<le> length ts \<and>
        compoundExpression (\<lambda>t. simpleExpression schema t \<or> laxSimple schema t)
          (\<lambda>e. e \<in> set spdxExceptionIDs \<or> licenseRef e \<or> laxRef e) ts) \<and>
     (spdxExpressionValid schema s \<longrightarrow> annexD schema ts \<or> (\<exists>t \<in> set ts. laxSimple schema t) \<or> refAfterWith ts)"
  unfolding Let_def parser_accepts spdxExpr_lax using annexD_lax lax_annexD by blast

theorem spdx_parser_meaning_witness:
  "spdxExpressionValid (Some [''MIT'', ''GPL-2.0-only'', ''Classpath-exception-2.0''])
     ''MIT OR (GPL-2.0-only+ WITH Classpath-exception-2.0)''"
proof -
  let ?schema = "Some [''MIT'', ''GPL-2.0-only'', ''Classpath-exception-2.0'']"
  let ?s = "''MIT OR (GPL-2.0-only+ WITH Classpath-exception-2.0)''"
  have ts: "tokenizeSPDXExpression ?s =
      [''MIT''] @ ''OR'' # ''('' # [''GPL-2.0-only'' @ ''+'', ''WITH'', ''Classpath-exception-2.0''] @ ['')'']"
    by (simp add: token_simps)
  have "licenseID ?schema ''MIT''" "licenseID ?schema ''GPL-2.0-only''" "''Classpath-exception-2.0'' \<in> set spdxExceptionIDs"
    by code_simp+
  then have "annexD ?schema (tokenizeSPDXExpression ?s)"
    unfolding ts by (intro compoundExpression.intros simpleExpression.intros(2)) (auto intro: simpleExpression.intros(1))
  moreover have "3 \<le> length (tokenizeSPDXExpression ?s)" unfolding ts by simp
  ultimately show ?thesis using spdx_parser_meaning [of ?s ?schema] unfolding Let_def by blast
qed

text \<open>The three kinds of strings outside annex D that are accepted, against the comments of the code.\<close>

lemma accepted_outside_annexD:
  defines "schema \<equiv> Some [''MIT'', ''Classpath-exception-2.0'']"
  shows "spdxExpressionValid schema ''MIT WITH LicenseRef-x''"
    and "spdxExpressionValid schema ''Classpath-exception-2.0+ OR MIT''"
    and "spdxExpressionValid schema ''MIT OR DocumentRef-:LicenseRef-x''"
proof -
  have [simp]: "spdxSimpleExpression schema ''MIT''" "spdxExceptionOK ''LicenseRef-x''"
    "spdxSimpleExpression schema ''Classpath-exception-2.0+''" "spdxSimpleExpression schema ''DocumentRef-:LicenseRef-x''"
    unfolding schema_def by code_simp+
  note parser = spdxExpressionValid_def parseExpression.simps parseMore.simps parseTerm.simps peek_def Let_def
  show "spdxExpressionValid schema ''MIT WITH LicenseRef-x''"
    "spdxExpressionValid schema ''Classpath-exception-2.0+ OR MIT''"
    "spdxExpressionValid schema ''MIT OR DocumentRef-:LicenseRef-x''"
    by (simp_all add: parser token_simps)
qed

section \<open>The shape of normalized lists\<close>

lemma set_loUniq [simp]: "set (loUniq xs) = set xs"
  by (simp add: loUniq_def)

lemma distinct_loUniq [simp]: "distinct (loUniq xs)"
  by (simp add: loUniq_def)

lemma loUniq_distinct: "distinct xs \<Longrightarrow> loUniq xs = xs"
proof -
  have "distinct (acc @ xs) \<Longrightarrow> foldl snocNew acc xs = acc @ xs" for acc
    by (induction xs arbitrary: acc) (auto simp: snocNew_def)
  from this [of "[]"] show "distinct xs \<Longrightarrow> loUniq xs = xs" by (simp add: loUniq_def)
qed

lemma loUniq_Nil [simp]: "loUniq xs = [] \<longleftrightarrow> xs = []"
  by (metis set_loUniq set_empty)

text \<open>A license that stays as it is: it has no identifier, or one of the list.\<close>

definition plainChoice :: "string list option \<Rightarrow> LicenseChoice \<Rightarrow> bool" where
  "plainChoice schema choice \<longleftrightarrow> lcExpression choice = [] \<and>
     (case lcLicense choice of None \<Rightarrow> False | Some lic \<Rightarrow> licID lic = [] \<or> spdxLicenseIDKnown schema (licID lic))"

text \<open>What the schema of the documents allows: several licenses or exactly one expression.\<close>

definition schemaShape :: "string list option \<Rightarrow> Licenses option \<Rightarrow> bool" where
  "schemaShape schema licenses \<longleftrightarrow>
     (case licenses of
        None \<Rightarrow> True
      | Some choices \<Rightarrow> choices \<noteq> [] \<and>
          (list_all (plainChoice schema) choices \<or> (\<exists>e. e \<noteq> [] \<and> choices = [expressionChoice e])))"

lemma placeChoice_plain: "plainChoice schema c \<Longrightarrow> placeChoice schema (es, ps) c = (es, ps @ [c])"
  by (auto simp: placeChoice_def plainChoice_def split: option.splits)

lemma foldl_placeChoice_plain: "list_all (plainChoice schema) cs \<Longrightarrow> foldl (placeChoice schema) (es, ps) cs = (es, ps @ cs)"
  by (induction cs arbitrary: ps) (auto simp: placeChoice_plain)

lemma placeChoice_parts:
  assumes "[] \<notin> set (fst acc)" "list_all (plainChoice schema) (snd acc)"
  shows "[] \<notin> set (fst (placeChoice schema acc c)) \<and> list_all (plainChoice schema) (snd (placeChoice schema acc c))"
  using assms by (auto simp: placeChoice_def plainChoice_def split: prod.splits option.splits)

lemma foldl_placeChoice_parts:
  assumes "foldl (placeChoice schema) ([], []) cs = (es, ps)"
  shows "[] \<notin> set es" "list_all (plainChoice schema) ps"
  using foldl_invariant [of "\<lambda>acc. [] \<notin> set (fst acc) \<and> list_all (plainChoice schema) (snd acc)" "([], [])" cs "placeChoice schema"]
    placeChoice_parts assms by fastforce+

lemma Join_not_Nil: "xs \<noteq> [] \<Longrightarrow> [] \<notin> set xs \<Longrightarrow> Join xs sep \<noteq> []"
  by (cases xs; cases "tl xs") auto

lemma parenthesized_not_Nil: "e \<noteq> [] \<Longrightarrow> parenthesized e \<noteq> []"
  by (simp add: parenthesized_def)

lemma schemaShape_expression: "e \<noteq> [] \<Longrightarrow> schemaShape schema (Some [expressionChoice e])"
  by (auto simp: schemaShape_def)

lemma normalizeLicenses_shape: "schemaShape schema (normalizeLicenses schema licenses)"
proof (cases licenses)
  case (Some cs)
  obtain es ps where acc: "foldl (placeChoice schema) ([], []) cs = (es, ps)" by fastforce
  note parts = foldl_placeChoice_parts [OF acc]
  have "plainChoice schema (namedLicense e)" for e by (simp add: plainChoice_def namedLicense_def)
  then have "schemaShape schema (licensesOrNil (ps @ map namedLicense (loUniq es)))"
    using parts by (auto simp: schemaShape_def licensesOrNil_def list_all_iff)
  moreover have "schemaShape schema (licensesOrNil ps)" using parts by (simp add: schemaShape_def licensesOrNil_def)
  moreover have "schemaShape schema (Some [expressionChoice (Join (loUniq (map choiceID ps @ map parenthesized (loUniq es))) '' AND '')])"
    if "es \<noteq> []" "list_all (\<lambda>choice. choiceID choice \<noteq> []) ps"
  proof -
    have "[] \<notin> set (map choiceID ps @ map parenthesized (loUniq es))"
    proof -
      have "parenthesized e \<noteq> []" if "e \<in> set es" for e using that parts(1) parenthesized_not_Nil by metis
      then show ?thesis using \<open>list_all (\<lambda>choice. choiceID choice \<noteq> []) ps\<close> by (force simp: list_all_iff)
    qed
    then have "Join (loUniq (map choiceID ps @ map parenthesized (loUniq es))) '' AND '' \<noteq> []"
      using that(1) by (intro Join_not_Nil) simp_all
    then show ?thesis by (rule schemaShape_expression)
  qed
  moreover have "schemaShape schema (Some [expressionChoice (loUniq es ! 0)])" if "length (loUniq es) = 1"
  proof -
    have "loUniq es ! 0 \<in> set es" using that nth_mem [of 0 "loUniq es"] by simp
    then have "loUniq es ! 0 \<noteq> []" using parts(1) by metis
    then show ?thesis by (rule schemaShape_expression)
  qed
  ultimately show ?thesis using Some by (simp add: normalizeLicenses_def acc Let_def)
qed (simp add: normalizeLicenses_def schemaShape_def)

lemma normalizeLicenses_stays:
  assumes "schemaShape schema licenses"
  shows "normalizeLicenses schema licenses = licenses"
proof (cases licenses)
  case (Some cs)
  consider "list_all (plainChoice schema) cs" "cs \<noteq> []" | e where "e \<noteq> []" "cs = [expressionChoice e]"
    using assms Some by (auto simp: schemaShape_def)
  then show ?thesis
  proof cases
    case 1
    then show ?thesis using Some by (simp add: normalizeLicenses_def foldl_placeChoice_plain licensesOrNil_def loUniq_def)
  next
    case 2
    then show ?thesis using Some by (simp add: normalizeLicenses_def placeChoice_def expressionChoice_def loUniq_distinct)
  qed
qed (simp add: normalizeLicenses_def)

text \<open>C32: A normalized list of licenses has the shape that the schema of the documents allows: there is none, or there are
  licenses only, each without an identifier or with one of the SPDX list, or there is exactly one expression. Normalizing again
  changes nothing.\<close>

theorem normalized_licenses_shape:
  "schemaShape schema (normalizeLicenses schema licenses) \<and>
   normalizeLicenses schema (normalizeLicenses schema licenses) = normalizeLicenses schema licenses"
  using normalizeLicenses_shape normalizeLicenses_stays by blast

text \<open>The list of the schema has the exceptions too, so an exception in the place of a license becomes a member of a joined
  expression, which is then not an expression of SPDX.\<close>

lemma exception_joined_invalid:
  fixes schema
  defines "schema \<equiv> Some [''MIT'', ''ISC'', ''SHL-2.0'']"
  shows "normalizeLicenses schema
      (Some [\<lparr>lcLicense = Some \<lparr>licID = ''SHL-2.0'', licName = [], licRest = []\<rparr>, lcExpression = []\<rparr>,
             \<lparr>lcLicense = None, lcExpression = ''MIT OR ISC''\<rparr>]) =
      Some [\<lparr>lcLicense = None, lcExpression = ''SHL-2.0 AND (MIT OR ISC)''\<rparr>] \<and>
    \<not> spdxExpressionValid schema ''SHL-2.0 AND (MIT OR ISC)''"
proof
  have "spdxLicenseIDKnown schema ''SHL-2.0''" unfolding schema_def by code_simp
  then show "normalizeLicenses schema
      (Some [\<lparr>lcLicense = Some \<lparr>licID = ''SHL-2.0'', licName = [], licRest = []\<rparr>, lcExpression = []\<rparr>,
             \<lparr>lcLicense = None, lcExpression = ''MIT OR ISC''\<rparr>]) =
      Some [\<lparr>lcLicense = None, lcExpression = ''SHL-2.0 AND (MIT OR ISC)''\<rparr>]"
    by (simp add: normalizeLicenses_def placeChoice_def loUniq_def snocNew_def choiceID_def parenthesized_def expressionChoice_def)
  have "tokenizeSPDXExpression ''SHL-2.0 AND (MIT OR ISC)'' = [''SHL-2.0'', ''AND'', ''('', ''MIT'', ''OR'', ''ISC'', '')'']"
    by (simp add: token_simps)
  moreover have "\<not> spdxSimpleExpression schema ''SHL-2.0''"
    by (simp add: spdxSimpleExpression_def spdxExceptionIDs_def)
  ultimately show "\<not> spdxExpressionValid schema ''SHL-2.0 AND (MIT OR ISC)''"
    by (simp add: spdxExpressionValid_def parseExpression.simps parseTerm.simps peek_def)
qed

end
