(* ===== verification/GoURL.thy ===== *)
theory GoURL
  imports GoStrings
begin

text \<open>
  The functions of Go's package \<^verbatim>\<open>net/url\<close> on queries: escaping of a query component, parsing of a query into its values and
  the encoding of values, sorted by key. Strings are lists of bytes.
\<close>

section \<open>Escaping\<close>

definition upperHex :: "nat \<Rightarrow> char" where
  "upperHex d = (if d < 10 then char_of (48 + d) else char_of (55 + d))"

definition unhex :: "char \<Rightarrow> nat option" where
  "unhex c = (let b = of_char c in
     if 48 \<le> b \<and> b \<le> 57 then Some (b - 48)
     else if 97 \<le> b \<and> b \<le> 102 then Some (b - 87)
     else if 65 \<le> b \<and> b \<le> 70 then Some (b - 55)
     else (None :: nat option))"

text \<open>The characters of a query component that are left alone: letters, digits and four marks.\<close>

definition unreserved :: "char \<Rightarrow> bool" where
  "unreserved c \<longleftrightarrow> (let b = of_char c :: nat in
     48 \<le> b \<and> b \<le> 57 \<or> 65 \<le> b \<and> b \<le> 90 \<or> 97 \<le> b \<and> b \<le> 122) \<or> c \<in> set ''-_.~''"

definition escapeByte :: "char \<Rightarrow> string" where
  "escapeByte c =
     (if unreserved c then [c]
      else if c = CHR '' '' then ''+''
      else CHR ''%'' # upperHex (of_char c div 16) # [upperHex (of_char c mod 16)])"

definition QueryEscape :: "string \<Rightarrow> string" where
  "QueryEscape s = concat (map escapeByte s)"

fun QueryUnescape :: "string \<Rightarrow> string option" where
  "QueryUnescape [] = Some []"
| "QueryUnescape (c # s) =
     (if c = CHR ''%'' then
        (case s of
           a # b # r \<Rightarrow>
             (case (unhex a, unhex b) of
                (Some x, Some y) \<Rightarrow> map_option ((#) (char_of (16 * x + y))) (QueryUnescape r)
              | _ \<Rightarrow> None)
         | _ \<Rightarrow> None)
      else if c = CHR ''+'' then map_option ((#) (CHR '' '')) (QueryUnescape s)
      else map_option ((#) c) (QueryUnescape s))"

section \<open>Queries\<close>

text \<open>\<^verbatim>\<open>url.Values\<close>, and one part of a query between two ampersands. \<open>None\<close> is an error.\<close>

type_synonym Values = "(string, string list) goMap"

definition cutPair :: "string \<Rightarrow> string \<times> string" where
  "cutPair part = (case Cut part ''='' of None \<Rightarrow> (part, []) | Some p \<Rightarrow> p)"

definition parsePart :: "Values \<Rightarrow> string \<Rightarrow> Values option" where
  "parsePart m part =
     (if Contains part '';'' then None
      else if part = [] then Some m
      else (case (QueryUnescape (fst (cutPair part)), QueryUnescape (snd (cutPair part))) of
              (Some key, Some val) \<Rightarrow> Some (appendAt m key [val])
            | _ \<Rightarrow> None))"

fun parseParts :: "Values \<Rightarrow> string list \<Rightarrow> Values option" where
  "parseParts m [] = Some m"
| "parseParts m (p # ps) = (case parsePart m p of None \<Rightarrow> None | Some m' \<Rightarrow> parseParts m' ps)"

definition ParseQuery :: "string \<Rightarrow> Values option" where
  "ParseQuery query = parseParts [] (SplitChar query (CHR ''&''))"

definition encodeEntry :: "Values \<Rightarrow> string \<Rightarrow> string list" where
  "encodeEntry v k = map (\<lambda>val. QueryEscape k @ ''='' @ QueryEscape val) (sliceAt v k)"

definition sortedKeys :: "Values \<Rightarrow> string list" where
  "sortedKeys v = sort (map fst v)"

definition Encode :: "Values \<Rightarrow> string" where
  "Encode v = Join (concat (map (encodeEntry v) (sortedKeys v))) ''&''"

section \<open>What is escaped is read back\<close>

lemma unhex_upperHex: "d < 16 \<Longrightarrow> unhex (upperHex d) = Some d"
  by (auto simp: unhex_def upperHex_def Let_def)

lemma of_char_less: "(of_char c :: nat) < 256"
  by simp

lemma QueryUnescape_escapeByte: "QueryUnescape (escapeByte c @ s) = map_option ((#) c) (QueryUnescape s)"
proof -
  have "(of_char c :: nat) div 16 < 16" using of_char_less [of c] by linarith
  moreover have "char_of (16 * (of_char c div 16) + of_char c mod 16 :: nat) = c" by (simp del: of_char_mod_256)
  moreover have "unreserved c \<Longrightarrow> c \<noteq> CHR ''%'' \<and> c \<noteq> CHR ''+''" by (auto simp: unreserved_def)
  ultimately show ?thesis by (cases "unreserved c"; cases "c = CHR '' ''") (simp_all add: escapeByte_def unhex_upperHex)
qed

lemma QueryUnescape_QueryEscape [simp]: "QueryUnescape (QueryEscape s) = Some s"
  by (induction s) (auto simp: QueryEscape_def QueryUnescape_escapeByte)

text \<open>An escaped string has none of the characters that structure a URL.\<close>

lemma upperHex_unreserved: "d < 16 \<Longrightarrow> unreserved (upperHex d)"
  by (auto simp: unreserved_def upperHex_def Let_def)

lemma escapeByte_chars: "x \<in> set (escapeByte c) \<Longrightarrow> unreserved x \<or> x = CHR ''%'' \<or> x = CHR ''+''"
proof -
  have "(of_char c :: nat) div 16 < 16" using of_char_less [of c] by linarith
  then have "unreserved (upperHex (of_char c div 16))" "unreserved (upperHex (of_char c mod 16))"
    by (simp_all add: upperHex_unreserved)
  moreover assume "x \<in> set (escapeByte c)"
  ultimately show ?thesis by (cases "unreserved c"; cases "c = CHR '' ''") (auto simp: escapeByte_def)
qed

lemma QueryEscape_chars: "x \<in> set (QueryEscape s) \<Longrightarrow> unreserved x \<or> x = CHR ''%'' \<or> x = CHR ''+''"
  by (induction s) (auto simp: QueryEscape_def dest: escapeByte_chars)

lemma QueryEscape_safe: "c \<in> set ''&;=?#'' \<Longrightarrow> c \<notin> set (QueryEscape s)"
  using QueryEscape_chars [of c s] by (auto simp: unreserved_def)

lemma encodeEntry_parts:
  assumes "p \<in> set (encodeEntry v k)"
  shows "p \<noteq> []" "CHR ''&'' \<notin> set p" "CHR '';'' \<notin> set p" "CHR ''?'' \<notin> set p" "CHR ''#'' \<notin> set p"
  using assms by (auto simp: encodeEntry_def QueryEscape_safe)

lemma parsePart_encoded: "parsePart m (QueryEscape k @ ''='' @ QueryEscape val) = Some (appendAt m k [val])"
proof -
  let ?p = "QueryEscape k @ ''='' @ QueryEscape val"
  have "CHR '';'' \<notin> set ?p" by (simp add: QueryEscape_safe)
  then have "\<not> Contains ?p '';''" unfolding Contains_def by (metis Cut_char_None)
  moreover have "cutPair ?p = (QueryEscape k, QueryEscape val)"
    using Cut_char [of "CHR ''=''" "QueryEscape k" "QueryEscape val"] by (simp add: cutPair_def QueryEscape_safe)
  ultimately show ?thesis by (simp add: parsePart_def)
qed

lemma parseParts_append: "parseParts m (ps @ qs) = (case parseParts m ps of None \<Rightarrow> None | Some m' \<Rightarrow> parseParts m' qs)"
  by (induction ps arbitrary: m) (auto split: option.splits)

lemma parseParts_entry:
  "parseParts m (map (\<lambda>val. QueryEscape k @ ''='' @ QueryEscape val) vals) =
     Some (foldl (\<lambda>m val. appendAt m k [val]) m vals)"
proof (induction vals arbitrary: m)
  case (Cons val vals)
  then show ?case using parsePart_encoded [of m k val] by (simp del: append_Cons)
qed simp

end
