(* ===== verification/SbomCanon.thy ===== *)
theory SbomCanon
  imports SbomRefs SbomLicense GoURL
begin

text \<open>
  The canonical form of a document (\<^verbatim>\<open>src/pkg/sbom/cyclonedxutil/canonicalize.go\<close>). Items are compared by the code through the hash
  of their JSON text; here they are compared as values. The parameter \<open>schema\<close> is the list of license identifiers.
\<close>

section \<open>Slices\<close>

definition appendPtrSlice :: "'a list option \<Rightarrow> 'a list option \<Rightarrow> 'a list option" where
  "appendPtrSlice dest src =
     (case src of None \<Rightarrow> dest | Some ys \<Rightarrow> (case dest of None \<Rightarrow> Some ys | Some xs \<Rightarrow> Some (xs @ ys)))"

definition dedupJSONSlice :: "'a list \<Rightarrow> 'a list" where
  "dedupJSONSlice items = loUniq items"

definition dedupPtrSlice :: "'a list option \<Rightarrow> 'a list option" where
  "dedupPtrSlice items = (case items of None \<Rightarrow> None | Some xs \<Rightarrow> ptrOrNil (dedupJSONSlice xs))"

definition dedupStringSlice :: "string list option \<Rightarrow> string list option" where
  "dedupStringSlice vals = (case vals of None \<Rightarrow> None | Some xs \<Rightarrow> ptrOrNil (foldl snocNew [] xs))"

text \<open>The loops that keep the first item of every key.\<close>

fun keepFirst :: "('a \<Rightarrow> string) \<Rightarrow> string list \<Rightarrow> 'a list \<Rightarrow> 'a list" where
  "keepFirst key seen [] = []"
| "keepFirst key seen (x # xs) = (if key x \<in> set seen then keepFirst key seen xs else x # keepFirst key (key x # seen) xs)"

section \<open>External references and properties\<close>

definition ERTypeVCS :: string where
  "ERTypeVCS = ''vcs''"

definition ExternalReferenceCommentResolved :: string where
  "ExternalReferenceCommentResolved = ''resolved from purl''"

definition externalReferenceKey :: "ExternalReference \<Rightarrow> string" where
  "externalReferenceKey ref = erType ref @ ''|'' @ erURL ref @ ''|'' @ erComment ref"

definition dedupExternalReferences :: "ExternalReference list option \<Rightarrow> ExternalReference list option" where
  "dedupExternalReferences refs = (case refs of None \<Rightarrow> None | Some xs \<Rightarrow> ptrOrNil (keepFirst externalReferenceKey [] xs))"

text \<open>The version control reference that is kept. Without one, nothing is filtered.\<close>

definition chosenVCS :: "ExternalReference list \<Rightarrow> ExternalReference option" where
  "chosenVCS refs =
     (case find (\<lambda>ref. erType ref = ERTypeVCS \<and> erComment ref \<noteq> ExternalReferenceCommentResolved) refs of
        Some ref \<Rightarrow> Some ref
      | None \<Rightarrow> find (\<lambda>ref. erType ref = ERTypeVCS) refs)"

definition dedupComponentExternalReferences :: "ExternalReference list option \<Rightarrow> ExternalReference list option" where
  "dedupComponentExternalReferences refs =
     (case refs of
        None \<Rightarrow> None
      | Some xs \<Rightarrow>
          let (url, comment) = (case chosenVCS xs of None \<Rightarrow> ([], []) | Some vcs \<Rightarrow> (erURL vcs, erComment vcs))
          in dedupExternalReferences
               (Some (filter (\<lambda>ref. erType ref \<noteq> ERTypeVCS \<or> erURL ref = url \<and> erComment ref = comment) xs)))"

text \<open>One round of the loop of \<^verbatim>\<open>dedupProperties\<close>: the keys seen, the places of the GOST properties, and the result so far.\<close>

type_synonym propState = "string list \<times> (string, nat) goMap \<times> Property list"

definition setValueAt :: "Property list \<Rightarrow> nat \<Rightarrow> string \<Rightarrow> Property list" where
  "setValueAt props pos val = props[pos := (props ! pos)\<lparr>propValue := val\<rparr>]"

definition dedupProperty :: "propState \<Rightarrow> Property \<Rightarrow> propState" where
  "dedupProperty state prop =
     (let (seen, gostPos, result) = state in
      if propName prop = PropertyAttackSurface \<or> propName prop = PropertySecurityFunction then
        (case map_of gostPos (propName prop) of
           Some pos \<Rightarrow> (seen, gostPos, setValueAt result pos (gostMax (propValue (result ! pos)) (propValue prop)))
         | None \<Rightarrow> (seen, AList.update (propName prop) (length result) gostPos, result @ [prop]))
      else if propName prop = PropertySourceLangs then
        (let prop = prop\<lparr>propValue := NormalizeSourceLangsValue (propValue prop)\<rparr> in
         if propValue prop = [] then state
         else (case map_of gostPos (propName prop) of
                 Some pos \<Rightarrow> (seen, gostPos, setValueAt result pos (MergeSourceLangsValues (propValue (result ! pos)) (propValue prop)))
               | None \<Rightarrow> (seen, AList.update (propName prop) (length result) gostPos, result @ [prop])))
      else
        (let key = propName prop @ ''|'' @ propValue prop in
         if key \<in> set seen then state else (key # seen, gostPos, result @ [prop])))"

definition dedupProperties :: "Property list option \<Rightarrow> Property list option" where
  "dedupProperties properties =
     (case properties of None \<Rightarrow> None | Some props \<Rightarrow> ptrOrNil (snd (snd (foldl dedupProperty ([], [], []) props))))"

section \<open>Merging of entities\<close>

definition takeString :: "string \<Rightarrow> string \<Rightarrow> string" where
  "takeString dest src = (if dest = [] then src else dest)"

definition takePtr :: "'a option \<Rightarrow> 'a option \<Rightarrow> 'a option" where
  "takePtr dest src = (if dest = None then src else dest)"

definition mergeLicenses :: "Licenses option \<Rightarrow> Licenses option \<Rightarrow> Licenses option" where
  "mergeLicenses dest src = (case src of None \<Rightarrow> dest | Some ys \<Rightarrow> Some (dedupJSONSlice (fromPtr dest @ ys)))"

definition mergeEvidence :: "Evidence option \<Rightarrow> Evidence option \<Rightarrow> Evidence option" where
  "mergeEvidence dest src =
     (case src of
        None \<Rightarrow> dest
      | Some s \<Rightarrow>
          (case dest of
             None \<Rightarrow> Some s
           | Some d \<Rightarrow> Some
               (d\<lparr>evIdentity := dedupPtrSlice (appendPtrSlice (evIdentity d) (evIdentity s)),
                  evOccurrences := dedupPtrSlice (appendPtrSlice (evOccurrences d) (evOccurrences s)),
                  evCopyright := dedupPtrSlice (appendPtrSlice (evCopyright d) (evCopyright s)),
                  evLicenses := mergeLicenses (evLicenses d) (evLicenses s),
                  evCallstack := takePtr (evCallstack d) (evCallstack s)\<rparr>)))"

definition canonicalizeComponent :: "string list option \<Rightarrow> ComponentData \<Rightarrow> ComponentData" where
  "canonicalizeComponent schema c =
     c\<lparr>cExternalReferences := dedupComponentExternalReferences (cExternalReferences c),
       cProperties := dedupProperties (cProperties c),
       cLicenses := normalizeLicenses schema (cLicenses c),
       cEvidence := map_option (\<lambda>ev. ev\<lparr>evLicenses := normalizeLicenses schema (evLicenses ev)\<rparr>) (cEvidence c)\<rparr>"

text \<open>\<^verbatim>\<open>mergeComponentInto\<close> up to the components inside, which the loop over the forest merges.\<close>

definition mergeComponentInto :: "ComponentData \<Rightarrow> ComponentData \<Rightarrow> ComponentData" where
  "mergeComponentInto survivor dup =
     survivor\<lparr>
       cExternalReferences := appendPtrSlice (cExternalReferences survivor) (cExternalReferences dup),
       cProperties := appendPtrSlice (cProperties survivor) (cProperties dup),
       cHashes := dedupPtrSlice (appendPtrSlice (cHashes survivor) (cHashes dup)),
       cLicenses := mergeLicenses (cLicenses survivor) (cLicenses dup),
       cAuthors := dedupPtrSlice (appendPtrSlice (cAuthors survivor) (cAuthors dup)),
       cOmniborID := dedupStringSlice (appendPtrSlice (cOmniborID survivor) (cOmniborID dup)),
       cSWHID := dedupStringSlice (appendPtrSlice (cSWHID survivor) (cSWHID dup)),
       cTags := dedupStringSlice (appendPtrSlice (cTags survivor) (cTags dup)),
       cData := dedupPtrSlice (appendPtrSlice (cData survivor) (cData dup)),
       cMIMEType := takeString (cMIMEType survivor) (cMIMEType dup),
       cName := takeString (cName survivor) (cName dup),
       cVersion := takeString (cVersion survivor) (cVersion dup),
       cGroup := takeString (cGroup survivor) (cGroup dup),
       cAuthor := takeString (cAuthor survivor) (cAuthor dup),
       cPublisher := takeString (cPublisher survivor) (cPublisher dup),
       cDescription := takeString (cDescription survivor) (cDescription dup),
       cCopyright := takeString (cCopyright survivor) (cCopyright dup),
       cCPE := takeString (cCPE survivor) (cCPE dup),
       cScope := (if cScope survivor = [] then cScope dup else cScope survivor),
       cSupplier := takePtr (cSupplier survivor) (cSupplier dup),
       cManufacturer := takePtr (cManufacturer survivor) (cManufacturer dup),
       cSWID := takePtr (cSWID survivor) (cSWID dup),
       cModified := takePtr (cModified survivor) (cModified dup),
       cPedigree := takePtr (cPedigree survivor) (cPedigree dup),
       cEvidence := mergeEvidence (cEvidence survivor) (cEvidence dup),
       cReleaseNotes := takePtr (cReleaseNotes survivor) (cReleaseNotes dup),
       cModelCard := takePtr (cModelCard survivor) (cModelCard dup),
       cCryptoProperties := takePtr (cCryptoProperties survivor) (cCryptoProperties dup),
       cSignature := takePtr (cSignature survivor) (cSignature dup)\<rparr>"

definition ComponentTypeFile :: string where
  "ComponentTypeFile = ''file''"

definition indexByte :: "string \<Rightarrow> char \<Rightarrow> nat option" where
  "indexByte s c = (let i = length (takeWhile (\<lambda>x. x \<noteq> c) s) in if i < length s then Some i else None)"

definition normalizePURL :: "string \<Rightarrow> string" where
  "normalizePURL purl =
     (let (base, fragment) = (case indexByte purl (CHR ''#'') of None \<Rightarrow> (purl, []) | Some i \<Rightarrow> (take i purl, drop i purl))
      in case indexByte base (CHR ''?'') of
           None \<Rightarrow> purl
         | Some q \<Rightarrow>
             (case ParseQuery (drop (q + 1) base) of
                None \<Rightarrow> purl
              | Some query \<Rightarrow>
                  let query = AList.delete ''package-id'' query
                  in if query = [] then take q base @ fragment else take q base @ ''?'' @ Encode query @ fragment))"

definition componentKey :: "ComponentData \<Rightarrow> nat \<Rightarrow> string" where
  "componentKey c index =
     (if cPackageURL c \<noteq> [] then ''purl:'' @ normalizePURL (cPackageURL c)
      else if cType c = ComponentTypeFile then
        (let hashes = fromPtr (cHashes c) in
         if hashes = [] then ''file-unique:'' @ fmtNat index
         else ''file:'' @ cName c @ ''|'' @ Join (sort (map (\<lambda>h. Algorithm h @ '':'' @ hashValue h) hashes)) '','')
      else Join [''coords'', cType c, cGroup c, cName c, cVersion c] ''|'')"

definition componentEntity :: "string list option \<Rightarrow> ComponentData entity" where
  "componentEntity schema =
     \<lparr>entKey = componentKey, entRef = cBOMRef, entSetRef = (\<lambda>ref c. c\<lparr>cBOMRef := ref\<rparr>),
      entCanon = canonicalizeComponent schema, entMerge = mergeComponentInto\<rparr>"

definition canonicalizeComponents ::
  "string list option \<Rightarrow> Component list option \<Rightarrow> refMap \<Rightarrow> Component list option \<times> refMap" where
  "canonicalizeComponents schema = canonicalizeNodes (componentEntity schema)"

definition canonicalizeService :: "string list option \<Rightarrow> ServiceData \<Rightarrow> ServiceData" where
  "canonicalizeService schema s =
     s\<lparr>sExternalReferences := dedupExternalReferences (sExternalReferences s),
       sProperties := dedupProperties (sProperties s),
       sLicenses := normalizeLicenses schema (sLicenses s)\<rparr>"

definition mergeServiceInto :: "ServiceData \<Rightarrow> ServiceData \<Rightarrow> ServiceData" where
  "mergeServiceInto survivor dup =
     survivor\<lparr>
       sExternalReferences := appendPtrSlice (sExternalReferences survivor) (sExternalReferences dup),
       sProperties := appendPtrSlice (sProperties survivor) (sProperties dup),
       sEndpoints := dedupStringSlice (appendPtrSlice (sEndpoints survivor) (sEndpoints dup)),
       sTags := dedupStringSlice (appendPtrSlice (sTags survivor) (sTags dup)),
       sData := dedupPtrSlice (appendPtrSlice (sData survivor) (sData dup)),
       sLicenses := mergeLicenses (sLicenses survivor) (sLicenses dup),
       sDescription := takeString (sDescription survivor) (sDescription dup),
       sTrustZone := takeString (sTrustZone survivor) (sTrustZone dup),
       sProvider := takePtr (sProvider survivor) (sProvider dup),
       sAuthenticated := takePtr (sAuthenticated survivor) (sAuthenticated dup),
       sCrossesTrustBoundary := takePtr (sCrossesTrustBoundary survivor) (sCrossesTrustBoundary dup),
       sReleaseNotes := takePtr (sReleaseNotes survivor) (sReleaseNotes dup),
       sSignature := takePtr (sSignature survivor) (sSignature dup)\<rparr>"

definition serviceEntity :: "string list option \<Rightarrow> ServiceData entity" where
  "serviceEntity schema =
     \<lparr>entKey = (\<lambda>s index. Join [sGroup s, sName s, sVersion s] ''|''), entRef = sBOMRef,
      entSetRef = (\<lambda>ref s. s\<lparr>sBOMRef := ref\<rparr>), entCanon = canonicalizeService schema, entMerge = mergeServiceInto\<rparr>"

definition canonicalizeServices ::
  "string list option \<Rightarrow> Service list option \<Rightarrow> refMap \<Rightarrow> Service list option \<times> refMap" where
  "canonicalizeServices schema = canonicalizeNodes (serviceEntity schema)"

section \<open>Vulnerabilities\<close>

definition vulnerabilityKey :: "Vulnerability \<Rightarrow> string" where
  "vulnerabilityKey v =
     (case vSource v of None \<Rightarrow> vID v | Some src \<Rightarrow> vID v @ ''|'' @ srcName src @ ''|'' @ srcURL src)"

definition mergeVulnerabilityInto :: "Vulnerability \<Rightarrow> Vulnerability \<Rightarrow> Vulnerability" where
  "mergeVulnerabilityInto survivor dup =
     survivor\<lparr>
       vDescription := takeString (vDescription survivor) (vDescription dup),
       vDetail := takeString (vDetail survivor) (vDetail dup),
       vRecommendation := takeString (vRecommendation survivor) (vRecommendation dup),
       vWorkaround := takeString (vWorkaround survivor) (vWorkaround dup),
       vCreated := takeString (vCreated survivor) (vCreated dup),
       vPublished := takeString (vPublished survivor) (vPublished dup),
       vUpdated := takeString (vUpdated survivor) (vUpdated dup),
       vRejected := takeString (vRejected survivor) (vRejected dup),
       vSource := takePtr (vSource survivor) (vSource dup),
       vProofOfConcept := takePtr (vProofOfConcept survivor) (vProofOfConcept dup),
       vCredits := takePtr (vCredits survivor) (vCredits dup),
       vTools := takePtr (vTools survivor) (vTools dup),
       vAnalysis := takePtr (vAnalysis survivor) (vAnalysis dup),
       vAffects := dedupPtrSlice (appendPtrSlice (vAffects survivor) (vAffects dup)),
       vRatings := dedupPtrSlice (appendPtrSlice (vRatings survivor) (vRatings dup)),
       vAdvisories := dedupPtrSlice (appendPtrSlice (vAdvisories survivor) (vAdvisories dup)),
       vCWEs := dedupPtrSlice (appendPtrSlice (vCWEs survivor) (vCWEs dup)),
       vReferences := dedupPtrSlice (appendPtrSlice (vReferences survivor) (vReferences dup)),
       vProperties := dedupProperties (appendPtrSlice (vProperties survivor) (vProperties dup))\<rparr>"

definition dedupVulnerability :: "Vulnerability \<Rightarrow> Vulnerability" where
  "dedupVulnerability v = v\<lparr>vAffects := dedupPtrSlice (vAffects v), vProperties := dedupProperties (vProperties v)\<rparr>"

definition collapseVulnerability ::
  "(string \<times> Vulnerability) list \<times> refMap \<Rightarrow> Vulnerability \<Rightarrow> (string \<times> Vulnerability) list \<times> refMap" where
  "collapseVulnerability state v =
     (let (result, m) = state; vuln = dedupVulnerability v; key = vulnerabilityKey vuln in
      case map_of result key of
        None \<Rightarrow> (result @ [(key, vuln)], m)
      | Some survivor \<Rightarrow>
          let adopted = adoptRef (vBOMRef survivor) (vBOMRef vuln) m
          in (AList.update key (mergeVulnerabilityInto (survivor\<lparr>vBOMRef := fst adopted\<rparr>) vuln) result, snd adopted))"

definition canonicalizeVulnerabilities ::
  "Vulnerability list option \<Rightarrow> refMap \<Rightarrow> Vulnerability list option \<times> refMap" where
  "canonicalizeVulnerabilities vulns m =
     (case vulns of
        None \<Rightarrow> (None, m)
      | Some vs \<Rightarrow> let r = foldl collapseVulnerability ([], m) vs in (ptrOrNil (map snd (fst r)), snd r))"

section \<open>Sections that refer to entities\<close>

definition filterKnownRefs :: "string list option \<Rightarrow> string list \<Rightarrow> string \<Rightarrow> string list option" where
  "filterKnownRefs refs knownRefs dependentRef =
     (case refs of
        None \<Rightarrow> None
      | Some xs \<Rightarrow>
          let result = filter (\<lambda>ref. ref \<noteq> dependentRef \<and> (ref \<in> set knownRefs \<or> isBOMLink ref)) xs
          in if result = [] then None else dedupStringSlice (Some result))"

definition collapseDependency ::
  "string list \<Rightarrow> (string \<times> DependencyEntry) list \<Rightarrow> DependencyEntry \<Rightarrow> (string \<times> DependencyEntry) list" where
  "collapseDependency knownRefs result dep =
     (if depRef dep \<notin> set knownRefs then result
      else
        let dep = dep\<lparr>depDependencies := filterKnownRefs (depDependencies dep) knownRefs (depRef dep),
                      depProvides := filterKnownRefs (depProvides dep) knownRefs (depRef dep)\<rparr>
        in case map_of result (depRef dep) of
             Some survivor \<Rightarrow> AList.update (depRef dep)
               (survivor\<lparr>depDependencies := dedupStringSlice (appendPtrSlice (depDependencies survivor) (depDependencies dep)),
                         depProvides := dedupStringSlice (appendPtrSlice (depProvides survivor) (depProvides dep))\<rparr>) result
           | None \<Rightarrow> result @ [(depRef dep, dep)])"

definition canonicalizeDependencies :: "DependencyEntry list option \<Rightarrow> string list \<Rightarrow> DependencyEntry list option" where
  "canonicalizeDependencies deps knownRefs =
     (case deps of
        None \<Rightarrow> None
      | Some ds \<Rightarrow>
          if knownRefs = [] then dedupPtrSlice deps
          else ptrOrNil (map snd (foldl (collapseDependency knownRefs) [] ds)))"

definition filterKnownBOMReferences :: "string list option \<Rightarrow> string list \<Rightarrow> string list option" where
  "filterKnownBOMReferences refs knownRefs =
     (case refs of
        None \<Rightarrow> None
      | Some xs \<Rightarrow> dedupPtrSlice (Some (filter (\<lambda>ref. ref \<in> set knownRefs \<or> isBOMLink ref) xs)))"

definition filterKnownAffects :: "Affects list option \<Rightarrow> string list \<Rightarrow> Affects list option" where
  "filterKnownAffects affects knownRefs =
     (case affects of
        None \<Rightarrow> None
      | Some xs \<Rightarrow> dedupPtrSlice (Some (filter (\<lambda>a. affRef a \<in> set knownRefs \<or> isBOMLink (affRef a)) xs)))"

definition filterComposition :: "string list \<Rightarrow> Composition \<Rightarrow> Composition" where
  "filterComposition knownRefs c =
     c\<lparr>cpAssemblies := filterKnownBOMReferences (cpAssemblies c) knownRefs,
       cpDependencies := filterKnownBOMReferences (cpDependencies c) knownRefs,
       cpVulnerabilities := filterKnownBOMReferences (cpVulnerabilities c) knownRefs\<rparr>"

definition noRefs :: "Composition \<Rightarrow> bool" where
  "noRefs c \<longleftrightarrow> cpAssemblies c = None \<and> cpDependencies c = None \<and> cpVulnerabilities c = None"

definition canonicalizeCompositions :: "Composition list option \<Rightarrow> string list \<Rightarrow> Composition list option" where
  "canonicalizeCompositions compositions knownRefs =
     (case compositions of
        None \<Rightarrow> None
      | Some cs \<Rightarrow>
          dedupPtrSlice (Some (map (filterComposition knownRefs)
            (filter (\<lambda>c. \<not> (\<not> noRefs c \<and> noRefs (filterComposition knownRefs c))) cs))))"

definition filterAnnotation :: "string list \<Rightarrow> Annotation \<Rightarrow> Annotation" where
  "filterAnnotation knownRefs a = a\<lparr>anSubjects := filterKnownBOMReferences (anSubjects a) knownRefs\<rparr>"

definition canonicalizeAnnotations :: "Annotation list option \<Rightarrow> string list \<Rightarrow> Annotation list option" where
  "canonicalizeAnnotations annotations knownRefs =
     (case annotations of
        None \<Rightarrow> None
      | Some as \<Rightarrow>
          dedupPtrSlice (Some (filter (\<lambda>a. anSubjects a \<noteq> None) (map (filterAnnotation knownRefs) as))))"

section \<open>Documents\<close>

text \<open>The parts of \<^verbatim>\<open>CanonicalizeDocument\<close> that do not look at refs.\<close>

definition dedupDocument :: "string list option \<Rightarrow> BOM \<Rightarrow> BOM" where
  "dedupDocument schema bom =
     bom\<lparr>bMetadata := map_option (\<lambda>md. md\<lparr>mdComponent := map_option (\<lambda>root. Node (canonicalizeComponent schema (payload root)) (children root)) (mdComponent md),
                                        mdLicenses := normalizeLicenses schema (mdLicenses md)\<rparr>) (bMetadata bom),
         bExternalReferences := dedupExternalReferences (bExternalReferences bom),
         bProperties := dedupProperties (bProperties bom),
         bVulnerabilities := map_option (map dedupVulnerability) (bVulnerabilities bom)\<rparr>"

definition CanonicalizeDocument :: "string list option \<Rightarrow> BOM \<Rightarrow> BOM" where
  "CanonicalizeDocument schema bom =
     (let bom = dedupDocument schema bom;
          knownRefs = collectKnownRefs bom;
          bom = bom\<lparr>bDependencies := canonicalizeDependencies (bDependencies bom) knownRefs,
                    bVulnerabilities := map_option (map (\<lambda>v. v\<lparr>vAffects := filterKnownAffects (vAffects v) knownRefs\<rparr>)) (bVulnerabilities bom)\<rparr>;
          knownRefs = refList (bSerialNumber bom) @ knownRefs;
          bom = bom\<lparr>bCompositions := canonicalizeCompositions (bCompositions bom) knownRefs\<rparr>;
          knownRefs = concat (map (\<lambda>formula. refList (fBOMRef formula)) (fromPtr (bFormulation bom))) @
                      concat (map (\<lambda>c. refList (cpBOMRef c)) (fromPtr (bCompositions bom))) @ knownRefs
      in bom\<lparr>bAnnotations := canonicalizeAnnotations (bAnnotations bom) knownRefs,
             bFormulation := dedupPtrSlice (bFormulation bom)\<rparr>)"

text \<open>The first half of \<^verbatim>\<open>Canonicalize\<close>: entities are collapsed; the second result is the map of the refs that went away.\<close>

definition collapseEntities :: "string list option \<Rightarrow> BOM \<Rightarrow> BOM \<times> refMap" where
  "collapseEntities schema bom =
     (let r0 = (case bomRoot bom of
                  None \<Rightarrow> (bom, [])
                | Some root \<Rightarrow>
                    let r = canonicalizeComponents schema (children root) []
                    in (mapRoot (\<lambda>_. Node (payload root) (fst r)) bom, snd r));
          r1 = canonicalizeComponents schema (bComponents bom) (snd r0);
          r2 = canonicalizeServices schema (bServices bom) (snd r1);
          r3 = canonicalizeVulnerabilities (bVulnerabilities bom) (snd r2)
      in ((fst r0)\<lparr>bComponents := fst r1, bServices := fst r2, bVulnerabilities := fst r3\<rparr>, snd r3))"

definition survivingRefs :: "BOM \<times> refMap \<Rightarrow> refMap" where
  "survivingRefs r = flattenRefMap (dropSurvivingRefs (snd r) (collectKnownRefs (fst r)))"

definition Canonicalize :: "string list option \<Rightarrow> BOM \<Rightarrow> BOM" where
  "Canonicalize schema bom =
     (let r = collapseEntities schema bom in CanonicalizeDocument schema (RewriteRefs (fst r) (survivingRefs r)))"

end
