(* ===== verification/SbomMerge.thy ===== *)
theory SbomMerge
  imports SbomCanon
begin

text \<open>
  The merge of documents (\<^verbatim>\<open>src/pkg/sbom/cyclonedxutil/merge.go\<close>), the mark of werf among the tools (\<^verbatim>\<open>tools.go\<close>), and the
  smaller changes of documents (\<^verbatim>\<open>source_file.go\<close>, \<^verbatim>\<open>patch.go\<close>, \<^verbatim>\<open>resolve_unknown.go\<close>). Copying through JSON, the JSON text, the
  hash of the helper library and the random part of a serial number are parameters.
\<close>

record mergeEnv =
  meRefs :: refEnv
  meSchema :: "string list option"
  meClone :: "BOM \<Rightarrow> string + BOM"
  meJSON :: "BOM \<Rightarrow> string option"
  meHash :: "string \<Rightarrow> string"
  meUUID :: string

datatype mergeError = UnsupportedSpecVersion SpecVersion | CloneFailed string

section \<open>Tools\<close>

definition werfToolName :: string where
  "werfToolName = ''werf''"

definition ComponentTypeApplication :: string where
  "ComponentTypeApplication = ''application''"

definition ComponentTypeLibrary :: string where
  "ComponentTypeLibrary = ''library''"

definition HasWerfTool :: "BOM option \<Rightarrow> bool" where
  "HasWerfTool p =
     (case p of
        None \<Rightarrow> False
      | Some bom \<Rightarrow>
          (case bomTools bom of
             None \<Rightarrow> False
           | Some tools \<Rightarrow>
               list_ex (\<lambda>n. cName (payload n) = werfToolName) (fromPtr (tcComponents tools)) \<or>
               list_ex (\<lambda>t. tName t = werfToolName) (fromPtr (tcTools tools))))"

text \<open>A tool in the old form as a component. The manufacturer is the JSON text of an entity that has only a name.\<close>

definition convertTool :: "(string \<Rightarrow> opaque) \<Rightarrow> Tool \<Rightarrow> Component" where
  "convertTool entityNamed t =
     Node ((newComponent ComponentTypeApplication (tName t) (tVersion t))
       \<lparr>cHashes := tHashes t, cExternalReferences := tExternalReferences t,
        cManufacturer := (if tVendor t \<noteq> [] then Some (entityNamed (tVendor t)) else None)\<rparr>) None"

definition convertTools :: "(string \<Rightarrow> opaque) \<Rightarrow> ToolsChoice \<Rightarrow> ToolsChoice" where
  "convertTools entityNamed tools =
     (case tcTools tools of
        None \<Rightarrow> tools
      | Some ts \<Rightarrow> tools\<lparr>tcComponents := Some (map (convertTool entityNamed) ts @ fromPtr (tcComponents tools)), tcTools := None\<rparr>)"

definition MarkWerfTool :: "(string \<Rightarrow> opaque) \<Rightarrow> BOM \<Rightarrow> string \<Rightarrow> BOM" where
  "MarkWerfTool entityNamed bom version =
     (let md = (case bMetadata bom of Some md \<Rightarrow> md
          | None \<Rightarrow> \<lparr>mdTimestamp = [], mdTools = None, mdComponent = None, mdLicenses = None, mdRest = []\<rparr>);
          tools = (case mdTools md of Some t \<Rightarrow> t | None \<Rightarrow> \<lparr>tcTools = None, tcComponents = None, tcServices = None\<rparr>);
          tools = convertTools entityNamed tools;
          marked = (\<lambda>t. bom\<lparr>bMetadata := Some (md\<lparr>mdTools := Some t\<rparr>)\<rparr>)
      in if HasWerfTool (Some (marked tools)) then marked tools
         else marked (tools\<lparr>tcComponents := Some (fromPtr (tcComponents tools) @ [Node (newComponent ComponentTypeApplication werfToolName version) None])\<rparr>))"

section \<open>Options\<close>

record MergeOpts =
  BaseBOM :: "BOM option"
  ImportBOMs :: "BOM option list"
  Gost :: Config
  PreserveBOMRefs :: bool
  IsolateComponents :: bool

definition MergeOpts_IsEmpty :: "MergeOpts \<Rightarrow> bool" where
  "MergeOpts_IsEmpty opts \<longleftrightarrow> BaseBOM opts = None \<and> ImportBOMs opts = []"

text \<open>The checksum leaves out the serial number, the version, the signature and the time.\<close>

definition StableBOMChecksum :: "mergeEnv \<Rightarrow> BOM option \<Rightarrow> string" where
  "StableBOMChecksum env p =
     (case p of
        None \<Rightarrow> []
      | Some bom \<Rightarrow>
          (case meJSON env (bom\<lparr>bSerialNumber := [], bVersion := 0, bSignature := None,
                                bMetadata := map_option (\<lambda>md. md\<lparr>mdTimestamp := []\<rparr>) (bMetadata bom)\<rparr>) of
             None \<Rightarrow> []
           | Some text \<Rightarrow> meHash env text))"

definition MergeOpts_Checksum :: "mergeEnv \<Rightarrow> MergeOpts \<Rightarrow> string" where
  "MergeOpts_Checksum env opts =
     Join (filter (\<lambda>cs. cs \<noteq> []) (map (StableBOMChecksum env) (BaseBOM opts # ImportBOMs opts))) ''-''"

definition mergeOrder :: "MergeOpts \<Rightarrow> BOM option \<Rightarrow> BOM option list" where
  "mergeOrder opts target = BaseBOM opts # ImportBOMs opts @ [target]"

fun firstUnsupported :: "BOM option list \<Rightarrow> mergeError + unit" where
  "firstUnsupported [] = Inr ()"
| "firstUnsupported (None # boms) = firstUnsupported boms"
| "firstUnsupported (Some bom # boms) =
     (if bSpecVersion bom \<noteq> SpecVersion1_6 then Inl (UnsupportedSpecVersion (bSpecVersion bom)) else firstUnsupported boms)"

definition validateBOMSpecVersions :: "BOM option \<Rightarrow> MergeOpts \<Rightarrow> mergeError + unit" where
  "validateBOMSpecVersions target opts = firstUnsupported (mergeOrder opts target)"

section \<open>Preparation of an input\<close>

definition CloneBOM :: "mergeEnv \<Rightarrow> BOM option \<Rightarrow> mergeError + BOM option" where
  "CloneBOM env p =
     (case p of
        None \<Rightarrow> Inr None
      | Some bom \<Rightarrow> (case meClone env bom of Inl e \<Rightarrow> Inl (CloneFailed e) | Inr clone \<Rightarrow> Inr (Some clone)))"

definition linkSelfReferences :: "BOM \<Rightarrow> BOM" where
  "linkSelfReferences bom =
     (if \<not> HasPrefix (bSerialNumber bom) ''urn:uuid:'' then bom
      else RewriteRefs bom
        [(bSerialNumber bom, ''urn:cdx:'' @ TrimPrefix (bSerialNumber bom) ''urn:uuid:'' @ ''/'' @ fmtInt (bVersion bom))])"

definition rootRef :: "BOM option \<Rightarrow> string" where
  "rootRef p = (case p of None \<Rightarrow> [] | Some bom \<Rightarrow> (case bomRoot bom of None \<Rightarrow> [] | Some root \<Rightarrow> cBOMRef (payload root)))"

definition adoptRootEdges :: "BOM \<Rightarrow> BOM option \<Rightarrow> BOM" where
  "adoptRootEdges input target =
     (if \<not> HasWerfTool (Some input) then input
      else
        let inputRoot = rootRef (Some input); targetRoot = rootRef target in
        if inputRoot = [] \<or> targetRoot = [] \<or> inputRoot = targetRoot then input
        else input\<lparr>bDependencies := map_option (map (\<lambda>dep. if depRef dep = inputRoot then dep\<lparr>depRef := targetRoot\<rparr> else dep)) (bDependencies input)\<rparr>)"

text \<open>The body of the loop of \<^verbatim>\<open>MergeBOMs\<close> for the document at place \<open>i\<close>; the last one is the target.\<close>

definition inputPrefix :: "nat \<Rightarrow> string" where
  "inputPrefix i = ''merge-input-'' @ fmtNat i"

definition prepareClone :: "mergeEnv \<Rightarrow> MergeOpts \<Rightarrow> BOM option \<Rightarrow> bool \<Rightarrow> nat \<Rightarrow> BOM \<Rightarrow> BOM" where
  "prepareClone env opts target isLast i clone =
     (let bom = linkSelfReferences clone;
          bom = (if \<not> PreserveBOMRefs opts \<and> \<not> isLast then NamespaceBOMRefs bom (inputPrefix i) else bom);
          bom = (if \<not> isLast then adoptRootEdges bom target else bom)
      in if IsolateComponents opts then Canonicalize (meSchema env) bom else bom)"

fun prepareInputs :: "mergeEnv \<Rightarrow> MergeOpts \<Rightarrow> BOM option \<Rightarrow> nat \<Rightarrow> BOM option list \<Rightarrow> mergeError + BOM option list" where
  "prepareInputs env opts target i [] = Inr []"
| "prepareInputs env opts target i (p # boms) =
     bindR (CloneBOM env p) (\<lambda>clone.
     bindR (prepareInputs env opts target (i + 1) boms) (\<lambda>rest.
       Inr (map_option (prepareClone env opts target (boms = []) i) clone # rest)))"

section \<open>The merge\<close>

text \<open>The functions that append a section of all documents are the same for every section.\<close>

definition mergeSections :: "(BOM \<Rightarrow> 'a list option) \<Rightarrow> BOM option list \<Rightarrow> 'a list option" where
  "mergeSections sel boms = ptrOrNil (concat (map (\<lambda>p. case p of None \<Rightarrow> [] | Some bom \<Rightarrow> fromPtr (sel bom)) boms))"

definition appendTargets :: "Targets option \<Rightarrow> Targets option \<Rightarrow> Targets option" where
  "appendTargets dest src =
     (case src of
        None \<Rightarrow> dest
      | Some s \<Rightarrow>
          let d = (case dest of Some d \<Rightarrow> d | None \<Rightarrow> \<lparr>tgOrganizations = None, tgComponents = None, tgServices = None\<rparr>)
          in Some \<lparr>tgOrganizations = appendPtrSlice (tgOrganizations d) (tgOrganizations s),
                   tgComponents = appendPtrSlice (tgComponents d) (tgComponents s),
                   tgServices = appendPtrSlice (tgServices d) (tgServices s)\<rparr>)"

definition appendBOMDeclarations :: "Declarations \<Rightarrow> Declarations \<Rightarrow> Declarations" where
  "appendBOMDeclarations dest src =
     \<lparr>dsAssessors = appendPtrSlice (dsAssessors dest) (dsAssessors src),
      dsAttestations = appendPtrSlice (dsAttestations dest) (dsAttestations src),
      dsClaims = appendPtrSlice (dsClaims dest) (dsClaims src),
      dsEvidence = appendPtrSlice (dsEvidence dest) (dsEvidence src),
      dsTargets = appendTargets (dsTargets dest) (dsTargets src),
      dsAffirmation = (if dsAffirmation src \<noteq> None then dsAffirmation src else dsAffirmation dest)\<rparr>"

definition emptyDeclarations :: Declarations where
  "emptyDeclarations =
     \<lparr>dsAssessors = None, dsAttestations = None, dsClaims = None, dsEvidence = None, dsTargets = None, dsAffirmation = None\<rparr>"

definition mergeDeclarations :: "BOM option list \<Rightarrow> Declarations option" where
  "mergeDeclarations boms =
     (let found = concat (map (\<lambda>p. case p of None \<Rightarrow> [] | Some bom \<Rightarrow> (case bDeclarations bom of None \<Rightarrow> [] | Some d \<Rightarrow> [d])) boms)
      in if found = [] then None else Some (foldl appendBOMDeclarations emptyDeclarations found))"

definition NewBOM :: "string \<Rightarrow> BOM" where
  "NewBOM uuid =
     \<lparr>bSpecVersion = SpecVersion1_6, bSerialNumber = ''urn:uuid:'' @ uuid, bVersion = 1, bMetadata = None, bComponents = None,
      bServices = None, bExternalReferences = None, bDependencies = None, bCompositions = None, bProperties = None,
      bVulnerabilities = None, bAnnotations = None, bFormulation = None, bDeclarations = None, bSignature = None\<rparr>"

definition targetMetadata :: "BOM option list \<Rightarrow> Metadata option" where
  "targetMetadata boms = (case last boms of None \<Rightarrow> None | Some merged \<Rightarrow> bMetadata merged)"

definition joinBOMs :: "mergeEnv \<Rightarrow> BOM option list \<Rightarrow> BOM" where
  "joinBOMs env boms = (NewBOM (meUUID env))
     \<lparr>bMetadata := targetMetadata boms,
      bComponents := mergeSections bComponents boms,
      bServices := mergeSections bServices boms,
      bVulnerabilities := mergeSections bVulnerabilities boms,
      bExternalReferences := mergeSections bExternalReferences boms,
      bDependencies := mergeSections bDependencies boms,
      bCompositions := mergeSections bCompositions boms,
      bProperties := mergeSections bProperties boms,
      bAnnotations := mergeSections bAnnotations boms,
      bFormulation := mergeSections bFormulation boms,
      bDeclarations := mergeDeclarations boms\<rparr>"

text \<open>The end of a merge that keeps the components of the documents apart.\<close>

definition collapseShared :: "string list option \<Rightarrow> BOM \<Rightarrow> BOM \<times> refMap" where
  "collapseShared schema result =
     (let ss = canonicalizeServices schema (bServices result) [];
          vs = canonicalizeVulnerabilities (bVulnerabilities result) (snd ss)
      in (result\<lparr>bServices := fst ss, bVulnerabilities := fst vs\<rparr>, snd vs))"

definition MergeBOMs :: "mergeEnv \<Rightarrow> BOM option \<Rightarrow> MergeOpts \<Rightarrow> mergeError + BOM" where
  "MergeBOMs env target opts =
     bindR (validateBOMSpecVersions target opts) (\<lambda>_.
     bindR (prepareInputs env opts target 0 (mergeOrder opts target)) (\<lambda>boms.
       let joined = joinBOMs env boms;
           result = (if IsolateComponents opts
                     then let r = collapseShared (meSchema env) joined
                          in CanonicalizeDocument (meSchema env) (RewriteRefs (fst r) (survivingRefs r))
                     else Canonicalize (meSchema env) joined)
       in Inr (if \<not> PreserveBOMRefs opts then ensureUniqueBOMRefs (meRefs env) result else result)))"

section \<open>Smaller changes\<close>

definition DropSyftSourceFileComponents :: "BOM \<Rightarrow> BOM" where
  "DropSyftSourceFileComponents bom =
     (case bComponents bom of
        None \<Rightarrow> bom
      | Some cs \<Rightarrow> bom\<lparr>bComponents := ptrOrNil (filter (\<lambda>n. \<not> (cType (payload n) = ComponentTypeFile \<and> cPackageURL (payload n) = [])) cs)\<rparr>)"

definition PatchComponents :: "BOM \<Rightarrow> (ComponentData \<Rightarrow> bool) \<Rightarrow> (ComponentData \<Rightarrow> ComponentData) \<Rightarrow> BOM" where
  "PatchComponents bom matches patch =
     bom\<lparr>bComponents := map_option (map (\<lambda>n. if matches (payload n) then Node (patch (payload n)) (children n) else n)) (bComponents bom)\<rparr>"

definition isUnresolvedVersion :: "string \<Rightarrow> bool" where
  "isUnresolvedVersion v \<longleftrightarrow> v = ''UNKNOWN'' \<or> v = ''(devel)''"

text \<open>\<^verbatim>\<open>strings.ReplaceAll\<close> for a pattern that is not empty.\<close>

function ReplaceAll :: "string \<Rightarrow> string \<Rightarrow> string \<Rightarrow> string" where
  "ReplaceAll s old new =
     (if old = [] then s
      else (case Cut s old of None \<Rightarrow> s | Some (before, after) \<Rightarrow> before @ new @ ReplaceAll after old new))"
  by pat_completeness auto
termination
  by (relation "measure (\<lambda>(s, old, new). length s)") (auto dest!: Cut_Some)

fun resolveFirst :: "string list \<Rightarrow> string \<Rightarrow> string \<Rightarrow> string option" where
  "resolveFirst [] purl version = None"
| "resolveFirst (old # olds) purl version =
     (if Contains purl old then Some (ReplaceAll purl old (''@'' @ version)) else resolveFirst olds purl version)"

definition resolvePackageURLVersion :: "string \<Rightarrow> string \<Rightarrow> string" where
  "resolvePackageURLVersion purl version =
     (case resolveFirst [''@UNKNOWN'', ''@(devel)'', ''@%28devel%29''] purl version of
        Some resolved \<Rightarrow> resolved
      | None \<Rightarrow> if \<not> Contains purl ''@'' then purl @ ''@'' @ version else purl)"

text \<open>The modules of the local replacements by their paths; a later path wins.\<close>

definition pathToModule :: "string list \<Rightarrow> string list \<Rightarrow> (string, string) goMap" where
  "pathToModule paths modules =
     foldl (\<lambda>m (p, t). if p \<noteq> [] then AList.update p t m else m) [] (zip paths modules)"

definition unresolvedTargets :: "string \<Rightarrow> string list \<Rightarrow> string list \<Rightarrow> string list" where
  "unresolvedTargets modulePath modules paths =
     [modulePath, ''command-line-arguments''] @ filter (\<lambda>t. t \<noteq> []) modules @ filter (\<lambda>p. p \<noteq> []) paths"

definition patchVersion :: "string \<Rightarrow> (string, string) goMap \<Rightarrow> ComponentData \<Rightarrow> ComponentData" where
  "patchVersion version modules c =
     (let c = (case map_of modules (cName c) of
                 Some correctName \<Rightarrow> c\<lparr>cName := correctName, cPackageURL := ''pkg:golang/'' @ correctName @ ''@'' @ version\<rparr>
               | None \<Rightarrow> if cPackageURL c \<noteq> [] then c\<lparr>cPackageURL := resolvePackageURLVersion (cPackageURL c) version\<rparr> else c)
      in c\<lparr>cVersion := version\<rparr>)"

definition ResolveUnknownGoVersions :: "BOM \<Rightarrow> string \<Rightarrow> string \<Rightarrow> string list \<Rightarrow> string list \<Rightarrow> BOM" where
  "ResolveUnknownGoVersions bom version modulePath modules paths =
     (if version = [] then bom
      else PatchComponents bom
        (\<lambda>c. isUnresolvedVersion (cVersion c) \<and> cType c = ComponentTypeLibrary \<and> cName c \<in> set (unresolvedTargets modulePath modules paths))
        (patchVersion version (pathToModule paths modules)))"

end
