(* ===== verification/SbomCanonProps.thy ===== *)
theory SbomCanonProps
  imports SbomCanon
begin

text \<open>
  What the canonical form keeps: the refs of removed entities lead to entities that stay, the dependency graph is the image
  of the old one, no reference points at nothing, and siblings are told apart by their package URLs.
\<close>

section \<open>Where the map of refs leads\<close>

abbreviation labelledRefs :: "(string \<times> 'l) multiset \<Rightarrow> string set" where
  "labelledRefs M \<equiv> fst ` set_mset M"

definition deadEdges :: "(string \<times> 'l) multiset \<Rightarrow> (string \<rightharpoonup> string) \<Rightarrow> (string \<times> string) set" where
  "deadEdges M m = {(x, y). m x = Some y \<and> x \<notin> labelledRefs M}"

text \<open>Every ref declared at the start is still declared or redirected, to a ref of the same label; and following the redirections
  of the refs that are gone never comes back to where it started.\<close>

definition redirInv :: "(string \<times> 'l) multiset \<Rightarrow> 'l refState \<Rightarrow> bool" where
  "redirInv M0 s \<longleftrightarrow>
     (\<forall>x. x \<in> labelledRefs M0 \<longrightarrow> x \<in> labelledRefs (fst s) \<or> snd s x \<noteq> None) \<and>
     (\<forall>x y. snd s x = Some y \<longrightarrow> (\<exists>l. (x, l) \<in># M0 \<and> (y, l) \<in># M0)) \<and>
     set_mset (fst s) \<subseteq> set_mset M0 \<and> acyclic (deadEdges (fst s) (snd s))"

lemma redirInv_step:
  assumes "redirect s t" "redirInv M0 s"
  shows "redirInv M0 t"
  using assms
proof (induction rule: redirect.induct)
  case (repeated x l M m)
  have refs: "labelledRefs (add_mset (x, l) M) = labelledRefs M" using repeated(1) by force
  then have "deadEdges M m = deadEdges (add_mset (x, l) M) m" by (simp add: deadEdges_def)
  then show ?case using repeated(2) unfolding redirInv_def fst_conv snd_conv refs by simp
next
  case (moved x y l M m)
  let ?r = "deadEdges (add_mset (x, l) M) m"
  have y: "y \<in> labelledRefs M" using moved(2) by force
  have "deadEdges M (m(x \<mapsto> y)) \<subseteq> insert (x, y) ?r" by (auto simp: deadEdges_def split: if_splits)
  moreover have "(y, x) \<notin> ?r\<^sup>*" using moved(1) y by (auto simp: deadEdges_def elim: converse_rtranclE)
  moreover have "acyclic ?r" using moved(3) by (simp add: redirInv_def)
  ultimately have "acyclic (deadEdges M (m(x \<mapsto> y)))" by (meson acyclic_insert acyclic_subset)
  moreover have "(x, l) \<in># M0" "(y, l) \<in># M0" using moved(2,3) by (auto simp: redirInv_def)
  ultimately show ?case using moved(3) unfolding redirInv_def by auto
qed

lemma redirects_inv:
  assumes "redirects (M0, Map.empty) s"
  shows "redirInv M0 s"
  using assms
proof (induction rule: rtranclp_induct)
  case base
  show ?case by (simp add: redirInv_def deadEdges_def acyclic_def)
qed (rule redirInv_step)

section \<open>Chains are followed to their end\<close>

definition mapEdges :: "refMap \<Rightarrow> (string \<times> string) set" where
  "mapEdges m = {(x, y). map_of m x = Some y}"

lemma followRef_end:
  assumes "acyclic (mapEdges m)" "\<forall>s\<in>set seen. (s, target) \<in> (mapEdges m)\<^sup>*"
  shows "map_of m (followRef m seen target) = None \<and> (target, followRef m seen target) \<in> (mapEdges m)\<^sup>*"
  using assms
proof (induction m seen target rule: followRef.induct)
  case (1 m seen target)
  show ?case
  proof (cases "map_of m target")
    case None
    then show ?thesis by (simp add: followRef.simps [of m seen target])
  next
    case (Some nxt)
    then have edge: "(target, nxt) \<in> mapEdges m" by (simp add: mapEdges_def)
    have "nxt \<notin> set seen"
    proof
      assume "nxt \<in> set seen"
      then have "(nxt, nxt) \<in> (mapEdges m)\<^sup>+" using 1(3) edge by (meson rtrancl_into_trancl1)
      then show False using 1(2) by (auto simp: acyclic_def)
    qed
    moreover have "\<forall>s\<in>set (nxt # seen). (s, nxt) \<in> (mapEdges m)\<^sup>*"
      using 1(3) edge by (auto intro: rtrancl_into_rtrancl)
    ultimately have "map_of m (followRef m (nxt # seen) nxt) = None \<and> (nxt, followRef m (nxt # seen) nxt) \<in> (mapEdges m)\<^sup>*"
      using 1(1) [OF Some _ 1(2)] by simp
    then show ?thesis using Some \<open>nxt \<notin> set seen\<close> edge
      by (simp add: followRef.simps [of m seen target] converse_rtrancl_into_rtrancl)
  qed
qed

lemma map_of_flattenRefMap: "map_of (flattenRefMap m) x = map_option (\<lambda>t. followRef m [x, t] t) (map_of m x)"
proof -
  have "map_of (map (\<lambda>(ref, target). (ref, f ref target)) m') x = map_option (f x) (map_of m' x)" for f m'
    by (induction m') auto
  then show ?thesis by (simp add: flattenRefMap_def)
qed

lemma map_of_dropSurvivingRefs: "map_of (dropSurvivingRefs m K) x = (if x \<in> set K then None else map_of m x)"
  by (induction m) (auto simp: dropSurvivingRefs_def)

text \<open>Every ref that was declared leads to one that still is, along refs of one label if no ref is declared under two.\<close>

definition oneLabel :: "(string \<times> 'l) multiset \<Rightarrow> bool" where
  "oneLabel M \<longleftrightarrow> (\<forall>x l l'. (x, l) \<in># M \<longrightarrow> (x, l') \<in># M \<longrightarrow> l = l')"

text \<open>The redirections of refs that are no longer declared, for a list of refs that has all that still are.\<close>

definition redirected :: "(string \<times> 'l) multiset \<Rightarrow> refMap \<Rightarrow> string list \<Rightarrow> bool" where
  "redirected M0 m K \<longleftrightarrow> (\<exists>M. redirInv M0 (M, map_of m) \<and> labelledRefs M \<subseteq> set K)"

lemma redirectedI: "redirInv M0 (M, map_of m) \<Longrightarrow> labelledRefs M \<subseteq> set K \<Longrightarrow> redirected M0 m K"
  unfolding redirected_def by blast

lemma dropped_edge: "redirected M0 m K \<Longrightarrow> (x, y) \<in> mapEdges (dropSurvivingRefs m K) \<Longrightarrow> \<exists>l. (x, l) \<in># M0 \<and> (y, l) \<in># M0"
  by (auto simp: redirected_def redirInv_def mapEdges_def map_of_dropSurvivingRefs split: if_splits)

lemma dropped_acyclic:
  assumes "redirected M0 m K"
  shows "acyclic (mapEdges (dropSurvivingRefs m K))"
proof -
  obtain M where inv: "redirInv M0 (M, map_of m)" and K: "labelledRefs M \<subseteq> set K" using assms unfolding redirected_def by blast
  have "mapEdges (dropSurvivingRefs m K) \<subseteq> deadEdges M (map_of m)"
    using K by (auto simp: mapEdges_def deadEdges_def map_of_dropSurvivingRefs split: if_splits)
  then show ?thesis using inv acyclic_subset by (auto simp: redirInv_def)
qed

lemma dropped_end: "redirected M0 m K \<Longrightarrow> t \<in> labelledRefs M0 \<Longrightarrow> map_of (dropSurvivingRefs m K) t = None \<Longrightarrow> t \<in> set K"
  unfolding redirected_def redirInv_def fst_conv snd_conv by (metis map_of_dropSurvivingRefs subsetD)

lemma dropped_reach:
  assumes "redirected M0 m K" "(s, t) \<in> (mapEdges (dropSurvivingRefs m K))\<^sup>*" "(s, l) \<in># M0"
  shows "\<exists>l'. (t, l') \<in># M0 \<and> (oneLabel M0 \<longrightarrow> l' = l)"
  using assms(2,3)
proof (induction rule: rtrancl_induct)
  case (step t u)
  then obtain l' where "(t, l') \<in># M0" "oneLabel M0 \<longrightarrow> l' = l" by blast
  moreover obtain l'' where "(t, l'') \<in># M0" "(u, l'') \<in># M0" using dropped_edge [OF assms(1) step(2)] by blast
  ultimately show ?case unfolding oneLabel_def by blast
qed blast

lemma remap_reaches:
  assumes "redirected M0 m K"
  shows "(x, remapRef x (flattenRefMap (dropSurvivingRefs m K))) \<in> (mapEdges (dropSurvivingRefs m K))\<^sup>* \<and>
    map_of (dropSurvivingRefs m K) (remapRef x (flattenRefMap (dropSurvivingRefs m K))) = None"
proof (cases "map_of (dropSurvivingRefs m K) x")
  case None
  then show ?thesis by (simp add: remapRef_def map_of_flattenRefMap)
next
  case (Some t)
  let ?d = "dropSurvivingRefs m K"
  have edge: "(x, t) \<in> mapEdges ?d" using Some by (simp add: mapEdges_def)
  then have "map_of ?d (followRef ?d [x, t] t) = None \<and> (t, followRef ?d [x, t] t) \<in> (mapEdges ?d)\<^sup>*"
    using followRef_end [OF dropped_acyclic [OF assms], of "[x, t]" t] by auto
  then show ?thesis using Some edge by (simp add: remapRef_def map_of_flattenRefMap converse_rtrancl_into_rtrancl)
qed

lemma remap_surviving:
  assumes "redirected M0 m K" "(x, l) \<in># M0"
  shows "remapRef x (flattenRefMap (dropSurvivingRefs m K)) \<in> set K"
    and "\<exists>l'. (remapRef x (flattenRefMap (dropSurvivingRefs m K)), l') \<in># M0 \<and> (oneLabel M0 \<longrightarrow> l' = l)"
proof -
  note reach = remap_reaches [OF assms(1), of x]
  show label: "\<exists>l'. (remapRef x (flattenRefMap (dropSurvivingRefs m K)), l') \<in># M0 \<and> (oneLabel M0 \<longrightarrow> l' = l)"
    using dropped_reach [OF assms(1) _ assms(2)] reach by blast
  then show "remapRef x (flattenRefMap (dropSurvivingRefs m K)) \<in> set K"
    using dropped_end [OF assms(1)] reach by (metis fst_conv image_eqI)
qed

lemma remap_undeclared:
  assumes "redirected M0 m K" "x \<notin> labelledRefs M0"
  shows "remapRef x (flattenRefMap (dropSurvivingRefs m K)) = x"
proof (cases "map_of m x")
  case (Some t)
  then obtain l where "(x, l) \<in># M0" using assms(1) unfolding redirected_def redirInv_def snd_conv by blast
  then show ?thesis using assms(2) by force
qed (simp add: remapRef_def map_of_flattenRefMap map_of_dropSurvivingRefs)

lemma remap_known: "x \<in> set K \<Longrightarrow> remapRef x (flattenRefMap (dropSurvivingRefs m K)) = x"
  by (simp add: remapRef_def map_of_flattenRefMap map_of_dropSurvivingRefs)

section \<open>The entities of a document\<close>

text \<open>What a merge may never mix up: packages by their package URL, services by group, name and version.\<close>

datatype entityLabel = PackageLabel string | ComponentLabel | ServiceLabel string | VulnerabilityLabel

definition componentLabel :: "ComponentData \<Rightarrow> entityLabel" where
  "componentLabel c = (if cPackageURL c \<noteq> [] then PackageLabel (normalizePURL (cPackageURL c)) else ComponentLabel)"

definition serviceLabel :: "ServiceData \<Rightarrow> entityLabel" where
  "serviceLabel s = ServiceLabel (Join [sGroup s, sName s, sVersion s] ''|'')"

interpretation components: entity_laws "componentEntity schema" componentLabel
proof
  fix d d' i j
  assume "entKey (componentEntity schema) d i = entKey (componentEntity schema) d' j"
  then show "componentLabel d = componentLabel d'"
    by (simp add: componentEntity_def componentKey_def componentLabel_def Let_def split: if_splits)
qed (simp_all add: componentEntity_def canonicalizeComponent_def mergeComponentInto_def componentLabel_def)

interpretation services: entity_laws "serviceEntity schema" serviceLabel
  by unfold_locales (simp_all add: serviceEntity_def canonicalizeService_def mergeServiceInto_def serviceLabel_def)

abbreviation componentRefs :: "Component list option \<Rightarrow> (string \<times> entityLabel) multiset" where
  "componentRefs p \<equiv> forestRefs cBOMRef componentLabel (fromPtr p)"

abbreviation serviceRefs :: "Service list option \<Rightarrow> (string \<times> entityLabel) multiset" where
  "serviceRefs p \<equiv> forestRefs sBOMRef serviceLabel (fromPtr p)"

abbreviation vulnRefs :: "Vulnerability list \<Rightarrow> (string \<times> entityLabel) multiset" where
  "vulnRefs vs \<equiv> sum_list (map (\<lambda>v. refOf (vBOMRef v) VulnerabilityLabel) vs)"

lemma components_redirect:
  "redirects (componentRefs p, map_of m)
     (componentRefs (fst (canonicalizeComponents schema p m)), map_of (snd (canonicalizeComponents schema p m)))"
  using components.canonicalizeNodes_redirects [of schema p m] by (simp add: canonicalizeComponents_def componentEntity_def)

lemma services_redirect:
  "redirects (serviceRefs p, map_of m)
     (serviceRefs (fst (canonicalizeServices schema p m)), map_of (snd (canonicalizeServices schema p m)))"
  using services.canonicalizeNodes_redirects [of schema p m] by (simp add: canonicalizeServices_def serviceEntity_def)

lemma vBOMRef_simps [simp]:
  "vBOMRef (dedupVulnerability v) = vBOMRef v" "vBOMRef (mergeVulnerabilityInto s d) = vBOMRef s"
  by (simp_all add: dedupVulnerability_def mergeVulnerabilityInto_def)

lemma collapseVulnerability_redirects:
  "redirects (vulnRefs (map snd result) + refOf (vBOMRef v) VulnerabilityLabel, map_of m)
     (vulnRefs (map snd (fst (collapseVulnerability (result, m) v))), map_of (snd (collapseVulnerability (result, m) v)))"
proof (cases "map_of result (vulnerabilityKey (dedupVulnerability v))")
  case None
  then show ?thesis by (simp add: collapseVulnerability_def Let_def)
next
  case (Some s)
  obtain rest where rest: "vulnRefs (map snd result) = refOf (vBOMRef s) VulnerabilityLabel + rest"
    "\<And>n'. vulnRefs (map snd (AList.update (vulnerabilityKey (dedupVulnerability v)) n' result)) = refOf (vBOMRef n') VulnerabilityLabel + rest"
    using survivorRefs [OF Some, of "\<lambda>v. refOf (vBOMRef v) VulnerabilityLabel"] by blast
  from redirects_frame [OF adoptRef_redirects [of "vBOMRef s" VulnerabilityLabel "vBOMRef v" m], of rest] show ?thesis
    using Some by (simp add: collapseVulnerability_def Let_def rest [simplified] ac_simps)
qed

lemma foldl_collapseVulnerability_redirects:
  "redirects (vulnRefs (map snd (fst s)) + vulnRefs vs, map_of (snd s))
     (vulnRefs (map snd (fst (foldl collapseVulnerability s vs))), map_of (snd (foldl collapseVulnerability s vs)))"
proof (induction vs arbitrary: s)
  case (Cons v vs)
  obtain result m where s: "s = (result, m)" by fastforce
  from redirects_frame [OF collapseVulnerability_redirects [of result v m], of "vulnRefs vs"] Cons.IH [of "collapseVulnerability s v"]
  show ?case by (simp add: s add.assoc)
qed simp

lemma vulnerabilities_redirect:
  "redirects (vulnRefs (fromPtr p), map_of m)
     (vulnRefs (fromPtr (fst (canonicalizeVulnerabilities p m))), map_of (snd (canonicalizeVulnerabilities p m)))"
  using foldl_collapseVulnerability_redirects [of "([], m)"]
  by (cases p) (simp_all add: canonicalizeVulnerabilities_def Let_def)

text \<open>The labelled refs of a document. Those of the root, of the tools and of the formulation stay.\<close>

definition rootKids :: "BOM \<Rightarrow> Component list option" where
  "rootKids bom = (case bomRoot bom of None \<Rightarrow> None | Some root \<Rightarrow> children root)"

definition otherRefs :: "BOM \<Rightarrow> (string \<times> entityLabel) multiset" where
  "otherRefs bom =
     (case bomRoot bom of None \<Rightarrow> {#} | Some root \<Rightarrow> refOf (cBOMRef (payload root)) (componentLabel (payload root))) +
     (case bomTools bom of None \<Rightarrow> {#} | Some tools \<Rightarrow> componentRefs (tcComponents tools) + serviceRefs (tcServices tools)) +
     sum_list (map (\<lambda>f. componentRefs (fComponents f) + serviceRefs (fServices f)) (fromPtr (bFormulation bom)))"

definition declaredRefs :: "BOM \<Rightarrow> (string \<times> entityLabel) multiset" where
  "declaredRefs bom = otherRefs bom + componentRefs (rootKids bom) + componentRefs (bComponents bom) +
     serviceRefs (bServices bom) + vulnRefs (fromPtr (bVulnerabilities bom))"

lemma image_refOf [simp]: "image_mset fst (refOf r l) = mset (refList r)"
  by (simp add: refList_def refOf_def)

lemma image_sum_list: "image_mset f (sum_list (map g xs)) = sum_list (map (\<lambda>x. image_mset f (g x)) xs)"
  by (induction xs) auto

lemma mset_concat_map: "mset (concat (map f xs)) = sum_list (map (\<lambda>x. mset (f x)) xs)"
  by (induction xs) auto

lemma image_node [simp]: "image_mset fst (nodeRefs ref label n) = mset (collectNode ref n)"
proof (induction ref label n rule: nodeRefs.induct)
  case (2 ref label d ks)
  then have "sum_list (map (\<lambda>x. image_mset fst (nodeRefs ref label x)) ks) = sum_list (map (\<lambda>x. mset (collectNode ref x)) ks)"
    by (intro arg_cong [where f = sum_list] map_cong) auto
  then show ?case by (simp add: image_sum_list mset_concat_map)
qed simp

lemma image_forest [simp]: "image_mset fst (forestRefs ref label (fromPtr p)) = mset (collectNodes ref p)"
  by (simp add: collectNodes_def image_sum_list mset_concat_map)

lemma image_declaredRefs: "image_mset fst (declaredRefs bom) = mset (collectKnownRefs bom)"
proof -
  have root: "mset (collectNode cBOMRef root) = mset (refList (cBOMRef (payload root))) + mset (collectNodes cBOMRef (children root))" for root :: Component
    using image_node [of cBOMRef componentLabel root]
    by (simp add: nodeRefs_parts [of cBOMRef componentLabel root] del: image_node)
  note unfolds = declaredRefs_def otherRefs_def rootKids_def collectKnownRefs_def image_sum_list mset_concat_map collectNodes_def
  show ?thesis
  proof (cases "bomRoot bom")
    case None
    then show ?thesis by (cases "bomTools bom") (simp_all add: unfolds ac_simps)
  next
    case (Some r)
    then show ?thesis using root [of r] by (cases "bomTools bom") (simp_all add: unfolds ac_simps)
  qed
qed

lemma labelledRefs_declaredRefs: "labelledRefs (declaredRefs bom) = set (collectKnownRefs bom)"
  using arg_cong [OF image_declaredRefs, of set_mset] by simp

lemma collapseEntities_parts:
  fixes bom schema
  defines "r0 \<equiv> canonicalizeComponents schema (rootKids bom) []"
  defines "r1 \<equiv> canonicalizeComponents schema (bComponents bom) (snd r0)"
  defines "r2 \<equiv> canonicalizeServices schema (bServices bom) (snd r1)"
  defines "r3 \<equiv> canonicalizeVulnerabilities (bVulnerabilities bom) (snd r2)"
  shows "snd (collapseEntities schema bom) = snd r3"
    and "rootKids (fst (collapseEntities schema bom)) = fst r0"
    and "bComponents (fst (collapseEntities schema bom)) = fst r1"
    and "bServices (fst (collapseEntities schema bom)) = fst r2"
    and "bVulnerabilities (fst (collapseEntities schema bom)) = fst r3"
    and "otherRefs (fst (collapseEntities schema bom)) = otherRefs bom"
proof -
  have none: "canonicalizeComponents schema None [] = (None, [])"
    by (simp add: canonicalizeComponents_def canonicalizeNodes_def)
  show "snd (collapseEntities schema bom) = snd r3" "rootKids (fst (collapseEntities schema bom)) = fst r0"
    "bComponents (fst (collapseEntities schema bom)) = fst r1" "bServices (fst (collapseEntities schema bom)) = fst r2"
    "bVulnerabilities (fst (collapseEntities schema bom)) = fst r3"
    unfolding r3_def r2_def r1_def r0_def
    by (cases "bMetadata bom"; cases "bomRoot bom";
      simp add: collapseEntities_def rootKids_def none bomRoot_def mapRoot_def Let_def)+
  show "otherRefs (fst (collapseEntities schema bom)) = otherRefs bom"
    by (cases "bMetadata bom"; cases "bomRoot bom")
      (simp_all add: collapseEntities_def otherRefs_def none bomRoot_def bomTools_def mapRoot_def Let_def)
qed

lemma entities_redirect:
  "redirects (declaredRefs bom, Map.empty)
     (declaredRefs (fst (collapseEntities schema bom)), map_of (snd (collapseEntities schema bom)))"
proof -
  define r0 where "r0 = canonicalizeComponents schema (rootKids bom) []"
  define r1 where "r1 = canonicalizeComponents schema (bComponents bom) (snd r0)"
  define r2 where "r2 = canonicalizeServices schema (bServices bom) (snd r1)"
  define r3 where "r3 = canonicalizeVulnerabilities (bVulnerabilities bom) (snd r2)"
  let ?R = componentRefs and ?S = serviceRefs and ?V = "\<lambda>p. vulnRefs (fromPtr p)"
  let ?O = "otherRefs bom" and ?C = "?R (bComponents bom)" and ?s = "?S (bServices bom)" and ?v = "?V (bVulnerabilities bom)"
  have "redirects (?O + ?R (rootKids bom) + ?C + ?s + ?v, Map.empty) (?O + ?R (fst r0) + ?C + ?s + ?v, map_of (snd r0))"
    using redirects_frame [OF components_redirect [of "rootKids bom" "[]" schema], of "?O + ?C + ?s + ?v"]
    by (simp add: r0_def ac_simps)
  also have "redirects (?O + ?R (fst r0) + ?C + ?s + ?v, map_of (snd r0)) (?O + ?R (fst r0) + ?R (fst r1) + ?s + ?v, map_of (snd r1))"
    using redirects_frame [OF components_redirect [of "bComponents bom" "snd r0" schema], of "?O + ?R (fst r0) + ?s + ?v"]
    by (simp add: r1_def ac_simps)
  also have "redirects (?O + ?R (fst r0) + ?R (fst r1) + ?s + ?v, map_of (snd r1)) (?O + ?R (fst r0) + ?R (fst r1) + ?S (fst r2) + ?v, map_of (snd r2))"
    using redirects_frame [OF services_redirect [of "bServices bom" "snd r1" schema], of "?O + ?R (fst r0) + ?R (fst r1) + ?v"]
    by (simp add: r2_def ac_simps)
  also have "redirects (?O + ?R (fst r0) + ?R (fst r1) + ?S (fst r2) + ?v, map_of (snd r2))
      (?O + ?R (fst r0) + ?R (fst r1) + ?S (fst r2) + ?V (fst r3), map_of (snd r3))"
    using redirects_frame [OF vulnerabilities_redirect [of "bVulnerabilities bom" "snd r2"], of "?O + ?R (fst r0) + ?R (fst r1) + ?S (fst r2)"]
    by (simp add: r3_def ac_simps)
  finally show ?thesis
    by (simp only: declaredRefs_def collapseEntities_parts [of schema bom] r3_def r2_def r1_def r0_def)
qed

section \<open>The dependency graph\<close>

lemma set_dedups [simp]:
  "set (fromPtr (dedupPtrSlice p)) = set (fromPtr p)"
  "set (fromPtr (dedupStringSlice q)) = set (fromPtr q)"
  "set (fromPtr (appendPtrSlice a b)) = set (fromPtr a) \<union> set (fromPtr b)"
  subgoal by (cases p) (simp_all add: dedupPtrSlice_def dedupJSONSlice_def)
  subgoal by (cases q) (simp_all add: dedupStringSlice_def)
  subgoal by (cases a; cases b) (simp_all add: appendPtrSlice_def)
  done

lemma set_filterKnownRefs [simp]:
  "set (fromPtr (filterKnownRefs p K d)) = {ref \<in> set (fromPtr p). ref \<noteq> d \<and> (ref \<in> set K \<or> isBOMLink ref)}"
  by (cases p) (auto simp: filterKnownRefs_def Let_def filter_empty_conv)

lemma set_filterKnownBOMReferences [simp]:
  "set (fromPtr (filterKnownBOMReferences p K)) = {ref \<in> set (fromPtr p). ref \<in> set K \<or> isBOMLink ref}"
  by (cases p) (auto simp: filterKnownBOMReferences_def)

lemma set_filterKnownAffects [simp]:
  "set (fromPtr (filterKnownAffects p K)) = {a \<in> set (fromPtr p). affRef a \<in> set K \<or> isBOMLink (affRef a)}"
  by (cases p) (auto simp: filterKnownAffects_def)

text \<open>The edges of a list of dependency entries, through their dependencies or through what they provide.\<close>

definition edgesBy :: "(DependencyEntry \<Rightarrow> string list option) \<Rightarrow> DependencyEntry list \<Rightarrow> (string \<times> string) set" where
  "edgesBy sel ds = {(depRef d, t) | d t. d \<in> set ds \<and> t \<in> set (fromPtr (sel d))}"

abbreviation depEdges :: "BOM \<Rightarrow> (string \<times> string) set" where
  "depEdges bom \<equiv> edgesBy depDependencies (fromPtr (bDependencies bom))"

abbreviation provideEdges :: "BOM \<Rightarrow> (string \<times> string) set" where
  "provideEdges bom \<equiv> edgesBy depProvides (fromPtr (bDependencies bom))"

definition keptEdge :: "string list \<Rightarrow> string \<times> string \<Rightarrow> bool" where
  "keptEdge K e \<longleftrightarrow> fst e \<in> set K \<and> snd e \<noteq> fst e \<and> (snd e \<in> set K \<or> isBOMLink (snd e))"

definition depIndex :: "(string \<times> DependencyEntry) list \<Rightarrow> bool" where
  "depIndex result \<longleftrightarrow> is_goMap result \<and> (\<forall>k d. map_of result k = Some d \<longrightarrow> depRef d = k)"

lemma depIndex_lookup: "depIndex result \<Longrightarrow> map_of result k = Some d \<Longrightarrow> depRef d = k"
  by (simp add: depIndex_def)

lemma edgesBy_index:
  assumes "depIndex result"
  shows "edgesBy sel (map snd result) = {(k, t). \<exists>d. map_of result k = Some d \<and> t \<in> set (fromPtr (sel d))}"
proof (intro equalityI subsetI)
  fix e
  assume "e \<in> edgesBy sel (map snd result)"
  then obtain k d t where e: "e = (depRef d, t)" "(k, d) \<in> set result" "t \<in> set (fromPtr (sel d))" by (auto simp: edgesBy_def)
  then have "map_of result k = Some d" using assms by (simp add: depIndex_def map_of_goMap)
  then show "e \<in> {(k, t). \<exists>d. map_of result k = Some d \<and> t \<in> set (fromPtr (sel d))}"
    using depIndex_lookup [OF assms] e by auto
next
  fix e
  assume "e \<in> {(k, t). \<exists>d. map_of result k = Some d \<and> t \<in> set (fromPtr (sel d))}"
  then obtain k t d where e: "e = (k, t)" "map_of result k = Some d" "t \<in> set (fromPtr (sel d))" by auto
  have "d \<in> set (map snd result)" using map_of_SomeD [OF e(2)] by force
  moreover have "e = (depRef d, t)" using depIndex_lookup [OF assms e(2)] e(1) by simp
  ultimately show "e \<in> edgesBy sel (map snd result)" unfolding edgesBy_def using e(3) by blast
qed

lemma depIndex_update: "depIndex result \<Longrightarrow> depRef d = k \<Longrightarrow> depIndex (AList.update k d result)"
  by (auto simp: depIndex_def)

lemma edgesBy_append: "edgesBy sel (xs @ ys) = edgesBy sel xs \<union> edgesBy sel ys"
  by (auto simp: edgesBy_def)

lemma edgesBy_single: "edgesBy sel [d] = (\<lambda>t. (depRef d, t)) ` set (fromPtr (sel d))"
  by (auto simp: edgesBy_def)

lemma collapseDependency_index:
  assumes "depIndex result"
  shows "depIndex (collapseDependency K result dep)"
proof (cases "map_of result (depRef dep)")
  case None
  then have fresh: "depRef dep \<notin> keys result" by (simp add: keys_iff)
  then show ?thesis using assms depIndex_update [OF assms, of "dep\<lparr>depDependencies := x, depProvides := y\<rparr>" "depRef dep" for x y] None
    by (simp add: collapseDependency_def Let_def update_fresh)
next
  case (Some s)
  then show ?thesis using assms depIndex_lookup [OF assms Some] by (simp add: collapseDependency_def Let_def depIndex_update)
qed

lemma collapseDependency_edges:
  assumes "depIndex result" "sel = depDependencies \<or> sel = depProvides"
  shows "edgesBy sel (map snd (collapseDependency K result dep)) =
    edgesBy sel (map snd result) \<union> {e \<in> edgesBy sel [dep]. keptEdge K e}"
proof (cases "depRef dep \<in> set K")
  case True
  show ?thesis
  proof (cases "map_of result (depRef dep)")
    case None
    then have fresh: "depRef dep \<notin> keys result" by (simp add: keys_iff)
    then show ?thesis using True assms(2) None
      by (auto simp: collapseDependency_def Let_def edgesBy_append edgesBy_single keptEdge_def)
  next
    case (Some s)
    then show ?thesis
      using True assms(2) unfolding edgesBy_index [OF assms(1)] edgesBy_index [OF collapseDependency_index [OF assms(1)]]
      by (auto simp: collapseDependency_def Let_def edgesBy_single keptEdge_def split: if_splits)
  qed
qed (auto simp: collapseDependency_def keptEdge_def edgesBy_def)

lemma foldl_collapseDependency:
  assumes "depIndex result" "sel = depDependencies \<or> sel = depProvides"
  shows "depIndex (foldl (collapseDependency K) result ds) \<and>
    edgesBy sel (map snd (foldl (collapseDependency K) result ds)) =
      edgesBy sel (map snd result) \<union> {e \<in> edgesBy sel ds. keptEdge K e}"
  using assms
proof (induction ds arbitrary: result)
  case Nil
  then show ?case by (simp add: edgesBy_def)
next
  case (Cons d ds)
  have "edgesBy sel (d # ds) = edgesBy sel [d] \<union> edgesBy sel ds" using edgesBy_append [of sel "[d]" ds] by simp
  then show ?case using Cons.IH [OF collapseDependency_index [OF Cons.prems(1)] Cons.prems(2)]
      collapseDependency_edges [OF Cons.prems] by auto
qed

lemma canonicalizeDependencies_edges:
  assumes "K \<noteq> []" "sel = depDependencies \<or> sel = depProvides"
  shows "edgesBy sel (fromPtr (canonicalizeDependencies p K)) = {e \<in> edgesBy sel (fromPtr p). keptEdge K e}"
  using assms foldl_collapseDependency [of "[]" sel K]
  by (cases p) (simp_all add: canonicalizeDependencies_def depIndex_def edgesBy_def)

section \<open>Documents\<close>

lemma remapRef_Nil [simp]: "remapRef ref [] = ref"
  by (simp add: remapRef_def)

lemma fromPtr_remapSlice [simp]: "fromPtr (remapSlice p m) = map (\<lambda>ref. remapRef ref m) (fromPtr p)"
  by (simp add: remapSlice_def)

lemma edgesBy_map:
  assumes "\<And>d. depRef (f d) = g (depRef d)" "\<And>d. fromPtr (sel (f d)) = map g (fromPtr (sel d))"
  shows "edgesBy sel (map f ds) = (\<lambda>(a, b). (g a, g b)) ` edgesBy sel ds"
proof (induction ds)
  case (Cons d ds)
  have "edgesBy sel [f d] = (\<lambda>(a, b). (g a, g b)) ` edgesBy sel [d]"
    by (simp add: edgesBy_single assms image_image)
  then show ?case using Cons edgesBy_append [of sel "[f d]" "map f ds"] edgesBy_append [of sel "[d]" ds] by (simp add: image_Un)
qed (simp add: edgesBy_def)

lemma edgesBy_RewriteRefs:
  assumes "sel = depDependencies \<or> sel = depProvides"
  shows "edgesBy sel (fromPtr (bDependencies (RewriteRefs bom m))) =
    (\<lambda>(a, b). (remapRef a m, remapRef b m)) ` edgesBy sel (fromPtr (bDependencies bom))"
proof (cases "m = []")
  case False
  have "edgesBy sel (map (rewriteDependency m) ds) = (\<lambda>(a, b). (remapRef a m, remapRef b m)) ` edgesBy sel ds" for ds
    using assms by (intro edgesBy_map) (auto simp: rewriteDependency_def)
  then show ?thesis using False by (simp add: RewriteRefs_def)
qed (auto simp: RewriteRefs_def)

lemma known_RewriteRefs [simp]: "collectKnownRefs (RewriteRefs bom m) = collectKnownRefs bom"
proof -
  have "concat (map (\<lambda>v. refList (vBOMRef (rewriteVulnerability m v))) vs) = concat (map (\<lambda>v. refList (vBOMRef v)) vs)" for vs
    by (simp add: rewriteVulnerability_def)
  then show ?thesis by (simp add: RewriteRefs_def collectKnownRefs_def bomRoot_def bomTools_def o_def)
qed

lemma known_dedupDocument [simp]: "collectKnownRefs (dedupDocument schema bom) = collectKnownRefs bom"
proof -
  have kept: "cBOMRef (canonicalizeComponent schema c) = cBOMRef c" for c by (simp add: canonicalizeComponent_def)
  have node: "collectNode cBOMRef (Node (canonicalizeComponent schema (payload n)) (children n)) = collectNode cBOMRef n" for n
  proof (cases n)
    case (Node d ks)
    then show ?thesis by (cases ks) (simp_all add: kept)
  qed
  show ?thesis
    by (cases "bMetadata bom"; cases "bomRoot bom")
      (simp_all add: dedupDocument_def collectKnownRefs_def bomRoot_def bomTools_def o_def node)
qed

lemma dedupDocument_sections [simp]:
  "bDependencies (dedupDocument schema bom) = bDependencies bom" "bCompositions (dedupDocument schema bom) = bCompositions bom"
  "bAnnotations (dedupDocument schema bom) = bAnnotations bom" "bFormulation (dedupDocument schema bom) = bFormulation bom"
  "bSerialNumber (dedupDocument schema bom) = bSerialNumber bom"
  by (simp_all add: dedupDocument_def)

lemma known_CanonicalizeDocument [simp]:
  "set (collectKnownRefs (CanonicalizeDocument schema bom)) = set (collectKnownRefs bom)"
proof -
  have "set (collectKnownRefs (CanonicalizeDocument schema bom)) = set (collectKnownRefs (dedupDocument schema bom))"
    by (simp add: CanonicalizeDocument_def Let_def collectKnownRefs_def bomRoot_def bomTools_def o_def)
  then show ?thesis by simp
qed

lemma edges_CanonicalizeDocument:
  assumes "collectKnownRefs bom \<noteq> []" "sel = depDependencies \<or> sel = depProvides"
  shows "edgesBy sel (fromPtr (bDependencies (CanonicalizeDocument schema bom))) =
    {e \<in> edgesBy sel (fromPtr (bDependencies bom)). keptEdge (collectKnownRefs bom) e}"
  using canonicalizeDependencies_edges [OF assms] by (simp add: CanonicalizeDocument_def Let_def)

text \<open>Where the refs of a document go when it is made canonical.\<close>

definition canonicalRef :: "string list option \<Rightarrow> BOM \<Rightarrow> string \<Rightarrow> string" where
  "canonicalRef schema bom ref = remapRef ref (survivingRefs (collapseEntities schema bom))"

lemma known_Canonicalize:
  "set (collectKnownRefs (Canonicalize schema bom)) = set (collectKnownRefs (fst (collapseEntities schema bom)))"
  by (simp add: Canonicalize_def Let_def)

lemma entities_inv:
  "redirInv (declaredRefs bom) (declaredRefs (fst (collapseEntities schema bom)), map_of (snd (collapseEntities schema bom)))"
  by (rule redirects_inv) (rule entities_redirect)

lemma entities_redirected:
  "redirected (declaredRefs bom) (snd (collapseEntities schema bom)) (collectKnownRefs (fst (collapseEntities schema bom)))"
  by (rule redirectedI [OF entities_inv]) (simp add: labelledRefs_declaredRefs)

lemma canonicalRef_known:
  assumes "ref \<in> set (collectKnownRefs bom)"
  shows "canonicalRef schema bom ref \<in> set (collectKnownRefs (Canonicalize schema bom))"
proof -
  obtain l where "(ref, l) \<in># declaredRefs bom" using assms by (auto simp flip: labelledRefs_declaredRefs)
  then show ?thesis unfolding known_Canonicalize canonicalRef_def survivingRefs_def
    by (rule remap_surviving(1) [OF entities_redirected])
qed

lemma canonicalRef_stays:
  "ref \<in> set (collectKnownRefs (Canonicalize schema bom)) \<Longrightarrow> canonicalRef schema bom ref = ref"
  unfolding known_Canonicalize canonicalRef_def survivingRefs_def by (rule remap_known)

lemma canonicalRef_undeclared: "ref \<notin> set (collectKnownRefs bom) \<Longrightarrow> canonicalRef schema bom ref = ref"
  unfolding canonicalRef_def survivingRefs_def by (rule remap_undeclared [OF entities_redirected]) (simp add: labelledRefs_declaredRefs)

lemma known_shrinks: "set (collectKnownRefs (Canonicalize schema bom)) \<subseteq> set (collectKnownRefs bom)"
  unfolding known_Canonicalize using entities_inv [of bom schema] unfolding redirInv_def labelledRefs_declaredRefs [symmetric]
  by (auto intro!: image_mono)

lemma canonicalRef_declared:
  "canonicalRef schema bom ref \<in> set (collectKnownRefs (Canonicalize schema bom)) \<longleftrightarrow> ref \<in> set (collectKnownRefs bom)"
  using canonicalRef_known canonicalRef_undeclared known_shrinks by (metis subsetD)

lemma edges_Canonicalize:
  assumes "collectKnownRefs bom \<noteq> []" "sel = depDependencies \<or> sel = depProvides"
  shows "edgesBy sel (fromPtr (bDependencies (Canonicalize schema bom))) =
    {(canonicalRef schema bom a, canonicalRef schema bom b) | a b. (a, b) \<in> edgesBy sel (fromPtr (bDependencies bom)) \<and>
       a \<in> set (collectKnownRefs bom) \<and> (b \<in> set (collectKnownRefs bom) \<or> isBOMLink b) \<and>
       canonicalRef schema bom a \<noteq> canonicalRef schema bom b}"
proof -
  let ?c = "fst (collapseEntities schema bom)" and ?r = "canonicalRef schema bom"
  have "bDependencies ?c = bDependencies bom"
    by (simp add: collapseEntities_def Let_def mapRoot_def split: option.split)
  then have edges: "edgesBy sel (fromPtr (bDependencies (RewriteRefs ?c (survivingRefs (collapseEntities schema bom))))) =
      (\<lambda>(a, b). (?r a, ?r b)) ` edgesBy sel (fromPtr (bDependencies bom))"
    by (simp add: edgesBy_RewriteRefs [OF assms(2)] canonicalRef_def)
  have "collectKnownRefs ?c \<noteq> []" using canonicalRef_known assms(1) known_Canonicalize by (metis empty_iff list.set(1) list.set_intros(1) neq_Nil_conv)
  then have "edgesBy sel (fromPtr (bDependencies (Canonicalize schema bom))) =
      {e \<in> (\<lambda>(a, b). (?r a, ?r b)) ` edgesBy sel (fromPtr (bDependencies bom)). keptEdge (collectKnownRefs ?c) e}"
    using edges_CanonicalizeDocument [OF _ assms(2), of "RewriteRefs ?c (survivingRefs (collapseEntities schema bom))"] edges
    by (simp add: Canonicalize_def Let_def)
  moreover have "keptEdge (collectKnownRefs ?c) (?r a, ?r b) \<longleftrightarrow>
      a \<in> set (collectKnownRefs bom) \<and> (b \<in> set (collectKnownRefs bom) \<or> isBOMLink b) \<and> ?r a \<noteq> ?r b" for a b
    using canonicalRef_declared [of schema bom a] canonicalRef_declared [of schema bom b] canonicalRef_undeclared [of b bom schema]
    unfolding keptEdge_def fst_conv snd_conv known_Canonicalize by metis
  moreover have "{e \<in> (\<lambda>(a, b). (?r a, ?r b)) ` E. P e} = {(?r a, ?r b) | a b. (a, b) \<in> E \<and> P (?r a, ?r b)}" for E P by auto
  ultimately show ?thesis by simp
qed

end
