(* ===== verification/SbomProps.thy ===== *)
theory SbomProps
  imports SbomCanonProps SbomMerge
begin

text \<open>
  The properties of canonical documents.
\<close>

section \<open>The graph\<close>

lemma declared_RewriteRefs [simp]: "declaredRefs (RewriteRefs bom m) = declaredRefs bom"
proof -
  have "vBOMRef (rewriteVulnerability m v) = vBOMRef v" for v by (simp add: rewriteVulnerability_def)
  then show ?thesis by (simp add: RewriteRefs_def declaredRefs_def otherRefs_def rootKids_def bomRoot_def bomTools_def o_def)
qed

lemma declared_dedupDocument: "declaredRefs (dedupDocument schema bom) = declaredRefs bom"
proof -
  have "componentLabel (canonicalizeComponent schema c) = componentLabel c" "cBOMRef (canonicalizeComponent schema c) = cBOMRef c" for c
    by (simp_all add: canonicalizeComponent_def componentLabel_def)
  then show ?thesis
    by (cases "bMetadata bom"; cases "bomRoot bom")
      (simp_all add: dedupDocument_def declaredRefs_def otherRefs_def rootKids_def bomRoot_def bomTools_def o_def)
qed

lemma declared_CanonicalizeDocument: "set_mset (declaredRefs (CanonicalizeDocument schema bom)) = set_mset (declaredRefs bom)"
proof -
  have "set_mset (declaredRefs (CanonicalizeDocument schema bom)) = set_mset (declaredRefs (dedupDocument schema bom))"
    by (simp add: CanonicalizeDocument_def Let_def declaredRefs_def otherRefs_def rootKids_def bomRoot_def bomTools_def o_def)
  then show ?thesis by (simp add: declared_dedupDocument)
qed

lemma declared_Canonicalize:
  "set_mset (declaredRefs (Canonicalize schema bom)) = set_mset (declaredRefs (fst (collapseEntities schema bom)))"
  by (simp add: Canonicalize_def Let_def declared_CanonicalizeDocument)

lemma canonicalRef_label:
  assumes "oneLabel (declaredRefs bom)" "(ref, l) \<in># declaredRefs bom"
  shows "(canonicalRef schema bom ref, l) \<in># declaredRefs (Canonicalize schema bom)"
proof -
  let ?c = "fst (collapseEntities schema bom)"
  have sub: "set_mset (declaredRefs ?c) \<subseteq> set_mset (declaredRefs bom)" using entities_inv [of bom schema] by (simp add: redirInv_def)
  obtain l' where "(canonicalRef schema bom ref, l') \<in># declaredRefs bom" "l' = l"
    using remap_surviving(2) [OF entities_redirected assms(2)] assms(1) by (auto simp: canonicalRef_def survivingRefs_def)
  moreover have "canonicalRef schema bom ref \<in> labelledRefs (declaredRefs ?c)"
    using remap_surviving(1) [OF entities_redirected assms(2)] by (simp add: canonicalRef_def survivingRefs_def labelledRefs_declaredRefs)
  then obtain l'' where "(canonicalRef schema bom ref, l'') \<in># declaredRefs ?c" by auto
  moreover from this have "(canonicalRef schema bom ref, l'') \<in># declaredRefs bom" using sub by blast
  ultimately show ?thesis using assms(1) unfolding oneLabel_def declared_Canonicalize by metis
qed

text \<open>C13: For a document that declares some ref, and none under two labels (the same ref for entities with different package URLs or
  service keys), making it canonical maps every declared ref to one that the canonical document declares, for an entity with the same
  package URL or the same service key; refs that are kept are mapped to themselves. The dependency graph of the canonical document is the
  image of the graph of the document under this map, without the edges from or to undeclared refs and without loops: no edge is lost
  and none is invented. The same holds for the edges through what entities provide. (The graph of a document that declares no ref is
  left as it is.)\<close>

theorem canonical_graph_is_quotient:
  assumes "collectKnownRefs bom \<noteq> []" and "oneLabel (declaredRefs bom)"
  shows "\<exists>\<rho>. (\<forall>r l. (r, l) \<in># declaredRefs bom \<longrightarrow> (\<rho> r, l) \<in># declaredRefs (Canonicalize schema bom)) \<and>
    (\<forall>r \<in> set (collectKnownRefs (Canonicalize schema bom)). \<rho> r = r) \<and>
    depEdges (Canonicalize schema bom) = {(\<rho> a, \<rho> b) | a b. (a, b) \<in> depEdges bom \<and> a \<in> set (collectKnownRefs bom) \<and>
      (b \<in> set (collectKnownRefs bom) \<or> isBOMLink b) \<and> \<rho> a \<noteq> \<rho> b} \<and>
    provideEdges (Canonicalize schema bom) = {(\<rho> a, \<rho> b) | a b. (a, b) \<in> provideEdges bom \<and> a \<in> set (collectKnownRefs bom) \<and>
      (b \<in> set (collectKnownRefs bom) \<or> isBOMLink b) \<and> \<rho> a \<noteq> \<rho> b}"
  using edges_Canonicalize [OF assms(1)] canonicalRef_label [OF assms(2)] canonicalRef_stays
  by (intro exI [of _ "canonicalRef schema bom"]) simp

text \<open>A document that lists a library twice: the application depends on both entries.\<close>

definition twinsDocument :: BOM where
  "twinsDocument = (NewBOM ''1'')
     \<lparr>bComponents := Some [Node ((newComponent ''library'' ''zlib'' ''1.3'')\<lparr>cBOMRef := ''a''\<rparr>) None,
        Node ((newComponent ''library'' ''zlib'' ''1.3'')\<lparr>cBOMRef := ''b''\<rparr>) None,
        Node ((newComponent ''application'' ''app'' ''2'')\<lparr>cBOMRef := ''c''\<rparr>) None],
      bDependencies := Some [\<lparr>depRef = ''c'', depDependencies = Some [''a'', ''b''], depProvides = None\<rparr>]\<rparr>"

theorem canonical_graph_is_quotient_witness:
  "length (fromPtr (bComponents (Canonicalize None twinsDocument))) = 2 \<and>
   collectKnownRefs twinsDocument \<noteq> [] \<and> oneLabel (declaredRefs twinsDocument) \<and>
   (\<exists>\<rho>. (\<forall>r l. (r, l) \<in># declaredRefs twinsDocument \<longrightarrow> (\<rho> r, l) \<in># declaredRefs (Canonicalize None twinsDocument)) \<and>
    (\<forall>r \<in> set (collectKnownRefs (Canonicalize None twinsDocument)). \<rho> r = r) \<and>
    depEdges (Canonicalize None twinsDocument) = {(\<rho> a, \<rho> b) | a b. (a, b) \<in> depEdges twinsDocument \<and> a \<in> set (collectKnownRefs twinsDocument) \<and>
      (b \<in> set (collectKnownRefs twinsDocument) \<or> isBOMLink b) \<and> \<rho> a \<noteq> \<rho> b} \<and>
    provideEdges (Canonicalize None twinsDocument) = {(\<rho> a, \<rho> b) | a b. (a, b) \<in> provideEdges twinsDocument \<and>
      a \<in> set (collectKnownRefs twinsDocument) \<and> (b \<in> set (collectKnownRefs twinsDocument) \<or> isBOMLink b) \<and> \<rho> a \<noteq> \<rho> b})"
proof -
  have "length (fromPtr (bComponents (Canonicalize None twinsDocument))) = 2" by code_simp
  moreover have known: "collectKnownRefs twinsDocument \<noteq> []" by code_simp
  moreover have label: "oneLabel (declaredRefs twinsDocument)"
    by (simp add: oneLabel_def declaredRefs_def otherRefs_def rootKids_def bomRoot_def bomTools_def twinsDocument_def NewBOM_def
        newComponent_def componentLabel_def refOf_def)
  ultimately show ?thesis using canonical_graph_is_quotient [OF known label, of None] by blast
qed

section \<open>References\<close>

definition knownIn :: "string set \<Rightarrow> string \<Rightarrow> bool" where
  "knownIn K ref \<longleftrightarrow> ref \<in> K \<or> isBOMLink ref"

definition dependencyOK :: "string set \<Rightarrow> DependencyEntry \<Rightarrow> bool" where
  "dependencyOK K dep \<longleftrightarrow> depRef dep \<in> K \<and>
     list_all (\<lambda>ref. ref \<noteq> depRef dep \<and> knownIn K ref) (fromPtr (depDependencies dep) @ fromPtr (depProvides dep))"

definition documentRefs :: "BOM \<Rightarrow> string set" where
  "documentRefs bom = set (collectKnownRefs bom) \<union> set (refList (bSerialNumber bom))"

definition subjectRefs :: "BOM \<Rightarrow> string set" where
  "subjectRefs bom = documentRefs bom \<union> set (concat (map (\<lambda>f. refList (fBOMRef f)) (fromPtr (bFormulation bom)))) \<union>
     set (concat (map (\<lambda>c. refList (cpBOMRef c)) (fromPtr (bCompositions bom))))"

text \<open>No dependency, and no other reference of the document, points at nothing.\<close>

definition wellConnected :: "BOM \<Rightarrow> bool" where
  "wellConnected bom \<longleftrightarrow> distinct (map depRef (fromPtr (bDependencies bom))) \<and>
     list_all (dependencyOK (set (collectKnownRefs bom))) (fromPtr (bDependencies bom))"

definition wellReferenced :: "BOM \<Rightarrow> bool" where
  "wellReferenced bom \<longleftrightarrow>
     list_all (\<lambda>v. list_all (\<lambda>a. knownIn (set (collectKnownRefs bom)) (affRef a)) (fromPtr (vAffects v))) (fromPtr (bVulnerabilities bom)) \<and>
     list_all (\<lambda>c. list_all (knownIn (documentRefs bom)) (fromPtr (cpAssemblies c) @ fromPtr (cpDependencies c) @ fromPtr (cpVulnerabilities c)))
       (fromPtr (bCompositions bom)) \<and>
     list_all (\<lambda>a. anSubjects a \<noteq> None \<and> list_all (knownIn (subjectRefs bom)) (fromPtr (anSubjects a))) (fromPtr (bAnnotations bom))"

lemma filterKnown_Some: "filterKnownBOMReferences p K = Some xs \<Longrightarrow> x \<in> set xs \<Longrightarrow> x \<in> set K \<or> isBOMLink x"
  using set_filterKnownBOMReferences [of p K] by simp

lemma foldl_collapseDependency_keys:
  "keys result \<subseteq> set K \<Longrightarrow> keys (foldl (collapseDependency K) result ds) \<subseteq> set K"
proof (induction ds arbitrary: result)
  case (Cons d ds)
  have "keys (collapseDependency K result d) \<subseteq> set K"
    using Cons.prems by (auto simp: collapseDependency_def Let_def split: option.splits)
  then show ?case using Cons.IH by simp
qed simp

lemma canonicalizeDependencies_OK:
  assumes "K \<noteq> []"
  shows "distinct (map depRef (fromPtr (canonicalizeDependencies p K)))"
    and "list_all (dependencyOK (set K)) (fromPtr (canonicalizeDependencies p K))"
proof -
  let ?out = "fromPtr (canonicalizeDependencies p K)" and ?r = "foldl (collapseDependency K) [] (fromPtr p)"
  have out: "?out = map snd ?r" using assms by (cases p) (simp_all add: canonicalizeDependencies_def)
  have index: "depIndex ?r" using foldl_collapseDependency [of "[]" depDependencies K "fromPtr p"] by (simp add: depIndex_def)
  have key: "depRef (snd x) = fst x" if "x \<in> set ?r" for x
  proof -
    have "map_of ?r (fst x) = Some (snd x)" using that index by (simp add: depIndex_def map_of_goMap)
    then show ?thesis by (rule depIndex_lookup [OF index])
  qed
  then have "map depRef (map snd ?r) = map fst ?r" by simp
  then show "distinct (map depRef ?out)" using index unfolding out depIndex_def is_goMap_def by metis
  have "keys ?r \<subseteq> set K" by (rule foldl_collapseDependency_keys) simp
  then have ref: "depRef d \<in> set K" if "d \<in> set ?out" for d using that key unfolding out by (force simp: keys_def)
  have "knownIn (set K) t \<and> t \<noteq> depRef d"
    if "d \<in> set ?out" "t \<in> set (fromPtr (sel d))" "sel = depDependencies \<or> sel = depProvides" for d t sel
  proof -
    have "(depRef d, t) \<in> edgesBy sel ?out" unfolding edgesBy_def using that by blast
    then show ?thesis unfolding canonicalizeDependencies_edges [OF assms that(3)] by (simp add: keptEdge_def knownIn_def)
  qed
  then show "list_all (dependencyOK (set K)) ?out" using ref by (auto simp: list_all_iff dependencyOK_def)
qed

lemma CanonicalizeDocument_wellReferenced:
  "collectKnownRefs (CanonicalizeDocument schema bom) \<noteq> [] \<Longrightarrow> wellConnected (CanonicalizeDocument schema bom)"
  "wellReferenced (CanonicalizeDocument schema bom)"
proof -
  let ?b = "CanonicalizeDocument schema bom" and ?K = "collectKnownRefs bom"
  let ?D = "refList (bSerialNumber bom) @ ?K"
  have K: "set (collectKnownRefs ?b) = set ?K" by simp
  have nonempty: "collectKnownRefs ?b \<noteq> [] \<longleftrightarrow> ?K \<noteq> []" using K by (metis set_empty)
  have serial: "bSerialNumber ?b = bSerialNumber bom" by (simp add: CanonicalizeDocument_def Let_def)
  have D: "documentRefs ?b = set ?D" unfolding documentRefs_def K serial by auto
  have deps: "bDependencies ?b = canonicalizeDependencies (bDependencies bom) ?K" by (simp add: CanonicalizeDocument_def Let_def)
  have vulns: "list_all (\<lambda>v. list_all (\<lambda>a. knownIn (set ?K) (affRef a)) (fromPtr (vAffects v))) (fromPtr (bVulnerabilities ?b))"
    by (auto simp: CanonicalizeDocument_def Let_def list_all_iff knownIn_def)
  have comps: "bCompositions ?b = canonicalizeCompositions (bCompositions bom) ?D" by (simp add: CanonicalizeDocument_def Let_def)
  have "list_all (\<lambda>c. list_all (knownIn (set ?D)) (fromPtr (cpAssemblies c) @ fromPtr (cpDependencies c) @ fromPtr (cpVulnerabilities c)))
      (fromPtr (canonicalizeCompositions (bCompositions bom) ?D))"
    by (cases "bCompositions bom") (auto simp: canonicalizeCompositions_def filterComposition_def list_all_iff knownIn_def)
  moreover have "list_all (\<lambda>a. anSubjects a \<noteq> None \<and> list_all (knownIn (subjectRefs ?b)) (fromPtr (anSubjects a))) (fromPtr (bAnnotations ?b))"
  proof -
    let ?N = "concat (map (\<lambda>f. refList (fBOMRef f)) (fromPtr (bFormulation bom))) @ concat (map (\<lambda>c. refList (cpBOMRef c)) (fromPtr (bCompositions ?b))) @ ?D"
    have annotations: "bAnnotations ?b = canonicalizeAnnotations (bAnnotations bom) ?N" by (simp add: CanonicalizeDocument_def Let_def)
    have "set (fromPtr (bFormulation ?b)) = set (fromPtr (bFormulation bom))" by (simp add: CanonicalizeDocument_def Let_def)
    then have N: "subjectRefs ?b = set ?N" unfolding subjectRefs_def D by auto
    have "list_all (\<lambda>a. anSubjects a \<noteq> None \<and> list_all (knownIn (set ns)) (fromPtr (anSubjects a))) (fromPtr (canonicalizeAnnotations p ns))" for p ns
      by (cases p) (auto simp: canonicalizeAnnotations_def filterAnnotation_def list_all_iff knownIn_def dest: filterKnown_Some)
    then show ?thesis unfolding annotations N .
  qed
  ultimately show "wellReferenced ?b" unfolding wellReferenced_def K D comps using vulns by simp
  show "wellConnected ?b" if "collectKnownRefs ?b \<noteq> []"
    using that canonicalizeDependencies_OK [of ?K "bDependencies bom"] unfolding wellConnected_def nonempty K deps by simp
qed

text \<open>C17: In a canonical document that declares some entity, dependency entries are about declared entities, at most one for each, and
  lead to other declared entities or to other documents (in a document that declares none, the entries are left as they are). In
  every canonical document, vulnerabilities affect declared entities or other documents; compositions speak of declared entities, of
  the document itself or of other documents; annotations have subjects, and these are declared entities, the document, its formulas and
  its compositions, or other documents.\<close>

theorem canonical_references_declared:
  "(collectKnownRefs (Canonicalize schema bom) \<noteq> [] \<longrightarrow> wellConnected (Canonicalize schema bom)) \<and> wellReferenced (Canonicalize schema bom)"
  by (simp add: Canonicalize_def Let_def CanonicalizeDocument_wellReferenced)

theorem canonical_references_declared_witness:
  "collectKnownRefs (Canonicalize None twinsDocument) \<noteq> [] \<and> wellConnected (Canonicalize None twinsDocument)"
proof
  show "collectKnownRefs (Canonicalize None twinsDocument) \<noteq> []" by code_simp
  then show "wellConnected (Canonicalize None twinsDocument)" using canonical_references_declared [of None twinsDocument] by blast
qed

section \<open>Packages and services\<close>

definition isPackage :: "entityLabel \<Rightarrow> bool" where
  "isPackage l = (case l of PackageLabel purl \<Rightarrow> True | _ \<Rightarrow> False)"

interpretation packages: identified_entity "componentEntity schema" componentLabel isPackage
  by unfold_locales
    (auto simp: componentEntity_def componentKey_def componentLabel_def isPackage_def split: if_splits)

interpretation distinctServices: identified_entity "serviceEntity schema" serviceLabel "\<lambda>l. True"
  by unfold_locales (simp add: serviceEntity_def serviceLabel_def)

text \<open>The package URLs of siblings without their package ids, and that they differ on every level below an entry.\<close>

definition packageURLs :: "Component list \<Rightarrow> string list" where
  "packageURLs ns = map (\<lambda>n. normalizePURL (cPackageURL (payload n))) (filter (\<lambda>n. cPackageURL (payload n) \<noteq> []) ns)"

fun packagesApart :: "Component \<Rightarrow> bool" where
  "packagesApart (Node d None) = True"
| "packagesApart (Node d (Some ks)) = (distinct (packageURLs ks) \<and> list_all packagesApart ks)"

definition serviceKeys :: "Service list \<Rightarrow> string list" where
  "serviceKeys ns = map (\<lambda>n. Join [sGroup (payload n), sName (payload n), sVersion (payload n)] ''|'') ns"

lemma package_labels: "filter isPackage (map (\<lambda>n. componentLabel (payload n)) ns) = map PackageLabel (packageURLs ns)"
  by (induction ns) (simp_all add: packageURLs_def componentLabel_def isPackage_def)

lemma set_packageURLs: "set (packageURLs ns) = {purl. PackageLabel purl \<in> set (map (\<lambda>n. componentLabel (payload n)) ns)}"
  by (auto simp: packageURLs_def componentLabel_def)

lemma packages_apart: "packages.apart ns \<longleftrightarrow> distinct (packageURLs ns)"
  by (simp add: packages.apart_def package_labels distinct_map inj_on_def)

lemma packages_allApart: "packages.allApart n \<longleftrightarrow> packagesApart n"
  by (induction n rule: packagesApart.induct) (auto simp: packages_apart list_all_iff)

lemma service_labels: "map (\<lambda>n. serviceLabel (payload n)) ns = map ServiceLabel (serviceKeys ns)"
  by (simp add: serviceKeys_def serviceLabel_def)

lemma Canonicalize_entities:
  "\<exists>m. bComponents (Canonicalize schema bom) = fst (canonicalizeComponents schema (bComponents bom) m)"
  "\<exists>m. bServices (Canonicalize schema bom) = fst (canonicalizeServices schema (bServices bom) m)"
proof -
  let ?c = "fst (collapseEntities schema bom)"
  have "bComponents (Canonicalize schema bom) = bComponents ?c" "bServices (Canonicalize schema bom) = bServices ?c"
    by (simp_all add: Canonicalize_def CanonicalizeDocument_def dedupDocument_def RewriteRefs_def Let_def)
  then show "\<exists>m. bComponents (Canonicalize schema bom) = fst (canonicalizeComponents schema (bComponents bom) m)"
    "\<exists>m. bServices (Canonicalize schema bom) = fst (canonicalizeServices schema (bServices bom) m)"
    using collapseEntities_parts(3,4) [of schema bom] by auto
qed

lemma Canonicalize_one_entry:
  "distinct (packageURLs (fromPtr (bComponents (Canonicalize schema bom)))) \<and>
   set (packageURLs (fromPtr (bComponents (Canonicalize schema bom)))) = set (packageURLs (fromPtr (bComponents bom))) \<and>
   list_all packagesApart (fromPtr (bComponents (Canonicalize schema bom))) \<and>
   distinct (serviceKeys (fromPtr (bServices (Canonicalize schema bom)))) \<and>
   set (serviceKeys (fromPtr (bServices (Canonicalize schema bom)))) = set (serviceKeys (fromPtr (bServices bom)))"
proof -
  obtain m where cs: "bComponents (Canonicalize schema bom) = fst (canonicalizeComponents schema (bComponents bom) m)"
    using Canonicalize_entities(1) by blast
  obtain m' where ss: "bServices (Canonicalize schema bom) = fst (canonicalizeServices schema (bServices bom) m')"
    using Canonicalize_entities(2) by blast
  note c = packages.canonicalizeNodes_apart [of schema "bComponents bom" m, folded canonicalizeComponents_def, folded cs]
  note s = distinctServices.canonicalizeNodes_apart [of schema "bServices bom" m', folded canonicalizeServices_def, folded ss]
  have "distinct (serviceKeys (fromPtr (bServices (Canonicalize schema bom))))"
    using s by (simp add: distinctServices.apart_def service_labels distinct_map)
  moreover have "set (serviceKeys (fromPtr (bServices (Canonicalize schema bom)))) = set (serviceKeys (fromPtr (bServices bom)))"
    using s inj_image_eq_iff [of ServiceLabel] by (simp only: service_labels set_map) (simp add: inj_def)
  ultimately show ?thesis using c by (simp add: packages_apart packages_allApart set_packageURLs list_all_iff)
qed

text \<open>The parts of a key are not told apart from separators in them: two services of different groups and names are merged.\<close>

lemma service_keys_collide:
  "serviceKeys [Node (s\<lparr>sGroup := ''a|b'', sName := ''c'', sVersion := v\<rparr>) None] = serviceKeys [Node (s\<lparr>sGroup := ''a'', sName := ''b|c'', sVersion := v\<rparr>) None]"
  by (simp add: serviceKeys_def)

text \<open>Where no part of a service contains a bar, the key stands for the three parts.\<close>

definition serviceTriple :: "Service \<Rightarrow> string \<times> string \<times> string" where
  "serviceTriple n = (sGroup (payload n), sName (payload n), sVersion (payload n))"

definition barFree :: "Service \<Rightarrow> bool" where
  "barFree n \<longleftrightarrow> CHR ''|'' \<notin> set (sGroup (payload n)) \<and> CHR ''|'' \<notin> set (sName (payload n)) \<and> CHR ''|'' \<notin> set (sVersion (payload n))"

lemma bar_split:
  "a @ CHR ''|'' # b = a' @ CHR ''|'' # b' \<Longrightarrow> CHR ''|'' \<notin> set a \<Longrightarrow> CHR ''|'' \<notin> set a' \<Longrightarrow> a = a' \<and> b = b'"
  by (auto simp: append_eq_append_conv2 Cons_eq_append_conv append_eq_Cons_conv)

lemma bar_count: "count_list (a @ b) x = count_list a x + count_list b x"
  by (induction a) simp_all

lemma barFree_key:
  assumes "barFree n" and "Join [sGroup (payload n), sName (payload n), sVersion (payload n)] ''|'' =
    Join [sGroup (payload n'), sName (payload n'), sVersion (payload n')] ''|''"
  shows "serviceTriple n' = serviceTriple n"
proof -
  have eq: "sGroup (payload n) @ CHR ''|'' # sName (payload n) @ CHR ''|'' # sVersion (payload n) =
      sGroup (payload n') @ CHR ''|'' # sName (payload n') @ CHR ''|'' # sVersion (payload n')"
    using assms(2) by simp
  from arg_cong [OF this, of "\<lambda>s. count_list s (CHR ''|'')"] assms(1)
  have "count_list (sGroup (payload n')) (CHR ''|'') + (count_list (sName (payload n')) (CHR ''|'') + count_list (sVersion (payload n')) (CHR ''|'')) = 0"
    by (simp add: bar_count barFree_def count_notin)
  then have free: "CHR ''|'' \<notin> set (sGroup (payload n'))" "CHR ''|'' \<notin> set (sName (payload n'))" by (simp_all add: count_list_0_iff)
  from bar_split [OF eq] free assms(1)
  have "sGroup (payload n) = sGroup (payload n')"
    "sName (payload n) @ CHR ''|'' # sVersion (payload n) = sName (payload n') @ CHR ''|'' # sVersion (payload n')"
    by (simp_all add: barFree_def)
  moreover from bar_split [OF this(2)] free assms(1) have "sName (payload n) = sName (payload n')" "sVersion (payload n) = sVersion (payload n')"
    by (simp_all add: barFree_def)
  ultimately show ?thesis by (simp add: serviceTriple_def)
qed

lemma barFree_services:
  assumes "list_all barFree ms" and "distinct (serviceKeys ns)" and "set (serviceKeys ns) = set (serviceKeys ms)"
  shows "distinct (map serviceTriple ns) \<and> set (map serviceTriple ns) = set (map serviceTriple ms)"
proof
  define key where "key n = Join [sGroup (payload n), sName (payload n), sVersion (payload n)] ''|''" for n :: Service
  have keys: "key ` set ns = key ` set ms" and apart: "distinct (map key ns)"
    using assms(2,3) unfolding serviceKeys_def key_def set_map by blast+
  have same: "serviceTriple n = serviceTriple m" if "m \<in> set ms" "key n = key m" for n m
  proof (rule barFree_key)
    show "barFree m" using that(1) assms(1) by (simp add: list_all_iff)
  qed (use that(2) in \<open>simp add: key_def\<close>)
  have "serviceTriple n \<in> serviceTriple ` set ms" if "n \<in> set ns" for n
  proof -
    have "key n \<in> key ` set ms" unfolding keys [symmetric] using that by (rule imageI)
    then obtain m where m: "m \<in> set ms" "key n = key m" by (rule imageE)
    from same [OF m] m(1) show ?thesis by (rule image_eqI)
  qed
  moreover have "serviceTriple m \<in> serviceTriple ` set ns" if "m \<in> set ms" for m
  proof -
    have "key m \<in> key ` set ns" unfolding keys using that by (rule imageI)
    then obtain n where n: "n \<in> set ns" "key m = key n" by (rule imageE)
    from same [OF that n(2) [symmetric]] have "serviceTriple m = serviceTriple n" ..
    then show ?thesis using n(1) by (rule image_eqI)
  qed
  ultimately show "set (map serviceTriple ns) = set (map serviceTriple ms)" by auto
  have "key = (\<lambda>(g, n, v). Join [g, n, v] ''|'') \<circ> serviceTriple" by (rule ext) (simp add: key_def serviceTriple_def)
  then have "map key ns = map (\<lambda>(g, n, v). Join [g, n, v] ''|'') (map serviceTriple ns)" by simp
  then show "distinct (map serviceTriple ns)" using apart by (simp only: distinct_map)
qed

text \<open>C19: A canonical document has exactly one component at the top level for every package URL, disregarding package ids, that the
  document had there, and inside a component, on every level, the package URLs of siblings differ as well. It has exactly one
  service for every key that the document had, where the key of a service is group, name and version joined with bars. If no part of
  a service of the document contains a bar, this is one service for every triple of group, name and version; otherwise services with
  different triples but the same key are merged.\<close>

theorem one_entry_per_package:
  "distinct (packageURLs (fromPtr (bComponents (Canonicalize schema bom)))) \<and>
   set (packageURLs (fromPtr (bComponents (Canonicalize schema bom)))) = set (packageURLs (fromPtr (bComponents bom))) \<and>
   list_all packagesApart (fromPtr (bComponents (Canonicalize schema bom))) \<and>
   distinct (serviceKeys (fromPtr (bServices (Canonicalize schema bom)))) \<and>
   set (serviceKeys (fromPtr (bServices (Canonicalize schema bom)))) = set (serviceKeys (fromPtr (bServices bom))) \<and>
   (list_all barFree (fromPtr (bServices bom)) \<longrightarrow> distinct (map serviceTriple (fromPtr (bServices (Canonicalize schema bom)))) \<and>
     set (map serviceTriple (fromPtr (bServices (Canonicalize schema bom)))) = set (map serviceTriple (fromPtr (bServices bom))))"
proof -
  note one = Canonicalize_one_entry [of schema bom]
  then show ?thesis using barFree_services [of "fromPtr (bServices bom)" "fromPtr (bServices (Canonicalize schema bom))"] by blast
qed

text \<open>A document with two services, one of them listed twice.\<close>

definition namedService :: "string \<Rightarrow> ServiceData" where
  "namedService n = \<lparr>sBOMRef = [], sProvider = None, sGroup = ''g'', sName = n, sVersion = ''1'', sDescription = [], sEndpoints = None,
     sAuthenticated = None, sCrossesTrustBoundary = None, sTrustZone = [], sData = None, sLicenses = None, sExternalReferences = None,
     sProperties = None, sReleaseNotes = None, sTags = None, sSignature = None\<rparr>"

definition servicesDocument :: BOM where
  "servicesDocument = (NewBOM ''1'')\<lparr>bServices := Some (map (\<lambda>n. Node (namedService n) None) [''api'', ''db'', ''api''])\<rparr>"

theorem one_entry_per_package_witness:
  "distinct (map serviceTriple (fromPtr (bServices (Canonicalize None servicesDocument)))) \<and>
   set (map serviceTriple (fromPtr (bServices (Canonicalize None servicesDocument)))) = {(''g'', ''api'', ''1''), (''g'', ''db'', ''1'')}"
proof -
  have "list_all barFree (fromPtr (bServices servicesDocument))" by code_simp
  moreover have "map serviceTriple (fromPtr (bServices servicesDocument)) = [(''g'', ''api'', ''1''), (''g'', ''db'', ''1''), (''g'', ''api'', ''1'')]"
    by code_simp
  ultimately show ?thesis using one_entry_per_package [of None servicesDocument] by auto
qed

end
