(* ===== verification/SbomNamespace.thy ===== *)
theory SbomNamespace
  imports SbomMerge SbomProps
begin

text \<open>
  What a namespace does to a document: it renames refs consistently, and documents with different namespaces have no ref in
  common and do not refer to each other.
\<close>

section \<open>Renaming walks\<close>

definition prefixed :: "string \<Rightarrow> string \<Rightarrow> string" where
  "prefixed pre ref = (if ref = [] then [] else namespacedRef ref pre)"

definition recordRefs :: "string \<Rightarrow> refMap \<Rightarrow> string list \<Rightarrow> refMap" where
  "recordRefs pre m refs = foldl (\<lambda>m ref. AList.update ref (namespacedRef ref pre) m) m refs"

lemma recordRefs_append: "recordRefs pre m (xs @ ys) = recordRefs pre (recordRefs pre m xs) ys"
  by (simp add: recordRefs_def)

lemma namespaceRef_record: "namespaceRef pre ref m = (prefixed pre ref, recordRefs pre m (refList ref))"
  by (simp add: namespaceRef_def prefixed_def refList_def recordRefs_def)

lemma refList_prefixed [simp]: "refList (prefixed pre ref) = map (\<lambda>r. namespacedRef r pre) (refList ref)"
  by (simp add: refList_def prefixed_def namespacedRef_def)

text \<open>A list is visited in order; what each visit records is recorded in order.\<close>

lemma mapState_records:
  assumes "\<And>x m. x \<in> set xs \<Longrightarrow> snd (f x m) = recordRefs pre m (refs x)"
    and "\<And>x m. x \<in> set xs \<Longrightarrow> g (fst (f x m)) = h x"
  shows "snd (mapState f xs m) = recordRefs pre m (concat (map refs xs)) \<and> map g (fst (mapState f xs m)) = map h xs"
  using assms by (induction xs arbitrary: m) (simp_all add: Let_def recordRefs_append recordRefs_def)

lemma mapPtr_records:
  assumes "\<And>x m. snd (f x m) = recordRefs pre m (refs x)" and "\<And>x m. g (fst (f x m)) = h x"
  shows "snd (mapPtr f p m) = recordRefs pre m (concat (map refs (fromPtr p)))"
    and "map g (fromPtr (fst (mapPtr f p m))) = map h (fromPtr p)"
  using mapState_records [of _ f pre refs g h, OF assms] by (cases p; simp add: mapPtr_def Let_def recordRefs_def)+

text \<open>A visit of one entity of a forest.\<close>

definition renames :: "string \<Rightarrow> ('d \<Rightarrow> string) \<Rightarrow> ('d \<Rightarrow> refMap \<Rightarrow> 'd \<times> refMap) \<Rightarrow> bool" where
  "renames pre ref f \<longleftrightarrow> (\<forall>d m. ref (fst (f d m)) = prefixed pre (ref d) \<and> snd (f d m) = recordRefs pre m (refList (ref d)))"

lemma walkNode_renames:
  assumes "renames pre ref f"
  shows "snd (walkNode f n m) = recordRefs pre m (collectNode ref n) \<and>
    collectNode ref (fst (walkNode f n m)) = map (\<lambda>r. namespacedRef r pre) (collectNode ref n)"
  using assms
proof (induction f n m rule: walkNode.induct)
  case (1 f d m)
  then show ?case by (simp add: renames_def Let_def)
next
  case (2 f d ks m)
  then have d: "ref (fst (f d m)) = prefixed pre (ref d)" "snd (f d m) = recordRefs pre m (refList (ref d))"
    by (simp_all add: renames_def)
  have "snd (mapState (walkNode f) ks (snd (f d m))) = recordRefs pre (snd (f d m)) (concat (map (collectNode ref) ks)) \<and>
      map (collectNode ref) (fst (mapState (walkNode f) ks (snd (f d m)))) = map (\<lambda>n. map (\<lambda>r. namespacedRef r pre) (collectNode ref n)) ks"
    using 2 by (intro mapState_records) auto
  then show ?case by (simp add: Let_def d recordRefs_append map_concat o_def)
qed

lemma walkNodes_renames:
  assumes "renames pre ref f"
  shows "snd (walkNodes f p m) = recordRefs pre m (collectNodes ref p)"
    and "collectNodes ref (fst (walkNodes f p m)) = map (\<lambda>r. namespacedRef r pre) (collectNodes ref p)"
proof -
  note w = walkNode_renames [OF assms]
  show "snd (walkNodes f p m) = recordRefs pre m (collectNodes ref p)"
    using mapPtr_records(1) [of "walkNode f" pre "collectNode ref" "collectNode ref" "\<lambda>n. map (\<lambda>r. namespacedRef r pre) (collectNode ref n)" p m] w
    by (simp add: walkNodes_def collectNodes_def)
  show "collectNodes ref (fst (walkNodes f p m)) = map (\<lambda>r. namespacedRef r pre) (collectNodes ref p)"
    using mapPtr_records(2) [of "walkNode f" pre "collectNode ref" "collectNode ref" "\<lambda>n. map (\<lambda>r. namespacedRef r pre) (collectNode ref n)" p m] w
    by (simp add: walkNodes_def collectNodes_def map_concat o_def)
qed

lemma renames_component [simp]: "renames pre cBOMRef (onComponent (\<lambda>_. namespaceRef pre))"
  by (simp add: renames_def onComponent_def Let_def namespaceRef_record)

lemma renames_service [simp]: "renames pre sBOMRef (onService (namespaceRef pre))"
  by (simp add: renames_def onService_def Let_def namespaceRef_record)

lemmas walk_component = walkNodes_renames [OF renames_component]
lemmas walk_service = walkNodes_renames [OF renames_service]

section \<open>The parts of a document\<close>

definition toolRefs :: "BOM \<Rightarrow> string list" where
  "toolRefs bom = (case bomTools bom of None \<Rightarrow> []
     | Some tools \<Rightarrow> collectNodes cBOMRef (tcComponents tools) @ collectNodes sBOMRef (tcServices tools))"

definition rootRefs :: "BOM \<Rightarrow> string list" where
  "rootRefs bom = (case bomRoot bom of None \<Rightarrow> [] | Some root \<Rightarrow> collectNode cBOMRef root)"

definition formulaRefs :: "Formula \<Rightarrow> string list" where
  "formulaRefs f = collectNodes cBOMRef (fComponents f) @ collectNodes sBOMRef (fServices f)"

lemma collectKnownRefs_parts:
  "collectKnownRefs bom = rootRefs bom @ collectNodes cBOMRef (bComponents bom) @ collectNodes sBOMRef (bServices bom) @ toolRefs bom @
     concat (map formulaRefs (fromPtr (bFormulation bom))) @ concat (map (\<lambda>v. refList (vBOMRef v)) (fromPtr (bVulnerabilities bom)))"
  by (simp add: collectKnownRefs_def rootRefs_def toolRefs_def formulaRefs_def [abs_def])

text \<open>All refs that the document declares, in the order in which they are renamed.\<close>

definition sectionRefs :: "BOM \<Rightarrow> string list" where
  "sectionRefs bom =
     concat (map (\<lambda>f. refList (fBOMRef f) @ formulaRefs f) (fromPtr (bFormulation bom))) @
     concat (map (\<lambda>v. refList (vBOMRef v)) (fromPtr (bVulnerabilities bom))) @
     concat (map (\<lambda>c. refList (cpBOMRef c)) (fromPtr (bCompositions bom))) @
     concat (map (\<lambda>a. refList (anBOMRef a)) (fromPtr (bAnnotations bom)))"

definition allDeclared :: "BOM \<Rightarrow> string list" where
  "allDeclared bom = rootRefs bom @ toolRefs bom @ collectNodes cBOMRef (bComponents bom) @ collectNodes sBOMRef (bServices bom) @ sectionRefs bom"

text \<open>What a walk leaves alone. References are not declarations.\<close>

lemma namespaceRoot_parts:
  "snd (namespaceRoot pre bom m) = recordRefs pre m (rootRefs bom)"
  "rootRefs (fst (namespaceRoot pre bom m)) = map (\<lambda>r. namespacedRef r pre) (rootRefs bom)"
  "toolRefs (fst (namespaceRoot pre bom m)) = toolRefs bom"
  "\<exists>md. fst (namespaceRoot pre bom m) = bom\<lparr>bMetadata := md\<rparr>"
proof -
  note w = walkNode_renames [OF renames_component, of pre]
  have unchanged: "\<exists>md. bom = bom\<lparr>bMetadata := md\<rparr>" by (intro exI [of _ "bMetadata bom"]) simp
  show "snd (namespaceRoot pre bom m) = recordRefs pre m (rootRefs bom)"
    "rootRefs (fst (namespaceRoot pre bom m)) = map (\<lambda>r. namespacedRef r pre) (rootRefs bom)"
    "toolRefs (fst (namespaceRoot pre bom m)) = toolRefs bom"
    by (cases "bMetadata bom"; cases "bomRoot bom";
      simp add: namespaceRoot_def rootRefs_def toolRefs_def bomRoot_def bomTools_def mapRoot_def Let_def w recordRefs_def)+
  show "\<exists>md. fst (namespaceRoot pre bom m) = bom\<lparr>bMetadata := md\<rparr>"
    using unchanged by (cases "bomRoot bom") (auto simp: namespaceRoot_def mapRoot_def Let_def)
qed

lemma onTools_parts:
  fixes pre bom m
  defines "r \<equiv> onTools (\<lambda>_. namespaceRef pre) (namespaceRef pre) bom m"
  shows "snd r = recordRefs pre m (toolRefs bom)"
    "toolRefs (fst r) = map (\<lambda>r. namespacedRef r pre) (toolRefs bom)"
    "rootRefs (fst r) = rootRefs bom"
    "\<exists>md. fst r = bom\<lparr>bMetadata := md\<rparr>"
proof -
  note w = walk_component [of pre] walk_service [of pre]
  have unchanged: "\<exists>md. bom = bom\<lparr>bMetadata := md\<rparr>" by (intro exI [of _ "bMetadata bom"]) simp
  show "snd r = recordRefs pre m (toolRefs bom)" "toolRefs (fst r) = map (\<lambda>r. namespacedRef r pre) (toolRefs bom)" "rootRefs (fst r) = rootRefs bom"
    unfolding r_def
    by (cases "bMetadata bom"; cases "bomTools bom";
      simp add: onTools_def rootRefs_def toolRefs_def bomRoot_def bomTools_def mapTools_def Let_def w recordRefs_append recordRefs_def)+
  show "\<exists>md. fst r = bom\<lparr>bMetadata := md\<rparr>"
    unfolding r_def using unchanged by (cases "bomTools bom") (auto simp: onTools_def mapTools_def Let_def)
qed

lemma onFormula_parts:
  fixes pre f m
  defines "r \<equiv> onFormula (\<lambda>_. namespaceRef pre) (namespaceRef pre) f m"
  shows "snd r = recordRefs pre m (refList (fBOMRef f) @ formulaRefs f)"
    and "formulaRefs (fst r) = map (\<lambda>r. namespacedRef r pre) (formulaRefs f)"
  unfolding r_def
  by (simp_all add: onFormula_def formulaRefs_def Let_def walk_component walk_service namespaceRef_record recordRefs_append)

lemma onSections_parts:
  fixes pre bom m
  defines "r \<equiv> onSections (\<lambda>_. namespaceRef pre) (namespaceRef pre) bom m"
  shows "snd r = recordRefs pre m (sectionRefs bom)"
    and "map formulaRefs (fromPtr (bFormulation (fst r))) = map (\<lambda>f. map (\<lambda>r. namespacedRef r pre) (formulaRefs f)) (fromPtr (bFormulation bom))"
    and "map (\<lambda>v. (vBOMRef v, vAffects v)) (fromPtr (bVulnerabilities (fst r))) =
      map (\<lambda>v. (prefixed pre (vBOMRef v), vAffects v)) (fromPtr (bVulnerabilities bom))"
    and "map (\<lambda>c. (cpAssemblies c, cpDependencies c, cpVulnerabilities c)) (fromPtr (bCompositions (fst r))) =
      map (\<lambda>c. (cpAssemblies c, cpDependencies c, cpVulnerabilities c)) (fromPtr (bCompositions bom))"
    and "map anSubjects (fromPtr (bAnnotations (fst r))) = map anSubjects (fromPtr (bAnnotations bom))"
    and "\<exists>fs vs cs as. fst r = bom\<lparr>bFormulation := fs, bVulnerabilities := vs, bCompositions := cs, bAnnotations := as\<rparr>"
proof -
  note ref = namespaceRef_record [of pre]
  note fs = mapPtr_records [of "onFormula (\<lambda>_. namespaceRef pre) (namespaceRef pre)" pre "\<lambda>f. refList (fBOMRef f) @ formulaRefs f" formulaRefs
      "\<lambda>f. map (\<lambda>r. namespacedRef r pre) (formulaRefs f)", OF onFormula_parts]
  have vs: "snd (mapPtr (onVulnerability (namespaceRef pre)) p m) = recordRefs pre m (concat (map (\<lambda>v. refList (vBOMRef v)) (fromPtr p)))"
    "map (\<lambda>v. (vBOMRef v, vAffects v)) (fromPtr (fst (mapPtr (onVulnerability (namespaceRef pre)) p m))) =
      map (\<lambda>v. (prefixed pre (vBOMRef v), vAffects v)) (fromPtr p)" for p m
    by (rule mapPtr_records; simp add: onVulnerability_def Let_def ref)+
  have cs: "snd (mapPtr (onComposition (namespaceRef pre)) p m) = recordRefs pre m (concat (map (\<lambda>c. refList (cpBOMRef c)) (fromPtr p)))"
    "map (\<lambda>c. (cpAssemblies c, cpDependencies c, cpVulnerabilities c)) (fromPtr (fst (mapPtr (onComposition (namespaceRef pre)) p m))) =
      map (\<lambda>c. (cpAssemblies c, cpDependencies c, cpVulnerabilities c)) (fromPtr p)" for p m
    by (rule mapPtr_records; simp add: onComposition_def Let_def ref)+
  have as: "snd (mapPtr (onAnnotation (namespaceRef pre)) p m) = recordRefs pre m (concat (map (\<lambda>a. refList (anBOMRef a)) (fromPtr p)))"
    "map anSubjects (fromPtr (fst (mapPtr (onAnnotation (namespaceRef pre)) p m))) = map anSubjects (fromPtr p)" for p m
    by (rule mapPtr_records; simp add: onAnnotation_def Let_def ref)+
  show "snd r = recordRefs pre m (sectionRefs bom)"
    "map formulaRefs (fromPtr (bFormulation (fst r))) = map (\<lambda>f. map (\<lambda>r. namespacedRef r pre) (formulaRefs f)) (fromPtr (bFormulation bom))"
    "map (\<lambda>v. (vBOMRef v, vAffects v)) (fromPtr (bVulnerabilities (fst r))) =
      map (\<lambda>v. (prefixed pre (vBOMRef v), vAffects v)) (fromPtr (bVulnerabilities bom))"
    "map (\<lambda>c. (cpAssemblies c, cpDependencies c, cpVulnerabilities c)) (fromPtr (bCompositions (fst r))) =
      map (\<lambda>c. (cpAssemblies c, cpDependencies c, cpVulnerabilities c)) (fromPtr (bCompositions bom))"
    "map anSubjects (fromPtr (bAnnotations (fst r))) = map anSubjects (fromPtr (bAnnotations bom))"
    unfolding r_def by (simp_all add: onSections_def Let_def sectionRefs_def recordRefs_append fs vs cs as del: map_eq_conv)
  show "\<exists>fs vs cs as. fst r = bom\<lparr>bFormulation := fs, bVulnerabilities := vs, bCompositions := cs, bAnnotations := as\<rparr>"
    unfolding r_def by (auto simp: onSections_def Let_def)
qed

section \<open>The renaming of a document\<close>

lemma bomReferences_parts:
  "bomReferences bom =
     concat (map (\<lambda>dep. depRef dep # fromPtr (depDependencies dep) @ fromPtr (depProvides dep)) (fromPtr (bDependencies bom))) @
     concat (map (\<lambda>x. map affRef (fromPtr (snd x))) (map (\<lambda>v. (vBOMRef v, vAffects v)) (fromPtr (bVulnerabilities bom)))) @
     concat (map (\<lambda>(x, y, z). fromPtr x @ fromPtr y @ fromPtr z)
       (map (\<lambda>c. (cpAssemblies c, cpDependencies c, cpVulnerabilities c)) (fromPtr (bCompositions bom)))) @
     concat (map fromPtr (map anSubjects (fromPtr (bAnnotations bom))))"
  by (simp add: bomReferences_def o_def)

lemma bomReferences_RewriteRefs: "bomReferences (RewriteRefs bom m) = map (\<lambda>ref. remapRef ref m) (bomReferences bom)"
  by (simp add: RewriteRefs_def bomReferences_def rewriteDependency_def rewriteVulnerability_def rewriteComposition_def
      rewriteAnnotation_def map_concat o_def)

text \<open>The document after the renaming of the declarations, before that of the references.\<close>

definition renamedDeclarations :: "BOM \<Rightarrow> string \<Rightarrow> BOM \<times> refMap" where
  "renamedDeclarations bom pre =
     (let r1 = namespaceRoot pre bom [];
          r2 = onTools (\<lambda>_. namespaceRef pre) (namespaceRef pre) (fst r1) (snd r1);
          r3 = onEntities (\<lambda>_. namespaceRef pre) (namespaceRef pre) (fst r2) (snd r2)
      in onSections (\<lambda>_. namespaceRef pre) (namespaceRef pre) (fst r3) (snd r3))"

lemma NamespaceBOMRefs_alt:
  "NamespaceBOMRefs bom pre =
     RewriteRefs (fst (renamedDeclarations bom pre))
       (namespaceUndeclaredReferences (fst (renamedDeclarations bom pre)) pre (snd (renamedDeclarations bom pre)))"
  by (simp add: NamespaceBOMRefs_def renamedDeclarations_def Let_def)

lemma renamedDeclarations_parts:
  "snd (renamedDeclarations bom pre) = recordRefs pre [] (allDeclared bom)"
  "collectKnownRefs (fst (renamedDeclarations bom pre)) = map (\<lambda>r. namespacedRef r pre) (collectKnownRefs bom)"
  "bomReferences (fst (renamedDeclarations bom pre)) = bomReferences bom"
  "bDependencies (fst (renamedDeclarations bom pre)) = bDependencies bom"
  "bSerialNumber (fst (renamedDeclarations bom pre)) = bSerialNumber bom"
proof -
  define r1 where "r1 = namespaceRoot pre bom []"
  define r2 where "r2 = onTools (\<lambda>_. namespaceRef pre) (namespaceRef pre) (fst r1) (snd r1)"
  define r3 where "r3 = onEntities (\<lambda>_. namespaceRef pre) (namespaceRef pre) (fst r2) (snd r2)"
  define r4 where "r4 = onSections (\<lambda>_. namespaceRef pre) (namespaceRef pre) (fst r3) (snd r3)"
  have r: "renamedDeclarations bom pre = r4" by (simp add: renamedDeclarations_def r4_def r3_def r2_def r1_def Let_def)
  note p1 = namespaceRoot_parts [of pre bom "[]", folded r1_def]
  note p2 = onTools_parts [of pre "fst r1" "snd r1", folded r2_def]
  note p4 = onSections_parts [of pre "fst r3" "snd r3", folded r4_def]
  obtain md where md: "fst r1 = bom\<lparr>bMetadata := md\<rparr>" using p1(4) by blast
  obtain md' where "fst r2 = (fst r1)\<lparr>bMetadata := md'\<rparr>" using p2(4) by blast
  then have md': "fst r2 = bom\<lparr>bMetadata := md'\<rparr>" by (simp add: md)
  obtain cs ss where r3: "fst r3 = (fst r2)\<lparr>bComponents := cs, bServices := ss\<rparr>"
    and cs: "collectNodes cBOMRef cs = map (\<lambda>r. namespacedRef r pre) (collectNodes cBOMRef (bComponents bom))"
    and ss: "collectNodes sBOMRef ss = map (\<lambda>r. namespacedRef r pre) (collectNodes sBOMRef (bServices bom))"
    and m3: "snd r3 = recordRefs pre (snd r2) (collectNodes cBOMRef (bComponents bom) @ collectNodes sBOMRef (bServices bom))"
    by (simp add: r3_def onEntities_def Let_def walk_component walk_service recordRefs_append md')
  obtain fs vs ps as where r4: "fst r4 = (fst r3)\<lparr>bFormulation := fs, bVulnerabilities := vs, bCompositions := ps, bAnnotations := as\<rparr>"
    using p4(6) by blast
  have sections: "sectionRefs (fst r3) = sectionRefs bom" by (simp add: r3 md' sectionRefs_def)
  have "rootRefs (fst r4) = rootRefs (fst r2)" "toolRefs (fst r4) = toolRefs (fst r2)"
    by (simp_all add: r4 r3 rootRefs_def toolRefs_def bomRoot_def bomTools_def)
  then have metadata: "rootRefs (fst r4) = map (\<lambda>r. namespacedRef r pre) (rootRefs bom)"
    "toolRefs (fst r4) = map (\<lambda>r. namespacedRef r pre) (toolRefs bom)" by (simp_all only: p1 p2)
  show "snd (renamedDeclarations bom pre) = recordRefs pre [] (allDeclared bom)"
    unfolding r allDeclared_def by (simp add: p4(1) sections m3 p2(1) p1(1,3) recordRefs_append)
  have vulns: "map (\<lambda>v. (vBOMRef v, vAffects v)) (fromPtr (bVulnerabilities (fst r4))) =
      map (\<lambda>v. (prefixed pre (vBOMRef v), vAffects v)) (fromPtr (bVulnerabilities bom))" using p4(3) by (simp add: r3 md' del: map_eq_conv)
  have "concat (map (\<lambda>v. refList (vBOMRef v)) (fromPtr (bVulnerabilities (fst r4)))) =
      concat (map (\<lambda>x. refList (fst x)) (map (\<lambda>v. (vBOMRef v, vAffects v)) (fromPtr (bVulnerabilities (fst r4)))))" by (simp add: o_def)
  also have "\<dots> = map (\<lambda>r. namespacedRef r pre) (concat (map (\<lambda>v. refList (vBOMRef v)) (fromPtr (bVulnerabilities bom))))"
    unfolding vulns by (simp add: map_concat o_def)
  finally show "collectKnownRefs (fst (renamedDeclarations bom pre)) = map (\<lambda>r. namespacedRef r pre) (collectKnownRefs bom)"
    using p4(2) unfolding r collectKnownRefs_parts metadata
    by (simp add: r4 r3 cs ss md' map_concat o_def del: map_eq_conv)
  have "map snd (map (\<lambda>v. (vBOMRef v, vAffects v)) (fromPtr (bVulnerabilities (fst r4)))) =
      map snd (map (\<lambda>v. (vBOMRef v, vAffects v)) (fromPtr (bVulnerabilities bom)))" unfolding vulns by (simp add: o_def)
  then have "concat (map (\<lambda>x. map affRef (fromPtr (snd x))) (map (\<lambda>v. (vBOMRef v, vAffects v)) (fromPtr (bVulnerabilities (fst r4))))) =
      concat (map (\<lambda>x. map affRef (fromPtr (snd x))) (map (\<lambda>v. (vBOMRef v, vAffects v)) (fromPtr (bVulnerabilities bom))))"
    unfolding vulns by (simp add: o_def)
  then show "bomReferences (fst (renamedDeclarations bom pre)) = bomReferences bom"
    using p4(4,5) unfolding r bomReferences_parts by (simp add: r4 r3 md' del: map_eq_conv map_map)
  show "bDependencies (fst (renamedDeclarations bom pre)) = bDependencies bom"
    "bSerialNumber (fst (renamedDeclarations bom pre)) = bSerialNumber bom" unfolding r by (simp_all add: r4 r3 md')
qed

definition renamedRef :: "BOM \<Rightarrow> string \<Rightarrow> string \<Rightarrow> string" where
  "renamedRef bom pre ref =
     (if ref \<in> set (allDeclared bom) \<or> ref \<noteq> [] \<and> ref \<noteq> bSerialNumber bom \<and> \<not> isBOMLink ref then namespacedRef ref pre else ref)"

lemma map_of_recordRefs: "map_of (recordRefs pre m refs) r = (if r \<in> set refs then Some (namespacedRef r pre) else map_of m r)"
  unfolding recordRefs_def by (induction refs arbitrary: m) auto

lemma map_of_visits:
  assumes "\<And>r t. map_of m r = Some t \<Longrightarrow> t = namespacedRef r pre"
  shows "map_of (foldl (visitReference serial pre) m refs) r =
    (if map_of m r \<noteq> None \<or> r \<in> set refs \<and> r \<noteq> [] \<and> r \<noteq> serial \<and> \<not> isBOMLink r then Some (namespacedRef r pre) else None)"
  using assms
proof (induction refs arbitrary: m)
  case Nil
  then show ?case by (cases "map_of m r") auto
next
  case (Cons x xs)
  let ?m = "visitReference serial pre m x"
  have "t = namespacedRef r pre" if "map_of ?m r = Some t" for r t
    using that Cons.prems by (auto simp: visitReference_def split: if_splits)
  from Cons.IH [OF this] show ?case by (auto simp: visitReference_def split: if_splits)
qed

lemma remap_namespaced:
  assumes "ref \<in> set (bomReferences bom)"
  shows "remapRef ref (namespaceUndeclaredReferences (fst (renamedDeclarations bom pre)) pre (snd (renamedDeclarations bom pre))) =
    renamedRef bom pre ref"
proof -
  have "map_of (foldl (visitReference (bSerialNumber bom) pre) (recordRefs pre [] (allDeclared bom)) (bomReferences bom)) ref =
      (if ref \<in> set (allDeclared bom) \<or> ref \<noteq> [] \<and> ref \<noteq> bSerialNumber bom \<and> \<not> isBOMLink ref then Some (namespacedRef ref pre) else None)"
    using assms by (subst map_of_visits) (auto simp: map_of_recordRefs split: if_splits)
  then show ?thesis by (simp add: remapRef_def namespaceUndeclaredReferences_def renamedDeclarations_parts renamedRef_def)
qed

lemma NamespaceBOMRefs_renames:
  "collectKnownRefs (NamespaceBOMRefs bom pre) = map (\<lambda>r. namespacedRef r pre) (collectKnownRefs bom)"
  "bomReferences (NamespaceBOMRefs bom pre) = map (renamedRef bom pre) (bomReferences bom)"
  by (simp_all add: NamespaceBOMRefs_alt bomReferences_RewriteRefs renamedDeclarations_parts(2,3) remap_namespaced)

section \<open>Documents apart\<close>

lemma known_declared: "set (collectKnownRefs bom) \<subseteq> set (allDeclared bom)"
  unfolding collectKnownRefs_parts allDeclared_def sectionRefs_def by auto

lemma inputPrefix_apart: "namespacedRef r (inputPrefix i) = namespacedRef s (inputPrefix j) \<longleftrightarrow> i = j \<and> r = s"
proof
  have split: "takeWhile isDigit (fmtNat n @ CHR ''/'' # t) = fmtNat n" for n t
    using fmtNat_digits(1) [of n] by (simp add: takeWhile_append2 list_all_iff isDigit_def)
  assume "namespacedRef r (inputPrefix i) = namespacedRef s (inputPrefix j)"
  then have eq: "fmtNat i @ CHR ''/'' # r = fmtNat j @ CHR ''/'' # s" by (simp add: namespacedRef_def inputPrefix_def)
  then have same: "fmtNat i = fmtNat j" using split by metis
  then have "i = j" using parseDigits_fmtNat by (metis option.inject)
  then show "i = j \<and> r = s" using eq by simp
qed simp

lemma renamed_input:
  assumes "HasPrefix (bSerialNumber bom) ''urn:''"
  shows "renamedRef bom (inputPrefix i) x = namespacedRef r (inputPrefix j) \<longleftrightarrow>
    namespacedRef x (inputPrefix i) = namespacedRef r (inputPrefix j) \<and> renamedRef bom (inputPrefix i) x \<noteq> x"
proof -
  have "x \<noteq> namespacedRef r (inputPrefix j)" if "x = [] \<or> x = bSerialNumber bom \<or> isBOMLink x"
    using that assms by (auto simp: namespacedRef_def inputPrefix_def isBOMLink_def HasPrefix_iff)
  moreover have "namespacedRef x (inputPrefix i) \<noteq> x" by (auto simp: namespacedRef_def inputPrefix_def dest: arg_cong [of _ _ length])
  ultimately show ?thesis by (auto simp: renamedRef_def)
qed

lemma edges_NamespaceBOMRefs:
  assumes "sel = depDependencies \<or> sel = depProvides"
  shows "edgesBy sel (fromPtr (bDependencies (NamespaceBOMRefs bom pre))) =
    (\<lambda>(a, b). (renamedRef bom pre a, renamedRef bom pre b)) ` edgesBy sel (fromPtr (bDependencies bom))"
proof -
  let ?m = "namespaceUndeclaredReferences (fst (renamedDeclarations bom pre)) pre (snd (renamedDeclarations bom pre))"
  have "remapRef a ?m = renamedRef bom pre a \<and> remapRef b ?m = renamedRef bom pre b"
    if edge: "(a, b) \<in> edgesBy sel (fromPtr (bDependencies bom))" for a b
  proof -
    obtain d where "d \<in> set (fromPtr (bDependencies bom))" "a = depRef d" "b \<in> set (fromPtr (sel d))"
      using edge unfolding edgesBy_def by blast
    then have "a \<in> set (bomReferences bom)" "b \<in> set (bomReferences bom)" using assms unfolding bomReferences_def by auto
    then show ?thesis by (simp add: remap_namespaced)
  qed
  then show ?thesis
    unfolding NamespaceBOMRefs_alt edgesBy_RewriteRefs [OF assms] renamedDeclarations_parts(4)
    by (intro image_cong) auto
qed

text \<open>C18: The namespaces that a merge gives to its inputs keep them apart: two inputs have no declared ref in common, and no reference
  of one, to a declared entity or to nothing, is a reference to an entity of the other. Inside an input the renaming changes
  nothing: distinct refs stay distinct, and two entities depend on each other exactly if they did before. (Serial numbers begin with
  \<open>urn:\<close>, as the specification of the documents demands.)\<close>

theorem merge_inputs_apart:
  assumes "i \<noteq> j" and "HasPrefix (bSerialNumber a) ''urn:''"
  shows "set (collectKnownRefs (NamespaceBOMRefs a (inputPrefix i))) \<inter> set (collectKnownRefs (NamespaceBOMRefs b (inputPrefix j))) = {} \<and>
    set (bomReferences (NamespaceBOMRefs a (inputPrefix i))) \<inter> set (collectKnownRefs (NamespaceBOMRefs b (inputPrefix j))) = {} \<and>
    (\<exists>\<sigma>. inj \<sigma> \<and> collectKnownRefs (NamespaceBOMRefs a (inputPrefix i)) = map \<sigma> (collectKnownRefs a) \<and>
      (\<forall>x \<in> set (collectKnownRefs a). \<forall>y \<in> set (collectKnownRefs a).
        (\<sigma> x, \<sigma> y) \<in> depEdges (NamespaceBOMRefs a (inputPrefix i)) \<longleftrightarrow> (x, y) \<in> depEdges a))"
proof -
  let ?n = "\<lambda>r. namespacedRef r (inputPrefix i)" and ?r = "renamedRef a (inputPrefix i)"
  note input = renamed_input [OF assms(2)]
  have declared: "?r x = ?n x" if "x \<in> set (collectKnownRefs a)" for x
    using that known_declared [of a] by (auto simp: renamedRef_def)
  have origin: "?r x = ?n y \<Longrightarrow> x = y" for x y using input [of i x y i] by (simp add: inputPrefix_apart)
  have "(?n x, ?n y) \<in> depEdges (NamespaceBOMRefs a (inputPrefix i)) \<longleftrightarrow> (x, y) \<in> depEdges a"
    if "x \<in> set (collectKnownRefs a)" "y \<in> set (collectKnownRefs a)" for x y
  proof -
    have "(?n x, ?n y) \<in> depEdges (NamespaceBOMRefs a (inputPrefix i)) \<longleftrightarrow> (\<exists>u v. (u, v) \<in> depEdges a \<and> ?r u = ?n x \<and> ?r v = ?n y)"
      by (subst edges_NamespaceBOMRefs) force+
    then show ?thesis using origin declared [OF that(1)] declared [OF that(2)] by blast
  qed
  moreover have "inj ?n" by (simp add: inj_def namespacedRef_def)
  moreover have "?r x \<noteq> namespacedRef y (inputPrefix j)" for x y using input [of i x y j] assms(1) by (simp add: inputPrefix_apart)
  ultimately show ?thesis using assms(1) unfolding NamespaceBOMRefs_renames
    by (intro conjI exI [of _ ?n]) (auto simp: inputPrefix_apart)
qed

theorem merge_inputs_apart_witness:
  "HasPrefix (bSerialNumber twinsDocument) ''urn:'' \<and>
   set (collectKnownRefs (NamespaceBOMRefs twinsDocument (inputPrefix 0))) \<inter> set (collectKnownRefs (NamespaceBOMRefs twinsDocument (inputPrefix 1))) = {} \<and>
   set (bomReferences (NamespaceBOMRefs twinsDocument (inputPrefix 0))) \<inter> set (collectKnownRefs (NamespaceBOMRefs twinsDocument (inputPrefix 1))) = {} \<and>
   (''merge-input-0/c'', ''merge-input-0/a'') \<in> depEdges (NamespaceBOMRefs twinsDocument (inputPrefix 0))"
proof -
  have serial: "HasPrefix (bSerialNumber twinsDocument) ''urn:''" by code_simp
  have "NamespaceBOMRefs twinsDocument (inputPrefix 0) = NamespaceBOMRefs twinsDocument ''merge-input-0''" by code_simp
  moreover have "bDependencies (NamespaceBOMRefs twinsDocument ''merge-input-0'') =
      Some [\<lparr>depRef = ''merge-input-0/c'', depDependencies = Some [''merge-input-0/a'', ''merge-input-0/b''], depProvides = None\<rparr>]" by code_simp
  ultimately have "(''merge-input-0/c'', ''merge-input-0/a'') \<in> depEdges (NamespaceBOMRefs twinsDocument (inputPrefix 0))"
    by (simp add: edgesBy_def)
  then show ?thesis using serial merge_inputs_apart [of 0 1 twinsDocument twinsDocument] by simp
qed

text \<open>Names of images as namespaces do not keep documents apart, since they may have slashes.\<close>

lemma image_namespaces_collide:
  "namespacedRef ''nginx/zlib'' ''app'' = namespacedRef ''zlib'' ''app/nginx'' \<and> ''app'' \<noteq> ''app/nginx''"
  by (simp add: namespacedRef_def)

end
