(* ===== verification/SbomMergeProps.thy ===== *)
theory SbomMergeProps
  imports SbomNamespace
begin

text \<open>
  The properties of the merge of documents: it fails exactly for documents of another version, and otherwise the result has every
  package and every service of the inputs once.
\<close>

section \<open>What the preparation of an input leaves alone\<close>

lemma map_mapState: "(\<And>x s. g (fst (f x s)) = g x) \<Longrightarrow> map g (fst (mapState f xs s)) = map g xs"
  by (induction xs arbitrary: s) (simp_all add: Let_def)

lemma map_mapPtr: "(\<And>x s. g (fst (f x s)) = g x) \<Longrightarrow> map g (fromPtr (fst (mapPtr f p s))) = map g (fromPtr p)"
  by (cases p) (simp_all add: mapPtr_def Let_def map_mapState)

lemma payload_walkNode: "payload (fst (walkNode f n s)) = fst (f (payload n) s)"
  by (cases "(f, n, s)" rule: walkNode.cases) (simp_all add: Let_def)

definition purlsOf :: "BOM \<Rightarrow> string list" where
  "purlsOf bom = map (\<lambda>n. cPackageURL (payload n)) (fromPtr (bComponents bom))"

definition servicesOf :: "BOM \<Rightarrow> string list" where
  "servicesOf bom = serviceKeys (fromPtr (bServices bom))"

lemma packageURLs_purls: "packageURLs ns = map normalizePURL (filter (\<lambda>p. p \<noteq> []) (map (\<lambda>n. cPackageURL (payload n)) ns))"
  by (induction ns) (simp_all add: packageURLs_def)

text \<open>Refs are changed, package URLs and names of services are not.\<close>

definition keepsEntries :: "BOM \<Rightarrow> BOM \<Rightarrow> bool" where
  "keepsEntries bom bom' \<longleftrightarrow> purlsOf bom' = purlsOf bom \<and> servicesOf bom' = servicesOf bom"

lemma keepsEntriesI: "bComponents bom' = bComponents bom \<Longrightarrow> bServices bom' = bServices bom \<Longrightarrow> keepsEntries bom bom'"
  by (simp add: keepsEntries_def purlsOf_def servicesOf_def)

lemma keeps_RewriteRefs: "keepsEntries bom (RewriteRefs bom m)"
  by (rule keepsEntriesI) (simp_all add: RewriteRefs_def)

lemma keeps_onTools: "keepsEntries bom (fst (onTools fc f bom s))"
  by (rule keepsEntriesI; cases "bomTools bom") (simp_all add: onTools_def mapTools_def Let_def)

lemma keeps_onSections: "keepsEntries bom (fst (onSections fc f bom s))"
  by (rule keepsEntriesI) (simp_all add: onSections_def Let_def)

lemma keeps_namespaceRoot: "keepsEntries bom (fst (namespaceRoot pre bom m))"
  by (rule keepsEntriesI; cases "bomRoot bom") (simp_all add: namespaceRoot_def mapRoot_def Let_def)

lemma keeps_onEntities: "keepsEntries bom (fst (onEntities fc f bom s))"
  unfolding keepsEntries_def purlsOf_def servicesOf_def serviceKeys_def onEntities_def walkNodes_def Let_def
  by (simp add: map_mapPtr payload_walkNode onComponent_def onService_def Let_def)

lemmas keeps_steps = keeps_RewriteRefs keeps_onTools keeps_onSections keeps_namespaceRoot keeps_onEntities

lemma keeps_NamespaceBOMRefs: "keepsEntries bom (NamespaceBOMRefs bom pre)"
  by (simp add: NamespaceBOMRefs_def Let_def keepsEntries_def keeps_steps [unfolded keepsEntries_def])

lemma keeps_ensureUniqueBOMRefs: "keepsEntries bom (ensureUniqueBOMRefs env bom)"
  by (simp add: ensureUniqueBOMRefs_def Let_def keepsEntries_def keeps_steps [unfolded keepsEntries_def])

lemma keeps_linkSelfReferences: "keepsEntries bom (linkSelfReferences bom)"
  by (simp add: linkSelfReferences_def keeps_RewriteRefs keepsEntriesI)

lemma keeps_adoptRootEdges: "keepsEntries bom (adoptRootEdges bom target)"
  by (rule keepsEntriesI) (simp_all add: adoptRootEdges_def Let_def)

section \<open>The merge\<close>

text \<open>The documents of a merge in their order, and what the loop over them gives when copies are equal to their originals.\<close>

definition mergeInputs :: "BOM option \<Rightarrow> MergeOpts \<Rightarrow> BOM list" where
  "mergeInputs target opts = concat (map (\<lambda>p. case p of None \<Rightarrow> [] | Some bom \<Rightarrow> [bom]) (mergeOrder opts target))"

lemma firstUnsupported_filter:
  "firstUnsupported ps =
     (case filter (\<lambda>bom. bSpecVersion bom \<noteq> SpecVersion1_6) (concat (map (\<lambda>p. case p of None \<Rightarrow> [] | Some bom \<Rightarrow> [bom]) ps)) of
        [] \<Rightarrow> Inr () | bom # _ \<Rightarrow> Inl (UnsupportedSpecVersion (bSpecVersion bom)))"
  by (induction ps rule: firstUnsupported.induct) simp_all

lemma prepareClone_keeps:
  assumes "\<not> IsolateComponents opts"
  shows "keepsEntries bom (prepareClone env opts target isLast i bom)"
  using assms keeps_linkSelfReferences [of bom] keeps_NamespaceBOMRefs keeps_adoptRootEdges
  by (simp add: prepareClone_def Let_def keepsEntries_def)

lemma prepareInputs_keeps:
  assumes clone: "\<And>bom. meClone env bom = Inr bom" and "\<not> IsolateComponents opts"
  shows "\<exists>boms. prepareInputs env opts target i ps = Inr boms \<and> list_all2 (rel_option keepsEntries) ps boms"
proof (induction ps arbitrary: i)
  case (Cons p ps)
  then obtain boms where "prepareInputs env opts target (i + 1) ps = Inr boms" "list_all2 (rel_option keepsEntries) ps boms" by blast
  moreover have "CloneBOM env p = Inr p" by (cases p) (simp_all add: CloneBOM_def clone)
  moreover have "rel_option keepsEntries p (map_option (prepareClone env opts target (ps = []) i) p)"
    by (cases p) (simp_all add: prepareClone_keeps [OF assms(2)])
  ultimately show ?case by simp
qed simp

lemma mergeSections_entries:
  assumes "list_all2 (rel_option keepsEntries) ps boms"
  shows "map (\<lambda>n. cPackageURL (payload n)) (fromPtr (mergeSections bComponents boms)) =
      concat (map (\<lambda>p. case p of None \<Rightarrow> [] | Some bom \<Rightarrow> purlsOf bom) ps)"
    and "serviceKeys (fromPtr (mergeSections bServices boms)) =
      concat (map (\<lambda>p. case p of None \<Rightarrow> [] | Some bom \<Rightarrow> servicesOf bom) ps)"
  using assms
proof (induction rule: list_all2_induct)
  case (Cons p ps q boms)
  {
    case 1
    then show ?case using Cons by (cases p; cases q) (simp_all add: mergeSections_def keepsEntries_def purlsOf_def)
  next
    case 2
    then show ?case using Cons by (cases p; cases q) (simp_all add: mergeSections_def keepsEntries_def servicesOf_def serviceKeys_def)
  }
qed (simp_all add: mergeSections_def serviceKeys_def)

text \<open>C16: A merge is refused exactly if one of the documents has another version of the specification, with the version of the first
  such document. Otherwise it returns a document that has exactly one component at the top level for every package URL, without
  regard to package ids, of the components of the inputs, and exactly one service for every key (group, name and version
  joined with bars) of the services of the inputs; if no part of these services contains a bar, this is one for every triple of group,
  name and version. This is for the merge of components, which can be switched off; a copy made through JSON is taken to equal its
  original.\<close>

theorem merge_has_packages_once:
  assumes "\<And>bom. meClone env bom = Inr bom" and "\<not> IsolateComponents opts"
  shows "case filter (\<lambda>bom. bSpecVersion bom \<noteq> SpecVersion1_6) (mergeInputs target opts) of
      bom # _ \<Rightarrow> MergeBOMs env target opts = Inl (UnsupportedSpecVersion (bSpecVersion bom))
    | [] \<Rightarrow> \<exists>r. MergeBOMs env target opts = Inr r \<and>
        distinct (packageURLs (fromPtr (bComponents r))) \<and>
        set (packageURLs (fromPtr (bComponents r))) = (\<Union>bom \<in> set (mergeInputs target opts). set (packageURLs (fromPtr (bComponents bom)))) \<and>
        distinct (serviceKeys (fromPtr (bServices r))) \<and>
        set (serviceKeys (fromPtr (bServices r))) = (\<Union>bom \<in> set (mergeInputs target opts). set (serviceKeys (fromPtr (bServices bom)))) \<and>
        (list_all barFree (concat (map (\<lambda>bom. fromPtr (bServices bom)) (mergeInputs target opts))) \<longrightarrow>
          distinct (map serviceTriple (fromPtr (bServices r))) \<and>
          set (map serviceTriple (fromPtr (bServices r))) =
            (\<Union>bom \<in> set (mergeInputs target opts). set (map serviceTriple (fromPtr (bServices bom)))))"
proof (cases "filter (\<lambda>bom. bSpecVersion bom \<noteq> SpecVersion1_6) (mergeInputs target opts)")
  case Nil
  then have versions: "validateBOMSpecVersions target opts = Inr ()"
    by (simp add: validateBOMSpecVersions_def firstUnsupported_filter mergeInputs_def)
  obtain boms where boms: "prepareInputs env opts target 0 (mergeOrder opts target) = Inr boms"
    "list_all2 (rel_option keepsEntries) (mergeOrder opts target) boms" using prepareInputs_keeps [OF assms] by blast
  define joined where "joined = joinBOMs env boms"
  define canonical where "canonical = Canonicalize (meSchema env) joined"
  define r where "r = (if \<not> PreserveBOMRefs opts then ensureUniqueBOMRefs (meRefs env) canonical else canonical)"
  have made: "MergeBOMs env target opts = Inr r"
    using versions boms(1) assms(2) by (simp add: MergeBOMs_def Let_def r_def canonical_def joined_def)
  have "keepsEntries canonical r" by (simp add: r_def keeps_ensureUniqueBOMRefs keepsEntriesI)
  then have r: "packageURLs (fromPtr (bComponents r)) = packageURLs (fromPtr (bComponents canonical))"
    "serviceKeys (fromPtr (bServices r)) = serviceKeys (fromPtr (bServices canonical))"
    by (simp_all add: keepsEntries_def packageURLs_purls purlsOf_def servicesOf_def)
  have "bComponents joined = mergeSections bComponents boms" "bServices joined = mergeSections bServices boms"
    by (simp_all add: joined_def joinBOMs_def)
  then have "set (packageURLs (fromPtr (bComponents joined))) = (\<Union>bom \<in> set (mergeInputs target opts). set (packageURLs (fromPtr (bComponents bom))))"
    "set (serviceKeys (fromPtr (bServices joined))) = (\<Union>bom \<in> set (mergeInputs target opts). set (serviceKeys (fromPtr (bServices bom))))"
    using mergeSections_entries [OF boms(2)]
    by (auto simp: packageURLs_purls purlsOf_def servicesOf_def mergeInputs_def split: option.splits)
  note entries = Canonicalize_one_entry [of "meSchema env" joined, folded canonical_def] r this
  let ?services = "concat (map (\<lambda>bom. fromPtr (bServices bom)) (mergeInputs target opts))"
  have "set (serviceKeys ?services) = (\<Union>bom \<in> set (mergeInputs target opts). set (serviceKeys (fromPtr (bServices bom))))"
    unfolding serviceKeys_def by (simp only: set_map set_concat image_Union image_image)
  then have "list_all barFree ?services \<longrightarrow> distinct (map serviceTriple (fromPtr (bServices r))) \<and>
      set (map serviceTriple (fromPtr (bServices r))) = set (map serviceTriple ?services)"
    using barFree_services [of ?services "fromPtr (bServices r)"] entries by metis
  then have triples: "list_all barFree ?services \<longrightarrow> distinct (map serviceTriple (fromPtr (bServices r))) \<and>
      set (map serviceTriple (fromPtr (bServices r))) = (\<Union>bom \<in> set (mergeInputs target opts). set (map serviceTriple (fromPtr (bServices bom))))"
    by auto
  have keys: "distinct (packageURLs (fromPtr (bComponents r)))" "distinct (serviceKeys (fromPtr (bServices r)))"
    "set (packageURLs (fromPtr (bComponents r))) = (\<Union>bom \<in> set (mergeInputs target opts). set (packageURLs (fromPtr (bComponents bom))))"
    "set (serviceKeys (fromPtr (bServices r))) = (\<Union>bom \<in> set (mergeInputs target opts). set (serviceKeys (fromPtr (bServices bom))))"
    using entries by simp_all
  show ?thesis unfolding Nil list.case using made keys triples by (intro exI [of _ r]) blast
qed (simp add: MergeBOMs_def validateBOMSpecVersions_def firstUnsupported_filter mergeInputs_def)

text \<open>Two documents with a package in common, apart from its package id.\<close>

definition plainMergeEnv :: mergeEnv where
  "plainMergeEnv =
     \<lparr>meRefs = \<lparr>sha256Hex = (\<lambda>s. s), purlFromString = (\<lambda>s. None), purlToString = purlRest\<rparr>, meSchema = None,
      meClone = Inr, meJSON = (\<lambda>bom. None), meHash = (\<lambda>s. s), meUUID = ''9''\<rparr>"

definition packageDocument :: "string list \<Rightarrow> BOM" where
  "packageDocument purls = (NewBOM ''2'')
     \<lparr>bComponents := Some (map (\<lambda>purl. Node ((newComponent ''library'' ''lib'' ''1'')\<lparr>cBOMRef := ''r'', cPackageURL := purl\<rparr>) None) purls)\<rparr>"

theorem merge_has_packages_once_witness:
  "\<exists>r. MergeBOMs plainMergeEnv (Some (packageDocument [''pkg:deb/zlib?package-id=1'', ''pkg:deb/bash'']))
        \<lparr>BaseBOM = Some (packageDocument [''pkg:deb/zlib?package-id=2'']), ImportBOMs = [], Gost = DefaultConfig,
         PreserveBOMRefs = False, IsolateComponents = False\<rparr> = Inr r \<and>
      distinct (packageURLs (fromPtr (bComponents r))) \<and> set (packageURLs (fromPtr (bComponents r))) = {''pkg:deb/zlib'', ''pkg:deb/bash''}"
proof -
  let ?opts = "\<lparr>BaseBOM = Some (packageDocument [''pkg:deb/zlib?package-id=2'']), ImportBOMs = [], Gost = DefaultConfig,
    PreserveBOMRefs = False, IsolateComponents = False\<rparr>"
  let ?target = "Some (packageDocument [''pkg:deb/zlib?package-id=1'', ''pkg:deb/bash''])"
  have inputs: "mergeInputs ?target ?opts =
      [packageDocument [''pkg:deb/zlib?package-id=2''], packageDocument [''pkg:deb/zlib?package-id=1'', ''pkg:deb/bash'']]"
    by (simp add: mergeInputs_def mergeOrder_def)
  have version: "bSpecVersion (packageDocument purls) = SpecVersion1_6" for purls by (simp add: packageDocument_def NewBOM_def)
  have purls: "packageURLs (fromPtr (bComponents (packageDocument [''pkg:deb/zlib?package-id=2'']))) = [''pkg:deb/zlib'']"
    "packageURLs (fromPtr (bComponents (packageDocument [''pkg:deb/zlib?package-id=1'', ''pkg:deb/bash'']))) = [''pkg:deb/zlib'', ''pkg:deb/bash'']"
    by code_simp+
  have "meClone plainMergeEnv bom = Inr bom" for bom by (simp add: plainMergeEnv_def)
  from merge_has_packages_once [OF this, of ?opts ?target] show ?thesis by (auto simp: inputs version purls)
qed

section \<open>Adopted edges\<close>

text \<open>The edges that an input takes over to the root of the target are lost when the components of the inputs are kept apart: the
  input is made canonical after them, and it does not declare the root of the target.\<close>

definition rootedDocument :: "string \<Rightarrow> string list \<Rightarrow> BOM" where
  "rootedDocument root deps = (NewBOM ''3'')
     \<lparr>bMetadata := Some \<lparr>mdTimestamp = [], mdTools = Some \<lparr>tcTools = None,
          tcComponents = Some [Node (newComponent ComponentTypeApplication werfToolName ''1'') None], tcServices = None\<rparr>,
        mdComponent = Some (Node ((newComponent ComponentTypeApplication root ''1'')\<lparr>cBOMRef := root\<rparr>) None), mdLicenses = None, mdRest = []\<rparr>,
      bComponents := Some (map (\<lambda>r. Node ((newComponent ComponentTypeLibrary r ''1'')\<lparr>cBOMRef := r\<rparr>) None) deps),
      bDependencies := Some [\<lparr>depRef = root, depDependencies = Some deps, depProvides = None\<rparr>]\<rparr>"

lemma known_adoptRootEdges [simp]: "collectKnownRefs (adoptRootEdges bom target) = collectKnownRefs bom"
  by (simp add: adoptRootEdges_def Let_def collectKnownRefs_def bomRoot_def bomTools_def)

lemma known_linkSelfReferences: "set (collectKnownRefs (linkSelfReferences bom)) = set (collectKnownRefs bom)"
  by (simp add: linkSelfReferences_def known_RewriteRefs)

lemma isolation_drops_adopted_edges:
  assumes "IsolateComponents opts" "PreserveBOMRefs opts" "collectKnownRefs input \<noteq> []" "t \<notin> set (collectKnownRefs input)"
  shows "(t, y) \<notin> depEdges (prepareClone env opts target False i input)"
proof -
  let ?b = "adoptRootEdges (linkSelfReferences input) target"
  have known: "set (collectKnownRefs ?b) = set (collectKnownRefs input)" by (simp add: known_linkSelfReferences)
  then have nonempty: "collectKnownRefs ?b \<noteq> []" using assms(3) by (metis set_empty)
  have "prepareClone env opts target False i input = Canonicalize (meSchema env) ?b" using assms(1,2) by (simp add: prepareClone_def Let_def)
  moreover have "t \<noteq> canonicalRef (meSchema env) ?b a" if "a \<in> set (collectKnownRefs ?b)" for a
    using canonicalRef_known [OF that] known_shrinks [of "meSchema env" ?b] assms(4) known by blast
  ultimately show ?thesis by (auto simp: edges_Canonicalize [OF nonempty])
qed

lemma adopted_edges_exist:
  "bDependencies (adoptRootEdges (rootedDocument ''base'' [''y'']) (Some (rootedDocument ''app'' [''x'']))) =
     Some [\<lparr>depRef = ''app'', depDependencies = Some [''y''], depProvides = None\<rparr>] \<and>
   collectKnownRefs (rootedDocument ''base'' [''y'']) = [''base'', ''y'']"
  by code_simp

end
