(* ===== verification/SbomSccProps.thy ===== *)
theory SbomSccProps
  imports SbomScc
begin

text \<open>
  The correctness of the labels of \<^verbatim>\<open>stronglyConnectedComponents\<close>. A state is described relative to the nodes \<open>G\<close> whose visit
  has begun and not ended; the visits change nothing of the state below the stack they find.
\<close>

section \<open>States\<close>

definition edgeRel :: "adjacency \<Rightarrow> (string \<times> string) set" where
  "edgeRel edges = {(x, y). y \<in> set (sliceAt edges x)}"

definition mutual :: "adjacency \<Rightarrow> string \<Rightarrow> string \<Rightarrow> bool" where
  "mutual edges x y \<longleftrightarrow> (x, y) \<in> (edgeRel edges)\<^sup>* \<and> (y, x) \<in> (edgeRel edges)\<^sup>*"

abbreviation discovered :: "tarjan \<Rightarrow> string set" where
  "discovered t \<equiv> keys (tIndex t)"

abbreviation onStack :: "tarjan \<Rightarrow> string set" where
  "onStack t \<equiv> set (tStack t)"

abbreviation idx :: "tarjan \<Rightarrow> string \<Rightarrow> nat" where
  "idx t v \<equiv> numberAt (tIndex t) v"

abbreviation low :: "tarjan \<Rightarrow> string \<Rightarrow> nat" where
  "low t v \<equiv> numberAt (tLowlink t) v"

abbreviation numbered :: "tarjan \<Rightarrow> string set" where
  "numbered t \<equiv> keys (tComponentOf t)"

text \<open>The stack has the seen nodes without a label, the latest on top.\<close>

definition stackOK :: "tarjan \<Rightarrow> bool" where
  "stackOK t \<longleftrightarrow> onStack t \<subseteq> discovered t \<and> (\<forall>v. boolAt (tOnStack t) v \<longleftrightarrow> v \<in> onStack t) \<and>
     sorted_wrt (\<lambda>x y. idx t y < idx t x) (tStack t) \<and> (\<forall>v \<in> discovered t. idx t v < tNextIndex t) \<and>
     numbered t = discovered t - onStack t"

text \<open>Every node of the stack reaches those above it and an open node below it.\<close>

definition pathsOK :: "adjacency \<Rightarrow> string set \<Rightarrow> tarjan \<Rightarrow> bool" where
  "pathsOK edges G t \<longleftrightarrow> G \<subseteq> onStack t \<and>
     (\<forall>x \<in> discovered t - G. \<forall>y. (x, y) \<in> edgeRel edges \<longrightarrow> y \<in> discovered t) \<and>
     (\<forall>x \<in> onStack t. \<forall>y \<in> onStack t. idx t x \<le> idx t y \<longrightarrow> (x, y) \<in> (edgeRel edges)\<^sup>*) \<and>
     (\<forall>y \<in> onStack t. \<exists>g \<in> G. idx t g \<le> idx t y \<and> (y, g) \<in> (edgeRel edges)\<^sup>*)"

text \<open>The labelled nodes are closed under edges, and the labels are right.\<close>

definition labelsOK :: "adjacency \<Rightarrow> tarjan \<Rightarrow> bool" where
  "labelsOK edges t \<longleftrightarrow> (\<forall>x \<in> numbered t. \<forall>y. (x, y) \<in> edgeRel edges \<longrightarrow> y \<in> numbered t) \<and>
     (\<forall>x \<in> numbered t. numberAt (tComponentOf t) x < tNextComponent t) \<and>
     (\<forall>x \<in> numbered t. \<forall>y \<in> numbered t. numberAt (tComponentOf t) x = numberAt (tComponentOf t) y \<longleftrightarrow> mutual edges x y)"

definition sccInv :: "adjacency \<Rightarrow> string set \<Rightarrow> tarjan \<Rightarrow> bool" where
  "sccInv edges G t \<longleftrightarrow> stackOK t \<and> pathsOK edges G t \<and> labelsOK edges t"

lemmas scc_defs = sccInv_def stackOK_def pathsOK_def labelsOK_def

lemma sccInvD:
  assumes "sccInv edges G t"
  shows "onStack t \<subseteq> discovered t" "boolAt (tOnStack t) v \<longleftrightarrow> v \<in> onStack t" "sorted_wrt (\<lambda>x y. idx t y < idx t x) (tStack t)"
    "v \<in> discovered t \<Longrightarrow> idx t v < tNextIndex t" "numbered t = discovered t - onStack t" "G \<subseteq> onStack t"
    "x \<in> discovered t \<Longrightarrow> x \<notin> G \<Longrightarrow> (x, y) \<in> edgeRel edges \<Longrightarrow> y \<in> discovered t"
    "x \<in> onStack t \<Longrightarrow> y \<in> onStack t \<Longrightarrow> idx t x \<le> idx t y \<Longrightarrow> (x, y) \<in> (edgeRel edges)\<^sup>*"
    "y \<in> onStack t \<Longrightarrow> \<exists>g \<in> G. idx t g \<le> idx t y \<and> (y, g) \<in> (edgeRel edges)\<^sup>*"
    "x \<in> numbered t \<Longrightarrow> (x, y) \<in> edgeRel edges \<Longrightarrow> y \<in> numbered t"
    "x \<in> numbered t \<Longrightarrow> numberAt (tComponentOf t) x < tNextComponent t"
    "x \<in> numbered t \<Longrightarrow> y \<in> numbered t \<Longrightarrow> numberAt (tComponentOf t) x = numberAt (tComponentOf t) y \<longleftrightarrow> mutual edges x y"
  using assms unfolding scc_defs by blast+

lemma pathsOKI:
  assumes "G \<subseteq> onStack t" "\<And>x y. x \<in> discovered t \<Longrightarrow> x \<notin> G \<Longrightarrow> (x, y) \<in> edgeRel edges \<Longrightarrow> y \<in> discovered t"
    "\<And>x y. x \<in> onStack t \<Longrightarrow> y \<in> onStack t \<Longrightarrow> idx t x \<le> idx t y \<Longrightarrow> (x, y) \<in> (edgeRel edges)\<^sup>*"
    "\<And>y. y \<in> onStack t \<Longrightarrow> \<exists>g \<in> G. idx t g \<le> idx t y \<and> (y, g) \<in> (edgeRel edges)\<^sup>*"
  shows "pathsOK edges G t"
  unfolding pathsOK_def using assms by blast

lemma sccInv_lowerLink [simp]: "sccInv edges G (lowerLink node b t) \<longleftrightarrow> sccInv edges G t"
  by (simp add: scc_defs)

lemma numberAt_update [simp]: "numberAt (AList.update k v m) k' = (if k' = k then v else numberAt m k')"
  by (simp add: numberAt_def update_conv')

lemma boolAt_update [simp]: "boolAt (AList.update k v m) k' = (if k' = k then v else boolAt m k')"
  by (simp add: boolAt_def update_conv')

lemma low_lowerLink: "low (lowerLink node b t) v = (if v = node then min (low t node) b else low t v)"
  by (simp add: lowerLink_def)

lemma pushNode_simps [simp]: "tStack (pushNode x t) = x # tStack t" "tComponentOf (pushNode x t) = tComponentOf t"
  "tNextIndex (pushNode x t) = Suc (tNextIndex t)" "tNextComponent (pushNode x t) = tNextComponent t" "tPanic (pushNode x t) = tPanic t"
  "idx (pushNode x t) v = (if v = x then tNextIndex t else idx t v)" "low (pushNode x t) v = (if v = x then tNextIndex t else low t v)"
  "boolAt (tOnStack (pushNode x t)) v = (v = x \<or> boolAt (tOnStack t) v)" "discovered (pushNode x t) = insert x (discovered t)"
  by (auto simp: pushNode_def update_conv')

lemma sorted_by_cong: "(\<And>v. v \<in> set s \<Longrightarrow> f v = g v) \<Longrightarrow> sorted_wrt (\<lambda>x y. f y < f x) s \<longleftrightarrow> sorted_wrt (\<lambda>x y. g y < (g x :: nat)) s"
  by (induction s) auto

lemma closed_rtrancl: "(x, y) \<in> r\<^sup>* \<Longrightarrow> x \<in> A \<Longrightarrow> (\<And>a b. a \<in> A \<Longrightarrow> (a, b) \<in> r \<Longrightarrow> b \<in> A) \<Longrightarrow> y \<in> A"
  by (induction rule: rtrancl_induct) blast+

section \<open>Beginning a visit\<close>

lemma push_ok:
  assumes inv: "sccInv edges G t" and x: "x \<notin> discovered t" and reach: "\<And>g. g \<in> G \<Longrightarrow> (g, x) \<in> (edgeRel edges)\<^sup>*"
  shows "sccInv edges (insert x G) (pushNode x t)"
proof -
  note d = sccInvD [OF inv]
  have fresh: "x \<notin> onStack t" "x \<notin> numbered t" using d(1,5) x by auto
  have below: "idx t y < tNextIndex t" if "y \<in> onStack t" for y using d(1,4) that by blast
  have "sorted_wrt (\<lambda>y z. idx (pushNode x t) z < idx (pushNode x t) y) (tStack t) \<longleftrightarrow> sorted_wrt (\<lambda>y z. idx t z < idx t y) (tStack t)"
    using fresh by (intro sorted_by_cong) auto
  then have "stackOK (pushNode x t)"
    using d(1-5) x fresh below unfolding stackOK_def by (auto simp: less_Suc_eq)
  moreover have "labelsOK edges (pushNode x t)" using inv unfolding sccInv_def labelsOK_def by simp
  moreover have "pathsOK edges (insert x G) (pushNode x t)"
  proof (rule pathsOKI)
    have up: "(y, x) \<in> (edgeRel edges)\<^sup>*" if "y \<in> onStack t" for y using d(9) [OF that] reach by (meson rtrancl_trans)
    show "insert x G \<subseteq> onStack (pushNode x t)" using d(6) by auto
    show "z \<in> discovered (pushNode x t)" if "y \<in> discovered (pushNode x t)" "y \<notin> insert x G" "(y, z) \<in> edgeRel edges" for y z
      using that d(7) [of y z] by simp
    show "(y, z) \<in> (edgeRel edges)\<^sup>*"
      if "y \<in> onStack (pushNode x t)" "z \<in> onStack (pushNode x t)" "idx (pushNode x t) y \<le> idx (pushNode x t) z" for y z
      using that up [of y] d(8) [of y z] below [of z] fresh by (auto split: if_splits)
    show "\<exists>g \<in> insert x G. idx (pushNode x t) g \<le> idx (pushNode x t) y \<and> (y, g) \<in> (edgeRel edges)\<^sup>*" if "y \<in> onStack (pushNode x t)" for y
      using that d(6) d(9) [of y] fresh by (cases "y = x") (auto simp: subset_iff)
  qed
  ultimately show ?thesis by (simp add: sccInv_def)
qed

section \<open>Ending a visit\<close>

lemma popLoop_ok:
  assumes "x \<notin> set new"
  shows "tStack (popLoop x (new @ x # s) t) = s" "tPanic (popLoop x (new @ x # s) t) = tPanic t"
    "boolAt (tOnStack (popLoop x (new @ x # s) t)) v \<longleftrightarrow> v \<notin> insert x (set new) \<and> boolAt (tOnStack t) v"
    "numberAt (tComponentOf (popLoop x (new @ x # s) t)) v =
      (if v \<in> insert x (set new) then tNextComponent t else numberAt (tComponentOf t) v)"
    "numbered (popLoop x (new @ x # s) t) = numbered t \<union> insert x (set new)"
  using assms by (induction new arbitrary: t) (auto simp: Let_def)

text \<open>The visit of \<open>x\<close> ends with all nodes after it on the stack finished. What it found below it on the stack is unchanged.\<close>

definition ending :: "adjacency \<Rightarrow> string set \<Rightarrow> string \<Rightarrow> string list \<Rightarrow> string list \<Rightarrow> tarjan \<Rightarrow> bool" where
  "ending edges G x new s t \<longleftrightarrow> sccInv edges (insert x G) t \<and> tStack t = new @ x # s \<and> G \<subseteq> set s \<and>
     (\<forall>y \<in> set s. \<exists>g \<in> G. idx t g \<le> idx t y \<and> (y, g) \<in> (edgeRel edges)\<^sup>*) \<and>
     (\<forall>y. (x, y) \<in> edgeRel edges \<longrightarrow> y \<in> discovered t)"

lemma endingD:
  assumes "ending edges G x new s t"
  shows "sccInv edges (insert x G) t" "tStack t = new @ x # s" "G \<subseteq> set s"
    "y \<in> set s \<Longrightarrow> \<exists>g \<in> G. idx t g \<le> idx t y \<and> (y, g) \<in> (edgeRel edges)\<^sup>*" "(x, y) \<in> edgeRel edges \<Longrightarrow> y \<in> discovered t"
  using assms unfolding ending_def by blast+

lemma ending_order:
  assumes "ending edges G x new s t"
  shows "b \<in> set s \<Longrightarrow> idx t b < idx t x" and "a \<in> set new \<Longrightarrow> idx t x < idx t a" and "x \<notin> set new" and "set s \<inter> insert x (set new) = {}"
proof -
  have order: "sorted_wrt (\<lambda>y z. idx t z < idx t y) (new @ x # s)" using sccInvD(3) [OF endingD(1) [OF assms]] endingD(2) [OF assms] by simp
  then show "b \<in> set s \<Longrightarrow> idx t b < idx t x" "a \<in> set new \<Longrightarrow> idx t x < idx t a" by (auto simp: sorted_wrt_append)
  show "x \<notin> set new" "set s \<inter> insert x (set new) = {}" using order by (fastforce simp: sorted_wrt_append)+
qed

lemma ending_succ:
  assumes e: "ending edges G x new s t" and a: "a \<in> insert x (set new)" and edge: "(a, b) \<in> edgeRel edges"
  shows "b \<in> insert x (set new) \<union> set s \<union> numbered t"
proof -
  note d = sccInvD [OF endingD(1) [OF e]]
  have "a \<in> discovered t" using a d(1) endingD(2) [OF e] by auto
  moreover have "a \<notin> G" using a endingD(3) [OF e] ending_order(4) [OF e] by auto
  ultimately have "b \<in> discovered t" using d(7) [of a b] endingD(5) [OF e, of b] edge by auto
  then show ?thesis using d(5) endingD(2) [OF e] by auto
qed

lemma stay_ok:
  assumes e: "ending edges G x new s t" and y: "y \<in> set s" "(x, y) \<in> (edgeRel edges)\<^sup>*"
  shows "sccInv edges G t"
proof -
  note d = sccInvD [OF endingD(1) [OF e]]
  obtain g where g: "g \<in> G" "idx t g \<le> idx t y" "(x, g) \<in> (edgeRel edges)\<^sup>*"
    using endingD(4) [OF e y(1)] y(2) by (meson rtrancl_trans)
  then have less: "idx t g < idx t x" using ending_order(1) [OF e y(1)] by simp
  have "pathsOK edges G t"
  proof (rule pathsOKI)
    show "G \<subseteq> onStack t" using d(6) by simp
    show "b \<in> discovered t" if "a \<in> discovered t" "a \<notin> G" "(a, b) \<in> edgeRel edges" for a b
      using that d(7) [of a b] endingD(5) [OF e, of b] by blast
    show "\<exists>h \<in> G. idx t h \<le> idx t z \<and> (z, h) \<in> (edgeRel edges)\<^sup>*" if z: "z \<in> onStack t" for z
    proof -
      obtain h where h: "h \<in> insert x G" "idx t h \<le> idx t z" "(z, h) \<in> (edgeRel edges)\<^sup>*" using d(9) [OF z] by blast
      show ?thesis
      proof (cases "h = x")
        case True
        then show ?thesis using h g less by (intro bexI [of _ g]) (auto intro: rtrancl_trans)
      qed (use h in blast)
    qed
  qed (rule d(8))
  then show ?thesis using endingD(1) [OF e] unfolding sccInv_def by blast
qed

text \<open>If no edge leads from the finished nodes down the stack, they are a component.\<close>

lemma component_mutual:
  assumes e: "ending edges G x new s t" and isolated: "\<And>a b. a \<in> insert x (set new) \<Longrightarrow> b \<in> set s \<Longrightarrow> (a, b) \<notin> edgeRel edges"
    and a: "a \<in> insert x (set new)"
  shows "mutual edges x a"
proof -
  note d = sccInvD [OF endingD(1) [OF e]]
  have stack: "onStack t = insert x (set new) \<union> set s" using endingD(2) [OF e] by auto
  have "idx t x \<le> idx t a" using a ending_order(2) [OF e, of a] by auto
  then have up: "(x, a) \<in> (edgeRel edges)\<^sup>*" using d(8) [of x a] a stack by auto
  obtain g where g: "g \<in> insert x G" "(a, g) \<in> (edgeRel edges)\<^sup>*" using d(9) [of a] a stack by auto
  have "g \<in> insert x (set new) \<union> numbered t"
    using closed_rtrancl [OF g(2), of "insert x (set new) \<union> numbered t"] a ending_succ [OF e] isolated d(10) by blast
  moreover have "g \<notin> numbered t" using d(5,6) g(1) by auto
  ultimately have "g = x" using g(1) endingD(3) [OF e] ending_order(4) [OF e] by auto
  then show ?thesis using up g(2) by (simp add: mutual_def)
qed

lemma mutual_trans: "mutual edges x y \<Longrightarrow> mutual edges x z \<Longrightarrow> mutual edges y z"
  unfolding mutual_def by (meson rtrancl_trans)

lemma pop_labels:
  assumes e: "ending edges G x new s t" and isolated: "\<And>a b. a \<in> insert x (set new) \<Longrightarrow> b \<in> set s \<Longrightarrow> (a, b) \<notin> edgeRel edges"
  shows "labelsOK edges (popComponent x t)"
proof -
  note d = sccInvD [OF endingD(1) [OF e]]
  let ?P = "insert x (set new)" and ?r = "popComponent x t"
  note pop = popLoop_ok [OF ending_order(3) [OF e], of s t]
  have labels: "numbered ?r = numbered t \<union> ?P" "numberAt (tComponentOf ?r) v = (if v \<in> ?P then tNextComponent t else numberAt (tComponentOf t) v)"
    "tNextComponent ?r = Suc (tNextComponent t)" for v
    using pop(4) [of v] pop(5) endingD(2) [OF e] by (simp_all add: popComponent_def Let_def)
  have apart: "numbered t \<inter> ?P = {}" using d(5) endingD(2) [OF e] by auto
  have old: "v \<in> numbered t" if "u \<in> numbered t" "mutual edges u v \<or> mutual edges v u" for u v
    using that d(10) closed_rtrancl [of u v "edgeRel edges" "numbered t"] unfolding mutual_def by blast
  note new = component_mutual [OF e isolated]
  have "(if u \<in> ?P then tNextComponent t else numberAt (tComponentOf t) u) = (if v \<in> ?P then tNextComponent t else numberAt (tComponentOf t) v)
      \<longleftrightarrow> mutual edges u v" if "u \<in> numbered t \<union> ?P" "v \<in> numbered t \<union> ?P" for u v
  proof (cases "u \<in> ?P")
    case True
    show ?thesis
    proof (cases "v \<in> ?P")
      case v: True
      then show ?thesis using True mutual_trans [OF new new] by simp
    next
      case False
      then have "v \<in> numbered t" using that(2) by blast
      then show ?thesis using True False d(11) [of v] old [of v u] apart by auto
    qed
  next
    case False
    then have u: "u \<in> numbered t" using that(1) by blast
    show ?thesis
    proof (cases "v \<in> ?P")
      case True
      then show ?thesis using False u d(11) [of u] old [of u v] apart by auto
    next
      case v: False
      then show ?thesis using False u that(2) d(12) [of u v] by simp
    qed
  qed
  moreover have "v \<in> numbered t \<union> ?P" if "u \<in> numbered t \<union> ?P" "(u, v) \<in> edgeRel edges" for u v
    using that d(10) [of u v] ending_succ [OF e, of u v] isolated [of u v] by blast
  moreover have "(if u \<in> ?P then tNextComponent t else numberAt (tComponentOf t) u) < Suc (tNextComponent t)" if "u \<in> numbered t \<union> ?P" for u
    using that d(11) [of u] by auto
  ultimately show ?thesis unfolding labelsOK_def labels by blast
qed

lemma pop_ok:
  assumes e: "ending edges G x new s t" and isolated: "\<And>a b. a \<in> insert x (set new) \<Longrightarrow> b \<in> set s \<Longrightarrow> (a, b) \<notin> edgeRel edges"
  shows "sccInv edges G (popComponent x t)" and "tStack (popComponent x t) = s" and "tPanic (popComponent x t) = tPanic t"
proof -
  note d = sccInvD [OF endingD(1) [OF e]]
  let ?P = "insert x (set new)" and ?r = "popComponent x t"
  note pop = popLoop_ok [OF ending_order(3) [OF e], of s t]
  have r: "tStack ?r = s" "tPanic ?r = tPanic t" "numbered ?r = numbered t \<union> ?P"
    "boolAt (tOnStack ?r) v \<longleftrightarrow> v \<notin> ?P \<and> boolAt (tOnStack t) v" for v
    using pop(1,2,5) pop(3) [of v] endingD(2) [OF e] by (simp_all add: popComponent_def Let_def)
  show "tStack ?r = s" "tPanic ?r = tPanic t" by (rule r)+
  have "stackOK ?r" unfolding stackOK_def r index_popComponent
    using d(1-5) endingD(2) [OF e] ending_order(3,4) [OF e] by (auto simp: sorted_wrt_append)
  moreover have "pathsOK edges G ?r"
  proof (rule pathsOKI)
    show "G \<subseteq> onStack ?r" using endingD(3) [OF e] r(1) by simp
    show "b \<in> discovered ?r" if "a \<in> discovered ?r" "a \<notin> G" "(a, b) \<in> edgeRel edges" for a b
      using that d(7) [of a b] endingD(5) [OF e, of b] by (simp, blast)
    show "(a, b) \<in> (edgeRel edges)\<^sup>*" if "a \<in> onStack ?r" "b \<in> onStack ?r" "idx ?r a \<le> idx ?r b" for a b
      using that d(8) [of a b] endingD(2) [OF e] r(1) by simp
    show "\<exists>g \<in> G. idx ?r g \<le> idx ?r y \<and> (y, g) \<in> (edgeRel edges)\<^sup>*" if "y \<in> onStack ?r" for y
      using that endingD(4) [OF e, of y] r(1) by simp
  qed
  ultimately show "sccInv edges G ?r" using pop_labels [OF e isolated] unfolding sccInv_def by blast
qed

section \<open>Visits\<close>

text \<open>What a visit does to the state it finds: it puts new nodes on the stack, and changes numbers of seen nodes only for those in \<open>X\<close>.\<close>

definition growsTo :: "string set \<Rightarrow> string list \<Rightarrow> tarjan \<Rightarrow> tarjan \<Rightarrow> bool" where
  "growsTo X new t t' \<longleftrightarrow> tStack t' = new @ tStack t \<and> discovered t \<subseteq> discovered t' \<and> tPanic t' = tPanic t \<and>
     (\<forall>v \<in> discovered t. idx t' v = idx t v) \<and> (\<forall>v \<in> discovered t - X. low t' v = low t v)"

lemma growsTo_refl: "growsTo X [] t t"
  by (simp add: growsTo_def)

lemma growsTo_trans: "growsTo X new t t' \<Longrightarrow> growsTo X new' t' t'' \<Longrightarrow> growsTo X (new' @ new) t t''"
  unfolding growsTo_def by auto

lemma growsTo_mono: "growsTo X new t t' \<Longrightarrow> X \<subseteq> Y \<Longrightarrow> growsTo Y new t t'"
  unfolding growsTo_def by auto

lemma growsTo_lowerLink: "growsTo {x} [] t (lowerLink x b t)"
  by (simp add: growsTo_def low_lowerLink)

text \<open>Edges from new nodes to old nodes of the stack are counted in the link.\<close>

definition counted :: "adjacency \<Rightarrow> tarjan \<Rightarrow> string set \<Rightarrow> string set \<Rightarrow> nat \<Rightarrow> bool" where
  "counted edges t A B bound \<longleftrightarrow> (\<forall>a \<in> A. \<forall>b \<in> B. (a, b) \<in> edgeRel edges \<longrightarrow> bound \<le> idx t b)"

definition linked :: "adjacency \<Rightarrow> tarjan \<Rightarrow> string \<Rightarrow> nat \<Rightarrow> bool" where
  "linked edges t x n \<longleftrightarrow> (\<exists>y \<in> onStack t. idx t y = n \<and> (x, y) \<in> (edgeRel edges)\<^sup>*)"

definition visitPost :: "adjacency \<Rightarrow> string set \<Rightarrow> string \<Rightarrow> tarjan \<Rightarrow> tarjan \<Rightarrow> bool" where
  "visitPost edges G x t t' \<longleftrightarrow> sccInv edges G t' \<and> x \<in> discovered t' \<and> tNextIndex t \<le> idx t' x \<and>
     (low t' x = idx t' x \<or> linked edges t' x (low t' x)) \<and>
     (\<exists>new. growsTo {} new t t' \<and> counted edges t' (set new) (onStack t) (low t' x))"

definition nextPost :: "adjacency \<Rightarrow> string set \<Rightarrow> string \<Rightarrow> string list \<Rightarrow> tarjan \<Rightarrow> tarjan \<Rightarrow> bool" where
  "nextPost edges G x nexts t t' \<longleftrightarrow> sccInv edges G t' \<and> set nexts \<subseteq> discovered t' \<and> low t' x \<le> low t x \<and>
     (low t' x = low t x \<or> linked edges t' x (low t' x)) \<and>
     (\<forall>b \<in> set nexts \<inter> onStack t. low t' x \<le> idx t' b) \<and>
     (\<exists>new. growsTo {x} new t t' \<and> counted edges t' (set new) (onStack t) (low t' x))"

lemma linked_grows: "linked edges t x n \<Longrightarrow> growsTo X new t t' \<Longrightarrow> onStack t \<subseteq> discovered t \<Longrightarrow> linked edges t' x n"
  unfolding linked_def growsTo_def by fastforce

lemma nextPost_refl: "sccInv edges G t \<Longrightarrow> nextPost edges G x [] t t"
  unfolding nextPost_def using growsTo_refl by (auto simp: counted_def intro!: exI [of _ "[]"])

text \<open>One successor, then the rest.\<close>

lemma nextPost_step:
  assumes inv: "onStack t \<subseteq> discovered t" "onStack t1 \<subseteq> discovered t1" and t1: "growsTo {x} new t t1" "low t1 x \<le> low t x"
    "low t1 x = low t x \<or> linked edges t1 x (low t1 x)" "counted edges t1 (set new) (onStack t) (low t1 x)"
    "y \<in> discovered t1" "y \<in> onStack t \<Longrightarrow> low t1 x \<le> idx t y"
    and rest: "nextPost edges G x rest t1 t'"
  shows "nextPost edges G x (y # rest) t t'"
proof -
  obtain new' where new': "growsTo {x} new' t1 t'" "counted edges t' (set new') (onStack t1) (low t' x)" using rest unfolding nextPost_def by blast
  have le: "low t' x \<le> low t1 x" using rest unfolding nextPost_def by blast
  have same: "idx t' b = idx t b \<and> idx t1 b = idx t b" if "b \<in> onStack t" for b using that inv(1) t1(1) new'(1) unfolding growsTo_def by (metis subsetD)
  have stack: "onStack t \<subseteq> onStack t1" using t1(1) unfolding growsTo_def by auto
  have "counted edges t' (set (new' @ new)) (onStack t) (low t' x)"
    using new'(2) t1(4) le same stack unfolding counted_def by (metis Un_iff order_trans set_append subsetD)
  moreover have "growsTo {x} (new' @ new) t t'" by (rule growsTo_trans [OF t1(1) new'(1)])
  moreover have "low t' x \<le> idx t' b" if "b \<in> set (y # rest) \<inter> onStack t" for b
    using that rest t1(6) le same [of b] stack unfolding nextPost_def by (metis IntD1 IntD2 IntI order_trans set_ConsD subsetD)
  moreover have "low t' x = low t x \<or> linked edges t' x (low t' x)"
    using rest t1(3) linked_grows [OF _ new'(1) inv(2)] unfolding nextPost_def by metis
  moreover have "y \<in> discovered t'" using t1(5) new'(1) unfolding growsTo_def by blast
  ultimately show ?thesis using rest le t1(2) unfolding nextPost_def by auto
qed

text \<open>The end of a visit, with or without a component.\<close>

lemma visit_end:
  assumes inv: "sccInv edges G t" and x: "x \<notin> discovered t"
    and post: "nextPost edges (insert x G) x (sliceAt edges x) (pushNode x t) t'"
  shows "visitPost edges G x t (if low t' x = idx t' x then popComponent x t' else t')"
proof -
  obtain new where new: "growsTo {x} new (pushNode x t) t'" "counted edges t' (set new) (onStack (pushNode x t)) (low t' x)"
    using post unfolding nextPost_def by blast
  note d = sccInvD [OF inv]
  have same: "idx t' v = idx t v \<and> low t' v = low t v \<and> v \<in> discovered t'" if "v \<in> discovered t" for v
    using new(1) that x unfolding growsTo_def by (auto split: if_splits)
  have ix: "idx t' x = tNextIndex t" "x \<in> discovered t'" "tPanic t' = tPanic t" and stack: "tStack t' = new @ x # tStack t"
    using new(1) unfolding growsTo_def by auto
  have e: "ending edges G x new (tStack t) t'"
    unfolding ending_def using post stack d(1,6,9) same unfolding nextPost_def edgeRel_def by (auto simp: subset_iff)
  have edges: "counted edges t' (insert x (set new)) (onStack t) (low t' x)"
    using post new(2) unfolding nextPost_def counted_def edgeRel_def by auto
  have link: "low t' x = idx t' x \<or> linked edges t' x (low t' x)" "low t' x \<le> idx t' x"
    using post ix unfolding nextPost_def by auto
  show ?thesis
  proof (cases "low t' x = idx t' x")
    case True
    then have "(a, b) \<notin> edgeRel edges" if "a \<in> insert x (set new)" "b \<in> onStack t" for a b
      using edges that ending_order(1) [OF e] unfolding counted_def by (metis leD)
    note pop = pop_ok [OF e this]
    have "growsTo {} [] t (popComponent x t')" using pop ix same unfolding growsTo_def by auto
    then show ?thesis using True pop(1) ix unfolding visitPost_def by (auto simp: counted_def intro!: exI [of _ "[]"])
  next
    case False
    then obtain y where y: "y \<in> onStack t'" "idx t' y = low t' x" "(x, y) \<in> (edgeRel edges)\<^sup>*" using link(1) unfolding linked_def by blast
    then have "idx t' y < idx t' x" using False link(2) by simp
    then have "y \<in> onStack t" using y(1) stack ending_order(2) [OF e, of y] by auto
    then have "sccInv edges G t'" using stay_ok [OF e _ y(3)] by blast
    moreover have "growsTo {} (new @ [x]) t t'" using stack ix same unfolding growsTo_def by auto
    ultimately show ?thesis using False link ix edges unfolding visitPost_def by (auto intro!: exI [of _ "new @ [x]"])
  qed
qed

text \<open>A successor that is visited now, and one that was visited before.\<close>

lemma fresh_step:
  assumes inv: "sccInv edges G t" and node: "node \<in> G" "low t node \<le> idx t node" and edge: "(node, nxt) \<in> edgeRel edges"
    and fresh: "nxt \<notin> discovered t" and post: "visitPost edges G nxt t t'"
  defines "t1 \<equiv> lowerLink node (low t' nxt) t'"
  shows "sccInv edges G t1" and "low t1 node \<le> idx t1 node" and "nextPost edges G node rest t1 r \<Longrightarrow> nextPost edges G node (nxt # rest) t r"
proof -
  note d = sccInvD [OF inv]
  have seen: "node \<in> discovered t" "idx t node < tNextIndex t" using d(1,4,6) node(1) by blast+
  obtain new where new: "growsTo {} new t t'" "counted edges t' (set new) (onStack t) (low t' nxt)" using post unfolding visitPost_def by blast
  have ext: "growsTo {node} new t t1"
    using growsTo_trans [OF growsTo_mono [OF new(1)] growsTo_lowerLink [of node t' "low t' nxt"]] by (simp add: t1_def)
  have low1: "low t1 node = min (low t node) (low t' nxt)" using new(1) seen(1) unfolding growsTo_def by (simp add: t1_def low_lowerLink)
  then have low_le: "low t1 node \<le> low t node" by simp
  show inv1: "sccInv edges G t1" using post unfolding visitPost_def by (simp add: t1_def)
  show "low t1 node \<le> idx t1 node" using low1 node(2) seen(1) ext unfolding growsTo_def by simp
  have "low t1 node = low t node \<or> linked edges t1 node (low t1 node)"
  proof (cases "low t' nxt = idx t' nxt")
    case True
    then show ?thesis using low1 post seen(2) node(2) unfolding visitPost_def by auto
  next
    case False
    then have "linked edges t1 node (low t' nxt)"
      using post edge unfolding visitPost_def linked_def t1_def by (auto intro: converse_rtrancl_into_rtrancl)
    then show ?thesis using low1 by (auto simp: min_def)
  qed
  moreover have "counted edges t1 (set new) (onStack t) (low t1 node)"
    using new(2) low1 unfolding counted_def by (simp add: t1_def min.coboundedI2)
  moreover have "nxt \<in> discovered t1" using post unfolding visitPost_def by (simp add: t1_def)
  moreover have "nxt \<notin> onStack t" using fresh d(1) by blast
  ultimately show "nextPost edges G node rest t1 r \<Longrightarrow> nextPost edges G node (nxt # rest) t r"
    using nextPost_step [OF d(1) sccInvD(1) [OF inv1] ext low_le] by blast
qed

lemma seen_step:
  assumes inv: "sccInv edges G t" and node: "low t node \<le> idx t node" and edge: "(node, nxt) \<in> edgeRel edges" and seen: "nxt \<in> discovered t"
  defines "t1 \<equiv> (if boolAt (tOnStack t) nxt then lowerLink node (idx t nxt) t else t)"
  shows "sccInv edges G t1" and "low t1 node \<le> idx t1 node" and "nextPost edges G node rest t1 r \<Longrightarrow> nextPost edges G node (nxt # rest) t r"
proof -
  note d = sccInvD [OF inv]
  have ext: "growsTo {node} [] t t1" by (simp add: t1_def growsTo_lowerLink growsTo_refl)
  have low1: "low t1 node = (if nxt \<in> onStack t then min (low t node) (idx t nxt) else low t node)"
    using d(2) by (simp add: t1_def low_lowerLink)
  then have low_le: "low t1 node \<le> low t node" and low_nxt: "nxt \<in> onStack t \<Longrightarrow> low t1 node \<le> idx t nxt" by simp_all
  show inv1: "sccInv edges G t1" using inv by (simp add: t1_def)
  show "low t1 node \<le> idx t1 node" using node by (simp add: t1_def low_lowerLink min.coboundedI1)
  have "low t1 node = low t node \<or> linked edges t1 node (low t1 node)"
    using low1 edge d(2) unfolding linked_def t1_def by (auto simp: min_def)
  moreover have "counted edges t1 (set []) (onStack t) (low t1 node)" by (simp add: counted_def)
  moreover have "nxt \<in> discovered t1" using seen by (simp add: t1_def)
  ultimately show "nextPost edges G node rest t1 r \<Longrightarrow> nextPost edges G node (nxt # rest) t r"
    using nextPost_step [OF d(1) sccInvD(1) [OF inv1] ext low_le] low_nxt by blast
qed

lemma visits_ok:
  "sccInv edges G t \<Longrightarrow> node \<notin> discovered t \<Longrightarrow> (\<And>g. g \<in> G \<Longrightarrow> (g, node) \<in> (edgeRel edges)\<^sup>*) \<Longrightarrow>
     visitPost edges G node t (tarjan_visit edges node t)"
  "sccInv edges G t \<Longrightarrow> node \<in> G \<Longrightarrow> (\<And>g. g \<in> G \<Longrightarrow> (g, node) \<in> (edgeRel edges)\<^sup>*) \<Longrightarrow>
     (\<And>y. y \<in> set nexts \<Longrightarrow> (node, y) \<in> edgeRel edges) \<Longrightarrow> low t node \<le> idx t node \<Longrightarrow>
     nextPost edges G node nexts t (visitNext edges node nexts t)"
proof (induction edges node t and edges node nexts t arbitrary: G and G rule: tarjan_visit_visitNext.induct)
  case (1 edges node t)
  have "nextPost edges (insert node G) node (sliceAt edges node) (pushNode node t) (visitNext edges node (sliceAt edges node) (pushNode node t))"
    using 1 push_ok [OF 1(2,3,4)] by (intro 1(1)) (auto simp: edgeRel_def)
  then show ?case using visit_end [OF 1(2,3)] by (simp add: tarjan_visit.simps Let_def)
next
  case (2 edges node t)
  then show ?case by (simp add: nextPost_refl)
next
  case (3 edges node nxt rest t)
  note IH = 3(1-4)
  have edge: "(node, nxt) \<in> edgeRel edges" by (simp add: 3(8))
  show ?case
  proof (cases "seen t nxt")
    case False
    then have fresh: "nxt \<notin> discovered t" by (simp add: keys_iff)
    have "(g, nxt) \<in> (edgeRel edges)\<^sup>*" if "g \<in> G" for g using 3(7) [OF that] edge by (rule rtrancl_into_rtrancl)
    then have post: "visitPost edges G nxt t (tarjan_visit edges nxt t)" using IH(1) False fresh 3(5) by simp
    note step = fresh_step [OF 3(5,6,9) edge fresh post]
    have "nextPost edges G node (nxt # rest) t (visitNext edges node rest (lowerLink node (low (tarjan_visit edges nxt t) nxt) (tarjan_visit edges nxt t)))"
      using step(3) IH(2) [OF False refl step(1) 3(6,7) _ step(2)] 3(8) by simp
    then show ?thesis using False by (simp add: Let_def)
  next
    case True
    then have "nxt \<in> discovered t" by (simp add: keys_iff)
    note step = seen_step [OF 3(5,9) edge this]
    show ?thesis using True step IH(3,4) [of G] 3(6-8) by (cases "boolAt (tOnStack t) nxt") simp_all
  qed
qed

section \<open>The labels\<close>

lemma empty_ok: "sccInv edges {} emptyTarjan"
  by (simp add: scc_defs emptyTarjan_def boolAt_def)

lemma visitAll_fold:
  fixes edges nodes t
  assumes "sccInv edges {} t"
  defines "r \<equiv> foldl (\<lambda>t node. if \<not> seen t node then tarjan_visit edges node t else t) t nodes"
  shows "sccInv edges {} r \<and> discovered t \<union> set nodes \<subseteq> discovered r \<and> tPanic r = tPanic t"
  unfolding r_def using assms(1)
proof (induction nodes arbitrary: t)
  case (Cons node nodes)
  let ?t = "if \<not> seen t node then tarjan_visit edges node t else t"
  have "sccInv edges {} ?t \<and> discovered t \<subseteq> discovered ?t \<and> node \<in> discovered ?t \<and> tPanic ?t = tPanic t"
  proof (cases "seen t node")
    case False
    then have "visitPost edges {} node t (tarjan_visit edges node t)" using visits_ok(1) [OF Cons.prems] by (simp add: keys_iff)
    then show ?thesis using False unfolding visitPost_def growsTo_def by auto
  qed (use Cons.prems in \<open>simp add: keys_iff\<close>)
  then show ?case using Cons.IH [of ?t] by auto
qed simp

lemma visitAll_ok:
  shows "sccInv edges {} (visitAll edges)" and "keys edges \<subseteq> discovered (visitAll edges)" and "\<not> tPanic (visitAll edges)"
    and "tStack (visitAll edges) = []"
proof -
  have r: "sccInv edges {} (visitAll edges) \<and> keys edges \<subseteq> discovered (visitAll edges) \<and> \<not> tPanic (visitAll edges)"
    using visitAll_fold [OF empty_ok, of edges "sort (map fst edges)"] unfolding visitAll_def
    by (simp add: keys_def emptyTarjan_def)
  then show "sccInv edges {} (visitAll edges)" "keys edges \<subseteq> discovered (visitAll edges)" "\<not> tPanic (visitAll edges)" by auto
  show "tStack (visitAll edges) = []" using sccInvD(9) [of edges "{}" "visitAll edges"] r by (cases "tStack (visitAll edges)") auto
qed

text \<open>Every node with edges has a label, and with a node its successors; labels are equal for nodes that reach each other.\<close>

lemma labelled_all:
  shows "keys edges \<subseteq> keys (stronglyConnectedComponents edges)"
    and "x \<in> keys (stronglyConnectedComponents edges) \<Longrightarrow> (x, y) \<in> (edgeRel edges)\<^sup>* \<Longrightarrow> y \<in> keys (stronglyConnectedComponents edges)"
    and "x \<in> keys (stronglyConnectedComponents edges) \<Longrightarrow> y \<in> keys (stronglyConnectedComponents edges) \<Longrightarrow>
      numberAt (stronglyConnectedComponents edges) x = numberAt (stronglyConnectedComponents edges) y \<longleftrightarrow> mutual edges x y"
proof -
  note d = sccInvD [OF visitAll_ok(1) [of edges], folded stronglyConnectedComponents_def]
  show "keys edges \<subseteq> keys (stronglyConnectedComponents edges)" using d(5) visitAll_ok(2,4) [of edges] by simp
  show "x \<in> keys (stronglyConnectedComponents edges) \<Longrightarrow> (x, y) \<in> (edgeRel edges)\<^sup>* \<Longrightarrow> y \<in> keys (stronglyConnectedComponents edges)"
    using closed_rtrancl [of x y "edgeRel edges" "keys (stronglyConnectedComponents edges)"] d(10) by blast
  show "x \<in> keys (stronglyConnectedComponents edges) \<Longrightarrow> y \<in> keys (stronglyConnectedComponents edges) \<Longrightarrow>
      numberAt (stronglyConnectedComponents edges) x = numberAt (stronglyConnectedComponents edges) y \<longleftrightarrow> mutual edges x y" by (rule d(12))
qed

lemma goMap_popLoop: "is_goMap (tComponentOf t) \<Longrightarrow> is_goMap (tComponentOf (popLoop root stack t))"
  by (induction root stack t rule: popLoop.induct) (simp_all add: Let_def)

lemma goMap_visits:
  "is_goMap (tComponentOf t) \<Longrightarrow> is_goMap (tComponentOf (tarjan_visit edges node t))"
  "is_goMap (tComponentOf t) \<Longrightarrow> is_goMap (tComponentOf (visitNext edges node nexts t))"
  by (induction edges node t and edges node nexts t rule: tarjan_visit_visitNext.induct)
    (simp_all add: tarjan_visit.simps popComponent_def goMap_popLoop Let_def)

lemma goMap_labels: "is_goMap (stronglyConnectedComponents edges)"
proof -
  have "is_goMap (tComponentOf t) \<Longrightarrow>
      is_goMap (tComponentOf (foldl (\<lambda>t node. if \<not> seen t node then tarjan_visit edges node t else t) t nodes))" for t nodes
    by (induction nodes arbitrary: t) (simp_all add: goMap_visits)
  then show ?thesis by (simp add: stronglyConnectedComponents_def visitAll_def emptyTarjan_def)
qed

text \<open>C15: The labels of the strongly connected components are right: the algorithm ends without taking a node from an empty stack,
  labels every node that has dependencies and every node that is reached from a labelled one, and gives two nodes the same
  label exactly if each reaches the other.\<close>

theorem components_labelled:
  "\<not> tPanic (visitAll edges) \<and> keys edges \<subseteq> keys (stronglyConnectedComponents edges) \<and>
   edgeRel edges `` keys (stronglyConnectedComponents edges) \<subseteq> keys (stronglyConnectedComponents edges) \<and>
   {(x, y). x \<in> keys (stronglyConnectedComponents edges) \<and> y \<in> keys (stronglyConnectedComponents edges) \<and>
      map_of (stronglyConnectedComponents edges) x = map_of (stronglyConnectedComponents edges) y} =
   {(x, y). x \<in> keys (stronglyConnectedComponents edges) \<and> y \<in> keys (stronglyConnectedComponents edges) \<and>
      (x, y) \<in> (edgeRel edges)\<^sup>* \<and> (y, x) \<in> (edgeRel edges)\<^sup>*}"
proof -
  let ?c = "stronglyConnectedComponents edges"
  have "map_of ?c x = map_of ?c y \<longleftrightarrow> (x, y) \<in> (edgeRel edges)\<^sup>* \<and> (y, x) \<in> (edgeRel edges)\<^sup>*" if "x \<in> keys ?c" "y \<in> keys ?c" for x y
    using labelled_all(3) [OF that] that unfolding mutual_def by (auto simp: keys_iff numberAt_def)
  moreover have "edgeRel edges `` keys ?c \<subseteq> keys ?c" using labelled_all(2) by blast
  ultimately show ?thesis using visitAll_ok(3) labelled_all(1) by (auto simp: keys_iff)
qed

section \<open>Nodes that others depend on\<close>

lemma entering_edge:
  assumes "(x, r) \<in> E\<^sup>*" "(r, x) \<notin> E\<^sup>*"
  shows "\<exists>u v. (u, v) \<in> E \<and> (r, u) \<notin> E\<^sup>* \<and> (v, r) \<in> E\<^sup>* \<and> (r, v) \<in> E\<^sup>*"
  using assms
proof (induction rule: converse_rtrancl_induct)
  case (step y z)
  then show ?case by (cases "(r, z) \<in> E\<^sup>*") auto
qed simp

end
