(* ===== verification/SbomUpsert.thy ===== *)
theory SbomUpsert
  imports SbomGost SbomRefs SbomSccProps
begin

text \<open>
  The choice of the GOST values of a document (the first half of \<^verbatim>\<open>src/pkg/sbom/cyclonedxutil/gost/upsert.go\<close>): which components the
  image reaches directly, and which only through other components. A set of refs is the list of its elements.
\<close>

section \<open>Roots and dependencies\<close>

definition componentRefList :: "BOM \<Rightarrow> string list" where
  "componentRefList bom =
     collectNodes cBOMRef (bComponents bom) @
     (case bomRoot bom of None \<Rightarrow> [] | Some root \<Rightarrow> collectNodes cBOMRef (children root))"

definition declaredRoots :: "BOM \<Rightarrow> string list \<Rightarrow> string list" where
  "declaredRoots bom refs =
     (case bomRoot bom of
        None \<Rightarrow> []
      | Some root \<Rightarrow>
          if cBOMRef (payload root) = [] then []
          else concat (map (\<lambda>dep. if depRef dep \<noteq> cBOMRef (payload root) then [] else filter (\<lambda>ref. ref \<in> set refs) (fromPtr (depDependencies dep)))
                 (fromPtr (bDependencies bom))))"

definition componentEdges :: "BOM \<Rightarrow> string list \<Rightarrow> adjacency" where
  "componentEdges bom refs =
     foldl (\<lambda>edges dep. if depRef dep \<in> set refs then appendAt edges (depRef dep) (fromPtr (depDependencies dep)) else edges) []
       (fromPtr (bDependencies bom))"

definition dependedOn :: "adjacency \<Rightarrow> (string, nat) goMap \<Rightarrow> nat list" where
  "dependedOn edges componentOf =
     concat (map (\<lambda>(src, dsts). map (numberAt componentOf)
       (filter (\<lambda>dst. numberAt componentOf src \<noteq> numberAt componentOf dst) dsts)) edges)"

definition dependencyTargets :: "BOM \<Rightarrow> string list" where
  "dependencyTargets bom =
     (let refs = componentRefList bom; declared = declaredRoots bom refs
      in if declared \<noteq> [] then filter (\<lambda>ref. ref \<notin> set declared) refs
         else
           let edges = componentEdges bom refs;
               componentOf = stronglyConnectedComponents edges;
               depended = dependedOn edges componentOf
           in map fst (filter (\<lambda>(ref, component). component \<in> set depended) componentOf))"

fun setNode :: "Config \<Rightarrow> Config \<Rightarrow> string list \<Rightarrow> Component \<Rightarrow> Component" where
  "setNode rootConfig dependencyConfig targets (Node c None) =
     Node (SetComponent c (if cBOMRef c \<in> set targets then dependencyConfig else rootConfig)) None"
| "setNode rootConfig dependencyConfig targets (Node c (Some kids)) =
     Node (SetComponent c (if cBOMRef c \<in> set targets then dependencyConfig else rootConfig))
       (Some (map (setNode rootConfig dependencyConfig targets) kids))"

definition setComponents :: "Component list option \<Rightarrow> Config \<Rightarrow> Config \<Rightarrow> string list \<Rightarrow> Component list option" where
  "setComponents p rootConfig dependencyConfig targets = map_option (map (setNode rootConfig dependencyConfig targets)) p"

definition dependencyConfigOf :: "Config \<Rightarrow> Config" where
  "dependencyConfigOf config = (if AttackSurface config = GostValueYes then config\<lparr>AttackSurface := GostValueIndirect\<rparr> else config)"

definition Upsert :: "BOM option \<Rightarrow> Config \<Rightarrow> gostError + BOM" where
  "Upsert p config =
     (case p of
        None \<Rightarrow> Inl BOMRequired
      | Some bom \<Rightarrow>
          let dependencyConfig = dependencyConfigOf config; targets = dependencyTargets bom
          in Inr ((mapRoot (\<lambda>root. Node (SetComponent (payload root) config)
                     (setComponents (children root) config dependencyConfig targets)) bom)
               \<lparr>bComponents := setComponents (bComponents bom) config dependencyConfig targets\<rparr>))"

section \<open>The components that are only reached through others\<close>

text \<open>The refs that get the dependency value, without an algorithm: below a declared root nothing else is direct; without one a
  component is indirect if one that it does not depend on depends on it.\<close>

definition componentDeps :: "BOM \<Rightarrow> (string \<times> string) set" where
  "componentDeps bom = {(depRef d, t) | d t. d \<in> set (fromPtr (bDependencies bom)) \<and> t \<in> set (fromPtr (depDependencies d)) \<and>
     depRef d \<in> set (componentRefList bom)}"

definition imageUses :: "BOM \<Rightarrow> string set" where
  "imageUses bom = {t. \<exists>root d. bomRoot bom = Some root \<and> cBOMRef (payload root) \<noteq> [] \<and> d \<in> set (fromPtr (bDependencies bom)) \<and>
     depRef d = cBOMRef (payload root) \<and> t \<in> set (fromPtr (depDependencies d)) \<and> t \<in> set (componentRefList bom)}"

definition indirectRefs :: "BOM \<Rightarrow> string set" where
  "indirectRefs bom =
     (if imageUses bom \<noteq> {} then set (componentRefList bom) - imageUses bom
      else {r. \<exists>x. (x, r) \<in> (componentDeps bom)\<^sup>* \<and> (r, x) \<notin> (componentDeps bom)\<^sup>*})"

lemma set_declaredRoots: "set (declaredRoots bom (componentRefList bom)) = imageUses bom"
  by (cases "bomRoot bom") (auto simp: declaredRoots_def imageUses_def split: if_splits)

lemma sliceAt_componentEdges:
  "set (sliceAt (foldl (\<lambda>edges dep. if depRef dep \<in> R then appendAt edges (depRef dep) (fromPtr (depDependencies dep)) else edges) m ds) x) =
     set (sliceAt m x) \<union> {t. \<exists>d \<in> set ds. depRef d = x \<and> x \<in> R \<and> t \<in> set (fromPtr (depDependencies d))}"
  by (induction ds arbitrary: m) (auto split: if_splits)

lemma edgeRel_componentEdges: "edgeRel (componentEdges bom (componentRefList bom)) = componentDeps bom"
  unfolding edgeRel_def componentEdges_def sliceAt_componentEdges componentDeps_def by auto

lemma goMap_componentEdges: "is_goMap (componentEdges bom refs)"
proof -
  have "is_goMap m \<Longrightarrow> is_goMap (foldl (\<lambda>edges dep. if depRef dep \<in> R then appendAt edges (depRef dep) (fromPtr (depDependencies dep)) else edges) m ds)"
    for m R and ds :: "DependencyEntry list"
    by (induction ds arbitrary: m) auto
  then show ?thesis by (simp add: componentEdges_def)
qed

lemma dependedOn_reached:
  assumes "is_goMap edges"
  defines "c \<equiv> stronglyConnectedComponents edges"
  shows "set (map fst (filter (\<lambda>(ref, component). component \<in> set (dependedOn edges c)) c)) =
    {r. \<exists>x. (x, r) \<in> (edgeRel edges)\<^sup>* \<and> (r, x) \<notin> (edgeRel edges)\<^sup>*}" (is "?L = ?R")
proof
  note all = labelled_all [where edges = edges, folded c_def]
  have slice: "v \<in> set (sliceAt edges u) \<longleftrightarrow> (\<exists>vs. (u, vs) \<in> set edges \<and> v \<in> set vs)" for u v
    by (metis assms(1) map_of_goMap sliceAtE sliceAt_member)
  have depended: "n \<in> set (dependedOn edges c) \<longleftrightarrow> (\<exists>u v. (u, v) \<in> edgeRel edges \<and> numberAt c u \<noteq> numberAt c v \<and> n = numberAt c v)" for n
    unfolding dependedOn_def edgeRel_def by (auto simp: slice)
  have L: "?L = {r \<in> keys c. numberAt c r \<in> set (dependedOn edges c)}"
    using goMap_labels [of edges] unfolding c_def by (force simp: keys_def numberAt_def map_of_goMap [THEN iffD2])
  have edge: "u \<in> keys c \<and> v \<in> keys c" if "(u, v) \<in> edgeRel edges" for u v
    using that all(1) all(2) [of u v] sliceAt_keys unfolding edgeRel_def by fastforce
  show "?L \<subseteq> ?R"
  proof
    fix r
    assume "r \<in> ?L"
    then obtain u v where r: "r \<in> keys c" "(u, v) \<in> edgeRel edges" "numberAt c u \<noteq> numberAt c v" "numberAt c r = numberAt c v"
      unfolding L using depended by auto
    have "mutual edges r v" "\<not> mutual edges u v" using r all(3) edge [OF r(2)] by auto
    then have "(u, r) \<in> (edgeRel edges)\<^sup>*" "(r, u) \<notin> (edgeRel edges)\<^sup>*"
      using r(2) unfolding mutual_def by (meson converse_rtrancl_into_rtrancl rtrancl_trans r_into_rtrancl)+
    then show "r \<in> ?R" by blast
  qed
  show "?R \<subseteq> ?L"
  proof
    fix r
    assume "r \<in> ?R"
    then obtain x where "(x, r) \<in> (edgeRel edges)\<^sup>*" "(r, x) \<notin> (edgeRel edges)\<^sup>*" by blast
    then obtain u v where uv: "(u, v) \<in> edgeRel edges" "(r, u) \<notin> (edgeRel edges)\<^sup>*" "(v, r) \<in> (edgeRel edges)\<^sup>*" "(r, v) \<in> (edgeRel edges)\<^sup>*"
      using entering_edge by metis
    have keys: "u \<in> keys c" "v \<in> keys c" "r \<in> keys c" using edge [OF uv(1)] all(2) [OF _ uv(3)] by auto
    have "\<not> mutual edges u v" using uv(2,4) unfolding mutual_def by (meson rtrancl_trans)
    moreover have "mutual edges r v" using uv(3,4) unfolding mutual_def by simp
    ultimately show "r \<in> ?L" unfolding L using all(3) keys depended uv(1) by auto
  qed
qed

lemma set_dependencyTargets: "set (dependencyTargets bom) = indirectRefs bom"
proof (cases "imageUses bom = {}")
  case True
  then have "declaredRoots bom (componentRefList bom) = []" using set_declaredRoots [of bom] by simp
  then show ?thesis using True dependedOn_reached [OF goMap_componentEdges, of bom "componentRefList bom"]
    by (simp add: dependencyTargets_def Let_def indirectRefs_def edgeRel_componentEdges)
next
  case False
  then have "declaredRoots bom (componentRefList bom) \<noteq> []" using set_declaredRoots [of bom] by auto
  then show ?thesis using False set_declaredRoots [of bom] by (auto simp: dependencyTargets_def Let_def indirectRefs_def)
qed

end
