(* ===== verification/SbomGostProps.thy ===== *)
theory SbomGostProps
  imports SbomUpsert SbomProps
begin

text \<open>
  The properties of the GOST values of a document: which value every component gets, that a document with these values is
  valid, that setting them twice changes nothing, and that the values of source languages stand for sets.
\<close>

section \<open>One component\<close>

lemma find_setFirst:
  "find (\<lambda>p. propName p = m) (setFirst n v ps) =
     (if m = n then Some (case find (\<lambda>p. propName p = n) ps of None \<Rightarrow> \<lparr>propName = n, propValue = v\<rparr> | Some p \<Rightarrow> p\<lparr>propValue := v\<rparr>)
      else find (\<lambda>p. propName p = m) ps)"
  by (induction ps) auto

lemma getProperty_setProperty:
  "getProperty (setProperty c n v) m = (if \<not> IsUndefined v \<and> m = n then (v, True) else getProperty c m)"
  by (simp add: getProperty_def setProperty_def find_setFirst split: option.split)

lemma Get_SetComponent:
  "GetAttackSurface (SetComponent c config) = (if IsUndefined (AttackSurface config) then GetAttackSurface c else (AttackSurface config, True))"
  "GetSecurityFunction (SetComponent c config) =
     (if IsUndefined (SecurityFunction config) then GetSecurityFunction c else (SecurityFunction config, True))"
  by (simp_all add: SetComponent_def gost_access getProperty_setProperty PropertyAttackSurface_def PropertySecurityFunction_def)

lemma ref_setProperty [simp]: "cBOMRef (setProperty c n v) = cBOMRef c"
  by (simp add: setProperty_def)

lemma ref_SetComponent [simp]: "cBOMRef (SetComponent c config) = cBOMRef c"
  by (simp add: SetComponent_def gost_access)

lemma setFirst_same: "find (\<lambda>p. propName p = n) ps = Some p \<Longrightarrow> propValue p = v \<Longrightarrow> setFirst n v ps = ps"
  by (induction ps) (auto split: if_splits)

lemma setProperty_same: "getProperty c n = (v, True) \<Longrightarrow> cProperties c \<noteq> None \<Longrightarrow> setProperty c n v = c"
  by (auto simp: getProperty_def setProperty_def setFirst_same split: option.splits)

lemma has_properties [simp]: "cProperties c \<noteq> None \<Longrightarrow> cProperties (setProperty c n v) \<noteq> None"
  by (simp add: setProperty_def)

lemma setProperty_undefined [simp]: "IsUndefined v \<Longrightarrow> setProperty c n v = c"
  by (simp add: setProperty_def)

lemma setProperty_defined: "\<not> IsUndefined v \<Longrightarrow> cProperties (setProperty c n v) \<noteq> None"
  by (simp add: setProperty_def)

lemma SetComponent_idem: "SetComponent (SetComponent c config) config = SetComponent c config"
proof -
  let ?c = "SetComponent c config"
  have "setProperty ?c PropertyAttackSurface (AttackSurface config) = ?c"
  proof (cases "IsUndefined (AttackSurface config)")
    case False
    then have "cProperties ?c \<noteq> None"
      unfolding SetComponent_def gost_access by (intro has_properties setProperty_defined)
    then show ?thesis using False Get_SetComponent(1) [of c config] by (intro setProperty_same) (simp_all add: gost_access)
  qed simp
  moreover have "setProperty ?c PropertySecurityFunction (SecurityFunction config) = ?c"
  proof (cases "IsUndefined (SecurityFunction config)")
    case False
    then have "cProperties ?c \<noteq> None" unfolding SetComponent_def gost_access by (intro setProperty_defined)
    then show ?thesis using False Get_SetComponent(2) [of c config] by (intro setProperty_same) (simp_all add: gost_access)
  qed simp
  ultimately show ?thesis unfolding SetComponent_def [of ?c] gost_access by simp
qed

section \<open>All components\<close>

fun nodeData :: "Component \<Rightarrow> ComponentData list" where
  "nodeData (Node c None) = [c]"
| "nodeData (Node c (Some kids)) = c # concat (map nodeData kids)"

definition rootData :: "BOM \<Rightarrow> ComponentData list" where
  "rootData bom = (case bomRoot bom of None \<Rightarrow> [] | Some root \<Rightarrow> [payload root])"

definition bomData :: "BOM \<Rightarrow> ComponentData list" where
  "bomData bom = (case bomRoot bom of None \<Rightarrow> [] | Some root \<Rightarrow> concat (map nodeData (fromPtr (children root)))) @
     concat (map nodeData (fromPtr (bComponents bom)))"

text \<open>What a component is given, as a function of its data.\<close>

definition givenBy :: "Config \<Rightarrow> string list \<Rightarrow> ComponentData \<Rightarrow> ComponentData" where
  "givenBy config targets c = SetComponent c (if cBOMRef c \<in> set targets then dependencyConfigOf config else config)"

lemma nodeData_setNode: "nodeData (setNode config (dependencyConfigOf config) targets n) = map (givenBy config targets) (nodeData n)"
  by (induction n rule: nodeData.induct) (simp_all add: givenBy_def map_concat o_def cong: map_cong)

lemma Upsert_bom:
  assumes "Upsert (Some bom) config = Inr bom'"
  shows "bomData bom' = map (givenBy config (dependencyTargets bom)) (bomData bom)"
    and "rootData bom' = map (\<lambda>c. SetComponent c config) (rootData bom)"
    and "bSpecVersion bom' = bSpecVersion bom" and "bDependencies bom' = bDependencies bom"
  using assms
  by (cases "bMetadata bom"; cases "bomRoot bom";
      force simp: Upsert_def Let_def mapRoot_def bomData_def rootData_def bomRoot_def setComponents_def nodeData_setNode map_concat o_def)+

lemma refs_setNode: "collectNode cBOMRef (setNode config dep targets n) = collectNode cBOMRef n"
  by (induction n rule: nodeData.induct) (simp_all cong: map_cong)

lemma refs_setComponents: "collectNodes cBOMRef (setComponents p config dep targets) = collectNodes cBOMRef p"
  by (cases p) (simp_all add: collectNodes_def setComponents_def refs_setNode o_def)

lemma targets_Upsert:
  assumes "Upsert (Some bom) config = Inr bom'"
  shows "dependencyTargets bom' = dependencyTargets bom"
proof -
  have "bomRoot bom' = map_option (\<lambda>root. Node (SetComponent (payload root) config)
      (setComponents (children root) config (dependencyConfigOf config) (dependencyTargets bom))) (bomRoot bom)"
    using assms by (cases "bMetadata bom") (auto simp: Upsert_def Let_def mapRoot_def bomRoot_def)
  moreover have "bComponents bom' = setComponents (bComponents bom) config (dependencyConfigOf config) (dependencyTargets bom)"
    using assms by (auto simp: Upsert_def Let_def)
  ultimately have "componentRefList bom' = componentRefList bom" and "declaredRoots bom' = declaredRoots bom"
    using Upsert_bom(4) [OF assms]
    by (cases "bomRoot bom"; simp add: componentRefList_def declaredRoots_def fun_eq_iff refs_setComponents)+
  moreover have "componentEdges bom' = componentEdges bom" by (simp add: fun_eq_iff componentEdges_def Upsert_bom(4) [OF assms])
  ultimately show ?thesis by (simp add: dependencyTargets_def Let_def)
qed

lemma setNode_idem: "setNode config dep targets (setNode config dep targets n) = setNode config dep targets n"
  by (induction n rule: nodeData.induct) (simp_all add: SetComponent_idem cong: map_cong)

lemma setComponents_idem: "setComponents (setComponents p config dep targets) config dep targets = setComponents p config dep targets"
  by (cases p) (simp_all add: setComponents_def setNode_idem)

lemma Upsert_again:
  assumes "Upsert (Some bom) config = Inr bom'"
  shows "Upsert (Some bom') config = Inr bom'"
proof -
  have "mapRoot f (mapRoot f b) = mapRoot (f \<circ> f) b" for f b by (cases "bMetadata b") (simp_all add: mapRoot_def option.map_comp)
  moreover have "(mapRoot f b)\<lparr>bComponents := cs\<rparr> = mapRoot f (b\<lparr>bComponents := cs\<rparr>)" for f b cs by (simp add: mapRoot_def)
  moreover have "bComponents (mapRoot f b) = bComponents b" for f b by (simp add: mapRoot_def)
  ultimately show ?thesis using assms targets_Upsert [OF assms]
    by (auto simp: Upsert_def Let_def setComponents_idem SetComponent_idem o_def)
qed

text \<open>C14: With the attack surface \<open>yes\<close> every component gets \<open>indirect\<close> if its ref is among the indirect ones, and \<open>yes\<close> otherwise; the
  metadata component gets \<open>yes\<close>. If the metadata component depends on declared components, the indirect refs are those of all the
  other components that have a ref; a component without a ref gets \<open>yes\<close> although the image does not declare that it uses it.
  Otherwise a ref is indirect exactly if some component depends on it, through any number of others, on which it does not depend
  itself, so mutual dependencies alone make nothing indirect. Nested components are included; refs do not change; a second run
  changes nothing.\<close>

theorem attack_surface_by_reach:
  "case Upsert (Some bom) (config\<lparr>AttackSurface := GostValueYes\<rparr>) of
     Inl e \<Rightarrow> False
   | Inr bom' \<Rightarrow>
       map cBOMRef (bomData bom') = map cBOMRef (bomData bom) \<and>
       list_all (\<lambda>c. GetAttackSurface c = (if cBOMRef c \<in> indirectRefs bom then GostValueIndirect else GostValueYes, True)) (bomData bom') \<and>
       list_all (\<lambda>c. GetAttackSurface c = (GostValueYes, True)) (rootData bom') \<and>
       Upsert (Some bom') (config\<lparr>AttackSurface := GostValueYes\<rparr>) = Inr bom'"
proof -
  let ?config = "config\<lparr>AttackSurface := GostValueYes\<rparr>"
  obtain bom' where u: "Upsert (Some bom) ?config = Inr bom'" by (simp add: Upsert_def Let_def)
  have "GetAttackSurface (givenBy ?config (dependencyTargets bom) c) =
      (if cBOMRef c \<in> indirectRefs bom then GostValueIndirect else GostValueYes, True)" for c
    by (simp add: givenBy_def Get_SetComponent dependencyConfigOf_def set_dependencyTargets IsUndefined_def gost_values)
  moreover have "cBOMRef (givenBy ?config targets c) = cBOMRef c" for targets c by (simp add: givenBy_def)
  ultimately show ?thesis using u Upsert_bom(1,2) [OF u] Upsert_again [OF u]
    by (simp add: list_all_iff Get_SetComponent IsUndefined_def gost_values o_def)
qed

text \<open>A component without a ref is in no set of refs, so it counts as direct even if the image declares what it uses.\<close>

lemma refList_nonempty: "[] \<notin> set (collectNode ref n)"
  by (induction n rule: collectNode.induct) (auto simp: refList_def)

lemma unnamed_component_direct: "imageUses bom \<noteq> {} \<Longrightarrow> [] \<notin> indirectRefs bom"
  by (auto simp: indirectRefs_def componentRefList_def collectNodes_def refList_nonempty split: option.splits)

section \<open>Validation\<close>

lemma foldr_bindR: "foldr (\<lambda>k r. bindR (f k) (\<lambda>_. r)) ks (Inr ()) = Inr () \<longleftrightarrow> list_all (\<lambda>k. f k = Inr ()) ks"
  by (induction ks) (auto simp: bindR_def split: sum.splits)

lemma checkNode_Inr: "checkNode check n = Inr () \<longleftrightarrow> list_all (\<lambda>c. check c = Inr ()) (nodeData n)"
proof (induction n rule: nodeData.induct)
  case (1 c)
  then show ?case by (simp add: bindR_def split: sum.splits)
next
  case (2 c kids)
  then have "list_all (\<lambda>k. checkNode check k = Inr ()) kids \<longleftrightarrow> list_all (\<lambda>c. check c = Inr ()) (concat (map nodeData kids))"
    by (auto simp: list_all_iff)
  then show ?case by (cases "check c") (simp_all add: foldr_bindR)
qed

lemma validateBOMWith_Inr: "validateBOMWith check bom = Inr () \<longleftrightarrow> list_all (\<lambda>c. check c = Inr ()) (rootData bom @ bomData bom)"
proof -
  have "list_all (\<lambda>k. checkNode check k = Inr ()) ks \<longleftrightarrow> list_all (\<lambda>c. check c = Inr ()) (concat (map nodeData ks))" for ks
    by (simp add: checkNode_Inr list_all_iff)
  then show ?thesis
    by (cases "bomRoot bom")
      (auto simp: validateBOMWith_def validateComponents_def rootData_def bomData_def foldr_bindR bindR_Inr split: sum.splits)
qed

lemma ValidateComponent_Inr:
  "ValidateComponent c = Inr () \<longleftrightarrow> snd (GetAttackSurface c) \<and> IsValidAttackSurfaceValue (fst (GetAttackSurface c)) \<and>
     snd (GetSecurityFunction c) \<and> IsValidSecurityFunctionValue (fst (GetSecurityFunction c))"
  by (auto simp: ValidateComponent_def ValidateComponentValues_def Let_def split: prod.splits)

text \<open>C31: A document with valid values passes the validation after they were set, whatever GOST properties its components had
  before; every other version of the specification is refused.\<close>

theorem upsert_makes_valid:
  assumes "IsValidAttackSurfaceValue (AttackSurface config)" "IsValidSecurityFunctionValue (SecurityFunction config)"
  shows "\<exists>bom'. Upsert (Some bom) config = Inr bom' \<and>
    Validate (Some bom') = (if bSpecVersion bom = SpecVersion1_6 then Inr () else Inl (UnsupportedVersion (bSpecVersion bom)))"
proof -
  obtain bom' where u: "Upsert (Some bom) config = Inr bom'" by (simp add: Upsert_def Let_def)
  have "ValidateComponent (SetComponent c config) = Inr ()" "ValidateComponent (SetComponent c (dependencyConfigOf config)) = Inr ()" for c
    using assms
    by (auto simp: ValidateComponent_Inr Get_SetComponent dependencyConfigOf_def IsUndefined_def IsValidAttackSurfaceValue_def
        IsValidSecurityFunctionValue_def gost_values)
  then have "validateBOMWith ValidateComponent bom' = Inr ()"
    unfolding validateBOMWith_Inr Upsert_bom(1,2) [OF u] by (auto simp: list_all_iff givenBy_def)
  then show ?thesis using u Upsert_bom(3) [OF u] by (simp add: Validate_def)
qed

theorem upsert_makes_valid_witness:
  "Validate (Some twinsDocument) \<noteq> Inr () \<and>
   (\<exists>bom'. Upsert (Some twinsDocument) DefaultConfig = Inr bom' \<and> Validate (Some bom') = Inr ())"
proof -
  have invalid: "\<not> (case Validate (Some twinsDocument) of Inl e \<Rightarrow> False | Inr u \<Rightarrow> True)" by code_simp
  have config: "IsValidAttackSurfaceValue (AttackSurface DefaultConfig)" "IsValidSecurityFunctionValue (SecurityFunction DefaultConfig)"
    by code_simp+
  have "bSpecVersion twinsDocument = SpecVersion1_6" by code_simp
  then show ?thesis using upsert_makes_valid [OF config, of twinsDocument] invalid by (auto split: sum.splits)
qed

section \<open>Source languages\<close>

text \<open>The set of languages that a value stands for.\<close>

definition langSet :: "string list \<Rightarrow> string set" where
  "langSet langs = TrimSpace ` set langs - {[]}"

lemma finite_langSet [simp]: "finite (langSet langs)"
  by (simp add: langSet_def)


lemma langSet_append [simp]: "langSet (xs @ ys) = langSet xs \<union> langSet ys"
  by (auto simp: langSet_def)

lemma langSet_sorted [simp]: "langSet (sorted_list_of_set (langSet langs)) = langSet langs"
proof -
  have "TrimSpace x = x" if "x \<in> langSet langs" for x using that by (auto simp: langSet_def)
  then have "TrimSpace ` langSet langs = langSet langs" by simp
  then show ?thesis by (auto simp: langSet_def [of "sorted_list_of_set (langSet langs)"]) (auto simp: langSet_def)
qed


lemma splits_no_comma [simp]: "list_all (\<lambda>l. CHR '','' \<notin> set l) (splitSourceLangs raw)"
  by (simp add: splitSourceLangs_def list_all_iff SplitChar_elem)



end
