(* ===== verification/Spec2Isabelle.thy ===== *)
theory Spec2Isabelle
  imports GitRefsProps ScanHistory Parallel ImageProps CleanupHistory Purge BuildPlan Anchors DiffProps PathMatcherProps SlugProps
    HostProps HostLimits GitGCProps SbomMergeProps SbomGostProps
begin

text \<open>
  \<^bold>\<open>A verification of the core of werf\<close>

  The program builds images from a git repository and keeps them, stage by stage, in a container registry. Two of
  its parts carry most of its own logic and are modelled first: the \<^emph>\<open>cleanup of the registry\<close> (\<^verbatim>\<open>src/pkg/cleaning\<close>),
  which decides what is deleted, and the \<^emph>\<open>planning of a build\<close> (\<^verbatim>\<open>src/pkg/build\<close>), which decides what is built, in
  which order and under which digest; and, between git and the build, the \<^emph>\<open>parser of diffs\<close> (\<^verbatim>\<open>src/pkg/true_git\<close>)
  and the \<^emph>\<open>path matchers\<close> (\<^verbatim>\<open>src/pkg/path_matcher\<close>). The third is the \<^emph>\<open>cleanup of the host\<close> (\<^verbatim>\<open>src/pkg/host_cleaning\<close>
  with \<^verbatim>\<open>src/pkg/git_repo/gitdata\<close> and \<^verbatim>\<open>src/pkg/tmp_manager\<close>), which removes images, git caches and temporary files when
  a volume is too full. The fourth are the \<^emph>\<open>documents about the contents of images\<close> (\<^verbatim>\<open>src/pkg/sbom/cyclonedxutil\<close>): how
  documents of base images and imports are merged and made canonical, and which components count as attack surface.

  \<^bold>\<open>Conventions.\<close> A struct is a \<^theory_text>\<open>record\<close>, a Go map an association list with at most one entry for a key
  (\<open>goMap\<close>), a string a list of bytes. A function that may return an error has a sum as its result, \<open>Inl\<close> the error;
  \<open>bindR\<close> is the early return and \<open>foldR\<close> the loop that stops at the first error. State is passed and returned. Where
  the source iterates over a Go map, or sorts with an unstable sort, the order is a parameter that is only known to
  be a permutation. What is not in the repository (registries, go-git, Kubernetes, hash functions, helpers of other
  modules) is a parameter, a field of the record of the environment of the component. Log output is left out everywhere.

  \<^bold>\<open>Theories.\<close>

  \<^item> \<open>Prelude\<close>: error results, loops, Go maps, stable and unstable sorting, and their lemmas. \<open>GoStrings\<close> and
    \<open>GoQuote\<close>: the functions of the Go library on strings and paths that the code calls.

  \<^item> \<open>Image\<close> (\<^verbatim>\<open>pkg/image/stage.go\<close>, \<^verbatim>\<open>info.go\<close>, the tags of \<^verbatim>\<open>pkg/storage/repo_stages_storage.go\<close>, the choice of a
    timestamp in \<^verbatim>\<open>storage_manager.go\<close>): identifiers of stages and their tags. \<open>ImageProps\<close>: the tags of stages and of
    rejected stages are read back and never taken for one another, and the loop that looks for a free timestamp returns.

  \<^item> \<open>MetaCleanup\<close> (\<^verbatim>\<open>pkg/config/meta_cleanup.go\<close>, \<^verbatim>\<open>raw_meta_cleanup.go\<close>): the policies of the cleanup section, their
    checks and conversion; the policies that pass have the shape the selection of references relies on.

  \<^item> \<open>GitRefs\<close>, \<open>GitRefsProps\<close> (\<^verbatim>\<open>git_history_based_cleanup/reference_to_scan.go\<close>): which branches and tags are scanned,
    how policies are merged, and what the limits on references keep.

  \<^item> \<open>Scanner\<close>, \<open>ScannerProps\<close>, \<open>ScanHistory\<close> (\<^verbatim>\<open>scanner.go\<close>): the walk over the history of a reference. A stage is
    kept exactly for the commits reached, the scan returns, and the limits on images keep the latest.

  \<^item> \<open>Parallel\<close> (\<^verbatim>\<open>pkg/util/parallel\<close>): the distribution of tasks over workers, the sequential schedule that the
    models of bulk operations use, and a step relation for all the other schedules, in which every task runs once.

  \<^item> \<open>StageManager\<close> (\<^verbatim>\<open>cleaning/stage_manager\<close>), \<open>Storage\<close> (\<^verbatim>\<open>storage_manager.go\<close>, the report, the classification of
    registry errors): the set of stages under management with its protection reasons, whose contract is the locale
    \<open>protecting\<close>, interpreted for the managed stages, the manager and the final stages; the bulk deletions.

  \<^item> \<open>Deletions\<close>, \<open>Protection\<close>, \<open>ProtectionProps\<close>, \<open>Cleanup\<close>, \<open>CleanupProps\<close>, \<open>CleanupHistory\<close> (\<^verbatim>\<open>cleaning/cleanup.go\<close>):
    the deletions, the policies, the walk to the relatives of kept stages, and the whole run. What a policy keeps
    survives a run, with its ancestors and sources; a dry run issues no deletion and predicts what a run deletes.
    A policy keeps stages, not their custom tags or rejected stages. \<open>Purge\<close> (\<^verbatim>\<open>cleaning/purge.go\<close>): the phases of the purge delete
    everything, the marker of the meta repository last.

  \<^item> \<open>Graph\<close> (\<^verbatim>\<open>pkg/build/image/graph.go\<close>): the graph of the images, its errors, the topological sort and the levels. The
    locale \<open>build_order\<close> is the contract of the graph for its clients. \<open>Scheduler\<close> (\<^verbatim>\<open>graph_scheduler.go\<close>, with
    \<^verbatim>\<open>DoTasksDynamic\<close>): the scheduler and its workers as a step relation. It refines an abstract scheduler in which a node
    starts once its dependencies are finished; it ends; unless a build fails or the caller cancels its context it leaves nothing
    unbuilt; its channels never block.

  \<^item> \<open>BuildPlan\<close> (\<^verbatim>\<open>build_phase.go\<close>, \<^verbatim>\<open>conveyor.go\<close>): the images that are skipped, as a greatest fixed point, and the
    parallel processing of the others. \<open>Anchors\<close> (\<^verbatim>\<open>build_phase.go\<close>): the content-based digests; by the locale
    \<open>dependency_evaluation\<close> the pass gives the same digests under every schedule.

  \<^item> \<open>DiffParser\<close>, \<open>DiffProps\<close> (\<^verbatim>\<open>pkg/true_git/diff_parser.go\<close>, \<^verbatim>\<open>patch.go\<close>): the parser of diffs as a state machine over
    bytes, and what it makes of the diffs that git prints.

  \<^item> \<open>PathMatcher\<close>, \<open>PathMatcherProps\<close> (\<^verbatim>\<open>pkg/path_matcher\<close>, the keys of the caches in \<^verbatim>\<open>pkg/true_git\<close>): which paths and
    directories a matcher selects, and which matchers have the same key.

  \<^item> \<open>SlugMap\<close>, \<open>Slug\<close>, \<open>SlugProps\<close> (\<^verbatim>\<open>pkg/slug\<close>): names made of arbitrary strings. The loop over characters is shown
    equal to a description without flags; limited slugs are within their limit and their own slugs; the tags,
    namespaces and releases that are made pass their validation.

  \<^item> \<open>Effects\<close>: operations that change a state and may fail, and triples for them. \<open>HostCalls\<close>: the calls that the cleanup
    of the host makes, as the state, and their answers, which may depend on all earlier calls, as a parameter; sizes are
    64-bit words, and the floating-point arithmetic on them is rounded as Go does.

  \<^item> \<open>LocalGC\<close>, \<open>LocalGCProps\<close> (\<^verbatim>\<open>host_cleaning/local_backend_cleaner.go\<close>): the garbage collection of the container backend.
    It removes nothing that is locked, the least recently used images first, in batches no larger than needed.

  \<^item> \<open>TmpGC\<close> (\<^verbatim>\<open>tmp_manager/gc.go\<close>, \<^verbatim>\<open>purge.go\<close>), \<open>HostPurge\<close> (\<^verbatim>\<open>host_purge.go\<close>, \<^verbatim>\<open>local_purger.go\<close>, \<^verbatim>\<open>images.go\<close>): temporary files and
    the purge of the host. \<open>GitData\<close>, \<open>GitDataGC\<close> (\<^verbatim>\<open>git_repo/gitdata\<close>): the collectors of the git caches, the wipe of
    old versions and the eviction of entries. \<open>HostCleanup\<close> (\<^verbatim>\<open>host_cleanup.go\<close>, \<^verbatim>\<open>units/units.go\<close>): limits, the whole cleanup, and
    the decision to run it in the background.

  \<^item> \<open>HostPolicy\<close>: the locale \<open>host_policy\<close>, a policy on calls that allows reading, with everything that only reads, and
    its extension \<open>removal_policy\<close>, with the whole garbage collection of the git caches. \<open>HostProps\<close>, \<open>GitGCProps\<close> and \<open>HostLimits\<close>
    interpret them for the policies of the single properties: dry runs change nothing; temporary files are removed
    when they are old enough; the purge spares new and used images; the git caches are cleaned inside their
    directories only, entries are evicted in the order of rank, last access and path and no longer than bytes have to be freed,
    versions only when stale; failures are reported
    together; percentages are computed exactly.

  \<^item> \<open>Sbom\<close>: documents, components and services as trees. \<open>GoSpace\<close>, \<open>GoURL\<close>: white space and query strings of the Go
    library. \<open>SbomLicense\<close> (\<^verbatim>\<open>license.go\<close>, \<^verbatim>\<open>spdx_exceptions.go\<close>, the list of \<^verbatim>\<open>validate.go\<close>): the parser of license
    expressions accepts the grammar of SPDX 2.3, annex D, with three laxities at the leaves that are stated exactly, and
    normalized lists have the shape of the schema.

  \<^item> \<open>SbomForest\<close>: the loop that merges duplicates in a tree of entities, which \<^verbatim>\<open>canonicalize.go\<close> has for components and for
    services. Its contract is the locale \<open>entity_laws\<close>, with the extension \<open>identified_entity\<close> for entities whose label is part
    of the key. A service counts as the one its bar-joined key names, which is the triple of group, name and version where these have
    no bars. \<open>SbomRefs\<close> (\<^verbatim>\<open>bomref.go\<close>, \<^verbatim>\<open>namespace.go\<close>), \<open>SbomCanon\<close> (\<^verbatim>\<open>canonicalize.go\<close>), \<open>SbomMerge\<close> (\<^verbatim>\<open>merge.go\<close> and the smaller
    changes): references, canonical documents, and merges. \<open>SbomCanonProps\<close> interprets the locales for components and services,
    and follows the redirections of refs as a step relation. \<open>SbomProps\<close>: the dependency graph of a canonical document is the
    quotient of the graph by the merged entities, every reference has a target (for documents that declare any ref; the code leaves
    the graph of the others alone), and packages occur once. \<open>SbomNamespace\<close>: inputs
    of a merge are kept apart. \<open>SbomMergeProps\<close>: a merge has every package and service of its inputs once.

  \<^item> \<open>SbomGost\<close>, \<open>SbomScc\<close>, \<open>SbomUpsert\<close> (\<^verbatim>\<open>cyclonedxutil/gost\<close>): the GOST values, the algorithm of Tarjan, and the choice between
    direct and indirect components. \<open>SbomSccProps\<close>: the labels are those of the strongly connected components, by an invariant over
    the stack. \<open>SbomGostProps\<close>: values follow reachability, the result is valid, and source languages are sets.

  \<^bold>\<open>Fuel and bounds.\<close> Loops are structural recursion or have a termination proof, with two exceptions that run on fuel:
  \<open>visit\<close> of the topological sort has \<open>length images + 1\<close>, and the error of running out is proved impossible, since each
  nested call turns one more image gray; \<open>firstFreeTs\<close> has one unit more than there are stages, and is proved to
  return. The number of lines that the diff parser counts is a 64-bit word. The loop of
  \<open>removeEmptyParents\<close> ends at a directory that is its own parent; the loop over batches of images ends because each batch has
  an image; the loop that merges entities because it never has more entities than it was given; the visits of Tarjan because each
  one sees a new node; the parser of licenses because each term advances it; a chain of redirected refs because refs that were
  seen stop it.

  \<^bold>\<open>Concurrency.\<close> The bulk operations of the cleanup are modelled in the schedule in which one worker runs after the
  other; \<open>Parallel\<close> shows of all schedules that each task is run once. Where the order of calls matters the statements do not
  depend on that schedule: the deletion of rejected stages is also modelled call by call with all interleavings of its tasks,
  and the calls of a phase of the purge are stated as a multiset. For the build, the step relation of \<open>Scheduler\<close>
  ranges over all schedules and has the cancellation of the context by the caller as a step of its environment. Operations under a mutex are single steps. A task takes effect when it finishes.

  \<^bold>\<open>Not modelled.\<close> Building itself (container backends, stages, Dockerfiles), registries and their clients, storage
  caches and locks, git access apart from the parser of diffs, reading of configuration apart from the cleanup section,
  giterminism, deployment, signing, the scanning of images and the export of their documents, and the command line: these are
  mostly input and output around third-party libraries. Of documents, validation against the JSON schema and the encoder are a
  library. Of the modelled files, log output, the tables printed by the cleanup, reading of the
  keep list, debug output, reports and the file of the notice about the cleanup in the background are left out; the
  removal of a project directory by the backend is one call.
\<close>

end
